(* ===== verification/Prelude.thy ===== *)
theory Prelude
  imports Main "HOL-Library.Word" "HOL-Library.List_Lexorder" "HOL-Library.Product_Lexorder"
begin

text \<open>
  Shared vocabulary of the development: the Go integer widths, fixed-size hashes, the error
  combinators every fallible operation is written with, and the generic list and word lemmas the
  component theories rely on.
\<close>

section \<open>Collections of facts\<close>

named_theorems err_simps \<open>evaluation of the error combinators\<close>
named_theorems word_bounds \<open>facts that move unsigned words to naturals without wrap-around\<close>

section \<open>Machine integers\<close>

text \<open>
  Go's unsigned integers are words of the same width, so \<open>+\<close> wraps as in the program. A Go
  \<^verbatim>\<open>int64\<close> is an \<open>int\<close> whose arithmetic is followed by \<open>wrap_int64\<close> where the
  program could leave the range; \<open>int64_of_uint64\<close> and \<open>uint64_of_int64\<close> are the two
  conversions.
\<close>

type_synonym byte = "8 word"
type_synonym u8 = "8 word"
type_synonym u16 = "16 word"
type_synonym u32 = "32 word"
type_synonym u64 = "64 word"
type_synonym uuid = "128 word"
type_synonym bytes = "byte list"
type_synonym time = int

abbreviation max_uint64 :: u64 where
  "max_uint64 \<equiv> - 1"

definition max_int64 :: int where
  "max_int64 = 2 ^ 63 - 1"

definition max_uint32 :: nat where
  "max_uint32 = 2 ^ 32 - 1"

definition wrap_int64 :: "int \<Rightarrow> int" where
  "wrap_int64 x = (x + 2 ^ 63) mod 2 ^ 64 - 2 ^ 63"

definition int64_of_uint64 :: "u64 \<Rightarrow> int" where
  "int64_of_uint64 w = wrap_int64 (uint w)"

definition uint64_of_int64 :: "int \<Rightarrow> u64" where
  "uint64_of_int64 x = word_of_int x"

lemma wrap_int64_id [word_bounds]:
  assumes "- (2 ^ 63) \<le> x" and "x \<le> max_int64"
  shows "wrap_int64 x = x"
proof -
  have "(x + 2 ^ 63) mod 2 ^ 64 = x + 2 ^ 63"
    using assms by (intro mod_pos_pos_trivial) (simp_all add: max_int64_def)
  then show ?thesis by (simp add: wrap_int64_def)
qed

lemma int64_of_uint64_small [word_bounds]:
  "uint w \<le> max_int64 \<Longrightarrow> int64_of_uint64 w = uint w"
  by (simp add: int64_of_uint64_def wrap_int64_id uint_ge_0 order_trans [of _ 0])

lemma uint_uint64_of_int64 [word_bounds]:
  "0 \<le> x \<Longrightarrow> x < 2 ^ 64 \<Longrightarrow> uint (uint64_of_int64 x) = x"
  by (simp add: uint64_of_int64_def uint_word_of_int)

lemma unat_add_no_wrap [word_bounds]:
  fixes a :: u64
  assumes "unat a + n < 2 ^ 64"
  shows "unat (a + of_nat n) = unat a + n"
proof -
  have "unat (of_nat n :: u64) = n"
    using assms by (simp add: unat_of_nat)
  with assms show ?thesis
    by (simp add: unat_add_lem [THEN iffD1])
qed

lemma unat_u64_less: "unat (a :: u64) < 2 ^ 64"
  using unsigned_less [of a, where 'a = nat] by simp

lemma unat_max_uint64 [simp]: "unat max_uint64 = 2 ^ 64 - 1"
  by (simp add: unat_eq_nat_uint uint_word_ariths nat_eq_iff)

lemma u64_neq_0_iff: "(a :: u64) \<noteq> 0 \<longleftrightarrow> 0 < unat a"
  by (simp add: unat_gt_0)

section \<open>Fixed-size hashes\<close>

text \<open>
  \<^verbatim>\<open>model.Hash32\<close> and \<^verbatim>\<open>model.Hash28\<close> are Go arrays of exactly 32 and 28
  bytes: equality is byte equality, and \<^verbatim>\<open>bytes.Compare\<close> on their slices is the
  lexicographic order, which is a linear order.
\<close>

typedef hash32 = "{bs :: bytes. length bs = 32}"
  morphisms bytes32 Abs_hash32
  by (rule exI [of _ "replicate 32 0"]) simp

typedef hash28 = "{bs :: bytes. length bs = 28}"
  morphisms bytes28 Abs_hash28
  by (rule exI [of _ "replicate 28 0"]) simp

declare bytes32_inverse [code abstype] bytes28_inverse [code abstype]

definition fill32 :: "byte \<Rightarrow> hash32" where
  "fill32 b = Abs_hash32 (replicate 32 b)"

definition fill28 :: "byte \<Rightarrow> hash28" where
  "fill28 b = Abs_hash28 (replicate 28 b)"

text \<open>
  \<open>make32\<close> and \<open>make28\<close> copy a slice into an array; callers check the length first, as
  the program does.
\<close>

definition make32 :: "bytes \<Rightarrow> hash32" where
  "make32 bs = Abs_hash32 (if length bs = 32 then bs else replicate 32 0)"

definition make28 :: "bytes \<Rightarrow> hash28" where
  "make28 bs = Abs_hash28 (if length bs = 28 then bs else replicate 28 0)"

abbreviation zero32 :: hash32 where
  "zero32 \<equiv> fill32 0"

lemma length_bytes32 [simp]: "length (bytes32 h) = 32"
  using bytes32 [of h] by simp

lemma length_bytes28 [simp]: "length (bytes28 h) = 28"
  using bytes28 [of h] by simp

lemma bytes32_fill32 [simp, code abstract]: "bytes32 (fill32 b) = replicate 32 b"
  by (simp add: fill32_def Abs_hash32_inverse)

lemma bytes28_fill28 [simp, code abstract]: "bytes28 (fill28 b) = replicate 28 b"
  by (simp add: fill28_def Abs_hash28_inverse)

lemma bytes32_make32 [code abstract]:
  "bytes32 (make32 bs) = (if length bs = 32 then bs else replicate 32 0)"
  by (simp add: make32_def Abs_hash32_inverse)

lemma bytes28_make28 [code abstract]:
  "bytes28 (make28 bs) = (if length bs = 28 then bs else replicate 28 0)"
  by (simp add: make28_def Abs_hash28_inverse)

lemma make32_bytes32 [simp]: "make32 (bytes32 h) = h"
  by (simp add: make32_def bytes32_inverse)

lemma make28_bytes28 [simp]: "make28 (bytes28 h) = h"
  by (simp add: make28_def bytes28_inverse)

lemma make32_replicate [simp]: "make32 (replicate 32 b) = fill32 b"
  by (metis bytes32_fill32 make32_bytes32)

lemma bytes32_eq_iff [simp]: "bytes32 a = bytes32 b \<longleftrightarrow> a = b"
  by (rule bytes32_inject)

lemma bytes28_eq_iff [simp]: "bytes28 a = bytes28 b \<longleftrightarrow> a = b"
  by (rule bytes28_inject)

lemma fill32_eq_iff [simp]: "fill32 a = fill32 b \<longleftrightarrow> a = b"
proof -
  have "fill32 a = fill32 b \<longleftrightarrow> replicate 32 a = replicate 32 b"
    by (simp flip: bytes32_eq_iff)
  then show ?thesis by simp
qed

lemma fill28_eq_iff [simp]: "fill28 a = fill28 b \<longleftrightarrow> a = b"
proof -
  have "fill28 a = fill28 b \<longleftrightarrow> replicate 28 a = replicate 28 b"
    by (simp flip: bytes28_eq_iff)
  then show ?thesis by simp
qed

instantiation hash32 :: "{equal, linorder}"
begin

definition equal_hash32 :: "hash32 \<Rightarrow> hash32 \<Rightarrow> bool" where
  "equal_hash32 a b \<longleftrightarrow> bytes32 a = bytes32 b"

definition less_eq_hash32 :: "hash32 \<Rightarrow> hash32 \<Rightarrow> bool" where
  "less_eq_hash32 a b \<longleftrightarrow> bytes32 a \<le> bytes32 b"

definition less_hash32 :: "hash32 \<Rightarrow> hash32 \<Rightarrow> bool" where
  "less_hash32 a b \<longleftrightarrow> bytes32 a < bytes32 b"

instance
  by standard (auto simp: equal_hash32_def less_eq_hash32_def less_hash32_def less_le)

end

instantiation hash28 :: "{equal, linorder}"
begin

definition equal_hash28 :: "hash28 \<Rightarrow> hash28 \<Rightarrow> bool" where
  "equal_hash28 a b \<longleftrightarrow> bytes28 a = bytes28 b"

definition less_eq_hash28 :: "hash28 \<Rightarrow> hash28 \<Rightarrow> bool" where
  "less_eq_hash28 a b \<longleftrightarrow> bytes28 a \<le> bytes28 b"

definition less_hash28 :: "hash28 \<Rightarrow> hash28 \<Rightarrow> bool" where
  "less_hash28 a b \<longleftrightarrow> bytes28 a < bytes28 b"

instance
  by standard (auto simp: equal_hash28_def less_eq_hash28_def less_hash28_def less_le)

end

section \<open>Errors as values\<close>

text \<open>
  A Go function returning \<^verbatim>\<open>(T, error)\<close> is a function into \<open>'e + 't\<close>;
  \<open>bindE\<close> is the \<^verbatim>\<open>if err != nil { return err }\<close> idiom and \<open>guardE\<close> an early
  return.
\<close>

fun bindE :: "'e + 'a \<Rightarrow> ('a \<Rightarrow> 'e + 'b) \<Rightarrow> 'e + 'b" where
  "bindE (Inl e) f = Inl e"
| "bindE (Inr x) f = f x"

definition guardE :: "bool \<Rightarrow> 'e \<Rightarrow> 'e + unit" where
  "guardE b e = (if b then Inr () else Inl e)"

fun mapM :: "('a \<Rightarrow> 'e + 'b) \<Rightarrow> 'a list \<Rightarrow> 'e + 'b list" where
  "mapM f [] = Inr []"
| "mapM f (x # xs) = bindE (f x) (\<lambda>y. bindE (mapM f xs) (\<lambda>ys. Inr (y # ys)))"

lemma bindE_eq_Inr [err_simps]:
  "bindE m f = Inr y \<longleftrightarrow> (\<exists>x. m = Inr x \<and> f x = Inr y)"
  by (cases m) auto

lemma bindE_eq_Inl [err_simps]:
  "bindE m f = Inl e \<longleftrightarrow> m = Inl e \<or> (\<exists>x. m = Inr x \<and> f x = Inl e)"
  by (cases m) auto

lemma guardE_eq_Inr [err_simps]: "guardE b e = Inr u \<longleftrightarrow> b"
  by (simp add: guardE_def)

lemma guardE_eq_Inl [err_simps]: "guardE b e = Inl e' \<longleftrightarrow> \<not> b \<and> e = e'"
  by (auto simp: guardE_def)

lemma mapM_eq_Inr_iff: "mapM f xs = Inr ys \<longleftrightarrow> list_all2 (\<lambda>x y. f x = Inr y) xs ys"
  by (induction xs arbitrary: ys) (auto simp: err_simps list_all2_Cons1)

lemma mapM_set: "mapM f xs = Inr ys \<Longrightarrow> y \<in> set ys \<Longrightarrow> \<exists>x \<in> set xs. f x = Inr y"
  by (induction xs arbitrary: ys) (auto simp: err_simps)

lemma mapM_Inr_map: "(\<And>x. x \<in> set xs \<Longrightarrow> f x = Inr (g x)) \<Longrightarrow> mapM f xs = Inr (map g xs)"
  by (induction xs) auto

section \<open>Lists\<close>

lemma sorted_wrt_set_unique:
  assumes "sorted_wrt R xs" and "sorted_wrt R ys" and "set xs = set ys"
    and irrefl: "\<And>a. \<not> R a a" and trans: "\<And>a b c. R a b \<Longrightarrow> R b c \<Longrightarrow> R a c"
  shows "xs = ys"
  using assms(1-3)
proof (induction xs arbitrary: ys)
  case Nil
  then show ?case by simp
next
  case (Cons x xs)
  then obtain y ys' where ys: "ys = y # ys'"
    by (cases ys) auto
  have xy: "x = y"
  proof (rule ccontr)
    assume "x \<noteq> y"
    with Cons.prems ys have "R x y" and "R y x" by auto
    with irrefl trans show False by blast
  qed
  with Cons.prems ys irrefl have "x \<notin> set xs" and "x \<notin> set ys'" by auto
  with Cons.prems ys xy have "set xs = set ys'" by (auto simp: insert_eq_iff)
  with Cons.IH [of ys'] Cons.prems ys xy show ?case by simp
qed

lemma sorted_wrt_take [intro]: "sorted_wrt R xs \<Longrightarrow> sorted_wrt R (take n xs)"
  by (metis append_take_drop_id sorted_wrt_append)

lemma sorted_wrt_drop [intro]: "sorted_wrt R xs \<Longrightarrow> sorted_wrt R (drop n xs)"
  by (metis append_take_drop_id sorted_wrt_append)

lemma map_nth_upt: "map (\<lambda>i. f (xs ! i)) [0..<length xs] = map f xs"
  by (rule nth_equalityI) simp_all

lemma sum_list_map_add:
  "sum_list (map (\<lambda>x. f x + g x) xs) = sum_list (map f xs) + (sum_list (map g xs) :: 'b :: comm_monoid_add)"
  by (induction xs) (simp_all add: algebra_simps)

lemma sum_list_le_int: "(\<And>x. x \<in> set xs \<Longrightarrow> (0::int) \<le> f x) \<Longrightarrow> 0 \<le> sum_list (map f xs)"
  by (rule sum_list_nonneg) auto

fun find_index :: "('a \<Rightarrow> bool) \<Rightarrow> 'a list \<Rightarrow> nat option" where
  "find_index P [] = None"
| "find_index P (x # xs) = (if P x then Some 0 else map_option Suc (find_index P xs))"

lemma find_index_None_iff: "find_index P xs = None \<longleftrightarrow> (\<forall>x \<in> set xs. \<not> P x)"
  by (induction xs) auto

lemma find_index_Some_iff:
  "find_index P xs = Some i \<longleftrightarrow> i < length xs \<and> P (xs ! i) \<and> (\<forall>j < i. \<not> P (xs ! j))"
proof (induction xs arbitrary: i)
  case Nil
  then show ?case by simp
next
  case (Cons x xs)
  then show ?case by (cases i) (auto simp: All_less_Suc2)
qed

end
