(* ===== verification/Facts.thy ===== *)
theory Facts
  imports Prelude
begin

text \<open>
  The package \<^verbatim>\<open>internal/model\<close>: chain points, relay identities, agreed events and the
  SQL-facing facts of a normalized block. A nil-able pointer is an \<open>option\<close>, a Go slice a list;
  an instant is the number of nanoseconds since the zero \<^verbatim>\<open>time.Time\<close>, so the zero time is
  \<open>0\<close>. Event kinds are the \<^verbatim>\<open>uint8\<close> values of the source, which admit unknown kinds.
\<close>

section \<open>Events\<close>

record point =
  pt_Origin :: bool
  pt_Slot :: u64
  pt_Hash :: hash32
  pt_BlockNumber :: u64
  pt_IsByronEBB :: bool

text \<open>
  \<^verbatim>\<open>model.Point\<close>, \<^verbatim>\<open>store.Point\<close> and \<^verbatim>\<open>config.Point\<close> have the same
  five fields and are converted field by field; the development uses one record for the three.
\<close>

definition origin_point :: point where
  "origin_point = \<lparr>pt_Origin = True, pt_Slot = 0, pt_Hash = zero32, pt_BlockNumber = 0,
     pt_IsByronEBB = False\<rparr>"

record relay_identity =
  ri_Host :: string
  ri_Address :: string
  ri_Operator :: string
  ri_N2NVersion :: u16
  ri_NetworkMagic :: u32

type_synonym event_kind = u8

definition EventForward :: event_kind where
  "EventForward = 1"

definition EventRollback :: event_kind where
  "EventRollback = 2"

record agreed_event =
  ae_Kind :: event_kind
  ae_Point :: point
  ae_BlockType :: u64
  ae_ContentHash :: hash32
  ae_RawLength :: u64
  ae_RawCBOR :: bytes
  ae_Relays :: "relay_identity list"
  ae_ObservedAt :: time

section \<open>Facts of a block\<close>

record asset =
  as_PolicyID :: hash28
  as_Name :: bytes
  as_Quantity :: u64

record asset_delta =
  ad_PolicyID :: hash28
  ad_Name :: bytes
  ad_Quantity :: int

record tx_input =
  in_TransactionHash :: hash32
  in_TransactionOrder :: u32
  in_SourceHash :: hash32
  in_SourceIndex :: u32
  in_BodyOrdinal :: u32
  in_Role :: string
  in_Consumed :: bool

record tx_output =
  out_TransactionHash :: hash32
  out_TransactionOrder :: u32
  out_Index :: u32
  out_BodyOrdinal :: u32
  out_Kind :: string
  out_Address :: bytes
  out_PaymentCredentialKind :: "string option"
  out_PaymentCredentialHash :: "hash28 option"
  out_Lovelace :: u64
  out_Assets :: "asset list"
  out_DatumKind :: string
  out_DatumHash :: "hash32 option"
  out_ReferenceScriptHash :: "hash28 option"
  out_ReferenceScriptLanguage :: "string option"

record datum_observation =
  do_Hash :: hash32
  do_TransactionHash :: hash32
  do_TransactionOrder :: u32
  do_SourceKind :: string
  do_SourceOrdinal :: u32
  do_OutputIndex :: "u32 option"

record datum_body =
  db_Hash :: hash32
  db_CBOR :: bytes
  db_Observations :: "datum_observation list"

record withdrawal =
  wd_TransactionHash :: hash32
  wd_TransactionOrder :: u32
  wd_BodyOrdinal :: u32
  wd_RewardAccount :: bytes
  wd_Lovelace :: u64
  wd_Applied :: bool
  wd_CredentialKind :: "string option"
  wd_CredentialHash :: "hash28 option"

record redeemer =
  rd_TransactionHash :: hash32
  rd_TransactionOrder :: u32
  rd_RawPurposeTag :: u8
  rd_Purpose :: string
  rd_Index :: u32
  rd_DataCBOR :: bytes
  rd_DataHash :: hash32
  rd_ExUnitsMemory :: u64
  rd_ExUnitsSteps :: u64
  rd_Applied :: bool
  rd_TargetTxHash :: "hash32 option"
  rd_TargetOutputIndex :: "u32 option"
  rd_TargetPolicyID :: "hash28 option"
  rd_TargetRewardAccount :: "bytes option"
  rd_TargetBodyOrdinal :: "u32 option"
  rd_TargetIdentity :: "bytes option"
  rd_ResolvedScriptHash :: "hash28 option"

record metadata =
  md_TransactionHash :: hash32
  md_TransactionOrder :: u32
  md_Labels :: "u64 list"
  md_CBOR :: bytes
  md_ContentHash :: hash32

record transaction =
  tx_Hash :: hash32
  tx_Order :: u32
  tx_ParentHash :: "hash32 option"
  tx_SubtransactionIndex :: "u32 option"
  tx_Era :: string
  tx_Phase2Valid :: bool
  tx_FlowKind :: string
  tx_DeclaredFee :: "u64 option"
  tx_EffectiveFee :: "u64 option"
  tx_MintApplied :: bool
  tx_Mint :: "asset_delta list"
  tx_Inputs :: "tx_input list"
  tx_Outputs :: "tx_output list"
  tx_Withdrawals :: "withdrawal list"
  tx_Redeemers :: "redeemer list"
  tx_Metadata :: "metadata option"
  tx_DatumObservations :: "datum_observation list"

record block =
  bk_Hash :: hash32
  bk_ParentHash :: "hash32 option"
  bk_Slot :: u64
  bk_Number :: u64
  bk_Era :: string
  bk_Type :: int
  bk_Synthetic :: bool
  bk_Transactions :: "transaction list"
  bk_Datums :: "datum_body list"
  bk_ObservedAt :: time

text \<open>Small concrete blocks and points, used where a theorem is applied to a concrete input.\<close>

definition sample_point :: "byte \<Rightarrow> u64 \<Rightarrow> point" where
  "sample_point b n = \<lparr>pt_Origin = False, pt_Slot = n, pt_Hash = fill32 b, pt_BlockNumber = n,
     pt_IsByronEBB = False\<rparr>"

definition sample_block :: "byte \<Rightarrow> u64 \<Rightarrow> block" where
  "sample_block b n = \<lparr>bk_Hash = fill32 b, bk_ParentHash = None, bk_Slot = n, bk_Number = n,
     bk_Era = ''Conway'', bk_Type = 7, bk_Synthetic = False, bk_Transactions = [], bk_Datums = [],
     bk_ObservedAt = 5\<rparr>"

definition sample_relay :: "char \<Rightarrow> relay_identity" where
  "sample_relay c = \<lparr>ri_Host = [c], ri_Address = [c], ri_Operator = [c], ri_N2NVersion = 14,
     ri_NetworkMagic = 764824073\<rparr>"

end
