(* ===== verification/Pipeline_Types.thy ===== *)
theory Pipeline_Types
  imports Facts
begin

text \<open>
  The values that flow between agreement and publication: \<^verbatim>\<open>Event\<close> and \<^verbatim>\<open>Result\<close> of
  \<^verbatim>\<open>internal/pipeline/ordered.go\<close> and \<^verbatim>\<open>DecodedBlock\<close>, \<^verbatim>\<open>FactRows\<close> and
  \<^verbatim>\<open>DecodeAgreedBlock\<close> of \<^verbatim>\<open>internal/syncer/decode.go\<close>.
\<close>

record ('i, 'r) pipeline_event =
  ev_Forward :: "'i option"
  ev_Rollback :: "'r option"
  ev_Bytes :: int

record ('o, 'r) pipeline_result =
  rs_Sequence :: u64
  rs_Forward :: "'o option"
  rs_Rollback :: "'r option"

record decoded_block =
  dbk_Block :: block
  dbk_ChainPoint :: point
  dbk_ContentHash :: hash32
  dbk_RawLength :: u64
  dbk_Relays :: "relay_identity list"

definition FactRows :: "block \<Rightarrow> u64" where
  "FactRows b =
     fold (\<lambda>t rows.
         let rows = rows + 1;
             rows = rows + of_nat (length (tx_Inputs t));
             rows = rows + of_nat (length (tx_Outputs t));
             rows = rows + of_nat (length (tx_DatumObservations t));
             rows = rows + of_nat (length (tx_Withdrawals t));
             rows = rows + of_nat (length (tx_Redeemers t))
         in if tx_Metadata t \<noteq> None then rows + 1 else rows)
       (bk_Transactions b) (of_nat (1 + length (bk_Datums b)))"

definition clonePoint :: "point \<Rightarrow> point" where
  "clonePoint value = value"

definition cloneRelays :: "relay_identity list \<Rightarrow> relay_identity list" where
  "cloneRelays values = [] @ values"

datatype 'e decode_error =
    DecodeCancelled
  | NotForward
  | NoRetainedCBOR
  | NormalizeFailed 'e

text \<open>
  \<^verbatim>\<open>normalize.Decode\<close> is the parameter \<open>decode\<close>: block type and bytes to facts or an error.
\<close>

definition DecodeAgreedBlock :: "(u64 \<Rightarrow> bytes \<Rightarrow> 'e + block) \<Rightarrow> bool \<Rightarrow> agreed_event \<Rightarrow>
    'e decode_error + decoded_block" where
  "DecodeAgreedBlock decode cancelled event =
     (if cancelled then Inl DecodeCancelled
      else if ae_Kind event \<noteq> EventForward then Inl NotForward
      else if length (ae_RawCBOR event) = 0 then Inl NoRetainedCBOR
      else case decode (ae_BlockType event) (ae_RawCBOR event) of
          Inl e \<Rightarrow> Inl (NormalizeFailed e)
        | Inr facts \<Rightarrow> Inr \<lparr>dbk_Block = facts\<lparr>bk_ObservedAt := ae_ObservedAt event\<rparr>,
            dbk_ChainPoint = clonePoint (ae_Point event), dbk_ContentHash = ae_ContentHash event,
            dbk_RawLength = ae_RawLength event, dbk_Relays = cloneRelays (ae_Relays event)\<rparr>)"

text \<open>The number of facts of a block, and that \<^verbatim>\<open>FactRows\<close> counts them when they fit a word.\<close>

definition fact_count :: "block \<Rightarrow> nat" where
  "fact_count b = 1 + length (bk_Datums b) +
     sum_list (map (\<lambda>t. 1 + length (tx_Inputs t) + length (tx_Outputs t) +
       length (tx_DatumObservations t) + length (tx_Withdrawals t) + length (tx_Redeemers t) +
       (if tx_Metadata t \<noteq> None then 1 else 0)) (bk_Transactions b))"

lemma fold_add_words: "fold (\<lambda>t rows. rows + of_nat (n t)) ts (of_nat k :: u64) = of_nat (k + sum_list (map n ts))"
proof (induction ts arbitrary: k)
  case (Cons t ts)
  have "fold (\<lambda>t rows. rows + of_nat (n t)) (t # ts) (of_nat k :: u64) =
      fold (\<lambda>t rows. rows + of_nat (n t)) ts (of_nat (k + n t))"
    by simp
  also have "\<dots> = of_nat (k + n t + sum_list (map n ts))" by (rule Cons.IH)
  finally show ?case by (simp add: add.assoc)
qed simp

lemma FactRows_of_nat: "FactRows b = of_nat (fact_count b)"
proof -
  let ?n = "\<lambda>t. 1 + length (tx_Inputs t) + length (tx_Outputs t) + length (tx_DatumObservations t) +
    length (tx_Withdrawals t) + length (tx_Redeemers t) + (if tx_Metadata t \<noteq> None then 1 else 0 :: nat)"
  have step: "(\<lambda>t (rows :: u64).
         let rows = rows + 1;
             rows = rows + of_nat (length (tx_Inputs t));
             rows = rows + of_nat (length (tx_Outputs t));
             rows = rows + of_nat (length (tx_DatumObservations t));
             rows = rows + of_nat (length (tx_Withdrawals t));
             rows = rows + of_nat (length (tx_Redeemers t))
         in if tx_Metadata t \<noteq> None then rows + 1 else rows) = (\<lambda>t rows. rows + of_nat (?n t))"
    by (simp add: fun_eq_iff Let_def algebra_simps)
  show ?thesis
    unfolding FactRows_def fact_count_def by (subst step) (rule fold_add_words)
qed

lemma FactRows_exact: "fact_count b < 2 ^ 64 \<Longrightarrow> unat (FactRows b) = fact_count b"
  by (simp add: FactRows_of_nat unat_of_nat)

lemma FactRows_pos: "fact_count b < 2 ^ 64 \<Longrightarrow> 0 < unat (FactRows b)"
  by (simp add: FactRows_exact fact_count_def)

end
