(* ===== verification/Ordered_Mapper.thy ===== *)
theory Ordered_Mapper
  imports Pipeline_Types "HOL-Library.Multiset" "HOL-Library.AList"
begin

text \<open>
  \<^verbatim>\<open>internal/pipeline/ordered.go\<close>: the mapper that decodes forward events concurrently and
  delivers them in input order, with rollbacks as barriers. The main loop of \<^verbatim>\<open>Run\<close> and its
  worker goroutines are one transition system: \<open>mapper_move\<close> is a function of the move the
  scheduler picks, so a run is evaluated from its list of moves and the theorems quantify over all of
  them. A Go map is an association list. \<^verbatim>\<open>outstanding\<close> and \<^verbatim>\<open>outstandingBytes\<close> are
  integers: the invariant bounds them by the window and the byte bound, so they never leave their
  width; the sequence numbers are words and may wrap.
\<close>

section \<open>The mapper\<close>

record ordered_mapper =
  om_Workers :: int
  om_Window :: int
  om_MaxBytes :: int

record 'i decode_job =
  dj_sequence :: u64
  dj_value :: 'i
  dj_bytes :: int

text \<open>Value and error of a \<^verbatim>\<open>decodeResult\<close> are one sum: the value is not read when there is an error.\<close>

record ('e, 'o) decode_result =
  dr_sequence :: u64
  dr_outcome :: "'e + 'o"
  dr_bytes :: int

record ('o, 'r) ordered_result =
  or_value :: "('o, 'r) pipeline_result"
  or_bytes :: int

datatype ('e, 'f) mapper_error =
    ChannelsRequired
  | WorkersNotPositive
  | WindowTooSmall
  | ByteBoundNotPositive
  | DecoderRequired
  | NegativeBytes
  | EventTooLarge int int
  | ReleaseInputFailed 'f
  | DecodeFailed u64 'e
  | AccountingUnderflow
  | CannotProgress
  | EventMalformed
  | RollbackRetainsBytes
  | MapperCancelled
  | NilRollback

text \<open>The guards of \<^verbatim>\<open>Run\<close>; the first two arguments tell whether a channel or the decoder is nil.\<close>

definition mapper_checks :: "bool \<Rightarrow> bool \<Rightarrow> ordered_mapper \<Rightarrow> ('e, 'f) mapper_error option" where
  "mapper_checks channel_nil decode_nil cfg =
     (if channel_nil then Some ChannelsRequired
      else if om_Workers cfg < 1 then Some WorkersNotPositive
      else if om_Window cfg < om_Workers cfg then Some WindowTooSmall
      else if om_MaxBytes cfg \<le> 0 then Some ByteBoundNotPositive
      else if decode_nil then Some DecoderRequired
      else None)"

text \<open>The variables of the main loop.\<close>

record ('i, 'o, 'r) mapper_locals =
  ml_pending :: "(u64 \<times> ('o, 'r) ordered_result) list"
  ml_nextAssign :: u64
  ml_nextEmit :: u64
  ml_outstanding :: int
  ml_outstandingBytes :: int
  ml_inputOpen :: bool
  ml_barrier :: bool
  ml_held :: "('i, 'r) pipeline_event option"

definition initial_locals :: "('i, 'o, 'r) mapper_locals" where
  "initial_locals = \<lparr>ml_pending = [], ml_nextAssign = 0, ml_nextEmit = 0, ml_outstanding = 0,
     ml_outstandingBytes = 0, ml_inputOpen = True, ml_barrier = False, ml_held = None\<rparr>"

definition loop_continues :: "('i, 'o, 'r) mapper_locals \<Rightarrow> bool" where
  "loop_continues m \<longleftrightarrow> ml_inputOpen m \<or> ml_held m \<noteq> None \<or> ml_outstanding m > 0 \<or> ml_pending m \<noteq> []"

text \<open>What \<^verbatim>\<open>emitReady\<close> does with an item that the output accepted.\<close>

definition emit_item :: "('o, 'r) ordered_result \<Rightarrow> ('i, 'o, 'r) mapper_locals \<Rightarrow>
    ('e, 'f) mapper_error + ('i, 'o, 'r) mapper_locals" where
  "emit_item item m =
     (let m = (if rs_Rollback (or_value item) \<noteq> None then m\<lparr>ml_barrier := False\<rparr> else m);
          m = m\<lparr>ml_outstanding := ml_outstanding m - 1\<rparr>;
          m = m\<lparr>ml_outstandingBytes := ml_outstandingBytes m - or_bytes item\<rparr>
      in if ml_outstanding m < 0 \<or> ml_outstandingBytes m < 0 then Inl AccountingUnderflow
         else Inr (m\<lparr>ml_pending := AList.delete (ml_nextEmit m) (ml_pending m),
                     ml_nextEmit := ml_nextEmit m + 1\<rparr>))"

text \<open>
  What one pass of the loop does once \<^verbatim>\<open>emitReady\<close> found nothing to emit: fail, offer a job to
  the workers, continue with changed variables, wait on the second \<^verbatim>\<open>select\<close> with the input
  enabled or not, or break out of the loop.
\<close>

datatype ('i, 'o, 'r, 'e, 'f) loop_action =
    FailWith "('e, 'f) mapper_error"
  | Offer "'i decode_job"
  | LoopAgain "('i, 'o, 'r) mapper_locals"
  | WaitFor bool
  | BreakLoop

definition wait_action :: "ordered_mapper \<Rightarrow> ('i, 'o, 'r) mapper_locals \<Rightarrow>
    ('i, 'o, 'r, 'e, 'f) loop_action" where
  "wait_action cfg m =
     (let canRead = ml_inputOpen m \<and> ml_held m = None \<and> \<not> ml_barrier m \<and> ml_outstanding m < om_Window cfg
      in if \<not> canRead \<and> ml_outstanding m = 0 \<and> ml_held m \<noteq> None then FailWith CannotProgress
         else if \<not> canRead \<and> ml_outstanding m = 0 \<and> \<not> ml_inputOpen m \<and> ml_pending m = [] then BreakLoop
         else WaitFor canRead)"

definition hold_rollback :: "'r \<Rightarrow> ('i, 'o, 'r) mapper_locals \<Rightarrow> ('i, 'o, 'r) mapper_locals" where
  "hold_rollback v m = m\<lparr>ml_pending := AList.update (ml_nextAssign m)
       \<lparr>or_value = \<lparr>rs_Sequence = ml_nextAssign m, rs_Forward = None, rs_Rollback = Some v\<rparr>, or_bytes = 0\<rparr>
       (ml_pending m),
     ml_outstanding := ml_outstanding m + 1, ml_nextAssign := ml_nextAssign m + 1,
     ml_held := None, ml_barrier := True\<rparr>"

definition loop_action_of :: "ordered_mapper \<Rightarrow> ('i, 'o, 'r) mapper_locals \<Rightarrow>
    ('i, 'o, 'r, 'e, 'f) loop_action" where
  "loop_action_of cfg m =
     (case ml_held m of
        None \<Rightarrow> wait_action cfg m
      | Some event \<Rightarrow>
          if \<not> ml_barrier m \<and> ml_outstanding m < om_Window cfg then
            (case ev_Forward event of
               Some v \<Rightarrow>
                 if ev_Bytes event < 0 then FailWith NegativeBytes
                 else if ev_Bytes event > om_MaxBytes cfg
                 then FailWith (EventTooLarge (ev_Bytes event) (om_MaxBytes cfg))
                 else if ev_Bytes event \<le> om_MaxBytes cfg - ml_outstandingBytes m
                 then Offer \<lparr>dj_sequence = ml_nextAssign m, dj_value = v, dj_bytes = ev_Bytes event\<rparr>
                 else wait_action cfg m
             | None \<Rightarrow>
                 (case ev_Rollback event of
                    None \<Rightarrow> FailWith NilRollback
                  | Some v \<Rightarrow> LoopAgain (hold_rollback v m)))
          else wait_action cfg m)"

text \<open>After a worker took the offered job and the release of its input bytes succeeded.\<close>

definition job_accepted :: "'i decode_job \<Rightarrow> ('i, 'o, 'r) mapper_locals \<Rightarrow> ('i, 'o, 'r) mapper_locals" where
  "job_accepted job m = m\<lparr>ml_outstanding := ml_outstanding m + 1,
     ml_outstandingBytes := ml_outstandingBytes m + dj_bytes job,
     ml_nextAssign := ml_nextAssign m + 1, ml_held := None\<rparr>"

text \<open>Both \<^verbatim>\<open>select\<close> statements handle a result of a worker in the same way.\<close>

definition accept_result :: "('e, 'o) decode_result \<Rightarrow> ('i, 'o, 'r) mapper_locals \<Rightarrow>
    ('e, 'f) mapper_error + ('i, 'o, 'r) mapper_locals" where
  "accept_result r m =
     (case dr_outcome r of
        Inl e \<Rightarrow> Inl (DecodeFailed (dr_sequence r) e)
      | Inr v \<Rightarrow> Inr (m\<lparr>ml_pending := AList.update (dr_sequence r)
          \<lparr>or_value = \<lparr>rs_Sequence = dr_sequence r, rs_Forward = Some v, rs_Rollback = None\<rparr>,
           or_bytes = dr_bytes r\<rparr> (ml_pending m)\<rparr>))"

text \<open>An event from the input, or its closing.\<close>

definition accept_input :: "('i, 'r) pipeline_event option \<Rightarrow> ('i, 'o, 'r) mapper_locals \<Rightarrow>
    ('e, 'f) mapper_error + ('i, 'o, 'r) mapper_locals" where
  "accept_input received m =
     (case received of
        None \<Rightarrow> Inr (m\<lparr>ml_inputOpen := False\<rparr>)
      | Some event \<Rightarrow>
          if (ev_Forward event = None) = (ev_Rollback event = None) then Inl EventMalformed
          else if ev_Rollback event \<noteq> None \<and> ev_Bytes event \<noteq> 0 then Inl RollbackRetainsBytes
          else Inr (m\<lparr>ml_held := Some event\<rparr>))"

section \<open>Main loop and workers\<close>

text \<open>
  Where the main loop stands: at the loop condition, in \<^verbatim>\<open>emitReady\<close> (the flag marks the call
  after the loop), at the \<^verbatim>\<open>select\<close> that offers a job, at the \<^verbatim>\<open>select\<close> that may
  read the input, in the deferred cleanup that waits for the workers, or returned.
\<close>

datatype ('i, 'e, 'f) mapper_pc =
    LoopTest
  | Emitting bool
  | Offering "'i decode_job"
  | Selecting bool
  | Closing "('e, 'f) mapper_error option"
  | Returned "('e, 'f) mapper_error option"

datatype ('i, 'e, 'o) worker =
    Idle
  | Busy "'i decode_job"
  | Sending "('e, 'o) decode_result"
  | Exited

text \<open>
  \<open>ms_consumed\<close>, \<open>ms_output\<close> and \<open>ms_released\<close> record what was received from the input,
  delivered to the output and passed to \<^verbatim>\<open>ReleaseInputBytes\<close>.
\<close>

record ('i, 'o, 'r, 'e, 'f) mapper_sys =
  ms_locals :: "('i, 'o, 'r) mapper_locals"
  ms_pc :: "('i, 'e, 'f) mapper_pc"
  ms_workers :: "('i, 'e, 'o) worker multiset"
  ms_results :: "('e, 'o) decode_result list"
  ms_ctxDone :: bool
  ms_consumed :: "('i, 'r) pipeline_event list"
  ms_output :: "('o, 'r) pipeline_result list"
  ms_released :: "int list"

definition mapper_start :: "ordered_mapper \<Rightarrow> ('i, 'o, 'r, 'e, 'f) mapper_sys" where
  "mapper_start cfg = \<lparr>ms_locals = initial_locals, ms_pc = LoopTest,
     ms_workers = replicate_mset (nat (om_Workers cfg)) Idle, ms_results = [], ms_ctxDone = False,
     ms_consumed = [], ms_output = [], ms_released = []\<rparr>"

fun closing :: "('i, 'e, 'f) mapper_pc \<Rightarrow> bool" where
  "closing (Closing e) = True"
| "closing (Returned e) = True"
| "closing _ = False"

definition take_action :: "('i, 'o, 'r, 'e, 'f) loop_action \<Rightarrow> ('i, 'o, 'r, 'e, 'f) mapper_sys \<Rightarrow>
    ('i, 'o, 'r, 'e, 'f) mapper_sys" where
  "take_action a s = (case a of
       FailWith e \<Rightarrow> s\<lparr>ms_pc := Closing (Some e)\<rparr>
     | Offer job \<Rightarrow> s\<lparr>ms_pc := Offering job\<rparr>
     | LoopAgain m \<Rightarrow> s\<lparr>ms_locals := m, ms_pc := LoopTest\<rparr>
     | WaitFor canRead \<Rightarrow> s\<lparr>ms_pc := Selecting canRead\<rparr>
     | BreakLoop \<Rightarrow> s\<lparr>ms_pc := Emitting True\<rparr>)"

text \<open>Continue with changed variables at the loop condition, or leave with an error.\<close>

definition loop_or_fail :: "('e, 'f) mapper_error + ('i, 'o, 'r) mapper_locals \<Rightarrow>
    ('i, 'o, 'r, 'e, 'f) mapper_sys \<Rightarrow> ('i, 'o, 'r, 'e, 'f) mapper_sys" where
  "loop_or_fail x s = (case x of
       Inl e \<Rightarrow> s\<lparr>ms_pc := Closing (Some e)\<rparr>
     | Inr m \<Rightarrow> s\<lparr>ms_locals := m, ms_pc := LoopTest\<rparr>)"

text \<open>
  The moves: the main loop computes to its next blocking point; the output accepts an item; an idle
  worker takes the offered job (with the answer of \<^verbatim>\<open>ReleaseInputBytes\<close>); the main loop
  receives a result, or an event from the input, or sees the context done; the context is cancelled;
  a worker finishes decoding (with a context that is done or not), sends its result, or stops.
\<close>

datatype ('i, 'r, 'e, 'f, 'o) mapper_choice =
    Advance
  | Deliver
  | TakeJob "'f option"
  | TakeResult
  | Receive "('i, 'r) pipeline_event option"
  | SeeCancelled
  | CancelContext
  | WorkerDecode "'i decode_job" bool
  | WorkerSend "('e, 'o) decode_result"
  | WorkerStop "('i, 'e, 'o) worker"

definition replace_worker :: "('i, 'e, 'o) worker \<Rightarrow> ('i, 'e, 'o) worker \<Rightarrow>
    ('i, 'o, 'r, 'e, 'f) mapper_sys \<Rightarrow> ('i, 'o, 'r, 'e, 'f) mapper_sys" where
  "replace_worker w w' s = s\<lparr>ms_workers := add_mset w' (ms_workers s - {#w#})\<rparr>"

definition after_send :: "('e, 'o) decode_result \<Rightarrow> ('i, 'e, 'o) worker" where
  "after_send r = (case dr_outcome r of Inl _ \<Rightarrow> Exited | Inr _ \<Rightarrow> Idle)"

fun advance :: "ordered_mapper \<Rightarrow> ('i, 'o, 'r, 'e, 'f) mapper_sys \<Rightarrow> ('i, 'o, 'r, 'e, 'f) mapper_sys option" where
  "advance cfg s =
     (let m = ms_locals s in
      case ms_pc s of
        LoopTest \<Rightarrow> Some (s\<lparr>ms_pc := Emitting (\<not> loop_continues m)\<rparr>)
      | Emitting final \<Rightarrow>
          if map_of (ml_pending m) (ml_nextEmit m) \<noteq> None then None
          else if final then Some (s\<lparr>ms_pc := Closing None\<rparr>)
          else Some (take_action (loop_action_of cfg m) s)
      | Closing e \<Rightarrow> if set_mset (ms_workers s) \<subseteq> {Exited} then Some (s\<lparr>ms_pc := Returned e\<rparr>) else None
      | _ \<Rightarrow> None)"

fun mapper_move :: "ordered_mapper \<Rightarrow> (bool \<Rightarrow> 'i \<Rightarrow> 'e + 'o) \<Rightarrow> ('i, 'r, 'e, 'f, 'o) mapper_choice \<Rightarrow>
    ('i, 'o, 'r, 'e, 'f) mapper_sys \<Rightarrow> ('i, 'o, 'r, 'e, 'f) mapper_sys option" where
  "mapper_move cfg decode Advance s = advance cfg s"
| "mapper_move cfg decode Deliver s =
     (case (ms_pc s, map_of (ml_pending (ms_locals s)) (ml_nextEmit (ms_locals s))) of
        (Emitting final, Some item) \<Rightarrow>
          (let s = s\<lparr>ms_output := ms_output s @ [or_value item]\<rparr> in
           case emit_item item (ms_locals s) of
             Inl e \<Rightarrow> Some (s\<lparr>ms_pc := Closing (Some e)\<rparr>)
           | Inr m \<Rightarrow> Some (s\<lparr>ms_locals := m\<rparr>))
      | _ \<Rightarrow> None)"
| "mapper_move cfg decode (TakeJob released) s =
     (case ms_pc s of
        Offering job \<Rightarrow>
          if Idle \<in># ms_workers s then
            (let s = replace_worker Idle (Busy job) (s\<lparr>ms_released := ms_released s @ [dj_bytes job]\<rparr>) in
             case released of
               Some e \<Rightarrow> Some (s\<lparr>ms_pc := Closing (Some (ReleaseInputFailed e))\<rparr>)
             | None \<Rightarrow> Some (s\<lparr>ms_locals := job_accepted job (ms_locals s), ms_pc := LoopTest\<rparr>))
          else None
      | _ \<Rightarrow> None)"
| "mapper_move cfg decode TakeResult s =
     (case (ms_pc s, ms_results s) of
        (Offering _, r # rs) \<Rightarrow> Some (loop_or_fail (accept_result r (ms_locals s)) (s\<lparr>ms_results := rs\<rparr>))
      | (Selecting _, r # rs) \<Rightarrow> Some (loop_or_fail (accept_result r (ms_locals s)) (s\<lparr>ms_results := rs\<rparr>))
      | _ \<Rightarrow> None)"
| "mapper_move cfg decode (Receive received) s =
     (if ms_pc s = Selecting True
      then Some (loop_or_fail (accept_input received (ms_locals s))
        (case received of None \<Rightarrow> s | Some event \<Rightarrow> s\<lparr>ms_consumed := ms_consumed s @ [event]\<rparr>))
      else None)"
| "mapper_move cfg decode SeeCancelled s =
     (if ms_ctxDone s \<and> (case ms_pc s of
           Emitting _ \<Rightarrow> map_of (ml_pending (ms_locals s)) (ml_nextEmit (ms_locals s)) \<noteq> None
         | Offering _ \<Rightarrow> True | Selecting _ \<Rightarrow> True | _ \<Rightarrow> False)
      then Some (s\<lparr>ms_pc := Closing (Some MapperCancelled)\<rparr>) else None)"
| "mapper_move cfg decode CancelContext s = Some (s\<lparr>ms_ctxDone := True\<rparr>)"
| "mapper_move cfg decode (WorkerDecode job c) s =
     (if Busy job \<in># ms_workers s \<and> (c \<longrightarrow> ms_ctxDone s \<or> closing (ms_pc s))
      then Some (replace_worker (Busy job) (Sending \<lparr>dr_sequence = dj_sequence job,
        dr_outcome = decode c (dj_value job), dr_bytes = dj_bytes job\<rparr>) s)
      else None)"
| "mapper_move cfg decode (WorkerSend r) s =
     (if Sending r \<in># ms_workers s \<and> int (length (ms_results s)) < om_Window cfg
      then Some (replace_worker (Sending r) (after_send r) (s\<lparr>ms_results := ms_results s @ [r]\<rparr>))
      else None)"
| "mapper_move cfg decode (WorkerStop w) s =
     (if w \<in># ms_workers s \<and> (case w of
           Idle \<Rightarrow> closing (ms_pc s)
         | Sending _ \<Rightarrow> ms_ctxDone s \<or> closing (ms_pc s)
         | _ \<Rightarrow> False)
      then Some (replace_worker w Exited s) else None)"

inductive mapper_reachable :: "ordered_mapper \<Rightarrow> (bool \<Rightarrow> 'i \<Rightarrow> 'e + 'o) \<Rightarrow>
    ('i, 'o, 'r, 'e, 'f) mapper_sys \<Rightarrow> bool" for cfg decode where
  mapper_begin: "mapper_checks False False cfg = (None :: ('e, 'f) mapper_error option) \<Longrightarrow>
     mapper_reachable cfg decode (mapper_start cfg)"
| mapper_continue: "mapper_reachable cfg decode s \<Longrightarrow> mapper_move cfg decode mv s = Some t \<Longrightarrow>
     mapper_reachable cfg decode t"

primrec mapper_run :: "ordered_mapper \<Rightarrow> (bool \<Rightarrow> 'i \<Rightarrow> 'e + 'o) \<Rightarrow>
    ('i, 'r, 'e, 'f, 'o) mapper_choice list \<Rightarrow> ('i, 'o, 'r, 'e, 'f) mapper_sys \<Rightarrow>
    ('i, 'o, 'r, 'e, 'f) mapper_sys option" where
  "mapper_run cfg decode [] s = Some s"
| "mapper_run cfg decode (mv # mvs) s =
     (case mapper_move cfg decode mv s of None \<Rightarrow> None | Some t \<Rightarrow> mapper_run cfg decode mvs t)"

lemma mapper_run_reachable:
  "mapper_reachable cfg decode s \<Longrightarrow> mapper_run cfg decode mvs s = Some t \<Longrightarrow> mapper_reachable cfg decode t"
  by (induction mvs arbitrary: s) (auto split: option.splits intro: mapper_continue)

end
