(* ===== verification/Mapper_Order.thy ===== *)
theory Mapper_Order
  imports Ordered_Mapper
begin

text \<open>
  The invariant of the ordered mapper. Every event that was assigned a sequence number and not yet
  delivered is in exactly one place (a worker, the result channel, the pending map), each place holds
  what the event with that number calls for, and the counters describe exactly these events.
\<close>

section \<open>What the output owes to the input\<close>

definition delivers :: "(bool \<Rightarrow> 'i \<Rightarrow> 'e + 'o) \<Rightarrow> nat \<Rightarrow> ('i, 'r) pipeline_event \<Rightarrow>
    ('o, 'r) pipeline_result \<Rightarrow> bool" where
  "delivers decode k ev r \<longleftrightarrow> rs_Sequence r = of_nat k \<and>
     (case ev_Forward ev of
        Some v \<Rightarrow> rs_Rollback r = None \<and> (\<exists>c out. decode c v = Inr out \<and> rs_Forward r = Some out)
      | None \<Rightarrow> rs_Forward r = None \<and> rs_Rollback r = ev_Rollback ev \<and> ev_Rollback ev \<noteq> None)"

definition well_formed :: "('i, 'r) pipeline_event \<Rightarrow> bool" where
  "well_formed ev \<longleftrightarrow> (ev_Forward ev = None) \<noteq> (ev_Rollback ev = None) \<and>
     (ev_Rollback ev \<noteq> None \<longrightarrow> ev_Bytes ev = 0)"

section \<open>Where the events are\<close>

text \<open>The number \<open>q\<close> belongs to an event of the window \<open>lo ..< hi\<close> that satisfies \<open>P\<close>.\<close>

definition carried :: "('i, 'r) pipeline_event list \<Rightarrow> nat \<Rightarrow> nat \<Rightarrow> u64 \<Rightarrow>
    (nat \<Rightarrow> ('i, 'r) pipeline_event \<Rightarrow> bool) \<Rightarrow> int \<Rightarrow> bool" where
  "carried evs lo hi q P b \<longleftrightarrow>
     (\<exists>k. lo \<le> k \<and> k < hi \<and> q = of_nat k \<and> P k (evs ! k) \<and> b = ev_Bytes (evs ! k))"

lemma carried_append: "hi \<le> length evs \<Longrightarrow> carried (evs @ [ev]) lo hi q P b = carried evs lo hi q P b"
  unfolding carried_def by (intro ex_cong1 conj_cong refl) (simp_all add: nth_append)

lemma carried_hi: "carried evs lo hi q P b \<Longrightarrow> carried evs lo (Suc hi) q P b"
  by (auto simp: carried_def less_Suc_eq)

lemma carried_lo: "carried evs lo hi q P b \<Longrightarrow> q \<noteq> of_nat lo \<Longrightarrow> carried evs (Suc lo) hi q P b"
  unfolding carried_def by (metis Suc_leI le_neq_implies_less)

lemma carried_mono: "carried evs lo hi q P b \<Longrightarrow> (\<And>k ev. P k ev \<Longrightarrow> Q k ev) \<Longrightarrow> carried evs lo hi q Q b"
  by (auto simp: carried_def)

abbreviation job_ok where
  "job_ok evs lo hi j \<equiv> carried evs lo hi (dj_sequence j) (\<lambda>k ev. ev_Forward ev = Some (dj_value j)) (dj_bytes j)"

abbreviation result_ok where
  "result_ok decode evs lo hi r \<equiv> carried evs lo hi (dr_sequence r)
     (\<lambda>k ev. \<exists>c v. ev_Forward ev = Some v \<and> dr_outcome r = decode c v) (dr_bytes r)"

abbreviation item_ok where
  "item_ok decode evs lo hi q it \<equiv> carried evs lo hi q (\<lambda>k ev. delivers decode k ev (or_value it)) (or_bytes it)"

primrec worker_seq :: "('i, 'e, 'o) worker \<Rightarrow> u64 multiset" where
  "worker_seq Idle = {#}"
| "worker_seq (Busy j) = {#dj_sequence j#}"
| "worker_seq (Sending r) = {#dr_sequence r#}"
| "worker_seq Exited = {#}"

primrec worker_ok where
  "worker_ok decode evs lo hi Idle = True"
| "worker_ok decode evs lo hi (Busy j) = job_ok evs lo hi j"
| "worker_ok decode evs lo hi (Sending r) = result_ok decode evs lo hi r"
| "worker_ok decode evs lo hi Exited = True"

definition window :: "nat \<Rightarrow> nat \<Rightarrow> u64 multiset" where
  "window lo hi = image_mset of_nat (mset_set {lo..<hi})"

definition in_flight :: "('i, 'e, 'o) worker multiset \<Rightarrow> ('e, 'o) decode_result list \<Rightarrow>
    (u64 \<times> 'b) list \<Rightarrow> u64 multiset" where
  "in_flight ws rs pend = \<Sum>\<^sub># (image_mset worker_seq ws) + mset (map dr_sequence rs) + mset (map fst pend)"

definition contents where
  "contents decode evs lo hi pend ws rs \<longleftrightarrow>
     (\<forall>w \<in># ws. worker_ok decode evs lo hi w) \<and> (\<forall>r \<in> set rs. result_ok decode evs lo hi r) \<and>
     (\<forall>(q, it) \<in> set pend. item_ok decode evs lo hi q it)"

text \<open>
  A worker that sees the cancelled context drops its result, so the window is covered exactly only
  while the context is not done.
\<close>

definition placed where
  "placed decode evs lo hi pend ws rs d \<longleftrightarrow> contents decode evs lo hi pend ws rs \<and>
     in_flight ws rs pend \<subseteq># window lo hi \<and> (\<not> d \<longrightarrow> in_flight ws rs pend = window lo hi)"

lemma window_Suc_hi: "lo \<le> hi \<Longrightarrow> window lo (Suc hi) = add_mset (of_nat hi) (window lo hi)"
  by (simp add: window_def atLeastLessThanSuc)

lemma window_Suc_lo: "lo < hi \<Longrightarrow> window lo hi = add_mset (of_nat lo) (window (Suc lo) hi)"
proof -
  assume "lo < hi"
  then have "{lo..<hi} = insert lo {Suc lo..<hi}" by auto
  then show ?thesis by (simp add: window_def)
qed

lemma of_nat_window_inj:
  assumes "lo \<le> j" "j < hi" "lo \<le> k" "k < hi" "hi - lo < 2 ^ 64" "(of_nat j :: u64) = of_nat k"
  shows "j = k"
proof -
  have same: "i = k" if "i \<le> k" "k - i < 2 ^ 64" "(of_nat i :: u64) = of_nat k" for i k
  proof -
    have "take_bit 64 i = take_bit 64 k" using that(3) by (simp add: word_of_nat_eq_iff)
    then have "k mod 2 ^ 64 = i mod 2 ^ 64" by (simp only: take_bit_eq_mod)
    then have "2 ^ 64 dvd k - i" using mod_eq_dvd_iff_nat [OF that(1)] by blast
    with that(1,2) show ?thesis using nat_dvd_not_less by fastforce
  qed
  have "j - k < 2 ^ 64" "k - j < 2 ^ 64" using assms(1-5) by linarith+
  then show ?thesis
    using same [OF _ _ assms(6)] same [OF _ _ assms(6) [symmetric]] nat_le_linear [of j k] by blast
qed

lemma worker_ok_append: "hi \<le> length evs \<Longrightarrow> worker_ok decode (evs @ [ev]) lo hi w = worker_ok decode evs lo hi w"
  by (cases w) (simp_all add: carried_append)

lemma worker_ok_hi: "worker_ok decode evs lo hi w \<Longrightarrow> worker_ok decode evs lo (Suc hi) w"
  by (cases w) (simp_all add: carried_hi)

lemma worker_ok_lo:
  "worker_ok decode evs lo hi w \<Longrightarrow> of_nat lo \<notin># worker_seq w \<Longrightarrow> worker_ok decode evs (Suc lo) hi w"
  by (cases w) (simp_all add: carried_lo)

lemma contents_append:
  "hi \<le> length evs \<Longrightarrow> contents decode (evs @ [ev]) lo hi pend ws rs = contents decode evs lo hi pend ws rs"
  by (simp add: contents_def worker_ok_append carried_append)

lemma contents_hi: "contents decode evs lo hi pend ws rs \<Longrightarrow> contents decode evs lo (Suc hi) pend ws rs"
  unfolding contents_def by (fast intro: worker_ok_hi carried_hi)

lemma not_in_flight:
  assumes "q \<notin># in_flight ws rs pend"
  shows "w \<in># ws \<Longrightarrow> q \<notin># worker_seq w" and "r \<in> set rs \<Longrightarrow> dr_sequence r \<noteq> q"
    and "(p, it) \<in> set pend \<Longrightarrow> p \<noteq> q"
  using assms by (force simp: in_flight_def dest!: multi_member_split)+

lemma contents_lo:
  assumes "contents decode evs lo hi pend ws rs" and "of_nat lo \<notin># in_flight ws rs pend"
  shows "contents decode evs (Suc lo) hi pend ws rs"
  using assms(1) not_in_flight [OF assms(2)] worker_ok_lo carried_lo
  unfolding contents_def by fast

section \<open>The moves keep every event in one place\<close>

lemma in_flight_worker [simp]:
  "in_flight (add_mset w ws) rs pend = worker_seq w + in_flight ws rs pend"
  by (simp add: in_flight_def)

lemma in_flight_result [simp]: "in_flight ws (r # rs) pend = add_mset (dr_sequence r) (in_flight ws rs pend)"
  by (simp add: in_flight_def)

lemma in_flight_result_last [simp]:
  "in_flight ws (rs @ [r]) pend = add_mset (dr_sequence r) (in_flight ws rs pend)"
  by (simp add: in_flight_def)

lemma update_new: "q \<notin> fst ` set al \<Longrightarrow> AList.update q v al = al @ [(q, v)]"
  by (induction al) auto

lemma in_flight_item: "in_flight ws rs (pend @ [(q, it)]) = add_mset q (in_flight ws rs pend)"
  by (simp add: in_flight_def)

lemma delete_split:
  assumes "distinct (map fst al)" and "map_of al q = Some v"
  shows "mset (map fst al) = add_mset q (mset (map fst (AList.delete q al)))"
  using assms
proof (induction al)
  case (Cons a al)
  show ?case
  proof (cases "fst a = q")
    case True
    with Cons.prems have "AList.delete q al = al" by (force intro: delete_id)
    with True show ?thesis by (cases a) (simp add: AList.delete_eq)
  next
    case False
    with Cons show ?thesis by (cases a) (auto simp: AList.delete_eq)
  qed
qed simp

lemma distinct_if_counts:
  assumes "\<And>q. count (mset xs) q \<le> 1"
  shows "distinct xs"
proof -
  have "count (mset xs) q = (if q \<in> set xs then 1 else 0)" for q
    using assms [of q] count_eq_zero_iff [of "mset xs" q] by (auto simp: le_Suc_eq)
  then show ?thesis by (simp add: distinct_count_atmost_1)
qed

lemma right_part_subset: "A + B \<subseteq># C \<Longrightarrow> B \<subseteq># C"
  by (meson mset_subset_eq_add_right subset_mset.order_trans)

lemma window_distinct:
  assumes "hi - lo < 2 ^ 64" and "M \<subseteq># window lo hi"
  shows "count M q \<le> 1"
proof -
  have inj: "inj_on (of_nat :: nat \<Rightarrow> u64) {lo..<hi}"
    using assms(1) by (auto simp: inj_on_def intro: of_nat_window_inj)
  have "count (window lo hi) q \<le> 1"
    unfolding window_def by (simp add: image_mset_mset_set [OF inj] count_mset_set')
  with assms(2) show ?thesis
    by (meson order_trans mset_subset_eq_count)
qed

lemma window_once:
  "hi - lo < 2 ^ 64 \<Longrightarrow> add_mset q M \<subseteq># window lo hi \<Longrightarrow> q \<notin># M"
  using window_distinct [of hi lo "add_mset q M" q] by (simp add: not_in_iff)

lemma carried_in_window: "carried evs lo hi q P b \<Longrightarrow> q \<in># window lo hi"
  by (auto simp: carried_def window_def)

lemma placed_take_job:
  assumes "placed decode evs lo hi pend ws rs d" and "Idle \<in># ws" and "lo \<le> hi"
    and "ev_Forward (evs ! hi) = Some (dj_value job)" and "dj_sequence job = of_nat hi"
    and "dj_bytes job = ev_Bytes (evs ! hi)"
  shows "placed decode evs lo (Suc hi) pend (add_mset (Busy job) (ws - {#Idle#})) rs d"
proof -
  obtain ws' where ws: "ws = add_mset Idle ws'" using assms(2) multi_member_split by metis
  have "job_ok evs lo (Suc hi) job" using assms by (auto simp: carried_def)
  moreover have "contents decode evs lo (Suc hi) pend ws rs"
    using assms(1) by (auto simp: placed_def intro: contents_hi)
  ultimately show ?thesis
    using assms(1,3,5) by (auto simp: ws placed_def contents_def window_Suc_hi)
qed

lemma placed_decode:
  assumes "placed decode evs lo hi pend ws rs d" and "Busy job \<in># ws"
  shows "placed decode evs lo hi pend (add_mset (Sending \<lparr>dr_sequence = dj_sequence job,
    dr_outcome = decode c (dj_value job), dr_bytes = dj_bytes job\<rparr>) (ws - {#Busy job#})) rs d"
proof -
  obtain ws' where ws: "ws = add_mset (Busy job) ws'" using assms(2) multi_member_split by metis
  have "job_ok evs lo hi job" using assms(1) by (auto simp: ws placed_def contents_def)
  then have "result_ok decode evs lo hi \<lparr>dr_sequence = dj_sequence job,
      dr_outcome = decode c (dj_value job), dr_bytes = dj_bytes job\<rparr>"
    unfolding decode_result.simps by (rule carried_mono) blast
  with assms(1) show ?thesis by (auto simp: ws placed_def contents_def)
qed

lemma after_send_simps [simp]: "worker_seq (after_send r) = {#}" "worker_ok decode evs lo hi (after_send r)"
  by (simp_all add: after_send_def split: sum.splits)

lemma placed_send:
  assumes "placed decode evs lo hi pend ws rs d" and "Sending r \<in># ws"
  shows "placed decode evs lo hi pend (add_mset (after_send r) (ws - {#Sending r#})) (rs @ [r]) d"
proof -
  obtain ws' where ws: "ws = add_mset (Sending r) ws'" using assms(2) multi_member_split by metis
  from assms(1) show ?thesis by (auto simp: ws placed_def contents_def)
qed

lemma placed_stop:
  assumes "placed decode evs lo hi pend ws rs True" and "w \<in># ws"
  shows "placed decode evs lo hi pend (add_mset Exited (ws - {#w#})) rs True"
proof -
  obtain ws' where ws: "ws = add_mset w ws'" using assms(2) multi_member_split by metis
  from assms(1) show ?thesis
    by (auto simp: ws placed_def contents_def intro: right_part_subset)
qed

lemma placed_result:
  assumes "placed decode evs lo hi pend ws (r # rs) d" and "dr_outcome r = Inr v" and "hi - lo < 2 ^ 64"
  shows "placed decode evs lo hi (AList.update (dr_sequence r)
    \<lparr>or_value = \<lparr>rs_Sequence = dr_sequence r, rs_Forward = Some v, rs_Rollback = None\<rparr>, or_bytes = dr_bytes r\<rparr> pend)
    ws rs d"
proof -
  let ?it = "\<lparr>or_value = \<lparr>rs_Sequence = dr_sequence r, rs_Forward = Some v, rs_Rollback = None\<rparr>,
    or_bytes = dr_bytes r\<rparr>"
  have "add_mset (dr_sequence r) (in_flight ws rs pend) \<subseteq># window lo hi"
    using assms(1) by (simp add: placed_def)
  then have "dr_sequence r \<notin># in_flight ws rs pend" using assms(3) window_once by blast
  then have new: "AList.update (dr_sequence r) ?it pend = pend @ [(dr_sequence r, ?it)]"
    by (intro update_new) (auto simp: in_flight_def)
  obtain k c w where k: "lo \<le> k" "k < hi" "dr_sequence r = of_nat k" "ev_Forward (evs ! k) = Some w"
    "dr_outcome r = decode c w" "dr_bytes r = ev_Bytes (evs ! k)"
    using assms(1) by (auto simp: placed_def contents_def carried_def)
  then have "delivers decode k (evs ! k) (or_value ?it)"
    using assms(2) by (auto simp: delivers_def)
  with k have "item_ok decode evs lo hi (dr_sequence r) ?it"
    unfolding carried_def by (intro exI [of _ k]) simp
  with assms(1) show ?thesis
    unfolding new by (auto simp: placed_def contents_def in_flight_item)
qed

lemma placed_rollback:
  assumes "placed decode evs lo hi pend ws rs d" and "lo \<le> hi" and "hi - lo < 2 ^ 64 - 1"
    and "ev_Forward (evs ! hi) = None" and "ev_Rollback (evs ! hi) = Some v" and "ev_Bytes (evs ! hi) = 0"
  shows "placed decode evs lo (Suc hi) (AList.update (of_nat hi)
    \<lparr>or_value = \<lparr>rs_Sequence = of_nat hi, rs_Forward = None, rs_Rollback = Some v\<rparr>, or_bytes = 0\<rparr> pend) ws rs d"
proof -
  let ?it = "\<lparr>or_value = \<lparr>rs_Sequence = of_nat hi, rs_Forward = None, rs_Rollback = Some v\<rparr>, or_bytes = 0\<rparr>"
  have "add_mset (of_nat hi) (in_flight ws rs pend) \<subseteq># window lo (Suc hi)"
    using assms(1,2) by (simp add: placed_def window_Suc_hi)
  then have "of_nat hi \<notin># in_flight ws rs pend"
    using assms(2,3) by (intro window_once) auto
  then have new: "AList.update (of_nat hi) ?it pend = pend @ [(of_nat hi, ?it)]"
    by (intro update_new) (auto simp: in_flight_def)
  have "item_ok decode evs lo (Suc hi) (of_nat hi) ?it"
    unfolding carried_def using assms by (intro exI [of _ hi]) (simp add: delivers_def)
  moreover have "contents decode evs lo (Suc hi) pend ws rs"
    using assms(1) by (auto simp: placed_def intro: contents_hi)
  ultimately show ?thesis
    using assms(1,2) unfolding new by (auto simp: placed_def contents_def in_flight_item window_Suc_hi)
qed

lemma placed_pending_distinct:
  assumes "placed decode evs lo hi pend ws rs d" and "hi - lo < 2 ^ 64"
  shows "distinct (map fst pend)"
proof -
  have "mset (map fst pend) \<subseteq># window lo hi"
    using assms(1) unfolding placed_def in_flight_def by (blast intro: right_part_subset)
  then have "count (mset (map fst pend)) q \<le> 1" for q using window_distinct assms(2) by blast
  then show ?thesis by (rule distinct_if_counts)
qed

lemma placed_emit:
  assumes "placed decode evs lo hi pend ws rs d" and "hi - lo < 2 ^ 64"
    and "map_of pend (of_nat lo) = Some it"
  shows "lo < hi" and "delivers decode lo (evs ! lo) (or_value it)" and "or_bytes it = ev_Bytes (evs ! lo)"
    and "placed decode evs (Suc lo) hi (AList.delete (of_nat lo) pend) ws rs d"
proof -
  have "item_ok decode evs lo hi (of_nat lo) it"
    using assms(1) map_of_SomeD [OF assms(3)] by (auto simp: placed_def contents_def)
  then obtain k where k: "lo \<le> k" "k < hi" "(of_nat lo :: u64) = of_nat k"
    "delivers decode k (evs ! k) (or_value it)" "or_bytes it = ev_Bytes (evs ! k)"
    by (auto simp: carried_def)
  then have "lo = k" using assms(2) of_nat_window_inj [of lo lo hi k] by simp
  with k show lo: "lo < hi" and "delivers decode lo (evs ! lo) (or_value it)"
    and "or_bytes it = ev_Bytes (evs ! lo)" by auto
  have split: "in_flight ws rs pend = add_mset (of_nat lo) (in_flight ws rs (AList.delete (of_nat lo) pend))"
    using delete_split [OF placed_pending_distinct [OF assms(1,2)] assms(3)] by (simp add: in_flight_def)
  then have "of_nat lo \<notin># in_flight ws rs (AList.delete (of_nat lo) pend)"
    using assms(1,2) window_once by (metis placed_def)
  moreover have "contents decode evs lo hi (AList.delete (of_nat lo) pend) ws rs"
    using assms(1) by (auto simp: placed_def contents_def AList.delete_eq)
  ultimately have "contents decode evs (Suc lo) hi (AList.delete (of_nat lo) pend) ws rs"
    by (intro contents_lo)
  then show "placed decode evs (Suc lo) hi (AList.delete (of_nat lo) pend) ws rs d"
    using assms(1) split window_Suc_lo [OF lo] by (auto simp: placed_def)
qed

end
