(* ===== verification/Mapper_Invariant.thy ===== *)
theory Mapper_Invariant
  imports Mapper_Order
begin

text \<open>
  The counters of the ordered mapper's main loop, its crew of workers and its control points, and the
  invariant of the whole transition system, with one lemma per move.
\<close>

section \<open>The counters\<close>

definition assigned :: "('i, 'r) pipeline_event list \<Rightarrow> ('i, 'o, 'r) mapper_locals \<Rightarrow> nat" where
  "assigned evs m = length evs - (if ml_held m = None then 0 else 1)"

definition forward_bytes :: "('i, 'r) pipeline_event list \<Rightarrow> int list" where
  "forward_bytes evs = map ev_Bytes (filter (\<lambda>ev. ev_Forward ev \<noteq> None) evs)"

definition sequenced where
  "sequenced cfg evs lo m \<longleftrightarrow> lo \<le> assigned evs m \<and> ml_nextAssign m = of_nat (assigned evs m) \<and>
     ml_nextEmit m = of_nat lo \<and> ml_outstanding m = int (assigned evs m) - int lo \<and> ml_outstanding m \<le> om_Window cfg"

definition held_last where
  "held_last evs m \<longleftrightarrow> (\<forall>ev \<in> set evs. well_formed ev) \<and>
     (\<forall>ev. ml_held m = Some ev \<longrightarrow> evs \<noteq> [] \<and> evs ! assigned evs m = ev)"

definition charged where
  "charged cfg evs lo m \<longleftrightarrow> ml_outstandingBytes m = (\<Sum>k = lo..<assigned evs m. ev_Bytes (evs ! k)) \<and>
     ml_outstandingBytes m \<le> om_MaxBytes cfg \<and> (\<forall>k < assigned evs m. 0 \<le> ev_Bytes (evs ! k))"

definition fenced where
  "fenced evs lo m \<longleftrightarrow>
     (\<forall>k. lo \<le> k \<and> k < assigned evs m \<and> ev_Rollback (evs ! k) \<noteq> None \<longrightarrow> Suc k = assigned evs m \<and> ml_barrier m) \<and>
     (ml_barrier m \<longrightarrow> ml_held m = None \<and> lo < assigned evs m \<and> ev_Rollback (evs ! (assigned evs m - 1)) \<noteq> None)"

definition counted where
  "counted cfg evs lo m rel \<longleftrightarrow> sequenced cfg evs lo m \<and> held_last evs m \<and> charged cfg evs lo m \<and>
     fenced evs lo m \<and> rel = forward_bytes (take (assigned evs m) evs)"

lemmas counted_defs = counted_def sequenced_def held_last_def charged_def fenced_def

lemma assigned_simps [simp]:
  "assigned evs (m\<lparr>ml_pending := p\<rparr>) = assigned evs m"
  "assigned evs (m\<lparr>ml_inputOpen := b\<rparr>) = assigned evs m"
  "assigned evs (m\<lparr>ml_barrier := b\<rparr>) = assigned evs m"
  "assigned evs (m\<lparr>ml_outstanding := i\<rparr>) = assigned evs m"
  "assigned evs (m\<lparr>ml_outstandingBytes := i\<rparr>) = assigned evs m"
  "assigned evs (m\<lparr>ml_nextEmit := q\<rparr>) = assigned evs m"
  "assigned evs (m\<lparr>ml_nextAssign := q\<rparr>) = assigned evs m"
  by (simp_all add: assigned_def)

lemma assigned_le: "assigned evs m \<le> length evs"
  by (simp add: assigned_def)

lemma assigned_held: "ml_held m = Some ev \<Longrightarrow> evs \<noteq> [] \<Longrightarrow> assigned evs m < length evs"
  by (simp add: assigned_def)

lemma assigned_release: "ml_held m = Some ev \<Longrightarrow> evs \<noteq> [] \<Longrightarrow> assigned evs (m\<lparr>ml_held := None\<rparr>) = Suc (assigned evs m)"
  by (simp add: assigned_def)

lemma counted_pending [simp]: "counted cfg evs lo (m\<lparr>ml_pending := p\<rparr>) rel = counted cfg evs lo m rel"
  by (simp add: counted_defs)

lemma counted_close [simp]: "counted cfg evs lo (m\<lparr>ml_inputOpen := b\<rparr>) rel = counted cfg evs lo m rel"
  by (simp add: counted_defs)

lemma forward_bytes_Suc:
  "hi < length evs \<Longrightarrow> forward_bytes (take (Suc hi) evs) =
     forward_bytes (take hi evs) @ (if ev_Forward (evs ! hi) = None then [] else [ev_Bytes (evs ! hi)])"
  by (simp add: forward_bytes_def take_Suc_conv_app_nth)

lemma delivers_rollback: "delivers decode k ev r \<Longrightarrow> well_formed ev \<Longrightarrow> rs_Rollback r = None \<longleftrightarrow> ev_Rollback ev = None"
  by (auto simp: delivers_def well_formed_def split: option.splits)

lemma emit_item_ok:
  assumes "counted cfg evs lo m rel" and "lo < assigned evs m"
    and "delivers decode lo (evs ! lo) (or_value it)" and "or_bytes it = ev_Bytes (evs ! lo)"
  obtains m' where "emit_item it m = Inr m'" and "counted cfg evs (Suc lo) m' rel"
    and "ml_pending m' = AList.delete (of_nat lo) (ml_pending m)" and "ml_held m' = ml_held m"
    and "ml_inputOpen m' = ml_inputOpen m"
proof -
  let ?hi = "assigned evs m"
  have sum: "(\<Sum>k = lo..<?hi. ev_Bytes (evs ! k)) = ev_Bytes (evs ! lo) + (\<Sum>k = Suc lo..<?hi. ev_Bytes (evs ! k))"
    using assms(2) by (rule sum.atLeast_Suc_lessThan)
  have nonneg: "0 \<le> (\<Sum>k = Suc lo..<?hi. ev_Bytes (evs ! k))"
    using assms(1) by (intro sum_nonneg) (auto simp: counted_defs)
  have wf: "well_formed (evs ! lo)"
    using assms(1,2) assigned_le [of evs m] by (auto simp: counted_defs)
  define m1 where "m1 = (if rs_Rollback (or_value it) \<noteq> None then m\<lparr>ml_barrier := False\<rparr> else m)"
  define m' where "m' = m1\<lparr>ml_outstanding := ml_outstanding m - 1,
    ml_outstandingBytes := ml_outstandingBytes m - or_bytes it,
    ml_pending := AList.delete (ml_nextEmit m) (ml_pending m), ml_nextEmit := ml_nextEmit m + 1\<rparr>"
  have "emit_item it m = Inr m'"
    using assms(1,2,4) nonneg by (simp add: emit_item_def m'_def m1_def Let_def counted_defs sum)
  moreover have "counted cfg evs (Suc lo) m' rel"
  proof -
    have "ml_held m' = ml_held m" by (simp add: m'_def m1_def)
    then have same: "assigned evs m' = ?hi" "ml_held m' = ml_held m" by (simp_all add: assigned_def)
    have "sequenced cfg evs (Suc lo) m'" "held_last evs m'"
      using assms(1,2) by (simp_all add: m'_def m1_def counted_def sequenced_def held_last_def)
    moreover have "charged cfg evs (Suc lo) m'"
    proof -
      have "0 \<le> ev_Bytes (evs ! lo)" using assms(1,2) by (simp add: counted_def charged_def)
      moreover have "ml_outstandingBytes m' = ml_outstandingBytes m - ev_Bytes (evs ! lo)"
        using assms(4) by (simp add: m'_def)
      ultimately show ?thesis
        using assms(1) sum by (simp add: counted_def charged_def same)
    qed
    moreover have "fenced evs (Suc lo) m'"
    proof (cases "ev_Rollback (evs ! lo) = None")
      case True
      then have bar: "ml_barrier m' = ml_barrier m"
        using delivers_rollback [OF assms(3) wf] by (simp add: m'_def m1_def)
      have "Suc lo < ?hi" if "ml_barrier m"
        using assms(1,2) that True by (metis counted_def fenced_def Suc_lessI diff_Suc_1)
      with assms(1) show ?thesis
        unfolding counted_def fenced_def same bar by (meson Suc_leD)
    next
      case False
      then have "\<not> ml_barrier m'" and "Suc lo = ?hi"
        using delivers_rollback [OF assms(3) wf] assms(1,2) by (simp_all add: m'_def m1_def counted_def fenced_def)
      then show ?thesis by (auto simp: fenced_def same)
    qed
    ultimately show ?thesis using assms(1) same by (simp add: counted_def)
  qed
  moreover have "ml_pending m' = AList.delete (of_nat lo) (ml_pending m)" "ml_held m' = ml_held m"
    "ml_inputOpen m' = ml_inputOpen m"
    using assms(1) by (simp_all add: m'_def m1_def counted_def sequenced_def)
  ultimately show ?thesis by (rule that)
qed

lemma counted_job:
  assumes "counted cfg evs lo m rel" and "ml_held m = Some ev" and "ev_Forward ev = Some v"
    and "\<not> ml_barrier m" and "ml_outstanding m < om_Window cfg" and "0 \<le> ev_Bytes ev"
    and "ev_Bytes ev \<le> om_MaxBytes cfg - ml_outstandingBytes m" and "dj_bytes job = ev_Bytes ev"
  shows "assigned evs (job_accepted job m) = Suc (assigned evs m)"
    and "counted cfg evs lo (job_accepted job m) (rel @ [dj_bytes job])"
proof -
  let ?hi = "assigned evs m"
  have ne: "evs \<noteq> []" and at: "evs ! ?hi = ev" and lo: "lo \<le> ?hi" using assms(1,2) by (auto simp: counted_defs)
  have wf: "ev_Rollback ev = None"
    using assms(1,3) ne at assigned_held [OF assms(2)] by (auto simp: counted_defs well_formed_def)
  show hi: "assigned evs (job_accepted job m) = Suc ?hi"
    using assigned_release [OF assms(2) ne] by (simp add: job_accepted_def assigned_def)
  have "sequenced cfg evs lo (job_accepted job m)"
    using assms(1,5) hi by (simp add: counted_def sequenced_def) (simp add: job_accepted_def)
  moreover have "held_last evs (job_accepted job m)"
    using assms(1) by (simp add: counted_def held_last_def job_accepted_def)
  moreover have "charged cfg evs lo (job_accepted job m)"
    using assms(1,6,7,8) at lo by (auto simp: counted_def charged_def hi less_Suc_eq) (simp_all add: job_accepted_def)
  moreover have "fenced evs lo (job_accepted job m)"
    using assms(1,4) wf at by (auto simp: counted_def fenced_def hi less_Suc_eq) (simp_all add: job_accepted_def)
  moreover have "rel @ [dj_bytes job] = forward_bytes (take (Suc ?hi) evs)"
    using assms(1,3,8) at forward_bytes_Suc [OF assigned_held [OF assms(2) ne]] by (simp add: counted_def)
  ultimately show "counted cfg evs lo (job_accepted job m) (rel @ [dj_bytes job])"
    by (simp add: counted_def hi)
qed

lemma counted_rollback:
  assumes "counted cfg evs lo m rel" and "ml_held m = Some ev" and "ev_Rollback ev = Some v"
    and "\<not> ml_barrier m" and "ml_outstanding m < om_Window cfg"
  shows "assigned evs (hold_rollback v m) = Suc (assigned evs m)"
    and "counted cfg evs lo (hold_rollback v m) rel"
proof -
  let ?hi = "assigned evs m"
  have ne: "evs \<noteq> []" and at: "evs ! ?hi = ev" and lo: "lo \<le> ?hi" using assms(1,2) by (auto simp: counted_defs)
  have wf: "ev_Forward ev = None" "ev_Bytes ev = 0"
    using assms(1,3) ne at assigned_held [OF assms(2)] by (auto simp: counted_defs well_formed_def)
  show hi: "assigned evs (hold_rollback v m) = Suc ?hi"
    using assigned_release [OF assms(2) ne] by (simp add: hold_rollback_def assigned_def)
  have "sequenced cfg evs lo (hold_rollback v m)"
    using assms(1,5) hi by (simp add: counted_def sequenced_def) (simp add: hold_rollback_def)
  moreover have "held_last evs (hold_rollback v m)"
    using assms(1) by (simp add: counted_def held_last_def hold_rollback_def)
  moreover have "charged cfg evs lo (hold_rollback v m)"
    using assms(1) wf at lo by (auto simp: counted_def charged_def hi less_Suc_eq) (simp_all add: hold_rollback_def)
  moreover have "fenced evs lo (hold_rollback v m)"
    using assms(1,3,4) at lo by (auto simp: counted_def fenced_def hi less_Suc_eq) (simp_all add: hold_rollback_def)
  moreover have "rel = forward_bytes (take (Suc ?hi) evs)"
    using assms(1) wf at forward_bytes_Suc [OF assigned_held [OF assms(2) ne]] by (simp add: counted_def)
  ultimately show "counted cfg evs lo (hold_rollback v m) rel"
    by (simp add: counted_def hi)
qed

lemma counted_receive:
  assumes "counted cfg evs lo m rel" and "ml_held m = None" and "\<not> ml_barrier m" and "well_formed ev"
  shows "assigned (evs @ [ev]) (m\<lparr>ml_held := Some ev\<rparr>) = assigned evs m"
    and "counted cfg (evs @ [ev]) lo (m\<lparr>ml_held := Some ev\<rparr>) rel"
proof -
  show hi: "assigned (evs @ [ev]) (m\<lparr>ml_held := Some ev\<rparr>) = assigned evs m"
    using assms(2) by (simp add: assigned_def)
  have len: "assigned evs m = length evs" using assms(2) by (simp add: assigned_def)
  have "sequenced cfg (evs @ [ev]) lo (m\<lparr>ml_held := Some ev\<rparr>)"
    using assms(1) by (simp add: counted_def sequenced_def hi)
  moreover have "held_last (evs @ [ev]) (m\<lparr>ml_held := Some ev\<rparr>)"
    using assms(1,4) by (auto simp: counted_def held_last_def hi len)
  moreover have "charged cfg (evs @ [ev]) lo (m\<lparr>ml_held := Some ev\<rparr>)"
    using assms(1) by (auto simp: counted_def charged_def hi len nth_append)
  moreover have "fenced (evs @ [ev]) lo (m\<lparr>ml_held := Some ev\<rparr>)"
    using assms(1,3) by (auto simp: counted_def fenced_def hi len nth_append)
  ultimately show "counted cfg (evs @ [ev]) lo (m\<lparr>ml_held := Some ev\<rparr>) rel"
    using assms(1) by (simp add: counted_def hi len)
qed

section \<open>The crew and the control points\<close>

definition crew where
  "crew cfg ws rs d \<longleftrightarrow> int (size ws) = om_Workers cfg \<and>
     (Exited \<in># ws \<longrightarrow> d \<or> (\<exists>r \<in> set rs. isl (dr_outcome r)))"

definition can_read :: "ordered_mapper \<Rightarrow> ('i, 'o, 'r) mapper_locals \<Rightarrow> bool" where
  "can_read cfg m \<longleftrightarrow> ml_inputOpen m \<and> ml_held m = None \<and> \<not> ml_barrier m \<and> ml_outstanding m < om_Window cfg"

definition offered where
  "offered cfg m job \<longleftrightarrow> (\<exists>ev. ml_held m = Some ev \<and> ev_Forward ev = Some (dj_value job) \<and>
     dj_bytes job = ev_Bytes ev \<and> dj_sequence job = ml_nextAssign m \<and> \<not> ml_barrier m \<and>
     ml_outstanding m < om_Window cfg \<and> 0 \<le> ev_Bytes ev \<and> ev_Bytes ev \<le> om_MaxBytes cfg - ml_outstandingBytes m)"

definition nothing_ready where
  "nothing_ready m \<longleftrightarrow> map_of (ml_pending m) (ml_nextEmit m) = None"

primrec at_pc where
  "at_pc cfg m LoopTest = True"
| "at_pc cfg m (Emitting final) = (final \<longrightarrow> \<not> ml_inputOpen m \<and> ml_held m = None \<and> ml_outstanding m = 0 \<and> ml_pending m = [])"
| "at_pc cfg m (Offering job) = (nothing_ready m \<and> offered cfg m job)"
| "at_pc cfg m (Selecting c) = (nothing_ready m \<and> c = can_read cfg m \<and> (c \<or> 0 < ml_outstanding m))"
| "at_pc cfg m (Closing e) = True"
| "at_pc cfg m (Returned e) = True"

definition flying where
  "flying cfg decode s \<longleftrightarrow>
     placed decode (ms_consumed s) (length (ms_output s)) (assigned (ms_consumed s) (ms_locals s))
       (ml_pending (ms_locals s)) (ms_workers s) (ms_results s) (ms_ctxDone s) \<and>
     counted cfg (ms_consumed s) (length (ms_output s)) (ms_locals s) (ms_released s) \<and>
     crew cfg (ms_workers s) (ms_results s) (ms_ctxDone s) \<and> at_pc cfg (ms_locals s) (ms_pc s)"

text \<open>What may be reported when the mapper stops.\<close>

primrec error_justified where
  "error_justified cfg decode evs d ChannelsRequired = False"
| "error_justified cfg decode evs d WorkersNotPositive = False"
| "error_justified cfg decode evs d WindowTooSmall = False"
| "error_justified cfg decode evs d ByteBoundNotPositive = False"
| "error_justified cfg decode evs d DecoderRequired = False"
| "error_justified cfg decode evs d NegativeBytes = (\<exists>ev \<in> set evs. ev_Bytes ev < 0)"
| "error_justified cfg decode evs d (EventTooLarge b l) =
     (l = om_MaxBytes cfg \<and> l < b \<and> (\<exists>ev \<in> set evs. ev_Bytes ev = b))"
| "error_justified cfg decode evs d (ReleaseInputFailed e) = True"
| "error_justified cfg decode evs d (DecodeFailed q e) =
     (\<exists>k c v. k < length evs \<and> q = of_nat k \<and> ev_Forward (evs ! k) = Some v \<and> decode c v = Inl e)"
| "error_justified cfg decode evs d AccountingUnderflow = False"
| "error_justified cfg decode evs d CannotProgress = False"
| "error_justified cfg decode evs d EventMalformed = (\<exists>ev \<in> set evs. (ev_Forward ev = None) = (ev_Rollback ev = None))"
| "error_justified cfg decode evs d RollbackRetainsBytes = (\<exists>ev \<in> set evs. ev_Rollback ev \<noteq> None \<and> ev_Bytes ev \<noteq> 0)"
| "error_justified cfg decode evs d MapperCancelled = d"
| "error_justified cfg decode evs d NilRollback = False"

fun outcome_ok where
  "outcome_ok cfg decode s (Closing None) = (length (ms_output s) = length (ms_consumed s) \<and> \<not> ml_inputOpen (ms_locals s))"
| "outcome_ok cfg decode s (Returned None) = (length (ms_output s) = length (ms_consumed s) \<and> \<not> ml_inputOpen (ms_locals s))"
| "outcome_ok cfg decode s (Closing (Some e)) = error_justified cfg decode (ms_consumed s) (ms_ctxDone s) e"
| "outcome_ok cfg decode s (Returned (Some e)) = error_justified cfg decode (ms_consumed s) (ms_ctxDone s) e"
| "outcome_ok cfg decode s pc = flying cfg decode s"

definition delivered where
  "delivered decode s \<longleftrightarrow> length (ms_output s) \<le> length (ms_consumed s) \<and>
     (\<forall>k < length (ms_output s). delivers decode k (ms_consumed s ! k) (ms_output s ! k)) \<and>
     (\<forall>k. length (ms_output s) \<le> k \<and> k < length (ms_consumed s) \<and> ev_Rollback (ms_consumed s ! k) \<noteq> None \<longrightarrow>
        Suc k = length (ms_consumed s))"

definition mapper_inv where
  "mapper_inv cfg decode s \<longleftrightarrow> delivered decode s \<and> outcome_ok cfg decode s (ms_pc s)"

lemma outcome_open: "\<not> closing pc \<Longrightarrow> outcome_ok cfg decode s pc = flying cfg decode s"
  by (cases pc) auto

lemma error_justified_mono:
  "error_justified cfg decode evs d e \<Longrightarrow> (d \<longrightarrow> d') \<Longrightarrow> error_justified cfg decode evs d' e"
  by (cases e) auto

lemma outcome_closing:
  assumes "closing pc" and "outcome_ok cfg decode s pc" and "ms_output t = ms_output s"
    and "ms_consumed t = ms_consumed s" and "ms_locals t = ms_locals s" and "ms_ctxDone s \<longrightarrow> ms_ctxDone t"
  shows "outcome_ok cfg decode t pc"
  using assms
  by (cases "(cfg, decode, s, pc)" rule: outcome_ok.cases) (auto intro: error_justified_mono)

lemma delivered_same:
  "delivered decode s \<Longrightarrow> ms_output t = ms_output s \<Longrightarrow> ms_consumed t = ms_consumed s \<Longrightarrow> delivered decode t"
  by (simp add: delivered_def)

section \<open>One lemma per move\<close>

text \<open>A Go \<^verbatim>\<open>int\<close> is at most \<^verbatim>\<open>math.MaxInt\<close>.\<close>

definition go_config :: "ordered_mapper \<Rightarrow> bool" where
  "go_config cfg \<longleftrightarrow> 1 \<le> om_Workers cfg \<and> om_Workers cfg \<le> om_Window cfg \<and> 0 < om_MaxBytes cfg \<and>
     om_Window cfg \<le> max_int64"

lemma window_size:
  assumes "go_config cfg" and "counted cfg evs lo m rel"
  shows "assigned evs m - lo < 2 ^ 64 - 1"
  using assms by (auto simp: go_config_def counted_def sequenced_def max_int64_def)

lemma inv_advance_test:
  assumes "mapper_inv cfg decode s" and "ms_pc s = LoopTest"
  shows "mapper_inv cfg decode (s\<lparr>ms_pc := Emitting (\<not> loop_continues (ms_locals s))\<rparr>)"
proof -
  have "0 \<le> ml_outstanding (ms_locals s)"
    using assms by (auto simp: mapper_inv_def flying_def counted_def sequenced_def)
  then show ?thesis
    using assms by (auto simp: mapper_inv_def flying_def loop_continues_def delivered_def)
qed

lemma placed_empty: "placed decode evs lo lo pend ws rs d \<Longrightarrow> pend = []"
  by (auto simp: placed_def window_def in_flight_def)

lemma wait_ok:
  assumes "go_config cfg" and "placed decode evs lo (assigned evs m) (ml_pending m) ws rs d"
    and "counted cfg evs lo m rel" and "ml_held m = None \<or> ml_outstanding m \<noteq> 0"
  shows "wait_action cfg m = BreakLoop \<and> \<not> ml_inputOpen m \<and> ml_held m = None \<and> ml_outstanding m = 0 \<and> ml_pending m = [] \<or>
    wait_action cfg m = WaitFor (can_read cfg m) \<and> (can_read cfg m \<or> 0 < ml_outstanding m)"
proof (cases "ml_outstanding m = 0 \<and> \<not> can_read cfg m")
  case True
  with assms(3,4) have held: "ml_held m = None" and "lo = assigned evs m" by (auto simp: counted_def sequenced_def)
  with assms(2) have "ml_pending m = []" by (simp add: placed_empty)
  moreover have "\<not> ml_barrier m" using assms(3) \<open>lo = assigned evs m\<close> by (simp add: counted_def fenced_def)
  with True held assms(1) have "\<not> ml_inputOpen m" by (auto simp: can_read_def go_config_def)
  ultimately show ?thesis using True held by (simp add: wait_action_def Let_def)
next
  case False
  moreover have "0 \<le> ml_outstanding m" using assms(3) by (simp add: counted_def sequenced_def)
  ultimately show ?thesis using assms(4) by (auto simp: wait_action_def can_read_def Let_def)
qed

lemma inv_wait:
  fixes s :: "('i, 'o, 'r, 'e, 'f) mapper_sys"
  assumes "go_config cfg" and "mapper_inv cfg decode s" and "ms_pc s = Emitting False"
    and "nothing_ready (ms_locals s)" and "ml_held (ms_locals s) = None \<or> ml_outstanding (ms_locals s) \<noteq> 0"
  shows "mapper_inv cfg decode (take_action (wait_action cfg (ms_locals s)) s)"
proof -
  let ?evs = "ms_consumed s" and ?lo = "length (ms_output s)" and ?m = "ms_locals s"
  have fly: "flying cfg decode s" and del: "delivered decode s"
    using assms(2,3) by (auto simp: mapper_inv_def)
  have p: "placed decode ?evs ?lo (assigned ?evs ?m) (ml_pending ?m) (ms_workers s) (ms_results s) (ms_ctxDone s)"
    and c: "counted cfg ?evs ?lo ?m (ms_released s)"
    using fly by (simp_all add: flying_def)
  let ?w = "wait_action cfg ?m :: ('i, 'o, 'r, 'e, 'f) loop_action"
  have "?w = BreakLoop \<and> \<not> ml_inputOpen ?m \<and> ml_held ?m = None \<and> ml_outstanding ?m = 0 \<and> ml_pending ?m = [] \<or>
      ?w = WaitFor (can_read cfg ?m) \<and> (can_read cfg ?m \<or> 0 < ml_outstanding ?m)"
    by (rule wait_ok [OF assms(1) p c assms(5)])
  then show ?thesis
    using fly del assms(4) by (elim disjE conjE) (simp_all add: take_action_def mapper_inv_def flying_def delivered_def)
qed

lemma inv_hold_rollback:
  assumes "go_config cfg" and "mapper_inv cfg decode s" and "ms_pc s = Emitting False"
    and "ml_held (ms_locals s) = Some ev" and "ev_Forward ev = None" and "ev_Rollback ev = Some v"
    and "\<not> ml_barrier (ms_locals s)" and "ml_outstanding (ms_locals s) < om_Window cfg"
  shows "mapper_inv cfg decode (s\<lparr>ms_locals := hold_rollback v (ms_locals s), ms_pc := LoopTest\<rparr>)"
proof -
  let ?evs = "ms_consumed s" and ?lo = "length (ms_output s)" and ?m = "ms_locals s"
  have fly: "flying cfg decode s" and del: "delivered decode s"
    using assms(2,3) by (auto simp: mapper_inv_def)
  have p: "placed decode ?evs ?lo (assigned ?evs ?m) (ml_pending ?m) (ms_workers s) (ms_results s) (ms_ctxDone s)"
    and c: "counted cfg ?evs ?lo ?m (ms_released s)"
    using fly by (simp_all add: flying_def)
  have at: "?evs ! assigned ?evs ?m = ev" and lo: "?lo \<le> assigned ?evs ?m" and n: "ml_nextAssign ?m = of_nat (assigned ?evs ?m)"
    and ne: "?evs \<noteq> []"
    using c assms(4) by (auto simp: counted_defs)
  then have "ev_Bytes ev = 0"
    using c assms(6) assigned_held [OF assms(4) ne] by (auto simp: counted_def held_last_def well_formed_def)
  with placed_rollback [OF p lo window_size [OF assms(1) c]] at assms(5,6)
  have "placed decode ?evs ?lo (Suc (assigned ?evs ?m)) (ml_pending (hold_rollback v ?m)) (ms_workers s) (ms_results s) (ms_ctxDone s)"
    by (simp add: hold_rollback_def n)
  with counted_rollback [OF c assms(4,6-8)] fly del show ?thesis
    by (simp add: mapper_inv_def flying_def delivered_def)
qed

lemma inv_take_action:
  assumes "go_config cfg" and "mapper_inv cfg decode s" and "ms_pc s = Emitting False"
    and "nothing_ready (ms_locals s)"
  shows "mapper_inv cfg decode (take_action (loop_action_of cfg (ms_locals s)) s)"
proof -
  let ?evs = "ms_consumed s" and ?m = "ms_locals s"
  have fly: "flying cfg decode s" and del: "delivered decode s"
    using assms(2,3) by (auto simp: mapper_inv_def)
  then have c: "counted cfg ?evs (length (ms_output s)) ?m (ms_released s)" by (simp add: flying_def)
  show ?thesis
  proof (cases "ml_held ?m")
    case None
    then show ?thesis using inv_wait [OF assms] by (simp add: loop_action_of_def)
  next
    case (Some ev)
    have ne: "?evs \<noteq> []" and at: "?evs ! assigned ?evs ?m = ev" and bar: "\<not> ml_barrier ?m"
      using c Some by (auto simp: counted_defs)
    then have ev: "ev \<in> set ?evs" using assigned_held [OF Some ne] nth_mem by metis
    then have wf: "well_formed ev" using c by (simp add: counted_def held_last_def)
    show ?thesis
    proof (cases "ml_outstanding ?m < om_Window cfg")
      case False
      then show ?thesis
        using inv_wait [OF assms] Some assms(1) by (simp add: loop_action_of_def go_config_def)
    next
      case room: True
      show ?thesis
      proof (cases "ev_Forward ev")
        case None
        with wf obtain v where "ev_Rollback ev = Some v" by (auto simp: well_formed_def)
        with None Some bar room show ?thesis
          using inv_hold_rollback [OF assms(1-3) Some None _ bar room] by (simp add: loop_action_of_def take_action_def)
      next
        case (Some v)
        note held = \<open>ml_held ?m = Some ev\<close>
        have "mapper_inv cfg decode (take_action (wait_action cfg ?m) s)"
          if "om_MaxBytes cfg - ml_outstandingBytes ?m < ev_Bytes ev" "ev_Bytes ev \<le> om_MaxBytes cfg"
        proof (rule inv_wait [OF assms])
          have "length (ms_output s) \<noteq> assigned ?evs ?m"
            using that c by (auto simp: counted_def charged_def)
          then show "ml_held ?m = None \<or> ml_outstanding ?m \<noteq> 0" using c by (simp add: counted_def sequenced_def)
        qed
        moreover have "offered cfg ?m \<lparr>dj_sequence = ml_nextAssign ?m, dj_value = v, dj_bytes = ev_Bytes ev\<rparr>"
          if "0 \<le> ev_Bytes ev" "ev_Bytes ev \<le> om_MaxBytes cfg - ml_outstandingBytes ?m"
          using that held Some bar room by (simp add: offered_def)
        ultimately show ?thesis
          using held Some bar room ev fly del assms(4)
          by (auto simp: loop_action_of_def take_action_def mapper_inv_def flying_def delivered_def)
      qed
    qed
  qed
qed

lemma inv_deliver:
  fixes s :: "('i, 'o, 'r, 'e, 'f) mapper_sys"
  assumes g: "go_config cfg" and inv: "mapper_inv cfg decode s" and pc: "ms_pc s = Emitting final"
    and it: "map_of (ml_pending (ms_locals s)) (ml_nextEmit (ms_locals s)) = Some it"
  obtains m where "emit_item it (ms_locals s) = (Inr m :: ('e, 'f) mapper_error + _)"
    and "mapper_inv cfg decode (s\<lparr>ms_output := ms_output s @ [or_value it], ms_locals := m\<rparr>)"
proof -
  let ?evs = "ms_consumed s" and ?lo = "length (ms_output s)" and ?m = "ms_locals s"
  have fly: "flying cfg decode s" and del: "delivered decode s" and fin: "\<not> final"
    using inv pc it by (auto simp: mapper_inv_def flying_def)
  then have c: "counted cfg ?evs ?lo ?m (ms_released s)" and next_ok: "ml_nextEmit ?m = of_nat ?lo"
    by (simp_all add: flying_def counted_def sequenced_def)
  have p: "placed decode ?evs ?lo (assigned ?evs ?m) (ml_pending ?m) (ms_workers s) (ms_results s) (ms_ctxDone s)"
    using fly by (simp add: flying_def)
  have size: "assigned ?evs ?m - ?lo < 2 ^ 64" using window_size [OF g c] by simp
  note e = placed_emit [OF p size it [unfolded next_ok]]
  obtain m where m: "emit_item it ?m = (Inr m :: ('e, 'f) mapper_error + _)" "counted cfg ?evs (Suc ?lo) m (ms_released s)"
      "ml_pending m = AList.delete (of_nat ?lo) (ml_pending ?m)" "ml_held m = ml_held ?m"
      "ml_inputOpen m = ml_inputOpen ?m"
    using emit_item_ok [OF c e(1-3)] by metis
  then have "assigned ?evs m = assigned ?evs ?m" by (simp add: assigned_def)
  with m(2,3) e(4) fly pc fin have "flying cfg decode (s\<lparr>ms_output := ms_output s @ [or_value it], ms_locals := m\<rparr>)"
    by (simp add: flying_def)
  moreover have "delivered decode (s\<lparr>ms_output := ms_output s @ [or_value it], ms_locals := m\<rparr>)"
    using del e(1,2) assigned_le [of ?evs ?m] by (auto simp: delivered_def nth_append less_Suc_eq)
  ultimately show ?thesis using that m(1) pc by (simp add: mapper_inv_def)
qed

lemma flying_parts:
  assumes "mapper_inv cfg decode s" and "\<not> closing (ms_pc s)"
  shows "placed decode (ms_consumed s) (length (ms_output s)) (assigned (ms_consumed s) (ms_locals s))
      (ml_pending (ms_locals s)) (ms_workers s) (ms_results s) (ms_ctxDone s)"
    and "counted cfg (ms_consumed s) (length (ms_output s)) (ms_locals s) (ms_released s)"
    and "crew cfg (ms_workers s) (ms_results s) (ms_ctxDone s)" and "at_pc cfg (ms_locals s) (ms_pc s)"
    and "delivered decode s"
  using assms by (auto simp: mapper_inv_def outcome_open flying_def)

lemma crew_replace:
  assumes "crew cfg ws rs d" and "w \<in># ws" and "w' \<noteq> Exited"
  shows "crew cfg (add_mset w' (ws - {#w#})) rs d"
  using assms by (auto simp: crew_def size_Diff_singleton dest: in_diffD multi_member_split)

lemma inv_take_job:
  assumes "go_config cfg" and "mapper_inv cfg decode s" and "ms_pc s = Offering job" and "Idle \<in># ms_workers s"
  shows "mapper_inv cfg decode (replace_worker Idle (Busy job) (s\<lparr>ms_released := ms_released s @ [dj_bytes job],
    ms_locals := job_accepted job (ms_locals s), ms_pc := LoopTest\<rparr>))"
proof -
  let ?evs = "ms_consumed s" and ?lo = "length (ms_output s)" and ?m = "ms_locals s"
  have "\<not> closing (ms_pc s)" using assms(3) by simp
  note parts = flying_parts [OF assms(2) this]
  from parts(4) assms(3) obtain ev where ev: "ml_held ?m = Some ev" "ev_Forward ev = Some (dj_value job)"
      "dj_bytes job = ev_Bytes ev" "dj_sequence job = ml_nextAssign ?m" "\<not> ml_barrier ?m"
      "ml_outstanding ?m < om_Window cfg" "0 \<le> ev_Bytes ev" "ev_Bytes ev \<le> om_MaxBytes cfg - ml_outstandingBytes ?m"
    by (auto simp: offered_def)
  have at: "?evs ! assigned ?evs ?m = ev" and lo: "?lo \<le> assigned ?evs ?m" and n: "ml_nextAssign ?m = of_nat (assigned ?evs ?m)"
    using parts(2) ev(1) by (auto simp: counted_defs)
  note c = counted_job [OF parts(2) ev(1,2,5-8,3)]
  have pend: "ml_pending (job_accepted job ?m) = ml_pending ?m" by (simp add: job_accepted_def)
  have "placed decode ?evs ?lo (Suc (assigned ?evs ?m)) (ml_pending ?m) (add_mset (Busy job) (ms_workers s - {#Idle#}))
      (ms_results s) (ms_ctxDone s)"
    using placed_take_job [OF parts(1) assms(4) lo, of job] at ev n by simp
  with c pend crew_replace [OF parts(3) assms(4), of "Busy job"] parts(5) show ?thesis
    by (simp add: mapper_inv_def flying_def replace_worker_def delivered_def)
qed

lemma inv_result:
  assumes "go_config cfg" and "mapper_inv cfg decode s" and "ms_pc s = Offering job \<or> ms_pc s = Selecting b"
    and "ms_results s = r # rs"
  shows "mapper_inv cfg decode (loop_or_fail (accept_result r (ms_locals s)) (s\<lparr>ms_results := rs\<rparr>))"
proof -
  let ?evs = "ms_consumed s" and ?lo = "length (ms_output s)" and ?m = "ms_locals s"
  have "\<not> closing (ms_pc s)" using assms(3) by auto
  note parts = flying_parts [OF assms(2) this]
  show ?thesis
  proof (cases "dr_outcome r")
    case (Inl e)
    have "result_ok decode ?evs ?lo (assigned ?evs ?m) r"
      using parts(1) assms(4) by (simp add: placed_def contents_def)
    then obtain k c v where "k < assigned ?evs ?m" "dr_sequence r = of_nat k" "ev_Forward (?evs ! k) = Some v" "decode c v = Inl e"
      using Inl by (auto simp: carried_def)
    moreover from this have "k < length ?evs" using assigned_le [of ?evs ?m] by simp
    ultimately have "error_justified cfg decode ?evs (ms_ctxDone s) (DecodeFailed (dr_sequence r) e)" by auto
    with parts(5) Inl show ?thesis
      by (auto simp: accept_result_def loop_or_fail_def mapper_inv_def delivered_def)
  next
    case (Inr v)
    have size: "assigned ?evs ?m - ?lo < 2 ^ 64" using window_size [OF assms(1) parts(2)] by simp
    have "crew cfg (ms_workers s) rs (ms_ctxDone s)"
      using parts(3) assms(4) Inr by (auto simp: crew_def)
    with placed_result [OF parts(1) [unfolded assms(4)] Inr size] parts(2,5) Inr show ?thesis
      by (simp add: accept_result_def loop_or_fail_def mapper_inv_def flying_def delivered_def)
  qed
qed

lemma inv_receive:
  assumes "mapper_inv cfg decode s" and "ms_pc s = Selecting True"
  shows "mapper_inv cfg decode (loop_or_fail (accept_input received (ms_locals s))
    (case received of None \<Rightarrow> s | Some event \<Rightarrow> s\<lparr>ms_consumed := ms_consumed s @ [event]\<rparr>))"
proof -
  let ?evs = "ms_consumed s" and ?lo = "length (ms_output s)" and ?m = "ms_locals s"
  have "\<not> closing (ms_pc s)" using assms(2) by simp
  note parts = flying_parts [OF assms(1) this]
  have read: "ml_held ?m = None" "\<not> ml_barrier ?m" using parts(4) assms(2) by (auto simp: can_read_def)
  then have hi: "assigned ?evs ?m = length ?evs" by (simp add: assigned_def)
  have none: "ev_Rollback (?evs ! k) = None" if "?lo \<le> k" "k < length ?evs" for k
    using parts(2) read(2) that hi by (auto simp: counted_def fenced_def)
  have del: "delivered decode (s\<lparr>ms_consumed := ?evs @ [ev]\<rparr>)" for ev
    using parts(5) none by (auto simp: delivered_def nth_append less_Suc_eq)
  show ?thesis
  proof (cases received)
    case None
    with parts show ?thesis
      by (simp add: accept_input_def loop_or_fail_def mapper_inv_def flying_def delivered_def)
  next
    case (Some ev)
    show ?thesis
    proof (cases "well_formed ev")
      case True
      have "placed decode (?evs @ [ev]) ?lo (length ?evs) (ml_pending ?m) (ms_workers s) (ms_results s) (ms_ctxDone s)"
        using parts(1) hi by (simp add: placed_def contents_append)
      with counted_receive [OF parts(2) read True] parts(3) del [of ev] True Some hi show ?thesis
        by (auto simp: accept_input_def loop_or_fail_def mapper_inv_def flying_def delivered_def well_formed_def)
    next
      case False
      with del [of ev] Some show ?thesis
        by (auto simp: accept_input_def loop_or_fail_def mapper_inv_def delivered_def well_formed_def)
    qed
  qed
qed

lemma inv_cancel: "mapper_inv cfg decode s \<Longrightarrow> mapper_inv cfg decode (s\<lparr>ms_ctxDone := True\<rparr>)"
proof (cases "closing (ms_pc s)")
  case True
  assume "mapper_inv cfg decode s"
  then show ?thesis
    using outcome_closing [OF True, of cfg decode s "s\<lparr>ms_ctxDone := True\<rparr>"] by (simp add: mapper_inv_def delivered_def)
next
  case False
  assume "mapper_inv cfg decode s"
  from flying_parts [OF this False] False show ?thesis
    by (simp add: mapper_inv_def outcome_open flying_def placed_def crew_def delivered_def)
qed

text \<open>A move of a worker leaves what the main loop and its environment see as it is.\<close>

lemma inv_worker:
  assumes "mapper_inv cfg decode s" and "ms_output t = ms_output s" and "ms_consumed t = ms_consumed s"
    and "ms_locals t = ms_locals s" and "ms_ctxDone t = ms_ctxDone s" and "ms_pc t = ms_pc s"
    and "ms_released t = ms_released s"
    and "\<not> closing (ms_pc s) \<Longrightarrow>
      placed decode (ms_consumed s) (length (ms_output s)) (assigned (ms_consumed s) (ms_locals s))
        (ml_pending (ms_locals s)) (ms_workers t) (ms_results t) (ms_ctxDone s) \<and>
      crew cfg (ms_workers t) (ms_results t) (ms_ctxDone s)"
  shows "mapper_inv cfg decode t"
proof (cases "closing (ms_pc s)")
  case True
  then show ?thesis
    using outcome_closing [OF True, of cfg decode s t] assms by (simp add: mapper_inv_def delivered_def)
next
  case False
  from flying_parts [OF assms(1) False] assms False show ?thesis
    by (simp add: mapper_inv_def outcome_open flying_def delivered_def)
qed

lemma inv_worker_decode:
  assumes "mapper_inv cfg decode s" and "Busy job \<in># ms_workers s"
  shows "mapper_inv cfg decode (replace_worker (Busy job) (Sending \<lparr>dr_sequence = dj_sequence job,
    dr_outcome = decode c (dj_value job), dr_bytes = dj_bytes job\<rparr>) s)"
    (is "mapper_inv cfg decode ?t")
proof (rule inv_worker [OF assms(1)])
  assume "\<not> closing (ms_pc s)"
  note parts = flying_parts [OF assms(1) this]
  from placed_decode [OF parts(1) assms(2)] crew_replace [OF parts(3) assms(2)]
  show "placed decode (ms_consumed s) (length (ms_output s)) (assigned (ms_consumed s) (ms_locals s))
      (ml_pending (ms_locals s)) (ms_workers ?t) (ms_results ?t) (ms_ctxDone s) \<and>
    crew cfg (ms_workers ?t) (ms_results ?t) (ms_ctxDone s)"
    by (simp add: replace_worker_def)
qed (simp_all add: replace_worker_def)

lemma crew_send:
  assumes "crew cfg ws rs d" and "Sending r \<in># ws"
  shows "crew cfg (add_mset (after_send r) (ws - {#Sending r#})) (rs @ [r]) d"
  using assms by (auto simp: crew_def after_send_def size_Diff_singleton dest: in_diffD multi_member_split split: sum.splits)

lemma inv_worker_send:
  assumes "mapper_inv cfg decode s" and "Sending r \<in># ms_workers s"
  shows "mapper_inv cfg decode (replace_worker (Sending r) (after_send r) (s\<lparr>ms_results := ms_results s @ [r]\<rparr>))"
proof (rule inv_worker [OF assms(1)])
  assume "\<not> closing (ms_pc s)"
  note parts = flying_parts [OF assms(1) this]
  let ?t = "replace_worker (Sending r) (after_send r) (s\<lparr>ms_results := ms_results s @ [r]\<rparr>)"
  from placed_send [OF parts(1) assms(2)] crew_send [OF parts(3) assms(2)]
  show "placed decode (ms_consumed s) (length (ms_output s)) (assigned (ms_consumed s) (ms_locals s))
      (ml_pending (ms_locals s)) (ms_workers ?t) (ms_results ?t) (ms_ctxDone s) \<and>
    crew cfg (ms_workers ?t) (ms_results ?t) (ms_ctxDone s)"
    by (simp add: replace_worker_def)
qed (simp_all add: replace_worker_def)

lemma inv_worker_stop:
  assumes "mapper_inv cfg decode s" and "w \<in># ms_workers s" and "ms_ctxDone s \<or> closing (ms_pc s)"
  shows "mapper_inv cfg decode (replace_worker w Exited s)"
proof (rule inv_worker [OF assms(1)])
  assume "\<not> closing (ms_pc s)"
  note parts = flying_parts [OF assms(1) this]
  from \<open>\<not> closing (ms_pc s)\<close> assms(3) have d: "ms_ctxDone s" by simp
  have "size (add_mset Exited (ms_workers s - {#w#})) = size (ms_workers s)"
    using assms(2) by (metis add_mset_remove_trivial_eq insert_DiffM size_add_mset)
  with placed_stop [of decode _ _ _ _ _ _ w] parts(1,3) assms(2) d
  show "placed decode (ms_consumed s) (length (ms_output s)) (assigned (ms_consumed s) (ms_locals s))
      (ml_pending (ms_locals s)) (ms_workers (replace_worker w Exited s)) (ms_results (replace_worker w Exited s)) (ms_ctxDone s) \<and>
    crew cfg (ms_workers (replace_worker w Exited s)) (ms_results (replace_worker w Exited s)) (ms_ctxDone s)"
    by (simp add: replace_worker_def crew_def)
qed (simp_all add: replace_worker_def)

lemma inv_closing:
  fixes s :: "('i, 'o, 'r, 'e, 'f) mapper_sys" and e :: "('e, 'f) mapper_error option"
  assumes "delivered decode s" and "outcome_ok cfg decode s (Closing e :: ('i, 'e, 'f) mapper_pc)"
  shows "mapper_inv cfg decode (s\<lparr>ms_pc := Closing e\<rparr>)"
  using assms by (cases e) (simp_all add: mapper_inv_def delivered_def)

lemma inv_advance:
  fixes s :: "('i, 'o, 'r, 'e, 'f) mapper_sys"
  assumes "go_config cfg" and "mapper_inv cfg decode s" and "advance cfg s = Some t"
  shows "mapper_inv cfg decode t"
proof (cases "ms_pc s")
  case LoopTest
  with inv_advance_test [OF assms(2)] assms(3) show ?thesis by simp
next
  case (Emitting final)
  with assms(3) have ready: "nothing_ready (ms_locals s)" by (simp add: nothing_ready_def Let_def split: if_splits)
  have "\<not> closing (ms_pc s)" using Emitting by simp
  note parts = flying_parts [OF assms(2) this]
  show ?thesis
  proof (cases final)
    case True
    then have "outcome_ok cfg decode s (Closing None :: ('i, 'e, 'f) mapper_pc)"
      using parts(2,4) Emitting by (auto simp: counted_def sequenced_def assigned_def)
    from inv_closing [OF parts(5) this] True ready Emitting assms(3) show ?thesis by (simp add: nothing_ready_def)
  next
    case False
    with Emitting ready assms(3) inv_take_action [OF assms(1,2) _ ready] show ?thesis by (simp add: nothing_ready_def)
  qed
next
  case (Closing e)
  with assms(3) have t: "t = s\<lparr>ms_pc := Returned e\<rparr>" by (simp split: if_splits)
  from Closing assms(2) show ?thesis by (cases e) (auto simp: t mapper_inv_def delivered_def)
qed (use assms(3) in simp_all)

lemma mapper_move_inv:
  fixes s :: "('i, 'o, 'r, 'e, 'f) mapper_sys"
  assumes "go_config cfg" and "mapper_inv cfg decode s" and "mapper_move cfg decode mv s = Some t"
  shows "mapper_inv cfg decode t"
proof (cases mv)
  case Advance
  with inv_advance [OF assms(1,2)] assms(3) show ?thesis by simp
next
  case Deliver
  with assms(3) obtain final it where at: "ms_pc s = Emitting final"
    "map_of (ml_pending (ms_locals s)) (ml_nextEmit (ms_locals s)) = Some it"
    by (cases "ms_pc s"; cases "map_of (ml_pending (ms_locals s)) (ml_nextEmit (ms_locals s))") simp_all
  show ?thesis
  proof (rule inv_deliver [OF assms(1,2) at])
    fix m
    assume "emit_item it (ms_locals s) = (Inr m :: ('e, 'f) mapper_error + _)"
      and "mapper_inv cfg decode (s\<lparr>ms_output := ms_output s @ [or_value it], ms_locals := m\<rparr>)"
    with assms(3) Deliver at show ?thesis by (simp add: Let_def)
  qed
next
  case (TakeJob released)
  with assms(3) obtain job where job: "ms_pc s = Offering job" "Idle \<in># ms_workers s"
    by (auto split: mapper_pc.splits if_splits)
  with flying_parts(5) [OF assms(2)] have "delivered decode s" by simp
  with inv_take_job [OF assms(1,2) job] assms(3) TakeJob job show ?thesis
    by (auto simp: Let_def replace_worker_def mapper_inv_def delivered_def flying_def split: option.splits)
next
  case TakeResult
  with inv_result [OF assms(1,2)] assms(3) show ?thesis
    by (auto split: mapper_pc.splits list.splits)
next
  case (Receive received)
  with inv_receive [OF assms(2), of received] assms(3) show ?thesis by (simp split: if_splits)
next
  case SeeCancelled
  with assms(3) have "ms_ctxDone s" "\<not> closing (ms_pc s)" "t = s\<lparr>ms_pc := Closing (Some MapperCancelled)\<rparr>"
    by (auto split: if_splits mapper_pc.splits)
  with inv_closing [of decode s cfg "Some MapperCancelled"] flying_parts(5) [OF assms(2)] show ?thesis by simp
next
  case CancelContext
  with inv_cancel [OF assms(2)] assms(3) show ?thesis by simp
next
  case (WorkerDecode job c)
  with inv_worker_decode [OF assms(2)] assms(3) show ?thesis by (auto split: if_splits)
next
  case (WorkerSend r)
  with inv_worker_send [OF assms(2)] assms(3) show ?thesis by (auto split: if_splits)
next
  case (WorkerStop w)
  with inv_worker_stop [OF assms(2), of w] assms(3) show ?thesis by (auto split: if_splits worker.splits)
qed

lemma sum_idle: "\<Sum>\<^sub># (image_mset worker_seq (replicate_mset n Idle)) = {#}"
  by (induction n) auto

lemma mapper_start_inv:
  assumes "go_config cfg"
  shows "mapper_inv cfg decode (mapper_start cfg)"
proof -
  have "int (nat (om_Workers cfg)) = om_Workers cfg" using assms by (simp add: go_config_def)
  then show ?thesis
    using assms
    by (auto simp: mapper_inv_def flying_def delivered_def mapper_start_def initial_locals_def placed_def contents_def
        in_flight_def window_def sum_idle counted_defs assigned_def forward_bytes_def crew_def go_config_def
        in_replicate_mset)
qed

lemma checks_go_config:
  "mapper_checks False False cfg = None \<Longrightarrow> om_Window cfg \<le> max_int64 \<Longrightarrow> go_config cfg"
  by (auto simp: mapper_checks_def go_config_def split: if_splits)

lemma mapper_reachable_inv:
  fixes s :: "('i, 'o, 'r, 'e, 'f) mapper_sys"
  assumes "mapper_reachable cfg decode s" and "om_Window cfg \<le> max_int64"
  shows "mapper_inv cfg decode s" and "go_config cfg"
proof -
  from assms have "mapper_inv cfg decode s \<and> go_config cfg"
  proof (induction rule: mapper_reachable.induct)
    case mapper_begin
    from checks_go_config [OF this] assms(2) mapper_start_inv show ?case by blast
  next
    case (mapper_continue s mv t)
    then show ?case using mapper_move_inv by blast
  qed
  then show "mapper_inv cfg decode s" and "go_config cfg" by auto
qed

end
