(* ===== verification/Mapper_Progress.thy ===== *)
theory Mapper_Progress
  imports Mapper_Invariant
begin

text \<open>
  The properties of the ordered mapper: order, barriers, bounds, justified errors, and progress. The
  moves of the mapper itself (those that are neither the environment's nor an exchange with it) end,
  and they end only where the mapper waits for its input or its consumer, or has returned.
\<close>

section \<open>Progress\<close>

fun internal :: "('i, 'r, 'e, 'f, 'o) mapper_choice \<Rightarrow> bool" where
  "internal Deliver = False"
| "internal (Receive x) = False"
| "internal CancelContext = False"
| "internal _ = True"

definition waiting :: "('i, 'o, 'r, 'e, 'f) mapper_sys \<Rightarrow> bool" where
  "waiting s \<longleftrightarrow> ms_pc s = Selecting True \<or> (\<exists>e. ms_pc s = Returned e) \<or>
     (\<exists>final. ms_pc s = Emitting final \<and> map_of (ml_pending (ms_locals s)) (ml_nextEmit (ms_locals s)) \<noteq> None)"

lemma size_window: "size (window lo hi) = hi - lo"
  by (simp add: window_def)

lemma in_flight_size:
  "placed decode evs lo hi pend ws rs d \<Longrightarrow> size (in_flight ws rs pend) \<le> hi - lo"
  using size_mset_mono size_window by (metis placed_def)

lemma send_has_room:
  assumes "placed decode evs lo (assigned evs m) pend ws rs d" and "counted cfg evs lo m rel" and "Sending r \<in># ws"
  shows "int (length rs) < om_Window cfg"
proof -
  obtain ws' where ws: "ws = add_mset (Sending r) ws'" using assms(3) multi_member_split by metis
  have "Suc (length rs) \<le> size (in_flight ws rs pend)" by (simp add: ws in_flight_def)
  moreover have "lo \<le> assigned evs m" "int (assigned evs m) - int lo \<le> om_Window cfg"
    using assms(2) by (simp_all add: counted_def sequenced_def)
  ultimately show ?thesis using in_flight_size [OF assms(1)] by linarith
qed

lemma worker_moves:
  assumes "go_config cfg" and "mapper_inv cfg decode s" and "\<not> closing (ms_pc s)" and "w \<in># ms_workers s"
    and "w \<noteq> Idle" and "w \<noteq> Exited"
  shows "\<exists>mv. internal mv \<and> mapper_move cfg decode mv s \<noteq> None"
proof (cases w)
  case (Busy job)
  with assms(4) have "internal (WorkerDecode job False) \<and> mapper_move cfg decode (WorkerDecode job False) s \<noteq> None"
    by simp
  then show ?thesis by blast
next
  case (Sending r)
  with flying_parts [OF assms(2,3)] assms(4) have "int (length (ms_results s)) < om_Window cfg"
    using send_has_room by metis
  with Sending assms(4) have "internal (WorkerSend r) \<and> mapper_move cfg decode (WorkerSend r) s \<noteq> None" by simp
  then show ?thesis by blast
qed (use assms in simp_all)

text \<open>Something the main loop waits for is on its way.\<close>

lemma on_its_way:
  assumes "mapper_inv cfg decode s" and "\<not> closing (ms_pc s)" and "nothing_ready (ms_locals s)"
    and "0 < ml_outstanding (ms_locals s)" and "\<not> ms_ctxDone s"
  shows "ms_results s \<noteq> [] \<or> (\<exists>w \<in># ms_workers s. w \<noteq> Idle \<and> w \<noteq> Exited)"
proof (rule ccontr)
  let ?lo = "length (ms_output s)" and ?hi = "assigned (ms_consumed s) (ms_locals s)"
  assume none: "\<not> ?thesis"
  note parts = flying_parts [OF assms(1,2)]
  have lt: "?lo < ?hi" and n: "ml_nextEmit (ms_locals s) = of_nat ?lo"
    using parts(2) assms(4) by (auto simp: counted_def sequenced_def)
  have "\<Sum>\<^sub># (image_mset worker_seq ws) = {#}" if "\<forall>w \<in># ws. w = Idle \<or> w = Exited"
    for ws :: "('a, 'b, 'c) worker multiset"
    using that by (induction ws) auto
  with none have "in_flight (ms_workers s) (ms_results s) (ml_pending (ms_locals s)) = mset (map fst (ml_pending (ms_locals s)))"
    by (auto simp: in_flight_def)
  with parts(1) assms(5) window_Suc_lo [OF lt] have "of_nat ?lo \<in># mset (map fst (ml_pending (ms_locals s)))"
    by (metis placed_def union_single_eq_member)
  with assms(3) n show False by (auto simp: nothing_ready_def map_of_eq_None_iff)
qed

lemma offering_moves:
  assumes "go_config cfg" and "mapper_inv cfg decode s" and "ms_pc s = Offering job"
  shows "\<exists>mv. internal mv \<and> mapper_move cfg decode mv s \<noteq> None"
proof -
  have nc: "\<not> closing (ms_pc s)" using assms(3) by simp
  note parts = flying_parts [OF assms(2) nc]
  consider "ms_results s \<noteq> []" | "ms_ctxDone s" | "\<not> ms_ctxDone s" "ms_results s = []" by blast
  then show ?thesis
  proof cases
    case 1
    then have "internal TakeResult \<and> mapper_move cfg decode TakeResult s \<noteq> None"
      using assms(3) by (auto simp: neq_Nil_conv)
    then show ?thesis by blast
  next
    case 2
    then have "internal SeeCancelled \<and> mapper_move cfg decode SeeCancelled s \<noteq> None" using assms(3) by simp
    then show ?thesis by blast
  next
    case 3
    then have "Exited \<notin># ms_workers s" using parts(3) by (auto simp: crew_def)
    moreover have "ms_workers s \<noteq> {#}" using parts(3) assms(1) by (auto simp: crew_def go_config_def)
    ultimately obtain w where w: "w \<in># ms_workers s" "w \<noteq> Exited" by (metis multiset_nonemptyE)
    show ?thesis
    proof (cases "w = Idle")
      case True
      with w have "internal (TakeJob None) \<and> mapper_move cfg decode (TakeJob None) s \<noteq> None"
        using assms(3) by (simp add: Let_def)
      then show ?thesis by blast
    next
      case False
      with worker_moves [OF assms(1,2) nc] w show ?thesis by blast
    qed
  qed
qed

lemma selecting_moves:
  assumes "go_config cfg" and "mapper_inv cfg decode s" and "ms_pc s = Selecting False"
  shows "\<exists>mv. internal mv \<and> mapper_move cfg decode mv s \<noteq> None"
proof -
  have nc: "\<not> closing (ms_pc s)" using assms(3) by simp
  note parts = flying_parts [OF assms(2) nc]
  have out: "nothing_ready (ms_locals s)" "0 < ml_outstanding (ms_locals s)" using parts(4) assms(3) by auto
  consider "ms_results s \<noteq> []" | "ms_ctxDone s" | "\<not> ms_ctxDone s" "ms_results s = []" by blast
  then show ?thesis
  proof cases
    case 1
    then have "internal TakeResult \<and> mapper_move cfg decode TakeResult s \<noteq> None"
      using assms(3) by (auto simp: neq_Nil_conv)
    then show ?thesis by blast
  next
    case 2
    then have "internal SeeCancelled \<and> mapper_move cfg decode SeeCancelled s \<noteq> None" using assms(3) by simp
    then show ?thesis by blast
  next
    case 3
    with on_its_way [OF assms(2) nc out] worker_moves [OF assms(1,2) nc] show ?thesis by blast
  qed
qed

lemma closing_moves:
  assumes "ms_pc s = Closing e"
  shows "\<exists>mv. internal mv \<and> mapper_move cfg decode mv s \<noteq> None"
proof (cases "set_mset (ms_workers s) \<subseteq> {Exited}")
  case True
  with assms have "internal Advance \<and> mapper_move cfg decode Advance s \<noteq> None" by simp
  then show ?thesis by blast
next
  case False
  then obtain w where w: "w \<in># ms_workers s" "w \<noteq> Exited" by blast
  show ?thesis
  proof (cases w)
    case (Busy job)
    with w have "internal (WorkerDecode job False) \<and> mapper_move cfg decode (WorkerDecode job False) s \<noteq> None" by simp
    then show ?thesis by blast
  qed (use w assms in \<open>auto intro!: exI [of _ "WorkerStop w"]\<close>)
qed

lemma never_stuck:
  assumes "go_config cfg" and "mapper_inv cfg decode s" and "\<not> waiting s"
  shows "\<exists>mv. internal mv \<and> mapper_move cfg decode mv s \<noteq> None"
proof (cases "ms_pc s")
  case LoopTest
  then have "internal Advance \<and> mapper_move cfg decode Advance s \<noteq> None" by (simp add: Let_def)
  then show ?thesis by blast
next
  case (Emitting final)
  with assms(3) have "internal Advance \<and> mapper_move cfg decode Advance s \<noteq> None" by (auto simp: waiting_def Let_def)
  then show ?thesis by blast
next
  case (Offering job)
  with offering_moves [OF assms(1,2)] show ?thesis by blast
next
  case (Selecting b)
  with selecting_moves [OF assms(1,2)] assms(3) show ?thesis by (cases b) (auto simp: waiting_def)
next
  case (Closing e)
  with closing_moves show ?thesis by blast
qed (use assms(3) in \<open>simp add: waiting_def\<close>)

section \<open>Internal moves end\<close>

primrec worker_weight :: "('i, 'e, 'o) worker \<Rightarrow> nat" where
  "worker_weight Idle = 1"
| "worker_weight (Busy j) = 7"
| "worker_weight (Sending r) = 6"
| "worker_weight Exited = 0"

primrec pc_weight :: "('i, 'e, 'f) mapper_pc \<Rightarrow> nat" where
  "pc_weight LoopTest = 5"
| "pc_weight (Emitting final) = (if final then 3 else 4)"
| "pc_weight (Offering job) = 2"
| "pc_weight (Selecting b) = 2"
| "pc_weight (Closing e) = 1"
| "pc_weight (Returned e) = 0"

definition weight :: "('i, 'o, 'r, 'e, 'f) mapper_sys \<Rightarrow> nat" where
  "weight s = pc_weight (ms_pc s) + \<Sum>\<^sub># (image_mset worker_weight (ms_workers s)) + 4 * length (ms_results s) +
     (if ml_held (ms_locals s) = None \<or> closing (ms_pc s) then 0 else 20)"

lemma weight_worker:
  "w \<in># ms_workers s \<Longrightarrow> \<Sum>\<^sub># (image_mset worker_weight (ms_workers (replace_worker w w' s))) + worker_weight w =
     \<Sum>\<^sub># (image_mset worker_weight (ms_workers s)) + worker_weight w'"
  by (auto simp: replace_worker_def dest!: multi_member_split)

lemma weight_after_send: "worker_weight (after_send r) \<le> 1"
  by (simp add: after_send_def split: sum.splits)

lemma replace_worker_fields [simp]:
  "ms_pc (replace_worker w w' s) = ms_pc s" "ms_results (replace_worker w w' s) = ms_results s"
  "ms_locals (replace_worker w w' s) = ms_locals s"
  by (simp_all add: replace_worker_def)

lemma weight_action:
  assumes "ms_pc s = Emitting False"
  shows "weight (take_action (loop_action_of cfg (ms_locals s)) s) < weight s"
  using assms
  by (auto simp: take_action_def loop_action_of_def wait_action_def Let_def weight_def hold_rollback_def
      split: option.splits)

lemma weight_loop:
  "weight (loop_or_fail (accept_result r (ms_locals s)) (s\<lparr>ms_results := rs\<rparr>)) \<le>
     5 + \<Sum>\<^sub># (image_mset worker_weight (ms_workers s)) + 4 * length rs + (if ml_held (ms_locals s) = None then 0 else 20)"
  by (auto simp: loop_or_fail_def accept_result_def weight_def split: sum.splits)

lemma internal_decreases:
  assumes "mapper_inv cfg decode s" and "internal mv" and "mapper_move cfg decode mv s = Some t"
  shows "weight t < weight s"
proof (cases mv)
  case Advance
  with assms(3) weight_action [of s cfg] show ?thesis
    by (auto simp: Let_def weight_def split: mapper_pc.splits if_splits)
next
  case (TakeJob released)
  then obtain job where job: "ms_pc s = Offering job" "Idle \<in># ms_workers s"
    using assms(3) by (cases "ms_pc s") (auto split: if_splits)
  then have "ml_held (ms_locals s) \<noteq> None" using flying_parts(4) [OF assms(1)] by (auto simp: offered_def)
  with job TakeJob assms(3) weight_worker [of Idle "s\<lparr>ms_released := ms_released s @ [dj_bytes job]\<rparr>" "Busy job"]
  show ?thesis by (auto simp: Let_def weight_def job_accepted_def split: option.splits)
next
  case TakeResult
  then obtain r rs where r: "ms_results s = r # rs" "pc_weight (ms_pc s) = 2" "\<not> closing (ms_pc s)"
    "t = loop_or_fail (accept_result r (ms_locals s)) (s\<lparr>ms_results := rs\<rparr>)"
    using assms(3) by (cases "ms_pc s"; cases "ms_results s") auto
  then have "weight s = 6 + \<Sum>\<^sub># (image_mset worker_weight (ms_workers s)) + 4 * length rs +
      (if ml_held (ms_locals s) = None then 0 else 20)"
    by (simp add: weight_def)
  with weight_loop [of r s rs] r(4) show ?thesis by simp
next
  case SeeCancelled
  with assms(3) show ?thesis by (auto simp: weight_def split: if_splits mapper_pc.splits)
next
  case (WorkerDecode job c)
  then obtain r where "Busy job \<in># ms_workers s" "t = replace_worker (Busy job) (Sending r) s"
    using assms(3) by (auto split: if_splits)
  with weight_worker [of "Busy job" s "Sending r"] show ?thesis by (simp add: weight_def)
next
  case (WorkerSend r)
  let ?u = "s\<lparr>ms_results := ms_results s @ [r]\<rparr>"
  from WorkerSend have t: "Sending r \<in># ms_workers ?u" "t = replace_worker (Sending r) (after_send r) ?u"
    using assms(3) by (auto split: if_splits)
  have "\<Sum>\<^sub># (image_mset worker_weight (ms_workers t)) + 6 \<le> \<Sum>\<^sub># (image_mset worker_weight (ms_workers s)) + 1"
    using weight_worker [OF t(1), of "after_send r"] weight_after_send [of r] by (simp add: t(2))
  moreover have "weight t = pc_weight (ms_pc s) + \<Sum>\<^sub># (image_mset worker_weight (ms_workers t)) +
      4 * length (ms_results s) + 4 + (if ml_held (ms_locals s) = None \<or> closing (ms_pc s) then 0 else 20)"
    by (simp add: weight_def t(2))
  ultimately show ?thesis unfolding weight_def [of s] by linarith
next
  case (WorkerStop w)
  then have w: "w \<in># ms_workers s" "0 < worker_weight w" using assms(3) by (auto split: if_splits worker.splits)
  from weight_worker [OF w(1), of Exited] w(2) WorkerStop assms(3) show ?thesis
    by (auto simp: weight_def split: if_splits)
qed (use assms(2) in simp_all)

lemma mapper_run_inv:
  "go_config cfg \<Longrightarrow> mapper_inv cfg decode s \<Longrightarrow> mapper_run cfg decode mvs s = Some t \<Longrightarrow> mapper_inv cfg decode t"
  by (induction mvs arbitrary: s) (auto split: option.splits dest: mapper_move_inv)

lemma settles:
  assumes "go_config cfg" and "mapper_inv cfg decode s"
  shows "\<exists>mvs t. list_all internal mvs \<and> mapper_run cfg decode mvs s = Some t \<and> waiting t"
  using assms(2)
proof (induction "weight s" arbitrary: s rule: less_induct)
  case less
  show ?case
  proof (cases "waiting s")
    case True
    then have "list_all internal [] \<and> mapper_run cfg decode [] s = Some s \<and> waiting s" by simp
    then show ?thesis by blast
  next
    case False
    from never_stuck [OF assms(1) less.prems False] obtain mv u where
      mv: "internal mv" "mapper_move cfg decode mv s = Some u" by blast
    with less.hyps internal_decreases [OF less.prems] mapper_move_inv [OF assms(1) less.prems] obtain mvs t where
      "list_all internal mvs" "mapper_run cfg decode mvs u = Some t" "waiting t" by blast
    with mv have "list_all internal (mv # mvs) \<and> mapper_run cfg decode (mv # mvs) s = Some t \<and> waiting t" by simp
    then show ?thesis by blast
  qed
qed

section \<open>A concrete run\<close>

text \<open>
  Two workers decode two blocks; the second finishes first, and the output still has them in input
  order. The decoder adds ten and fails on zero.
\<close>

definition sample_mapper :: ordered_mapper where
  "sample_mapper = \<lparr>om_Workers = 2, om_Window = 4, om_MaxBytes = 100\<rparr>"

definition mapper_decode :: "bool \<Rightarrow> nat \<Rightarrow> bool + nat" where
  "mapper_decode c n = (if n = 0 then Inl c else Inr (n + 10))"

definition mapper_forward :: "nat \<Rightarrow> (nat, bool) pipeline_event" where
  "mapper_forward n = \<lparr>ev_Forward = Some n, ev_Rollback = None, ev_Bytes = 30\<rparr>"

abbreviation sample_job :: "u64 \<Rightarrow> nat \<Rightarrow> nat decode_job" where
  "sample_job q n \<equiv> \<lparr>dj_sequence = q, dj_value = n, dj_bytes = 30\<rparr>"

abbreviation mapper_result :: "u64 \<Rightarrow> nat \<Rightarrow> (bool, nat) decode_result" where
  "mapper_result q n \<equiv> \<lparr>dr_sequence = q, dr_outcome = Inr (n + 10), dr_bytes = 30\<rparr>"

definition mapper_moves :: "(nat, bool, bool, bool, nat) mapper_choice list" where
  "mapper_moves =
     [Advance, Advance, Receive (Some (mapper_forward 1)), Advance, Advance, TakeJob None,
      Advance, Advance, Receive (Some (mapper_forward 2)), Advance, Advance, TakeJob None,
      Advance, Advance, WorkerDecode (sample_job 1 2) False, WorkerSend (mapper_result 1 2), TakeResult,
      Advance, Advance, WorkerDecode (sample_job 0 1) False, WorkerSend (mapper_result 0 1), TakeResult,
      Advance, Deliver, Deliver, Advance]"

lemmas mapper_eval = sample_mapper_def mapper_decode_def mapper_forward_def mapper_moves_def mapper_start_def
  initial_locals_def loop_continues_def loop_action_of_def wait_action_def take_action_def Let_def
  loop_or_fail_def accept_input_def accept_result_def job_accepted_def replace_worker_def after_send_def
  emit_item_def hold_rollback_def numeral_2_eq_2

definition sample_final :: "(nat, nat, bool, bool, bool) mapper_sys" where
  "sample_final = the (mapper_run sample_mapper mapper_decode mapper_moves (mapper_start sample_mapper))"

lemma sample_mapper_run:
  "mapper_run sample_mapper mapper_decode mapper_moves (mapper_start sample_mapper) =
     Some sample_final \<and> map rs_Forward (ms_output sample_final) = [Some 11, Some 12] \<and>
     ms_consumed sample_final = [mapper_forward 1, mapper_forward 2] \<and> ms_pc sample_final = Selecting True"
  by (simp add: sample_final_def mapper_eval)

text \<open>A rollback that waits behind a block, and a block whose decoding fails.\<close>

definition sample_rollback_moves :: "(nat, bool, bool, bool, nat) mapper_choice list" where
  "sample_rollback_moves =
     [Advance, Advance, Receive (Some (mapper_forward 1)), Advance, Advance, TakeJob None, Advance, Advance,
      Receive (Some \<lparr>ev_Forward = None, ev_Rollback = Some True, ev_Bytes = 0\<rparr>), Advance, Advance, Advance, Advance]"

definition sample_fenced :: "(nat, nat, bool, bool, bool) mapper_sys" where
  "sample_fenced = the (mapper_run sample_mapper mapper_decode sample_rollback_moves (mapper_start sample_mapper))"

definition sample_failure_moves :: "(nat, bool, bool, bool, nat) mapper_choice list" where
  "sample_failure_moves =
     [Advance, Advance, Receive (Some (mapper_forward 0)), Advance, Advance, TakeJob None, Advance, Advance,
      WorkerDecode (sample_job 0 0) False,
      WorkerSend \<lparr>dr_sequence = 0, dr_outcome = Inl False, dr_bytes = 30\<rparr>, TakeResult, WorkerStop Idle, Advance]"

definition sample_failed :: "(nat, nat, bool, bool, bool) mapper_sys" where
  "sample_failed = the (mapper_run sample_mapper mapper_decode sample_failure_moves (mapper_start sample_mapper))"

lemma sample_fenced_run:
  "mapper_run sample_mapper mapper_decode sample_rollback_moves (mapper_start sample_mapper) = Some sample_fenced"
  "ms_output sample_fenced = []" "ms_pc sample_fenced = Selecting False"
  "ms_consumed sample_fenced = [mapper_forward 1, \<lparr>ev_Forward = None, ev_Rollback = Some True, ev_Bytes = 0\<rparr>]"
  by (simp_all add: sample_fenced_def sample_rollback_moves_def mapper_eval)

lemma sample_failed_run:
  "mapper_run sample_mapper mapper_decode sample_failure_moves (mapper_start sample_mapper) = Some sample_failed"
  "ms_pc sample_failed = Returned (Some (DecodeFailed 0 False))" "ms_consumed sample_failed = [mapper_forward 0]"
  by (simp_all add: sample_failed_def sample_failure_moves_def mapper_eval)

lemma sample_start_reachable:
  "mapper_reachable sample_mapper mapper_decode (mapper_start sample_mapper :: (nat, nat, bool, bool, bool) mapper_sys)"
  by (rule mapper_begin) (simp add: mapper_checks_def sample_mapper_def)

lemma sample_window: "om_Window sample_mapper \<le> max_int64"
  by (simp add: sample_mapper_def max_int64_def)

lemma sample_mapper_reachable: "mapper_reachable sample_mapper mapper_decode sample_final"
  using mapper_run_reachable [OF sample_start_reachable] sample_mapper_run by blast

section \<open>Properties\<close>

text \<open>
  C16. Order: in every interleaving of the workers, what was delivered is, event by event, what the
  events consumed from the input call for (a forward event its decoded value, a rollback itself, under
  consecutive sequence numbers); when the mapper returns without an error, its input was closed and
  every consumed event was delivered.
\<close>

theorem mapper_preserves_order:
  assumes "mapper_reachable cfg decode s" and "om_Window cfg \<le> max_int64"
  shows "length (ms_output s) \<le> length (ms_consumed s) \<and>
    (\<forall>k < length (ms_output s). delivers decode k (ms_consumed s ! k) (ms_output s ! k)) \<and>
    (ms_pc s = Returned None \<longrightarrow> length (ms_output s) = length (ms_consumed s) \<and> \<not> ml_inputOpen (ms_locals s))"
  using mapper_reachable_inv(1) [OF assms] by (auto simp: mapper_inv_def delivered_def)

theorem mapper_preserves_order_witness:
  "length (ms_output sample_final) \<le> 2 \<and> rs_Forward (ms_output sample_final ! 0) = Some 11"
proof -
  have "delivers mapper_decode 0 (mapper_forward 1) (ms_output sample_final ! 0)"
    and "length (ms_output sample_final) \<le> 2"
    using mapper_preserves_order [OF sample_mapper_reachable] sample_mapper_run
    by (auto simp: sample_mapper_def max_int64_def dest: map_eq_imp_length_eq arg_cong [where f = length])
  then show ?thesis by (auto simp: delivers_def mapper_forward_def mapper_decode_def)
qed

text \<open>
  C18. Rollbacks are barriers: while a consumed rollback has not been delivered, nothing is consumed
  after it.
\<close>

theorem mapper_rollback_is_barrier:
  assumes "mapper_reachable cfg decode s" and "om_Window cfg \<le> max_int64"
    and "k < length (ms_consumed s)" and "ev_Rollback (ms_consumed s ! k) \<noteq> None" and "length (ms_output s) \<le> k"
  shows "Suc k = length (ms_consumed s)"
  using mapper_reachable_inv(1) [OF assms(1,2)] assms(3-) by (auto simp: mapper_inv_def delivered_def)

theorem mapper_rollback_is_barrier_witness: "Suc 1 = length (ms_consumed sample_fenced)"
  by (rule mapper_rollback_is_barrier
      [OF mapper_run_reachable [OF sample_start_reachable sample_fenced_run(1)] sample_window])
    (simp_all add: sample_fenced_run)

text \<open>
  C19. Bounds: until the mapper stops, the events assigned and not delivered fit the window and their
  bytes the byte bound, a worker is never blocked on the result channel, and the bytes of exactly the
  accepted forward events were released to the input's budget.
\<close>

theorem mapper_within_bounds:
  assumes "mapper_reachable cfg decode s" and "om_Window cfg \<le> max_int64" and "\<not> closing (ms_pc s)"
  shows "int (assigned (ms_consumed s) (ms_locals s)) - int (length (ms_output s)) \<le> om_Window cfg \<and>
    (\<Sum>k = length (ms_output s)..<assigned (ms_consumed s) (ms_locals s). ev_Bytes (ms_consumed s ! k)) \<le> om_MaxBytes cfg \<and>
    (\<forall>r. Sending r \<in># ms_workers s \<longrightarrow> mapper_move cfg decode (WorkerSend r) s \<noteq> None) \<and>
    ms_released s = forward_bytes (take (assigned (ms_consumed s) (ms_locals s)) (ms_consumed s))"
proof -
  note parts = flying_parts [OF mapper_reachable_inv(1) [OF assms(1,2)] assms(3)]
  from send_has_room [OF parts(1,2)] have "mapper_move cfg decode (WorkerSend r) s \<noteq> None" if "Sending r \<in># ms_workers s" for r
    using that by simp
  with parts(2) show ?thesis by (simp add: counted_def sequenced_def charged_def)
qed

theorem mapper_within_bounds_witness:
  "ms_released sample_final = forward_bytes (take (assigned (ms_consumed sample_final) (ms_locals sample_final))
     [mapper_forward 1, mapper_forward 2])"
  using mapper_within_bounds [OF sample_mapper_reachable sample_window] sample_mapper_run by simp

text \<open>
  C20. Errors are justified: a decode failure names the sequence number of an event whose decoding
  failed so, a cancellation needs a cancelled context, every complaint about an event is true of a
  consumed event, and neither the accounting underflow nor the complaint that no progress is possible
  is ever reported.
\<close>

theorem mapper_errors_justified:
  assumes "mapper_reachable cfg decode s" and "om_Window cfg \<le> max_int64" and "ms_pc s = Returned (Some e)"
  shows "error_justified cfg decode (ms_consumed s) (ms_ctxDone s) e"
  using mapper_reachable_inv(1) [OF assms(1,2)] assms(3) by (simp add: mapper_inv_def)

theorem mapper_errors_justified_witness:
  "error_justified sample_mapper mapper_decode [mapper_forward 0] (ms_ctxDone sample_failed)
     (DecodeFailed 0 False :: (bool, bool) mapper_error)"
  using mapper_errors_justified
      [OF mapper_run_reachable [OF sample_start_reachable sample_failed_run(1)] sample_window sample_failed_run(2)]
  by (simp add: sample_failed_run(3))

text \<open>
  C17. Progress: from every reachable state finitely many moves of the mapper itself lead to a state in
  which it has returned, offers a result to its consumer, or is ready to read its input; the mapper and
  its workers never deadlock.
\<close>

theorem mapper_never_deadlocks:
  assumes "mapper_reachable cfg decode s" and "om_Window cfg \<le> max_int64"
  shows "\<exists>mvs t. list_all internal mvs \<and> mapper_run cfg decode mvs s = Some t \<and> waiting t"
  using settles mapper_reachable_inv [OF assms] by blast

theorem mapper_never_deadlocks_witness:
  "\<exists>mvs t. list_all internal mvs \<and> mapper_run sample_mapper mapper_decode mvs sample_final = Some t \<and> waiting t"
  by (rule mapper_never_deadlocks [OF sample_mapper_reachable sample_window])

end
