(* ===== verification/Byte_Budget.thy ===== *)
theory Byte_Budget
  imports Prelude "HOL-Library.Multiset"
begin

text \<open>
  \<^verbatim>\<open>internal/pipeline/byte_budget.go\<close>: a byte bound shared by the goroutines of one buffered
  stage. The broadcast channel \<^verbatim>\<open>changed\<close>, which \<^verbatim>\<open>Release\<close> closes and replaces,
  is the number of channels made so far: a goroutine that captured channel \<open>g\<close> is woken exactly when
  the current number differs from \<open>g\<close>. A nil receiver is \<open>None\<close>.
\<close>

section \<open>The operations\<close>

record byte_budget =
  bb_limit :: int
  bb_used :: int
  bb_changed :: nat

datatype budget_error =
    LimitNotPositive
  | NilBudget
  | NilContext
  | NegativeSize
  | ItemExceedsBudget int int
  | ReleaseExceedsUsed int int
  | Canceled
  | CanceledAnd budget_error

definition NewByteBudget :: "int \<Rightarrow> budget_error + byte_budget" where
  "NewByteBudget limit = (if limit \<le> 0 then Inl LimitNotPositive
     else Inr \<lparr>bb_limit = limit, bb_used = 0, bb_changed = 0\<rparr>)"

fun Release :: "byte_budget option \<Rightarrow> int \<Rightarrow> budget_error + byte_budget option" where
  "Release None sz = Inl NilBudget"
| "Release (Some b) sz =
     (if sz < 0 then Inl NegativeSize
      else if sz = 0 then Inr (Some b)
      else if sz > bb_used b then Inl (ReleaseExceedsUsed sz (bb_used b))
      else Inr (Some (b\<lparr>bb_used := bb_used b - sz, bb_changed := Suc (bb_changed b)\<rparr>)))"

text \<open>
  \<^verbatim>\<open>Acquire\<close> is its guards followed by a loop. \<open>acquire_checks\<close> is everything before the
  loop: \<open>Inr True\<close> enters it, \<open>Inr False\<close> returns nil at once (a zero sz). The context is
  \<open>None\<close> when nil and otherwise tells whether it is done.
\<close>

definition acquire_checks :: "byte_budget option \<Rightarrow> bool option \<Rightarrow> int \<Rightarrow> budget_error + bool" where
  "acquire_checks b ctx sz =
     (case b of None \<Rightarrow> Inl NilBudget | Some b \<Rightarrow>
      case ctx of None \<Rightarrow> Inl NilContext | Some done \<Rightarrow>
        if sz < 0 then Inl NegativeSize
        else if sz > bb_limit b then Inl (ItemExceedsBudget sz (bb_limit b))
        else if sz = 0 then (if done then Inl Canceled else Inr False)
        else Inr True)"

datatype acquire_result =
    Acquired
  | AcquireFailed budget_error
  | Waiting nat

text \<open>
  One turn of the loop: \<open>done1\<close> is the context check at its head, \<open>done2\<close> the check after the
  bytes were taken. \<open>Waiting g\<close> is the goroutine parked on channel \<open>g\<close>, from which it starts
  another turn when the channel is closed.
\<close>

definition acquire_turn :: "bool \<Rightarrow> bool \<Rightarrow> int \<Rightarrow> byte_budget \<Rightarrow> acquire_result \<times> byte_budget" where
  "acquire_turn done1 done2 sz b =
     (if done1 then (AcquireFailed Canceled, b)
      else if bb_used b \<le> bb_limit b - sz then
        (let b' = b\<lparr>bb_used := bb_used b + sz\<rparr> in
         if done2 then
           (case Release (Some b') sz of
              Inl releaseErr \<Rightarrow> (AcquireFailed (CanceledAnd releaseErr), b')
            | Inr b'' \<Rightarrow> (AcquireFailed Canceled, the b''))
         else (Acquired, b'))
      else (Waiting (bb_changed b), b))"

definition Usage :: "byte_budget option \<Rightarrow> int \<times> int" where
  "Usage b = (case b of None \<Rightarrow> (0, 0) | Some b \<Rightarrow> (bb_used b, bb_limit b))"

section \<open>Goroutines sharing one budget\<close>

text \<open>
  A configuration is the budget, the sizes currently held and the parked goroutines with the
  channel each waits on. Any goroutine may move; the mutex makes each move one step.
\<close>

record budget_sys =
  bs_budget :: byte_budget
  bs_held :: "int multiset"
  bs_waiting :: "(int \<times> nat) multiset"

inductive budget_step :: "budget_sys \<Rightarrow> budget_sys \<Rightarrow> bool" where
  acquired: "acquire_checks (Some (bs_budget s)) (Some c) sz = Inr True \<Longrightarrow>
     acquire_turn d1 d2 sz (bs_budget s) = (Acquired, b') \<Longrightarrow>
     budget_step s (s\<lparr>bs_budget := b', bs_held := add_mset sz (bs_held s)\<rparr>)"
| gave_up: "acquire_checks (Some (bs_budget s)) (Some c) sz = Inr True \<Longrightarrow>
     acquire_turn d1 d2 sz (bs_budget s) = (AcquireFailed e, b') \<Longrightarrow>
     budget_step s (s\<lparr>bs_budget := b'\<rparr>)"
| parked: "acquire_checks (Some (bs_budget s)) (Some c) sz = Inr True \<Longrightarrow>
     acquire_turn d1 d2 sz (bs_budget s) = (Waiting g, b') \<Longrightarrow>
     budget_step s (s\<lparr>bs_budget := b', bs_waiting := add_mset (sz, g) (bs_waiting s)\<rparr>)"
| woken: "(sz, g) \<in># bs_waiting s \<Longrightarrow> g \<noteq> bb_changed (bs_budget s) \<or> c \<Longrightarrow>
     budget_step s (s\<lparr>bs_waiting := bs_waiting s - {#(sz, g)#}\<rparr>)"
| released: "sz \<in># bs_held s \<Longrightarrow> Release (Some (bs_budget s)) sz = Inr (Some b') \<Longrightarrow>
     budget_step s (s\<lparr>bs_budget := b', bs_held := bs_held s - {#sz#}\<rparr>)"

inductive budget_reachable :: "int \<Rightarrow> budget_sys \<Rightarrow> bool" for limit where
  start: "NewByteBudget limit = Inr b \<Longrightarrow>
     budget_reachable limit \<lparr>bs_budget = b, bs_held = {#}, bs_waiting = {#}\<rparr>"
| step: "budget_reachable limit s \<Longrightarrow> budget_step s t \<Longrightarrow> budget_reachable limit t"

definition budget_inv :: "int \<Rightarrow> budget_sys \<Rightarrow> bool" where
  "budget_inv limit s \<longleftrightarrow>
     bb_limit (bs_budget s) = limit \<and> 0 \<le> bb_used (bs_budget s) \<and> bb_used (bs_budget s) \<le> limit \<and>
     bb_used (bs_budget s) = sum_mset (bs_held s) \<and> (\<forall>x \<in># bs_held s. 0 < x) \<and>
     (\<forall>(sz, g) \<in># bs_waiting s. sz \<le> limit \<and> g \<le> bb_changed (bs_budget s) \<and>
        (g = bb_changed (bs_budget s) \<longrightarrow> bb_used (bs_budget s) + sz > limit))"

lemma acquire_checks_True:
  "acquire_checks (Some b) (Some c) sz = Inr True \<longleftrightarrow> 0 < sz \<and> sz \<le> bb_limit b"
  by (auto simp: acquire_checks_def split: if_splits)

lemma acquire_turn_Acquired:
  "acquire_turn d1 d2 sz b = (Acquired, b') \<longleftrightarrow>
     \<not> d1 \<and> \<not> d2 \<and> bb_used b + sz \<le> bb_limit b \<and> b' = b\<lparr>bb_used := bb_used b + sz\<rparr>"
  by (auto simp: acquire_turn_def Let_def split: if_splits sum.splits)

lemma acquire_turn_Waiting:
  "acquire_turn d1 d2 sz b = (Waiting g, b') \<longleftrightarrow>
     \<not> d1 \<and> bb_used b + sz > bb_limit b \<and> g = bb_changed b \<and> b' = b"
  by (auto simp: acquire_turn_def Let_def split: if_splits sum.splits)

lemma acquire_turn_Failed:
  assumes "acquire_turn d1 d2 sz b = (AcquireFailed e, b')" and "0 < sz" and "0 \<le> bb_used b"
  shows "e = Canceled \<and> (b' = b \<or> b' = b\<lparr>bb_changed := Suc (bb_changed b)\<rparr>)"
  using assms by (auto simp: acquire_turn_def Let_def split: if_splits)

lemma Release_Some_iff:
  "Release (Some b) sz = Inr (Some b') \<longleftrightarrow>
     (sz = 0 \<and> b' = b) \<or> (0 < sz \<and> sz \<le> bb_used b \<and>
       b' = b\<lparr>bb_used := bb_used b - sz, bb_changed := Suc (bb_changed b)\<rparr>)"
  by auto

lemma budget_step_inv:
  assumes "budget_step s t" and "budget_inv limit s"
  shows "budget_inv limit t"
  using assms
proof (induction rule: budget_step.induct)
  case (acquired s c sz d1 d2 b')
  then show ?case
    by (auto simp: budget_inv_def acquire_checks_True acquire_turn_Acquired; force)
next
  case (gave_up s c sz d1 d2 e b')
  then have "b' = bs_budget s \<or> b' = bs_budget s\<lparr>bb_changed := Suc (bb_changed (bs_budget s))\<rparr>"
    using acquire_turn_Failed by (simp add: budget_inv_def acquire_checks_True)
  with gave_up.prems show ?case
    by (auto simp: budget_inv_def; force)
next
  case (parked s c sz d1 d2 g b')
  then show ?case
    by (auto simp: budget_inv_def acquire_checks_True acquire_turn_Waiting)
next
  case (woken sz g s c)
  then show ?case by (auto simp: budget_inv_def dest: in_diffD)
next
  case (released sz s b')
  then have "0 < sz" and "sum_mset (bs_held s - {#sz#}) = sum_mset (bs_held s) - sz"
    by (auto simp: budget_inv_def sum_mset.remove)
  then show ?case
    using released
    by (fastforce simp: budget_inv_def Release_Some_iff dest: in_diffD simp del: Release.simps)
qed

lemma budget_reachable_inv: "budget_reachable limit s \<Longrightarrow> budget_inv limit s"
proof (induction rule: budget_reachable.induct)
  case (start b)
  then show ?case by (auto simp: budget_inv_def NewByteBudget_def split: if_splits)
next
  case (step s t)
  then show ?case by (blast intro: budget_step_inv)
qed

section \<open>Properties\<close>

text \<open>
  C31. In every interleaving the bytes charged to the budget are exactly the bytes held by the
  goroutines, never negative and never above the limit, and releasing a held amount never fails.
\<close>

theorem budget_accounts_exactly:
  assumes "budget_reachable limit s"
  shows "0 \<le> bb_used (bs_budget s) \<and> bb_used (bs_budget s) \<le> limit \<and>
    bb_used (bs_budget s) = sum_mset (bs_held s) \<and>
    (\<forall>sz \<in># bs_held s. \<exists>b'. Release (Some (bs_budget s)) sz = Inr (Some b'))"
proof -
  have inv: "budget_inv limit s" by (rule budget_reachable_inv [OF assms])
  have "sz \<le> sum_mset (bs_held s)" if "sz \<in># bs_held s" for sz
  proof -
    have nonneg: "0 \<le> sum_mset M" if "\<forall>x \<in># M. 0 < x" for M :: "int multiset"
      using that by (induction M) auto
    have "sum_mset (bs_held s) = sz + sum_mset (bs_held s - {#sz#})"
      using that by (rule sum_mset.remove)
    moreover have "0 \<le> sum_mset (bs_held s - {#sz#})"
      using inv by (intro nonneg) (auto simp: budget_inv_def dest: in_diffD)
    ultimately show ?thesis by simp
  qed
  with inv show ?thesis
    by (auto simp: budget_inv_def Release_Some_iff simp del: Release.simps)
qed

lemma sample_budget_run:
  "budget_reachable 10 \<lparr>bs_budget = \<lparr>bb_limit = 10, bb_used = 7, bb_changed = 0\<rparr>, bs_held = {#7#},
     bs_waiting = {#(5, 0)#}\<rparr>"
proof -
  let ?b0 = "\<lparr>bb_limit = 10, bb_used = 0, bb_changed = 0\<rparr> :: byte_budget"
  let ?b1 = "\<lparr>bb_limit = 10, bb_used = 7, bb_changed = 0\<rparr> :: byte_budget"
  have 0: "budget_reachable 10 \<lparr>bs_budget = ?b0, bs_held = {#}, bs_waiting = {#}\<rparr>"
    by (rule budget_reachable.start) (simp add: NewByteBudget_def)
  have 1: "budget_reachable 10 \<lparr>bs_budget = ?b1, bs_held = {#7#}, bs_waiting = {#}\<rparr>"
    using budget_reachable.step [OF 0 budget_step.acquired [of _ False 7 False False ?b1]]
    by (simp add: acquire_checks_True acquire_turn_Acquired)
  show ?thesis
    using budget_reachable.step [OF 1 budget_step.parked [of _ False 5 False False 0 ?b1]]
    by (simp add: acquire_checks_True acquire_turn_Waiting)
qed

lemma budget_accounts_exactly_witness:
  "bb_used \<lparr>bb_limit = 10, bb_used = 7, bb_changed = 0\<rparr> = sum_mset {#7#}"
  using budget_accounts_exactly [OF sample_budget_run] by simp

text \<open>
  C32. No lost wake-up: a goroutine still parked on the current channel asks for more than is free,
  so it has nothing to be woken for; in particular, when nothing is held, no goroutine is left
  parked on the current channel.
\<close>

theorem budget_no_lost_wakeup:
  assumes "budget_reachable limit s" and "(sz, bb_changed (bs_budget s)) \<in># bs_waiting s"
  shows "bb_used (bs_budget s) + sz > limit \<and> bs_held s \<noteq> {#}"
proof -
  have "budget_inv limit s" by (rule budget_reachable_inv [OF assms(1)])
  with assms(2) show ?thesis by (auto simp: budget_inv_def)
qed

lemma budget_no_lost_wakeup_witness:
  "bb_used \<lparr>bb_limit = 10, bb_used = 7, bb_changed = 0\<rparr> + 5 > (10 :: int)"
  using budget_no_lost_wakeup [OF sample_budget_run, of 5] by simp

end
