(* ===== verification/Metrics.thy ===== *)
theory Metrics
  imports Prelude
begin

text \<open>
  \<^verbatim>\<open>internal/syncer/metrics.go\<close>: the counters of a run. Every counter is an atomic 64-bit
  word, so additions wrap; a nil receiver is \<open>None\<close> and every observation on it does nothing.
  The two floating-point rates of a snapshot are not modelled.
\<close>

record metrics =
  mt_startedAt :: "time option"
  mt_attempts :: u64
  mt_reconnects :: u64
  mt_agreedBlocks :: u64
  mt_agreedBytes :: u64
  mt_publishedBlocks :: u64
  mt_publishedBatches :: u64
  mt_publishedRows :: u64
  mt_rollbacks :: u64
  mt_agreementCalls :: u64
  mt_agreementWaitNs :: u64
  mt_mismatches :: u64
  mt_normalizedBlocks :: u64
  mt_normalizeNs :: u64
  mt_publishNs :: u64
  mt_agreedQueueItems :: int
  mt_agreedQueueBytes :: int
  mt_agreedQueueHighItems :: int
  mt_agreedQueueHighBytes :: int

definition zero_metrics :: metrics where
  "zero_metrics = \<lparr>mt_startedAt = None, mt_attempts = 0, mt_reconnects = 0, mt_agreedBlocks = 0,
     mt_agreedBytes = 0, mt_publishedBlocks = 0, mt_publishedBatches = 0, mt_publishedRows = 0,
     mt_rollbacks = 0, mt_agreementCalls = 0, mt_agreementWaitNs = 0, mt_mismatches = 0,
     mt_normalizedBlocks = 0, mt_normalizeNs = 0, mt_publishNs = 0, mt_agreedQueueItems = 0,
     mt_agreedQueueBytes = 0, mt_agreedQueueHighItems = 0, mt_agreedQueueHighBytes = 0\<rparr>"

text \<open>\<^verbatim>\<open>startOnce\<close>: only the first call stores the start time.\<close>

definition metrics_start :: "time \<Rightarrow> metrics \<Rightarrow> metrics" where
  "metrics_start now m = (if mt_startedAt m = None then m\<lparr>mt_startedAt := Some now\<rparr> else m)"

definition observeAttempt :: "time \<Rightarrow> metrics option \<Rightarrow> metrics option" where
  "observeAttempt now = map_option (\<lambda>m. let m = metrics_start now m in m\<lparr>mt_attempts := mt_attempts m + 1\<rparr>)"

definition observeReconnect :: "metrics option \<Rightarrow> metrics option" where
  "observeReconnect = map_option (\<lambda>m. m\<lparr>mt_reconnects := mt_reconnects m + 1\<rparr>)"

definition observeAgreed :: "time \<Rightarrow> u64 \<Rightarrow> metrics option \<Rightarrow> metrics option" where
  "observeAgreed now bytes = map_option (\<lambda>m. let m = metrics_start now m in
     m\<lparr>mt_agreedBlocks := mt_agreedBlocks m + 1, mt_agreedBytes := mt_agreedBytes m + bytes\<rparr>)"

definition observeAgreement :: "time \<Rightarrow> int \<Rightarrow> metrics option \<Rightarrow> metrics option" where
  "observeAgreement now wait = map_option (\<lambda>m. let m = metrics_start now m in
     m\<lparr>mt_agreementCalls := mt_agreementCalls m + 1,
       mt_agreementWaitNs := mt_agreementWaitNs m + uint64_of_int64 (max wait 0)\<rparr>)"

definition observeMismatch :: "metrics option \<Rightarrow> metrics option" where
  "observeMismatch = map_option (\<lambda>m. m\<lparr>mt_mismatches := mt_mismatches m + 1\<rparr>)"

definition observeNormalize :: "int \<Rightarrow> metrics option \<Rightarrow> metrics option" where
  "observeNormalize duration = map_option (\<lambda>m.
     m\<lparr>mt_normalizedBlocks := mt_normalizedBlocks m + 1,
       mt_normalizeNs := mt_normalizeNs m + uint64_of_int64 (max duration 0)\<rparr>)"

definition observePublish :: "time \<Rightarrow> nat \<Rightarrow> u64 \<Rightarrow> int \<Rightarrow> metrics option \<Rightarrow> metrics option" where
  "observePublish now blocks rows duration = map_option (\<lambda>m. let m = metrics_start now m in
     m\<lparr>mt_publishedBlocks := mt_publishedBlocks m + of_nat blocks,
       mt_publishedBatches := mt_publishedBatches m + 1,
       mt_publishedRows := mt_publishedRows m + rows,
       mt_publishNs := mt_publishNs m + uint64_of_int64 (max duration 0)\<rparr>)"

definition observeRollback :: "metrics option \<Rightarrow> metrics option" where
  "observeRollback = map_option (\<lambda>m. m\<lparr>mt_rollbacks := mt_rollbacks m + 1\<rparr>)"

text \<open>
  The compare-and-swap loop of \<^verbatim>\<open>updateMaximum\<close>: \<open>interference\<close> lists the values other
  goroutines store between the load and the swap; the swap succeeds when the value is unchanged.
\<close>

fun updateMaximum_loop :: "int list \<Rightarrow> int \<Rightarrow> int \<Rightarrow> int" where
  "updateMaximum_loop [] candidate current = (if candidate > current then candidate else current)"
| "updateMaximum_loop (other # rest) candidate current =
     (if candidate > current then
        (if other = current then candidate else updateMaximum_loop rest candidate other)
      else current)"

definition observeAgreedQueue :: "int \<Rightarrow> int \<Rightarrow> metrics option \<Rightarrow> metrics option" where
  "observeAgreedQueue items bytes = map_option (\<lambda>m.
     m\<lparr>mt_agreedQueueItems := items, mt_agreedQueueBytes := bytes,
       mt_agreedQueueHighItems := updateMaximum_loop [] items (mt_agreedQueueHighItems m),
       mt_agreedQueueHighBytes := updateMaximum_loop [] bytes (mt_agreedQueueHighBytes m)\<rparr>)"

text \<open>The averages of \<^verbatim>\<open>Snapshot\<close>: zero when nothing was counted.\<close>

definition average_ns :: "u64 \<Rightarrow> u64 \<Rightarrow> int" where
  "average_ns spent count = (if count > 0 then int64_of_uint64 (spent div count) else 0)"

record metrics_snapshot =
  ms_counters :: metrics
  ms_AgreementWaitAvg :: int
  ms_NormalizeAvg :: int
  ms_PublishAvg :: int

definition Snapshot :: "time \<Rightarrow> metrics option \<Rightarrow> metrics_snapshot" where
  "Snapshot now mo = (case mo of
       None \<Rightarrow> \<lparr>ms_counters = zero_metrics, ms_AgreementWaitAvg = 0, ms_NormalizeAvg = 0, ms_PublishAvg = 0\<rparr>
     | Some m \<Rightarrow> let m = metrics_start now m in
         \<lparr>ms_counters = m,
          ms_AgreementWaitAvg = average_ns (mt_agreementWaitNs m) (mt_agreementCalls m),
          ms_NormalizeAvg = average_ns (mt_normalizeNs m) (mt_normalizedBlocks m),
          ms_PublishAvg = average_ns (mt_publishNs m) (mt_publishedBatches m)\<rparr>)"

text \<open>
  The loop never lowers the value it leaves and always leaves at least its candidate, whatever the
  other goroutines store.
\<close>

lemma updateMaximum_loop_ge: "candidate \<le> updateMaximum_loop others candidate current"
  by (induction others candidate current rule: updateMaximum_loop.induct) auto

lemma updateMaximum_loop_quiet: "updateMaximum_loop [] candidate current = max candidate current"
  by simp

end
