(* ===== verification/Intake.thy ===== *)
theory Intake
  imports Mapper_Progress Byte_Budget Metrics
begin

text \<open>
  \<^verbatim>\<open>produceAgreed\<close> of \<^verbatim>\<open>internal/syncer/runner.go\<close> and its composition with the byte
  budget and the ordered mapper: agreed events are charged to the budget before they enter the bounded
  input channel, and released when a worker of the mapper takes them. The composition shows that the
  channel never holds more bytes than the budget allows, that a release never fails, and that the
  mapper is never handed an event it would reject as malformed.
\<close>

section \<open>The producer\<close>

type_synonym agreed_item = "(agreed_event, agreed_event) pipeline_event"

datatype 'e next_answer =
    NextFailed bool 'e
  | NextEvent agreed_event

datatype 'e produce_error =
    ProduceCause 'e
  | RawLengthTooLarge
  | RawLengthMismatch
  | BudgetRefused budget_error
  | UnknownKind

text \<open>
  Where the producer stands: in \<^verbatim>\<open>engine.Next\<close>, in \<^verbatim>\<open>budget.Acquire\<close>, at the
  \<^verbatim>\<open>select\<close> that sends the item, or returned with a \<^verbatim>\<open>producerResult\<close>.
\<close>

datatype 'e producer =
    Pulling
  | Acquiring agreed_item
  | Enqueueing agreed_item
  | Produced bool "'e produce_error"

text \<open>The causes of the process and attempt contexts, when they are done, are the first two arguments.\<close>

definition after_next :: "'e option \<Rightarrow> 'e option \<Rightarrow> 'e next_answer \<Rightarrow> 'e producer" where
  "after_next processCause attemptCause answer =
     (case answer of
        NextFailed difference err \<Rightarrow>
          (case processCause of
             Some cause \<Rightarrow> Produced False (ProduceCause cause)
           | None \<Rightarrow> (case attemptCause of
               Some cause \<Rightarrow> Produced True (ProduceCause cause)
             | None \<Rightarrow> Produced True (ProduceCause err)))
      | NextEvent event \<Rightarrow>
          if ae_Kind event = EventForward then
            if uint (ae_RawLength event) > max_int64 then Produced False RawLengthTooLarge
            else let retained = int64_of_uint64 (ae_RawLength event) in
              if retained \<noteq> int (length (ae_RawCBOR event)) then Produced False RawLengthMismatch
              else Acquiring \<lparr>ev_Forward = Some event, ev_Rollback = None, ev_Bytes = retained\<rparr>
          else if ae_Kind event = EventRollback
          then Enqueueing \<lparr>ev_Forward = None, ev_Rollback = Some event, ev_Bytes = 0\<rparr>
          else Produced False UnknownKind)"

definition after_refusal :: "'e option \<Rightarrow> 'e option \<Rightarrow> budget_error \<Rightarrow> 'e producer" where
  "after_refusal processCause attemptCause err =
     (case processCause of
        Some cause \<Rightarrow> Produced False (ProduceCause cause)
      | None \<Rightarrow> (case attemptCause of
          Some cause \<Rightarrow> Produced True (ProduceCause cause)
        | None \<Rightarrow> Produced False (BudgetRefused err)))"

text \<open>The \<^verbatim>\<open>select\<close> saw the attempt context done (with \<open>attemptCause\<close>), or the process context.\<close>

definition after_attempt_done :: "'e option \<Rightarrow> 'e \<Rightarrow> 'e producer" where
  "after_attempt_done processCause attemptCause =
     (case processCause of
        Some cause \<Rightarrow> Produced False (ProduceCause cause)
      | None \<Rightarrow> Produced True (ProduceCause attemptCause))"

definition after_process_done :: "'e \<Rightarrow> 'e producer" where
  "after_process_done processCause = Produced False (ProduceCause processCause)"

text \<open>The bytes given back when the item could not be sent; an error of the release is dropped.\<close>

definition give_back :: "int \<Rightarrow> byte_budget \<Rightarrow> byte_budget" where
  "give_back retained b =
     (if retained > 0 then (case Release (Some b) retained of Inr (Some b') \<Rightarrow> b' | _ \<Rightarrow> b) else b)"

section \<open>Producer, budget, channel and mapper\<close>

record ('o, 'e, 'd) intake =
  in_budget :: byte_budget
  in_queue :: "agreed_item list"
  in_closed :: bool
  in_producer :: "'e producer"
  in_mapper :: "(agreed_event, 'o, agreed_event, 'd, budget_error) mapper_sys"
  in_metrics :: "metrics option"

definition observe_queue :: "('o, 'e, 'd) intake \<Rightarrow> ('o, 'e, 'd) intake" where
  "observe_queue s = s\<lparr>in_metrics :=
     observeAgreedQueue (int (length (in_queue s))) (fst (Usage (Some (in_budget s)))) (in_metrics s)\<rparr>"

text \<open>After the item was sent on the channel.\<close>

definition item_sent :: "time \<Rightarrow> agreed_item \<Rightarrow> ('o, 'e, 'd) intake \<Rightarrow> ('o, 'e, 'd) intake" where
  "item_sent now item s =
     (let s = s\<lparr>in_queue := in_queue s @ [item], in_producer := Pulling\<rparr>;
          s = (case ev_Forward item of
                 Some event \<Rightarrow> s\<lparr>in_metrics := observeAgreed now (ae_RawLength event) (in_metrics s)\<rparr>
               | None \<Rightarrow> s)
      in observe_queue s)"

text \<open>\<^verbatim>\<open>releaseInput\<close>, the callback the mapper calls when a worker took a job.\<close>

definition releaseInput :: "int \<Rightarrow> ('o, 'e, 'd) intake \<Rightarrow> budget_error option \<times> ('o, 'e, 'd) intake" where
  "releaseInput sz s =
     (case Release (Some (in_budget s)) sz of
        Inl e \<Rightarrow> (Some e, s)
      | Inr b \<Rightarrow> (None, observe_queue (s\<lparr>in_budget := the b\<rparr>)))"

fun uses_channel :: "('i, 'r, 'e, 'f, 'o) mapper_choice \<Rightarrow> bool" where
  "uses_channel (Receive x) = True"
| "uses_channel (TakeJob x) = True"
| "uses_channel _ = False"

inductive intake_step :: "ordered_mapper \<Rightarrow> (bool \<Rightarrow> agreed_event \<Rightarrow> 'd + 'o) \<Rightarrow> int \<Rightarrow>
    ('o, 'e, 'd) intake \<Rightarrow> ('o, 'e, 'd) intake \<Rightarrow> bool" for cfg decode capacity where
  next_answered: "in_producer s = Pulling \<Longrightarrow>
     intake_step cfg decode capacity s (s\<lparr>in_producer := after_next pc ac answer,
       in_metrics := (case answer of NextFailed True _ \<Rightarrow> observeMismatch | _ \<Rightarrow> id)
         (observeAgreement now wait (in_metrics s))\<rparr>)"
| acquire_at_once: "in_producer s = Acquiring item \<Longrightarrow>
     acquire_checks (Some (in_budget s)) (Some c) (ev_Bytes item) = Inr False \<Longrightarrow>
     intake_step cfg decode capacity s (s\<lparr>in_producer := Enqueueing item\<rparr>)"
| acquire_refused: "in_producer s = Acquiring item \<Longrightarrow>
     acquire_checks (Some (in_budget s)) (Some c) (ev_Bytes item) = Inl e \<Longrightarrow>
     intake_step cfg decode capacity s (s\<lparr>in_producer := after_refusal pc ac e\<rparr>)"
| acquire_granted: "in_producer s = Acquiring item \<Longrightarrow>
     acquire_checks (Some (in_budget s)) (Some c) (ev_Bytes item) = Inr True \<Longrightarrow>
     acquire_turn d1 d2 (ev_Bytes item) (in_budget s) = (Acquired, b) \<Longrightarrow>
     intake_step cfg decode capacity s (s\<lparr>in_budget := b, in_producer := Enqueueing item\<rparr>)"
| acquire_gave_up: "in_producer s = Acquiring item \<Longrightarrow>
     acquire_checks (Some (in_budget s)) (Some c) (ev_Bytes item) = Inr True \<Longrightarrow>
     acquire_turn d1 d2 (ev_Bytes item) (in_budget s) = (AcquireFailed e, b) \<Longrightarrow>
     intake_step cfg decode capacity s (s\<lparr>in_budget := b, in_producer := after_refusal pc ac e\<rparr>)"
| enqueued: "in_producer s = Enqueueing item \<Longrightarrow> int (length (in_queue s)) < capacity \<Longrightarrow>
     intake_step cfg decode capacity s (item_sent now item s)"
| attempt_done: "in_producer s = Enqueueing item \<Longrightarrow>
     intake_step cfg decode capacity s (s\<lparr>in_budget := give_back (ev_Bytes item) (in_budget s),
       in_producer := after_attempt_done pc cause\<rparr>)"
| process_done: "in_producer s = Enqueueing item \<Longrightarrow>
     intake_step cfg decode capacity s (s\<lparr>in_budget := give_back (ev_Bytes item) (in_budget s),
       in_producer := after_process_done cause\<rparr>)"
| input_closed: "in_producer s = Produced retryable e \<Longrightarrow>
     intake_step cfg decode capacity s (s\<lparr>in_closed := True\<rparr>)"
| mapper_received: "in_queue s = item # items \<Longrightarrow>
     mapper_move cfg decode (Receive (Some item)) (in_mapper s) = Some m \<Longrightarrow>
     intake_step cfg decode capacity s (s\<lparr>in_queue := items, in_mapper := m\<rparr>)"
| mapper_saw_close: "in_queue s = [] \<Longrightarrow> in_closed s \<Longrightarrow>
     mapper_move cfg decode (Receive None) (in_mapper s) = Some m \<Longrightarrow>
     intake_step cfg decode capacity s (s\<lparr>in_mapper := m\<rparr>)"
| mapper_took_job: "ms_pc (in_mapper s) = Offering job \<Longrightarrow> releaseInput (dj_bytes job) s = (answer, u) \<Longrightarrow>
     mapper_move cfg decode (TakeJob answer) (in_mapper s) = Some m \<Longrightarrow>
     intake_step cfg decode capacity s (u\<lparr>in_mapper := m\<rparr>)"
| mapper_moved: "\<not> uses_channel mv \<Longrightarrow> mapper_move cfg decode mv (in_mapper s) = Some m \<Longrightarrow>
     intake_step cfg decode capacity s (s\<lparr>in_mapper := m\<rparr>)"

inductive intake_reachable :: "ordered_mapper \<Rightarrow> (bool \<Rightarrow> agreed_event \<Rightarrow> 'd + 'o) \<Rightarrow> int \<Rightarrow> int \<Rightarrow>
    ('o, 'e, 'd) intake \<Rightarrow> bool" for cfg decode capacity limit where
  intake_begin: "NewByteBudget limit = Inr b \<Longrightarrow>
     mapper_checks False False cfg = (None :: ('d, budget_error) mapper_error option) \<Longrightarrow>
     intake_reachable cfg decode capacity limit \<lparr>in_budget = b, in_queue = [], in_closed = False,
       in_producer = Pulling, in_mapper = mapper_start cfg, in_metrics = m\<rparr>"
| intake_continue: "intake_reachable cfg decode capacity limit s \<Longrightarrow> intake_step cfg decode capacity s t \<Longrightarrow>
     intake_reachable cfg decode capacity limit t"

section \<open>The invariant\<close>

definition proper_item :: "agreed_item \<Rightarrow> bool" where
  "proper_item item \<longleftrightarrow> well_formed item \<and> 0 \<le> ev_Bytes item"

fun item_of :: "'e producer \<Rightarrow> agreed_item list" where
  "item_of (Enqueueing item) = [item]"
| "item_of _ = []"

fun wants :: "'e producer \<Rightarrow> agreed_item list" where
  "wants (Acquiring item) = [item]"
| "wants p = item_of p"

text \<open>The events that entered the channel, with the one about to enter it.\<close>

definition entered :: "('o, 'e, 'd) intake \<Rightarrow> agreed_item list" where
  "entered s = ms_consumed (in_mapper s) @ in_queue s @ item_of (in_producer s)"

fun release_failed :: "('i, 'e, 'f) mapper_pc \<Rightarrow> bool" where
  "release_failed (Closing (Some (ReleaseInputFailed e))) = True"
| "release_failed (Returned (Some (ReleaseInputFailed e))) = True"
| "release_failed _ = False"

definition intake_inv where
  "intake_inv cfg decode limit s \<longleftrightarrow> mapper_reachable cfg decode (in_mapper s) \<and>
     bb_limit (in_budget s) = limit \<and> bb_used (in_budget s) \<le> limit \<and>
     bb_used (in_budget s) + sum_list (ms_released (in_mapper s)) = sum_list (forward_bytes (entered s)) \<and>
     list_all proper_item (ms_consumed (in_mapper s) @ in_queue s @ wants (in_producer s)) \<and>
     sum_list (ms_released (in_mapper s)) \<le> sum_list (forward_bytes (ms_consumed (in_mapper s))) \<and>
     \<not> release_failed (ms_pc (in_mapper s))"

lemma forward_bytes_append [simp]: "forward_bytes (xs @ ys) = forward_bytes xs @ forward_bytes ys"
  by (simp add: forward_bytes_def)

lemma forward_bytes_single: "proper_item item \<Longrightarrow> sum_list (forward_bytes [item]) = ev_Bytes item"
  by (auto simp: forward_bytes_def proper_item_def well_formed_def)

lemma forward_bytes_Nil [simp]: "forward_bytes [] = []"
  by (simp add: forward_bytes_def)

lemma forward_bytes_nonneg: "list_all proper_item xs \<Longrightarrow> 0 \<le> sum_list (forward_bytes xs)"
  by (induction xs) (auto simp: forward_bytes_def proper_item_def)

lemma forward_bytes_take: "sum_list (forward_bytes xs) = sum_list (forward_bytes (take n xs)) + sum_list (forward_bytes (drop n xs))"
  by (metis append_take_drop_id forward_bytes_append sum_list_append)

text \<open>The bytes charged are those of the events in the channel, about to enter it, or not yet taken by a worker.\<close>

lemma used_bytes:
  assumes "intake_inv cfg decode limit s" and "om_Window cfg \<le> max_int64" and "\<not> closing (ms_pc (in_mapper s))"
  shows "bb_used (in_budget s) =
    sum_list (forward_bytes (drop (assigned (ms_consumed (in_mapper s)) (ms_locals (in_mapper s))) (ms_consumed (in_mapper s)))) +
    sum_list (forward_bytes (in_queue s)) + sum_list (forward_bytes (item_of (in_producer s)))"
proof -
  let ?m = "in_mapper s"
  let ?n = "assigned (ms_consumed ?m) (ms_locals ?m)"
  have reach: "mapper_reachable cfg decode ?m" using assms(1) by (simp add: intake_inv_def)
  have "ms_released ?m = forward_bytes (take ?n (ms_consumed ?m))"
    using flying_parts(2) [OF mapper_reachable_inv(1) [OF reach assms(2)] assms(3)] by (simp add: counted_def)
  then show ?thesis
    using assms(1) forward_bytes_take [of "ms_consumed ?m" ?n] by (simp add: intake_inv_def entered_def)
qed

section \<open>What a move of the mapper changes\<close>

lemma release_failed_returned:
  "release_failed (Returned e :: ('i, 'e, 'f) mapper_pc) = release_failed (Closing e :: ('i, 'e, 'f) mapper_pc)"
  by (cases e) (auto elim: release_failed.elims)

lemma loop_or_fail_frame:
  "accept_result r m = x \<Longrightarrow> \<not> release_failed (ms_pc (loop_or_fail x s))"
  "accept_input i m = x \<Longrightarrow> \<not> release_failed (ms_pc (loop_or_fail x s))"
  "ms_consumed (loop_or_fail x s) = ms_consumed s" "ms_released (loop_or_fail x s) = ms_released s"
  by (auto simp: loop_or_fail_def accept_result_def accept_input_def split: sum.splits option.splits if_splits)

lemma take_action_frame:
  "\<not> release_failed (ms_pc (take_action (loop_action_of cfg m) s))"
  "ms_consumed (take_action a s) = ms_consumed s" "ms_released (take_action a s) = ms_released s"
  by (auto simp: take_action_def loop_action_of_def wait_action_def Let_def split: option.splits loop_action.splits)

lemma advance_frame:
  assumes "advance cfg m = Some m'"
  shows "ms_consumed m' = ms_consumed m" and "ms_released m' = ms_released m"
    and "release_failed (ms_pc m') \<Longrightarrow> release_failed (ms_pc m)"
proof -
  have "ms_consumed m' = ms_consumed m \<and> ms_released m' = ms_released m \<and>
      (release_failed (ms_pc m') \<longrightarrow> release_failed (ms_pc m))"
  proof (cases "ms_pc m")
    case (Emitting final)
    with assms show ?thesis
      by (auto simp: Let_def take_action_frame split: if_splits)
  qed (use assms in \<open>auto simp: Let_def release_failed_returned split: if_splits\<close>)
  then show "ms_consumed m' = ms_consumed m" and "ms_released m' = ms_released m"
    and "release_failed (ms_pc m') \<Longrightarrow> release_failed (ms_pc m)" by auto
qed

lemma other_move_frame:
  assumes "\<not> uses_channel mv" and "mapper_move cfg decode mv m = Some m'"
  shows "ms_consumed m' = ms_consumed m" and "ms_released m' = ms_released m"
    and "release_failed (ms_pc m') \<Longrightarrow> release_failed (ms_pc m)"
proof -
  have "ms_consumed m' = ms_consumed m \<and> ms_released m' = ms_released m \<and>
      (release_failed (ms_pc m') \<longrightarrow> release_failed (ms_pc m))"
  proof (cases mv)
    case Advance
    with assms(2) advance_frame [of cfg m m'] show ?thesis by simp
  next
    case Deliver
    with assms(2) show ?thesis
      by (auto simp: Let_def emit_item_def split: mapper_pc.splits option.splits if_splits)
  next
    case TakeResult
    with assms(2) show ?thesis by (auto simp: loop_or_fail_frame split: mapper_pc.splits list.splits)
  qed (use assms in \<open>auto simp: replace_worker_def split: if_splits\<close>)
  then show "ms_consumed m' = ms_consumed m" and "ms_released m' = ms_released m"
    and "release_failed (ms_pc m') \<Longrightarrow> release_failed (ms_pc m)" by auto
qed

lemma receive_frame:
  assumes "mapper_move cfg decode (Receive received) m = Some m'"
  shows "ms_consumed m' = ms_consumed m @ (case received of None \<Rightarrow> [] | Some item \<Rightarrow> [item])"
    and "ms_released m' = ms_released m" and "\<not> release_failed (ms_pc m')"
  using assms by (auto simp: loop_or_fail_frame split: if_splits option.splits)

lemma take_job_frame:
  assumes "mapper_move cfg decode (TakeJob None) m = Some m'" and "ms_pc m = Offering job"
  shows "ms_consumed m' = ms_consumed m" and "ms_released m' = ms_released m @ [dj_bytes job]"
    and "\<not> release_failed (ms_pc m')"
  using assms by (auto simp: Let_def replace_worker_def split: if_splits)

section \<open>The invariant holds\<close>

lemma after_next_item:
  "list_all proper_item (wants (after_next pc ac answer))" "sum_list (forward_bytes (item_of (after_next pc ac answer))) = 0"
  by (auto simp: after_next_def proper_item_def well_formed_def forward_bytes_def Let_def
      split: next_answer.splits option.splits)

lemma refused_item: "wants (after_refusal pc ac e) = []" "item_of (after_refusal pc ac e) = []"
  "wants (after_attempt_done pc cause) = []" "item_of (after_attempt_done pc cause) = []"
  "wants (after_process_done cause) = []" "item_of (after_process_done cause) = []"
  by (auto simp: after_refusal_def after_attempt_done_def after_process_done_def split: option.splits)

lemma give_back_used:
  assumes "0 \<le> retained" and "retained \<le> bb_used b"
  shows "bb_used (give_back retained b) = bb_used b - retained" and "bb_limit (give_back retained b) = bb_limit b"
  using assms by (auto simp: give_back_def)

lemma offered_held:
  assumes "intake_inv cfg decode limit s" and "om_Window cfg \<le> max_int64" and "ms_pc (in_mapper s) = Offering job"
  shows "0 \<le> dj_bytes job" and "dj_bytes job \<le> bb_used (in_budget s)"
proof -
  let ?m = "in_mapper s"
  let ?evs = "ms_consumed ?m" and ?n = "assigned (ms_consumed ?m) (ms_locals ?m)"
  have nc: "\<not> closing (ms_pc ?m)" using assms(3) by simp
  have reach: "mapper_reachable cfg decode ?m" using assms(1) by (simp add: intake_inv_def)
  note parts = flying_parts [OF mapper_reachable_inv(1) [OF reach assms(2)] nc]
  obtain ev where ev: "ml_held (ms_locals ?m) = Some ev" "ev_Forward ev \<noteq> None" "dj_bytes job = ev_Bytes ev" "0 \<le> ev_Bytes ev"
    using parts(4) assms(3) by (auto simp: offered_def)
  then have at: "?evs \<noteq> []" "?evs ! ?n = ev" using parts(2) by (auto simp: counted_def held_last_def)
  have "drop ?n ?evs = ev # drop (Suc ?n) ?evs"
    using at(2) assigned_held [OF ev(1) at(1)] by (metis Cons_nth_drop_Suc)
  then have "sum_list (forward_bytes (drop ?n ?evs)) = ev_Bytes ev + sum_list (forward_bytes (drop (Suc ?n) ?evs))"
    using ev(2) by (simp add: forward_bytes_def)
  moreover have proper: "list_all proper_item (?evs @ in_queue s @ item_of (in_producer s))"
    using assms(1) by (cases "in_producer s") (auto simp: intake_inv_def)
  then have "list_all proper_item (drop (Suc ?n) ?evs)" by (auto simp: list_all_iff dest: in_set_dropD)
  then have "0 \<le> sum_list (forward_bytes (drop (Suc ?n) ?evs))" by (rule forward_bytes_nonneg)
  moreover have "0 \<le> sum_list (forward_bytes (in_queue s))" "0 \<le> sum_list (forward_bytes (item_of (in_producer s)))"
    using proper by (auto intro: forward_bytes_nonneg)
  ultimately show "0 \<le> dj_bytes job" and "dj_bytes job \<le> bb_used (in_budget s)"
    using used_bytes [OF assms(1,2) nc] ev(3,4) by simp_all
qed

lemma releaseInput_ok:
  assumes "0 \<le> sz" and "sz \<le> bb_used (in_budget s)"
  shows "\<exists>u. releaseInput sz s = (None, u) \<and> bb_used (in_budget u) = bb_used (in_budget s) - sz \<and>
    bb_limit (in_budget u) = bb_limit (in_budget s) \<and> in_queue u = in_queue s \<and> in_producer u = in_producer s"
  using assms by (auto simp: releaseInput_def observe_queue_def)

lemma proper_entered:
  "intake_inv cfg decode limit s \<Longrightarrow> list_all proper_item (ms_consumed (in_mapper s) @ in_queue s @ item_of (in_producer s))"
  by (cases "in_producer s") (auto simp: intake_inv_def)

lemma pending_within_used:
  assumes "intake_inv cfg decode limit s" and "in_producer s = Enqueueing item"
  shows "0 \<le> ev_Bytes item" and "ev_Bytes item \<le> bb_used (in_budget s)"
proof -
  have p: "proper_item item" "list_all proper_item (in_queue s)" using assms by (auto simp: intake_inv_def)
  then show "0 \<le> ev_Bytes item" by (simp add: proper_item_def)
  show "ev_Bytes item \<le> bb_used (in_budget s)"
    using assms forward_bytes_single [OF p(1)] forward_bytes_nonneg [OF p(2)] by (simp add: intake_inv_def entered_def)
qed

lemma taken_within_consumed:
  assumes "mapper_reachable cfg decode m" and "om_Window cfg \<le> max_int64" and "\<not> closing (ms_pc m)"
    and "list_all proper_item (ms_consumed m)"
  shows "sum_list (ms_released m) \<le> sum_list (forward_bytes (ms_consumed m))"
proof -
  let ?n = "assigned (ms_consumed m) (ms_locals m)"
  have "ms_released m = forward_bytes (take ?n (ms_consumed m))"
    using flying_parts(2) [OF mapper_reachable_inv(1) [OF assms(1,2)] assms(3)] by (simp add: counted_def)
  moreover have "0 \<le> sum_list (forward_bytes (drop ?n (ms_consumed m)))"
    using assms(4) by (intro forward_bytes_nonneg) (auto simp: list_all_iff dest: in_set_dropD)
  ultimately show ?thesis using forward_bytes_take [of "ms_consumed m" ?n] by simp
qed

lemma intake_took_job:
  assumes "intake_inv cfg decode limit s" and "om_Window cfg \<le> max_int64" and "ms_pc (in_mapper s) = Offering job"
    and "releaseInput (dj_bytes job) s = (answer, u)" and "mapper_move cfg decode (TakeJob answer) (in_mapper s) = Some m"
  shows "intake_inv cfg decode limit (u\<lparr>in_mapper := m\<rparr>)"
proof -
  have r: "mapper_reachable cfg decode (in_mapper s)" using assms(1) by (simp add: intake_inv_def)
  from releaseInput_ok [OF offered_held [OF assms(1-3)]] assms(4) have u: "answer = None"
      "bb_used (in_budget u) = bb_used (in_budget s) - dj_bytes job" "bb_limit (in_budget u) = bb_limit (in_budget s)"
      "in_queue u = in_queue s" "in_producer u = in_producer s"
    by auto
  note f = take_job_frame [OF assms(5) [unfolded u(1)] assms(3)]
  have r': "mapper_reachable cfg decode m" by (rule mapper_continue [OF r assms(5)])
  have "\<not> closing (ms_pc m)" using assms(3,5) by (auto simp: u(1) Let_def split: if_splits)
  moreover have "list_all proper_item (ms_consumed m)" using assms(1) by (simp add: intake_inv_def f(1))
  ultimately have "sum_list (ms_released m) \<le> sum_list (forward_bytes (ms_consumed m))"
    using taken_within_consumed [OF r' assms(2)] by blast
  then show ?thesis
    using assms(1) offered_held(1) [OF assms(1-3)] r' u f by (simp add: intake_inv_def entered_def)
qed

lemma item_sent_fields:
  "in_budget (item_sent now item s) = in_budget s" "in_queue (item_sent now item s) = in_queue s @ [item]"
  "in_producer (item_sent now item s) = Pulling" "in_mapper (item_sent now item s) = in_mapper s"
  by (simp_all add: item_sent_def observe_queue_def Let_def split: option.splits)

lemma mapper_stays_reachable:
  "intake_inv cfg decode limit s \<Longrightarrow> mapper_move cfg decode mv (in_mapper s) = Some m \<Longrightarrow> mapper_reachable cfg decode m"
  unfolding intake_inv_def by (blast intro: mapper_continue)

lemma intake_step_inv:
  assumes "intake_step cfg decode capacity s t" and "om_Window cfg \<le> max_int64" and "intake_inv cfg decode limit s"
  shows "intake_inv cfg decode limit t"
  using assms
proof (induction rule: intake_step.induct)
  case next_answered
  then show ?case by (simp add: intake_inv_def entered_def after_next_item)
next
  case (acquire_at_once s item c)
  then have "ev_Bytes item = 0" by (auto simp: acquire_checks_def split: if_splits)
  with acquire_at_once show ?case using forward_bytes_single [of item] by (simp add: intake_inv_def entered_def)
next
  case (acquire_refused s item c e pc ac)
  then show ?case by (simp add: intake_inv_def entered_def refused_item)
next
  case (acquire_granted s item c d1 d2 b)
  then show ?case
    using forward_bytes_single [of item] by (simp add: intake_inv_def entered_def acquire_turn_Acquired)
next
  case (acquire_gave_up s item c d1 d2 e b pc ac)
  have pos: "0 < ev_Bytes item" using acquire_gave_up.hyps(2) by (simp add: acquire_checks_True)
  have "0 \<le> bb_used (in_budget s)"
    using acquire_gave_up.prems(2) forward_bytes_nonneg [of "in_queue s"] acquire_gave_up.hyps(1)
    by (simp add: intake_inv_def entered_def)
  then have "bb_used b = bb_used (in_budget s) \<and> bb_limit b = bb_limit (in_budget s)"
    using acquire_turn_Failed [OF acquire_gave_up.hyps(3) pos] by auto
  with acquire_gave_up show ?case by (simp add: intake_inv_def entered_def refused_item)
next
  case (enqueued s item now)
  then show ?case by (simp add: intake_inv_def entered_def item_sent_fields)
next
  case (attempt_done s item pc cause)
  note p = pending_within_used [OF attempt_done.prems(2) attempt_done.hyps]
  have "proper_item item" using attempt_done by (simp add: intake_inv_def)
  with attempt_done show ?case
    using give_back_used [OF p] forward_bytes_single [of item] p by (simp add: intake_inv_def entered_def refused_item)
next
  case (process_done s item cause)
  note p = pending_within_used [OF process_done.prems(2) process_done.hyps]
  have "proper_item item" using process_done by (simp add: intake_inv_def)
  with process_done show ?case
    using give_back_used [OF p] forward_bytes_single [of item] p by (simp add: intake_inv_def entered_def refused_item)
next
  case (input_closed s retryable e)
  then show ?case by (simp add: intake_inv_def entered_def)
next
  case (mapper_received s item items m)
  note f = receive_frame [OF mapper_received.hyps(2)]
  have "mapper_reachable cfg decode m"
    by (rule mapper_stays_reachable [OF mapper_received.prems(2) mapper_received.hyps(2)])
  moreover have "proper_item item" using mapper_received by (simp add: intake_inv_def)
  ultimately show ?case
    using mapper_received f forward_bytes_single [of item]
    by (simp add: intake_inv_def entered_def proper_item_def)
next
  case (mapper_saw_close s m)
  note f = receive_frame [OF mapper_saw_close.hyps(3)]
  have "mapper_reachable cfg decode m"
    by (rule mapper_stays_reachable [OF mapper_saw_close.prems(2) mapper_saw_close.hyps(3)])
  then show ?case using mapper_saw_close f by (simp add: intake_inv_def entered_def)
next
  case (mapper_took_job s job answer u m)
  then show ?case by (intro intake_took_job)
next
  case (mapper_moved mv s m)
  note f = other_move_frame [OF mapper_moved.hyps]
  have "mapper_reachable cfg decode m"
    by (rule mapper_stays_reachable [OF mapper_moved.prems(2) mapper_moved.hyps(2)])
  then show ?case using mapper_moved f by (auto simp: intake_inv_def entered_def)
qed

lemma intake_reachable_inv:
  fixes s :: "('o, 'e, 'd) intake"
  assumes "intake_reachable cfg decode capacity limit s" and "om_Window cfg \<le> max_int64"
  shows "intake_inv cfg decode limit s"
  using assms
proof (induction rule: intake_reachable.induct)
  case (intake_begin b m)
  then have "mapper_reachable cfg decode (mapper_start cfg :: (agreed_event, 'o, agreed_event, 'd, budget_error) mapper_sys)"
    by (intro mapper_begin)
  with intake_begin show ?case
    by (auto simp: intake_inv_def entered_def NewByteBudget_def mapper_start_def split: if_splits)
next
  case (intake_continue s t)
  then show ?case using intake_step_inv by blast
qed

lemma intake_moves:
  assumes "intake_reachable cfg decode capacity limit s" and "\<forall>mv \<in> set mvs. \<not> uses_channel mv"
    and "mapper_run cfg decode mvs (in_mapper s) = Some m"
  shows "intake_reachable cfg decode capacity limit (s\<lparr>in_mapper := m\<rparr>)"
  using assms
proof (induction mvs arbitrary: s)
  case Nil
  then have "s\<lparr>in_mapper := m\<rparr> = s" by simp
  with Nil.prems(1) show ?case by simp
next
  case (Cons mv mvs)
  then obtain u where u: "mapper_move cfg decode mv (in_mapper s) = Some u" "mapper_run cfg decode mvs u = Some m"
    by (auto split: option.splits)
  have "intake_reachable cfg decode capacity limit (s\<lparr>in_mapper := u\<rparr>)"
    using Cons.prems(1,2) u(1) by (intro intake_continue [OF Cons.prems(1)] mapper_moved) auto
  from Cons.IH [OF this] Cons.prems(2) u(2) show ?case by simp
qed

section \<open>A concrete intake\<close>

definition intake_event :: agreed_event where
  "intake_event = \<lparr>ae_Kind = EventForward, ae_Point = origin_point, ae_BlockType = 7, ae_ContentHash = zero32,
     ae_RawLength = 2, ae_RawCBOR = [1, 2], ae_Relays = [], ae_ObservedAt = 0\<rparr>"

definition intake_item :: agreed_item where
  "intake_item = \<lparr>ev_Forward = Some intake_event, ev_Rollback = None, ev_Bytes = 2\<rparr>"

definition intake_decode :: "bool \<Rightarrow> agreed_event \<Rightarrow> unit + unit" where
  "intake_decode c e = Inr ()"

definition intake_start :: "(unit, unit, unit) intake" where
  "intake_start = \<lparr>in_budget = \<lparr>bb_limit = 10, bb_used = 0, bb_changed = 0\<rparr>, in_queue = [], in_closed = False,
     in_producer = Pulling, in_mapper = mapper_start sample_mapper, in_metrics = None\<rparr>"

definition intake_queued :: "(unit, unit, unit) intake" where
  "intake_queued = intake_start\<lparr>in_budget := \<lparr>bb_limit = 10, bb_used = 2, bb_changed = 0\<rparr>, in_queue := [intake_item]\<rparr>"

lemma intake_start_reachable: "intake_reachable sample_mapper intake_decode 4 10 intake_start"
  unfolding intake_start_def
  by (rule intake_begin) (simp_all add: NewByteBudget_def mapper_checks_def sample_mapper_def)

lemma intake_queued_reachable: "intake_reachable sample_mapper intake_decode 4 10 intake_queued"
proof -
  let ?s1 = "intake_start\<lparr>in_producer := Acquiring intake_item\<rparr>"
  let ?s2 = "intake_start\<lparr>in_budget := \<lparr>bb_limit = 10, bb_used = 2, bb_changed = 0\<rparr>, in_producer := Enqueueing intake_item\<rparr>"
  have next_ok: "after_next None None (NextEvent intake_event) = (Acquiring intake_item :: unit producer)"
    by (simp add: after_next_def intake_event_def intake_item_def EventForward_def max_int64_def int64_of_uint64_small Let_def)
  have "intake_step sample_mapper intake_decode 4 intake_start ?s1"
    using next_answered [where s = intake_start and pc = None and ac = None and answer = "NextEvent intake_event"] next_ok
    by (simp add: intake_start_def observeAgreement_def)
  note 1 = intake_continue [OF intake_start_reachable this]
  have "intake_step sample_mapper intake_decode 4 ?s1 ?s2"
    using acquire_granted [of ?s1 intake_item False False False "\<lparr>bb_limit = 10, bb_used = 2, bb_changed = 0\<rparr>" sample_mapper intake_decode 4]
    by (simp add: intake_start_def intake_item_def acquire_checks_True acquire_turn_Acquired)
  note 2 = intake_continue [OF 1 this]
  have "intake_step sample_mapper intake_decode 4 ?s2 intake_queued"
    using enqueued [of ?s2 intake_item 4 sample_mapper intake_decode 0]
    by (simp add: intake_start_def intake_queued_def item_sent_def observe_queue_def observeAgreed_def observeAgreedQueue_def
        intake_item_def Let_def)
  from intake_continue [OF 2 this] show ?thesis .
qed

definition cancel_moves :: "(agreed_event, agreed_event, unit, budget_error, unit) mapper_choice list" where
  "cancel_moves = [Advance, Advance, CancelContext, SeeCancelled, WorkerStop Idle, WorkerStop Idle, Advance]"

lemma cancel_run:
  "\<exists>m. mapper_run sample_mapper intake_decode cancel_moves (mapper_start sample_mapper) = Some m \<and>
     ms_pc m = Returned (Some MapperCancelled) \<and> ms_consumed m = []"
  by (simp add: cancel_moves_def mapper_eval)

section \<open>Properties\<close>

text \<open>
  C24. The agreed queue is bounded in bytes: in every interleaving of the producer, the budget, the
  channel and the mapper, the events in the channel hold no more bytes than are charged, no more are
  charged than the limit, and the mapper never fails to release the bytes of a job it handed out.
\<close>

theorem agreed_queue_within_budget:
  assumes "intake_reachable cfg decode capacity limit s" and "om_Window cfg \<le> max_int64"
  shows "sum_list (forward_bytes (in_queue s)) \<le> bb_used (in_budget s) \<and> bb_used (in_budget s) \<le> limit \<and>
    \<not> release_failed (ms_pc (in_mapper s))"
proof -
  have inv: "intake_inv cfg decode limit s" by (rule intake_reachable_inv [OF assms])
  have "0 \<le> sum_list (forward_bytes (item_of (in_producer s)))"
    using proper_entered [OF inv] by (intro forward_bytes_nonneg) simp
  with inv show ?thesis by (simp add: intake_inv_def entered_def)
qed

theorem agreed_queue_within_budget_witness:
  "sum_list (forward_bytes [intake_item]) \<le> 2 \<and> (2 :: int) \<le> 10"
  using agreed_queue_within_budget [OF intake_queued_reachable sample_window] by (simp add: intake_queued_def)

text \<open>
  What the producer sends is acceptable: behind the producer the mapper stops with an error only
  because a block failed to decode, its context was cancelled, or a single block exceeds the mapper's
  byte bound; it never sees a malformed event, a rollback that retains bytes or a negative size.
\<close>

theorem producer_sends_proper_events:
  assumes "intake_reachable cfg decode capacity limit s" and "om_Window cfg \<le> max_int64"
    and "ms_pc (in_mapper s) = Returned (Some e)"
  shows "(\<exists>q d. e = DecodeFailed q d) \<or> e = MapperCancelled \<and> ms_ctxDone (in_mapper s) \<or>
    (\<exists>b. e = EventTooLarge b (om_MaxBytes cfg) \<and> om_MaxBytes cfg < b)"
proof -
  have inv: "intake_inv cfg decode limit s" by (rule intake_reachable_inv [OF assms(1,2)])
  then have "mapper_reachable cfg decode (in_mapper s)" and nr: "\<not> release_failed (ms_pc (in_mapper s))"
    by (simp_all add: intake_inv_def)
  from mapper_reachable_inv(1) [OF this(1) assms(2)] assms(3)
  have "error_justified cfg decode (ms_consumed (in_mapper s)) (ms_ctxDone (in_mapper s)) e" by (simp add: mapper_inv_def)
  moreover have "\<forall>ev \<in> set (ms_consumed (in_mapper s)). (ev_Forward ev = None) \<noteq> (ev_Rollback ev = None) \<and>
      (ev_Rollback ev \<noteq> None \<longrightarrow> ev_Bytes ev = 0) \<and> \<not> ev_Bytes ev < 0"
    using inv by (simp add: intake_inv_def list_all_iff proper_item_def well_formed_def not_less)
  ultimately show ?thesis
    using nr assms(3) by (cases e) auto
qed

theorem producer_sends_proper_events_witness:
  "\<exists>m. mapper_run sample_mapper intake_decode cancel_moves (mapper_start sample_mapper) = Some m \<and> ms_ctxDone m"
proof -
  obtain m where m: "mapper_run sample_mapper intake_decode cancel_moves (mapper_start sample_mapper) = Some m"
      "ms_pc m = Returned (Some MapperCancelled)" "ms_consumed m = []"
    using cancel_run by blast
  have "intake_reachable sample_mapper intake_decode 4 10 (intake_start\<lparr>in_mapper := m\<rparr>)"
    proof (rule intake_moves [OF intake_start_reachable, of cancel_moves])
    show "\<forall>mv \<in> set cancel_moves. \<not> uses_channel mv" by (simp add: cancel_moves_def)
    show "mapper_run sample_mapper intake_decode cancel_moves (in_mapper intake_start) = Some m"
      using m(1) by (simp only: intake_start_def intake.simps)
  qed
  from producer_sends_proper_events [OF this sample_window, of MapperCancelled] m show ?thesis by auto
qed

end
