(* ===== verification/Allocator.thy ===== *)
theory Allocator
  imports Prelude
begin

text \<open>
  \<^verbatim>\<open>internal/store/allocator.go\<close>: process-local allocation of publication and event
  identifiers above the raw high-water marks found in the database. Identifiers are 64-bit words
  and \<open>0\<close> marks an exhausted space.
\<close>

section \<open>The operations\<close>

datatype id_kind = PublicationId | EventId

datatype allocator_error =
    IdentitySpaceExhausted id_kind
  | NilAllocator
  | ReserveZero id_kind

record allocator =
  al_nextPublication :: u64
  al_nextEvent :: u64

definition newAllocator :: "u64 \<Rightarrow> u64 \<Rightarrow> allocator_error + allocator" where
  "newAllocator publicationHighWater eventHighWater =
     (if publicationHighWater = max_uint64 then Inl (IdentitySpaceExhausted PublicationId)
      else if eventHighWater = max_uint64 then Inl (IdentitySpaceExhausted EventId)
      else Inr \<lparr>al_nextPublication = publicationHighWater + 1, al_nextEvent = eventHighWater + 1\<rparr>)"

definition reserveRange :: "u64 \<Rightarrow> u64 \<Rightarrow> id_kind \<Rightarrow> allocator_error + u64 \<times> u64" where
  "reserveRange next count kind =
     (if next = 0 \<or> count - 1 > max_uint64 - next then Inl (IdentitySpaceExhausted kind)
      else Inr (next, if count - 1 = max_uint64 - next then 0 else next + count))"

definition reservePublications :: "allocator \<Rightarrow> u64 \<Rightarrow> allocator_error + u64 \<times> allocator" where
  "reservePublications a count =
     (if count = 0 then Inl (ReserveZero PublicationId)
      else bindE (reserveRange (al_nextPublication a) count PublicationId)
        (\<lambda>(first, next). Inr (first, a\<lparr>al_nextPublication := next\<rparr>)))"

definition reserveEvents :: "allocator \<Rightarrow> u64 \<Rightarrow> allocator_error + u64 \<times> allocator" where
  "reserveEvents a count =
     (if count = 0 then Inl (ReserveZero EventId)
      else bindE (reserveRange (al_nextEvent a) count EventId)
        (\<lambda>(first, next). Inr (first, a\<lparr>al_nextEvent := next\<rparr>)))"

section \<open>The bound below which identifiers are taken\<close>

text \<open>\<open>id_bound next\<close> is the first free identifier as a natural number, \<open>2 ^ 64\<close> when none is left.\<close>

definition id_bound :: "u64 \<Rightarrow> nat" where
  "id_bound next = (if next = 0 then 2 ^ 64 else unat next)"

lemma id_bound_le: "id_bound next \<le> 2 ^ 64"
  using unat_u64_less [of "next"] by (simp add: id_bound_def)

lemma unat_pred: "count \<noteq> 0 \<Longrightarrow> unat (count - 1 :: u64) = unat count - 1"
  by (simp add: unat_minus_one)

lemma unat_max_minus: "unat (max_uint64 - next) = 2 ^ 64 - 1 - unat (next :: u64)"
proof -
  have "next \<le> max_uint64" by (rule word_n1_ge)
  then show ?thesis by (simp add: unat_sub)
qed

lemma reserveRange_Inr:
  assumes "count \<noteq> 0"
  shows "reserveRange next count kind = Inr (first, next') \<longleftrightarrow>
    next \<noteq> 0 \<and> unat next + unat count \<le> 2 ^ 64 \<and> first = next \<and>
    next' = (if unat next + unat count = 2 ^ 64 then 0 else next + count)"
proof -
  have c: "0 < unat count" using assms by (simp add: unat_gt_0)
  have lt: "count - 1 > max_uint64 - next \<longleftrightarrow> unat next + unat count > 2 ^ 64"
    using c unat_u64_less [of "next"]
    by (simp add: word_less_nat_alt unat_pred [OF assms] unat_max_minus) linarith
  have eq: "count - 1 = max_uint64 - next \<longleftrightarrow> unat next + unat count = 2 ^ 64"
    using c unat_u64_less [of "next"]
    by (simp add: word_unat_eq_iff unat_pred [OF assms] unat_max_minus) linarith
  show ?thesis
    unfolding reserveRange_def lt eq by auto
qed

lemma reserveRange_bound:
  assumes "count \<noteq> 0" and "reserveRange next count kind = Inr (first, next')"
  shows "unat first = id_bound next" and "0 < unat first"
    and "id_bound next' = id_bound next + unat count"
proof -
  from assms have f: "next \<noteq> 0" "unat next + unat count \<le> 2 ^ 64" "first = next"
    and n: "next' = (if unat next + unat count = 2 ^ 64 then 0 else next + count)"
    by (simp_all add: reserveRange_Inr)
  show "unat first = id_bound next" and "0 < unat first"
    using f by (simp_all add: id_bound_def unat_gt_0)
  show "id_bound next' = id_bound next + unat count"
  proof (cases "unat next + unat count = 2 ^ 64")
    case False
    with f have "unat next + unat count < 2 ^ 64" by simp
    then have u: "unat (next + count) = unat next + unat count"
      by (simp add: unat_add_lem [THEN iffD1])
    moreover have "next + count \<noteq> 0"
      using f u by (metis add_is_0 unat_0 unat_eq_zero)
    ultimately show ?thesis using False f n by (simp add: id_bound_def)
  qed (use f n in \<open>simp add: id_bound_def\<close>)
qed

section \<open>The contract of an identifier space\<close>

text \<open>
  What the store relies on: a successful reservation returns the first free identifier and moves
  the bound past the whole range, without wrap-around.
\<close>

locale id_space =
  fixes reserve :: "'a \<Rightarrow> u64 \<Rightarrow> 'e + u64 \<times> 'a"
    and bound :: "'a \<Rightarrow> nat"
  assumes reserve_first: "reserve a count = Inr (first, a') \<Longrightarrow> unat first = bound a"
    and reserve_pos: "reserve a count = Inr (first, a') \<Longrightarrow> 0 < unat first \<and> 0 < unat count"
    and reserve_next: "reserve a count = Inr (first, a') \<Longrightarrow> bound a' = bound a + unat count"
    and bound_le: "bound a \<le> 2 ^ 64"
begin

lemma reserved_id:
  assumes "reserve a count = Inr (first, a')" and "i < unat count"
  shows "unat (first + of_nat i) = bound a + i" and "bound a + i < bound a'"
proof -
  have le: "unat first + i < 2 ^ 64"
    using assms reserve_first [OF assms(1)] reserve_next [OF assms(1)] bound_le [of a'] by simp
  show "unat (first + of_nat i) = bound a + i"
    using unat_add_no_wrap [OF le] reserve_first [OF assms(1)] by simp
  show "bound a + i < bound a'"
    using assms(2) reserve_next [OF assms(1)] by simp
qed

text \<open>A run of reservations, in which failed ones hand out nothing.\<close>

fun reserve_run :: "'a \<Rightarrow> u64 list \<Rightarrow> u64 list" where
  "reserve_run a [] = []"
| "reserve_run a (count # counts) =
     (case reserve a count of
        Inl e \<Rightarrow> reserve_run a counts
      | Inr (first, a') \<Rightarrow> map (\<lambda>i. first + of_nat i) [0..<unat count] @ reserve_run a' counts)"

lemma reserve_run_bounds: "x \<in> set (reserve_run a counts) \<Longrightarrow> bound a \<le> unat x"
proof (induction counts arbitrary: a)
  case (Cons count counts)
  show ?case
  proof (cases "reserve a count")
    case (Inr r)
    then obtain first a' where r: "reserve a count = Inr (first, a')" by (cases r) simp
    with Cons show ?thesis
      using reserved_id(1) [OF r] reserve_next [OF r] by fastforce
  qed (use Cons in simp)
qed simp

lemma reserve_run_distinct: "distinct (reserve_run a counts)"
proof (induction counts arbitrary: a)
  case (Cons count counts)
  show ?case
  proof (cases "reserve a count")
    case (Inr r)
    then obtain first a' where r: "reserve a count = Inr (first, a')" by (cases r) simp
    have inj: "inj_on (\<lambda>i. first + of_nat i) {0..<unat count}"
    proof (rule inj_onI)
      fix i j
      assume ij: "i \<in> {0..<unat count}" "j \<in> {0..<unat count}" "first + of_nat i = first + of_nat j"
      from ij(3) have "unat (first + of_nat i) = unat (first + of_nat j)"
        by (rule arg_cong)
      then have "bound a + i = bound a + j"
        using ij(1,2) reserved_id(1) [OF r, of i] reserved_id(1) [OF r, of j] by (simp only: atLeastLessThan_iff)
      then show "i = j" by simp
    qed
    have "first + of_nat i \<notin> set (reserve_run a' counts)" if "i < unat count" for i
    proof
      assume "first + of_nat i \<in> set (reserve_run a' counts)"
      then have "bound a' \<le> unat (first + of_nat i)" by (rule reserve_run_bounds)
      with reserved_id [OF r that] show False by linarith
    qed
    then have "set (map (\<lambda>i. first + of_nat i) [0..<unat count]) \<inter> set (reserve_run a' counts) = {}"
      by auto
    with Cons.IH inj r show ?thesis by (simp add: distinct_map)
  qed (use Cons in simp)
qed simp

end

definition publication_bound :: "allocator \<Rightarrow> nat" where
  "publication_bound a = id_bound (al_nextPublication a)"

definition event_bound :: "allocator \<Rightarrow> nat" where
  "event_bound a = id_bound (al_nextEvent a)"

interpretation pub: id_space reservePublications publication_bound
proof
  fix a a' and count first :: u64
  assume r: "reservePublications a count = Inr (first, a')"
  then have c: "count \<noteq> 0" by (auto simp: reservePublications_def)
  from r obtain n where n: "reserveRange (al_nextPublication a) count PublicationId = Inr (first, n)"
    and a': "a' = a\<lparr>al_nextPublication := n\<rparr>"
    by (auto simp: reservePublications_def err_simps split: if_splits)
  show "unat first = publication_bound a" and "0 < unat first \<and> 0 < unat count"
    and "publication_bound a' = publication_bound a + unat count"
    using reserveRange_bound [OF c n] a' c by (simp_all add: publication_bound_def unat_gt_0)
qed (unfold publication_bound_def, rule id_bound_le)

interpretation ev: id_space reserveEvents event_bound
proof
  fix a a' and count first :: u64
  assume r: "reserveEvents a count = Inr (first, a')"
  then have c: "count \<noteq> 0" by (auto simp: reserveEvents_def)
  from r obtain n where n: "reserveRange (al_nextEvent a) count EventId = Inr (first, n)"
    and a': "a' = a\<lparr>al_nextEvent := n\<rparr>"
    by (auto simp: reserveEvents_def err_simps split: if_splits)
  show "unat first = event_bound a" and "0 < unat first \<and> 0 < unat count"
    and "event_bound a' = event_bound a + unat count"
    using reserveRange_bound [OF c n] a' c by (simp_all add: event_bound_def unat_gt_0)
qed (unfold event_bound_def, rule id_bound_le)

lemma reservePublications_frame:
  "reservePublications a count = Inr (first, a') \<Longrightarrow> event_bound a' = event_bound a"
  by (auto simp: reservePublications_def event_bound_def err_simps split: if_splits)

lemma reserveEvents_frame:
  "reserveEvents a count = Inr (first, a') \<Longrightarrow> publication_bound a' = publication_bound a"
  by (auto simp: reserveEvents_def publication_bound_def err_simps split: if_splits)

lemma newAllocator_bounds:
  assumes "newAllocator p e = Inr a"
  shows "publication_bound a = Suc (unat p)" and "event_bound a = Suc (unat e)"
proof -
  from assms have p: "p \<noteq> max_uint64" and e: "e \<noteq> max_uint64"
    and a: "a = \<lparr>al_nextPublication = p + 1, al_nextEvent = e + 1\<rparr>"
    by (auto simp: newAllocator_def split: if_splits)
  have suc: "id_bound (w + 1) = Suc (unat w)" if w: "w \<noteq> max_uint64" for w :: u64
  proof -
    have "unat w \<noteq> 2 ^ 64 - 1"
      using w unat_max_uint64 by (metis word_unat_eq_iff)
    then have "unat w + 1 < 2 ^ 64" using unat_u64_less [of w] by simp
    then have "unat (w + 1) = unat w + 1"
      using unat_add_no_wrap [of w 1] by simp
    then show ?thesis by (auto simp: id_bound_def)
  qed
  show "publication_bound a = Suc (unat p)" and "event_bound a = Suc (unat e)"
    using a suc [OF p] suc [OF e] by (simp_all add: publication_bound_def event_bound_def)
qed

section \<open>Property\<close>

text \<open>
  Identifiers are handed out once: from a fresh allocator, any sequence of reservations of any
  sizes, the failed ones included, returns publication identifiers that are pairwise distinct, above
  the high-water mark and without wrap-around, and the same holds of event sequences.
\<close>

theorem allocator_never_repeats:
  assumes "newAllocator publicationHighWater eventHighWater = Inr a"
  shows "distinct (pub.reserve_run a counts) \<and> distinct (ev.reserve_run a counts) \<and>
    (\<forall>p \<in> set (pub.reserve_run a counts). publicationHighWater < p) \<and>
    (\<forall>e \<in> set (ev.reserve_run a counts). eventHighWater < e)"
proof -
  note b = newAllocator_bounds [OF assms]
  have "publicationHighWater < p" if "p \<in> set (pub.reserve_run a counts)" for p
    using pub.reserve_run_bounds [OF that] b(1) by (simp add: word_less_nat_alt)
  moreover have "eventHighWater < e" if "e \<in> set (ev.reserve_run a counts)" for e
    using ev.reserve_run_bounds [OF that] b(2) by (simp add: word_less_nat_alt)
  ultimately show ?thesis
    using pub.reserve_run_distinct [of a counts] ev.reserve_run_distinct [of a counts] by blast
qed

theorem allocator_never_repeats_witness:
  "distinct (pub.reserve_run \<lparr>al_nextPublication = 6, al_nextEvent = - 1\<rparr> [2, 3]) \<and>
   distinct (ev.reserve_run \<lparr>al_nextPublication = 6, al_nextEvent = - 1\<rparr> [2, 3]) \<and>
   set (pub.reserve_run \<lparr>al_nextPublication = 6, al_nextEvent = - 1\<rparr> [2, 3]) \<subseteq> {5 <..} \<and>
   set (ev.reserve_run \<lparr>al_nextPublication = 6, al_nextEvent = - 1\<rparr> [2, 3]) \<subseteq> {- 2 <..}"
proof -
  have "newAllocator 5 (- 2) = Inr \<lparr>al_nextPublication = 6, al_nextEvent = - 1\<rparr>"
    by (simp add: newAllocator_def)
  from allocator_never_repeats [OF this, of "[2, 3]"] show ?thesis by blast
qed

end
