(* ===== verification/Store_Types.thy ===== *)
theory Store_Types
  imports Facts Allocator
begin

text \<open>
  \<^verbatim>\<open>internal/store/types.go\<close> and \<^verbatim>\<open>encoding.go\<close>: the values the store exchanges
  with its callers and the conversions between points and nullable columns. \<open>store_error\<close> is the
  class of a returned error: the four sentinels of the package, which callers test with
  \<^verbatim>\<open>errors.Is\<close>, and one constructor per other kind of failure.
\<close>

section \<open>types.go\<close>

datatype store_error =
    ErrNotCommitted
  | ErrCommitConflict
  | ErrCommitIndeterminate
  | ErrInvalidRollback
  | ErrMissingLock
  | ErrLockNotHeld
  | ErrLockLost
  | ErrNotInitialized
  | ErrAllocator allocator_error
  | ErrEmptyBatch
  | ErrInvalidCandidate
  | ErrInsert
  | ErrQuery
  | ErrEncoding
  | ErrZeroDepth
  | ErrUnknownRole
  | ErrDatasetConfig
  | ErrDatasetConflict
  | ErrSchemaMismatch

record store_relay =
  sr_Host :: string
  sr_Address :: string
  sr_Operator :: string
  sr_N2NVersion :: u16

record dataset_config =
  dc_NetworkMagic :: u32
  dc_NetworkName :: string
  dc_Start :: point
  dc_SourceBuild :: string

record dataset_identity =
  di_DatasetID :: uuid
  di_SchemaHash :: hash32
  di_NetworkMagic :: u32
  di_NetworkName :: string
  di_Start :: point
  di_CreatedAt :: time
  di_SourceBuild :: string

record candidate =
  ca_Block :: block
  ca_ContentHash :: hash32
  ca_Relays :: "store_relay list"
  ca_RawLength :: u64

record canonical_block =
  cb_PublicationID :: u64
  cb_EventSeq :: u64
  cb_Point :: point

record store_state =
  st_Dataset :: dataset_identity
  st_Snapshot :: u64
  st_Tip :: point
  st_Canonical :: "canonical_block list"
  st_Intersections :: "point list"

record commit =
  cm_FirstPublicationID :: u64
  cm_LastPublicationID :: u64
  cm_FirstEventSeq :: u64
  cm_LastEventSeq :: u64
  cm_Blocks :: "canonical_block list"
  cm_Committed :: bool
  cm_ResolvedUncertain :: bool

record rollback_request =
  rq_To :: point
  rq_Relays :: "store_relay list"
  rq_Reason :: string
  rq_MaximumDepth :: u32

record rollback_commit =
  rc_RollbackID :: uuid
  rc_EventSeq :: u64
  rc_To :: point
  rc_OldTip :: point
  rc_OldTipEventSeq :: u64
  rc_Descendants :: "canonical_block list"
  rc_Committed :: bool
  rc_Noop :: bool
  rc_ResolvedUncertain :: bool

record fact_counts =
  fc_transactions :: u64
  fc_inputs :: u64
  fc_outputs :: u64
  fc_datumObservations :: u64
  fc_withdrawals :: u64
  fc_redeemers :: u64
  fc_metadata :: u64

record publication =
  pb_PublicationID :: u64
  pb_EventSeq :: u64
  pb_Block :: block
  pb_Counts :: fact_counts
  pb_ContentHash :: hash32
  pb_Relays :: "store_relay list"
  pb_WriterID :: uuid
  pb_InsertedAt :: time

record rollback_record =
  rr_RollbackID :: uuid
  rr_EventSeq :: u64
  rr_To :: point
  rr_OldTip :: point
  rr_OldTipEventSeq :: u64
  rr_Descendants :: "canonical_block list"
  rr_Relays :: "store_relay list"
  rr_Reason :: string
  rr_WriterID :: uuid
  rr_RecordedAt :: time

section \<open>encoding.go\<close>

definition validPoint :: "point \<Rightarrow> bool" where
  "validPoint p =
     (if pt_Origin p then
        pt_Slot p = 0 \<and> pt_Hash p = zero32 \<and> pt_BlockNumber p = 0 \<and> \<not> pt_IsByronEBB p
      else pt_Hash p \<noteq> zero32)"

definition hash32_of :: "bytes \<Rightarrow> store_error + hash32" where
  "hash32_of value = (if length value \<noteq> 32 then Inl ErrEncoding else Inr (make32 value))"

definition hash28_of :: "bytes \<Rightarrow> store_error + hash28" where
  "hash28_of value = (if length value \<noteq> 28 then Inl ErrEncoding else Inr (make28 value))"

definition scanPoint :: "bool \<Rightarrow> u64 option \<Rightarrow> bytes \<Rightarrow> u64 option \<Rightarrow> bool \<Rightarrow> store_error + point" where
  "scanPoint origin slot hashBytes blockNumber isByronEBB =
     (if origin then
        (if slot \<noteq> None \<or> length hashBytes \<noteq> 0 \<or> blockNumber \<noteq> None \<or> isByronEBB
         then Inl ErrEncoding else Inr origin_point)
      else case (slot, blockNumber) of
          (Some s, Some n) \<Rightarrow> bindE (hash32_of hashBytes) (\<lambda>hash.
            let p = \<lparr>pt_Origin = False, pt_Slot = s, pt_Hash = hash, pt_BlockNumber = n,
                     pt_IsByronEBB = isByronEBB\<rparr>
            in if \<not> validPoint p then Inl ErrEncoding else Inr p)
        | _ \<Rightarrow> Inl ErrEncoding)"

text \<open>\<^verbatim>\<open>nullablePoint\<close> of \<^verbatim>\<open>rollback.go\<close>: the three nullable columns of a point.\<close>

definition nullablePoint :: "point \<Rightarrow> u64 option \<times> bytes option \<times> u64 option" where
  "nullablePoint p =
     (if pt_Origin p then (None, None, None)
      else (Some (pt_Slot p), Some (bytes32 (pt_Hash p)), Some (pt_BlockNumber p)))"

text \<open>Scanning a NULL byte column leaves the Go slice nil, which has length zero.\<close>

definition scan_bytes :: "bytes option \<Rightarrow> bytes" where
  "scan_bytes b = (case b of None \<Rightarrow> [] | Some bs \<Rightarrow> bs)"

lemma hash32_of_bytes32 [simp]: "hash32_of (bytes32 h) = Inr h"
  by (simp add: hash32_of_def)

lemma validPoint_origin: "validPoint p \<Longrightarrow> pt_Origin p \<Longrightarrow> p = origin_point"
  by (cases p) (simp add: validPoint_def origin_point_def)

lemma scanPoint_nullable:
  assumes "validPoint p" and "nullablePoint p = (s, h, n)"
  shows "scanPoint (pt_Origin p) s (scan_bytes h) n (pt_IsByronEBB p) = Inr p"
proof (cases "pt_Origin p")
  case True
  then have "p = origin_point" using assms(1) by (rule validPoint_origin [rotated])
  with assms(2) show ?thesis
    by (auto simp: nullablePoint_def scanPoint_def scan_bytes_def origin_point_def)
next
  case False
  with assms show ?thesis
    by (cases p) (auto simp: nullablePoint_def scanPoint_def scan_bytes_def Let_def)
qed

lemma nullablePoint_origin_iff:
  assumes "nullablePoint p = (s, h, n)"
  shows "s = None \<longleftrightarrow> pt_Origin p"
  using assms by (auto simp: nullablePoint_def split: if_splits)

text \<open>
  \<^verbatim>\<open>strings.TrimSpace(s) == ""\<close>: the texts compared here are ASCII, whose white space is
  tab, newline, vertical tab, form feed, carriage return and space.
\<close>

definition is_space :: "char \<Rightarrow> bool" where
  "is_space c \<longleftrightarrow> of_char c \<in> {9, 10, 11, 12, 13, 32 :: nat}"

definition blank :: "string \<Rightarrow> bool" where
  "blank s \<longleftrightarrow> list_all is_space s"

end
