(* ===== verification/Config.thy ===== *)
theory Config
  imports Go_Text
begin

text \<open>
  \<^verbatim>\<open>internal/config/config.go\<close>: the settings of the program, read from environment variables
  and validated. The environment is a partial function from names to texts; the answer of
  \<^verbatim>\<open>time.ParseDuration\<close> (which rounds through floating point) and of \<^verbatim>\<open>runtime.GOMAXPROCS\<close>
  are arguments. Errors carry the name of the setting or the reason the messages state. A Go
  \<^verbatim>\<open>int\<close> or \<^verbatim>\<open>int64\<close> is an integer in its range. \<^verbatim>\<open>config.Point\<close> has the fields
  of \<^verbatim>\<open>model.Point\<close> and is the same record here.
\<close>

section \<open>Settings\<close>

record database_config =
  cd_Host :: string
  cd_Port :: u16
  cd_User :: string
  cd_Password :: string
  cd_Name :: string
  cd_OpenConn :: int

record config_relay =
  cr_Host :: string
  cr_Operator :: string

record sync_config =
  cs_Database :: database_config
  cs_NetworkName :: string
  cs_NetworkMagic :: u32
  cs_Relays :: "config_relay list"
  cs_Start :: point
  cs_LockPath :: string
  cs_DialTimeout :: int
  cs_ProtocolTimeout :: int
  cs_ShutdownTimeout :: int
  cs_ReconnectInitial :: int
  cs_ReconnectMaximum :: int
  cs_BlockFetchRangeBlocks :: int
  cs_BlockFetchQueueSize :: int
  cs_RelayQueueSize :: int
  cs_AgreedQueueSize :: int
  cs_AgreedQueueBytes :: int
  cs_NormalizeWorkers :: int
  cs_ReorderSize :: int
  cs_ReorderBytes :: int
  cs_BatchBlocks :: int
  cs_BatchBytes :: int
  cs_BatchRows :: u64
  cs_BatchAge :: int
  cs_RollbackDepth :: u32

datatype config_error =
    InvalidSetting string
  | RelayShape string
  | RelayHostPort string
  | RelayPort string
  | RelayOperator string
  | DuplicateEndpoint string
  | DuplicateOperator string
  | TooFewRelays
  | PointShape
  | PointSlot
  | PointHash
  | PointHashLength nat
  | PointNumber
  | PointZeroHash
  | PointSuffix

definition MainnetMagic :: u32 where
  "MainnetMagic = 764824073"

definition defaultRelays :: string where
  "defaultRelays = ''backbone.cardano.iog.io:3001|iog,'' @
     ''backbone.mainnet.cardanofoundation.org:3001|cardano-foundation''"

definition defaultStart :: string where
  "defaultStart = ''133660799:'' @
     ''e757d57eb8dc9500a61c60a39fadb63d9be6973ba96ae337fd24453d4d15c343:'' @ ''10781330''"

section \<open>Relays\<close>

definition label_char :: "nat \<Rightarrow> char \<Rightarrow> bool" where
  "label_char index c \<longleftrightarrow> (let n = of_char c in n \<in> {97..122} \<or> n \<in> {65..90} \<or> n \<in> {48..57 :: nat} \<or>
     0 < index \<and> (c = CHR ''.'' \<or> c = CHR ''_'' \<or> c = CHR ''-''))"

definition validLabel :: "string \<Rightarrow> bool" where
  "validLabel value \<longleftrightarrow> \<not> (length value < 1 \<or> length value > 64) \<and>
     (\<forall>i < length value. label_char i (value ! i))"

text \<open>One entry of the list: \<open>Inr None\<close> skips a blank entry, otherwise endpoint and operator.\<close>

definition parse_relay :: "string \<Rightarrow> config_error + (string \<times> string) option" where
  "parse_relay entry =
     (let entry = TrimSpace entry in
      if entry = '''' then Inr None
      else case CutAt CHR ''|'' entry of
        None \<Rightarrow> Inl (RelayShape entry)
      | Some (address, operator) \<Rightarrow>
          if CHR ''|'' \<in> set operator then Inl (RelayShape entry)
          else case SplitHostPort (TrimSpace address) of
            None \<Rightarrow> Inl (RelayHostPort entry)
          | Some (host, portText) \<Rightarrow>
              if TrimSpace host = '''' then Inl (RelayHostPort entry)
              else case ParseUint 16 portText of
                None \<Rightarrow> Inl (RelayPort entry)
              | Some port \<Rightarrow>
                  if port = 0 then Inl (RelayPort entry)
                  else let operator = TrimSpace operator in
                    if \<not> validLabel operator then Inl (RelayOperator entry)
                    else Inr (Some (ToLower (JoinHostPort host (FormatUint port)), operator)))"

text \<open>The loop over the entries, with the relays so far, newest first, and the keys seen.\<close>

fun parse_relays :: "string list \<Rightarrow> string list \<Rightarrow> string list \<Rightarrow> config_error + config_relay list" where
  "parse_relays [] endpoints operators = Inr []"
| "parse_relays (entry # entries) endpoints operators =
     bindE (parse_relay entry) (\<lambda>r. case r of
        None \<Rightarrow> parse_relays entries endpoints operators
      | Some (endpoint, operator) \<Rightarrow>
          let operatorKey = ToLower operator in
          if endpoint \<in> set endpoints then Inl (DuplicateEndpoint endpoint)
          else if operatorKey \<in> set operators then Inl (DuplicateOperator operator)
          else bindE (parse_relays entries (endpoint # endpoints) (operatorKey # operators))
            (\<lambda>rs. Inr (\<lparr>cr_Host = endpoint, cr_Operator = operator\<rparr> # rs)))"

definition ParseRelays :: "string \<Rightarrow> config_error + config_relay list" where
  "ParseRelays value =
     bindE (parse_relays (SplitOn CHR '','' value) [] []) (\<lambda>ret.
       if length ret < 2 then Inl TooFewRelays else Inr ret)"

definition formatRelays :: "config_relay list \<Rightarrow> string" where
  "formatRelays relays = JoinWith CHR '','' (map (\<lambda>r. cr_Host r @ ''|'' @ cr_Operator r) relays)"

section \<open>Points\<close>

definition ParsePoint :: "string \<Rightarrow> config_error + point" where
  "ParsePoint value =
     (let value = TrimSpace value in
      if EqualFold value ''origin'' then Inr origin_point
      else let parts = SplitOn CHR '':'' value in
        if length parts \<noteq> 3 \<and> length parts \<noteq> 4 then Inl PointShape
        else case ParseUint 64 (parts ! 0) of None \<Rightarrow> Inl PointSlot | Some slot \<Rightarrow>
          case DecodeHex (parts ! 1) of None \<Rightarrow> Inl PointHash | Some hash \<Rightarrow>
          if length hash \<noteq> 32 then Inl (PointHashLength (length hash))
          else case ParseUint 64 (parts ! 2) of None \<Rightarrow> Inl PointNumber | Some number \<Rightarrow>
          if make32 hash = zero32 then Inl PointZeroHash
          else if length parts = 4 \<and> \<not> EqualFold (parts ! 3) ''ebb'' then Inl PointSuffix
          else Inr \<lparr>pt_Origin = False, pt_Slot = of_nat slot, pt_Hash = make32 hash,
                   pt_BlockNumber = of_nat number, pt_IsByronEBB = (length parts = 4)\<rparr>)"

section \<open>Validation\<close>

definition Validate_database :: "database_config \<Rightarrow> config_error + unit" where
  "Validate_database c =
     (if TrimSpace (cd_Host c) = '''' then Inl (InvalidSetting ''CLICKHOUSE_HOST'')
      else if cd_Port c = 0 then Inl (InvalidSetting ''CLICKHOUSE_NATIVE_PORT'')
      else if TrimSpace (cd_User c) = '''' then Inl (InvalidSetting ''CLICKHOUSE_USER'')
      else if cd_Password c = '''' then Inl (InvalidSetting ''CLICKHOUSE_PASSWORD'')
      else if cd_Name c \<noteq> ''clicksync'' then Inl (InvalidSetting ''CLICKHOUSE_DATABASE'')
      else if cd_OpenConn c < 2 \<or> cd_OpenConn c > 64 then Inl (InvalidSetting ''CLICKHOUSE_OPEN_CONNS'')
      else Inr ())"

text \<open>The cases of the \<^verbatim>\<open>switch\<close> of \<^verbatim>\<open>Sync.Validate\<close>, in order, with the setting each one blames.\<close>

definition sync_checks :: "sync_config \<Rightarrow> (bool \<times> string) list" where
  "sync_checks c =
     [(TrimSpace (cs_NetworkName c) = '''', ''CARDANO_NETWORK_NAME''),
      (cs_NetworkMagic c = 0, ''CARDANO_NETWORK_MAGIC''),
      (length (cs_Relays c) < 2, ''CARDANO_RELAYS''),
      (TrimSpace (cs_LockPath c) = '''', ''CLICKSYNC_LOCK_PATH''),
      (cs_DialTimeout c \<le> 0, ''CLICKSYNC_DIAL_TIMEOUT''),
      (cs_ProtocolTimeout c \<le> 0, ''CLICKSYNC_PROTOCOL_TIMEOUT''),
      (cs_ShutdownTimeout c \<le> 0, ''CLICKSYNC_SHUTDOWN_TIMEOUT''),
      (cs_ReconnectInitial c \<le> 0 \<or> cs_ReconnectMaximum c < cs_ReconnectInitial c, ''reconnect durations''),
      (cs_BlockFetchRangeBlocks c < 1 \<or> cs_BlockFetchRangeBlocks c > 8192, ''CLICKSYNC_BLOCKFETCH_RANGE_BLOCKS''),
      (cs_BlockFetchQueueSize c < 1 \<or> cs_BlockFetchQueueSize c > 512, ''CLICKSYNC_BLOCKFETCH_QUEUE_SIZE''),
      (cs_RelayQueueSize c < 1 \<or> cs_RelayQueueSize c > 4096, ''CLICKSYNC_RELAY_QUEUE_SIZE''),
      (cs_AgreedQueueSize c < 1 \<or> cs_AgreedQueueSize c > 4096, ''CLICKSYNC_AGREED_QUEUE_SIZE''),
      (cs_AgreedQueueBytes c < 2 ^ 20 \<or> cs_AgreedQueueBytes c > 4 * 2 ^ 30, ''CLICKSYNC_AGREED_QUEUE_BYTES''),
      (cs_NormalizeWorkers c < 1 \<or> cs_NormalizeWorkers c > 256, ''CLICKSYNC_NORMALIZE_WORKERS''),
      (cs_ReorderSize c < cs_NormalizeWorkers c \<or> cs_ReorderSize c > 4096, ''CLICKSYNC_REORDER_SIZE''),
      (cs_ReorderBytes c < 2 ^ 20 \<or> cs_ReorderBytes c > 4 * 2 ^ 30, ''CLICKSYNC_REORDER_BYTES''),
      (cs_BatchBlocks c < 1 \<or> cs_BatchBlocks c > 4096, ''CLICKSYNC_BATCH_BLOCKS''),
      (cs_BatchBytes c < 2 ^ 20 \<or> cs_BatchBytes c > 4 * 2 ^ 30, ''CLICKSYNC_BATCH_BYTES''),
      (cs_BatchRows c < 1 \<or> cs_BatchRows c > 10000000, ''CLICKSYNC_BATCH_ROWS''),
      (cs_BatchAge c \<le> 0 \<or> cs_BatchAge c > 30 * 10 ^ 9, ''CLICKSYNC_BATCH_AGE''),
      (cs_RollbackDepth c = 0 \<or> cs_RollbackDepth c > 100000, ''CLICKSYNC_ROLLBACK_DEPTH'')]"

definition Validate :: "sync_config \<Rightarrow> config_error + unit" where
  "Validate c =
     bindE (Validate_database (cs_Database c)) (\<lambda>_.
       case List.find fst (sync_checks c) of
         Some (_, name) \<Rightarrow> Inl (InvalidSetting name)
       | None \<Rightarrow> bindE (ParseRelays (formatRelays (cs_Relays c))) (\<lambda>_. Inr ()))"

section \<open>The environment\<close>

type_synonym environment = "string \<Rightarrow> string option"

definition textEnv :: "environment \<Rightarrow> string \<Rightarrow> string \<Rightarrow> string" where
  "textEnv env name fallback = (case env name of Some value \<Rightarrow> TrimSpace value | None \<Rightarrow> fallback)"

definition durationEnv :: "(string \<Rightarrow> int option) \<Rightarrow> environment \<Rightarrow> string \<Rightarrow> int \<Rightarrow> int" where
  "durationEnv ParseDuration env name fallback =
     (case env name of
        None \<Rightarrow> fallback
      | Some value \<Rightarrow> (case ParseDuration (TrimSpace value) of None \<Rightarrow> - 1 | Some parsed \<Rightarrow> parsed))"

definition uint64Env :: "environment \<Rightarrow> string \<Rightarrow> u64 \<Rightarrow> nat \<Rightarrow> config_error + u64" where
  "uint64Env env name fallback bits =
     (case env name of
        None \<Rightarrow> Inr fallback
      | Some text \<Rightarrow> (case ParseUint bits (TrimSpace text) of
          None \<Rightarrow> Inl (InvalidSetting name) | Some value \<Rightarrow> Inr (of_nat value)))"

definition uint16Env :: "environment \<Rightarrow> string \<Rightarrow> u16 \<Rightarrow> config_error + u16" where
  "uint16Env env name fallback = bindE (uint64Env env name (ucast fallback) 16) (\<lambda>value. Inr (ucast value))"

definition uint32Env :: "environment \<Rightarrow> string \<Rightarrow> u32 \<Rightarrow> config_error + u32" where
  "uint32Env env name fallback = bindE (uint64Env env name (ucast fallback) 32) (\<lambda>value. Inr (ucast value))"

definition intEnv :: "environment \<Rightarrow> string \<Rightarrow> int \<Rightarrow> config_error + int" where
  "intEnv env name fallback =
     (case env name of
        None \<Rightarrow> Inr fallback
      | Some text \<Rightarrow> (case ParseInt 64 (TrimSpace text) of
          None \<Rightarrow> Inl (InvalidSetting name) | Some value \<Rightarrow> Inr value))"

definition intEnvValue :: "environment \<Rightarrow> string \<Rightarrow> int \<Rightarrow> int" where
  "intEnvValue env name fallback = (case intEnv env name fallback of Inl _ \<Rightarrow> - 1 | Inr value \<Rightarrow> value)"

definition int64EnvValue :: "environment \<Rightarrow> string \<Rightarrow> int \<Rightarrow> int" where
  "int64EnvValue env name fallback =
     (case env name of
        None \<Rightarrow> fallback
      | Some text \<Rightarrow> (case ParseInt 64 (TrimSpace text) of None \<Rightarrow> - 1 | Some value \<Rightarrow> value))"

definition uint64EnvValue :: "environment \<Rightarrow> string \<Rightarrow> u64 \<Rightarrow> u64" where
  "uint64EnvValue env name fallback = (case uint64Env env name fallback 64 of Inl _ \<Rightarrow> 0 | Inr value \<Rightarrow> value)"

definition DatabaseFromEnv :: "environment \<Rightarrow> config_error + database_config" where
  "DatabaseFromEnv env =
     bindE (uint16Env env ''CLICKHOUSE_NATIVE_PORT'' 9000) (\<lambda>port.
     bindE (intEnv env ''CLICKHOUSE_OPEN_CONNS'' 16) (\<lambda>openConn.
       let cfg = \<lparr>cd_Host = textEnv env ''CLICKHOUSE_HOST'' ''127.0.0.1'', cd_Port = port,
             cd_User = textEnv env ''CLICKHOUSE_USER'' ''clicksync'',
             cd_Password = (case env ''CLICKHOUSE_PASSWORD'' of None \<Rightarrow> '''' | Some v \<Rightarrow> v),
             cd_Name = textEnv env ''CLICKHOUSE_DATABASE'' ''clicksync'', cd_OpenConn = openConn\<rparr>
       in bindE (Validate_database cfg) (\<lambda>_. Inr cfg)))"

definition RollbackDepthFromEnv :: "environment \<Rightarrow> config_error + u32" where
  "RollbackDepthFromEnv env =
     bindE (uint32Env env ''CLICKSYNC_ROLLBACK_DEPTH'' 2160) (\<lambda>value.
       if value = 0 \<or> value > 100000 then Inl (InvalidSetting ''CLICKSYNC_ROLLBACK_DEPTH'') else Inr value)"

definition SyncFromEnv :: "(string \<Rightarrow> int option) \<Rightarrow> int \<Rightarrow> environment \<Rightarrow> config_error + sync_config" where
  "SyncFromEnv ParseDuration gomaxprocs env =
     bindE (DatabaseFromEnv env) (\<lambda>database.
     bindE (uint32Env env ''CARDANO_NETWORK_MAGIC'' MainnetMagic) (\<lambda>networkMagic.
     bindE (ParseRelays (textEnv env ''CARDANO_RELAYS'' defaultRelays)) (\<lambda>relays.
     bindE (ParsePoint (textEnv env ''CLICKSYNC_START'' defaultStart)) (\<lambda>start.
     bindE (RollbackDepthFromEnv env) (\<lambda>rollbackDepth.
       let duration = durationEnv ParseDuration env;
           cfg = \<lparr>cs_Database = database,
             cs_NetworkName = textEnv env ''CARDANO_NETWORK_NAME'' ''mainnet'',
             cs_NetworkMagic = networkMagic, cs_Relays = relays, cs_Start = start,
             cs_LockPath = textEnv env ''CLICKSYNC_LOCK_PATH'' ''./clicksync-state/writer.lock'',
             cs_DialTimeout = duration ''CLICKSYNC_DIAL_TIMEOUT'' (10 * 10 ^ 9),
             cs_ProtocolTimeout = duration ''CLICKSYNC_PROTOCOL_TIMEOUT'' (90 * 10 ^ 9),
             cs_ShutdownTimeout = duration ''CLICKSYNC_SHUTDOWN_TIMEOUT'' (45 * 10 ^ 9),
             cs_ReconnectInitial = duration ''CLICKSYNC_RECONNECT_INITIAL'' (10 ^ 9),
             cs_ReconnectMaximum = duration ''CLICKSYNC_RECONNECT_MAXIMUM'' (30 * 10 ^ 9),
             cs_BlockFetchRangeBlocks = intEnvValue env ''CLICKSYNC_BLOCKFETCH_RANGE_BLOCKS'' 512,
             cs_BlockFetchQueueSize = intEnvValue env ''CLICKSYNC_BLOCKFETCH_QUEUE_SIZE'' 512,
             cs_RelayQueueSize = intEnvValue env ''CLICKSYNC_RELAY_QUEUE_SIZE'' 256,
             cs_AgreedQueueSize = intEnvValue env ''CLICKSYNC_AGREED_QUEUE_SIZE'' 256,
             cs_AgreedQueueBytes = int64EnvValue env ''CLICKSYNC_AGREED_QUEUE_BYTES'' (256 * 2 ^ 20),
             cs_NormalizeWorkers = intEnvValue env ''CLICKSYNC_NORMALIZE_WORKERS'' gomaxprocs,
             cs_ReorderSize = intEnvValue env ''CLICKSYNC_REORDER_SIZE'' 256,
             cs_ReorderBytes = int64EnvValue env ''CLICKSYNC_REORDER_BYTES'' (256 * 2 ^ 20),
             cs_BatchBlocks = intEnvValue env ''CLICKSYNC_BATCH_BLOCKS'' 1024,
             cs_BatchBytes = int64EnvValue env ''CLICKSYNC_BATCH_BYTES'' (128 * 2 ^ 20),
             cs_BatchRows = uint64EnvValue env ''CLICKSYNC_BATCH_ROWS'' 2000000,
             cs_BatchAge = duration ''CLICKSYNC_BATCH_AGE'' (10 ^ 9),
             cs_RollbackDepth = rollbackDepth\<rparr>
       in bindE (Validate cfg) (\<lambda>_. Inr cfg))))))"

end
