(* ===== verification/Config_Laws.thy ===== *)
theory Config_Laws
  imports Config
begin

text \<open>
  The laws of the text functions, and the round trips of the configuration: relays and points read
  back as written.
\<close>

section \<open>Trimming, splitting, cutting\<close>

lemma TrimSpace_id: "s \<noteq> [] \<Longrightarrow> \<not> is_space (hd s) \<Longrightarrow> \<not> is_space (last s) \<Longrightarrow> TrimSpace s = s"
  by (cases s) (auto simp: TrimSpace_def hd_rev [symmetric] dropWhile_eq_self_iff simp del: hd_rev)

lemma TrimSpace_ends:
  assumes "TrimSpace s \<noteq> []"
  shows "\<not> is_space (hd (TrimSpace s))" and "\<not> is_space (last (TrimSpace s))"
proof -
  let ?d = "dropWhile is_space s"
  let ?e = "dropWhile is_space (rev ?d)"
  have ne: "?e \<noteq> []" using assms by (simp add: TrimSpace_def)
  show "\<not> is_space (last (TrimSpace s))"
    using hd_dropWhile [OF ne] ne by (simp add: TrimSpace_def last_rev)
  obtain us where us: "rev ?d = us @ ?e" using takeWhile_dropWhile_id by metis
  then have d: "?d = rev ?e @ rev us" by (metis rev_append rev_rev_ident)
  with ne have "?d \<noteq> []" by (metis append_is_Nil_conv rev_is_Nil_conv)
  moreover have "hd ?d = hd (TrimSpace s)"
    using ne by (subst d) (simp only: TrimSpace_def hd_append2 rev_is_Nil_conv not_False_eq_True)
  ultimately show "\<not> is_space (hd (TrimSpace s))" using hd_dropWhile by metis
qed

lemma set_TrimSpace: "set (TrimSpace s) \<subseteq> set s"
  by (auto simp: TrimSpace_def dest!: set_dropWhileD)

lemma TrimSpace_Nil_iff: "TrimSpace s = [] \<longleftrightarrow> list_all is_space s"
proof (cases "dropWhile is_space s")
  case Nil
  moreover from this have "list_all is_space s" by (simp add: list_all_iff)
  ultimately show ?thesis by (simp only: TrimSpace_def rev.simps dropWhile.simps simp_thms)
next
  case (Cons c cs)
  then have "\<not> is_space c" "c \<in> set s" using hd_dropWhile [of is_space s] set_dropWhileD [of c is_space s] by auto
  moreover from this Cons have "dropWhile is_space (rev (c # cs)) \<noteq> []" by (simp only: dropWhile_eq_Nil_conv) auto
  ultimately show ?thesis by (simp only: TrimSpace_def Cons rev_is_Nil_conv) (auto simp: list_all_iff)
qed

lemma SplitOn_nonempty: "SplitOn sep s \<noteq> []"
  by (induction s) (auto split: list.splits)

lemma SplitOn_word: "sep \<notin> set w \<Longrightarrow> SplitOn sep w = [w]"
  by (induction w) auto

lemma SplitOn_append: "sep \<notin> set w \<Longrightarrow> SplitOn sep (w @ sep # s) = w # SplitOn sep s"
  by (induction w) auto

lemma SplitOn_JoinWith: "ws \<noteq> [] \<Longrightarrow> \<forall>w \<in> set ws. sep \<notin> set w \<Longrightarrow> SplitOn sep (JoinWith sep ws) = ws"
  by (induction sep ws rule: JoinWith.induct) (simp_all add: SplitOn_word SplitOn_append)

lemma SplitOn_set: "w \<in> set (SplitOn sep s) \<Longrightarrow> sep \<notin> set w \<and> set w \<subseteq> set s"
proof (induction s arbitrary: w)
  case (Cons c cs)
  show ?case
  proof (cases "SplitOn sep cs")
    case Nil
    then show ?thesis using SplitOn_nonempty by metis
  next
    case c: (Cons a ws)
    with Cons.IH have "sep \<notin> set a \<and> set a \<subseteq> set cs" and "\<forall>w \<in> set ws. sep \<notin> set w \<and> set w \<subseteq> set cs" by auto
    with Cons.prems c show ?thesis by (auto split: if_splits)
  qed
qed simp

lemma CutAt_append: "sep \<notin> set a \<Longrightarrow> CutAt sep (a @ sep # b) = Some (a, b)"
  by (induction a) auto

lemma CutAt_Some: "CutAt sep s = Some (a, b) \<Longrightarrow> s = a @ sep # b \<and> sep \<notin> set a"
  by (induction s arbitrary: a) (auto split: if_splits)

section \<open>Lower case\<close>

lemma lower_char_cases: "(of_char (lower_char c) :: nat) = (if of_char c \<in> {65..90 :: nat} then of_char c + 32 else of_char c)"
  by (auto simp: lower_char_def)

lemma lower_char_idem [simp]: "lower_char (lower_char c) = lower_char c"
  using lower_char_cases [of c] by (auto simp: lower_char_def)

lemma lower_char_other: "of_char c \<notin> {65..90 :: nat} \<Longrightarrow> of_char c \<notin> {97..122 :: nat} \<Longrightarrow> lower_char d = c \<longleftrightarrow> d = c"
  by (auto simp: lower_char_def)

lemma is_space_lower [simp]: "is_space (lower_char c) = is_space c"
  using lower_char_cases [of c] by (auto simp: is_space_def)

lemma ToLower_idem [simp]: "ToLower (ToLower s) = ToLower s"
  by (simp add: ToLower_def comp_def)

lemma ToLower_append: "ToLower (a @ b) = ToLower a @ ToLower b"
  by (simp add: ToLower_def)

lemma in_ToLower: "of_char c \<notin> {65..90 :: nat} \<Longrightarrow> of_char c \<notin> {97..122 :: nat} \<Longrightarrow> c \<in> set (ToLower s) \<longleftrightarrow> c \<in> set s"
  using lower_char_other [of c] by (force simp: ToLower_def)

lemma TrimSpace_ToLower_Nil: "TrimSpace (ToLower s) = [] \<longleftrightarrow> TrimSpace s = []"
  by (simp add: TrimSpace_Nil_iff ToLower_def list.pred_map comp_def)

section \<open>Decimal numbers\<close>

lemma FormatUint_digits: "list_all is_digit (FormatUint n) \<and> FormatUint n \<noteq> []"
proof (induction n rule: FormatUint.induct)
  case (1 n)
  then show ?case using FormatUint.simps [of n] by (auto simp: is_digit_def list_all_iff)
qed

lemma decimal_snoc: "decimal (s @ [c]) = 10 * decimal s + digit_value c"
  by (simp add: decimal_def)

lemma decimal_FormatUint [simp]: "decimal (FormatUint n) = n"
proof (induction n rule: FormatUint.induct)
  case (1 n)
  have d: "digit_value (char_of (48 + k)) = k" if "k < 10" for k :: nat
    using that by (simp add: digit_value_def)
  show ?case
  proof (cases "n < 10")
    case True
    then show ?thesis by (subst FormatUint.simps) (simp add: decimal_def d)
  next
    case False
    with 1 have "decimal (FormatUint n) = 10 * (n div 10) + n mod 10"
      by (subst FormatUint.simps) (simp add: decimal_snoc d)
    then show ?thesis by simp
  qed
qed

lemma ParseUint_FormatUint: "n < 2 ^ bits \<Longrightarrow> ParseUint bits (FormatUint n) = Some n"
  using FormatUint_digits [of n] by (simp add: ParseUint_def)

lemma digits_plain:
  assumes "list_all is_digit s"
  shows "ToLower s = s" and "c \<in> set s \<Longrightarrow> is_digit c"
proof -
  show "c \<in> set s \<Longrightarrow> is_digit c" using assms by (auto simp: list_all_iff)
  have "lower_char c = c" if "is_digit c" for c using that by (auto simp: is_digit_def lower_char_def)
  with assms show "ToLower s = s" by (auto simp: ToLower_def list_all_iff intro: map_idI)
qed

lemma non_digit: "list_all is_digit s \<Longrightarrow> \<not> is_digit c \<Longrightarrow> c \<notin> set s"
  by (auto simp: list_all_iff)

lemma separators_not_digits [simp]:
  "\<not> is_digit CHR '':''" "\<not> is_digit CHR ''[''" "\<not> is_digit CHR '']''" "\<not> is_digit CHR ''|''" "\<not> is_digit CHR '',''"
  by (simp_all add: is_digit_def)

section \<open>Host and port\<close>

lemma last_index_append: "c \<notin> set b \<Longrightarrow> last_index c (a @ c # b) = Some (length a)"
proof (induction a)
  case Nil
  have "last_index c b = None" using Nil by (induction b) auto
  then show ?case by simp
qed simp

lemma last_index_Some:
  "last_index c s = Some i \<Longrightarrow> i < length s \<and> s = take i s @ c # drop (Suc i) s \<and> c \<notin> set (drop (Suc i) s)"
proof (induction s arbitrary: i)
  case (Cons x xs)
  have "last_index c xs = None \<Longrightarrow> c \<notin> set xs" by (induction xs) (auto split: option.splits if_splits)
  with Cons show ?case by (auto split: option.splits if_splits)
qed simp

definition plain_host :: "string \<Rightarrow> bool" where
  "plain_host h \<longleftrightarrow> CHR ''['' \<notin> set h \<and> CHR '']'' \<notin> set h"

lemma SplitHostPort_plain:
  assumes "SplitHostPort s = Some (h, p)"
  shows "plain_host h" and "set h \<subseteq> set s"
proof -
  from assms show "plain_host h"
    unfolding SplitHostPort_def plain_host_def
    by (auto simp: find_index_Some_iff in_set_conv_nth nth_drop split: option.splits if_splits
        dest!: in_set_dropD in_set_takeD)
      (metis Suc_less_eq2 add_diff_cancel_left' diff_Suc_1 less_imp_Suc_add nth_Cons_Suc)?
  from assms show "set h \<subseteq> set s"
    unfolding SplitHostPort_def by (auto split: option.splits if_splits dest!: in_set_dropD in_set_takeD)
qed

lemma JoinHostPort_lower: "list_all is_digit p \<Longrightarrow> ToLower (JoinHostPort h p) = JoinHostPort (ToLower h) p"
proof -
  assume p: "list_all is_digit p"
  have [simp]: "CHR '':'' \<in> set (ToLower h) \<longleftrightarrow> CHR '':'' \<in> set h" by (simp add: in_ToLower)
  have [simp]: "ToLower ''['' = ''[''" "ToLower '']:'' = '']:''" "ToLower '':'' = '':''"
    by (simp_all add: ToLower_def lower_char_def)
  have "JoinHostPort h p = (if CHR '':'' \<in> set h then ''['' @ h @ '']:'' @ p else h @ '':'' @ p)" for h
    by (simp add: JoinHostPort_def)
  then show ?thesis by (simp only: ToLower_append digits_plain(1) [OF p] split: if_split) simp
qed

lemma find_index_append: "\<forall>x \<in> set a. \<not> P x \<Longrightarrow> P y \<Longrightarrow> find_index P (a @ y # b) = Some (length a)"
  by (induction a) auto

lemma SplitHostPort_JoinHostPort:
  assumes "plain_host h" and "list_all is_digit p" and "h \<noteq> []"
  shows "SplitHostPort (JoinHostPort h p) = Some (h, p)"
proof -
  have p: "CHR '':'' \<notin> set p" "CHR ''['' \<notin> set p" "CHR '']'' \<notin> set p"
    using non_digit [OF assms(2)] by simp_all
  show ?thesis
  proof (cases "CHR '':'' \<in> set h")
    case True
    let ?a = "CHR ''['' # h"
    have j: "JoinHostPort h p = (?a @ [CHR '']'']) @ CHR '':'' # p" using True by (simp add: JoinHostPort_def)
    have i: "last_index CHR '':'' (JoinHostPort h p) = Some (length h + 2)"
      unfolding j using last_index_append [OF p(1), of "?a @ [CHR '']'']"] by simp
    have e: "find_index (\<lambda>c. c = CHR '']'') (JoinHostPort h p) = Some (length h + 1)"
      unfolding j using find_index_append [of ?a "\<lambda>c. c = CHR '']''" "CHR '']''" "CHR '':'' # p"] assms(1)
      by (force simp: plain_host_def)
    from i e p assms(1) show ?thesis by (simp add: SplitHostPort_def j plain_host_def)
  next
    case False
    have j: "JoinHostPort h p = h @ CHR '':'' # p" using False by (simp add: JoinHostPort_def)
    have i: "last_index CHR '':'' (JoinHostPort h p) = Some (length h)"
      unfolding j by (rule last_index_append [OF p(1)])
    have "(h @ CHR '':'' # p) ! 0 \<noteq> CHR ''[''"
      using assms(1,3) by (cases h) (auto simp: plain_host_def)
    with i p assms(1) False show ?thesis by (simp add: SplitHostPort_def j plain_host_def)
  qed
qed

section \<open>Relays\<close>

lemma label_chars:
  assumes "validLabel s"
  shows "s \<noteq> []" and "c \<in> set s \<Longrightarrow> \<not> is_space c \<and> c \<noteq> CHR ''|'' \<and> c \<noteq> CHR '',''"
proof -
  show "s \<noteq> []" using assms by (auto simp: validLabel_def)
  assume "c \<in> set s"
  then obtain i where "i < length s" "c = s ! i" by (auto simp: in_set_conv_nth)
  with assms have "label_char i c" by (simp add: validLabel_def)
  then show "\<not> is_space c \<and> c \<noteq> CHR ''|'' \<and> c \<noteq> CHR '',''"
    by (auto simp: label_char_def is_space_def Let_def)
qed

lemma TrimSpace_label: "validLabel s \<Longrightarrow> TrimSpace s = s"
  using label_chars [of s] by (intro TrimSpace_id) auto

text \<open>What a parsed relay looks like.\<close>

definition relay_text :: "string \<Rightarrow> string \<Rightarrow> bool" where
  "relay_text endpoint operator \<longleftrightarrow> validLabel operator \<and> CHR ''|'' \<notin> set endpoint \<and> CHR '','' \<notin> set endpoint \<and>
     (\<exists>h port. endpoint = JoinHostPort (ToLower h) (FormatUint port) \<and> plain_host (ToLower h) \<and> TrimSpace h \<noteq> [] \<and>
        0 < port \<and> port < 2 ^ 16)"

lemma parse_relay_text:
  assumes "parse_relay entry = Inr (Some (endpoint, operator))" and "CHR '','' \<notin> set entry"
  shows "relay_text endpoint operator"
proof -
  let ?e = "TrimSpace entry"
  from assms(1) obtain address op h pt port where e: "CutAt CHR ''|'' ?e = Some (address, op)"
      "SplitHostPort (TrimSpace address) = Some (h, pt)" "TrimSpace h \<noteq> []" "ParseUint 16 pt = Some port" "port \<noteq> 0"
      "operator = TrimSpace op" "validLabel operator" "endpoint = ToLower (JoinHostPort h (FormatUint port))"
    by (auto simp: parse_relay_def Let_def split: if_splits option.splits prod.splits)
  have "set h \<subseteq> set address" using SplitHostPort_plain(2) [OF e(2)] set_TrimSpace by blast
  moreover have "CHR ''|'' \<notin> set address" "set address \<subseteq> set entry"
    using CutAt_Some [OF e(1)] set_TrimSpace [of entry] by (metis (no_types), auto)
  ultimately have h: "CHR ''|'' \<notin> set h" "CHR '','' \<notin> set h" using assms(2) by auto
  have digits: "list_all is_digit (FormatUint port)" using FormatUint_digits by blast
  then have "CHR ''|'' \<notin> set (FormatUint port)" "CHR '','' \<notin> set (FormatUint port)"
    using non_digit by simp_all
  with h have "CHR ''|'' \<notin> set endpoint" "CHR '','' \<notin> set endpoint"
    unfolding e(8) JoinHostPort_lower [OF digits] by (simp_all add: JoinHostPort_def in_ToLower)
  moreover have "plain_host (ToLower h)"
    using SplitHostPort_plain(1) [OF e(2)] by (simp add: plain_host_def in_ToLower)
  moreover have "port < 2 ^ 16" using e(4) by (auto simp: ParseUint_def split: if_splits)
  ultimately show ?thesis
    unfolding relay_text_def e(8) JoinHostPort_lower [OF digits] using e(3,5,7) by blast
qed

lemma parse_relay_again:
  assumes "relay_text endpoint operator" and "\<not> is_space (hd endpoint)"
  shows "parse_relay (endpoint @ ''|'' @ operator) = Inr (Some (endpoint, operator))"
proof -
  from assms(1) obtain h port where r: "endpoint = JoinHostPort (ToLower h) (FormatUint port)" "plain_host (ToLower h)"
      "TrimSpace h \<noteq> []" "0 < port" "port < 2 ^ 16" "validLabel operator" "CHR ''|'' \<notin> set endpoint"
    by (auto simp: relay_text_def)
  note l = label_chars [OF r(6)]
  have digits: "list_all is_digit (FormatUint port)" "FormatUint port \<noteq> []" using FormatUint_digits by auto
  have ne: "endpoint \<noteq> []" "last endpoint = last (FormatUint port)"
    using digits(2) by (auto simp: r(1) JoinHostPort_def)
  have "is_digit (last endpoint)" using ne(2) digits by (simp add: digits_plain(2))
  then have sp: "\<not> is_space (last endpoint)" by (auto simp: is_digit_def is_space_def)
  have t: "TrimSpace (endpoint @ ''|'' @ operator) = endpoint @ ''|'' @ operator"
    using assms(2) ne l by (intro TrimSpace_id) auto
  have te: "TrimSpace endpoint = endpoint" using assms(2) ne sp by (intro TrimSpace_id) auto
  have hl: "ToLower h \<noteq> []" using r(3) by (auto simp: ToLower_def TrimSpace_def)
  have "CutAt CHR ''|'' (endpoint @ ''|'' @ operator) = Some (endpoint, operator)"
    using CutAt_append [OF r(7)] by simp
  moreover have "SplitHostPort (TrimSpace endpoint) = Some (ToLower h, FormatUint port)"
    unfolding te unfolding r(1) by (rule SplitHostPort_JoinHostPort [OF r(2) digits(1) hl])
  moreover have "ToLower (JoinHostPort (ToLower h) (FormatUint port)) = endpoint"
    by (simp add: JoinHostPort_lower [OF digits(1)] r(1))
  moreover have "CHR ''|'' \<notin> set operator" using l(2) by blast
  ultimately show ?thesis
    using t ne r(3-6) TrimSpace_label [OF r(6)] ParseUint_FormatUint [of port 16]
    by (simp add: parse_relay_def Let_def TrimSpace_ToLower_Nil)
qed

lemma parse_relays_again:
  assumes "parse_relays entries es os = Inr rs" and "\<forall>e \<in> set entries. CHR '','' \<notin> set e"
    and "\<forall>r \<in> set rs. \<not> is_space (hd (cr_Host r))"
  shows "parse_relays (map (\<lambda>r. cr_Host r @ ''|'' @ cr_Operator r) rs) es os = Inr rs"
    and "\<forall>r \<in> set rs. relay_text (cr_Host r) (cr_Operator r)"
proof -
  from assms have "parse_relays (map (\<lambda>r. cr_Host r @ ''|'' @ cr_Operator r) rs) es os = Inr rs \<and>
      (\<forall>r \<in> set rs. relay_text (cr_Host r) (cr_Operator r))"
  proof (induction entries es os arbitrary: rs rule: parse_relays.induct)
    case (2 entry entries es os)
    then obtain r where r: "parse_relay entry = Inr r" by (auto simp: err_simps)
    show ?case
    proof (cases r)
      case None
      with 2 r show ?thesis by auto
    next
      case (Some p)
      obtain endpoint operator where p: "p = (endpoint, operator)" by (cases p)
      with 2(3) r Some obtain rs' where rs: "rs = \<lparr>cr_Host = endpoint, cr_Operator = operator\<rparr> # rs'"
          "parse_relays entries (endpoint # es) (ToLower operator # os) = Inr rs'"
          "endpoint \<notin> set es" "ToLower operator \<notin> set os"
        by (auto simp: err_simps Let_def split: if_splits)
      have shape: "relay_text endpoint operator" using parse_relay_text r Some p 2(4) by auto
      have "parse_relays (map (\<lambda>r. cr_Host r @ ''|'' @ cr_Operator r) rs') (endpoint # es) (ToLower operator # os) = Inr rs' \<and>
          (\<forall>r \<in> set rs'. relay_text (cr_Host r) (cr_Operator r))"
        using 2(2) [OF refl rs(3,4) rs(2)] 2(4,5) rs(1) by auto
      with parse_relay_again [OF shape] rs 2(5) shape show ?thesis by (simp add: Let_def)
    qed
  qed simp
  then show "parse_relays (map (\<lambda>r. cr_Host r @ ''|'' @ cr_Operator r) rs) es os = Inr rs"
    and "\<forall>r \<in> set rs. relay_text (cr_Host r) (cr_Operator r)" by auto
qed

lemma label_no_comma: "validLabel s \<Longrightarrow> CHR '','' \<notin> set s"
  using label_chars(2) by blast

lemma ParseRelays_again:
  assumes "ParseRelays value = Inr rs" and "\<forall>r \<in> set rs. \<not> is_space (hd (cr_Host r))"
  shows "ParseRelays (formatRelays rs) = Inr rs"
proof -
  let ?words = "map (\<lambda>r. cr_Host r @ ''|'' @ cr_Operator r) rs"
  from assms(1) have p: "parse_relays (SplitOn CHR '','' value) [] [] = Inr rs" and len: "2 \<le> length rs"
    by (auto simp: ParseRelays_def err_simps split: if_splits)
  have "\<forall>e \<in> set (SplitOn CHR '','' value). CHR '','' \<notin> set e" using SplitOn_set by blast
  note again = parse_relays_again [OF p this assms(2)]
  have "\<forall>w \<in> set ?words. CHR '','' \<notin> set w"
    using again(2) label_no_comma by (auto simp: relay_text_def)
  then have "SplitOn CHR '','' (formatRelays rs) = ?words"
    unfolding formatRelays_def using len by (intro SplitOn_JoinWith) auto
  with again(1) len show ?thesis by (simp add: ParseRelays_def)
qed

section \<open>Points\<close>

text \<open>The documented form of a point: \<^verbatim>\<open>origin\<close> or \<^verbatim>\<open>SLOT:64_HEX_HASH:BLOCK_NUMBER[:ebb]\<close>.\<close>

definition hex_digit :: "nat \<Rightarrow> char" where
  "hex_digit n = (if n < 10 then char_of (48 + n) else char_of (87 + n))"

definition hex_byte :: "byte \<Rightarrow> string" where
  "hex_byte b = [hex_digit (unat b div 16), hex_digit (unat b mod 16)]"

definition format_point :: "point \<Rightarrow> string" where
  "format_point p =
     (if pt_Origin p then ''origin''
      else JoinWith CHR '':'' ([FormatUint (unat (pt_Slot p)), concat (map hex_byte (bytes32 (pt_Hash p))),
        FormatUint (unat (pt_BlockNumber p))] @ (if pt_IsByronEBB p then [''ebb''] else [])))"

lemma hex_value_digit: "n < 16 \<Longrightarrow> hex_value (hex_digit n) = Some n"
  by (auto simp: hex_value_def hex_digit_def Let_def)

lemma DecodeHex_bytes: "DecodeHex (concat (map hex_byte bs)) = Some bs"
proof (induction bs)
  case (Cons b bs)
  have "unat b < 256" using unsigned_less [of b, where 'a = nat] by simp
  then have "unat b div 16 < 16" "unat b mod 16 < 16" by auto
  with Cons show ?case by (simp add: hex_byte_def hex_value_digit)
qed simp

lemma hex_digit_plain: "n < 16 \<Longrightarrow> hex_digit n \<noteq> CHR '':''"
  by (auto simp: hex_digit_def dest: arg_cong [where f = "of_char :: char \<Rightarrow> nat"] split: if_splits)

lemma hex_plain: "CHR '':'' \<notin> set (concat (map hex_byte bs))"
proof -
  have "CHR '':'' \<notin> set (hex_byte b)" for b
  proof -
    have "unat b < 256" using unsigned_less [of b, where 'a = nat] by simp
    then have "unat b div 16 < 16" "unat b mod 16 < 16" by auto
    then have "hex_digit (unat b div 16) \<noteq> CHR '':''" "hex_digit (unat b mod 16) \<noteq> CHR '':''"
      using hex_digit_plain by blast+
    then show ?thesis by (simp add: hex_byte_def)
  qed
  then show ?thesis by auto
qed

lemma ParsePoint_format:
  assumes "pt_Origin p \<Longrightarrow> p = origin_point" and "\<not> pt_Origin p \<Longrightarrow> pt_Hash p \<noteq> zero32"
  shows "ParsePoint (format_point p) = Inr p"
proof (cases "pt_Origin p")
  case True
  moreover have "TrimSpace ''origin'' = ''origin''" by (intro TrimSpace_id) (simp_all add: is_space_def)
  ultimately show ?thesis using assms(1) by (simp add: ParsePoint_def format_point_def EqualFold_def Let_def)
next
  case False
  let ?a = "FormatUint (unat (pt_Slot p))" and ?h = "concat (map hex_byte (bytes32 (pt_Hash p)))"
    and ?n = "FormatUint (unat (pt_BlockNumber p))"
  let ?parts = "[?a, ?h, ?n] @ (if pt_IsByronEBB p then [''ebb''] else [])"
  have fp: "format_point p = JoinWith CHR '':'' ?parts" using False by (simp add: format_point_def)
  have d: "list_all is_digit ?a" "list_all is_digit ?n" "?a \<noteq> []" "?n \<noteq> []" using FormatUint_digits by auto
  have hd: "is_digit (hd (format_point p))" using d by (simp add: fp digits_plain(2))
  have ne: "format_point p \<noteq> []" using d by (simp add: fp)
  have "last (format_point p) = (if pt_IsByronEBB p then CHR ''b'' else last ?n)" using d by (simp add: fp)
  moreover have "is_digit (last ?n)" using d by (simp add: digits_plain(2))
  ultimately have "\<not> is_space (last (format_point p))" by (auto simp: is_digit_def is_space_def)
  then have trim: "TrimSpace (format_point p) = format_point p"
    using hd ne by (intro TrimSpace_id) (auto simp: is_digit_def is_space_def)
  have "lower_char (hd (format_point p)) \<noteq> CHR ''o''"
    using hd by (auto simp: is_digit_def lower_char_def)
  then have "\<not> EqualFold (format_point p) ''origin''"
    using ne by (cases "format_point p") (auto simp: EqualFold_def ToLower_def lower_char_def)
  moreover have "SplitOn CHR '':'' (format_point p) = ?parts"
    unfolding fp using non_digit [OF d(1)] non_digit [OF d(2)] hex_plain by (intro SplitOn_JoinWith) auto
  moreover have "ParseUint 64 (FormatUint (unat w)) = Some (unat w)" for w :: u64
    by (rule ParseUint_FormatUint) (rule unat_u64_less)
  ultimately show ?thesis
    using False assms(2) trim DecodeHex_bytes [of "bytes32 (pt_Hash p)"]
    by (cases p) (auto simp: ParsePoint_def Let_def EqualFold_def)
qed

section \<open>Properties\<close>

text \<open>
  C38. Parsed relays read back: writing the relays that \<^verbatim>\<open>ParseRelays\<close> returned in the form
  \<^verbatim>\<open>host:port|operator\<close> and parsing that text again gives the same relays, provided no host
  begins with white space. This is the check \<^verbatim>\<open>Validate\<close> makes, so parsed relays pass it.
\<close>

theorem relays_read_back:
  assumes "ParseRelays value = Inr rs" and "\<forall>r \<in> set rs. \<not> is_space (hd (cr_Host r))"
  shows "ParseRelays (formatRelays rs) = Inr rs"
  using assms by (rule ParseRelays_again)

definition sample_relays_text :: string where
  "sample_relays_text = '' A.b:03001|x , [::1]:42|Y-z,''"

definition sample_relays :: "config_relay list" where
  "sample_relays = [\<lparr>cr_Host = ''a.b:3001'', cr_Operator = ''x''\<rparr>, \<lparr>cr_Host = ''[::1]:42'', cr_Operator = ''Y-z''\<rparr>]"

lemmas relay_eval = ParseRelays_def parse_relay_def TrimSpace_def is_space_def SplitHostPort_def ParseUint_def
  is_digit_def decimal_def digit_value_def validLabel_def label_char_def JoinHostPort_def ToLower_def lower_char_def
  FormatUint.simps Let_def All_less_Suc2 char_of_def bit_0

lemma sample_relays_parsed: "ParseRelays sample_relays_text = Inr sample_relays"
  by (simp add: sample_relays_text_def sample_relays_def relay_eval)

theorem relays_read_back_witness: "ParseRelays (formatRelays sample_relays) = Inr sample_relays"
  by (rule relays_read_back [OF sample_relays_parsed]) (simp add: sample_relays_def is_space_def)

text \<open>
  Points read back: the text of a point in the documented form is parsed to that point, for the
  origin and for every point whose hash is not all zero.
\<close>

theorem points_read_back:
  assumes "pt_Origin p \<Longrightarrow> p = origin_point" and "\<not> pt_Origin p \<Longrightarrow> pt_Hash p \<noteq> zero32"
  shows "ParsePoint (format_point p) = Inr p"
  using assms by (rule ParsePoint_format)

theorem points_read_back_witness:
  "ParsePoint (format_point \<lparr>pt_Origin = False, pt_Slot = 133660799, pt_Hash = fill32 231, pt_BlockNumber = 10781330,
     pt_IsByronEBB = True\<rparr>) = Inr \<lparr>pt_Origin = False, pt_Slot = 133660799, pt_Hash = fill32 231,
     pt_BlockNumber = 10781330, pt_IsByronEBB = True\<rparr>"
  by (rule points_read_back) simp_all

text \<open>
  A host in brackets keeps the white space inside the brackets: the relay is accepted with an
  endpoint that begins with a space and that does not read back.
\<close>

theorem bracketed_space_not_read_back:
  "ParseRelays ''[ h]:1|a,g:2|b'' =
     Inr [\<lparr>cr_Host = '' h:1'', cr_Operator = ''a''\<rparr>, \<lparr>cr_Host = ''g:2'', cr_Operator = ''b''\<rparr>] \<and>
   ParseRelays (formatRelays [\<lparr>cr_Host = '' h:1'', cr_Operator = ''a''\<rparr>, \<lparr>cr_Host = ''g:2'', cr_Operator = ''b''\<rparr>]) =
     Inr [\<lparr>cr_Host = ''h:1'', cr_Operator = ''a''\<rparr>, \<lparr>cr_Host = ''g:2'', cr_Operator = ''b''\<rparr>]"
  by (simp add: formatRelays_def relay_eval)

lemma make32_nonzero: "length bs = 32 \<Longrightarrow> hd bs \<noteq> 0 \<Longrightarrow> make32 bs \<noteq> zero32"
proof
  assume "length bs = 32" "hd bs \<noteq> 0" and "make32 bs = zero32"
  then have "bytes32 (make32 bs) = replicate 32 0" by simp
  then have "bs = replicate 32 0" using \<open>length bs = 32\<close> by (simp only: bytes32_make32 if_True refl)
  then have "hd bs = 0" by (simp add: numeral_eq_Suc)
  with \<open>hd bs \<noteq> 0\<close> show False by simp
qed

definition password_only :: environment where
  "password_only = (\<lambda>name. if name = ''CLICKHOUSE_PASSWORD'' then Some ''secret'' else None)"

lemma default_relays_parsed:
  "ParseRelays defaultRelays = Inr
     [\<lparr>cr_Host = ''backbone.cardano.iog.io:3001'', cr_Operator = ''iog''\<rparr>,
      \<lparr>cr_Host = ''backbone.mainnet.cardanofoundation.org:3001'', cr_Operator = ''cardano-foundation''\<rparr>]"
  by (simp add: defaultRelays_def relay_eval)

lemma default_relays_again:
  "ParseRelays (formatRelays [\<lparr>cr_Host = ''backbone.cardano.iog.io:3001'', cr_Operator = ''iog''\<rparr>,
      \<lparr>cr_Host = ''backbone.mainnet.cardanofoundation.org:3001'', cr_Operator = ''cardano-foundation''\<rparr>]) =
   Inr [\<lparr>cr_Host = ''backbone.cardano.iog.io:3001'', cr_Operator = ''iog''\<rparr>,
      \<lparr>cr_Host = ''backbone.mainnet.cardanofoundation.org:3001'', cr_Operator = ''cardano-foundation''\<rparr>]"
  by (rule ParseRelays_again [OF default_relays_parsed]) (simp add: is_space_def)

lemma default_start_parsed: "\<exists>p. ParsePoint defaultStart = Inr p"
  by (simp add: defaultStart_def ParsePoint_def EqualFold_def relay_eval hex_value_def make32_nonzero)

lemma default_database:
  "DatabaseFromEnv password_only = Inr \<lparr>cd_Host = ''127.0.0.1'', cd_Port = 9000, cd_User = ''clicksync'',
     cd_Password = ''secret'', cd_Name = ''clicksync'', cd_OpenConn = 16\<rparr>"
  by (simp add: DatabaseFromEnv_def password_only_def uint16Env_def uint64Env_def intEnv_def textEnv_def
      Validate_database_def TrimSpace_def is_space_def Let_def)

lemmas env_defs = textEnv_def durationEnv_def uint64Env_def uint32Env_def intEnv_def intEnvValue_def int64EnvValue_def
  uint64EnvValue_def RollbackDepthFromEnv_def

text \<open>
  The defaults are usable: with nothing but a password in the environment, the configuration is
  accepted exactly when the number of processors the runtime reports lies between 1 and 256.
\<close>

theorem defaults_accepted_iff:
  "(\<exists>cfg. SyncFromEnv ParseDuration gomaxprocs password_only = Inr cfg) \<longleftrightarrow> 1 \<le> gomaxprocs \<and> gomaxprocs \<le> 256"
proof -
  obtain start where start: "ParsePoint defaultStart = Inr start" using default_start_parsed by blast
  have env: "password_only name = None" if "name \<noteq> ''CLICKHOUSE_PASSWORD''" for name
    using that by (simp add: password_only_def)
  have small: "(2160 :: u32) \<le> 100000" "(2000000 :: u64) \<le> 10000000" by (simp_all add: word_le_nat_alt)
  show ?thesis
    using small by (auto simp: SyncFromEnv_def default_database default_relays_parsed start env env_defs Let_def MainnetMagic_def
        Validate_def Validate_database_def sync_checks_def default_relays_again TrimSpace_def is_space_def not_le
        split: if_splits)
qed

end
