(* ===== verification/Inserts.thy ===== *)
theory Inserts
  imports Store_Types
begin

text \<open>
  \<^verbatim>\<open>internal/store/inserts.go\<close>: the projection of publications to the rows of the nine fact
  tables. Each insert builds one batch, or none when its table has no row to receive; building a
  batch can fail before anything is sent.
\<close>

section \<open>Rows of the fact tables\<close>

record blocks_row =
  b_publication_id :: u64
  b_block_hash :: bytes
  b_parent_hash :: "bytes option"
  b_slot :: u64
  b_block_number :: u64
  b_era :: string
  b_block_type :: int
  b_transaction_count :: u32
  b_input_count :: u32
  b_output_count :: u32
  b_datum_observation_count :: u32
  b_withdrawal_count :: u32
  b_redeemer_count :: u32
  b_metadata_count :: u32
  b_synthetic :: bool
  b_content_hash :: bytes
  b_relay_hosts :: "string list"
  b_relay_addresses :: "string list"
  b_relay_operators :: "string list"
  b_n2n_versions :: "u16 list"
  b_network_magic :: u32
  b_observed_at :: time
  b_inserted_at :: time

record transactions_row =
  t_publication_id :: u64
  t_block_number :: u64
  t_tx_hash :: bytes
  t_tx_order :: u32
  t_parent_tx_hash :: "bytes option"
  t_subtransaction_index :: "u32 option"
  t_era :: string
  t_phase2_valid :: bool
  t_flow_kind :: string
  t_declared_fee :: "u64 option"
  t_effective_fee :: "u64 option"
  t_mint_is_applied :: bool
  t_mint_policy_ids :: "bytes list"
  t_mint_asset_names :: "bytes list"
  t_mint_quantities :: "int list"
  t_regular_input_count :: u32
  t_collateral_input_count :: u32
  t_reference_input_count :: u32
  t_produced_output_count :: u32
  t_withdrawal_count :: u32
  t_redeemer_count :: u32
  t_metadata_present :: bool
  t_datum_observation_count :: u32

record inputs_row =
  i_publication_id :: u64
  i_block_number :: u64
  i_tx_hash :: bytes
  i_tx_order :: u32
  i_source_tx_hash :: bytes
  i_source_output_index :: u32
  i_body_ordinal :: u32
  i_role :: string
  i_is_consumed :: bool

record outputs_row =
  o_publication_id :: u64
  o_block_number :: u64
  o_tx_hash :: bytes
  o_tx_order :: u32
  o_output_index :: u32
  o_body_ordinal :: u32
  o_output_kind :: string
  o_address :: bytes
  o_payment_credential_kind :: "string option"
  o_payment_credential_hash :: "bytes option"
  o_lovelace :: u64
  o_asset_policy_ids :: "bytes list"
  o_asset_names :: "bytes list"
  o_asset_quantities :: "u64 list"
  o_datum_kind :: string
  o_datum_hash :: "bytes option"
  o_reference_script_hash :: "bytes option"
  o_reference_script_language :: "string option"

record datum_bodies_row =
  d_publication_id :: u64
  d_block_number :: u64
  d_datum_hash :: bytes
  d_datum_cbor :: bytes
  d_byte_length :: u32
  d_observed_at :: time

record datum_observations_row =
  x_publication_id :: u64
  x_block_number :: u64
  x_datum_hash :: bytes
  x_tx_hash :: bytes
  x_tx_order :: u32
  x_source_kind :: string
  x_source_ordinal :: u32
  x_output_index :: "u32 option"

record withdrawals_row =
  w_publication_id :: u64
  w_block_number :: u64
  w_tx_hash :: bytes
  w_tx_order :: u32
  w_body_ordinal :: u32
  w_reward_account :: bytes
  w_lovelace :: u64
  w_is_applied :: bool
  w_credential_kind :: "string option"
  w_credential_hash :: "bytes option"

record redeemers_row =
  r_publication_id :: u64
  r_block_number :: u64
  r_tx_hash :: bytes
  r_tx_order :: u32
  r_raw_purpose_tag :: u8
  r_purpose :: string
  r_redeemer_index :: u32
  r_data_cbor :: bytes
  r_data_byte_length :: u32
  r_data_hash :: bytes
  r_ex_units_memory :: u64
  r_ex_units_steps :: u64
  r_is_applied :: bool
  r_target_tx_hash :: "bytes option"
  r_target_output_index :: "u32 option"
  r_target_policy_id :: "bytes option"
  r_target_reward_account :: "bytes option"
  r_target_body_ordinal :: "u32 option"
  r_target_identity :: "bytes option"
  r_resolved_script_hash :: "bytes option"

record metadata_row =
  m_publication_id :: u64
  m_block_number :: u64
  m_tx_hash :: bytes
  m_tx_order :: u32
  m_labels :: "u64 list"
  m_metadata_cbor :: bytes
  m_byte_length :: u32
  m_content_hash :: bytes

section \<open>Counting\<close>

definition countFacts :: "block \<Rightarrow> fact_counts" where
  "countFacts b =
     fold (\<lambda>t c. c\<lparr>fc_inputs := fc_inputs c + of_nat (length (tx_Inputs t)),
         fc_outputs := fc_outputs c + of_nat (length (tx_Outputs t)),
         fc_datumObservations := fc_datumObservations c + of_nat (length (tx_DatumObservations t)),
         fc_withdrawals := fc_withdrawals c + of_nat (length (tx_Withdrawals t)),
         fc_redeemers := fc_redeemers c + of_nat (length (tx_Redeemers t)),
         fc_metadata := (if tx_Metadata t \<noteq> None then fc_metadata c + 1 else fc_metadata c)\<rparr>)
       (bk_Transactions b)
       \<lparr>fc_transactions = of_nat (length (bk_Transactions b)), fc_inputs = 0, fc_outputs = 0,
        fc_datumObservations = 0, fc_withdrawals = 0, fc_redeemers = 0, fc_metadata = 0\<rparr>"

text \<open>
  \<^verbatim>\<open>ledger.BlockTypeByronEbb\<close> is a constant of the gOuroboros package: the parameter
  \<open>ebbType\<close>.
\<close>

definition pointForBlock :: "int \<Rightarrow> block \<Rightarrow> point" where
  "pointForBlock ebbType b =
     \<lparr>pt_Origin = False, pt_Slot = bk_Slot b, pt_Hash = bk_Hash b, pt_BlockNumber = bk_Number b,
      pt_IsByronEBB = (bk_Era b = ''Byron'' \<and> bk_Type b = ebbType)\<rparr>"

definition hasTransactions :: "publication list \<Rightarrow> bool" where
  "hasTransactions pubs = list_ex (\<lambda>p. length (bk_Transactions (pb_Block p)) \<noteq> 0) pubs"

definition total_count :: "(fact_counts \<Rightarrow> u64) \<Rightarrow> publication list \<Rightarrow> u64" where
  "total_count f pubs = fold (\<lambda>p total. total + f (pb_Counts p)) pubs 0"

definition totalInputs :: "publication list \<Rightarrow> u64" where
  "totalInputs = total_count fc_inputs"

definition totalOutputs :: "publication list \<Rightarrow> u64" where
  "totalOutputs = total_count fc_outputs"

definition totalDatumObservations :: "publication list \<Rightarrow> u64" where
  "totalDatumObservations = total_count fc_datumObservations"

definition totalWithdrawals :: "publication list \<Rightarrow> u64" where
  "totalWithdrawals = total_count fc_withdrawals"

definition totalRedeemers :: "publication list \<Rightarrow> u64" where
  "totalRedeemers = total_count fc_redeemers"

definition totalMetadata :: "publication list \<Rightarrow> u64" where
  "totalMetadata = total_count fc_metadata"

section \<open>Batches\<close>

text \<open>
  The batch an insert function hands to \<^verbatim>\<open>Send\<close>: \<open>Inr None\<close> when the function returns nil
  without preparing a batch, \<open>Inl\<close> when it aborts the batch with an error of its own.
\<close>

type_synonym 'row batch = "store_error + 'row list option"

definition block_row :: "u32 \<Rightarrow> publication \<Rightarrow> blocks_row" where
  "block_row networkMagic item =
     (let b = pb_Block item; c = pb_Counts item in
      \<lparr>b_publication_id = pb_PublicationID item, b_block_hash = bytes32 (bk_Hash b),
       b_parent_hash = map_option bytes32 (bk_ParentHash b), b_slot = bk_Slot b,
       b_block_number = bk_Number b, b_era = bk_Era b, b_block_type = bk_Type b,
       b_transaction_count = ucast (fc_transactions c), b_input_count = ucast (fc_inputs c),
       b_output_count = ucast (fc_outputs c),
       b_datum_observation_count = ucast (fc_datumObservations c),
       b_withdrawal_count = ucast (fc_withdrawals c), b_redeemer_count = ucast (fc_redeemers c),
       b_metadata_count = ucast (fc_metadata c), b_synthetic = bk_Synthetic b,
       b_content_hash = bytes32 (pb_ContentHash item),
       b_relay_hosts = map sr_Host (pb_Relays item),
       b_relay_addresses = map sr_Address (pb_Relays item),
       b_relay_operators = map sr_Operator (pb_Relays item),
       b_n2n_versions = map sr_N2NVersion (pb_Relays item), b_network_magic = networkMagic,
       b_observed_at = bk_ObservedAt b, b_inserted_at = pb_InsertedAt item\<rparr>)"

definition insertBlocks :: "u32 \<Rightarrow> publication list \<Rightarrow> blocks_row batch" where
  "insertBlocks networkMagic pubs = Inr (Some (map (block_row networkMagic) pubs))"

text \<open>The role switch of \<^verbatim>\<open>insertTransactions\<close>, counting each role in a 32-bit word.\<close>

fun count_roles :: "tx_input list \<Rightarrow> u32 \<times> u32 \<times> u32 \<Rightarrow> store_error + u32 \<times> u32 \<times> u32" where
  "count_roles [] acc = Inr acc"
| "count_roles (i # is) (regular, collateral, reference) =
     (if in_Role i = ''regular'' then count_roles is (regular + 1, collateral, reference)
      else if in_Role i = ''collateral'' then count_roles is (regular, collateral + 1, reference)
      else if in_Role i = ''reference'' then count_roles is (regular, collateral, reference + 1)
      else Inl ErrUnknownRole)"

definition transaction_row :: "publication \<Rightarrow> transaction \<Rightarrow> store_error + transactions_row" where
  "transaction_row item t =
     bindE (count_roles (tx_Inputs t) (0, 0, 0)) (\<lambda>(regular, collateral, reference).
       Inr \<lparr>t_publication_id = pb_PublicationID item, t_block_number = bk_Number (pb_Block item),
         t_tx_hash = bytes32 (tx_Hash t), t_tx_order = tx_Order t,
         t_parent_tx_hash = map_option bytes32 (tx_ParentHash t),
         t_subtransaction_index = tx_SubtransactionIndex t, t_era = tx_Era t,
         t_phase2_valid = tx_Phase2Valid t, t_flow_kind = tx_FlowKind t,
         t_declared_fee = tx_DeclaredFee t, t_effective_fee = tx_EffectiveFee t,
         t_mint_is_applied = tx_MintApplied t,
         t_mint_policy_ids = map (bytes28 \<circ> ad_PolicyID) (tx_Mint t),
         t_mint_asset_names = map ad_Name (tx_Mint t),
         t_mint_quantities = map ad_Quantity (tx_Mint t),
         t_regular_input_count = regular, t_collateral_input_count = collateral,
         t_reference_input_count = reference,
         t_produced_output_count = of_nat (length (tx_Outputs t)),
         t_withdrawal_count = of_nat (length (tx_Withdrawals t)),
         t_redeemer_count = of_nat (length (tx_Redeemers t)),
         t_metadata_present = (tx_Metadata t \<noteq> None),
         t_datum_observation_count = of_nat (length (tx_DatumObservations t))\<rparr>)"

definition insertTransactions :: "publication list \<Rightarrow> transactions_row batch" where
  "insertTransactions pubs =
     (if \<not> hasTransactions pubs then Inr None
      else bindE (mapM (\<lambda>(item, t). transaction_row item t)
             (concat (map (\<lambda>item. map (Pair item) (bk_Transactions (pb_Block item))) pubs)))
           (\<lambda>rows. Inr (Some rows)))"

text \<open>The nested loops over publications, transactions and the facts of one kind.\<close>

definition tx_facts :: "(publication \<Rightarrow> transaction \<Rightarrow> 'row list) \<Rightarrow> publication list \<Rightarrow> 'row list" where
  "tx_facts f pubs =
     concat (map (\<lambda>item. concat (map (f item) (bk_Transactions (pb_Block item)))) pubs)"

definition input_row :: "publication \<Rightarrow> tx_input \<Rightarrow> inputs_row" where
  "input_row item i =
     \<lparr>i_publication_id = pb_PublicationID item, i_block_number = bk_Number (pb_Block item),
      i_tx_hash = bytes32 (in_TransactionHash i), i_tx_order = in_TransactionOrder i,
      i_source_tx_hash = bytes32 (in_SourceHash i), i_source_output_index = in_SourceIndex i,
      i_body_ordinal = in_BodyOrdinal i, i_role = in_Role i, i_is_consumed = in_Consumed i\<rparr>"

definition insertInputs :: "publication list \<Rightarrow> inputs_row batch" where
  "insertInputs pubs = (if totalInputs pubs = 0 then Inr None
     else Inr (Some (tx_facts (\<lambda>item t. map (input_row item) (tx_Inputs t)) pubs)))"

definition output_row :: "publication \<Rightarrow> tx_output \<Rightarrow> outputs_row" where
  "output_row item out =
     \<lparr>o_publication_id = pb_PublicationID item, o_block_number = bk_Number (pb_Block item),
      o_tx_hash = bytes32 (out_TransactionHash out), o_tx_order = out_TransactionOrder out,
      o_output_index = out_Index out, o_body_ordinal = out_BodyOrdinal out,
      o_output_kind = out_Kind out, o_address = out_Address out,
      o_payment_credential_kind = out_PaymentCredentialKind out,
      o_payment_credential_hash = map_option bytes28 (out_PaymentCredentialHash out),
      o_lovelace = out_Lovelace out,
      o_asset_policy_ids = map (bytes28 \<circ> as_PolicyID) (out_Assets out),
      o_asset_names = map as_Name (out_Assets out),
      o_asset_quantities = map as_Quantity (out_Assets out), o_datum_kind = out_DatumKind out,
      o_datum_hash = map_option bytes32 (out_DatumHash out),
      o_reference_script_hash = map_option bytes28 (out_ReferenceScriptHash out),
      o_reference_script_language = out_ReferenceScriptLanguage out\<rparr>"

definition insertOutputs :: "publication list \<Rightarrow> outputs_row batch" where
  "insertOutputs pubs = (if totalOutputs pubs = 0 then Inr None
     else Inr (Some (tx_facts (\<lambda>item t. map (output_row item) (tx_Outputs t)) pubs)))"

definition datum_body_row :: "publication \<Rightarrow> datum_body \<Rightarrow> datum_bodies_row" where
  "datum_body_row item d =
     \<lparr>d_publication_id = pb_PublicationID item, d_block_number = bk_Number (pb_Block item),
      d_datum_hash = bytes32 (db_Hash d), d_datum_cbor = db_CBOR d,
      d_byte_length = of_nat (length (db_CBOR d)), d_observed_at = bk_ObservedAt (pb_Block item)\<rparr>"

definition insertDatumBodies :: "publication list \<Rightarrow> datum_bodies_row batch" where
  "insertDatumBodies pubs =
     (if sum_list (map (\<lambda>item. length (bk_Datums (pb_Block item))) pubs) = 0 then Inr None
      else Inr (Some (concat (map (\<lambda>item. map (datum_body_row item) (bk_Datums (pb_Block item))) pubs))))"

definition datum_observation_row :: "publication \<Rightarrow> datum_observation \<Rightarrow> datum_observations_row" where
  "datum_observation_row item ob =
     \<lparr>x_publication_id = pb_PublicationID item, x_block_number = bk_Number (pb_Block item),
      x_datum_hash = bytes32 (do_Hash ob), x_tx_hash = bytes32 (do_TransactionHash ob),
      x_tx_order = do_TransactionOrder ob, x_source_kind = do_SourceKind ob,
      x_source_ordinal = do_SourceOrdinal ob, x_output_index = do_OutputIndex ob\<rparr>"

definition insertDatumObservations :: "publication list \<Rightarrow> datum_observations_row batch" where
  "insertDatumObservations pubs = (if totalDatumObservations pubs = 0 then Inr None
     else Inr (Some (tx_facts (\<lambda>item t. map (datum_observation_row item) (tx_DatumObservations t)) pubs)))"

definition withdrawal_row :: "publication \<Rightarrow> withdrawal \<Rightarrow> withdrawals_row" where
  "withdrawal_row item w =
     \<lparr>w_publication_id = pb_PublicationID item, w_block_number = bk_Number (pb_Block item),
      w_tx_hash = bytes32 (wd_TransactionHash w), w_tx_order = wd_TransactionOrder w,
      w_body_ordinal = wd_BodyOrdinal w, w_reward_account = wd_RewardAccount w,
      w_lovelace = wd_Lovelace w, w_is_applied = wd_Applied w,
      w_credential_kind = wd_CredentialKind w,
      w_credential_hash = map_option bytes28 (wd_CredentialHash w)\<rparr>"

definition insertWithdrawals :: "publication list \<Rightarrow> withdrawals_row batch" where
  "insertWithdrawals pubs = (if totalWithdrawals pubs = 0 then Inr None
     else Inr (Some (tx_facts (\<lambda>item t. map (withdrawal_row item) (tx_Withdrawals t)) pubs)))"

definition redeemer_row :: "publication \<Rightarrow> redeemer \<Rightarrow> redeemers_row" where
  "redeemer_row item r =
     \<lparr>r_publication_id = pb_PublicationID item, r_block_number = bk_Number (pb_Block item),
      r_tx_hash = bytes32 (rd_TransactionHash r), r_tx_order = rd_TransactionOrder r,
      r_raw_purpose_tag = rd_RawPurposeTag r, r_purpose = rd_Purpose r,
      r_redeemer_index = rd_Index r, r_data_cbor = rd_DataCBOR r,
      r_data_byte_length = of_nat (length (rd_DataCBOR r)), r_data_hash = bytes32 (rd_DataHash r),
      r_ex_units_memory = rd_ExUnitsMemory r, r_ex_units_steps = rd_ExUnitsSteps r,
      r_is_applied = rd_Applied r, r_target_tx_hash = map_option bytes32 (rd_TargetTxHash r),
      r_target_output_index = rd_TargetOutputIndex r,
      r_target_policy_id = map_option bytes28 (rd_TargetPolicyID r),
      r_target_reward_account = rd_TargetRewardAccount r,
      r_target_body_ordinal = rd_TargetBodyOrdinal r, r_target_identity = rd_TargetIdentity r,
      r_resolved_script_hash = map_option bytes28 (rd_ResolvedScriptHash r)\<rparr>"

definition insertRedeemers :: "publication list \<Rightarrow> redeemers_row batch" where
  "insertRedeemers pubs = (if totalRedeemers pubs = 0 then Inr None
     else Inr (Some (tx_facts (\<lambda>item t. map (redeemer_row item) (tx_Redeemers t)) pubs)))"

definition metadata_row_of :: "publication \<Rightarrow> metadata \<Rightarrow> metadata_row" where
  "metadata_row_of item m =
     \<lparr>m_publication_id = pb_PublicationID item, m_block_number = bk_Number (pb_Block item),
      m_tx_hash = bytes32 (md_TransactionHash m), m_tx_order = md_TransactionOrder m,
      m_labels = md_Labels m, m_metadata_cbor = md_CBOR m,
      m_byte_length = of_nat (length (md_CBOR m)), m_content_hash = bytes32 (md_ContentHash m)\<rparr>"

definition insertMetadata :: "publication list \<Rightarrow> metadata_row batch" where
  "insertMetadata pubs = (if totalMetadata pubs = 0 then Inr None
     else Inr (Some (tx_facts (\<lambda>item t. case tx_Metadata t of None \<Rightarrow> []
                                | Some m \<Rightarrow> [metadata_row_of item m]) pubs)))"

end
