(* ===== verification/Database.thy ===== *)
theory Database
  imports Inserts
begin

text \<open>
  The ClickHouse side of the store: the tables of \<^verbatim>\<open>migrations/001_initial.sql\<close> the store
  writes, the SQL texts of \<^verbatim>\<open>allocator.go\<close>, \<^verbatim>\<open>publication.go\<close>,
  \<^verbatim>\<open>recovery.go\<close> and \<^verbatim>\<open>rollback.go\<close> as functions of the table contents, and
  what a call to the server may do. The server itself is not modelled: each call takes its outcome
  as an argument. An acknowledged insert made all its rows durable; a failed one made some of them
  durable, and the caller is not told which; a query fails, or delivers a prefix of its rows and
  then an error, or delivers them all.
\<close>

section \<open>Tables\<close>

datatype membership_kind = Adoption | Invalidation

record chain_event =
  ce_event_seq :: u64
  ce_publication_id :: u64
  ce_event_kind :: membership_kind
  ce_active :: bool
  ce_rollback_id :: "uuid option"
  ce_block_hash :: bytes
  ce_slot :: u64
  ce_block_number :: u64
  ce_is_byron_ebb :: bool
  ce_writer_id :: uuid
  ce_recorded_at :: time

record rollback_row =
  rb_rollback_id :: uuid
  rb_event_seq :: u64
  rb_to_origin :: bool
  rb_to_slot :: "u64 option"
  rb_to_hash :: "bytes option"
  rb_to_block_number :: "u64 option"
  rb_to_is_byron_ebb :: bool
  rb_old_tip_slot :: "u64 option"
  rb_old_tip_hash :: "bytes option"
  rb_old_tip_block_number :: "u64 option"
  rb_old_tip_is_byron_ebb :: bool
  rb_old_tip_event_seq :: u64
  rb_depth :: u32
  rb_relay_hosts :: "string list"
  rb_relay_addresses :: "string list"
  rb_relay_operators :: "string list"
  rb_reason :: string
  rb_writer_id :: uuid
  rb_recorded_at :: time

record dataset_row =
  dt_dataset_id :: uuid
  dt_schema_hash :: bytes
  dt_network_magic :: u32
  dt_network_name :: string
  dt_start_origin :: bool
  dt_start_slot :: "u64 option"
  dt_start_hash :: "bytes option"
  dt_start_block_number :: "u64 option"
  dt_start_is_byron_ebb :: bool
  dt_created_at :: time
  dt_source_build :: string

record fact_tables =
  tb_blocks :: "blocks_row list"
  tb_transactions :: "transactions_row list"
  tb_inputs :: "inputs_row list"
  tb_outputs :: "outputs_row list"
  tb_datum_bodies :: "datum_bodies_row list"
  tb_datum_observations :: "datum_observations_row list"
  tb_withdrawals :: "withdrawals_row list"
  tb_redeemers :: "redeemers_row list"
  tb_metadata :: "metadata_row list"

record database =
  db_dataset :: "dataset_row list"
  db_facts :: fact_tables
  db_chain_events :: "chain_event list"
  db_rollbacks :: "rollback_row list"

definition empty_tables :: fact_tables where
  "empty_tables = \<lparr>tb_blocks = [], tb_transactions = [], tb_inputs = [], tb_outputs = [],
     tb_datum_bodies = [], tb_datum_observations = [], tb_withdrawals = [], tb_redeemers = [],
     tb_metadata = []\<rparr>"

definition empty_database :: database where
  "empty_database = \<lparr>db_dataset = [], db_facts = empty_tables, db_chain_events = [],
     db_rollbacks = []\<rparr>"

section \<open>Outcomes of server calls\<close>

datatype insert_outcome =
    PrepareFails
  | AppendFails
  | SendFails "bool list"
  | SendOk

text \<open>The rows a batch made durable; the mask of a failed send says which.\<close>

fun durable_rows :: "insert_outcome \<Rightarrow> 'row list \<Rightarrow> 'row list" where
  "durable_rows PrepareFails rows = []"
| "durable_rows AppendFails rows = []"
| "durable_rows (SendFails durable) rows = map fst (filter snd (zip rows durable))"
| "durable_rows SendOk rows = rows"

datatype query_outcome =
    QueryOk
  | QueryFails
  | CutAfter nat

text \<open>The rows a query delivers, and whether an error follows them.\<close>

fun query_rows :: "query_outcome \<Rightarrow> 'row list \<Rightarrow> store_error + 'row list \<times> bool" where
  "query_rows QueryOk rows = Inr (rows, False)"
| "query_rows QueryFails rows = Inl ErrQuery"
| "query_rows (CutAfter n) rows = Inr (take n rows, True)"

lemma durable_rows_subset: "set (durable_rows oc rows) \<subseteq> set rows"
  by (cases oc) (auto dest: set_zip_leftD)

lemma durable_rows_distinct: "distinct rows \<Longrightarrow> distinct (durable_rows oc rows)"
  by (cases oc) (auto simp: map_fst_zip_take intro!: distinct_map_filter)

lemma length_durable_rows: "length (durable_rows oc rows) \<le> length rows"
proof (cases oc)
  case (SendFails durable)
  have "length (filter snd (zip rows durable)) \<le> length (zip rows durable)" by (rule length_filter_le)
  with SendFails show ?thesis by simp
qed simp_all

section \<open>SQL texts\<close>

text \<open>\<^verbatim>\<open>max\<close> over an empty set of \<^verbatim>\<open>UInt64\<close> is 0 in ClickHouse.\<close>

definition max_u64 :: "u64 list \<Rightarrow> u64" where
  "max_u64 xs = fold max xs 0"

text \<open>The ten publication columns whose maxima \<^verbatim>\<open>publicationHighWaterSQL\<close> combines.\<close>

definition publication_columns :: "database \<Rightarrow> u64 list list" where
  "publication_columns db = (let f = db_facts db in
     [map b_publication_id (tb_blocks f), map t_publication_id (tb_transactions f),
      map i_publication_id (tb_inputs f), map o_publication_id (tb_outputs f),
      map d_publication_id (tb_datum_bodies f), map x_publication_id (tb_datum_observations f),
      map w_publication_id (tb_withdrawals f), map r_publication_id (tb_redeemers f),
      map m_publication_id (tb_metadata f), map ce_publication_id (db_chain_events db)])"

definition publicationHighWaterSQL :: "database \<Rightarrow> u64" where
  "publicationHighWaterSQL db = max_u64 (map max_u64 (publication_columns db))"

definition eventHighWaterSQL :: "database \<Rightarrow> u64" where
  "eventHighWaterSQL db =
     max_u64 (map max_u64 [map ce_event_seq (db_chain_events db), map rb_event_seq (db_rollbacks db)])"

definition adoptions :: "database \<Rightarrow> chain_event list" where
  "adoptions db = filter (\<lambda>r. ce_event_kind r = Adoption) (db_chain_events db)"

definition latestAdoptionSQL :: "database \<Rightarrow> chain_event list" where
  "latestAdoptionSQL db =
     take 2 (sort_key (\<lambda>r. (max_uint64 - ce_event_seq r, ce_publication_id r)) (adoptions db))"

definition latestRollbackSQL :: "database \<Rightarrow> rollback_row list" where
  "latestRollbackSQL db =
     take 2 (sort_key (\<lambda>r. (max_uint64 - rb_event_seq r, rb_rollback_id r)) (db_rollbacks db))"

text \<open>
  The membership rows of \<^verbatim>\<open>canonicalWindowSQL\<close>: adoptions up to the snapshot, and the
  invalidations up to the snapshot that join a rollback header on identifier and event.
\<close>

definition header_matches :: "rollback_row \<Rightarrow> chain_event \<Rightarrow> bool" where
  "header_matches rb ce \<longleftrightarrow> Some (rb_rollback_id rb) = ce_rollback_id ce \<and> rb_event_seq rb = ce_event_seq ce"

definition membership :: "database \<Rightarrow> u64 \<Rightarrow> chain_event list" where
  "membership db snapshot =
     filter (\<lambda>r. ce_event_seq r \<le> snapshot) (adoptions db) @
     concat (map (\<lambda>ce. map (\<lambda>rb. ce) (filter (\<lambda>rb. header_matches rb ce) (db_rollbacks db)))
       (filter (\<lambda>r. ce_event_kind r = Invalidation \<and> ce_event_seq r \<le> snapshot) (db_chain_events db)))"

text \<open>
  \<^verbatim>\<open>argMax(..., event_seq)\<close> over the rows of one publication: a row with the largest event
  sequence (the first such row; ClickHouse leaves the choice open).
\<close>

fun arg_max_seq :: "chain_event \<Rightarrow> chain_event list \<Rightarrow> chain_event" where
  "arg_max_seq best [] = best"
| "arg_max_seq best (r # rs) = arg_max_seq (if ce_event_seq best < ce_event_seq r then r else best) rs"

definition latest_membership :: "chain_event list \<Rightarrow> u64 \<Rightarrow> chain_event option" where
  "latest_membership rows pub =
     (case filter (\<lambda>r. ce_publication_id r = pub) rows of [] \<Rightarrow> None | r # rs \<Rightarrow> Some (arg_max_seq r rs))"

definition active_membership :: "database \<Rightarrow> u64 \<Rightarrow> chain_event list" where
  "active_membership db snapshot =
     (let rows = membership db snapshot in
      filter ce_active (map (\<lambda>p. the (latest_membership rows p)) (remdups (map ce_publication_id rows))))"

definition canonicalWindowSQL :: "database \<Rightarrow> u64 \<Rightarrow> nat \<Rightarrow> chain_event list" where
  "canonicalWindowSQL db snapshot limit =
     take limit (sort_key (\<lambda>r. (max_uint64 - ce_event_seq r, ce_publication_id r))
       (active_membership db snapshot))"

definition kind_rank :: "membership_kind \<Rightarrow> nat" where
  "kind_rank k = (case k of Adoption \<Rightarrow> 1 | Invalidation \<Rightarrow> 2)"

definition adoptionReadbackSQL :: "database \<Rightarrow> u64 \<Rightarrow> u64 \<Rightarrow> chain_event list" where
  "adoptionReadbackSQL db firstEvent lastEvent =
     sort_key (\<lambda>r. (ce_event_seq r, kind_rank (ce_event_kind r), ce_publication_id r))
       (filter (\<lambda>r. firstEvent \<le> ce_event_seq r \<and> ce_event_seq r \<le> lastEvent) (db_chain_events db))"

definition invalidationReadbackSQL :: "database \<Rightarrow> u64 \<Rightarrow> chain_event list" where
  "invalidationReadbackSQL db seq =
     sort_key ce_publication_id
       (filter (\<lambda>r. ce_event_seq r = seq \<and> ce_event_kind r = Invalidation) (db_chain_events db))"

definition rollbackReadbackSQL :: "database \<Rightarrow> u64 \<Rightarrow> rollback_row list" where
  "rollbackReadbackSQL db seq =
     sort_key rb_rollback_id (filter (\<lambda>r. rb_event_seq r = seq) (db_rollbacks db))"

section \<open>Allocation above the raw high-water marks\<close>

definition loadAllocator :: "query_outcome \<Rightarrow> query_outcome \<Rightarrow> database \<Rightarrow> store_error + allocator" where
  "loadAllocator q1 q2 db =
     (if q1 \<noteq> QueryOk then Inl ErrQuery
      else if q2 \<noteq> QueryOk then Inl ErrQuery
      else case newAllocator (publicationHighWaterSQL db) (eventHighWaterSQL db) of
          Inl e \<Rightarrow> Inl (ErrAllocator e)
        | Inr a \<Rightarrow> Inr a)"

lemma max_u64_ge: "x \<in> set xs \<Longrightarrow> x \<le> max_u64 xs"
proof -
  have mono: "a \<le> fold max ys a" for ys and a :: u64
    by (induction ys arbitrary: a) (auto intro: order_trans [OF max.cobounded2])
  have "x \<in> set ys \<Longrightarrow> x \<le> fold max ys a" for ys a
    by (induction ys arbitrary: a) (auto intro: order_trans [OF max.cobounded1 mono])
  then show "x \<in> set xs \<Longrightarrow> x \<le> max_u64 xs" by (simp add: max_u64_def)
qed

lemma max_u64_nested: "x \<in> set (concat xss) \<Longrightarrow> x \<le> max_u64 (map max_u64 xss)"
proof -
  assume "x \<in> set (concat xss)"
  then obtain xs where "x \<in> set xs" and "xs \<in> set xss" by auto
  then have "x \<le> max_u64 xs" and "max_u64 xs \<le> max_u64 (map max_u64 xss)"
    by (auto intro: max_u64_ge)
  then show ?thesis by (rule order_trans)
qed

text \<open>Every publication identifier that occurs in any table, and every event sequence.\<close>

definition publication_ids :: "database \<Rightarrow> u64 set" where
  "publication_ids db = set (concat (publication_columns db))"

definition event_seqs :: "database \<Rightarrow> u64 set" where
  "event_seqs db = ce_event_seq ` set (db_chain_events db) \<union> rb_event_seq ` set (db_rollbacks db)"

lemma publication_high_water: "x \<in> publication_ids db \<Longrightarrow> x \<le> publicationHighWaterSQL db"
  unfolding publication_ids_def publicationHighWaterSQL_def by (rule max_u64_nested)

lemma event_high_water: "x \<in> event_seqs db \<Longrightarrow> x \<le> eventHighWaterSQL db"
  unfolding eventHighWaterSQL_def by (rule max_u64_nested) (auto simp: event_seqs_def)

definition allocator_fresh :: "allocator \<Rightarrow> database \<Rightarrow> bool" where
  "allocator_fresh a db \<longleftrightarrow>
     (\<forall>p \<in> publication_ids db. unat p < publication_bound a) \<and>
     (\<forall>s \<in> event_seqs db. unat s < event_bound a)"

lemma loadAllocator_fresh: "loadAllocator q1 q2 db = Inr a \<Longrightarrow> allocator_fresh a db"
  using newAllocator_bounds [of "publicationHighWaterSQL db" "eventHighWaterSQL db" a]
    publication_high_water [of _ db] event_high_water [of _ db]
  by (auto simp: loadAllocator_def allocator_fresh_def word_le_nat_alt less_Suc_eq_le
      split: if_splits sum.splits)

end
