(* ===== verification/Recovery.thy ===== *)
theory Recovery
  imports Database
begin

text \<open>
  \<^verbatim>\<open>internal/store/recovery.go\<close>: reconstruction of the durable state (snapshot, tip, canonical
  window, intersection candidates) from the committed rows. Every query takes the outcome of its
  server call.
\<close>

section \<open>The latest committed action\<close>

datatype action_kind = NoAction | AdoptionAction | RollbackAction

record latest_action =
  la_found :: bool
  la_eventSeq :: u64
  la_publication :: u64
  la_point :: point
  la_kind :: action_kind

definition no_action :: latest_action where
  "no_action = \<lparr>la_found = False, la_eventSeq = 0, la_publication = 0,
     la_point = \<lparr>pt_Origin = False, pt_Slot = 0, pt_Hash = zero32, pt_BlockNumber = 0, pt_IsByronEBB = False\<rparr>,
     la_kind = NoAction\<rparr>"

text \<open>Scanning one row of \<^verbatim>\<open>latestAdoptionSQL\<close>, with its identity check.\<close>

definition scan_adoption :: "chain_event \<Rightarrow> store_error + latest_action" where
  "scan_adoption r =
     bindE (hash32_of (ce_block_hash r)) (\<lambda>hash.
       let action = \<lparr>la_found = True, la_eventSeq = ce_event_seq r, la_publication = ce_publication_id r,
             la_point = \<lparr>pt_Origin = False, pt_Slot = ce_slot r, pt_Hash = hash,
               pt_BlockNumber = ce_block_number r, pt_IsByronEBB = ce_is_byron_ebb r\<rparr>,
             la_kind = AdoptionAction\<rparr>
       in if \<not> validPoint (la_point action) \<or> la_eventSeq action = 0 \<or> la_publication action = 0
          then Inl ErrCommitConflict else Inr action)"

definition scan_rollback :: "rollback_row \<Rightarrow> store_error + latest_action" where
  "scan_rollback r =
     bindE (scanPoint (rb_to_origin r) (rb_to_slot r) (scan_bytes (rb_to_hash r))
         (rb_to_block_number r) (rb_to_is_byron_ebb r)) (\<lambda>p.
       if rb_event_seq r = 0 then Inl ErrCommitConflict
       else Inr \<lparr>la_found = True, la_eventSeq = rb_event_seq r, la_publication = 0, la_point = p,
              la_kind = RollbackAction\<rparr>)"

text \<open>
  The loop shared by \<^verbatim>\<open>latestAdoption\<close> and \<^verbatim>\<open>latestRollback\<close>: the first row is kept,
  a second one with the same event sequence is a conflict, any other second row ends the loop.
\<close>

fun latest_rows :: "('row \<Rightarrow> store_error + latest_action) \<Rightarrow> 'row list \<Rightarrow> latest_action \<Rightarrow>
    store_error + latest_action" where
  "latest_rows scan [] latest = Inr latest"
| "latest_rows scan (r # rs) latest =
     bindE (scan r) (\<lambda>action.
       if \<not> la_found latest then latest_rows scan rs action
       else if la_eventSeq action = la_eventSeq latest then Inl ErrCommitConflict
       else Inr latest)"

definition read_latest :: "('row \<Rightarrow> store_error + latest_action) \<Rightarrow> query_outcome \<Rightarrow> 'row list \<Rightarrow>
    store_error + latest_action" where
  "read_latest scan q rows =
     bindE (query_rows q rows) (\<lambda>(delivered, failed).
       bindE (latest_rows scan delivered no_action) (\<lambda>latest.
         if failed then Inl ErrQuery else Inr latest))"

definition latestAdoption :: "query_outcome \<Rightarrow> database \<Rightarrow> store_error + latest_action" where
  "latestAdoption q db = read_latest scan_adoption q (latestAdoptionSQL db)"

definition latestRollback :: "query_outcome \<Rightarrow> database \<Rightarrow> store_error + latest_action" where
  "latestRollback q db = read_latest scan_rollback q (latestRollbackSQL db)"

definition latestCommittedAction :: "query_outcome \<Rightarrow> query_outcome \<Rightarrow> database \<Rightarrow>
    store_error + latest_action" where
  "latestCommittedAction q1 q2 db =
     bindE (latestAdoption q1 db) (\<lambda>adoption.
     bindE (latestRollback q2 db) (\<lambda>rollback.
       if la_found adoption \<and> la_found rollback \<and> la_eventSeq adoption = la_eventSeq rollback
       then Inl ErrCommitConflict
       else if la_found rollback \<and> (\<not> la_found adoption \<or> la_eventSeq rollback > la_eventSeq adoption)
       then Inr rollback
       else Inr adoption))"

section \<open>The canonical window\<close>

definition scan_window_row :: "u64 \<Rightarrow> chain_event \<Rightarrow> store_error + canonical_block" where
  "scan_window_row snapshot r =
     bindE (hash32_of (ce_block_hash r)) (\<lambda>hash.
       let b = \<lparr>cb_PublicationID = ce_publication_id r, cb_EventSeq = ce_event_seq r,
             cb_Point = \<lparr>pt_Origin = False, pt_Slot = ce_slot r, pt_Hash = hash,
               pt_BlockNumber = ce_block_number r, pt_IsByronEBB = ce_is_byron_ebb r\<rparr>\<rparr>
       in if cb_PublicationID b = 0 \<or> cb_EventSeq b = 0 \<or> cb_EventSeq b > snapshot \<or>
             \<not> validPoint (cb_Point b)
          then Inl ErrCommitConflict else Inr b)"

text \<open>The loop of \<^verbatim>\<open>loadCanonicalWindow\<close>; \<open>window\<close> is what was appended so far.\<close>

fun window_rows :: "u64 \<Rightarrow> chain_event list \<Rightarrow> canonical_block list \<Rightarrow> store_error + canonical_block list" where
  "window_rows snapshot [] window = Inr window"
| "window_rows snapshot (r # rs) window =
     bindE (scan_window_row snapshot r) (\<lambda>b.
       if cb_PublicationID b \<in> cb_PublicationID ` set window then Inl ErrCommitConflict
       else if window \<noteq> [] \<and> cb_EventSeq b \<ge> cb_EventSeq (last window) then Inl ErrCommitConflict
       else window_rows snapshot rs (window @ [b]))"

definition loadCanonicalWindow :: "query_outcome \<Rightarrow> database \<Rightarrow> u64 \<Rightarrow> nat \<Rightarrow>
    store_error + canonical_block list" where
  "loadCanonicalWindow q db snapshot limit =
     (if snapshot = 0 then Inr []
      else bindE (query_rows q (canonicalWindowSQL db snapshot limit)) (\<lambda>(delivered, failed).
        bindE (window_rows snapshot delivered []) (\<lambda>window.
          if failed then Inl ErrQuery else Inr window)))"

section \<open>State\<close>

definition validateRecoveredState :: "store_state \<Rightarrow> store_error + unit" where
  "validateRecoveredState state =
     (if st_Snapshot state = 0 then
        (if length (st_Canonical state) \<noteq> 0 \<or> st_Tip state \<noteq> di_Start (st_Dataset state)
         then Inl ErrCommitConflict else Inr ())
      else if length (st_Canonical state) = 0 then
        (if st_Tip state \<noteq> di_Start (st_Dataset state) then Inl ErrCommitConflict else Inr ())
      else if cb_Point (st_Canonical state ! 0) \<noteq> st_Tip state then Inl ErrCommitConflict
      else Inr ())"

text \<open>
  \<^verbatim>\<open>intersectionCandidates\<close>: the first 32 canonical points, then the points at distance 64, 128,
  \dots\ (at most 32 of them), the tip when nothing was collected and it is not the start, the last
  point of the window and the dataset start; repeated points are skipped.
\<close>

definition appendPoint :: "point \<Rightarrow> point list \<Rightarrow> point list" where
  "appendPoint p candidates = (if p \<in> set candidates then candidates else candidates @ [p])"

function geometric_loop :: "canonical_block list \<Rightarrow> nat \<Rightarrow> nat \<Rightarrow> point list \<Rightarrow> point list" where
  "geometric_loop canonical distance sample candidates =
     (if distance \<le> length canonical \<and> sample < 32 then
        geometric_loop canonical (distance * 2) (Suc sample)
          (appendPoint (cb_Point (canonical ! (distance - 1))) candidates)
      else candidates)"
  by pat_completeness auto
termination
  by (relation "measure (\<lambda>(c, d, s, ps). 32 - s)") auto

declare geometric_loop.simps [simp del]

definition intersectionCandidates :: "store_state \<Rightarrow> point list" where
  "intersectionCandidates state =
     (let canonical = st_Canonical state;
          dense = fold (\<lambda>b candidates. appendPoint (cb_Point b) candidates) (take 32 canonical) [];
          sampled = geometric_loop canonical 64 0 dense;
          withTip = (if length sampled = 0 \<and> st_Tip state \<noteq> di_Start (st_Dataset state)
                     then appendPoint (st_Tip state) sampled else sampled);
          boundary = (if length canonical > 0 then appendPoint (cb_Point (last canonical)) withTip
                      else withTip)
      in appendPoint (di_Start (st_Dataset state)) boundary)"

record state_queries =
  sq_adoption :: query_outcome
  sq_rollback :: query_outcome
  sq_window :: query_outcome

definition stateForIdentity :: "state_queries \<Rightarrow> database \<Rightarrow> dataset_identity \<Rightarrow> u32 \<Rightarrow>
    store_error + store_state" where
  "stateForIdentity q db identity maximumDepth =
     bindE (latestCommittedAction (sq_adoption q) (sq_rollback q) db) (\<lambda>action.
       let snapshot = (if la_found action then la_eventSeq action else 0);
           tip = (if la_found action then la_point action else di_Start identity)
       in bindE (loadCanonicalWindow (sq_window q) db snapshot (unat maximumDepth + 1)) (\<lambda>window.
         let state = \<lparr>st_Dataset = identity, st_Snapshot = snapshot, st_Tip = tip,
               st_Canonical = window, st_Intersections = []\<rparr>
         in bindE (validateRecoveredState state) (\<lambda>_.
           Inr (state\<lparr>st_Intersections := intersectionCandidates state\<rparr>))))"

text \<open>The handle: the connection's durable tables are separate, this is the process-local part.\<close>

record store_handle =
  sh_writerID :: uuid
  sh_ebbType :: int
  sh_schemaHash :: hash32
  sh_identity :: "dataset_identity option"
  sh_allocator :: "allocator option"

definition initializedIdentity :: "store_handle \<Rightarrow> store_error + dataset_identity" where
  "initializedIdentity h =
     (case (sh_identity h, sh_allocator h) of
        (Some i, Some a) \<Rightarrow> Inr i
      | _ \<Rightarrow> Inl ErrNotInitialized)"

definition State :: "state_queries \<Rightarrow> store_handle \<Rightarrow> database \<Rightarrow> u32 \<Rightarrow> store_error + store_state" where
  "State q h db maximumDepth =
     (if maximumDepth = 0 then Inl ErrZeroDepth
      else bindE (initializedIdentity h) (\<lambda>identity. stateForIdentity q db identity maximumDepth))"

definition CommittedSnapshot :: "query_outcome \<Rightarrow> query_outcome \<Rightarrow> store_handle \<Rightarrow> database \<Rightarrow>
    store_error + u64" where
  "CommittedSnapshot q1 q2 h db =
     bindE (initializedIdentity h) (\<lambda>_.
     bindE (latestCommittedAction q1 q2 db) (\<lambda>action.
       if \<not> la_found action then Inr 0 else Inr (la_eventSeq action)))"

definition CurrentTip :: "query_outcome \<Rightarrow> query_outcome \<Rightarrow> store_handle \<Rightarrow> database \<Rightarrow>
    store_error + point" where
  "CurrentTip q1 q2 h db =
     bindE (initializedIdentity h) (\<lambda>identity.
     bindE (latestCommittedAction q1 q2 db) (\<lambda>action.
       if \<not> la_found action then Inr (di_Start identity) else Inr (la_point action)))"

definition Intersections :: "state_queries \<Rightarrow> store_handle \<Rightarrow> database \<Rightarrow> u32 \<Rightarrow>
    store_error + point list" where
  "Intersections q h db maximumDepth =
     bindE (State q h db maximumDepth) (\<lambda>state. Inr (st_Intersections state))"

end
