(* ===== verification/Chain.thy ===== *)
theory Chain
  imports Recovery
begin

text \<open>
  The abstract content of the store: the committed chain, newest block first. \<open>store_inv\<close> relates
  the tables, the allocator and that chain; this theory proves that recovery reads exactly the chain
  back. Publication and rollback preserve the invariant in their own theories.
\<close>

section \<open>Newest-first ordering\<close>

lemma word_sub_max_le: "max_uint64 - a \<le> max_uint64 - b \<longleftrightarrow> b \<le> (a :: u64)"
proof -
  have "unat a \<le> 2 ^ 64 - 1" "unat b \<le> 2 ^ 64 - 1"
    using unat_u64_less [of a] unat_u64_less [of b] by simp_all
  then show ?thesis
    unfolding word_le_nat_alt unat_max_minus by linarith
qed

lemma sorted_newest_first:
  fixes seq :: "'a \<Rightarrow> u64" and ident :: "'a \<Rightarrow> 'k :: linorder"
  assumes "distinct (map seq xs)"
  shows "sorted_wrt (\<lambda>a b. seq b < seq a) (sort_key (\<lambda>r. (max_uint64 - seq r, ident r)) xs)"
    (is "sorted_wrt _ ?ys")
proof -
  have d: "distinct (map seq ?ys)"
    using assms by (simp add: distinct_map)
  have s: "sorted_wrt (\<lambda>a b. (max_uint64 - seq a, ident a) \<le> (max_uint64 - seq b, ident b)) ?ys"
    using sorted_sort_key [of "\<lambda>r. (max_uint64 - seq r, ident r)" xs] by (simp add: sorted_map)
  have neq: "sorted_wrt (\<lambda>a b. seq a \<noteq> seq b) ?ys"
    using d by (simp add: distinct_conv_nth sorted_wrt_iff_nth_less)
  show ?thesis
    unfolding sorted_wrt_iff_nth_less
  proof (intro allI impI)
    fix i j
    assume ij: "i < j" "j < length ?ys"
    have "(max_uint64 - seq (?ys ! i), ident (?ys ! i)) \<le> (max_uint64 - seq (?ys ! j), ident (?ys ! j))"
      using s ij unfolding sorted_wrt_iff_nth_less by blast
    then have "max_uint64 - seq (?ys ! i) \<le> max_uint64 - seq (?ys ! j)"
      by (auto simp: less_eq_prod_def)
    then have "seq (?ys ! j) \<le> seq (?ys ! i)" by (simp only: word_sub_max_le)
    moreover have "seq (?ys ! i) \<noteq> seq (?ys ! j)"
      using neq ij unfolding sorted_wrt_iff_nth_less by blast
    ultimately show "seq (?ys ! j) < seq (?ys ! i)" by simp
  qed
qed

section \<open>The invariant\<close>

definition row_point :: "chain_event \<Rightarrow> point" where
  "row_point r = \<lparr>pt_Origin = False, pt_Slot = ce_slot r, pt_Hash = make32 (ce_block_hash r),
     pt_BlockNumber = ce_block_number r, pt_IsByronEBB = ce_is_byron_ebb r\<rparr>"

definition row_block :: "chain_event \<Rightarrow> canonical_block" where
  "row_block r = \<lparr>cb_PublicationID = ce_publication_id r, cb_EventSeq = ce_event_seq r,
     cb_Point = row_point r\<rparr>"

definition wf_adoption :: "chain_event \<Rightarrow> bool" where
  "wf_adoption r \<longleftrightarrow> ce_event_seq r \<noteq> 0 \<and> ce_publication_id r \<noteq> 0 \<and> ce_active r \<and>
     length (ce_block_hash r) = 32 \<and> validPoint (row_point r)"

definition committed_invalidation :: "database \<Rightarrow> chain_event \<Rightarrow> bool" where
  "committed_invalidation db ce \<longleftrightarrow> ce \<in> set (db_chain_events db) \<and> ce_event_kind ce = Invalidation \<and>
     (\<exists>rb \<in> set (db_rollbacks db). header_matches rb ce)"

definition invalidated :: "database \<Rightarrow> u64 \<Rightarrow> bool" where
  "invalidated db pub \<longleftrightarrow> (\<exists>ce. committed_invalidation db ce \<and> ce_publication_id ce = pub)"

definition header_target :: "rollback_row \<Rightarrow> store_error + point" where
  "header_target r = scanPoint (rb_to_origin r) (rb_to_slot r) (scan_bytes (rb_to_hash r))
     (rb_to_block_number r) (rb_to_is_byron_ebb r)"

definition chain_tip :: "point \<Rightarrow> canonical_block list \<Rightarrow> point" where
  "chain_tip start chain = (case chain of [] \<Rightarrow> start | b # _ \<Rightarrow> cb_Point b)"

definition wf_rollback :: "rollback_row \<Rightarrow> bool" where
  "wf_rollback r \<longleftrightarrow> rb_event_seq r \<noteq> 0 \<and> (\<exists>p. header_target r = Inr p)"

definition live_adoptions :: "database \<Rightarrow> chain_event list" where
  "live_adoptions db = filter (\<lambda>r. \<not> invalidated db (ce_publication_id r)) (adoptions db)"

definition newest_first :: "canonical_block list \<Rightarrow> bool" where
  "newest_first chain \<longleftrightarrow> sorted_wrt (\<lambda>a b. cb_EventSeq b < cb_EventSeq a) chain"

definition latest_header :: "database \<Rightarrow> rollback_row \<Rightarrow> bool" where
  "latest_header db rb \<longleftrightarrow> rb \<in> set (db_rollbacks db) \<and>
     (\<forall>r \<in> set (adoptions db). ce_event_seq r < rb_event_seq rb) \<and>
     (\<forall>r \<in> set (db_rollbacks db). rb_event_seq r \<le> rb_event_seq rb)"

definition rows_inv :: "database \<Rightarrow> bool" where
  "rows_inv db \<longleftrightarrow>
     (\<forall>r \<in> set (adoptions db). wf_adoption r) \<and>
     distinct (map ce_event_seq (adoptions db)) \<and> distinct (map ce_publication_id (adoptions db)) \<and>
     (\<forall>r \<in> set (db_rollbacks db). wf_rollback r) \<and> distinct (map rb_event_seq (db_rollbacks db)) \<and>
     (\<forall>r \<in> set (adoptions db). \<forall>rb \<in> set (db_rollbacks db). ce_event_seq r \<noteq> rb_event_seq rb) \<and>
     (\<forall>ce. committed_invalidation db ce \<longrightarrow> \<not> ce_active ce \<and>
        (\<forall>r \<in> set (adoptions db). ce_publication_id r = ce_publication_id ce \<longrightarrow>
           ce_event_seq r < ce_event_seq ce))"

definition chain_inv :: "point \<Rightarrow> database \<Rightarrow> canonical_block list \<Rightarrow> bool" where
  "chain_inv start db chain \<longleftrightarrow> rows_inv db \<and> validPoint start \<and>
     set chain = row_block ` set (live_adoptions db) \<and> newest_first chain \<and>
     (\<forall>rb. latest_header db rb \<longrightarrow> header_target rb = Inr (chain_tip start chain))"

definition store_inv :: "point \<Rightarrow> allocator \<Rightarrow> database \<Rightarrow> canonical_block list \<Rightarrow> bool" where
  "store_inv start a db chain \<longleftrightarrow> chain_inv start db chain \<and> allocator_fresh a db"

definition committed_snapshot :: "database \<Rightarrow> u64" where
  "committed_snapshot db = max_u64 (map ce_event_seq (adoptions db) @ map rb_event_seq (db_rollbacks db))"

section \<open>The canonical window is the chain\<close>

lemma arg_max_seq_in: "arg_max_seq best rs \<in> set (best # rs)"
  by (induction rs arbitrary: best) (auto split: if_splits)

lemma arg_max_seq_max: "r \<in> set (best # rs) \<Longrightarrow> ce_event_seq r \<le> ce_event_seq (arg_max_seq best rs)"
proof (induction rs arbitrary: best r)
  case (Cons x rs)
  let ?best = "if ce_event_seq best < ce_event_seq x then x else best"
  have "ce_event_seq ?best \<le> ce_event_seq (arg_max_seq ?best rs)"
    by (rule Cons.IH) simp
  moreover have "ce_event_seq best \<le> ce_event_seq ?best" "ce_event_seq x \<le> ce_event_seq ?best"
    by auto
  ultimately show ?case
    using Cons.prems Cons.IH [of r ?best] by (auto intro: order_trans)
qed simp

lemma latest_membership_Some:
  assumes "r \<in> set rows" and "ce_publication_id r = pub"
  shows "\<exists>l. latest_membership rows pub = Some l \<and> l \<in> set rows \<and> ce_publication_id l = pub \<and>
    (\<forall>x \<in> set rows. ce_publication_id x = pub \<longrightarrow> ce_event_seq x \<le> ce_event_seq l)"
proof -
  let ?f = "filter (\<lambda>r. ce_publication_id r = pub) rows"
  obtain x xs where f: "?f = x # xs"
    using assms by (cases ?f) (auto simp: filter_empty_conv)
  have set_f: "set (x # xs) = {r \<in> set rows. ce_publication_id r = pub}"
    unfolding f [symmetric] by (rule set_filter)
  have "arg_max_seq x xs \<in> {r \<in> set rows. ce_publication_id r = pub}"
    using arg_max_seq_in [of x xs] unfolding set_f .
  moreover have "ce_event_seq y \<le> ce_event_seq (arg_max_seq x xs)"
    if "y \<in> set rows" "ce_publication_id y = pub" for y
    using that by (intro arg_max_seq_max) (simp only: set_f mem_Collect_eq)
  moreover have "latest_membership rows pub = Some (arg_max_seq x xs)"
    by (simp only: latest_membership_def f list.case)
  ultimately show ?thesis by blast
qed

lemma set_membership:
  "set (membership db snapshot) =
     {r \<in> set (adoptions db). ce_event_seq r \<le> snapshot} \<union>
     {ce. committed_invalidation db ce \<and> ce_event_seq ce \<le> snapshot}"
  by (auto simp: membership_def committed_invalidation_def)

lemma committed_snapshot_ge:
  "r \<in> set (adoptions db) \<Longrightarrow> ce_event_seq r \<le> committed_snapshot db"
  "rb \<in> set (db_rollbacks db) \<Longrightarrow> rb_event_seq rb \<le> committed_snapshot db"
  by (auto simp: committed_snapshot_def intro: max_u64_ge)

lemma set_membership_snapshot:
  "set (membership db (committed_snapshot db)) =
     set (adoptions db) \<union> {ce. committed_invalidation db ce}"
  by (auto simp: set_membership committed_snapshot_ge committed_invalidation_def header_matches_def
      dest: committed_snapshot_ge(2))

lemma adoption_unique:
  assumes "rows_inv db" and "r \<in> set (adoptions db)" and "r' \<in> set (adoptions db)"
    and "ce_publication_id r = ce_publication_id r'"
  shows "r = r'"
  using assms by (auto simp: rows_inv_def distinct_map dest: inj_onD)

lemma adoption_not_invalidation: "r \<in> set (adoptions db) \<Longrightarrow> \<not> committed_invalidation db r"
  by (auto simp: adoptions_def committed_invalidation_def)

lemma latest_of_live:
  assumes inv: "rows_inv db" and r: "r \<in> set (live_adoptions db)"
  shows "latest_membership (membership db (committed_snapshot db)) (ce_publication_id r) = Some r"
proof -
  have a: "r \<in> set (adoptions db)" and live: "\<not> invalidated db (ce_publication_id r)"
    using r by (auto simp: live_adoptions_def)
  have "r \<in> set (membership db (committed_snapshot db))"
    using a by (simp add: set_membership_snapshot)
  from latest_membership_Some [OF this refl] obtain l where
    l: "latest_membership (membership db (committed_snapshot db)) (ce_publication_id r) = Some l"
      "l \<in> set (membership db (committed_snapshot db))" "ce_publication_id l = ce_publication_id r"
    by blast
  have "l \<in> set (adoptions db)"
    using l live by (auto simp: set_membership_snapshot invalidated_def)
  with adoption_unique [OF inv this a] l show ?thesis by simp
qed

lemma latest_active_is_live:
  assumes inv: "rows_inv db"
    and l: "latest_membership (membership db (committed_snapshot db)) pub = Some l" and "ce_active l"
    and ex: "\<exists>x \<in> set (membership db (committed_snapshot db)). ce_publication_id x = pub"
  shows "l \<in> set (live_adoptions db)"
proof -
  from ex latest_membership_Some [of _ "membership db (committed_snapshot db)" pub] l have
    lm: "l \<in> set (membership db (committed_snapshot db))" "ce_publication_id l = pub"
    and max: "\<And>x. x \<in> set (membership db (committed_snapshot db)) \<Longrightarrow> ce_publication_id x = pub \<Longrightarrow>
      ce_event_seq x \<le> ce_event_seq l"
    by auto
  have a: "l \<in> set (adoptions db)"
    using lm(1) inv \<open>ce_active l\<close> by (auto simp: set_membership_snapshot rows_inv_def)
  have "\<not> invalidated db pub"
  proof
    assume "invalidated db pub"
    then obtain ce where ce: "committed_invalidation db ce" "ce_publication_id ce = pub"
      by (auto simp: invalidated_def)
    then have "ce_event_seq ce \<le> ce_event_seq l"
      by (intro max) (simp_all add: set_membership_snapshot)
    moreover have "ce_event_seq l < ce_event_seq ce"
      using inv ce a lm(2) by (auto simp: rows_inv_def)
    ultimately show False by simp
  qed
  with a lm(2) show ?thesis by (simp add: live_adoptions_def)
qed

lemma set_active_membership:
  assumes inv: "rows_inv db"
  shows "set (active_membership db (committed_snapshot db)) = set (live_adoptions db)"
proof (intro equalityI subsetI)
  fix l
  assume "l \<in> set (active_membership db (committed_snapshot db))"
  then obtain p where act: "ce_active l"
    and p: "p \<in> ce_publication_id ` set (membership db (committed_snapshot db))"
    and l: "l = the (latest_membership (membership db (committed_snapshot db)) p)"
    by (auto simp: active_membership_def Let_def)
  from p have ex: "\<exists>x \<in> set (membership db (committed_snapshot db)). ce_publication_id x = p" by auto
  then obtain x where "x \<in> set (membership db (committed_snapshot db))" "ce_publication_id x = p" by auto
  from latest_membership_Some [OF this] l have
    "latest_membership (membership db (committed_snapshot db)) p = Some l" by auto
  from latest_active_is_live [OF inv this act ex] show "l \<in> set (live_adoptions db)" .
next
  fix l
  assume l: "l \<in> set (live_adoptions db)"
  then have a: "l \<in> set (adoptions db)" by (simp add: live_adoptions_def)
  then have "ce_active l" using inv by (auto simp: rows_inv_def wf_adoption_def)
  moreover have "ce_publication_id l \<in> ce_publication_id ` set (membership db (committed_snapshot db))"
    using a by (simp add: set_membership_snapshot)
  ultimately show "l \<in> set (active_membership db (committed_snapshot db))"
    using latest_of_live [OF inv l] by (auto simp: active_membership_def Let_def image_iff intro!: bexI)
qed

lemma distinct_active_membership:
  assumes inv: "rows_inv db"
  shows "distinct (map ce_event_seq (active_membership db (committed_snapshot db)))"
proof -
  let ?rows = "membership db (committed_snapshot db)"
  let ?latest = "\<lambda>p. the (latest_membership ?rows p)"
  have pub: "ce_publication_id (?latest p) = p" if p: "p \<in> ce_publication_id ` set ?rows" for p
  proof -
    from p obtain x where "x \<in> set ?rows" "ce_publication_id x = p" by auto
    from latest_membership_Some [OF this] show ?thesis by auto
  qed
  have "inj_on ?latest (set (remdups (map ce_publication_id ?rows)))"
    using pub by (auto intro!: inj_onI) (metis image_eqI pub)
  then have d: "distinct (active_membership db (committed_snapshot db))"
    by (simp add: active_membership_def Let_def distinct_map)
  have "inj_on ce_event_seq (set (live_adoptions db))"
    using inv by (auto simp: rows_inv_def live_adoptions_def distinct_map intro: inj_on_subset)
  with d show ?thesis
    by (simp add: distinct_map set_active_membership [OF inv])
qed

lemma window_is_chain:
  assumes "chain_inv start db chain"
  shows "map row_block (canonicalWindowSQL db (committed_snapshot db) limit) = take limit chain"
proof -
  let ?key = "\<lambda>r. (max_uint64 - ce_event_seq r, ce_publication_id r)"
  let ?ys = "sort_key ?key (active_membership db (committed_snapshot db))"
  have inv: "rows_inv db" using assms by (simp add: chain_inv_def)
  have sorted: "sorted_wrt (\<lambda>a b. cb_EventSeq b < cb_EventSeq a) (map row_block ?ys)"
    using sorted_newest_first [OF distinct_active_membership [OF inv], of ce_publication_id]
    by (simp add: sorted_wrt_map row_block_def)
  have "map row_block ?ys = chain"
  proof (rule sorted_wrt_set_unique [OF sorted])
    show "sorted_wrt (\<lambda>a b. cb_EventSeq b < cb_EventSeq a) chain"
      using assms by (simp add: chain_inv_def newest_first_def)
    show "set (map row_block ?ys) = set chain"
      using assms by (simp add: chain_inv_def set_active_membership [OF inv])
  qed auto
  then show ?thesis
    by (simp add: canonicalWindowSQL_def flip: take_map)
qed

end
