(* ===== verification/Chain_Recovery.thy ===== *)
theory Chain_Recovery
  imports Chain
begin

text \<open>
  Recovery is exact: in every state that satisfies \<open>chain_inv\<close>, \<^verbatim>\<open>State\<close> of
  \<^verbatim>\<open>recovery.go\<close> returns the committed chain (up to the requested depth), its tip and the
  committed snapshot, and its intersection candidates are acceptable to every relay.
\<close>

section \<open>Recovery reads the chain back\<close>

lemma latest_rows_first:
  assumes scan: "\<And>r. r \<in> set ys \<Longrightarrow> scan r = Inr (f r) \<and> la_found (f r)"
    and sorted: "sorted_wrt (\<lambda>a b. la_eventSeq (f b) < la_eventSeq (f a)) ys"
  shows "latest_rows scan (take 2 ys) no_action = Inr (case ys of [] \<Rightarrow> no_action | r # _ \<Rightarrow> f r)"
proof (cases ys)
  case (Cons r rs)
  with scan have r: "scan r = Inr (f r)" "la_found (f r)" by auto
  show ?thesis
  proof (cases rs)
    case Nil
    with Cons r show ?thesis by (simp add: no_action_def)
  next
    case (Cons r' rs')
    with \<open>ys = r # rs\<close> scan sorted have "scan r' = Inr (f r')" "la_eventSeq (f r') < la_eventSeq (f r)"
      by auto
    with Cons \<open>ys = r # rs\<close> r show ?thesis by (simp add: no_action_def numeral_2_eq_2)
  qed
qed simp

definition adoption_action :: "chain_event \<Rightarrow> latest_action" where
  "adoption_action r = \<lparr>la_found = True, la_eventSeq = ce_event_seq r,
     la_publication = ce_publication_id r, la_point = row_point r, la_kind = AdoptionAction\<rparr>"

definition rollback_action :: "rollback_row \<Rightarrow> latest_action" where
  "rollback_action r = \<lparr>la_found = True, la_eventSeq = rb_event_seq r, la_publication = 0,
     la_point = projr (header_target r), la_kind = RollbackAction\<rparr>"

lemma scan_adoption_wf: "wf_adoption r \<Longrightarrow> scan_adoption r = Inr (adoption_action r)"
  by (simp add: wf_adoption_def scan_adoption_def hash32_of_def adoption_action_def row_point_def Let_def)

lemma scan_rollback_wf: "wf_rollback r \<Longrightarrow> scan_rollback r = Inr (rollback_action r)"
  by (auto simp: wf_rollback_def scan_rollback_def header_target_def rollback_action_def)

lemma newest_of:
  fixes seq :: "'a \<Rightarrow> u64" and ident :: "'a \<Rightarrow> 'k :: linorder"
  assumes "distinct (map seq xs)"
    and ys: "ys = sort_key (\<lambda>r. (max_uint64 - seq r, ident r)) xs" "ys = r # rs"
  shows "r \<in> set xs" and "\<And>x. x \<in> set xs \<Longrightarrow> seq x \<le> seq r"
proof -
  have "set ys = set xs" using ys(1) by simp
  then show "r \<in> set xs" using ys(2) by auto
  have "sorted_wrt (\<lambda>a b. seq b < seq a) ys"
    using sorted_newest_first [OF assms(1)] ys(1) by simp
  then show "\<And>x. x \<in> set xs \<Longrightarrow> seq x \<le> seq r"
    using \<open>set ys = set xs\<close> ys(2) by (auto simp: order.strict_implies_order)
qed

lemma latestAdoption_ok:
  assumes "rows_inv db"
  obtains "adoptions db = []" "latestAdoption QueryOk db = Inr no_action"
  | r where "r \<in> set (adoptions db)" "\<And>x. x \<in> set (adoptions db) \<Longrightarrow> ce_event_seq x \<le> ce_event_seq r"
      "latestAdoption QueryOk db = Inr (adoption_action r)"
proof -
  let ?ys = "sort_key (\<lambda>r. (max_uint64 - ce_event_seq r, ce_publication_id r)) (adoptions db)"
  have d: "distinct (map ce_event_seq (adoptions db))" using assms by (simp add: rows_inv_def)
  have "latest_rows scan_adoption (take 2 ?ys) no_action =
      Inr (case ?ys of [] \<Rightarrow> no_action | r # _ \<Rightarrow> adoption_action r)"
  proof (rule latest_rows_first)
    show "scan_adoption r = Inr (adoption_action r) \<and> la_found (adoption_action r)"
      if "r \<in> set ?ys" for r
      using that assms by (auto simp: rows_inv_def scan_adoption_wf adoption_action_def [of r])
    show "sorted_wrt (\<lambda>a b. la_eventSeq (adoption_action b) < la_eventSeq (adoption_action a)) ?ys"
      using sorted_newest_first [OF d, of ce_publication_id] by (simp add: adoption_action_def)
  qed
  then have eq: "latestAdoption QueryOk db =
      Inr (case ?ys of [] \<Rightarrow> no_action | r # _ \<Rightarrow> adoption_action r)"
    by (simp add: latestAdoption_def read_latest_def latestAdoptionSQL_def)
  show thesis
  proof (cases ?ys)
    case Nil
    have "adoptions db = []" using arg_cong [OF Nil, of set] by simp
    then show thesis using that(1) eq by simp
  next
    case (Cons r rs)
    with newest_of [OF d refl Cons] eq show thesis by (intro that(2)) auto
  qed
qed

lemma latestRollback_ok:
  assumes "rows_inv db"
  obtains "db_rollbacks db = []" "latestRollback QueryOk db = Inr no_action"
  | r where "r \<in> set (db_rollbacks db)"
      "\<And>x. x \<in> set (db_rollbacks db) \<Longrightarrow> rb_event_seq x \<le> rb_event_seq r"
      "latestRollback QueryOk db = Inr (rollback_action r)"
proof -
  let ?ys = "sort_key (\<lambda>r. (max_uint64 - rb_event_seq r, rb_rollback_id r)) (db_rollbacks db)"
  have d: "distinct (map rb_event_seq (db_rollbacks db))" using assms by (simp add: rows_inv_def)
  have "latest_rows scan_rollback (take 2 ?ys) no_action =
      Inr (case ?ys of [] \<Rightarrow> no_action | r # _ \<Rightarrow> rollback_action r)"
  proof (rule latest_rows_first)
    show "scan_rollback r = Inr (rollback_action r) \<and> la_found (rollback_action r)"
      if "r \<in> set ?ys" for r
      using that assms by (auto simp: rows_inv_def scan_rollback_wf rollback_action_def [of r])
    show "sorted_wrt (\<lambda>a b. la_eventSeq (rollback_action b) < la_eventSeq (rollback_action a)) ?ys"
      using sorted_newest_first [OF d, of rb_rollback_id] by (simp add: rollback_action_def)
  qed
  then have eq: "latestRollback QueryOk db =
      Inr (case ?ys of [] \<Rightarrow> no_action | r # _ \<Rightarrow> rollback_action r)"
    by (simp add: latestRollback_def read_latest_def latestRollbackSQL_def)
  show thesis
  proof (cases ?ys)
    case Nil
    have "db_rollbacks db = []" using arg_cong [OF Nil, of set] by simp
    then show thesis using that(1) eq by simp
  next
    case (Cons r rs)
    with newest_of [OF d refl Cons] eq show thesis by (intro that(2)) auto
  qed
qed

lemma max_u64_eqI:
  assumes "x \<in> set xs" and "\<And>y. y \<in> set xs \<Longrightarrow> y \<le> x"
  shows "max_u64 xs = x"
proof -
  have "fold max xs a \<in> insert a (set xs)" for a :: u64
  proof (induction xs arbitrary: a)
    case (Cons x xs)
    from Cons.IH [of "max x a"] show ?case by (auto simp: max_def split: if_splits)
  qed simp
  then have "max_u64 xs = 0 \<or> max_u64 xs \<in> set xs"
    by (auto simp: max_u64_def)
  moreover have "x \<le> max_u64 xs" using assms(1) by (rule max_u64_ge)
  ultimately show ?thesis using assms(2) by (auto intro: antisym)
qed

lemma newest_adoption_is_tip:
  assumes inv: "chain_inv start db chain" and r: "r \<in> set (adoptions db)"
    and max_a: "\<And>x. x \<in> set (adoptions db) \<Longrightarrow> ce_event_seq x \<le> ce_event_seq r"
    and max_r: "\<And>x. x \<in> set (db_rollbacks db) \<Longrightarrow> rb_event_seq x \<le> ce_event_seq r"
  shows "\<exists>rest. chain = row_block r # rest"
proof -
  have rows: "rows_inv db" using inv by (simp add: chain_inv_def)
  have "\<not> invalidated db (ce_publication_id r)"
  proof
    assume "invalidated db (ce_publication_id r)"
    then obtain ce rb where ce: "committed_invalidation db ce" "ce_publication_id ce = ce_publication_id r"
      and rb: "rb \<in> set (db_rollbacks db)" "header_matches rb ce"
      by (auto simp: invalidated_def committed_invalidation_def)
    have "ce_event_seq r < ce_event_seq ce"
      using rows r ce by (auto simp: rows_inv_def)
    moreover have "ce_event_seq ce \<le> ce_event_seq r"
      using max_r [OF rb(1)] rb(2) by (simp add: header_matches_def)
    ultimately show False by simp
  qed
  then have "row_block r \<in> set chain"
    using inv r by (auto simp: chain_inv_def live_adoptions_def)
  moreover have "cb_EventSeq b \<le> ce_event_seq r" if "b \<in> set chain" for b
    using that inv max_a by (auto simp: chain_inv_def live_adoptions_def row_block_def)
  ultimately show ?thesis
    using inv by (cases chain) (fastforce simp: chain_inv_def newest_first_def row_block_def)+
qed

lemma newest_rollback_target:
  assumes inv: "chain_inv start db chain" and r: "r \<in> set (db_rollbacks db)"
    and max_a: "\<And>x. x \<in> set (adoptions db) \<Longrightarrow> ce_event_seq x < rb_event_seq r"
    and max_r: "\<And>x. x \<in> set (db_rollbacks db) \<Longrightarrow> rb_event_seq x \<le> rb_event_seq r"
  shows "header_target r = Inr (chain_tip start chain)"
  using assms by (auto simp: chain_inv_def latest_header_def)

text \<open>What recovery finds: the newest committed action determines the tip and the snapshot.\<close>

lemma latestCommittedAction_ok:
  assumes inv: "chain_inv start db chain"
  shows "\<exists>action. latestCommittedAction QueryOk QueryOk db = Inr action \<and>
    (if la_found action then la_eventSeq action = committed_snapshot db \<and>
        la_eventSeq action \<noteq> 0 \<and> la_point action = chain_tip start chain
     else committed_snapshot db = 0 \<and> chain = [])"
proof -
  have rows: "rows_inv db" using inv by (simp add: chain_inv_def)
  have chain_nil: "chain = []" if "adoptions db = []"
    using inv that by (simp add: chain_inv_def live_adoptions_def)
  show ?thesis
  proof (cases rule: latestAdoption_ok [OF rows])
    case no_adoption: 1
    show ?thesis
    proof (cases rule: latestRollback_ok [OF rows])
      case 1
      with no_adoption chain_nil show ?thesis
        by (simp add: latestCommittedAction_def committed_snapshot_def max_u64_def no_action_def)
    next
      case (2 r)
      then have "committed_snapshot db = rb_event_seq r"
        using no_adoption unfolding committed_snapshot_def by (intro max_u64_eqI) auto
      moreover have "rb_event_seq r \<noteq> 0" using rows 2(1) by (auto simp: rows_inv_def wf_rollback_def)
      ultimately show ?thesis
        using 2 no_adoption newest_rollback_target [OF inv 2(1)]
        by (simp add: latestCommittedAction_def no_action_def rollback_action_def)
    qed
  next
    case adopted: (2 a)
    have a0: "ce_event_seq a \<noteq> 0" using rows adopted(1) by (auto simp: rows_inv_def wf_adoption_def)
    show ?thesis
    proof (cases rule: latestRollback_ok [OF rows])
      case 1
      have "committed_snapshot db = ce_event_seq a"
        using adopted 1 unfolding committed_snapshot_def by (intro max_u64_eqI) auto
      with a0 1 adopted newest_adoption_is_tip [OF inv adopted(1,2)] show ?thesis
        by (auto simp: latestCommittedAction_def no_action_def adoption_action_def chain_tip_def
            row_block_def)
    next
      case (2 r)
      have neq: "ce_event_seq a \<noteq> rb_event_seq r"
        using rows adopted(1) 2(1) by (auto simp: rows_inv_def)
      show ?thesis
      proof (cases "ce_event_seq a < rb_event_seq r")
        case True
        have max_a: "ce_event_seq x < rb_event_seq r" if "x \<in> set (adoptions db)" for x
          using adopted(2) [OF that] True by simp
        have "committed_snapshot db = rb_event_seq r"
          using 2 max_a unfolding committed_snapshot_def
          by (intro max_u64_eqI) (auto intro: order.strict_implies_order)
        moreover have "rb_event_seq r \<noteq> 0" using rows 2(1) by (auto simp: rows_inv_def wf_rollback_def)
        ultimately show ?thesis
          using 2(3) adopted(3) True neq newest_rollback_target [OF inv 2(1) max_a 2(2)]
          by (simp add: latestCommittedAction_def rollback_action_def adoption_action_def)
      next
        case False
        have max_r: "rb_event_seq x \<le> ce_event_seq a" if "x \<in> set (db_rollbacks db)" for x
          using 2(2) [OF that] False by simp
        have "committed_snapshot db = ce_event_seq a"
          using adopted max_r unfolding committed_snapshot_def by (intro max_u64_eqI) auto
        with a0 2(3) adopted False neq newest_adoption_is_tip [OF inv adopted(1,2) max_r] show ?thesis
          by (auto simp: latestCommittedAction_def rollback_action_def adoption_action_def chain_tip_def
              row_block_def)
      qed
    qed
  qed
qed

lemma scan_window_row_wf:
  "wf_adoption r \<Longrightarrow> ce_event_seq r \<le> snapshot \<Longrightarrow> scan_window_row snapshot r = Inr (row_block r)"
  by (simp add: scan_window_row_def wf_adoption_def hash32_of_def row_block_def row_point_def Let_def
      not_less)

lemma window_rows_ok:
  assumes "\<And>r. r \<in> set rs \<Longrightarrow> scan_window_row snapshot r = Inr (row_block r)"
    and "distinct (map cb_PublicationID (window @ map row_block rs))"
    and "newest_first (window @ map row_block rs)"
  shows "window_rows snapshot rs window = Inr (window @ map row_block rs)"
  using assms
proof (induction rs arbitrary: window)
  case (Cons r rs)
  have IH: "window_rows snapshot rs (window @ [row_block r]) = Inr ((window @ [row_block r]) @ map row_block rs)"
    using Cons.prems by (intro Cons.IH) auto
  have "cb_PublicationID (row_block r) \<notin> cb_PublicationID ` set window"
    using Cons.prems(2) by auto
  moreover have "\<not> (window \<noteq> [] \<and> cb_EventSeq (row_block r) \<ge> cb_EventSeq (last window))"
    using Cons.prems(3) by (cases window rule: rev_cases) (auto simp: newest_first_def sorted_wrt_append not_le)
  ultimately show ?case using Cons.prems(1) [of r] IH by (auto simp: not_le)
qed simp

lemma newest_first_distinct: "newest_first chain \<Longrightarrow> distinct chain"
  unfolding newest_first_def by (induction chain) auto

lemma chain_distinct_ids:
  assumes inv: "chain_inv start db chain"
  shows "distinct (map cb_PublicationID chain)"
proof -
  have rows: "rows_inv db" and nf: "newest_first chain" and set: "set chain = row_block ` set (live_adoptions db)"
    using inv by (auto simp: chain_inv_def)
  have "inj_on cb_PublicationID (set chain)"
    unfolding set using adoption_unique [OF rows]
    by (auto simp: inj_on_def row_block_def live_adoptions_def)
  with newest_first_distinct [OF nf] show ?thesis by (simp add: distinct_map)
qed

lemma loadCanonicalWindow_ok:
  assumes inv: "chain_inv start db chain"
  shows "loadCanonicalWindow QueryOk db (committed_snapshot db) limit = Inr (take limit chain)"
proof (cases "committed_snapshot db = 0")
  case True
  have "adoptions db = []"
  proof (rule ccontr)
    assume "adoptions db \<noteq> []"
    then obtain r where r: "r \<in> set (adoptions db)" by (cases "adoptions db") auto
    with inv have "ce_event_seq r \<noteq> 0" by (auto simp: chain_inv_def rows_inv_def wf_adoption_def)
    with committed_snapshot_ge(1) [OF r] True show False by simp
  qed
  then have "chain = []" using inv by (simp add: chain_inv_def live_adoptions_def)
  with True show ?thesis by (simp add: loadCanonicalWindow_def)
next
  case False
  let ?rs = "canonicalWindowSQL db (committed_snapshot db) limit"
  have rows: "rows_inv db" and nf: "newest_first chain" using inv by (auto simp: chain_inv_def)
  have eq: "map row_block ?rs = take limit chain" by (rule window_is_chain [OF inv])
  have "window_rows (committed_snapshot db) ?rs [] = Inr ([] @ map row_block ?rs)"
  proof (rule window_rows_ok)
    fix r
    assume "r \<in> set ?rs"
    then have "r \<in> set (active_membership db (committed_snapshot db))"
      by (auto simp: canonicalWindowSQL_def dest: in_set_takeD)
    then have "r \<in> set (adoptions db)"
      by (simp add: set_active_membership [OF rows] live_adoptions_def)
    then show "scan_window_row (committed_snapshot db) r = Inr (row_block r)"
      using rows by (intro scan_window_row_wf) (auto simp: rows_inv_def committed_snapshot_ge)
  qed (use chain_distinct_ids [OF inv] nf eq in
      \<open>auto simp: newest_first_def take_map [symmetric] intro: distinct_take sorted_wrt_take\<close>)
  with False eq show ?thesis by (simp add: loadCanonicalWindow_def)
qed

definition all_queries_ok :: state_queries where
  "all_queries_ok = \<lparr>sq_adoption = QueryOk, sq_rollback = QueryOk, sq_window = QueryOk\<rparr>"

text \<open>
  The state recovery is to return: the tip and the canonical window are those of the chain, the snapshot
  is the last committed event of the tables, and the candidates are what the program computes from these.
\<close>

definition expected_state :: "dataset_identity \<Rightarrow> database \<Rightarrow> canonical_block list \<Rightarrow> u32 \<Rightarrow> store_state" where
  "expected_state identity db chain depth =
     (let base = \<lparr>st_Dataset = identity, st_Snapshot = committed_snapshot db,
            st_Tip = chain_tip (di_Start identity) chain,
            st_Canonical = take (unat depth + 1) chain, st_Intersections = []\<rparr>
      in base\<lparr>st_Intersections := intersectionCandidates base\<rparr>)"

lemma stateForIdentity_ok:
  assumes inv: "chain_inv (di_Start identity) db chain"
  shows "stateForIdentity all_queries_ok db identity depth = Inr (expected_state identity db chain depth)"
proof -
  obtain action where a: "latestCommittedAction QueryOk QueryOk db = Inr action"
    and found: "la_found action \<Longrightarrow> la_eventSeq action = committed_snapshot db \<and>
        la_eventSeq action \<noteq> 0 \<and> la_point action = chain_tip (di_Start identity) chain"
    and none: "\<not> la_found action \<Longrightarrow> committed_snapshot db = 0 \<and> chain = []"
    using latestCommittedAction_ok [OF inv] by metis
  have snap: "(if la_found action then la_eventSeq action else 0) = committed_snapshot db"
    and tip: "(if la_found action then la_point action else di_Start identity) =
      chain_tip (di_Start identity) chain"
    using found none by (auto simp: chain_tip_def)
  have empty: "chain = []" if "committed_snapshot db = 0" using found none that by metis
  have "validateRecoveredState \<lparr>st_Dataset = identity, st_Snapshot = committed_snapshot db,
      st_Tip = chain_tip (di_Start identity) chain, st_Canonical = take (unat depth + 1) chain,
      st_Intersections = []\<rparr> = Inr ()"
    using empty by (cases chain) (auto simp: validateRecoveredState_def chain_tip_def)
  then show ?thesis
    by (simp add: stateForIdentity_def all_queries_ok_def a snap tip loadCanonicalWindow_ok [OF inv]
        expected_state_def Let_def)
qed

section \<open>Intersection candidates\<close>

lemma set_appendPoint [simp]: "set (appendPoint p ps) = insert p (set ps)"
  by (auto simp: appendPoint_def)

lemma distinct_appendPoint: "distinct ps \<Longrightarrow> distinct (appendPoint p ps)"
  by (simp add: appendPoint_def)

lemma length_appendPoint: "length (appendPoint p ps) \<le> Suc (length ps)"
  by (simp add: appendPoint_def)

lemma appendPoint_prefix: "\<exists>more. appendPoint p ps = ps @ more"
  by (simp add: appendPoint_def)

definition dense_points :: "canonical_block list \<Rightarrow> point list \<Rightarrow> point list" where
  "dense_points bs ps = fold (\<lambda>b candidates. appendPoint (cb_Point b) candidates) bs ps"

lemma set_dense_points [simp]: "set (dense_points bs ps) = set ps \<union> cb_Point ` set bs"
  unfolding dense_points_def by (induction bs arbitrary: ps) auto

lemma distinct_dense_points: "distinct ps \<Longrightarrow> distinct (dense_points bs ps)"
  unfolding dense_points_def by (induction bs arbitrary: ps) (auto intro: distinct_appendPoint)

lemma length_dense_points: "length (dense_points bs ps) \<le> length ps + length bs"
  unfolding dense_points_def
proof (induction bs arbitrary: ps)
  case (Cons b bs)
  show ?case
    using Cons.IH [of "appendPoint (cb_Point b) ps"] length_appendPoint [of "cb_Point b" ps] by simp
qed simp

lemma dense_points_prefix: "\<exists>more. dense_points bs ps = ps @ more"
  unfolding dense_points_def
proof (induction bs arbitrary: ps)
  case (Cons b bs)
  obtain m where "appendPoint (cb_Point b) ps = ps @ m" using appendPoint_prefix by blast
  with Cons.IH [of "ps @ m"] show ?case by auto
qed simp

lemma geometric_loop_props:
  assumes "0 < distance"
  shows "set (geometric_loop c distance sample ps) \<subseteq> set ps \<union> cb_Point ` set c"
    and "distinct ps \<Longrightarrow> distinct (geometric_loop c distance sample ps)"
    and "length (geometric_loop c distance sample ps) \<le> length ps + (32 - sample)"
    and "\<exists>more. geometric_loop c distance sample ps = ps @ more"
  using assms
proof (induction c distance sample ps rule: geometric_loop.induct)
  case (1 c distance sample ps)
  let ?ps = "appendPoint (cb_Point (c ! (distance - 1))) ps"
  let ?go = "distance \<le> length c \<and> sample < 32"
  have step: "geometric_loop c distance sample ps =
      (if ?go then geometric_loop c (distance * 2) (Suc sample) ?ps else ps)"
    by (subst geometric_loop.simps) simp
  {
    case 1
    then have "cb_Point (c ! (distance - 1)) \<in> cb_Point ` set c" if ?go using that by auto
    moreover have "set (geometric_loop c (distance * 2) (Suc sample) ?ps) \<subseteq> set ?ps \<union> cb_Point ` set c" if ?go
      using "1.IH"(1) that 1 by simp
    ultimately show ?case unfolding step by auto
  next
    case 2
    then show ?case using "1.IH"(2) distinct_appendPoint unfolding step by simp
  next
    case 3
    have "length (geometric_loop c (distance * 2) (Suc sample) ?ps) \<le> length ?ps + (32 - Suc sample)" if ?go
      using "1.IH"(3) that 3 by simp
    moreover note length_appendPoint [of "cb_Point (c ! (distance - 1))" ps]
    ultimately show ?case unfolding step by (cases ?go) auto
  next
    case 4
    have "\<exists>m. geometric_loop c (distance * 2) (Suc sample) ?ps = ?ps @ m" if ?go
      using "1.IH"(4) that 4 by simp
    moreover obtain m where "?ps = ps @ m" using appendPoint_prefix by blast
    ultimately show ?case unfolding step by auto
  }
qed

lemma intersectionCandidates_shape:
  assumes "st_Canonical state = [] \<Longrightarrow> st_Tip state = di_Start (st_Dataset state)"
  shows "\<exists>boundary. intersectionCandidates state = appendPoint (di_Start (st_Dataset state)) boundary \<and>
    set boundary \<subseteq> cb_Point ` set (st_Canonical state) \<and> distinct boundary \<and> length boundary \<le> 65 \<and>
    (st_Canonical state \<noteq> [] \<longrightarrow> (\<exists>more. boundary = cb_Point (hd (st_Canonical state)) # more))"
proof -
  let ?c = "st_Canonical state"
  let ?dense = "dense_points (take 32 ?c) []"
  let ?sampled = "geometric_loop ?c 64 0 ?dense"
  note g = geometric_loop_props [where distance = 64 and c = ?c and sample = 0 and ps = ?dense, simplified]
  have len: "length ?sampled \<le> 64"
    using g(3) length_dense_points [of "take 32 ?c" "[]"] by (simp add: min_def split: if_splits)
  have sub: "set ?sampled \<subseteq> cb_Point ` set ?c"
    using g(1) by (auto dest: in_set_takeD)
  have dist: "distinct ?sampled" by (rule g(2)) (simp add: distinct_dense_points)
  have head: "\<exists>more. ?sampled = cb_Point (hd ?c) # more" if "?c \<noteq> []"
  proof -
    obtain b bs where c: "?c = b # bs" using \<open>?c \<noteq> []\<close> by (cases ?c) auto
    have "?dense = dense_points (take 31 bs) [cb_Point b]"
      by (simp add: c dense_points_def appendPoint_def numeral_eq_Suc)
    then obtain m where "?dense = [cb_Point b] @ m" using dense_points_prefix by metis
    with g(4) c show ?thesis by auto
  qed
  show ?thesis
  proof (cases "?c = []")
    case True
    with sub have "?sampled = []" by simp
    with True assms show ?thesis
      by (intro exI [of _ "[]"]) (simp add: intersectionCandidates_def Let_def flip: dense_points_def)
  next
    case False
    with head obtain more where more: "?sampled = cb_Point (hd ?c) # more" by blast
    let ?b = "appendPoint (cb_Point (last ?c)) ?sampled"
    have "length ?b \<le> 65" using length_appendPoint [of "cb_Point (last ?c)" ?sampled] len by simp
    moreover have "set ?b \<subseteq> cb_Point ` set ?c" using False sub by auto
    moreover have "distinct ?b" using dist by (rule distinct_appendPoint)
    moreover obtain m where "?b = ?sampled @ m" using appendPoint_prefix by blast
    moreover have "intersectionCandidates state = appendPoint (di_Start (st_Dataset state)) ?b"
      using False more by (simp add: intersectionCandidates_def Let_def flip: dense_points_def)
    moreover have "\<exists>m'. ?b = cb_Point (hd ?c) # m'" using calculation(4) more by simp
    ultimately show ?thesis using more by blast
  qed
qed

lemma chain_points_valid:
  assumes "chain_inv start db chain" and "b \<in> set chain"
  shows "\<not> pt_Origin (cb_Point b)" and "validPoint (cb_Point b)"
  using assms by (auto simp: chain_inv_def rows_inv_def live_adoptions_def wf_adoption_def row_block_def
      row_point_def)

text \<open>
  What \<^verbatim>\<open>validateCandidates\<close> of \<^verbatim>\<open>relay/session.go\<close> accepts: at least one candidate,
  origin only in the last place, no other candidate with a zero hash.
\<close>

definition relay_accepts :: "point list \<Rightarrow> bool" where
  "relay_accepts candidates \<longleftrightarrow> candidates \<noteq> [] \<and>
     (\<forall>i < length candidates. if pt_Origin (candidates ! i) then i = length candidates - 1
        else pt_Hash (candidates ! i) \<noteq> zero32)"

lemma expected_candidates:
  fixes depth :: u32
  assumes inv: "chain_inv (di_Start identity) db chain"
  defines "cs \<equiv> st_Intersections (expected_state identity db chain depth)"
  shows "relay_accepts cs" and "distinct cs" and "length cs \<le> 66"
    and "hd cs = chain_tip (di_Start identity) chain" and "di_Start identity \<in> set cs"
    and "set cs \<subseteq> insert (di_Start identity) (cb_Point ` set chain)"
proof -
  let ?start = "di_Start identity"
  let ?base = "\<lparr>st_Dataset = identity, st_Snapshot = committed_snapshot db,
            st_Tip = chain_tip ?start chain,
            st_Canonical = take (unat depth + 1) chain, st_Intersections = []\<rparr>"
  have "st_Canonical ?base = [] \<Longrightarrow> st_Tip ?base = di_Start (st_Dataset ?base)"
    by (simp add: chain_tip_def)
  from intersectionCandidates_shape [OF this] obtain boundary where
    cs: "cs = appendPoint ?start boundary" and sub: "set boundary \<subseteq> cb_Point ` set (take (unat depth + 1) chain)"
    and d: "distinct boundary" and len: "length boundary \<le> 65"
    and hd: "take (unat depth + 1) chain \<noteq> [] \<longrightarrow>
      (\<exists>more. boundary = cb_Point (hd (take (unat depth + 1) chain)) # more)"
    by (auto simp: cs_def expected_state_def Let_def)
  have sub': "set boundary \<subseteq> cb_Point ` set chain" using sub by (auto dest: in_set_takeD)
  show "distinct cs" using cs d by (simp add: distinct_appendPoint)
  show "length cs \<le> 66" using cs len length_appendPoint [of ?start boundary] by simp
  show "?start \<in> set cs" using cs by simp
  show "set cs \<subseteq> insert ?start (cb_Point ` set chain)" using cs sub' by auto
  show "hd cs = chain_tip ?start chain"
  proof (cases chain)
    case Nil
    with sub have "boundary = []" by simp
    with cs Nil show ?thesis by (simp add: appendPoint_def chain_tip_def)
  next
    case (Cons b bs)
    with hd obtain more where "boundary = cb_Point b # more" by auto
    with cs Cons show ?thesis by (simp add: appendPoint_def chain_tip_def)
  qed
  have start: "validPoint ?start" using inv by (simp add: chain_inv_def)
  have body: "\<not> pt_Origin p \<and> pt_Hash p \<noteq> zero32" if "p \<in> set boundary" for p
  proof -
    from that sub' obtain b where b: "b \<in> set chain" "p = cb_Point b" by blast
    with chain_points_valid [OF inv b(1)] show ?thesis by (simp add: validPoint_def)
  qed
  show "relay_accepts cs"
  proof (cases "?start \<in> set boundary")
    case True
    with cs body show ?thesis by (auto simp: relay_accepts_def appendPoint_def)
  next
    case False
    have "if pt_Origin (cs ! i) then i = length cs - 1 else pt_Hash (cs ! i) \<noteq> zero32"
      if "i < length cs" for i
    proof (cases "i < length boundary")
      case True
      with body [of "boundary ! i"] False cs show ?thesis
        by (simp add: appendPoint_def nth_append)
    next
      case False
      with that cs \<open>?start \<notin> set boundary\<close> have "i = length boundary" by (simp add: appendPoint_def)
      with cs \<open>?start \<notin> set boundary\<close> start show ?thesis
        by (simp add: appendPoint_def validPoint_def)
    qed
    moreover have "cs \<noteq> []" using \<open>?start \<in> set cs\<close> by auto
    ultimately show ?thesis unfolding relay_accepts_def by blast
  qed
qed

end
