(* ===== verification/Chain_Steps.thy ===== *)
theory Chain_Steps
  imports Chain
begin

text \<open>
  How the two kinds of rows the writer adds change the abstract chain: fresh adoption rows push their
  blocks, a rollback header with its invalidations drops the blocks it invalidates, and rows that no
  header commits change nothing.
\<close>

section \<open>Adoptions\<close>

lemma adoptions_append:
  assumes "db_chain_events db' = db_chain_events db @ new" and "\<And>r. r \<in> set new \<Longrightarrow> ce_event_kind r = Adoption"
  shows "adoptions db' = adoptions db @ new"
  using assms by (auto simp: adoptions_def filter_id_conv)

lemma committed_invalidation_append:
  assumes "db_chain_events db' = db_chain_events db @ new" and "db_rollbacks db' = db_rollbacks db"
    and "\<And>r. r \<in> set new \<Longrightarrow> ce_event_kind r = Adoption"
  shows "committed_invalidation db' ce \<longleftrightarrow> committed_invalidation db ce"
  using assms by (auto simp: committed_invalidation_def)

lemma event_seqs_memb:
  "r \<in> set (adoptions db) \<Longrightarrow> ce_event_seq r \<in> event_seqs db"
  "rb \<in> set (db_rollbacks db) \<Longrightarrow> rb_event_seq rb \<in> event_seqs db"
  "committed_invalidation db ce \<Longrightarrow> ce_event_seq ce \<in> event_seqs db"
  by (auto simp: event_seqs_def adoptions_def committed_invalidation_def)

lemma rows_inv_append_adoptions:
  assumes inv: "rows_inv db"
    and db': "db_chain_events db' = db_chain_events db @ new" "db_rollbacks db' = db_rollbacks db"
    and kind: "\<And>r. r \<in> set new \<Longrightarrow> ce_event_kind r = Adoption"
    and wf: "\<And>r. r \<in> set new \<Longrightarrow> wf_adoption r"
    and ev: "sorted_wrt (\<lambda>a b. ce_event_seq a < ce_event_seq b) new"
    and pubs: "distinct (map ce_publication_id new)"
    and fresh_ev: "\<And>r s. r \<in> set new \<Longrightarrow> s \<in> event_seqs db \<Longrightarrow> s < ce_event_seq r"
    and fresh_pub: "\<And>r x. r \<in> set new \<Longrightarrow> x \<in> set (db_chain_events db) \<Longrightarrow>
      ce_publication_id r \<noteq> ce_publication_id x"
  shows "rows_inv db'"
proof -
  have ad: "adoptions db' = adoptions db @ new"
    using db'(1) kind by (rule adoptions_append)
  have ci: "committed_invalidation db' ce \<longleftrightarrow> committed_invalidation db ce" for ce
    using db' kind by (rule committed_invalidation_append)
  have "\<forall>r \<in> set (adoptions db'). wf_adoption r"
    using inv wf by (auto simp: ad rows_inv_def)
  moreover have "distinct (map ce_event_seq (adoptions db'))"
  proof -
    have "distinct (map ce_event_seq new)"
      using ev by (induction new) auto
    moreover have "ce_event_seq r \<noteq> ce_event_seq x" if "r \<in> set new" "x \<in> set (adoptions db)" for r x
      using fresh_ev [OF that(1) event_seqs_memb(1) [OF that(2)]] by simp
    ultimately show ?thesis using inv by (fastforce simp: ad rows_inv_def)
  qed
  moreover have "distinct (map ce_publication_id (adoptions db'))"
  proof -
    have "ce_publication_id r \<noteq> ce_publication_id x" if "r \<in> set new" "x \<in> set (adoptions db)" for r x
      using fresh_pub [OF that(1), of x] that(2) by (simp add: adoptions_def)
    then show ?thesis using inv pubs by (fastforce simp: ad rows_inv_def)
  qed
  moreover have "\<forall>r \<in> set (db_rollbacks db'). wf_rollback r" "distinct (map rb_event_seq (db_rollbacks db'))"
    using inv by (simp_all add: rows_inv_def db')
  moreover have "\<forall>r \<in> set (adoptions db'). \<forall>rb \<in> set (db_rollbacks db'). ce_event_seq r \<noteq> rb_event_seq rb"
    using inv fresh_ev event_seqs_memb(2) by (fastforce simp: ad db' rows_inv_def)
  moreover have "\<not> ce_active ce \<and> (\<forall>r \<in> set (adoptions db'). ce_publication_id r = ce_publication_id ce \<longrightarrow>
      ce_event_seq r < ce_event_seq ce)" if "committed_invalidation db' ce" for ce
  proof -
    have c: "committed_invalidation db ce" using that by (simp add: ci)
    then have "ce \<in> set (db_chain_events db)" by (simp add: committed_invalidation_def)
    with c inv fresh_pub show ?thesis by (fastforce simp: ad rows_inv_def)
  qed
  ultimately show ?thesis unfolding rows_inv_def by blast
qed

lemma chain_inv_append_adoptions:
  assumes inv: "chain_inv start db chain"
    and db': "db_chain_events db' = db_chain_events db @ new" "db_rollbacks db' = db_rollbacks db"
    and kind: "\<And>r. r \<in> set new \<Longrightarrow> ce_event_kind r = Adoption"
    and wf: "\<And>r. r \<in> set new \<Longrightarrow> wf_adoption r"
    and ev: "sorted_wrt (\<lambda>a b. ce_event_seq a < ce_event_seq b) new"
    and pubs: "distinct (map ce_publication_id new)"
    and fresh_ev: "\<And>r s. r \<in> set new \<Longrightarrow> s \<in> event_seqs db \<Longrightarrow> s < ce_event_seq r"
    and fresh_pub: "\<And>r x. r \<in> set new \<Longrightarrow> x \<in> set (db_chain_events db) \<Longrightarrow>
      ce_publication_id r \<noteq> ce_publication_id x"
  shows "chain_inv start db' (rev (map row_block new) @ chain)"
proof -
  have ad: "adoptions db' = adoptions db @ new"
    using db'(1) kind by (rule adoptions_append)
  have ci: "committed_invalidation db' ce \<longleftrightarrow> committed_invalidation db ce" for ce
    using db' kind by (rule committed_invalidation_append)
  have rows: "rows_inv db" using inv by (simp add: chain_inv_def)
  have iv: "invalidated db' p \<longleftrightarrow> invalidated db p" for p by (simp add: invalidated_def ci)
  have "\<not> invalidated db (ce_publication_id r)" if "r \<in> set new" for r
    using fresh_pub [OF that] by (metis invalidated_def committed_invalidation_def)
  then have live: "live_adoptions db' = live_adoptions db @ new"
    by (simp add: live_adoptions_def ad iv filter_id_conv)
  have "rows_inv db'" by (rule rows_inv_append_adoptions [OF rows db' kind wf ev pubs fresh_ev fresh_pub])
  moreover have "set (rev (map row_block new) @ chain) = row_block ` set (live_adoptions db')"
    using inv by (auto simp: chain_inv_def live)
  moreover have "newest_first (rev (map row_block new) @ chain)"
  proof -
    have "cb_EventSeq b < ce_event_seq r" if "r \<in> set new" "b \<in> set chain" for r b
    proof -
      from that(2) inv obtain x where x: "x \<in> set (adoptions db)" "b = row_block x"
        by (auto simp: chain_inv_def live_adoptions_def)
      with fresh_ev [OF that(1) event_seqs_memb(1) [OF x(1)]] show ?thesis by (simp add: row_block_def)
    qed
    moreover have "newest_first chain" using inv by (simp add: chain_inv_def)
    moreover have "sorted_wrt (\<lambda>a b. cb_EventSeq b < cb_EventSeq a) (rev (map row_block new))"
      using ev by (simp add: sorted_wrt_rev sorted_wrt_map row_block_def)
    ultimately show ?thesis
      by (auto simp: newest_first_def sorted_wrt_append row_block_def)
  qed
  moreover have "header_target rb = Inr (chain_tip start (rev (map row_block new) @ chain))"
    if "latest_header db' rb" for rb
  proof -
    have "new = []"
    proof (rule ccontr)
      assume "new \<noteq> []"
      then obtain r where r: "r \<in> set new" by (cases new) auto
      from that have "rb \<in> set (db_rollbacks db)" "ce_event_seq r < rb_event_seq rb"
        using r by (auto simp: latest_header_def db' ad)
      with fresh_ev [OF r event_seqs_memb(2)] show False by fastforce
    qed
    moreover from this ad have "adoptions db' = adoptions db" by simp
    ultimately show ?thesis using that inv by (simp add: latest_header_def db' chain_inv_def)
  qed
  ultimately show ?thesis using inv by (simp add: chain_inv_def)
qed

lemma chain_inv_cong:
  assumes "chain_inv start db chain" and "db_chain_events db' = db_chain_events db"
    and "db_rollbacks db' = db_rollbacks db"
  shows "chain_inv start db' chain"
  using chain_inv_append_adoptions [OF assms(1), of db' "[]"] assms(2,3) by simp

end
