(* ===== verification/Chain_Rollback.thy ===== *)
theory Chain_Rollback
  imports Chain_Steps
begin

text \<open>
  How rollback rows change the abstract chain: invalidations that no header commits change nothing,
  and a header that commits the invalidations of the newest \<open>k\<close> blocks drops exactly those.
\<close>

definition inert_rows :: "database \<Rightarrow> chain_event list \<Rightarrow> u64 \<Rightarrow> bool" where
  "inert_rows db new seq \<longleftrightarrow>
     (\<forall>r \<in> set new. ce_event_kind r = Invalidation \<and> \<not> ce_active r \<and> ce_event_seq r = seq) \<and>
     (\<forall>s \<in> event_seqs db. s < seq)"

lemma adoptions_invalidations:
  assumes "inert_rows db new seq" and "db_chain_events db' = db_chain_events db @ new"
  shows "adoptions db' = adoptions db"
  using assms by (auto simp: adoptions_def inert_rows_def filter_empty_conv)

lemma orphan_not_committed:
  assumes "inert_rows db new seq" and "db_chain_events db' = db_chain_events db @ new"
    and "db_rollbacks db' = db_rollbacks db"
  shows "committed_invalidation db' ce \<longleftrightarrow> committed_invalidation db ce"
proof -
  have "\<not> header_matches rb ce" if "ce \<in> set new" "rb \<in> set (db_rollbacks db)" for rb
  proof -
    have "rb_event_seq rb < seq" using assms(1) that(2) event_seqs_memb(2) by (auto simp: inert_rows_def)
    moreover have "ce_event_seq ce = seq" using assms(1) that(1) by (auto simp: inert_rows_def)
    ultimately show ?thesis by (auto simp: header_matches_def)
  qed
  then show ?thesis using assms(2,3) by (auto simp: committed_invalidation_def)
qed

lemma chain_inv_orphans:
  assumes inv: "chain_inv start db chain" and "inert_rows db new seq"
    and "db_chain_events db' = db_chain_events db @ new" and "db_rollbacks db' = db_rollbacks db"
  shows "chain_inv start db' chain"
  using inv unfolding chain_inv_def rows_inv_def live_adoptions_def latest_header_def invalidated_def
    adoptions_invalidations [OF assms(2,3)] orphan_not_committed [OF assms(2,3,4)] assms(4) .

section \<open>A committed rollback\<close>

lemma committed_invalidation_rollback:
  assumes rows: "inert_rows db new seq" and id: "\<And>r. r \<in> set new \<Longrightarrow> ce_rollback_id r = Some (rb_rollback_id hdr)"
    and hdr: "rb_event_seq hdr = seq"
    and db': "db_chain_events db' = db_chain_events db @ new" "db_rollbacks db' = db_rollbacks db @ [hdr]"
  shows "committed_invalidation db' ce \<longleftrightarrow> committed_invalidation db ce \<or> ce \<in> set new"
proof -
  have old: "ce_event_seq r < seq" if "r \<in> set (db_chain_events db)" for r
    using rows that by (auto simp: inert_rows_def event_seqs_def)
  have oldh: "rb_event_seq rb < seq" if "rb \<in> set (db_rollbacks db)" for rb
    using rows that by (auto simp: inert_rows_def event_seqs_def)
  have new: "ce_event_seq r = seq" "ce_event_kind r = Invalidation" if "r \<in> set new" for r
    using rows that by (auto simp: inert_rows_def)
  have "\<not> header_matches hdr r" if "r \<in> set (db_chain_events db)" for r
    using old [OF that] hdr by (auto simp: header_matches_def)
  moreover have "header_matches hdr r" if "r \<in> set new" for r
    using new [OF that] id [OF that] hdr by (simp add: header_matches_def)
  moreover have "\<not> header_matches rb r" if "r \<in> set new" "rb \<in> set (db_rollbacks db)" for r rb
    using new [OF that(1)] oldh [OF that(2)] by (auto simp: header_matches_def)
  ultimately show ?thesis using new(2) by (auto simp: committed_invalidation_def db')
qed

lemma drop_as_filter:
  assumes "distinct (map f xs)"
  shows "drop k xs = filter (\<lambda>x. f x \<notin> f ` set (take k xs)) xs"
proof -
  have d: "distinct (map f (take k xs) @ map f (drop k xs))"
    using assms by (simp flip: map_append)
  have "filter (\<lambda>x. f x \<notin> f ` set (take k xs)) (take k xs) = []"
    by (auto simp: filter_empty_conv)
  moreover have "filter (\<lambda>x. f x \<notin> f ` set (take k xs)) (drop k xs) = drop k xs"
    using d by (auto simp: filter_id_conv)
  ultimately show ?thesis by (metis append_Nil append_take_drop_id filter_append)
qed

lemma live_after_rollback:
  assumes inv: "chain_inv start db chain" and ids: "distinct (map cb_PublicationID chain)"
    and ad: "adoptions db' = adoptions db"
    and iv: "\<And>p. invalidated db' p \<longleftrightarrow> invalidated db p \<or> p \<in> cb_PublicationID ` set (take k chain)"
  shows "set (drop k chain) = row_block ` set (live_adoptions db')"
proof -
  have "set (live_adoptions db') =
      {r \<in> set (live_adoptions db). ce_publication_id r \<notin> cb_PublicationID ` set (take k chain)}"
    by (auto simp: live_adoptions_def ad iv)
  moreover have "set (drop k chain) = {b \<in> set chain. cb_PublicationID b \<notin> cb_PublicationID ` set (take k chain)}"
    by (subst drop_as_filter [OF ids]) simp
  moreover have "set chain = row_block ` set (live_adoptions db)" using inv by (simp add: chain_inv_def)
  ultimately show ?thesis by (auto simp: row_block_def)
qed

lemma rows_inv_rollback:
  assumes inv: "rows_inv db" and rows: "inert_rows db new seq"
    and id: "\<And>r. r \<in> set new \<Longrightarrow> ce_rollback_id r = Some (rb_rollback_id hdr)"
    and hdr: "rb_event_seq hdr = seq" "wf_rollback hdr"
    and db': "db_chain_events db' = db_chain_events db @ new" "db_rollbacks db' = db_rollbacks db @ [hdr]"
  shows "rows_inv db'"
proof -
  have ad: "adoptions db' = adoptions db" by (rule adoptions_invalidations [OF rows db'(1)])
  have ci: "committed_invalidation db' ce \<longleftrightarrow> committed_invalidation db ce \<or> ce \<in> set new" for ce
    using rows id hdr(1) db' by (rule committed_invalidation_rollback)
  have less: "s < seq" if "s \<in> event_seqs db" for s using rows that by (auto simp: inert_rows_def)
  have "seq \<notin> rb_event_seq ` set (db_rollbacks db)"
    using less event_seqs_memb(2) by fastforce
  moreover have "ce_event_seq r \<noteq> seq" if "r \<in> set (adoptions db)" for r
    using less [OF event_seqs_memb(1) [OF that]] by simp
  moreover have "\<not> ce_active ce \<and> (\<forall>r \<in> set (adoptions db). ce_publication_id r = ce_publication_id ce \<longrightarrow>
      ce_event_seq r < ce_event_seq ce)" if "committed_invalidation db' ce" for ce
    using that inv rows less event_seqs_memb(1) unfolding ci rows_inv_def inert_rows_def by metis
  ultimately show ?thesis
    using inv hdr unfolding rows_inv_def ad db' by auto
qed

lemma chain_inv_rollback:
  assumes inv: "chain_inv start db chain" and ids: "distinct (map cb_PublicationID chain)"
    and rows: "inert_rows db new seq"
    and id: "\<And>r. r \<in> set new \<Longrightarrow> ce_rollback_id r = Some (rb_rollback_id hdr)"
    and pubs: "ce_publication_id ` set new = cb_PublicationID ` set (take k chain)"
    and hdr: "rb_event_seq hdr = seq" "seq \<noteq> 0"
    and target: "header_target hdr = Inr (chain_tip start (drop k chain))"
    and db': "db_chain_events db' = db_chain_events db @ new" "db_rollbacks db' = db_rollbacks db @ [hdr]"
  shows "chain_inv start db' (drop k chain)"
proof -
  have ad: "adoptions db' = adoptions db" by (rule adoptions_invalidations [OF rows db'(1)])
  have ci: "committed_invalidation db' ce \<longleftrightarrow> committed_invalidation db ce \<or> ce \<in> set new" for ce
    using rows id hdr(1) db' by (rule committed_invalidation_rollback)
  have iv: "invalidated db' p \<longleftrightarrow> invalidated db p \<or> p \<in> cb_PublicationID ` set (take k chain)" for p
    unfolding pubs [symmetric] by (auto simp: invalidated_def ci)
  have "rows_inv db" using inv by (simp add: chain_inv_def)
  moreover have "wf_rollback hdr" using hdr target by (simp add: wf_rollback_def)
  ultimately have "rows_inv db'" using rows id hdr(1) db' by (auto intro: rows_inv_rollback)
  moreover have "newest_first (drop k chain)"
    using inv by (auto simp: chain_inv_def newest_first_def)
  moreover have "header_target rb = Inr (chain_tip start (drop k chain))" if "latest_header db' rb" for rb
  proof -
    have "rb \<in> set (db_rollbacks db) \<Longrightarrow> rb_event_seq rb < seq"
      using rows event_seqs_memb(2) by (auto simp: inert_rows_def)
    moreover have "seq \<le> rb_event_seq rb" using that hdr by (auto simp: latest_header_def db')
    ultimately have "rb = hdr" using that by (auto simp: latest_header_def db')
    with target show ?thesis by simp
  qed
  ultimately show ?thesis
    using inv live_after_rollback [OF inv ids ad iv] by (simp add: chain_inv_def)
qed

end
