(* ===== verification/Publication.thy ===== *)
theory Publication
  imports Chain_Steps "HOL-Library.Sublist"
begin

text \<open>
  \<^verbatim>\<open>internal/store/publication.go\<close>: publication of a batch of candidates. The facts are
  inserted first, then one adoption row per block; an adoption insert that fails is resolved by
  reading its event range back.
\<close>

section \<open>Environment and result\<close>

text \<open>
  What the world answers during one call: the writer lock (absent, or the results of the successive
  \<^verbatim>\<open>AssertHeld\<close> calls), the clock, and the outcome of every server call. The nine fact
  inserts run concurrently on nine different tables and the first failure cancels the others; the
  outcomes below are arbitrary, so every interleaving and every cancellation is one of them.
\<close>

record fact_outcomes =
  fo_blocks :: insert_outcome
  fo_transactions :: insert_outcome
  fo_inputs :: insert_outcome
  fo_outputs :: insert_outcome
  fo_datum_bodies :: insert_outcome
  fo_datum_observations :: insert_outcome
  fo_withdrawals :: insert_outcome
  fo_redeemers :: insert_outcome
  fo_metadata :: insert_outcome

record publish_env =
  pe_lock :: bool
  pe_heldFirst :: bool
  pe_heldBeforeAdoption :: bool
  pe_clock :: time
  pe_facts :: fact_outcomes
  pe_adoptions :: insert_outcome
  pe_readback :: query_outcome

text \<open>\<^verbatim>\<open>newDB\<close> truncates the clock to microseconds, the precision of the columns.\<close>

definition now_micro :: "time \<Rightarrow> time" where
  "now_micro t = t - t mod 1000"

definition empty_commit :: commit where
  "empty_commit = \<lparr>cm_FirstPublicationID = 0, cm_LastPublicationID = 0, cm_FirstEventSeq = 0,
     cm_LastEventSeq = 0, cm_Blocks = [], cm_Committed = False, cm_ResolvedUncertain = False\<rparr>"

section \<open>Validation\<close>

definition relay_incomplete :: "store_relay \<Rightarrow> bool" where
  "relay_incomplete r \<longleftrightarrow> blank (sr_Host r) \<or> blank (sr_Address r) \<or> blank (sr_Operator r)"

definition counts_exceed :: "fact_counts \<Rightarrow> bool" where
  "counts_exceed c \<longleftrightarrow> list_ex (\<lambda>count. count > of_nat max_uint32)
     [fc_transactions c, fc_inputs c, fc_outputs c, fc_datumObservations c, fc_withdrawals c,
      fc_redeemers c, fc_metadata c]"

definition bodies_exceed :: "block \<Rightarrow> bool" where
  "bodies_exceed b \<longleftrightarrow>
     list_ex (\<lambda>d. length (db_CBOR d) > max_uint32) (bk_Datums b) \<or>
     list_ex (\<lambda>t. list_ex (\<lambda>r. length (rd_DataCBOR r) > max_uint32) (tx_Redeemers t) \<or>
         (case tx_Metadata t of None \<Rightarrow> False | Some m \<Rightarrow> length (md_CBOR m) > max_uint32))
       (bk_Transactions b)"

definition candidate_error :: "candidate \<Rightarrow> bool" where
  "candidate_error c \<longleftrightarrow>
     bk_Hash (ca_Block c) = zero32 \<or> length (ca_Relays c) < 2 \<or>
     list_ex relay_incomplete (ca_Relays c) \<or> counts_exceed (countFacts (ca_Block c)) \<or>
     bodies_exceed (ca_Block c)"

definition validateCandidates :: "candidate list \<Rightarrow> store_error + unit" where
  "validateCandidates candidates =
     (if list_ex candidate_error candidates then Inl ErrInvalidCandidate else Inr ())"

definition initializedStore :: "store_handle \<Rightarrow> store_error + dataset_identity \<times> allocator" where
  "initializedStore h =
     (case (sh_identity h, sh_allocator h) of
        (Some i, Some a) \<Rightarrow> Inr (i, a)
      | _ \<Rightarrow> Inl ErrNotInitialized)"

section \<open>Inserting facts\<close>

text \<open>One insert function run to its end: the rows that became durable and the error returned.\<close>

definition run_insert :: "insert_outcome \<Rightarrow> 'row batch \<Rightarrow> 'row list \<times> store_error option" where
  "run_insert oc b =
     (case b of
        Inr None \<Rightarrow> ([], None)
      | Inl e \<Rightarrow> ([], Some (if oc = PrepareFails then ErrInsert else e))
      | Inr (Some rows) \<Rightarrow> (durable_rows oc rows, if oc = SendOk then None else Some ErrInsert))"

text \<open>
  The join of the errors is reported by the first one in table order; the program joins them in the
  order of arrival, and no caller distinguishes them.
\<close>

definition joined :: "store_error option list \<Rightarrow> store_error option" where
  "joined errs = (case filter (\<lambda>e. e \<noteq> None) errs of [] \<Rightarrow> None | e # _ \<Rightarrow> e)"

definition insertFactsConcurrently :: "fact_outcomes \<Rightarrow> dataset_identity \<Rightarrow> publication list \<Rightarrow>
    fact_tables \<Rightarrow> fact_tables \<times> store_error option" where
  "insertFactsConcurrently oc identity pubs f =
     (let (blocks, e1) = run_insert (fo_blocks oc) (insertBlocks (di_NetworkMagic identity) pubs);
          (transactions, e2) = run_insert (fo_transactions oc) (insertTransactions pubs);
          (inputs, e3) = run_insert (fo_inputs oc) (insertInputs pubs);
          (outputs, e4) = run_insert (fo_outputs oc) (insertOutputs pubs);
          (bodies, e5) = run_insert (fo_datum_bodies oc) (insertDatumBodies pubs);
          (observations, e6) = run_insert (fo_datum_observations oc) (insertDatumObservations pubs);
          (withdrawals, e7) = run_insert (fo_withdrawals oc) (insertWithdrawals pubs);
          (redeemers, e8) = run_insert (fo_redeemers oc) (insertRedeemers pubs);
          (metadata, e9) = run_insert (fo_metadata oc) (insertMetadata pubs)
      in (\<lparr>tb_blocks = tb_blocks f @ blocks, tb_transactions = tb_transactions f @ transactions,
           tb_inputs = tb_inputs f @ inputs, tb_outputs = tb_outputs f @ outputs,
           tb_datum_bodies = tb_datum_bodies f @ bodies,
           tb_datum_observations = tb_datum_observations f @ observations,
           tb_withdrawals = tb_withdrawals f @ withdrawals, tb_redeemers = tb_redeemers f @ redeemers,
           tb_metadata = tb_metadata f @ metadata\<rparr>,
          joined [e1, e2, e3, e4, e5, e6, e7, e8, e9]))"

section \<open>Adoptions\<close>

definition adoption_row :: "int \<Rightarrow> publication \<Rightarrow> chain_event" where
  "adoption_row ebbType item = (let p = pointForBlock ebbType (pb_Block item) in
     \<lparr>ce_event_seq = pb_EventSeq item, ce_publication_id = pb_PublicationID item,
      ce_event_kind = Adoption, ce_active = True, ce_rollback_id = None,
      ce_block_hash = bytes32 (pt_Hash p), ce_slot = pt_Slot p, ce_block_number = pt_BlockNumber p,
      ce_is_byron_ebb = pt_IsByronEBB p, ce_writer_id = pb_WriterID item,
      ce_recorded_at = pb_InsertedAt item\<rparr>)"

definition insertAdoptions :: "insert_outcome \<Rightarrow> int \<Rightarrow> publication list \<Rightarrow> database \<Rightarrow>
    database \<times> store_error option" where
  "insertAdoptions oc ebbType pubs db =
     (let (rows, err) = run_insert oc (Inr (Some (map (adoption_row ebbType) pubs)))
      in (db\<lparr>db_chain_events := db_chain_events db @ rows\<rparr>, err))"

text \<open>The row check of \<^verbatim>\<open>adoptionsCommitted\<close>, in the order of the source.\<close>

definition adoption_matches :: "int \<Rightarrow> publication \<Rightarrow> chain_event \<Rightarrow> bool" where
  "adoption_matches ebbType item r = (let p = pointForBlock ebbType (pb_Block item) in
     ce_publication_id r = pb_PublicationID item \<and> ce_event_kind r = Adoption \<and> ce_active r \<and>
     ce_rollback_id r = None \<and> ce_block_hash r = bytes32 (pt_Hash p) \<and> ce_slot r = pt_Slot p \<and>
     ce_block_number r = pt_BlockNumber p \<and> ce_is_byron_ebb r = pt_IsByronEBB p \<and>
     ce_writer_id r = pb_WriterID item \<and> ce_recorded_at r = pb_InsertedAt item)"

text \<open>\<open>expected\<close> is the Go map: a later publication with the same event would overwrite.\<close>

definition expected_map :: "publication list \<Rightarrow> u64 \<Rightarrow> publication option" where
  "expected_map pubs = map_of (rev (map (\<lambda>item. (pb_EventSeq item, item)) pubs))"

fun readback_rows :: "int \<Rightarrow> (u64 \<Rightarrow> publication option) \<Rightarrow> chain_event list \<Rightarrow> u64 list \<Rightarrow>
    store_error + u64 list" where
  "readback_rows ebbType expected [] seen = Inr seen"
| "readback_rows ebbType expected (r # rs) seen =
     (case expected (ce_event_seq r) of
        None \<Rightarrow> Inl ErrCommitConflict
      | Some item \<Rightarrow>
          if ce_event_seq r \<in> set seen \<or> \<not> adoption_matches ebbType item r then Inl ErrCommitConflict
          else readback_rows ebbType expected rs (ce_event_seq r # seen))"

definition adoptionsCommitted :: "query_outcome \<Rightarrow> int \<Rightarrow> publication list \<Rightarrow> database \<Rightarrow>
    store_error + bool" where
  "adoptionsCommitted q ebbType pubs db =
     (if length pubs = 0 then Inl ErrEmptyBatch
      else bindE (query_rows q (adoptionReadbackSQL db (pb_EventSeq (pubs ! 0))
               (pb_EventSeq (pubs ! (length pubs - 1))))) (\<lambda>(delivered, failed).
        bindE (readback_rows ebbType (expected_map pubs) delivered []) (\<lambda>seen.
          if failed then Inl ErrQuery
          else if length seen = 0 then Inr False
          else if length seen \<noteq> card (pb_EventSeq ` set pubs) then Inl ErrCommitConflict
          else Inr True)))"

section \<open>Publish\<close>

text \<open>The loop that numbers the candidates.\<close>

definition make_publication :: "store_handle \<Rightarrow> time \<Rightarrow> u64 \<Rightarrow> u64 \<Rightarrow> nat \<times> candidate \<Rightarrow> publication" where
  "make_publication h insertedAt firstPublication firstEvent = (\<lambda>(index, c).
     \<lparr>pb_PublicationID = firstPublication + of_nat index, pb_EventSeq = firstEvent + of_nat index,
      pb_Block = ca_Block c, pb_Counts = countFacts (ca_Block c), pb_ContentHash = ca_ContentHash c,
      pb_Relays = ca_Relays c, pb_WriterID = sh_writerID h, pb_InsertedAt = insertedAt\<rparr>)"

definition make_block :: "store_handle \<Rightarrow> u64 \<Rightarrow> u64 \<Rightarrow> nat \<times> candidate \<Rightarrow> canonical_block" where
  "make_block h firstPublication firstEvent = (\<lambda>(index, c).
     \<lparr>cb_PublicationID = firstPublication + of_nat index, cb_EventSeq = firstEvent + of_nat index,
      cb_Point = pointForBlock (sh_ebbType h) (ca_Block c)\<rparr>)"

text \<open>
  From the fact inserts on, with the identifiers allocated. The result is the database, the commit
  and the error.
\<close>

definition publish_rows :: "publish_env \<Rightarrow> store_handle \<Rightarrow> dataset_identity \<Rightarrow> publication list \<Rightarrow> commit \<Rightarrow>
    database \<Rightarrow> database \<times> commit \<times> store_error option" where
  "publish_rows env h identity pubs commit db =
     (let (facts, factErr) = insertFactsConcurrently (pe_facts env) identity pubs (db_facts db);
          db1 = db\<lparr>db_facts := facts\<rparr>
      in if factErr \<noteq> None then (db1, commit, factErr)
         else if \<not> pe_heldBeforeAdoption env then (db1, commit, Some ErrLockLost)
         else (let (db2, insertErr) = insertAdoptions (pe_adoptions env) (sh_ebbType h) pubs db1
          in if insertErr = None then (db2, commit\<lparr>cm_Committed := True\<rparr>, None)
             else (case adoptionsCommitted (pe_readback env) (sh_ebbType h) pubs db2 of
                Inl ErrCommitConflict \<Rightarrow> (db2, commit, Some ErrCommitConflict)
              | Inl _ \<Rightarrow> (db2, commit, Some ErrCommitIndeterminate)
              | Inr True \<Rightarrow> (db2, commit\<lparr>cm_Committed := True, cm_ResolvedUncertain := True\<rparr>, None)
              | Inr False \<Rightarrow> (db2, commit, Some ErrNotCommitted))))"

definition Publish :: "publish_env \<Rightarrow> candidate list \<Rightarrow> store_handle \<Rightarrow> database \<Rightarrow>
    store_handle \<times> database \<times> commit \<times> store_error option" where
  "Publish env candidates h db =
     (if length candidates = 0 then (h, db, empty_commit, Some ErrEmptyBatch)
      else if \<not> pe_lock env then (h, db, empty_commit, Some ErrMissingLock)
      else case validateCandidates candidates of Inl e \<Rightarrow> (h, db, empty_commit, Some e)
      | Inr _ \<Rightarrow>
      if \<not> pe_heldFirst env then (h, db, empty_commit, Some ErrLockNotHeld)
      else case initializedStore h of Inl e \<Rightarrow> (h, db, empty_commit, Some e)
      | Inr (identity, a) \<Rightarrow>
      (let count = of_nat (length candidates) in
       case reservePublications a count of Inl e \<Rightarrow> (h, db, empty_commit, Some (ErrAllocator e))
       | Inr (firstPublication, a1) \<Rightarrow>
       (case reserveEvents a1 count of
          Inl e \<Rightarrow> (h\<lparr>sh_allocator := Some a1\<rparr>, db,
             empty_commit\<lparr>cm_FirstPublicationID := firstPublication,
               cm_LastPublicationID := firstPublication + count - 1\<rparr>, Some (ErrAllocator e))
        | Inr (firstEvent, a2) \<Rightarrow>
            let pubs = map (make_publication h (now_micro (pe_clock env)) firstPublication firstEvent)
                  (enumerate 0 candidates);
                commit = \<lparr>cm_FirstPublicationID = firstPublication,
                  cm_LastPublicationID = firstPublication + count - 1,
                  cm_FirstEventSeq = firstEvent, cm_LastEventSeq = firstEvent + count - 1,
                  cm_Blocks = map (make_block h firstPublication firstEvent) (enumerate 0 candidates),
                  cm_Committed = False, cm_ResolvedUncertain = False\<rparr>
            in (h\<lparr>sh_allocator := Some a2\<rparr>, publish_rows env h identity pubs commit db))))"

section \<open>Facts\<close>

lemma subseq_sorted_wrt: "subseq xs ys \<Longrightarrow> sorted_wrt P ys \<Longrightarrow> sorted_wrt P xs"
proof (induction rule: list_emb.induct)
  case (list_emb_Cons2 x y xs ys)
  then show ?case by (auto dest: list_emb_set)
qed auto

lemma subseq_set: "subseq xs ys \<Longrightarrow> set xs \<subseteq> set ys"
  by (auto dest: list_emb_set)

lemma subseq_distinct_list: "subseq xs ys \<Longrightarrow> distinct ys \<Longrightarrow> distinct xs"
  by (auto simp: subseq_conv_nths)

lemma durable_rows_subseq: "subseq (durable_rows oc rows) rows"
proof (cases oc)
  case (SendFails durable)
  have "subseq (map fst (filter snd (zip rows durable))) (map fst (zip rows durable))"
    by (intro subseq_map subseq_filter_left)
  moreover have "subseq (map fst (zip rows durable)) rows"
    unfolding map_fst_zip_take by (intro prefix_imp_subseq take_is_prefix)
  ultimately show ?thesis using SendFails by (simp add: subseq_order.order_trans)
qed simp_all

text \<open>A row of any fact batch carries the publication identifier of one of the publications.\<close>

definition rows_of :: "('row \<Rightarrow> u64) \<Rightarrow> publication list \<Rightarrow> 'row batch \<Rightarrow> bool" where
  "rows_of ident pubs b \<longleftrightarrow>
     (\<forall>rows. b = Inr (Some rows) \<longrightarrow> ident ` set rows \<subseteq> pb_PublicationID ` set pubs)"

lemma run_insert_rows_of:
  assumes "rows_of ident pubs b"
  shows "ident ` set (fst (run_insert oc b)) \<subseteq> pb_PublicationID ` set pubs"
  using assms durable_rows_subset [of oc] unfolding rows_of_def run_insert_def
  by (fastforce split: sum.splits option.splits)

lemma set_tx_facts:
  "set (tx_facts f pubs) = (\<Union>item \<in> set pubs. \<Union>t \<in> set (bk_Transactions (pb_Block item)). set (f item t))"
  by (auto simp: tx_facts_def)

lemma transaction_row_id: "transaction_row item t = Inr r \<Longrightarrow> t_publication_id r = pb_PublicationID item"
  by (auto simp: transaction_row_def err_simps)

lemma batches_rows_of:
  "rows_of b_publication_id pubs (insertBlocks magic pubs)"
  "rows_of t_publication_id pubs (insertTransactions pubs)"
  "rows_of i_publication_id pubs (insertInputs pubs)"
  "rows_of o_publication_id pubs (insertOutputs pubs)"
  "rows_of d_publication_id pubs (insertDatumBodies pubs)"
  "rows_of x_publication_id pubs (insertDatumObservations pubs)"
  "rows_of w_publication_id pubs (insertWithdrawals pubs)"
  "rows_of r_publication_id pubs (insertRedeemers pubs)"
  "rows_of m_publication_id pubs (insertMetadata pubs)"
proof -
  show "rows_of b_publication_id pubs (insertBlocks magic pubs)"
    by (auto simp: rows_of_def insertBlocks_def block_row_def Let_def)
  show "rows_of t_publication_id pubs (insertTransactions pubs)"
    by (auto simp: rows_of_def insertTransactions_def err_simps dest!: mapM_set transaction_row_id
        split: if_splits)
  show "rows_of i_publication_id pubs (insertInputs pubs)"
    by (auto simp: rows_of_def insertInputs_def set_tx_facts input_row_def)
  show "rows_of o_publication_id pubs (insertOutputs pubs)"
    by (auto simp: rows_of_def insertOutputs_def set_tx_facts output_row_def)
  show "rows_of d_publication_id pubs (insertDatumBodies pubs)"
    by (auto simp: rows_of_def insertDatumBodies_def datum_body_row_def)
  show "rows_of x_publication_id pubs (insertDatumObservations pubs)"
    by (auto simp: rows_of_def insertDatumObservations_def set_tx_facts datum_observation_row_def)
  show "rows_of w_publication_id pubs (insertWithdrawals pubs)"
    by (auto simp: rows_of_def insertWithdrawals_def set_tx_facts withdrawal_row_def)
  show "rows_of r_publication_id pubs (insertRedeemers pubs)"
    by (auto simp: rows_of_def insertRedeemers_def set_tx_facts redeemer_row_def)
  show "rows_of m_publication_id pubs (insertMetadata pubs)"
    by (auto simp: rows_of_def insertMetadata_def set_tx_facts metadata_row_of_def split: option.splits)
qed

definition fact_ids :: "fact_tables \<Rightarrow> u64 set" where
  "fact_ids f = b_publication_id ` set (tb_blocks f) \<union> t_publication_id ` set (tb_transactions f) \<union>
     i_publication_id ` set (tb_inputs f) \<union> o_publication_id ` set (tb_outputs f) \<union>
     d_publication_id ` set (tb_datum_bodies f) \<union> x_publication_id ` set (tb_datum_observations f) \<union>
     w_publication_id ` set (tb_withdrawals f) \<union> r_publication_id ` set (tb_redeemers f) \<union>
     m_publication_id ` set (tb_metadata f)"

lemma publication_ids_facts:
  "publication_ids db = fact_ids (db_facts db) \<union> ce_publication_id ` set (db_chain_events db)"
  by (auto simp: publication_ids_def publication_columns_def fact_ids_def Let_def)

lemma insertFactsConcurrently_ids:
  "fact_ids (fst (insertFactsConcurrently oc identity pubs f)) \<subseteq> fact_ids f \<union> pb_PublicationID ` set pubs"
proof -
  note ids = batches_rows_of [THEN run_insert_rows_of]
  show ?thesis
    unfolding fact_ids_def insertFactsConcurrently_def Let_def
    by (auto simp: case_prod_beta
        dest: ids(1) [THEN subsetD, OF imageI] ids(2) [THEN subsetD, OF imageI]
          ids(3) [THEN subsetD, OF imageI] ids(4) [THEN subsetD, OF imageI]
          ids(5) [THEN subsetD, OF imageI] ids(6) [THEN subsetD, OF imageI]
          ids(7) [THEN subsetD, OF imageI] ids(8) [THEN subsetD, OF imageI]
          ids(9) [THEN subsetD, OF imageI])
qed

section \<open>The numbered batch\<close>

text \<open>
  \<open>numbered\<close> is what the allocator gives a batch: consecutive identifiers without wrap-around,
  above the bounds \<open>p\<close> and \<open>e\<close>.
\<close>

definition numbered :: "nat \<Rightarrow> nat \<Rightarrow> publication list \<Rightarrow> bool" where
  "numbered p e pubs \<longleftrightarrow> 0 < p \<and> 0 < e \<and>
     (\<forall>i < length pubs. unat (pb_PublicationID (pubs ! i)) = p + i \<and> unat (pb_EventSeq (pubs ! i)) = e + i)"

lemma numbered_sorted:
  assumes "numbered p e pubs"
  shows "sorted_wrt (\<lambda>a b. pb_EventSeq a < pb_EventSeq b) pubs"
    and "sorted_wrt (\<lambda>a b. pb_PublicationID a < pb_PublicationID b) pubs"
  using assms by (auto simp: numbered_def sorted_wrt_iff_nth_less word_less_nat_alt)

lemma numbered_memb:
  assumes "numbered p e pubs" and "item \<in> set pubs"
  shows "p \<le> unat (pb_PublicationID item)" and "unat (pb_PublicationID item) < p + length pubs"
    and "e \<le> unat (pb_EventSeq item)" and "unat (pb_EventSeq item) < e + length pubs"
    and "pb_PublicationID item \<noteq> 0" and "pb_EventSeq item \<noteq> 0"
proof -
  from assms(2) obtain i where "i < length pubs" "item = pubs ! i" by (auto simp: in_set_conv_nth)
  with assms(1) show "p \<le> unat (pb_PublicationID item)" "unat (pb_PublicationID item) < p + length pubs"
    "e \<le> unat (pb_EventSeq item)" "unat (pb_EventSeq item) < e + length pubs"
    "pb_PublicationID item \<noteq> 0" "pb_EventSeq item \<noteq> 0"
    by (auto simp: numbered_def u64_neq_0_iff)
qed

lemma sorted_less_distinct: "sorted_wrt (\<lambda>a b. f a < (f b :: 'k :: linorder)) xs \<Longrightarrow> distinct (map f xs)"
  by (induction xs) auto

lemma numbered_distinct:
  assumes "numbered p e pubs"
  shows "distinct (map pb_EventSeq pubs)" and "distinct (map pb_PublicationID pubs)"
  by (rule sorted_less_distinct numbered_sorted [OF assms])+

lemma adoption_row_simps [simp]:
  "ce_event_seq (adoption_row t item) = pb_EventSeq item"
  "ce_publication_id (adoption_row t item) = pb_PublicationID item"
  "ce_event_kind (adoption_row t item) = Adoption"
  "adoption_matches t item (adoption_row t item)"
  by (simp_all add: adoption_row_def adoption_matches_def Let_def)

lemma row_block_adoption:
  "row_block (adoption_row t item) = \<lparr>cb_PublicationID = pb_PublicationID item,
     cb_EventSeq = pb_EventSeq item, cb_Point = pointForBlock t (pb_Block item)\<rparr>"
  by (simp add: row_block_def row_point_def adoption_row_def pointForBlock_def Let_def)

lemma wf_adoption_row:
  "pb_EventSeq item \<noteq> 0 \<Longrightarrow> pb_PublicationID item \<noteq> 0 \<Longrightarrow> bk_Hash (pb_Block item) \<noteq> zero32 \<Longrightarrow>
     wf_adoption (adoption_row t item)"
  by (simp add: wf_adoption_def adoption_row_def row_point_def pointForBlock_def validPoint_def Let_def)

section \<open>Exact readback\<close>

lemma expected_map_item:
  assumes "distinct (map pb_EventSeq pubs)" and "item \<in> set pubs"
  shows "expected_map pubs (pb_EventSeq item) = Some item"
  unfolding expected_map_def
  using assms by (intro map_of_is_SomeI) (auto simp: comp_def simp flip: rev_map)

lemma readback_rows_ok:
  assumes "distinct (map pb_EventSeq pubs)" and "set xs \<subseteq> adoption_row t ` set pubs"
    and "distinct (map ce_event_seq xs)" and "ce_event_seq ` set xs \<inter> set seen = {}"
  shows "readback_rows t (expected_map pubs) xs seen = Inr (rev (map ce_event_seq xs) @ seen)"
  using assms(2-)
proof (induction xs arbitrary: seen)
  case (Cons r xs)
  then obtain item where item: "item \<in> set pubs" "r = adoption_row t item" by auto
  have "expected_map pubs (pb_EventSeq item) = Some item"
    using assms(1) item(1) by (rule expected_map_item)
  moreover have "pb_EventSeq item \<notin> set seen" using Cons.prems item by auto
  moreover have "readback_rows t (expected_map pubs) xs (ce_event_seq r # seen) =
      Inr (rev (map ce_event_seq xs) @ ce_event_seq r # seen)"
    using Cons.prems by (intro Cons.IH) auto
  ultimately show ?case using item by simp
qed simp

text \<open>
  The rows the readback finds are the durable rows of this batch: the range was not used before, so a
  complete answer distinguishes the three cases exactly.
\<close>

lemma adoptionsCommitted_exact:
  assumes num: "numbered p e pubs" and ne: "pubs \<noteq> []"
    and fresh: "\<And>r. r \<in> set (db_chain_events db) \<Longrightarrow> unat (ce_event_seq r) < e"
    and sub: "subseq D (map (adoption_row t) pubs)"
    and db': "db_chain_events db' = db_chain_events db @ D"
  shows "adoptionsCommitted q t pubs db' =
    (if q = QueryOk then
       if D = [] then Inr False
       else if D = map (adoption_row t) pubs then Inr True else Inl ErrCommitConflict
     else Inl ErrQuery)"
proof -
  let ?first = "pb_EventSeq (pubs ! 0)" and ?last = "pb_EventSeq (pubs ! (length pubs - 1))"
  let ?xs = "adoptionReadbackSQL db' ?first ?last"
  let ?in = "\<lambda>r. ?first \<le> ce_event_seq r \<and> ce_event_seq r \<le> ?last"
  have D: "set D \<subseteq> adoption_row t ` set pubs" using subseq_set [OF sub] by simp
  have u: "unat ?first = e" "unat ?last = e + (length pubs - 1)"
    using num ne by (auto simp: numbered_def)
  have "filter ?in (db_chain_events db) = []"
    using fresh u by (fastforce simp: filter_empty_conv word_le_nat_alt)
  moreover have "filter ?in D = D"
  proof (rule filter_True, rule ballI)
    fix r
    assume "r \<in> set D"
    with D obtain item where "item \<in> set pubs" "r = adoption_row t item" by auto
    with numbered_memb(3,4) [OF num this(1)] u show "?in r" by (auto simp: word_le_nat_alt)
  qed
  ultimately have set_xs: "set ?xs = set D" and len_xs: "length ?xs = length D"
    by (simp_all add: adoptionReadbackSQL_def db')
  have "distinct (map ce_event_seq (map (adoption_row t) pubs))"
    using numbered_distinct(1) [OF num] by (simp add: comp_def)
  then have "distinct D" using subseq_distinct_list [OF sub] distinct_map by blast
  then have dxs: "distinct ?xs" using set_xs len_xs by (metis card_distinct distinct_card)
  have inj: "inj_on ce_event_seq (adoption_row t ` set pubs)"
    using numbered_distinct(1) [OF num] by (auto simp: distinct_map inj_on_def)
  have read: "readback_rows t (expected_map pubs) (take n ?xs) [] = Inr (rev (map ce_event_seq (take n ?xs)))" for n
  proof -
    have "readback_rows t (expected_map pubs) (take n ?xs) [] = Inr (rev (map ce_event_seq (take n ?xs)) @ [])"
    proof (rule readback_rows_ok [OF numbered_distinct(1) [OF num]])
      show sub': "set (take n ?xs) \<subseteq> adoption_row t ` set pubs"
        using D set_xs by (auto dest: in_set_takeD)
      show "distinct (map ce_event_seq (take n ?xs))"
        using dxs inj sub' by (simp add: distinct_map inj_on_subset)
    qed simp
    then show ?thesis by simp
  qed
  have card: "card (pb_EventSeq ` set pubs) = length pubs"
    using numbered_distinct(1) [OF num] by (metis distinct_card length_map list.set_map)
  have full: "length D = length pubs \<longleftrightarrow> D = map (adoption_row t) pubs"
    using subseq_same_length [OF sub] by auto
  show ?thesis
  proof (cases q)
    case QueryOk
    with read [of "length ?xs"] ne card full len_xs show ?thesis
      by (auto simp: adoptionsCommitted_def)
  qed (use read ne in \<open>simp_all add: adoptionsCommitted_def\<close>)
qed

section \<open>The effect of a publication\<close>

lemma joined_Some: "joined errs = Some e \<Longrightarrow> Some e \<in> set errs"
proof -
  assume j: "joined errs = Some e"
  have "set (filter (\<lambda>e. e \<noteq> None) errs) \<subseteq> set errs" by auto
  with j show ?thesis
    unfolding joined_def by (cases "filter (\<lambda>e. e \<noteq> None) errs") (auto simp del: set_filter filter_is_subset)
qed

lemma run_insert_error:
  "snd (run_insert oc b) = Some e \<Longrightarrow> e = ErrInsert \<or> b = Inl e"
  by (auto simp: run_insert_def split: sum.splits option.splits if_splits)

lemma count_roles_error: "count_roles is acc = Inl e \<Longrightarrow> e = ErrUnknownRole"
  by (induction "is" acc rule: count_roles.induct) (auto split: if_splits)

lemma mapM_Inl: "mapM f xs = Inl e \<Longrightarrow> \<exists>x \<in> set xs. f x = Inl e"
  by (induction xs) (auto simp: err_simps)

lemma insertTransactions_error: "insertTransactions pubs = Inl e \<Longrightarrow> e = ErrUnknownRole"
  by (auto simp: insertTransactions_def err_simps transaction_row_def split: if_splits
      dest!: mapM_Inl count_roles_error)

lemma insertFactsConcurrently_error:
  assumes "snd (insertFactsConcurrently oc identity pubs f) = Some e"
  shows "e = ErrInsert \<or> e = ErrUnknownRole"
proof -
  have plain: "insertBlocks (di_NetworkMagic identity) pubs \<noteq> Inl e" "insertInputs pubs \<noteq> Inl e"
    "insertOutputs pubs \<noteq> Inl e" "insertDatumBodies pubs \<noteq> Inl e" "insertDatumObservations pubs \<noteq> Inl e"
    "insertWithdrawals pubs \<noteq> Inl e" "insertRedeemers pubs \<noteq> Inl e" "insertMetadata pubs \<noteq> Inl e"
    by (simp_all add: insertBlocks_def insertInputs_def insertOutputs_def insertDatumBodies_def
        insertDatumObservations_def insertWithdrawals_def insertRedeemers_def insertMetadata_def)
  from assms show ?thesis
    unfolding insertFactsConcurrently_def Let_def case_prod_beta snd_conv
    by (auto dest!: joined_Some [THEN subst [where P = "\<lambda>x. x", OF refl]] sym [of "Some e"] run_insert_error
        insertTransactions_error simp: plain)
qed

definition publish_outcome :: "canonical_block list \<Rightarrow> canonical_block list \<Rightarrow> bool \<Rightarrow>
    store_error option \<Rightarrow> bool" where
  "publish_outcome blocks kept committed err \<longleftrightarrow>
     (committed \<longleftrightarrow> err = None) \<and>
     (case err of
        None \<Rightarrow> kept = blocks
      | Some ErrCommitConflict \<Rightarrow> kept \<noteq> [] \<and> kept \<noteq> blocks
      | Some ErrCommitIndeterminate \<Rightarrow> True
      | Some _ \<Rightarrow> kept = [])"

lemma store_inv_adopt:
  assumes inv: "store_inv start a db chain"
    and num: "numbered (publication_bound a) (event_bound a) pubs"
    and hashes: "\<And>item. item \<in> set pubs \<Longrightarrow> bk_Hash (pb_Block item) \<noteq> zero32"
    and a': "publication_bound a' = publication_bound a + length pubs"
      "event_bound a' = event_bound a + length pubs"
    and facts: "fact_ids (db_facts db') \<subseteq> fact_ids (db_facts db) \<union> pb_PublicationID ` set pubs"
    and sub: "subseq D (map (adoption_row t) pubs)"
    and db': "db_chain_events db' = db_chain_events db @ D" "db_rollbacks db' = db_rollbacks db"
  shows "store_inv start a' db' (rev (map row_block D) @ chain)"
proof -
  have fresh: "allocator_fresh a db" and chain: "chain_inv start db chain"
    using inv by (auto simp: store_inv_def)
  have D: "\<exists>item \<in> set pubs. r = adoption_row t item" if "r \<in> set D" for r
    using that subseq_set [OF sub] by auto
  have "chain_inv start db' (rev (map row_block D) @ chain)"
  proof (rule chain_inv_append_adoptions [OF chain db'])
    fix r
    assume "r \<in> set D"
    then obtain item where item: "item \<in> set pubs" "r = adoption_row t item" using D by blast
    note m = numbered_memb [OF num item(1)]
    show "ce_event_kind r = Adoption" by (simp add: item)
    show "wf_adoption r" using item m hashes by (simp add: wf_adoption_row)
    show "s < ce_event_seq r" if "s \<in> event_seqs db" for s
      using that fresh m(3) item by (fastforce simp: allocator_fresh_def word_less_nat_alt)
    show "ce_publication_id r \<noteq> ce_publication_id x" if "x \<in> set (db_chain_events db)" for x
    proof -
      have "ce_publication_id x \<in> publication_ids db" using that by (simp add: publication_ids_facts)
      with fresh m(1) item show ?thesis by (fastforce simp: allocator_fresh_def)
    qed
  next
    have "sorted_wrt (\<lambda>a b. ce_event_seq a < ce_event_seq b) (map (adoption_row t) pubs)"
      using numbered_sorted(1) [OF num] by (simp add: sorted_wrt_map)
    then show "sorted_wrt (\<lambda>a b. ce_event_seq a < ce_event_seq b) D"
      by (rule subseq_sorted_wrt [OF sub])
    have "sorted_wrt (\<lambda>a b. ce_publication_id a < ce_publication_id b) (map (adoption_row t) pubs)"
      using numbered_sorted(2) [OF num] by (simp add: sorted_wrt_map)
    then show "distinct (map ce_publication_id D)"
      by (intro sorted_less_distinct subseq_sorted_wrt [OF sub])
  qed
  moreover have "allocator_fresh a' db'"
    unfolding allocator_fresh_def
  proof (intro conjI ballI)
    fix x
    assume "x \<in> publication_ids db'"
    then have "x \<in> publication_ids db \<or> x \<in> pb_PublicationID ` set pubs"
      using facts D by (fastforce simp: publication_ids_facts db')
    then show "unat x < publication_bound a'"
    proof
      assume "x \<in> publication_ids db"
      with fresh a'(1) show ?thesis by (fastforce simp: allocator_fresh_def)
    next
      assume "x \<in> pb_PublicationID ` set pubs"
      with numbered_memb(2) [OF num] a'(1) show ?thesis by auto
    qed
  next
    fix s
    assume "s \<in> event_seqs db'"
    then have "s \<in> event_seqs db \<or> s \<in> pb_EventSeq ` set pubs"
      using D by (fastforce simp: event_seqs_def db')
    then show "unat s < event_bound a'"
    proof
      assume "s \<in> event_seqs db"
      with fresh a'(2) show ?thesis by (fastforce simp: allocator_fresh_def)
    next
      assume "s \<in> pb_EventSeq ` set pubs"
      with numbered_memb(4) [OF num] a'(2) show ?thesis by auto
    qed
  qed
  ultimately show ?thesis by (simp add: store_inv_def)
qed

lemma store_inv_facts_only:
  assumes "store_inv start a db chain"
    and "numbered (publication_bound a) (event_bound a) pubs"
    and "\<And>item. item \<in> set pubs \<Longrightarrow> bk_Hash (pb_Block item) \<noteq> zero32"
    and "publication_bound a' = publication_bound a + length pubs"
      "event_bound a' = event_bound a + length pubs"
    and "fact_ids (db_facts db') \<subseteq> fact_ids (db_facts db) \<union> pb_PublicationID ` set pubs"
    and "db_chain_events db' = db_chain_events db" "db_rollbacks db' = db_rollbacks db"
  shows "store_inv start a' db' chain"
  using store_inv_adopt [OF assms(1-6), of "[]"] assms(7,8) by simp

lemma publish_rows_effect:
  assumes inv: "store_inv start a db chain"
    and num: "numbered (publication_bound a) (event_bound a) pubs" and ne: "pubs \<noteq> []"
    and hashes: "\<And>item. item \<in> set pubs \<Longrightarrow> bk_Hash (pb_Block item) \<noteq> zero32"
    and a': "publication_bound a' = publication_bound a + length pubs"
      "event_bound a' = event_bound a + length pubs"
    and blocks: "cm_Blocks commit = map row_block (map (adoption_row (sh_ebbType h)) pubs)"
    and nc: "\<not> cm_Committed commit"
    and run: "publish_rows env h identity pubs commit db = (db', commit', err)"
  shows "cm_Blocks commit' = cm_Blocks commit \<and>
    (\<exists>kept. subseq kept (cm_Blocks commit) \<and> store_inv start a' db' (rev kept @ chain) \<and>
       publish_outcome (cm_Blocks commit) kept (cm_Committed commit') err)"
proof -
  let ?t = "sh_ebbType h"
  let ?rows = "map (adoption_row ?t) pubs"
  let ?ins = "insertFactsConcurrently (pe_facts env) identity pubs (db_facts db)"
  let ?db1 = "db\<lparr>db_facts := fst ?ins\<rparr>"
  let ?D = "durable_rows (pe_adoptions env) ?rows"
  let ?db2 = "?db1\<lparr>db_chain_events := db_chain_events db @ ?D\<rparr>"
  have ids: "fact_ids (fst ?ins) \<subseteq> fact_ids (db_facts db) \<union> pb_PublicationID ` set pubs"
    by (rule insertFactsConcurrently_ids)
  have inv1: "store_inv start a' ?db1 ([] @ chain)"
    using ids by (simp add: store_inv_facts_only [OF inv num hashes a'])
  have sub: "subseq ?D ?rows" by (rule durable_rows_subseq)
  have inv2: "store_inv start a' ?db2 (rev (map row_block ?D) @ chain)"
    using ids by (intro store_inv_adopt [OF inv num hashes a' _ sub]) simp_all
  have fresh: "unat (ce_event_seq r) < event_bound a" if "r \<in> set (db_chain_events ?db1)" for r
    using inv that by (auto simp: store_inv_def allocator_fresh_def event_seqs_def)
  have adopted: "insertAdoptions (pe_adoptions env) ?t pubs ?db1 =
      (?db2, if pe_adoptions env = SendOk then None else Some ErrInsert)"
    by (simp add: insertAdoptions_def run_insert_def)
  have rb: "adoptionsCommitted (pe_readback env) ?t pubs ?db2 =
    (if pe_readback env = QueryOk then
       if ?D = [] then Inr False else if ?D = ?rows then Inr True else Inl ErrCommitConflict
     else Inl ErrQuery)"
    by (rule adoptionsCommitted_exact [OF num ne fresh sub]) simp_all
  have kept: "subseq (map row_block ?D) (cm_Blocks commit)" "subseq [] (cm_Blocks commit)"
    using subseq_map [OF sub, of row_block] blocks by simp_all
  consider (facts) e where "snd ?ins = Some e" "db' = ?db1" "commit' = commit" "err = Some e"
      "e = ErrInsert \<or> e = ErrUnknownRole"
    | (lock) "db' = ?db1" "commit' = commit" "err = Some ErrLockLost"
    | (adopt) "db' = ?db2" "cm_Blocks commit' = cm_Blocks commit"
        "publish_outcome (cm_Blocks commit) (map row_block ?D) (cm_Committed commit') err"
  proof (cases "snd ?ins")
    case (Some e)
    show thesis
    proof (rule that(1) [OF Some])
      show "db' = ?db1" "commit' = commit" "err = Some e"
        using run Some by (auto simp: publish_rows_def Let_def case_prod_beta)
      show "e = ErrInsert \<or> e = ErrUnknownRole" by (rule insertFactsConcurrently_error [OF Some])
    qed
  next
    case None
    show thesis
    proof (cases "pe_heldBeforeAdoption env")
      case False
      with None run that(2) show thesis by (auto simp: publish_rows_def Let_def case_prod_beta)
    next
      case True
      have inj: "map row_block ?D = cm_Blocks commit \<longleftrightarrow> ?D = ?rows"
        using subseq_same_length [OF sub] blocks by (metis length_map)
      show thesis
      proof (rule that(3))
        have run': "(db', commit', err) =
            (if pe_adoptions env = SendOk then (?db2, commit\<lparr>cm_Committed := True\<rparr>, None)
             else if pe_readback env = QueryOk then
               if ?D = [] then (?db2, commit, Some ErrNotCommitted)
               else if ?D = ?rows
                 then (?db2, commit\<lparr>cm_Committed := True, cm_ResolvedUncertain := True\<rparr>, None)
               else (?db2, commit, Some ErrCommitConflict)
             else (?db2, commit, Some ErrCommitIndeterminate))"
          unfolding run [symmetric] publish_rows_def Let_def case_prod_beta adopted fst_conv snd_conv rb None
          using True by simp
        then show "db' = ?db2" "cm_Blocks commit' = cm_Blocks commit" by (auto split: if_splits)
        show "publish_outcome (cm_Blocks commit) (map row_block ?D) (cm_Committed commit') err"
        proof (cases "pe_adoptions env = SendOk")
          case True
          then have "?D = ?rows" by simp
          then have "map row_block ?D = cm_Blocks commit" by (simp only: blocks)
          with run' True show ?thesis by (simp add: publish_outcome_def)
        next
          case False
          with run' inj nc show ?thesis by (auto simp: publish_outcome_def split: if_splits)
        qed
      qed
    qed
  qed
  then show ?thesis
  proof cases
    case facts
    then have "publish_outcome (cm_Blocks commit) [] (cm_Committed commit') err"
      using nc by (auto simp: publish_outcome_def)
    with facts inv1 kept(2) show ?thesis by (metis rev.simps(1))
  next
    case lock
    then have "publish_outcome (cm_Blocks commit) [] (cm_Committed commit') err"
      using nc by (auto simp: publish_outcome_def)
    with lock inv1 kept(2) show ?thesis by (metis rev.simps(1))
  next
    case adopt
    with inv2 kept(1) show ?thesis by blast
  qed
qed

lemma make_publication_numbered:
  assumes p: "reservePublications a count = Inr (firstPublication, a1)"
    and e: "reserveEvents a1 count = Inr (firstEvent, a2)"
    and len: "unat count = length candidates"
  shows "numbered (publication_bound a) (event_bound a)
    (map (make_publication h now firstPublication firstEvent) (enumerate 0 candidates))"
proof -
  have "0 < publication_bound a" using pub.reserve_pos [OF p] pub.reserve_first [OF p] by simp
  moreover have "event_bound a1 = event_bound a" by (rule reservePublications_frame [OF p])
  moreover have "0 < event_bound a1" using ev.reserve_pos [OF e] ev.reserve_first [OF e] by simp
  ultimately show ?thesis
    using pub.reserved_id(1) [OF p] ev.reserved_id(1) [OF e] len
    by (simp add: numbered_def make_publication_def nth_enumerate_eq)
qed

lemma make_block_row:
  "map (make_block h fp fe) (enumerate 0 candidates) =
     map row_block (map (adoption_row (sh_ebbType h))
       (map (make_publication h now fp fe) (enumerate 0 candidates)))"
  by (auto simp: make_block_def make_publication_def row_block_adoption)

lemma make_publication_hashes:
  assumes "validateCandidates candidates = Inr u"
    and "item \<in> set (map (make_publication h now fp fe) (enumerate 0 candidates))"
  shows "bk_Hash (pb_Block item) \<noteq> zero32"
proof -
  from assms(2) obtain i c where "(i, c) \<in> set (enumerate 0 candidates)"
    and item: "item = make_publication h now fp fe (i, c)" by auto
  then have "c \<in> set candidates" by (auto simp: enumerate_eq_zip dest: set_zip_rightD)
  with assms(1) have "\<not> candidate_error c"
    by (auto simp: validateCandidates_def list_ex_iff split: if_splits)
  then show ?thesis by (simp add: item make_publication_def candidate_error_def)
qed

text \<open>
  What one call of \<^verbatim>\<open>Publish\<close> does to the chain, on every path: the blocks that became
  durable are pushed on it, all of them when the call reports success, none when it reports
  \<^verbatim>\<open>ErrNotCommitted\<close> or fails earlier, some but not all on \<^verbatim>\<open>ErrCommitConflict\<close>.
\<close>

definition handle_inv :: "store_handle \<Rightarrow> database \<Rightarrow> canonical_block list \<Rightarrow> bool" where
  "handle_inv h db chain \<longleftrightarrow> (\<exists>i a. sh_identity h = Some i \<and> sh_allocator h = Some a \<and>
     store_inv (di_Start i) a db chain)"

lemma Publish_effect:
  assumes inv: "handle_inv h db chain" and len: "length candidates < 2 ^ 63"
    and run: "Publish env candidates h db = (h', db', commit, err)"
  shows "sh_identity h' = sh_identity h \<and>
    (\<exists>kept. subseq kept (cm_Blocks commit) \<and> handle_inv h' db' (rev kept @ chain) \<and>
       publish_outcome (cm_Blocks commit) kept (cm_Committed commit) err)"
proof -
  from inv obtain i a where h: "sh_identity h = Some i" "sh_allocator h = Some a"
    and si: "store_inv (di_Start i) a db chain" by (auto simp: handle_inv_def)
  have early: ?thesis if "h' = h" "db' = db" "commit = empty_commit" "err = Some e"
    "e \<noteq> ErrCommitConflict" for e
  proof -
    have "publish_outcome (cm_Blocks commit) [] (cm_Committed commit) err"
      using that by (auto simp: publish_outcome_def empty_commit_def split: store_error.split)
    with that inv show ?thesis by (metis append_Nil list_emb_Nil rev.simps(1))
  qed
  let ?count = "of_nat (length candidates) :: u64"
  have count: "unat ?count = length candidates" using len by (simp add: unat_of_nat)
  show ?thesis
  proof (cases "length candidates = 0 \<or> \<not> pe_lock env \<or> validateCandidates candidates \<noteq> Inr () \<or>
      \<not> pe_heldFirst env")
    case True
    have "h' = h \<and> db' = db \<and> commit = empty_commit \<and> (\<exists>e. err = Some e \<and> e \<noteq> ErrCommitConflict)"
      using True run by (auto simp: Publish_def validateCandidates_def split: if_splits)
    then show ?thesis using early by blast
  next
    case False
    then have ne: "candidates \<noteq> []" and ok: "validateCandidates candidates = Inr ()"
      and env: "pe_lock env" "pe_heldFirst env" by auto
    have init: "initializedStore h = Inr (i, a)" by (simp add: initializedStore_def h)
    show ?thesis
    proof (cases "reservePublications a ?count")
      case (Inl e)
      with run ne ok env init have "h' = h" "db' = db" "commit = empty_commit" "err = Some (ErrAllocator e)"
        by (auto simp: Publish_def Let_def)
      then show ?thesis by (rule early) simp
    next
      case (Inr x)
      then obtain fp a1 where p: "reservePublications a ?count = Inr (fp, a1)" by (cases x) auto
      note pb = pub.reserve_next [OF p] reservePublications_frame [OF p]
      show ?thesis
      proof (cases "reserveEvents a1 ?count")
        case (Inl e)
        with run ne ok env init p have h': "h' = h\<lparr>sh_allocator := Some a1\<rparr>" "db' = db"
          "cm_Blocks commit = []" "\<not> cm_Committed commit" "err = Some (ErrAllocator e)"
          by (auto simp: Publish_def Let_def empty_commit_def)
        have "allocator_fresh a1 db"
          using si pb by (fastforce simp: store_inv_def allocator_fresh_def)
        then have "handle_inv h' db' chain"
          using si h h' by (simp add: handle_inv_def store_inv_def)
        moreover have "publish_outcome (cm_Blocks commit) [] (cm_Committed commit) err"
          using h' by (simp add: publish_outcome_def)
        ultimately show ?thesis using h h' by (intro conjI exI [of _ "[]"]) simp_all
      next
        case (Inr y)
        then obtain fe a2 where e: "reserveEvents a1 ?count = Inr (fe, a2)" by (cases y) auto
        note eb = ev.reserve_next [OF e] reserveEvents_frame [OF e]
        let ?now = "now_micro (pe_clock env)"
        let ?pubs = "map (make_publication h ?now fp fe) (enumerate 0 candidates)"
        let ?commit = "\<lparr>cm_FirstPublicationID = fp, cm_LastPublicationID = fp + ?count - 1,
            cm_FirstEventSeq = fe, cm_LastEventSeq = fe + ?count - 1,
            cm_Blocks = map (make_block h fp fe) (enumerate 0 candidates),
            cm_Committed = False, cm_ResolvedUncertain = False\<rparr>"
        have h': "h' = h\<lparr>sh_allocator := Some a2\<rparr>"
          and rows: "publish_rows env h i ?pubs ?commit db = (db', commit, err)"
          using run ne ok env init p e by (auto simp: Publish_def Let_def)
        have "cm_Blocks commit = cm_Blocks ?commit \<and>
          (\<exists>kept. subseq kept (cm_Blocks ?commit) \<and> store_inv (di_Start i) a2 db' (rev kept @ chain) \<and>
            publish_outcome (cm_Blocks ?commit) kept (cm_Committed commit) err)"
        proof (rule publish_rows_effect [OF si _ _ _ _ _ _ _ rows])
          show "numbered (publication_bound a) (event_bound a) ?pubs"
            by (rule make_publication_numbered [OF p e count])
          show "?pubs \<noteq> []" using ne by (simp add: enumerate_eq_zip)
          show "\<And>item. item \<in> set ?pubs \<Longrightarrow> bk_Hash (pb_Block item) \<noteq> zero32"
            using ok by (rule make_publication_hashes)
          show "publication_bound a2 = publication_bound a + length ?pubs"
            "event_bound a2 = event_bound a + length ?pubs"
            using pb eb count by simp_all
          show "cm_Blocks ?commit = map row_block (map (adoption_row (sh_ebbType h)) ?pubs)"
            by (simp only: make_block_row commit.select_convs)
        qed simp
        then show ?thesis using h h' by (auto simp: handle_inv_def)
      qed
    qed
  qed
qed

lemma Publish_fresh:
  assumes inv: "handle_inv h db chain" and len: "length candidates < 2 ^ 63"
    and run: "Publish env candidates h db = (h', db', commit, err)" and b: "b \<in> set (cm_Blocks commit)"
  shows "cb_PublicationID b \<notin> publication_ids db \<and> cb_EventSeq b \<notin> event_seqs db"
proof -
  from inv obtain i a where h: "sh_identity h = Some i" "sh_allocator h = Some a"
    and fresh: "allocator_fresh a db" by (auto simp: handle_inv_def store_inv_def)
  let ?count = "of_nat (length candidates) :: u64"
  have count: "unat ?count = length candidates" using len by (simp add: unat_of_nat)
  from run b h obtain fp a1 fe a2 commit0 where p: "reservePublications a ?count = Inr (fp, a1)"
    and e: "reserveEvents a1 ?count = Inr (fe, a2)"
    and rows: "publish_rows env h i (map (make_publication h (now_micro (pe_clock env)) fp fe)
        (enumerate 0 candidates)) commit0 db = (db', commit, err)"
    and c0: "cm_Blocks commit0 = map (make_block h fp fe) (enumerate 0 candidates)"
    by (auto simp: Publish_def initializedStore_def empty_commit_def Let_def validateCandidates_def
        split: if_splits sum.splits)
  have "cm_Blocks commit = cm_Blocks commit0"
    using rows by (auto simp: publish_rows_def Let_def case_prod_beta split: if_splits sum.splits
        bool.splits store_error.splits)
  with b c0 obtain k where k: "k < length candidates"
    "b = make_block h fp fe (k, candidates ! k)" by (auto simp: in_set_conv_nth nth_enumerate_eq)
  then have "unat (cb_PublicationID b) = publication_bound a + k" "unat (cb_EventSeq b) = event_bound a + k"
    using pub.reserved_id(1) [OF p] ev.reserved_id(1) [OF e] count reservePublications_frame [OF p]
    by (simp_all add: make_block_def)
  with fresh show ?thesis by (fastforce simp: allocator_fresh_def)
qed

end
