(* ===== verification/Rollback.thy ===== *)
theory Rollback
  imports Chain_Recovery Chain_Rollback Publication
begin

text \<open>
  \<^verbatim>\<open>internal/store/rollback.go\<close>: rollback of the durable chain. The target is resolved
  against the recovered window, the invalidations of its descendants are inserted, and a header row
  commits them; inserts that fail are resolved by exact readback.
\<close>

section \<open>Environment\<close>

datatype membership_readback = MembershipAbsent | MembershipPartial | MembershipComplete

record rollback_env =
  rv_lock :: bool
  rv_heldFirst :: bool
  rv_heldBeforeHeader :: bool
  rv_queries :: state_queries
  rv_rollbackID :: uuid
  rv_clock :: time
  rv_invalidations :: insert_outcome
  rv_invalidationReadback :: query_outcome
  rv_header :: insert_outcome
  rv_headerReadback :: query_outcome
  rv_membershipReadback :: query_outcome

definition empty_rollback_commit :: rollback_commit where
  "empty_rollback_commit = (let p = \<lparr>pt_Origin = False, pt_Slot = 0, pt_Hash = zero32,
       pt_BlockNumber = 0, pt_IsByronEBB = False\<rparr> in
     \<lparr>rc_RollbackID = 0, rc_EventSeq = 0, rc_To = p, rc_OldTip = p, rc_OldTipEventSeq = 0,
      rc_Descendants = [], rc_Committed = False, rc_Noop = False, rc_ResolvedUncertain = False\<rparr>)"

section \<open>Resolving the target\<close>

definition sameWirePoint :: "point \<Rightarrow> point \<Rightarrow> bool" where
  "sameWirePoint left right =
     (if pt_Origin left \<or> pt_Origin right then pt_Origin left = pt_Origin right
      else pt_Slot left = pt_Slot right \<and> pt_Hash left = pt_Hash right)"

definition suppliedPointMetadataMatches :: "point \<Rightarrow> point \<Rightarrow> store_error + unit" where
  "suppliedPointMetadataMatches supplied canonical =
     (if pt_BlockNumber supplied \<noteq> 0 \<and> pt_BlockNumber supplied \<noteq> pt_BlockNumber canonical
      then Inl ErrInvalidRollback
      else if pt_IsByronEBB supplied \<and> \<not> pt_IsByronEBB canonical then Inl ErrInvalidRollback
      else Inr ())"

definition resolveRollbackTarget :: "store_state \<Rightarrow> point \<Rightarrow> store_error + point \<times> nat \<times> bool" where
  "resolveRollbackTarget state requested =
     (let start = di_Start (st_Dataset state) in
      if pt_Origin requested then
        (if \<not> pt_Origin start then Inl ErrInvalidRollback else Inr (start, 0, False))
      else if pt_Hash requested = zero32 then Inl ErrInvalidRollback
      else case find_index (\<lambda>b. sameWirePoint requested (cb_Point b)) (st_Canonical state) of
          Some index \<Rightarrow>
            let p = cb_Point (st_Canonical state ! index)
            in bindE (suppliedPointMetadataMatches requested p) (\<lambda>_. Inr (p, index, True))
        | None \<Rightarrow>
            if sameWirePoint requested start
            then bindE (suppliedPointMetadataMatches requested start) (\<lambda>_. Inr (start, 0, False))
            else Inl ErrInvalidRollback)"

definition resolveRollback :: "store_state \<Rightarrow> rollback_request \<Rightarrow> store_error + point \<times> canonical_block list" where
  "resolveRollback state request =
     bindE (resolveRollbackTarget state (rq_To request)) (\<lambda>(target, targetIndex, targetInWindow).
       if target = st_Tip state then Inr (target, [])
       else if targetInWindow then
         (if (of_nat targetIndex :: u32) > rq_MaximumDepth request then Inl ErrInvalidRollback
          else Inr (target, take targetIndex (st_Canonical state)))
       else if target \<noteq> di_Start (st_Dataset state) then Inl ErrInvalidRollback
       else if length (st_Canonical state) > unat (rq_MaximumDepth request) then Inl ErrInvalidRollback
       else Inr (target, st_Canonical state))"

definition validateRelays :: "store_relay list \<Rightarrow> store_error + unit" where
  "validateRelays relays =
     (if length relays < 2 then Inl ErrInvalidRollback
      else if list_ex relay_incomplete relays then Inl ErrInvalidRollback
      else Inr ())"

section \<open>Invalidations\<close>

definition invalidation_row :: "rollback_record \<Rightarrow> canonical_block \<Rightarrow> chain_event" where
  "invalidation_row record descendant =
     \<lparr>ce_event_seq = rr_EventSeq record, ce_publication_id = cb_PublicationID descendant,
      ce_event_kind = Invalidation, ce_active = False, ce_rollback_id = Some (rr_RollbackID record),
      ce_block_hash = bytes32 (pt_Hash (cb_Point descendant)), ce_slot = pt_Slot (cb_Point descendant),
      ce_block_number = pt_BlockNumber (cb_Point descendant),
      ce_is_byron_ebb = pt_IsByronEBB (cb_Point descendant),
      ce_writer_id = rr_WriterID record, ce_recorded_at = rr_RecordedAt record\<rparr>"

definition insertInvalidations :: "insert_outcome \<Rightarrow> rollback_record \<Rightarrow> database \<Rightarrow>
    database \<times> store_error option" where
  "insertInvalidations oc record db =
     (if length (rr_Descendants record) = 0 then (db, Some ErrEmptyBatch)
      else (let (rows, err) = run_insert oc (Inr (Some (map (invalidation_row record) (rr_Descendants record))))
        in (db\<lparr>db_chain_events := db_chain_events db @ rows\<rparr>, err)))"

text \<open>Building the map of expected publications; a repeated publication is a conflict.\<close>

fun expected_descendants :: "canonical_block list \<Rightarrow> (u64 \<rightharpoonup> point) \<Rightarrow> store_error + (u64 \<rightharpoonup> point)" where
  "expected_descendants [] expected = Inr expected"
| "expected_descendants (b # bs) expected =
     (if expected (cb_PublicationID b) \<noteq> None then Inl ErrCommitConflict
      else expected_descendants bs (expected(cb_PublicationID b \<mapsto> cb_Point b)))"

definition invalidation_matches :: "rollback_record \<Rightarrow> point \<Rightarrow> chain_event \<Rightarrow> bool" where
  "invalidation_matches record p r \<longleftrightarrow>
     ce_event_kind r = Invalidation \<and> \<not> ce_active r \<and> ce_rollback_id r = Some (rr_RollbackID record) \<and>
     ce_block_hash r = bytes32 (pt_Hash p) \<and> ce_slot r = pt_Slot p \<and>
     ce_block_number r = pt_BlockNumber p \<and> ce_is_byron_ebb r = pt_IsByronEBB p \<and>
     ce_writer_id r = rr_WriterID record \<and> ce_recorded_at r = rr_RecordedAt record"

fun invalidation_rows :: "rollback_record \<Rightarrow> (u64 \<rightharpoonup> point) \<Rightarrow> chain_event list \<Rightarrow> u64 list \<Rightarrow>
    store_error + u64 list" where
  "invalidation_rows record expected [] seen = Inr seen"
| "invalidation_rows record expected (r # rs) seen =
     (case (expected (ce_publication_id r), ce_rollback_id r) of
        (Some p, Some _) \<Rightarrow>
          if ce_publication_id r \<in> set seen then Inl ErrCommitConflict
          else if \<not> invalidation_matches record p r then Inl ErrCommitConflict
          else invalidation_rows record expected rs (ce_publication_id r # seen)
      | _ \<Rightarrow> Inl ErrCommitConflict)"

definition invalidationsCommitted :: "query_outcome \<Rightarrow> rollback_record \<Rightarrow> database \<Rightarrow>
    store_error + membership_readback" where
  "invalidationsCommitted q record db =
     bindE (query_rows q (invalidationReadbackSQL db (rr_EventSeq record))) (\<lambda>(delivered, failed).
     bindE (expected_descendants (rr_Descendants record) Map.empty) (\<lambda>expected.
     bindE (invalidation_rows record expected delivered []) (\<lambda>seen.
       if failed then Inl ErrQuery
       else if length seen = 0 then Inr MembershipAbsent
       else if length seen = card (dom expected) then Inr MembershipComplete
       else Inr MembershipPartial)))"

section \<open>The header\<close>

definition relayArrays :: "store_relay list \<Rightarrow> string list \<times> string list \<times> string list" where
  "relayArrays relays = (map sr_Host relays, map sr_Address relays, map sr_Operator relays)"

fun equalStrings :: "string list \<Rightarrow> string list \<Rightarrow> bool" where
  "equalStrings (l # ls) (r # rs) = (l = r \<and> equalStrings ls rs)"
| "equalStrings [] [] = True"
| "equalStrings _ _ = False"

definition rollback_header_row :: "rollback_record \<Rightarrow> rollback_row" where
  "rollback_header_row record =
     (let (toSlot, toHash, toNumber) = nullablePoint (rr_To record);
          (oldSlot, oldHash, oldNumber) = nullablePoint (rr_OldTip record);
          (hosts, addresses, operators) = relayArrays (rr_Relays record)
      in \<lparr>rb_rollback_id = rr_RollbackID record, rb_event_seq = rr_EventSeq record,
          rb_to_origin = pt_Origin (rr_To record), rb_to_slot = toSlot, rb_to_hash = toHash,
          rb_to_block_number = toNumber, rb_to_is_byron_ebb = pt_IsByronEBB (rr_To record),
          rb_old_tip_slot = oldSlot, rb_old_tip_hash = oldHash, rb_old_tip_block_number = oldNumber,
          rb_old_tip_is_byron_ebb = pt_IsByronEBB (rr_OldTip record),
          rb_old_tip_event_seq = rr_OldTipEventSeq record,
          rb_depth = of_nat (length (rr_Descendants record)),
          rb_relay_hosts = hosts, rb_relay_addresses = addresses, rb_relay_operators = operators,
          rb_reason = rr_Reason record, rb_writer_id = rr_WriterID record,
          rb_recorded_at = rr_RecordedAt record\<rparr>)"

definition insertRollbackHeader :: "insert_outcome \<Rightarrow> rollback_record \<Rightarrow> database \<Rightarrow>
    database \<times> store_error option" where
  "insertRollbackHeader oc record db =
     (let (rows, err) = run_insert oc (Inr (Some [rollback_header_row record]))
      in (db\<lparr>db_rollbacks := db_rollbacks db @ rows\<rparr>, err))"

definition header_row_ok :: "rollback_record \<Rightarrow> rollback_row \<Rightarrow> bool" where
  "header_row_ok record r =
     (let to = scanPoint (rb_to_origin r) (rb_to_slot r) (scan_bytes (rb_to_hash r))
            (rb_to_block_number r) (rb_to_is_byron_ebb r);
          old = scanPoint (rb_old_tip_slot r = None) (rb_old_tip_slot r) (scan_bytes (rb_old_tip_hash r))
            (rb_old_tip_block_number r) (rb_old_tip_is_byron_ebb r);
          (hosts, addresses, operators) = relayArrays (rr_Relays record)
      in to = Inr (rr_To record) \<and> old = Inr (rr_OldTip record) \<and>
         rb_rollback_id r = rr_RollbackID record \<and> rb_old_tip_event_seq r = rr_OldTipEventSeq record \<and>
         rb_depth r = of_nat (length (rr_Descendants record)) \<and>
         equalStrings (rb_relay_hosts r) hosts \<and> equalStrings (rb_relay_addresses r) addresses \<and>
         equalStrings (rb_relay_operators r) operators \<and> rb_reason r = rr_Reason record \<and>
         rb_writer_id r = rr_WriterID record \<and> rb_recorded_at r = rr_RecordedAt record)"

fun header_rows :: "rollback_record \<Rightarrow> rollback_row list \<Rightarrow> bool \<Rightarrow> store_error + bool" where
  "header_rows record [] found = Inr found"
| "header_rows record (r # rs) found =
     (if found then Inl ErrCommitConflict
      else if \<not> header_row_ok record r then Inl ErrCommitConflict
      else header_rows record rs True)"

definition rollbackHeaderCommitted :: "query_outcome \<Rightarrow> rollback_record \<Rightarrow> database \<Rightarrow> store_error + bool" where
  "rollbackHeaderCommitted q record db =
     bindE (query_rows q (rollbackReadbackSQL db (rr_EventSeq record))) (\<lambda>(delivered, failed).
     bindE (header_rows record delivered False) (\<lambda>found.
       if failed then Inl ErrQuery else Inr found))"

definition rollbackResult :: "rollback_record \<Rightarrow> rollback_commit" where
  "rollbackResult record =
     \<lparr>rc_RollbackID = rr_RollbackID record, rc_EventSeq = rr_EventSeq record, rc_To = rr_To record,
      rc_OldTip = rr_OldTip record, rc_OldTipEventSeq = rr_OldTipEventSeq record,
      rc_Descendants = rr_Descendants record, rc_Committed = False, rc_Noop = False,
      rc_ResolvedUncertain = False\<rparr>"

section \<open>Rollback\<close>

text \<open>The part after the header insert failed.\<close>

definition resolve_header :: "rollback_env \<Rightarrow> rollback_record \<Rightarrow> rollback_commit \<Rightarrow> database \<Rightarrow>
    rollback_commit \<times> store_error option" where
  "resolve_header env record commit db =
     (case rollbackHeaderCommitted (rv_headerReadback env) record db of
        Inl ErrCommitConflict \<Rightarrow> (commit, Some ErrCommitConflict)
      | Inl _ \<Rightarrow> (commit, Some ErrCommitIndeterminate)
      | Inr False \<Rightarrow> (commit, Some ErrNotCommitted)
      | Inr True \<Rightarrow>
          (case invalidationsCommitted (rv_membershipReadback env) record db of
             Inl _ \<Rightarrow> (commit, Some ErrCommitIndeterminate)
           | Inr status \<Rightarrow>
               if status \<noteq> MembershipComplete then (commit, Some ErrCommitConflict)
               else (commit\<lparr>rc_Committed := True, rc_ResolvedUncertain := True\<rparr>, None)))"

text \<open>From the invalidation insert on, with the event allocated.\<close>

definition rollback_rows :: "rollback_env \<Rightarrow> rollback_record \<Rightarrow> database \<Rightarrow>
    database \<times> rollback_commit \<times> store_error option" where
  "rollback_rows env record db =
     (let commit = rollbackResult record;
          (db1, invalidationErr) = insertInvalidations (rv_invalidations env) record db;
          resolved = (if invalidationErr = None then Inr False
            else (case invalidationsCommitted (rv_invalidationReadback env) record db1 of
                Inl _ \<Rightarrow> Inl ErrNotCommitted
              | Inr status \<Rightarrow> if status \<noteq> MembershipComplete then Inl ErrNotCommitted else Inr True))
      in case resolved of
           Inl e \<Rightarrow> (db1, commit, Some e)
         | Inr uncertain \<Rightarrow>
             let commit = (if uncertain then commit\<lparr>rc_ResolvedUncertain := True\<rparr> else commit)
             in if \<not> rv_heldBeforeHeader env then (db1, commit, Some ErrLockLost)
                else (let (db2, headerErr) = insertRollbackHeader (rv_header env) record db1
                  in if headerErr = None then (db2, commit\<lparr>rc_Committed := True\<rparr>, None)
                     else (db2, resolve_header env record commit db2)))"

definition make_rollback :: "rollback_env \<Rightarrow> store_handle \<Rightarrow> u64 \<Rightarrow> point \<Rightarrow> store_state \<Rightarrow>
    canonical_block list \<Rightarrow> rollback_request \<Rightarrow> rollback_record" where
  "make_rollback env h eventSeq target state descendants request =
     \<lparr>rr_RollbackID = rv_rollbackID env, rr_EventSeq = eventSeq, rr_To = target,
      rr_OldTip = st_Tip state, rr_OldTipEventSeq = st_Snapshot state, rr_Descendants = descendants,
      rr_Relays = rq_Relays request, rr_Reason = rq_Reason request, rr_WriterID = sh_writerID h,
      rr_RecordedAt = now_micro (rv_clock env)\<rparr>"

definition Rollback :: "rollback_env \<Rightarrow> rollback_request \<Rightarrow> store_handle \<Rightarrow> database \<Rightarrow>
    store_handle \<times> database \<times> rollback_commit \<times> store_error option" where
  "Rollback env request h db =
     (if \<not> rv_lock env then (h, db, empty_rollback_commit, Some ErrMissingLock)
      else if rq_MaximumDepth request = 0 then (h, db, empty_rollback_commit, Some ErrInvalidRollback)
      else if blank (rq_Reason request) then (h, db, empty_rollback_commit, Some ErrInvalidRollback)
      else case validateRelays (rq_Relays request) of Inl e \<Rightarrow> (h, db, empty_rollback_commit, Some e)
      | Inr _ \<Rightarrow>
      if \<not> rv_heldFirst env then (h, db, empty_rollback_commit, Some ErrLockNotHeld)
      else case State (rv_queries env) h db (rq_MaximumDepth request) of
          Inl e \<Rightarrow> (h, db, empty_rollback_commit, Some e)
      | Inr state \<Rightarrow>
      (case resolveRollback state request of Inl e \<Rightarrow> (h, db, empty_rollback_commit, Some e)
      | Inr (target, descendants) \<Rightarrow>
      if target = st_Tip state then
        (h, db, empty_rollback_commit\<lparr>rc_To := target, rc_OldTip := st_Tip state,
           rc_OldTipEventSeq := st_Snapshot state, rc_Committed := True, rc_Noop := True\<rparr>, None)
      else (case initializedStore h of Inl e \<Rightarrow> (h, db, empty_rollback_commit, Some e)
      | Inr (identity, a) \<Rightarrow>
      (case reserveEvents a 1 of Inl e \<Rightarrow> (h, db, empty_rollback_commit, Some (ErrAllocator e))
      | Inr (eventSeq, a1) \<Rightarrow>
          (h\<lparr>sh_allocator := Some a1\<rparr>,
           rollback_rows env (make_rollback env h eventSeq target state descendants request) db)))))"

section \<open>Resolution\<close>

lemma query_rows_complete: "query_rows q rows = Inr (xs, False) \<longleftrightarrow> q = QueryOk \<and> xs = rows"
  by (cases q) auto

lemma read_latest_ok: "read_latest scan q rows = Inr a \<Longrightarrow> read_latest scan QueryOk rows = Inr a"
  by (cases q) (auto simp: read_latest_def err_simps)

lemma loadCanonicalWindow_complete:
  "loadCanonicalWindow q db snapshot limit = Inr w \<Longrightarrow> loadCanonicalWindow QueryOk db snapshot limit = Inr w"
  by (cases q) (auto simp: loadCanonicalWindow_def err_simps split: if_splits)

lemma latestCommittedAction_complete:
  assumes "latestCommittedAction q1 q2 db = Inr a"
  shows "latestCommittedAction QueryOk QueryOk db = Inr a"
proof -
  from assms obtain x y where "latestAdoption q1 db = Inr x" "latestRollback q2 db = Inr y"
    by (auto simp: latestCommittedAction_def err_simps)
  moreover from this have "latestAdoption QueryOk db = Inr x" "latestRollback QueryOk db = Inr y"
    unfolding latestAdoption_def latestRollback_def by (auto intro: read_latest_ok)
  ultimately show ?thesis using assms by (simp add: latestCommittedAction_def)
qed

text \<open>Whatever the queries do, a state that is returned is the state of the chain.\<close>

lemma State_exact:
  assumes "chain_inv (di_Start i) db chain" and "sh_identity h = Some i"
    and "State q h db depth = Inr state"
  shows "state = expected_state i db chain depth"
proof -
  have "stateForIdentity q db i depth = Inr state"
    using assms(2,3) by (auto simp: State_def initializedIdentity_def err_simps split: if_splits option.splits)
  moreover from this obtain action window where
    a: "latestCommittedAction (sq_adoption q) (sq_rollback q) db = Inr action" and
    w: "loadCanonicalWindow (sq_window q) db (if la_found action then la_eventSeq action else 0)
      (unat depth + 1) = Inr window"
    by (auto simp: stateForIdentity_def err_simps Let_def)
  ultimately have "stateForIdentity all_queries_ok db i depth = Inr state"
    using latestCommittedAction_complete [OF a] loadCanonicalWindow_complete [OF w]
    by (simp add: stateForIdentity_def all_queries_ok_def Let_def)
  with stateForIdentity_ok [OF assms(1)] show ?thesis by simp
qed

lemma expected_state_simps [simp]:
  "st_Dataset (expected_state i db chain depth) = i"
  "st_Tip (expected_state i db chain depth) = chain_tip (di_Start i) chain"
  "st_Canonical (expected_state i db chain depth) = take (unat depth + 1) chain"
  "st_Snapshot (expected_state i db chain depth) = committed_snapshot db"
  by (simp_all add: expected_state_def Let_def)

text \<open>
  The target resolved is the tip of the chain without its descendants, and the descendants are
  exactly the blocks above it, at most the permitted depth of them.
\<close>

lemma resolveRollback_sound:
  assumes inv: "chain_inv (di_Start i) db chain"
    and res: "resolveRollback (expected_state i db chain (rq_MaximumDepth request)) request = Inr (target, ds)"
    and moved: "target \<noteq> chain_tip (di_Start i) chain"
  shows "\<exists>k. 0 < k \<and> k \<le> length chain \<and> k \<le> unat (rq_MaximumDepth request) \<and> ds = take k chain \<and>
    target = chain_tip (di_Start i) (drop k chain)"
proof -
  let ?depth = "rq_MaximumDepth request"
  let ?w = "take (unat ?depth + 1) chain"
  from res obtain index inWindow where
    t: "resolveRollbackTarget (expected_state i db chain ?depth) (rq_To request) = Inr (target, index, inWindow)"
    by (auto simp: resolveRollback_def err_simps split: if_splits)
  show ?thesis
  proof (cases inWindow)
    case True
    with t have idx: "index < length ?w" "target = cb_Point (?w ! index)"
      by (auto simp: resolveRollbackTarget_def err_simps Let_def find_index_Some_iff
          split: if_splits option.splits)
    from True res t moved have ds: "ds = take index ?w"
      by (auto simp: resolveRollback_def err_simps split: if_splits)
    have "index \<noteq> 0"
    proof
      assume "index = 0"
      with idx moved show False by (cases chain) (auto simp: chain_tip_def)
    qed
    moreover have "target = chain_tip (di_Start i) (drop index chain)"
      using idx by (simp add: chain_tip_def Cons_nth_drop_Suc [symmetric])
    ultimately show ?thesis
      using idx(1) ds by (intro exI [of _ index]) simp
  next
    case False
    with res t moved have whole: "target = di_Start i" "length ?w \<le> unat ?depth" "ds = ?w"
      by (auto simp: resolveRollback_def err_simps split: if_splits)
    then have "length chain \<le> unat ?depth" by (simp add: min_def split: if_splits)
    moreover have "chain \<noteq> []" using moved whole(1) by (auto simp: chain_tip_def)
    ultimately show ?thesis
      using whole by (intro exI [of _ "length chain"]) (simp add: chain_tip_def)
  qed
qed

section \<open>Exact readback\<close>

lemma invalidation_row_simps [simp]:
  "ce_event_seq (invalidation_row rc b) = rr_EventSeq rc"
  "ce_publication_id (invalidation_row rc b) = cb_PublicationID b"
  "ce_event_kind (invalidation_row rc b) = Invalidation"
  "ce_active (invalidation_row rc b) = False"
  "ce_rollback_id (invalidation_row rc b) = Some (rr_RollbackID rc)"
  "invalidation_matches rc (cb_Point b) (invalidation_row rc b)"
  by (simp_all add: invalidation_row_def invalidation_matches_def)

lemma expected_descendants_ok:
  assumes "distinct (map cb_PublicationID bs)" and "cb_PublicationID ` set bs \<inter> dom m = {}"
  shows "\<exists>m'. expected_descendants bs m = Inr m' \<and> dom m' = dom m \<union> cb_PublicationID ` set bs \<and>
    (\<forall>b \<in> set bs. m' (cb_PublicationID b) = Some (cb_Point b)) \<and> (\<forall>k \<in> dom m. m' k = m k)"
  using assms
proof (induction bs arbitrary: m)
  case (Cons b bs)
  let ?m = "m(cb_PublicationID b \<mapsto> cb_Point b)"
  have "\<exists>m'. expected_descendants bs ?m = Inr m' \<and> dom m' = dom ?m \<union> cb_PublicationID ` set bs \<and>
    (\<forall>b \<in> set bs. m' (cb_PublicationID b) = Some (cb_Point b)) \<and> (\<forall>k \<in> dom ?m. m' k = ?m k)"
  proof (rule Cons.IH)
    show "distinct (map cb_PublicationID bs)" using Cons.prems(1) by simp
    show "cb_PublicationID ` set bs \<inter> dom ?m = {}" using Cons.prems by (simp add: dom_fun_upd)
  qed
  moreover have "m (cb_PublicationID b) = None" using Cons.prems(2) by auto
  ultimately show ?case using Cons.prems by (auto simp: domIff)
qed simp

lemma invalidation_rows_ok:
  assumes "\<And>b. b \<in> set bs \<Longrightarrow> m (cb_PublicationID b) = Some (cb_Point b)"
    and "set xs \<subseteq> invalidation_row rc ` set bs" and "distinct (map ce_publication_id xs)"
    and "ce_publication_id ` set xs \<inter> set seen = {}"
  shows "invalidation_rows rc m xs seen = Inr (rev (map ce_publication_id xs) @ seen)"
  using assms(2-)
proof (induction xs arbitrary: seen)
  case (Cons r xs)
  then obtain b where b: "b \<in> set bs" "r = invalidation_row rc b" by auto
  have "invalidation_rows rc m xs (ce_publication_id r # seen) =
      Inr (rev (map ce_publication_id xs) @ ce_publication_id r # seen)"
    using Cons.prems by (intro Cons.IH) auto
  with Cons.prems b assms(1) [OF b(1)] show ?case by auto
qed simp

lemma invalidationsCommitted_exact:
  assumes ids: "distinct (map cb_PublicationID (rr_Descendants rc))" and ne: "rr_Descendants rc \<noteq> []"
    and fresh: "\<And>s. s \<in> event_seqs db \<Longrightarrow> s < rr_EventSeq rc"
    and sub: "subseq D (map (invalidation_row rc) (rr_Descendants rc))"
    and db': "db_chain_events db' = db_chain_events db @ D"
  shows "invalidationsCommitted q rc db' =
    (if q = QueryOk then
       Inr (if D = [] then MembershipAbsent
         else if D = map (invalidation_row rc) (rr_Descendants rc) then MembershipComplete
         else MembershipPartial)
     else Inl ErrQuery)"
proof -
  let ?bs = "rr_Descendants rc"
  let ?rows = "map (invalidation_row rc) ?bs"
  let ?xs = "invalidationReadbackSQL db' (rr_EventSeq rc)"
  let ?in = "\<lambda>r. ce_event_seq r = rr_EventSeq rc \<and> ce_event_kind r = Invalidation"
  have D: "set D \<subseteq> invalidation_row rc ` set ?bs" using subseq_set [OF sub] by simp
  have "filter ?in (db_chain_events db) = []"
    using fresh by (fastforce simp: filter_empty_conv event_seqs_def)
  moreover have "filter ?in D = D" using D by (auto simp: filter_id_conv)
  ultimately have set_xs: "set ?xs = set D" and len_xs: "length ?xs = length D"
    by (simp_all add: invalidationReadbackSQL_def db')
  have d: "distinct (map ce_publication_id ?rows)" using ids by (simp add: comp_def)
  then have "distinct D" using subseq_distinct_list [OF sub] distinct_map by blast
  then have dxs: "distinct ?xs" using set_xs len_xs by (metis card_distinct distinct_card)
  have inj: "inj_on ce_publication_id (invalidation_row rc ` set ?bs)"
    using ids by (auto simp: distinct_map inj_on_def)
  obtain m where m: "expected_descendants ?bs Map.empty = Inr m" "dom m = cb_PublicationID ` set ?bs"
    "\<And>b. b \<in> set ?bs \<Longrightarrow> m (cb_PublicationID b) = Some (cb_Point b)"
    using expected_descendants_ok [OF ids, of Map.empty] by auto
  have card: "card (dom m) = length ?bs"
    using ids m(2) by (metis distinct_card length_map list.set_map)
  have read: "invalidation_rows rc m (take n ?xs) [] = Inr (rev (map ce_publication_id (take n ?xs)))" for n
  proof -
    have sub': "set (take n ?xs) \<subseteq> invalidation_row rc ` set ?bs"
      using D set_xs by (auto dest: in_set_takeD)
    moreover from this have "distinct (map ce_publication_id (take n ?xs))"
      using dxs inj by (simp add: distinct_map inj_on_subset)
    ultimately show ?thesis using invalidation_rows_ok [where bs = ?bs and m = m and xs = "take n ?xs" and rc = rc and seen = "[]"] m(3)
      by simp
  qed
  have full: "length D = length ?bs \<longleftrightarrow> D = ?rows" using subseq_same_length [OF sub] by auto
  show ?thesis
  proof (cases q)
    case QueryOk
    with read [of "length ?xs"] ne card full len_xs m(1) show ?thesis
      by (auto simp: invalidationsCommitted_def)
  qed (use read m(1) in \<open>simp_all add: invalidationsCommitted_def\<close>)
qed

lemma equalStrings_eq [simp]: "equalStrings xs ys \<longleftrightarrow> xs = ys"
  by (induction xs ys rule: equalStrings.induct) auto

lemma header_row_self:
  assumes "validPoint (rr_To rc)" and "validPoint (rr_OldTip rc)"
  shows "header_row_ok rc (rollback_header_row rc)"
    and "header_target (rollback_header_row rc) = Inr (rr_To rc)"
proof -
  obtain s h n where to: "nullablePoint (rr_To rc) = (s, h, n)" by (cases "nullablePoint (rr_To rc)")
  obtain s' h' n' where old: "nullablePoint (rr_OldTip rc) = (s', h', n')" by (cases "nullablePoint (rr_OldTip rc)")
  note scans = scanPoint_nullable [OF assms(1) to] scanPoint_nullable [OF assms(2) old]
  show "header_row_ok rc (rollback_header_row rc)" "header_target (rollback_header_row rc) = Inr (rr_To rc)"
    using scans nullablePoint_origin_iff [OF old]
    by (simp_all add: header_row_ok_def rollback_header_row_def header_target_def to old relayArrays_def)
qed

lemma rollbackHeaderCommitted_exact:
  assumes valid: "validPoint (rr_To rc)" "validPoint (rr_OldTip rc)"
    and fresh: "\<And>rb. rb \<in> set (db_rollbacks db) \<Longrightarrow> rb_event_seq rb < rr_EventSeq rc"
    and H: "H = [] \<or> H = [rollback_header_row rc]"
    and db': "db_rollbacks db' = db_rollbacks db @ H"
  shows "rollbackHeaderCommitted q rc db' = (if q = QueryOk then Inr (H \<noteq> []) else Inl ErrQuery)"
proof -
  have "filter (\<lambda>r. rb_event_seq r = rr_EventSeq rc) (db_rollbacks db) = []"
    using fresh by (fastforce simp: filter_empty_conv)
  moreover have "rb_event_seq (rollback_header_row rc) = rr_EventSeq rc"
    by (simp add: rollback_header_row_def case_prod_beta Let_def)
  ultimately have xs: "rollbackReadbackSQL db' (rr_EventSeq rc) = H"
    using H by (auto simp: rollbackReadbackSQL_def db')
  have read: "header_rows rc (take n H) False = Inr (take n H \<noteq> [])" for n
    using H header_row_self(1) [OF valid] by (cases n) auto
  show ?thesis
  proof (cases q)
    case QueryOk
    with read [of "length H"] xs show ?thesis by (simp add: rollbackHeaderCommitted_def)
  qed (use read xs in \<open>simp_all add: rollbackHeaderCommitted_def\<close>)
qed

section \<open>The effect of a rollback\<close>

text \<open>
  \<open>rollback_outcome\<close>: \<open>k\<close> blocks are gone from the chain. A reported success names exactly them and
  their new tip; an error other than \<^verbatim>\<open>ErrCommitIndeterminate\<close> means that nothing moved.
\<close>

definition rollback_outcome :: "point \<Rightarrow> canonical_block list \<Rightarrow> u32 \<Rightarrow> nat \<Rightarrow> rollback_commit \<Rightarrow>
    store_error option \<Rightarrow> bool" where
  "rollback_outcome start chain depth k commit err \<longleftrightarrow>
     (rc_Committed commit \<longleftrightarrow> err = None) \<and> k \<le> unat depth \<and>
     (case err of
        None \<Rightarrow> rc_To commit = chain_tip start (drop k chain) \<and> rc_Descendants commit = take k chain \<and>
          rc_OldTip commit = chain_tip start chain \<and> (rc_Noop commit \<longleftrightarrow> k = 0)
      | Some ErrCommitIndeterminate \<Rightarrow> True
      | Some _ \<Rightarrow> k = 0)"

lemma allocator_fresh_events:
  assumes "allocator_fresh a db" and "event_bound a < event_bound a'" and "publication_bound a' = publication_bound a"
    and "publication_ids db' \<subseteq> publication_ids db"
    and "event_seqs db' \<subseteq> insert s (event_seqs db)" and "unat s = event_bound a"
  shows "allocator_fresh a' db'"
  using assms unfolding allocator_fresh_def by (metis insert_iff less_trans subsetD)

lemma durable_rows_single: "durable_rows oc [x] = [] \<or> durable_rows oc [x] = [x]"
proof (cases oc)
  case (SendFails durable)
  then show ?thesis by (cases durable) auto
qed simp_all

abbreviation invalidations_of :: "rollback_record \<Rightarrow> chain_event list" where
  "invalidations_of rc \<equiv> map (invalidation_row rc) (rr_Descendants rc)"

abbreviation durable_invalidations :: "rollback_env \<Rightarrow> rollback_record \<Rightarrow> chain_event list" where
  "durable_invalidations env rc \<equiv> durable_rows (rv_invalidations env) (invalidations_of rc)"

abbreviation durable_header :: "rollback_env \<Rightarrow> rollback_record \<Rightarrow> rollback_row list" where
  "durable_header env rc \<equiv> durable_rows (rv_header env) [rollback_header_row rc]"

text \<open>The paths through the inserts, in terms of what became durable.\<close>

lemma rollback_rows_cases:
  assumes ids: "distinct (map cb_PublicationID (rr_Descendants rc))" and ne: "rr_Descendants rc \<noteq> []"
    and fresh: "\<forall>s \<in> event_seqs db. s < rr_EventSeq rc"
    and valid: "validPoint (rr_To rc)" "validPoint (rr_OldTip rc)"
    and run: "rollback_rows env rc db = (db', commit, err)"
  defines "D \<equiv> durable_invalidations env rc" and "H \<equiv> durable_header env rc"
  defines "db1 \<equiv> db\<lparr>db_chain_events := db_chain_events db @ D\<rparr>"
  obtains (orphans) "db' = db1" "err = Some ErrNotCommitted \<or> err = Some ErrLockLost" "\<not> rc_Committed commit"
  | (header) "D = invalidations_of rc" "db' = db1\<lparr>db_rollbacks := db_rollbacks db @ H\<rparr>"
      "err = (if rc_Committed commit then None else if H = [] \<and> rv_headerReadback env = QueryOk
         then Some ErrNotCommitted else Some ErrCommitIndeterminate)"
      "rc_Committed commit \<Longrightarrow> H \<noteq> [] \<and> rc_To commit = rr_To rc \<and> rc_OldTip commit = rr_OldTip rc \<and>
         rc_Descendants commit = rr_Descendants rc \<and> \<not> rc_Noop commit"
proof -
  let ?db2 = "db1\<lparr>db_rollbacks := db_rollbacks db @ H\<rparr>"
  let ?rows = "invalidations_of rc"
  have sub: "subseq D ?rows" unfolding D_def by (rule durable_rows_subseq)
  have ic: "invalidationsCommitted q rc db'' =
      (if q = QueryOk then Inr (if D = [] then MembershipAbsent
         else if D = ?rows then MembershipComplete else MembershipPartial) else Inl ErrQuery)"
    if "db_chain_events db'' = db_chain_events db @ D" for q db''
    using fresh by (intro invalidationsCommitted_exact [OF ids ne _ sub that]) blast
  have hc: "rollbackHeaderCommitted q rc ?db2 = (if q = QueryOk then Inr (H \<noteq> []) else Inl ErrQuery)" for q
  proof (rule rollbackHeaderCommitted_exact [OF valid])
    show "H = [] \<or> H = [rollback_header_row rc]" unfolding H_def by (rule durable_rows_single)
    show "rb_event_seq rb < rr_EventSeq rc" if "rb \<in> set (db_rollbacks db)" for rb
      using fresh event_seqs_memb(2) [OF that] by blast
  qed simp
  have inserted: "insertInvalidations (rv_invalidations env) rc db =
      (db1, if rv_invalidations env = SendOk then None else Some ErrInsert)"
    using ne by (simp add: insertInvalidations_def run_insert_def db1_def D_def)
  have header_ins: "insertRollbackHeader (rv_header env) rc db1 =
      (?db2, if rv_header env = SendOk then None else Some ErrInsert)"
    by (simp add: insertRollbackHeader_def run_insert_def db1_def H_def)
  let ?resolved = "rv_invalidations env = SendOk \<or> rv_invalidationReadback env = QueryOk \<and> D = ?rows"
  let ?c = "if rv_invalidations env = SendOk then rollbackResult rc
      else rollbackResult rc\<lparr>rc_ResolvedUncertain := True\<rparr>"
  have c: "\<not> rc_Committed ?c" "rc_To ?c = rr_To rc" "rc_OldTip ?c = rr_OldTip rc"
    "rc_Descendants ?c = rr_Descendants rc" "\<not> rc_Noop ?c"
    by (simp_all add: rollbackResult_def)
  have D_ne: "D \<noteq> []" if "D = ?rows" using that ne by simp
  have run': "(db', commit, err) =
      (if \<not> ?resolved then (db1, rollbackResult rc, Some ErrNotCommitted)
       else if \<not> rv_heldBeforeHeader env then (db1, ?c, Some ErrLockLost)
       else if rv_header env = SendOk then (?db2, ?c\<lparr>rc_Committed := True\<rparr>, None)
       else (?db2, resolve_header env rc ?c ?db2))"
  proof -
    have ic1: "invalidationsCommitted q rc db1 =
      (if q = QueryOk then Inr (if D = [] then MembershipAbsent
         else if D = ?rows then MembershipComplete else MembershipPartial) else Inl ErrQuery)" for q
      by (rule ic) (simp add: db1_def)
    show ?thesis
      unfolding run [symmetric] rollback_rows_def Let_def case_prod_beta inserted fst_conv snd_conv
        header_ins ic1
      using D_ne by auto
  qed
  show thesis
  proof (cases "?resolved \<and> rv_heldBeforeHeader env")
    case False
    with run' have "db' = db1" "err = Some ErrNotCommitted \<or> err = Some ErrLockLost" "\<not> rc_Committed commit"
      using c(1) by (auto simp: rollbackResult_def split: if_splits)
    then show thesis by (rule orphans)
  next
    case True
    then have D: "D = ?rows" by (auto simp: D_def)
    have H_ok: "H \<noteq> []" if "rv_header env = SendOk" using that by (simp add: H_def)
    have rh: "resolve_header env rc ?c ?db2 =
      (if rv_headerReadback env \<noteq> QueryOk then (?c, Some ErrCommitIndeterminate)
       else if H = [] then (?c, Some ErrNotCommitted)
       else if rv_membershipReadback env \<noteq> QueryOk then (?c, Some ErrCommitIndeterminate)
       else (?c\<lparr>rc_Committed := True, rc_ResolvedUncertain := True\<rparr>, None))"
    proof -
      have ic2: "invalidationsCommitted q rc ?db2 =
          (if q = QueryOk then Inr MembershipComplete else Inl ErrQuery)" for q
        using D_ne [OF D] D by (subst ic) (simp_all add: db1_def)
      show ?thesis unfolding resolve_header_def hc ic2 by simp
    qed
    show thesis
    proof (rule header [OF D])
      show "db' = ?db2" using run' True rh by (auto split: if_splits)
      show "err = (if rc_Committed commit then None else if H = [] \<and> rv_headerReadback env = QueryOk
         then Some ErrNotCommitted else Some ErrCommitIndeterminate)"
        using run' True rh c(1) by (auto split: if_splits)
      show "H \<noteq> [] \<and> rc_To commit = rr_To rc \<and> rc_OldTip commit = rr_OldTip rc \<and>
         rc_Descendants commit = rr_Descendants rc \<and> \<not> rc_Noop commit" if "rc_Committed commit"
        using run' True rh c that H_ok by (auto split: if_splits)
    qed
  qed
qed

text \<open>What the record of an accepted rollback is.\<close>

definition record_of :: "point \<Rightarrow> canonical_block list \<Rightarrow> nat \<Rightarrow> rollback_record \<Rightarrow> bool" where
  "record_of start chain k rc \<longleftrightarrow> 0 < k \<and> k \<le> length chain \<and> rr_Descendants rc = take k chain \<and>
     rr_To rc = chain_tip start (drop k chain) \<and> rr_OldTip rc = chain_tip start chain"

lemma chain_tip_valid:
  assumes "chain_inv start db chain" and "set c \<subseteq> set chain"
  shows "validPoint (chain_tip start c)"
  using assms chain_points_valid(2) [OF assms(1)]
  by (cases c) (auto simp: chain_tip_def chain_inv_def)

lemma record_of_valid:
  assumes "chain_inv start db chain" and "record_of start chain k rc"
  shows "validPoint (rr_To rc)" and "validPoint (rr_OldTip rc)"
    and "distinct (map cb_PublicationID (rr_Descendants rc))" and "rr_Descendants rc \<noteq> []"
  using assms(2) chain_tip_valid [OF assms(1)] chain_distinct_ids [OF assms(1)]
  by (auto simp: record_of_def set_drop_subset take_map [symmetric])

lemma durable_invalidation_memb:
  assumes "r \<in> set (durable_invalidations env rc)"
  shows "\<exists>b \<in> set (rr_Descendants rc). r = invalidation_row rc b"
  using assms durable_rows_subset [of "rv_invalidations env" "invalidations_of rc"] by auto

lemma durable_invalidations_inert:
  assumes "\<And>s. s \<in> event_seqs db \<Longrightarrow> s < rr_EventSeq rc"
  shows "inert_rows db (durable_invalidations env rc) (rr_EventSeq rc)"
  unfolding inert_rows_def using assms durable_invalidation_memb by fastforce

lemma header_row_simps [simp]:
  "rb_event_seq (rollback_header_row rc) = rr_EventSeq rc"
  "rb_rollback_id (rollback_header_row rc) = rr_RollbackID rc"
  by (simp_all add: rollback_header_row_def case_prod_beta Let_def)

lemma rollback_chain:
  assumes chain: "chain_inv start db chain" and rc: "record_of start chain k rc"
    and fresh: "\<And>s. s \<in> event_seqs db \<Longrightarrow> s < rr_EventSeq rc" and "rr_EventSeq rc \<noteq> 0"
    and D: "durable_invalidations env rc = invalidations_of rc"
    and db': "db_chain_events db' = db_chain_events db @ invalidations_of rc"
      "db_rollbacks db' = db_rollbacks db @ [rollback_header_row rc]"
  shows "chain_inv start db' (drop k chain)"
proof (rule chain_inv_rollback [OF chain chain_distinct_ids [OF chain]])
  show "inert_rows db (invalidations_of rc) (rr_EventSeq rc)"
    using durable_invalidations_inert [of db rc env] fresh by (simp only: D)
  show "ce_publication_id ` set (invalidations_of rc) = cb_PublicationID ` set (take k chain)"
    using rc by (force simp: record_of_def)
  show "header_target (rollback_header_row rc) = Inr (chain_tip start (drop k chain))"
    using header_row_self(2) [OF record_of_valid(1,2) [OF chain rc]] rc by (simp add: record_of_def)
qed (use assms in auto)

lemma rollback_rows_fresh:
  assumes inv: "store_inv start a db chain" and rc: "record_of start chain k rc"
    and ev: "reserveEvents a 1 = Inr (rr_EventSeq rc, a')"
    and db': "db_chain_events db' = db_chain_events db @ durable_invalidations env rc"
      "db_rollbacks db' = db_rollbacks db @ H" "set H \<subseteq> {rollback_header_row rc}" "db_facts db' = db_facts db"
  shows "allocator_fresh a' db'"
proof -
  have chain: "chain_inv start db chain" and fresh: "allocator_fresh a db"
    using inv by (auto simp: store_inv_def)
  have ids: "cb_PublicationID b \<in> publication_ids db" if "b \<in> set chain" for b
    using that chain by (auto simp: chain_inv_def live_adoptions_def adoptions_def row_block_def
        publication_ids_facts)
  show ?thesis
  proof (rule allocator_fresh_events [OF fresh])
    show "event_bound a < event_bound a'" "publication_bound a' = publication_bound a"
      "unat (rr_EventSeq rc) = event_bound a"
      using ev.reserve_next [OF ev] reserveEvents_frame [OF ev] ev.reserve_first [OF ev] by simp_all
    show "publication_ids db' \<subseteq> publication_ids db"
    proof
      fix p
      assume "p \<in> publication_ids db'"
      then consider "p \<in> publication_ids db"
        | r where "r \<in> set (durable_invalidations env rc)" "p = ce_publication_id r"
        by (auto simp: publication_ids_facts db')
      then show "p \<in> publication_ids db"
      proof cases
        case (2 r)
        with durable_invalidation_memb obtain b where "b \<in> set (rr_Descendants rc)" "p = cb_PublicationID b"
          by fastforce
        with ids rc show ?thesis by (auto simp: record_of_def dest: in_set_takeD)
      qed
    qed
    show "event_seqs db' \<subseteq> insert (rr_EventSeq rc) (event_seqs db)"
    proof
      fix s
      assume "s \<in> event_seqs db'"
      then consider "s \<in> event_seqs db"
        | r where "r \<in> set (durable_invalidations env rc)" "s = ce_event_seq r"
        | r where "r \<in> set H" "s = rb_event_seq r"
        by (auto simp: event_seqs_def db')
      then show "s \<in> insert (rr_EventSeq rc) (event_seqs db)"
        using db'(3) by cases (auto dest!: durable_invalidation_memb)
    qed
  qed
qed

lemma rollback_rows_effect:
  assumes inv: "store_inv start a db chain" and rc: "record_of start chain k rc" and "k \<le> unat depth"
    and ev: "reserveEvents a 1 = Inr (rr_EventSeq rc, a')"
    and run: "rollback_rows env rc db = (db', commit, err)"
  shows "\<exists>j. store_inv start a' db' (drop j chain) \<and> rollback_outcome start chain depth j commit err"
proof -
  have chain: "chain_inv start db chain" and fresh: "allocator_fresh a db"
    using inv by (auto simp: store_inv_def)
  let ?D = "durable_invalidations env rc" and ?H = "durable_header env rc"
  have seq: "unat (rr_EventSeq rc) = event_bound a" "rr_EventSeq rc \<noteq> 0"
    using ev.reserve_first [OF ev] ev.reserve_pos [OF ev] by (auto simp: u64_neq_0_iff)
  have less: "s < rr_EventSeq rc" if "s \<in> event_seqs db" for s
    using fresh that seq by (auto simp: allocator_fresh_def word_less_nat_alt)
  note valid = record_of_valid [OF chain rc] and inert = durable_invalidations_inert [OF less]
  note freshI = rollback_rows_fresh [OF inv rc ev]
  have H: "?H = [] \<or> ?H = [rollback_header_row rc]" by (rule durable_rows_single)
  have less': "\<forall>s \<in> event_seqs db. s < rr_EventSeq rc" using less by blast
  show ?thesis
  proof (cases rule: rollback_rows_cases [OF valid(3,4) less' valid(1,2) run])
    case orphans: 1
    have "store_inv start a' db' (drop 0 chain)"
      using chain_inv_orphans [OF chain inert, of db' env] freshI [of db' env "[]"] orphans(1)
      by (simp add: store_inv_def)
    moreover have "rollback_outcome start chain depth 0 commit err"
      using orphans by (auto simp: rollback_outcome_def)
    ultimately show ?thesis by blast
  next
    case header: 2
    have fr: "allocator_fresh a' db'" using H header(2) by (intro freshI [of db' env ?H]) auto
    show ?thesis
    proof (cases "?H = []")
      case True
      have "store_inv start a' db' (drop 0 chain)"
        using chain_inv_orphans [OF chain inert, of db' env] True header(2) fr by (simp add: store_inv_def)
      moreover have "rollback_outcome start chain depth 0 commit err"
        using header(3,4) True by (auto simp: rollback_outcome_def)
      ultimately show ?thesis by blast
    next
      case False
      have "chain_inv start db' (drop k chain)"
        using False H header(1,2) by (intro rollback_chain [OF chain rc less seq(2) header(1)]) auto
      moreover have "rollback_outcome start chain depth k commit err"
        using header(3,4) False rc assms(3) by (auto simp: rollback_outcome_def record_of_def)
      ultimately show ?thesis using fr by (auto simp: store_inv_def)
    qed
  qed
qed

lemma Rollback_effect:
  assumes inv: "handle_inv h db chain" and start: "sh_identity h = Some i"
    and run: "Rollback env request h db = (h', db', commit, err)"
  shows "sh_identity h' = sh_identity h \<and>
    (\<exists>k. handle_inv h' db' (drop k chain) \<and>
       rollback_outcome (di_Start i) chain (rq_MaximumDepth request) k commit err)"
proof -
  from inv start obtain a where h: "sh_allocator h = Some a"
    and si: "store_inv (di_Start i) a db chain" by (auto simp: handle_inv_def)
  have chain: "chain_inv (di_Start i) db chain" using si by (simp add: store_inv_def)
  let ?depth = "rq_MaximumDepth request"
  have early: ?thesis if "h' = h" "db' = db" "commit = empty_rollback_commit" "err = Some e" for e
  proof -
    have "rollback_outcome (di_Start i) chain ?depth 0 commit err"
      using that by (auto simp: rollback_outcome_def empty_rollback_commit_def Let_def split: store_error.split)
    with that inv show ?thesis by (intro conjI exI [of _ 0]) simp_all
  qed
  show ?thesis
  proof (cases "\<not> rv_lock env \<or> ?depth = 0 \<or> blank (rq_Reason request) \<or>
      validateRelays (rq_Relays request) \<noteq> Inr () \<or> \<not> rv_heldFirst env")
    case True
    then have "h' = h \<and> db' = db \<and> commit = empty_rollback_commit \<and> (\<exists>e. err = Some e)"
      using run by (auto simp: Rollback_def validateRelays_def split: if_splits)
    then show ?thesis using early by blast
  next
    case False
    note guards = this
    show ?thesis
    proof (cases "State (rv_queries env) h db ?depth")
      case (Inl e)
      then have "h' = h" "db' = db" "commit = empty_rollback_commit" "err = Some e"
        using run guards by (auto simp: Rollback_def split: sum.splits)
      then show ?thesis by (rule early)
    next
      case (Inr state)
      have st: "state = expected_state i db chain ?depth" by (rule State_exact [OF chain start Inr])
      show ?thesis
      proof (cases "resolveRollback state request")
        case (Inl e)
        then have "h' = h" "db' = db" "commit = empty_rollback_commit" "err = Some e"
          using run guards Inr by (auto simp: Rollback_def split: sum.splits)
        then show ?thesis by (rule early)
      next
        case (Inr x)
        then obtain target ds where res: "resolveRollback state request = Inr (target, ds)" by (cases x) auto
        have init: "initializedStore h = Inr (i, a)" by (simp add: initializedStore_def h start)
        note step = run [unfolded Rollback_def] guards \<open>State _ _ _ _ = Inr state\<close> res init
        consider (noop) "target = st_Tip state"
          | (exhausted) e where "target \<noteq> st_Tip state" "reserveEvents a 1 = Inl e"
          | (go) s a1 where "target \<noteq> st_Tip state" "reserveEvents a 1 = Inr (s, a1)"
          by (cases "reserveEvents a 1") auto
        then show ?thesis
        proof cases
          case noop
          then have "h' = h" "db' = db" "err = None" "commit = empty_rollback_commit\<lparr>rc_To := st_Tip state,
              rc_OldTip := st_Tip state, rc_OldTipEventSeq := st_Snapshot state, rc_Committed := True,
              rc_Noop := True\<rparr>"
            using step by auto
          with inv show ?thesis
            by (intro conjI exI [of _ 0]) (auto simp: rollback_outcome_def st empty_rollback_commit_def Let_def)
        next
          case exhausted
          then have "h' = h" "db' = db" "commit = empty_rollback_commit" "err = Some (ErrAllocator e)"
            using step by auto
          then show ?thesis by (rule early)
        next
          case go
          let ?rc = "make_rollback env h s target state ds request"
          have h': "h' = h\<lparr>sh_allocator := Some a1\<rparr>" and rows: "rollback_rows env ?rc db = (db', commit, err)"
            using step go by auto
          from resolveRollback_sound [OF chain res [unfolded st]] go(1) st obtain k where
            k: "0 < k" "k \<le> length chain" "k \<le> unat ?depth" "ds = take k chain"
              "target = chain_tip (di_Start i) (drop k chain)" by auto
          have rc: "record_of (di_Start i) chain k ?rc"
            using k by (simp add: record_of_def make_rollback_def st)
          have ev: "reserveEvents a 1 = Inr (rr_EventSeq ?rc, a1)"
            using go(2) by (simp add: make_rollback_def)
          from rollback_rows_effect [OF si rc k(3) ev rows] h' start show ?thesis
            by (auto simp: handle_inv_def)
        qed
      qed
    qed
  qed
qed

end
