(* ===== verification/Store_Machine.thy ===== *)
theory Store_Machine
  imports Rollback
begin

text \<open>
  The store as a state machine: publications, rollbacks and process restarts in any order, with any
  outcome of any server call. \<open>writer_run\<close> follows a run together with the chain its reported
  results promise; the theorems show that the tables always hold exactly that chain.
\<close>

section \<open>The contract of a writer operation\<close>

text \<open>
  Both writer operations keep the invariant whatever the server does. \<open>effect r chain chain'\<close> says
  what the reported result \<open>r\<close> promises about the chain before and after.
\<close>

locale chain_writer =
  fixes run :: "'req \<Rightarrow> store_handle \<Rightarrow> database \<Rightarrow> store_handle \<times> database \<times> 'res"
    and admissible :: "'req \<Rightarrow> bool"
    and effect :: "dataset_identity \<Rightarrow> 'req \<Rightarrow> 'res \<Rightarrow> canonical_block list \<Rightarrow> canonical_block list \<Rightarrow> bool"
  assumes run_effect: "handle_inv h db chain \<Longrightarrow> sh_identity h = Some i \<Longrightarrow> admissible q \<Longrightarrow>
      run q h db = (h', db', r) \<Longrightarrow>
      sh_identity h' = Some i \<and> (\<exists>chain'. handle_inv h' db' chain' \<and> effect i q r chain chain')"
begin

text \<open>Any sequence of admissible operations keeps the invariant and the identity of the dataset.\<close>

fun runs :: "'req list \<Rightarrow> store_handle \<Rightarrow> database \<Rightarrow> store_handle \<times> database" where
  "runs [] h db = (h, db)"
| "runs (q # qs) h db = (case run q h db of (h', db', r) \<Rightarrow> runs qs h' db')"

lemma runs_inv:
  assumes "handle_inv h db chain" and "sh_identity h = Some i" and "list_all admissible qs"
  shows "\<exists>chain'. handle_inv (fst (runs qs h db)) (snd (runs qs h db)) chain'"
  using assms
proof (induction qs arbitrary: h db chain)
  case (Cons q qs)
  obtain h' db' r where r: "run q h db = (h', db', r)" by (cases "run q h db") auto
  from run_effect [OF Cons.prems(1,2) _ r] Cons.prems(3) obtain chain' where
    "sh_identity h' = Some i" "handle_inv h' db' chain'" by auto
  with Cons.IH [of h' db' chain'] Cons.prems(3) r show ?case by simp
qed auto

text \<open>When the result determines the new chain, that chain is the one the tables hold.\<close>

lemma run_exact:
  assumes "handle_inv h db chain" and "sh_identity h = Some i" and "admissible q"
    and "run q h db = (h', db', r)" and "\<And>c. effect i q r chain c \<Longrightarrow> c = chain'"
  shows "sh_identity h' = Some i \<and> handle_inv h' db' chain'"
  using run_effect [OF assms(1-4)] assms(5) by blast

end

definition publish_effect :: "dataset_identity \<Rightarrow> publish_env \<times> candidate list \<Rightarrow> commit \<times> store_error option \<Rightarrow>
    canonical_block list \<Rightarrow> canonical_block list \<Rightarrow> bool" where
  "publish_effect i q r chain chain' \<longleftrightarrow>
     (\<exists>kept. subseq kept (cm_Blocks (fst r)) \<and> chain' = rev kept @ chain \<and>
        publish_outcome (cm_Blocks (fst r)) kept (cm_Committed (fst r)) (snd r))"

definition rollback_effect :: "dataset_identity \<Rightarrow> rollback_env \<times> rollback_request \<Rightarrow>
    rollback_commit \<times> store_error option \<Rightarrow> canonical_block list \<Rightarrow> canonical_block list \<Rightarrow> bool" where
  "rollback_effect i q r chain chain' \<longleftrightarrow>
     (\<exists>k. chain' = drop k chain \<and>
        rollback_outcome (di_Start i) chain (rq_MaximumDepth (snd q)) k (fst r) (snd r))"

definition publish_call :: "publish_env \<times> candidate list \<Rightarrow> store_handle \<Rightarrow> database \<Rightarrow>
    store_handle \<times> database \<times> commit \<times> store_error option" where
  "publish_call q h db = Publish (fst q) (snd q) h db"

definition rollback_call :: "rollback_env \<times> rollback_request \<Rightarrow> store_handle \<Rightarrow> database \<Rightarrow>
    store_handle \<times> database \<times> rollback_commit \<times> store_error option" where
  "rollback_call q h db = Rollback (fst q) (snd q) h db"

text \<open>A Go slice has fewer than \<open>2 ^ 63\<close> elements.\<close>

definition go_slice :: "publish_env \<times> candidate list \<Rightarrow> bool" where
  "go_slice q \<longleftrightarrow> length (snd q) < 2 ^ 63"

interpretation publisher: chain_writer publish_call go_slice publish_effect
proof
  fix h db chain i q h' db' and r :: "commit \<times> store_error option"
  assume a: "handle_inv h db chain" "sh_identity h = Some i" "go_slice q" "publish_call q h db = (h', db', r)"
  then have "Publish (fst q) (snd q) h db = (h', db', fst r, snd r)" by (simp add: publish_call_def)
  from Publish_effect [OF a(1) _ this] a(2,3)
  show "sh_identity h' = Some i \<and> (\<exists>chain'. handle_inv h' db' chain' \<and> publish_effect i q r chain chain')"
    by (auto simp: publish_effect_def go_slice_def)
qed

interpretation roller: chain_writer rollback_call "\<lambda>_. True" rollback_effect
proof
  fix h db chain i q h' db' and r :: "rollback_commit \<times> store_error option"
  assume a: "handle_inv h db chain" "sh_identity h = Some i" "rollback_call q h db = (h', db', r)"
  then have "Rollback (fst q) (snd q) h db = (h', db', fst r, snd r)" by (simp add: rollback_call_def)
  from Rollback_effect [OF a(1,2) this] a(2)
  show "sh_identity h' = Some i \<and> (\<exists>chain'. handle_inv h' db' chain' \<and> rollback_effect i q r chain chain')"
    by (auto simp: rollback_effect_def)
qed

section \<open>Runs\<close>

text \<open>
  \<open>writer_run i h db chain\<close>: some run over the dataset \<open>i\<close> has reached the handle \<open>h\<close> and the
  tables \<open>db\<close>, and \<open>chain\<close> is what its reported results promise. Calls whose result leaves the
  outcome open (\<^verbatim>\<open>ErrCommitIndeterminate\<close>, \<^verbatim>\<open>ErrCommitConflict\<close>) end a run.
  A restart keeps the tables and loads a new allocator; a process that dies inside a call is a call
  with failing outcomes followed by a restart.
\<close>

inductive writer_run :: "dataset_identity \<Rightarrow> store_handle \<Rightarrow> database \<Rightarrow> canonical_block list \<Rightarrow> bool"
  for i :: dataset_identity where
  begin_run: "sh_identity h = Some i \<Longrightarrow> sh_allocator h = Some a \<Longrightarrow> validPoint (di_Start i) \<Longrightarrow>
    db_chain_events db = [] \<Longrightarrow> db_rollbacks db = [] \<Longrightarrow> loadAllocator QueryOk QueryOk db = Inr a \<Longrightarrow>
    writer_run i h db []"
| published: "writer_run i h db chain \<Longrightarrow> length candidates < 2 ^ 63 \<Longrightarrow>
    Publish env candidates h db = (h', db', commit, None) \<Longrightarrow>
    writer_run i h' db' (rev (cm_Blocks commit) @ chain)"
| publish_failed: "writer_run i h db chain \<Longrightarrow> length candidates < 2 ^ 63 \<Longrightarrow>
    Publish env candidates h db = (h', db', commit, Some e) \<Longrightarrow>
    e \<noteq> ErrCommitConflict \<Longrightarrow> e \<noteq> ErrCommitIndeterminate \<Longrightarrow> writer_run i h' db' chain"
| rolled_back: "writer_run i h db chain \<Longrightarrow> Rollback renv request h db = (h', db', rcommit, None) \<Longrightarrow>
    writer_run i h' db' (drop (length (rc_Descendants rcommit)) chain)"
| rollback_failed: "writer_run i h db chain \<Longrightarrow> Rollback renv request h db = (h', db', rcommit, Some e) \<Longrightarrow>
    e \<noteq> ErrCommitIndeterminate \<Longrightarrow> writer_run i h' db' chain"
| restart: "writer_run i h db chain \<Longrightarrow> sh_identity h' = Some i \<Longrightarrow> sh_allocator h' = Some a \<Longrightarrow>
    loadAllocator q1 q2 db = Inr a \<Longrightarrow> writer_run i h' db chain"

inductive_cases writer_runE: "writer_run i h db chain"

lemma publish_outcome_failed:
  "publish_outcome blocks kept c (Some e) \<Longrightarrow> e \<noteq> ErrCommitConflict \<Longrightarrow> e \<noteq> ErrCommitIndeterminate \<Longrightarrow> kept = []"
  by (cases e) (auto simp: publish_outcome_def)

lemma rollback_outcome_failed:
  "rollback_outcome start chain depth k c (Some e) \<Longrightarrow> e \<noteq> ErrCommitIndeterminate \<Longrightarrow> k = 0"
  by (cases e) (auto simp: rollback_outcome_def)

lemma handle_inv_empty:
  assumes "sh_identity h = Some i" and "sh_allocator h = Some a" and "validPoint (di_Start i)"
    and "db_chain_events db = []" and "db_rollbacks db = []" and "loadAllocator QueryOk QueryOk db = Inr a"
  shows "handle_inv h db []"
proof -
  have "chain_inv (di_Start i) db []"
    using assms(3-5) by (simp add: chain_inv_def rows_inv_def adoptions_def live_adoptions_def
        committed_invalidation_def newest_first_def latest_header_def)
  then show ?thesis
    using assms loadAllocator_fresh by (auto simp: handle_inv_def store_inv_def)
qed

lemma handle_inv_restart:
  assumes "handle_inv h db chain" and "sh_identity h = Some i" and "sh_identity h' = Some i"
    and "sh_allocator h' = Some a" and "loadAllocator q1 q2 db = Inr a"
  shows "handle_inv h' db chain"
  using assms loadAllocator_fresh by (auto simp: handle_inv_def store_inv_def)

lemma writer_run_inv: "writer_run i h db chain \<Longrightarrow> sh_identity h = Some i \<and> handle_inv h db chain"
proof (induction rule: writer_run.induct)
  case (begin_run h a db)
  then show ?case using handle_inv_empty by blast
next
  case (published h db chain candidates env h' db' commit)
  then have "publish_call (env, candidates) h db = (h', db', commit, None)" by (simp add: publish_call_def)
  with published show ?case
    by (intro publisher.run_exact [of h db chain i "(env, candidates)"])
      (auto simp: go_slice_def publish_effect_def publish_outcome_def)
next
  case (publish_failed h db chain candidates env h' db' commit e)
  then have "publish_call (env, candidates) h db = (h', db', commit, Some e)" by (simp add: publish_call_def)
  with publish_failed show ?case
    by (intro publisher.run_exact [of h db chain i "(env, candidates)"])
      (auto simp: go_slice_def publish_effect_def dest: publish_outcome_failed)
next
  case (rolled_back h db chain renv request h' db' rcommit)
  then have "rollback_call (renv, request) h db = (h', db', rcommit, None)" by (simp add: rollback_call_def)
  with rolled_back show ?case
    by (intro roller.run_exact [of h db chain i "(renv, request)"])
      (auto simp: rollback_effect_def rollback_outcome_def min_def)
next
  case (rollback_failed h db chain renv request h' db' rcommit e)
  then have "rollback_call (renv, request) h db = (h', db', rcommit, Some e)" by (simp add: rollback_call_def)
  with rollback_failed show ?case
    by (intro roller.run_exact [of h db chain i "(renv, request)"])
      (auto simp: rollback_effect_def, metis drop0 rollback_outcome_failed)
next
  case (restart h db chain h' a q1 q2)
  then show ?case using handle_inv_restart by blast
qed

section \<open>A concrete run\<close>

text \<open>Two blocks are published, the adoption insert is not acknowledged, and one is rolled back.\<close>

definition sample_identity :: dataset_identity where
  "sample_identity = \<lparr>di_DatasetID = 1, di_SchemaHash = fill32 1, di_NetworkMagic = 764824073,
     di_NetworkName = ''mainnet'', di_Start = origin_point, di_CreatedAt = 0, di_SourceBuild = ''dev''\<rparr>"

definition sample_handle :: store_handle where
  "sample_handle = \<lparr>sh_writerID = 7, sh_ebbType = 0, sh_schemaHash = fill32 1,
     sh_identity = Some sample_identity,
     sh_allocator = Some \<lparr>al_nextPublication = 1, al_nextEvent = 1\<rparr>\<rparr>"

definition sample_store_relay :: "char \<Rightarrow> store_relay" where
  "sample_store_relay c = \<lparr>sr_Host = [c], sr_Address = [c], sr_Operator = [c], sr_N2NVersion = 14\<rparr>"

definition sample_candidate :: "byte \<Rightarrow> u64 \<Rightarrow> candidate" where
  "sample_candidate b n = \<lparr>ca_Block = sample_block b n, ca_ContentHash = fill32 b,
     ca_Relays = [sample_store_relay CHR ''a'', sample_store_relay CHR ''b''], ca_RawLength = 9\<rparr>"

definition good_facts :: fact_outcomes where
  "good_facts = \<lparr>fo_blocks = SendOk, fo_transactions = SendOk, fo_inputs = SendOk, fo_outputs = SendOk,
     fo_datum_bodies = SendOk, fo_datum_observations = SendOk, fo_withdrawals = SendOk,
     fo_redeemers = SendOk, fo_metadata = SendOk\<rparr>"

definition sample_publish_env :: "insert_outcome \<Rightarrow> publish_env" where
  "sample_publish_env oc = \<lparr>pe_lock = True, pe_heldFirst = True, pe_heldBeforeAdoption = True,
     pe_clock = 5000, pe_facts = good_facts, pe_adoptions = oc, pe_readback = QueryOk\<rparr>"

definition sample_published :: "store_handle \<times> database \<times> commit \<times> store_error option" where
  "sample_published = Publish (sample_publish_env (SendFails [True, True]))
     [sample_candidate 2 10, sample_candidate 3 11] sample_handle empty_database"

definition sample_rollback_env :: rollback_env where
  "sample_rollback_env = \<lparr>rv_lock = True, rv_heldFirst = True, rv_heldBeforeHeader = True,
     rv_queries = all_queries_ok, rv_rollbackID = 9, rv_clock = 8000, rv_invalidations = SendOk,
     rv_invalidationReadback = QueryOk, rv_header = SendOk, rv_headerReadback = QueryOk,
     rv_membershipReadback = QueryOk\<rparr>"

definition sample_rollback_request :: rollback_request where
  "sample_rollback_request = \<lparr>rq_To = sample_point 2 10,
     rq_Relays = [sample_store_relay CHR ''a'', sample_store_relay CHR ''b''],
     rq_Reason = ''agreed rollback'', rq_MaximumDepth = 5\<rparr>"

definition sample_rolled_back :: "store_handle \<times> database \<times> rollback_commit \<times> store_error option" where
  "sample_rolled_back = (case sample_published of (h, db, _) \<Rightarrow>
     Rollback sample_rollback_env sample_rollback_request h db)"

lemmas sample_defs = sample_handle_def sample_identity_def sample_candidate_def
  sample_store_relay_def sample_publish_env_def good_facts_def sample_block_def empty_database_def
  empty_tables_def

lemmas publish_eval = Publish_def validateCandidates_def candidate_error_def relay_incomplete_def
  blank_def is_space_def countFacts_def counts_exceed_def bodies_exceed_def initializedStore_def
  reservePublications_def reserveEvents_def reserveRange_def Let_def enumerate_eq_zip publish_rows_def
  insertFactsConcurrently_def insertBlocks_def insertTransactions_def insertInputs_def insertOutputs_def
  insertDatumBodies_def insertDatumObservations_def insertWithdrawals_def insertRedeemers_def
  insertMetadata_def hasTransactions_def totalInputs_def totalOutputs_def totalDatumObservations_def
  totalWithdrawals_def totalRedeemers_def totalMetadata_def total_count_def make_publication_def
  make_block_def run_insert_def joined_def insertAdoptions_def adoptionsCommitted_def
  adoptionReadbackSQL_def adoption_row_def pointForBlock_def expected_map_def adoption_matches_def
  kind_rank_def now_micro_def

lemmas rollback_eval = Rollback_def validateRelays_def relay_incomplete_def blank_def is_space_def
  State_def initializedIdentity_def stateForIdentity_def latestCommittedAction_def latestAdoption_def
  latestRollback_def read_latest_def latestAdoptionSQL_def latestRollbackSQL_def adoptions_def
  scan_adoption_def no_action_def loadCanonicalWindow_def canonicalWindowSQL_def active_membership_def
  membership_def latest_membership_def scan_window_row_def validateRecoveredState_def
  intersectionCandidates_def geometric_loop.simps appendPoint_def resolveRollback_def
  resolveRollbackTarget_def sameWirePoint_def suppliedPointMetadataMatches_def initializedStore_def
  reserveEvents_def reserveRange_def make_rollback_def rollback_rows_def rollbackResult_def
  insertInvalidations_def run_insert_def invalidation_row_def insertRollbackHeader_def validPoint_def
  hash32_of_def Let_def

definition sample_rows :: "chain_event list" where
  "sample_rows = map (\<lambda>(s, b, n). \<lparr>ce_event_seq = s, ce_publication_id = s, ce_event_kind = Adoption,
     ce_active = True, ce_rollback_id = None, ce_block_hash = replicate 32 b, ce_slot = n,
     ce_block_number = n, ce_is_byron_ebb = False, ce_writer_id = 7, ce_recorded_at = 5000\<rparr>)
     [(1, 2, 10), (2, 3, 11)]"

definition sample_blocks :: "canonical_block list" where
  "sample_blocks = [\<lparr>cb_PublicationID = 1, cb_EventSeq = 1, cb_Point = sample_point 2 10\<rparr>,
     \<lparr>cb_PublicationID = 2, cb_EventSeq = 2, cb_Point = sample_point 3 11\<rparr>]"

lemma sample_published_ok:
  "fst sample_published = sample_handle\<lparr>sh_allocator := Some \<lparr>al_nextPublication = 3, al_nextEvent = 3\<rparr>\<rparr>"
  "db_chain_events (fst (snd sample_published)) = sample_rows"
  "db_rollbacks (fst (snd sample_published)) = []"
  "cm_Blocks (fst (snd (snd sample_published))) = sample_blocks"
  "cm_Committed (fst (snd (snd sample_published)))"
  "cm_ResolvedUncertain (fst (snd (snd sample_published)))"
  "snd (snd (snd sample_published)) = None"
  by (simp_all add: sample_published_def sample_rows_def sample_blocks_def sample_point_def sample_defs publish_eval)

lemma two_le_one_u64: "\<not> (2 :: u64) \<le> 1"
  by (simp add: word_le_nat_alt)

lemma sample_rolled_back_ok:
  "snd (snd (snd sample_rolled_back)) = None"
  "length (rc_Descendants (fst (snd (snd sample_rolled_back)))) = 1"
  "sh_identity (fst sample_rolled_back) = Some sample_identity"
  by (simp_all add: sample_rolled_back_def case_prod_beta sample_published_ok sample_rows_def
      sample_rollback_env_def sample_rollback_request_def all_queries_ok_def sample_defs sample_point_def
      origin_point_def rollback_eval two_le_one_u64)

lemma sample_start: "writer_run sample_identity sample_handle empty_database []"
proof (rule begin_run)
  show "loadAllocator QueryOk QueryOk empty_database = Inr \<lparr>al_nextPublication = 1, al_nextEvent = 1\<rparr>"
    by (simp add: loadAllocator_def newAllocator_def publicationHighWaterSQL_def eventHighWaterSQL_def
        publication_columns_def max_u64_def empty_database_def empty_tables_def Let_def)
  show "validPoint (di_Start sample_identity)"
    by (simp add: sample_identity_def validPoint_def origin_point_def)
qed (simp_all add: sample_handle_def empty_database_def)

lemma succeeded: "snd (snd (snd x)) = None \<Longrightarrow> x = (fst x, fst (snd x), fst (snd (snd x)), None)"
  by (cases x) auto

lemma sample_publish_call:
  "Publish (sample_publish_env (SendFails [True, True])) [sample_candidate 2 10, sample_candidate 3 11]
     sample_handle empty_database =
     (fst sample_published, fst (snd sample_published), fst (snd (snd sample_published)), None)"
  unfolding sample_published_def by (rule succeeded) (use sample_published_ok(7) in \<open>simp add: sample_published_def\<close>)

lemma sample_rollback_call:
  "Rollback sample_rollback_env sample_rollback_request (fst sample_published) (fst (snd sample_published)) =
     (fst sample_rolled_back, fst (snd sample_rolled_back), fst (snd (snd sample_rolled_back)), None)"
  unfolding sample_rolled_back_def case_prod_beta
  by (rule succeeded) (use sample_rolled_back_ok(1) in \<open>simp add: sample_rolled_back_def case_prod_beta\<close>)

lemma sample_published_run:
  "writer_run sample_identity (fst sample_published) (fst (snd sample_published)) (rev sample_blocks)"
  using published [OF sample_start _ sample_publish_call] by (simp add: sample_published_ok(4))

lemma sample_rolled_back_run:
  "writer_run sample_identity (fst sample_rolled_back) (fst (snd sample_rolled_back)) [hd sample_blocks]"
  using rolled_back [OF sample_published_run sample_rollback_call]
  by (simp add: sample_rolled_back_ok(2) sample_blocks_def)

section \<open>Properties\<close>

lemma State_of_handle:
  assumes "handle_inv h db chain" and "sh_identity h = Some i" and "depth \<noteq> 0"
  shows "State all_queries_ok h db depth = Inr (expected_state i db chain depth)"
  using assms stateForIdentity_ok
  by (auto simp: State_def initializedIdentity_def handle_inv_def store_inv_def)

text \<open>
  C1. Durability: after any sequence of publications, rollbacks and restarts, whatever the server
  calls did, recovery reads back exactly the chain that the reported results promise: its newest
  \<open>depth + 1\<close> blocks, its tip, and the event of the last committed action.
\<close>

theorem recovery_returns_reported_chain:
  assumes "writer_run i h db chain" and "depth \<noteq> 0"
  shows "State all_queries_ok h db depth = Inr (expected_state i db chain depth)"
  using writer_run_inv [OF assms(1)] assms(2) by (simp add: State_of_handle)

theorem recovery_returns_reported_chain_witness:
  "State all_queries_ok (fst sample_rolled_back) (fst (snd sample_rolled_back)) 5 =
     Inr (expected_state sample_identity (fst (snd sample_rolled_back)) [hd sample_blocks] 5)"
  by (rule recovery_returns_reported_chain [OF sample_rolled_back_run]) simp

text \<open>
  The blocks of a batch: one per candidate and in their order, each at the point of its candidate's
  block, under consecutive publication and event numbers that do not wrap.
\<close>

definition adopts :: "candidate \<Rightarrow> canonical_block \<Rightarrow> bool" where
  "adopts c b \<longleftrightarrow> \<not> pt_Origin (cb_Point b) \<and> pt_Hash (cb_Point b) = bk_Hash (ca_Block c) \<and>
     pt_Slot (cb_Point b) = bk_Slot (ca_Block c) \<and> pt_BlockNumber (cb_Point b) = bk_Number (ca_Block c)"

definition batch_of :: "candidate list \<Rightarrow> canonical_block list \<Rightarrow> bool" where
  "batch_of candidates blocks \<longleftrightarrow> list_all2 adopts candidates blocks \<and>
     (\<forall>n < length blocks. unat (cb_PublicationID (blocks ! n)) = unat (cb_PublicationID (blocks ! 0)) + n \<and>
        unat (cb_EventSeq (blocks ! n)) = unat (cb_EventSeq (blocks ! 0)) + n)"

lemma make_blocks_batch:
  assumes p: "reservePublications a (of_nat (length candidates)) = Inr (fp, a1)"
    and e: "reserveEvents a1 (of_nat (length candidates)) = Inr (fe, a2)" and len: "length candidates < 2 ^ 63"
  shows "batch_of candidates (map (make_block h fp fe) (enumerate 0 candidates))"
proof -
  have count: "unat (of_nat (length candidates) :: u64) = length candidates" using len by (simp add: unat_of_nat)
  have ids: "unat (fp + of_nat n) = unat fp + n" "unat (fe + of_nat n) = unat fe + n" if "n < length candidates" for n
  proof -
    from that have "0 < length candidates" by linarith
    with that show "unat (fp + of_nat n) = unat fp + n" "unat (fe + of_nat n) = unat fe + n"
      using pub.reserved_id(1) [OF p, of n] pub.reserved_id(1) [OF p, of 0] ev.reserved_id(1) [OF e, of n]
        ev.reserved_id(1) [OF e, of 0] count by simp_all
  qed
  define blocks where "blocks = map (make_block h fp fe) (enumerate 0 candidates)"
  have at: "blocks ! n = make_block h fp fe (n, candidates ! n)" if "n < length candidates" for n
    using that by (simp add: blocks_def nth_enumerate_eq)
  have size: "length blocks = length candidates" by (simp add: blocks_def)
  have "unat (cb_PublicationID (blocks ! n)) = unat (cb_PublicationID (blocks ! 0)) + n \<and>
      unat (cb_EventSeq (blocks ! n)) = unat (cb_EventSeq (blocks ! 0)) + n" if "n < length candidates" for n
  proof -
    from that have "0 < length candidates" by linarith
    then show ?thesis using that by (simp only: at) (simp add: make_block_def ids)
  qed
  then show ?thesis unfolding blocks_def [symmetric]
    by (auto simp: batch_of_def list_all2_conv_all_nth size at make_block_def adopts_def pointForBlock_def)
qed

lemma publish_rows_blocks:
  "publish_rows env h i pubs commit0 db = (db', commit, err) \<Longrightarrow> cm_Blocks commit = cm_Blocks commit0"
  by (auto simp: publish_rows_def Let_def case_prod_beta split: if_splits sum.splits bool.splits store_error.splits)

lemma Publish_batch:
  assumes "Publish env candidates h db = (h', db', commit, err)" and "length candidates < 2 ^ 63"
  shows "batch_of candidates (cm_Blocks commit) \<or>
    cm_Blocks commit = [] \<and> err \<notin> {None, Some ErrCommitConflict, Some ErrCommitIndeterminate}"
proof (cases "cm_Blocks commit = [] \<and> err \<notin> {None, Some ErrCommitConflict, Some ErrCommitIndeterminate}")
  case False
  with assms(1) obtain i a fp a1 fe a2 where p: "reservePublications a (of_nat (length candidates)) = Inr (fp, a1)"
    and e: "reserveEvents a1 (of_nat (length candidates)) = Inr (fe, a2)"
    and rows: "publish_rows env h i (map (make_publication h (now_micro (pe_clock env)) fp fe) (enumerate 0 candidates))
      \<lparr>cm_FirstPublicationID = fp, cm_LastPublicationID = fp + of_nat (length candidates) - 1, cm_FirstEventSeq = fe,
       cm_LastEventSeq = fe + of_nat (length candidates) - 1, cm_Blocks = map (make_block h fp fe) (enumerate 0 candidates),
       cm_Committed = False, cm_ResolvedUncertain = False\<rparr> db = (db', commit, err)"
    by (auto simp: Publish_def initializedStore_def empty_commit_def Let_def validateCandidates_def split: if_splits sum.splits option.splits)
  have "cm_Blocks commit = map (make_block h fp fe) (enumerate 0 candidates)"
    using publish_rows_blocks [OF rows] by simp
  then show ?thesis using make_blocks_batch [OF p e assms(2)] by simp
qed blast

text \<open>
  C11. Publication: what becomes canonical is a subsequence of the batch, its blocks those of the
  candidates in their order under consecutive numbers, pushed on the chain: the whole batch on success,
  acknowledged or resolved by readback; none of it on every error but two; a proper and not empty part
  on \<^verbatim>\<open>ErrCommitConflict\<close>; and on \<^verbatim>\<open>ErrCommitIndeterminate\<close>, when the readback failed too, a part
  the caller cannot know.
\<close>

theorem publish_moves_chain_exactly:
  assumes "writer_run i h db chain" and "length candidates < 2 ^ 63" and "depth \<noteq> 0"
    and "Publish env candidates h db = (h', db', commit, err)"
  shows "\<exists>kept. subseq kept (cm_Blocks commit) \<and>
    (batch_of candidates (cm_Blocks commit) \<or>
       cm_Blocks commit = [] \<and> err \<notin> {None, Some ErrCommitConflict, Some ErrCommitIndeterminate}) \<and>
    State all_queries_ok h' db' depth = Inr (expected_state i db' (rev kept @ chain) depth) \<and>
    publish_outcome (cm_Blocks commit) kept (cm_Committed commit) err"
proof -
  have h: "sh_identity h = Some i" "handle_inv h db chain" using writer_run_inv [OF assms(1)] by auto
  from Publish_effect [OF h(2) assms(2,4)] h(1) assms(3) Publish_batch [OF assms(4,2)] show ?thesis
    by (metis State_of_handle)
qed

theorem publish_moves_chain_exactly_witness:
  "batch_of [sample_candidate 2 10, sample_candidate 3 11] sample_blocks \<and>
   State all_queries_ok (fst sample_published) (fst (snd sample_published)) 5 =
     Inr (expected_state sample_identity (fst (snd sample_published)) (rev sample_blocks) 5)"
  using publish_moves_chain_exactly [OF sample_start _ _ sample_publish_call, of 5]
  by (auto simp: sample_published_ok(4,5) publish_outcome_def)

text \<open>
  C12. Rollback: on success the chain loses exactly the reported descendants, at most the permitted
  depth of them, and its tip is the reported target; a call that fails with anything but
  \<^verbatim>\<open>ErrCommitIndeterminate\<close> leaves the chain as it was, whatever invalidations it left behind.
\<close>

theorem rollback_moves_chain_exactly:
  assumes "writer_run i h db chain" and "depth \<noteq> 0"
    and "Rollback env request h db = (h', db', commit, err)"
  shows "\<exists>k. State all_queries_ok h' db' depth = Inr (expected_state i db' (drop k chain) depth) \<and>
    rollback_outcome (di_Start i) chain (rq_MaximumDepth request) k commit err"
proof -
  have h: "sh_identity h = Some i" "handle_inv h db chain" using writer_run_inv [OF assms(1)] by auto
  from Rollback_effect [OF h(2,1) assms(3)] h(1) assms(2) show ?thesis by (metis State_of_handle)
qed

theorem rollback_moves_chain_exactly_witness:
  "\<exists>k. State all_queries_ok (fst sample_rolled_back) (fst (snd sample_rolled_back)) 5 =
      Inr (expected_state sample_identity (fst (snd sample_rolled_back)) (drop k (rev sample_blocks)) 5) \<and>
    rollback_outcome (di_Start sample_identity) (rev sample_blocks) 5 k (fst (snd (snd sample_rolled_back))) None"
  using rollback_moves_chain_exactly [OF sample_published_run _ sample_rollback_call, of 5]
  by (simp add: sample_rollback_request_def)

text \<open>
  Identifiers are never reused: a publication numbers its blocks with identifiers and events that
  occur in no table, those of rolled back, failed and partial attempts before it included.
\<close>

theorem publish_identifiers_fresh:
  assumes "writer_run i h db chain" and "length candidates < 2 ^ 63"
    and "Publish env candidates h db = (h', db', commit, err)" and "b \<in> set (cm_Blocks commit)"
  shows "cb_PublicationID b \<notin> publication_ids db \<and> cb_EventSeq b \<notin> event_seqs db"
  using Publish_fresh [of h db chain] writer_run_inv [OF assms(1)] assms(2-) by blast

theorem publish_identifiers_fresh_witness:
  "cb_PublicationID (hd sample_blocks) \<notin> publication_ids empty_database \<and>
   cb_EventSeq (hd sample_blocks) \<notin> event_seqs empty_database"
  using publish_identifiers_fresh [OF sample_start _ sample_publish_call, of "hd sample_blocks"]
  by (simp add: sample_published_ok(4) sample_blocks_def)

text \<open>
  C35. The intersection candidates recovery offers are usable: the first is the durable tip, the
  configured start is among them, every other one is a block of the durable chain, there are at most
  66, none is repeated, and the relay sessions accept the list.
\<close>

theorem intersection_candidates_usable:
  assumes "writer_run i h db chain" and "depth \<noteq> 0"
  shows "\<exists>cs. Intersections all_queries_ok h db depth = Inr cs \<and> relay_accepts cs \<and> distinct cs \<and>
    length cs \<le> 66 \<and> hd cs = chain_tip (di_Start i) chain \<and> di_Start i \<in> set cs \<and>
    set cs \<subseteq> insert (di_Start i) (cb_Point ` set chain)"
proof -
  have h: "sh_identity h = Some i" "handle_inv h db chain" using writer_run_inv [OF assms(1)] by auto
  then have inv: "chain_inv (di_Start i) db chain" by (auto simp: handle_inv_def store_inv_def)
  show ?thesis
    using State_of_handle [OF h(2,1) assms(2)] expected_candidates [OF inv, of depth]
    by (simp add: Intersections_def)
qed

theorem intersection_candidates_usable_witness:
  "\<exists>cs. Intersections all_queries_ok (fst sample_published) (fst (snd sample_published)) 5 = Inr cs \<and>
    relay_accepts cs \<and> distinct cs \<and> length cs \<le> 66 \<and> hd cs = sample_point 3 11 \<and> origin_point \<in> set cs \<and>
    set cs \<subseteq> insert origin_point (cb_Point ` set (rev sample_blocks))"
  using intersection_candidates_usable [OF sample_published_run, of 5]
  by (simp add: sample_blocks_def chain_tip_def sample_identity_def)

end
