(* ===== verification/Dataset.thy ===== *)
theory Dataset
  imports Store_Machine
begin

text \<open>
  \<^verbatim>\<open>internal/store/dataset.go\<close> and \<^verbatim>\<open>Inspect\<close> of \<^verbatim>\<open>recovery.go\<close>: the immutable
  identity of the dataset, written once and checked at every start, and the read-only inspection.
\<close>

section \<open>Operations\<close>

definition validateDatasetConfig :: "dataset_config \<Rightarrow> store_error + unit" where
  "validateDatasetConfig config =
     (if dc_NetworkMagic config = 0 then Inl ErrDatasetConfig
      else if blank (dc_NetworkName config) then Inl ErrDatasetConfig
      else if blank (dc_SourceBuild config) then Inl ErrDatasetConfig
      else if \<not> validPoint (dc_Start config) then Inl ErrDatasetConfig
      else Inr ())"

definition identityUsesCurrentSchema :: "store_handle \<Rightarrow> dataset_identity \<Rightarrow> store_error + unit" where
  "identityUsesCurrentSchema h identity =
     (if di_SchemaHash identity \<noteq> sh_schemaHash h then Inl ErrSchemaMismatch else Inr ())"

definition identityMatchesConfig :: "store_handle \<Rightarrow> dataset_identity \<Rightarrow> dataset_config \<Rightarrow> store_error + unit" where
  "identityMatchesConfig h identity config =
     bindE (identityUsesCurrentSchema h identity) (\<lambda>_.
       if di_NetworkMagic identity \<noteq> dc_NetworkMagic config \<or>
          di_NetworkName identity \<noteq> dc_NetworkName config \<or>
          di_Start identity \<noteq> dc_Start config
       then Inl ErrDatasetConflict else Inr ())"

definition sameDatasetIdentity :: "dataset_identity \<Rightarrow> dataset_identity \<Rightarrow> bool" where
  "sameDatasetIdentity left right \<longleftrightarrow>
     di_DatasetID left = di_DatasetID right \<and>
     bytes32 (di_SchemaHash left) = bytes32 (di_SchemaHash right) \<and>
     di_NetworkMagic left = di_NetworkMagic right \<and> di_NetworkName left = di_NetworkName right \<and>
     di_Start left = di_Start right \<and> di_CreatedAt left = di_CreatedAt right \<and>
     di_SourceBuild left = di_SourceBuild right"

definition dataset_row_of :: "dataset_identity \<Rightarrow> dataset_row" where
  "dataset_row_of identity =
     (let start = di_Start identity; origin = pt_Origin start in
      \<lparr>dt_dataset_id = di_DatasetID identity, dt_schema_hash = bytes32 (di_SchemaHash identity),
       dt_network_magic = di_NetworkMagic identity, dt_network_name = di_NetworkName identity,
       dt_start_origin = origin,
       dt_start_slot = (if \<not> origin then Some (pt_Slot start) else None),
       dt_start_hash = (if \<not> origin then Some (bytes32 (pt_Hash start)) else None),
       dt_start_block_number = (if \<not> origin then Some (pt_BlockNumber start) else None),
       dt_start_is_byron_ebb = pt_IsByronEBB start,
       dt_created_at = di_CreatedAt identity, dt_source_build = di_SourceBuild identity\<rparr>)"

definition insertDataset :: "insert_outcome \<Rightarrow> dataset_identity \<Rightarrow> database \<Rightarrow> database \<times> store_error option" where
  "insertDataset oc identity db =
     (let (rows, err) = run_insert oc (Inr (Some [dataset_row_of identity]))
      in (db\<lparr>db_dataset := db_dataset db @ rows\<rparr>, err))"

text \<open>Scanning one row: the checks in the order of the source.\<close>

definition scan_dataset :: "dataset_row \<Rightarrow> store_error + dataset_identity" where
  "scan_dataset r =
     bindE (hash32_of (dt_schema_hash r)) (\<lambda>schema.
       let make = (\<lambda>start. \<lparr>di_DatasetID = dt_dataset_id r, di_SchemaHash = schema,
             di_NetworkMagic = dt_network_magic r, di_NetworkName = dt_network_name r,
             di_Start = start, di_CreatedAt = now_micro (dt_created_at r),
             di_SourceBuild = dt_source_build r\<rparr>)
       in if dt_start_origin r then
            (if dt_start_slot r \<noteq> None \<or> length (scan_bytes (dt_start_hash r)) \<noteq> 0 \<or>
                dt_start_block_number r \<noteq> None \<or> dt_start_is_byron_ebb r
             then Inl ErrEncoding else Inr (make origin_point))
          else (case (dt_start_slot r, dt_start_block_number r) of
              (Some slot, Some number) \<Rightarrow>
                bindE (hash32_of (scan_bytes (dt_start_hash r))) (\<lambda>hash.
                  Inr (make \<lparr>pt_Origin = False, pt_Slot = slot, pt_Hash = hash,
                    pt_BlockNumber = number, pt_IsByronEBB = dt_start_is_byron_ebb r\<rparr>))
            | _ \<Rightarrow> Inl ErrEncoding))"

definition loadDatasetSQL :: "database \<Rightarrow> dataset_row list" where
  "loadDatasetSQL db = sort_key (\<lambda>r. (dt_dataset_id r, dt_created_at r)) (db_dataset db)"

definition loadDataset :: "query_outcome \<Rightarrow> database \<Rightarrow> store_error + dataset_identity list" where
  "loadDataset q db =
     bindE (query_rows q (loadDatasetSQL db)) (\<lambda>(delivered, failed).
     bindE (mapM scan_dataset delivered) (\<lambda>identities.
       if failed then Inl ErrQuery else Inr identities))"

record initialize_env =
  ie_load :: query_outcome
  ie_uuid :: uuid
  ie_clock :: time
  ie_insert :: insert_outcome
  ie_reload :: query_outcome
  ie_publicationHighWater :: query_outcome
  ie_eventHighWater :: query_outcome

text \<open>The branch that writes the row when the table is empty.\<close>

definition create_dataset :: "initialize_env \<Rightarrow> dataset_config \<Rightarrow> store_handle \<Rightarrow> database \<Rightarrow>
    database \<times> (store_error + dataset_identity)" where
  "create_dataset env config h db =
     (let identity = \<lparr>di_DatasetID = ie_uuid env, di_SchemaHash = sh_schemaHash h,
            di_NetworkMagic = dc_NetworkMagic config, di_NetworkName = dc_NetworkName config,
            di_Start = dc_Start config, di_CreatedAt = now_micro (ie_clock env),
            di_SourceBuild = dc_SourceBuild config\<rparr>;
          (db1, insertErr) = insertDataset (ie_insert env) identity db
      in (db1, case loadDataset (ie_reload env) db1 of
           Inl e \<Rightarrow> Inl (if insertErr \<noteq> None then ErrInsert else e)
         | Inr rows \<Rightarrow>
             if length rows = 0 then Inl (if insertErr \<noteq> None then ErrInsert else ErrDatasetConflict)
             else if list_ex (\<lambda>row. \<not> sameDatasetIdentity identity row) rows then Inl ErrDatasetConflict
             else Inr identity))"

definition Initialize :: "initialize_env \<Rightarrow> dataset_config \<Rightarrow> store_handle \<Rightarrow> database \<Rightarrow>
    store_handle \<times> database \<times> (store_error + dataset_identity)" where
  "Initialize env config h db =
     (case validateDatasetConfig config of Inl e \<Rightarrow> (h, db, Inl e)
      | Inr _ \<Rightarrow>
     (case sh_identity h of
        Some identity \<Rightarrow> (h, db, bindE (identityMatchesConfig h identity config) (\<lambda>_. Inr identity))
      | None \<Rightarrow>
     (case loadDataset (ie_load env) db of Inl e \<Rightarrow> (h, db, Inl e)
      | Inr rows \<Rightarrow>
     (let (db1, found) =
            (if length rows = 0 then create_dataset env config h db
             else (db, if list_ex (\<lambda>row. \<not> sameDatasetIdentity (rows ! 0) row) (drop 1 rows)
                       then Inl ErrDatasetConflict else Inr (rows ! 0)))
      in case bindE found (\<lambda>identity. bindE (identityMatchesConfig h identity config) (\<lambda>_.
           bindE (loadAllocator (ie_publicationHighWater env) (ie_eventHighWater env) db1) (\<lambda>a.
             Inr (identity, a)))) of
           Inl e \<Rightarrow> (h, db1, Inl e)
         | Inr (identity, a) \<Rightarrow>
             (h\<lparr>sh_identity := Some identity, sh_allocator := Some a\<rparr>, db1, Inr identity)))))"

text \<open>\<^verbatim>\<open>Inspect\<close>: \<open>None\<close> when no dataset was initialized.\<close>

definition Inspect :: "query_outcome \<Rightarrow> state_queries \<Rightarrow> store_handle \<Rightarrow> database \<Rightarrow> u32 \<Rightarrow>
    store_error + store_state option" where
  "Inspect q qs h db maximumDepth =
     (if maximumDepth = 0 then Inl ErrZeroDepth
      else bindE (loadDataset q db) (\<lambda>identities.
        case identities of
          [] \<Rightarrow> Inr None
        | identity # replays \<Rightarrow>
            if list_ex (\<lambda>replay. \<not> sameDatasetIdentity identity replay) replays
            then Inl ErrDatasetConflict
            else bindE (identityUsesCurrentSchema h identity) (\<lambda>_.
              bindE (stateForIdentity qs db identity maximumDepth) (\<lambda>state. Inr (Some state)))))"

section \<open>The row round trip\<close>

lemma sameDatasetIdentity_eq [simp]: "sameDatasetIdentity a b \<longleftrightarrow> a = b"
  by (cases a, cases b) (auto simp: sameDatasetIdentity_def)

definition wf_identity :: "dataset_identity \<Rightarrow> bool" where
  "wf_identity i \<longleftrightarrow> validPoint (di_Start i) \<and> now_micro (di_CreatedAt i) = di_CreatedAt i"

lemma now_micro_idem [simp]: "now_micro (now_micro t) = now_micro t"
proof -
  have "(t - t mod 1000) mod 1000 = 0" by (simp add: minus_mod_eq_mult_div)
  then show ?thesis by (simp add: now_micro_def)
qed

lemma scan_dataset_row:
  assumes "wf_identity i"
  shows "scan_dataset (dataset_row_of i) = Inr i"
proof (cases "pt_Origin (di_Start i)")
  case True
  then have "di_Start i = origin_point"
    using assms validPoint_origin by (simp add: wf_identity_def)
  with True assms show ?thesis
    by (cases i) (simp add: scan_dataset_def dataset_row_of_def wf_identity_def Let_def scan_bytes_def origin_point_def)
next
  case False
  with assms show ?thesis
    by (cases i, cases "di_Start i")
      (simp add: scan_dataset_def dataset_row_of_def wf_identity_def Let_def scan_bytes_def)
qed

lemma loadDataset_ok:
  assumes "loadDataset q db = Inr rows"
  shows "q = QueryOk \<and> mapM scan_dataset (loadDatasetSQL db) = Inr rows"
  using assms by (cases q) (auto simp: loadDataset_def err_simps split: if_splits)

text \<open>\<open>dataset_is db i\<close>: the table holds rows, all of which read back as \<open>i\<close>.\<close>

definition dataset_is :: "database \<Rightarrow> dataset_identity \<Rightarrow> bool" where
  "dataset_is db i \<longleftrightarrow> db_dataset db \<noteq> [] \<and> (\<forall>r \<in> set (db_dataset db). scan_dataset r = Inr i)"

lemma dataset_is_load:
  assumes "dataset_is db i"
  shows "loadDataset QueryOk db = Inr (replicate (length (db_dataset db)) i)"
proof -
  have "mapM scan_dataset (loadDatasetSQL db) = Inr (map (\<lambda>_. i) (loadDatasetSQL db))"
    using assms by (intro mapM_Inr_map) (simp add: dataset_is_def loadDatasetSQL_def)
  then show ?thesis by (simp add: loadDataset_def loadDatasetSQL_def map_replicate_const)
qed

lemma dataset_is_of_load:
  assumes "loadDataset q db = Inr rows" and "rows \<noteq> []" and "\<forall>r \<in> set rows. r = i"
  shows "dataset_is db i"
proof -
  have m: "list_all2 (\<lambda>x y. scan_dataset x = Inr y) (loadDatasetSQL db) rows"
    using loadDataset_ok [OF assms(1)] by (simp add: mapM_eq_Inr_iff)
  then have len: "length (db_dataset db) = length rows"
    by (auto simp: loadDatasetSQL_def dest: list_all2_lengthD)
  have "scan_dataset r = Inr i" if "r \<in> set (db_dataset db)" for r
  proof -
    from that have "r \<in> set (loadDatasetSQL db)" by (simp add: loadDatasetSQL_def)
    then obtain k where k: "k < length (loadDatasetSQL db)" "r = loadDatasetSQL db ! k"
      by (auto simp: in_set_conv_nth)
    with m have "scan_dataset r = Inr (rows ! k)" "rows ! k \<in> set rows"
      by (auto simp: list_all2_conv_all_nth)
    with assms(3) show ?thesis by simp
  qed
  with len assms(2) show ?thesis by (auto simp: dataset_is_def)
qed

lemma wf_identity_created:
  "validateDatasetConfig config = Inr u \<Longrightarrow> validPoint (dc_Start config)"
  by (auto simp: validateDatasetConfig_def split: if_splits)

lemma loadDataset_empty: "loadDataset q db = Inr [] \<Longrightarrow> db_dataset db = []"
proof -
  assume l: "loadDataset q db = Inr []"
  then have "loadDatasetSQL db = []" using loadDataset_ok [OF l] by (simp add: mapM_eq_Inr_iff)
  from arg_cong [OF this, of length] show ?thesis by (simp add: loadDatasetSQL_def)
qed

lemma insertDataset_frame:
  "insertDataset oc i db = (db', e) \<Longrightarrow> db_chain_events db' = db_chain_events db \<and>
     db_rollbacks db' = db_rollbacks db \<and> db_facts db' = db_facts db"
  by (auto simp: insertDataset_def Let_def case_prod_beta)

lemma create_dataset_ok:
  assumes "create_dataset env config h db = (db', Inr i)"
  shows "dataset_is db' i"
proof -
  from assms obtain rows where l: "loadDataset (ie_reload env) db' = Inr rows" "rows \<noteq> []"
    "\<forall>r \<in> set rows. r = i"
    by (auto simp: create_dataset_def Let_def case_prod_beta list_ex_iff split: sum.splits if_splits)
  then show ?thesis by (rule dataset_is_of_load)
qed

lemma create_dataset_frame:
  "create_dataset env config h db = (db', r) \<Longrightarrow> db_chain_events db' = db_chain_events db \<and>
     db_rollbacks db' = db_rollbacks db \<and> db_facts db' = db_facts db"
  by (auto simp: create_dataset_def insertDataset_def Let_def case_prod_beta)

definition identity_of_config :: "store_handle \<Rightarrow> dataset_config \<Rightarrow> dataset_identity \<Rightarrow> bool" where
  "identity_of_config h config i \<longleftrightarrow> di_SchemaHash i = sh_schemaHash h \<and>
     di_NetworkMagic i = dc_NetworkMagic config \<and> di_NetworkName i = dc_NetworkName config \<and>
     di_Start i = dc_Start config"

lemma identityMatchesConfig_iff: "identityMatchesConfig h i config = Inr u \<longleftrightarrow> identity_of_config h config i"
  by (auto simp: identityMatchesConfig_def identityUsesCurrentSchema_def identity_of_config_def)

lemma Initialize_ok:
  assumes "sh_identity h = None" and run: "Initialize env config h db = (h', db', Inr i)"
  shows "dataset_is db' i" and "identity_of_config h config i" and "validPoint (di_Start i)"
    and "\<exists>a. h' = h\<lparr>sh_identity := Some i, sh_allocator := Some a\<rparr> \<and>
      loadAllocator (ie_publicationHighWater env) (ie_eventHighWater env) db' = Inr a"
    and "db_chain_events db' = db_chain_events db" and "db_rollbacks db' = db_rollbacks db"
    and "db_dataset db \<noteq> [] \<Longrightarrow> db' = db"
proof -
  from run have v: "validateDatasetConfig config = Inr ()"
    by (auto simp: Initialize_def split: sum.splits)
  from run assms(1) v obtain rows where l: "loadDataset (ie_load env) db = Inr rows"
    by (auto simp: Initialize_def split: sum.splits)
  let ?found = "if length rows = 0 then create_dataset env config h db
    else (db, if list_ex (\<lambda>row. \<not> sameDatasetIdentity (rows ! 0) row) (drop 1 rows)
              then Inl ErrDatasetConflict else Inr (rows ! 0))"
  from run assms(1) v l obtain a where f: "?found = (db', Inr i)"
    and m: "identityMatchesConfig h i config = Inr ()"
    and a: "loadAllocator (ie_publicationHighWater env) (ie_eventHighWater env) db' = Inr a"
      "h' = h\<lparr>sh_identity := Some i, sh_allocator := Some a\<rparr>"
    by (auto simp: Initialize_def Let_def case_prod_beta err_simps prod_eq_iff split: sum.splits)
  show "identity_of_config h config i" using m by (simp add: identityMatchesConfig_iff)
  then show "validPoint (di_Start i)"
    using wf_identity_created [OF v] by (simp add: identity_of_config_def)
  show "\<exists>a. h' = h\<lparr>sh_identity := Some i, sh_allocator := Some a\<rparr> \<and>
      loadAllocator (ie_publicationHighWater env) (ie_eventHighWater env) db' = Inr a"
    using a by blast
  show "dataset_is db' i"
  proof (cases "rows = []")
    case True
    with f show ?thesis by (auto intro: create_dataset_ok)
  next
    case False
    then obtain r rs where rows: "rows = r # rs" by (cases rows) auto
    with f have "db' = db" "i = r" "\<forall>x \<in> set rows. x = r"
      by (auto simp: list_ex_iff split: if_splits)
    with dataset_is_of_load [OF l False] show ?thesis by blast
  qed
  have frame: "db_chain_events db' = db_chain_events db \<and> db_rollbacks db' = db_rollbacks db"
    using f create_dataset_frame [of env config h db db' "Inr i"] by (auto split: if_splits)
  then show "db_chain_events db' = db_chain_events db" "db_rollbacks db' = db_rollbacks db" by auto
  show "db_dataset db \<noteq> [] \<Longrightarrow> db' = db"
    using f l loadDataset_empty by (cases rows) (auto split: if_splits)
qed

lemma Initialize_existing:
  assumes "sh_identity h = None" and ds: "dataset_is db i" and v: "validateDatasetConfig config = Inr ()"
    and "ie_load env = QueryOk"
  shows "Initialize env config h db =
    (if identity_of_config h config i then
       case loadAllocator (ie_publicationHighWater env) (ie_eventHighWater env) db of
         Inl e \<Rightarrow> (h, db, Inl e)
       | Inr a \<Rightarrow> (h\<lparr>sh_identity := Some i, sh_allocator := Some a\<rparr>, db, Inr i)
     else (h, db, Inl (if di_SchemaHash i \<noteq> sh_schemaHash h then ErrSchemaMismatch else ErrDatasetConflict)))"
proof -
  from ds obtain n where n: "length (db_dataset db) = Suc n"
    by (cases "db_dataset db") (auto simp: dataset_is_def)
  then have "loadDataset (ie_load env) db = Inr (i # replicate n i)"
    using dataset_is_load [OF ds] assms(4) by simp
  with assms show ?thesis
    by (auto simp: Initialize_def Let_def identityMatchesConfig_def identityUsesCurrentSchema_def
        identity_of_config_def list_ex_iff split: sum.splits)
qed

section \<open>Properties\<close>

definition sample_config :: dataset_config where
  "sample_config = \<lparr>dc_NetworkMagic = 764824073, dc_NetworkName = ''mainnet'', dc_Start = origin_point,
     dc_SourceBuild = ''dev''\<rparr>"

definition sample_initialize_env :: initialize_env where
  "sample_initialize_env = \<lparr>ie_load = QueryOk, ie_uuid = 1, ie_clock = 0, ie_insert = SendFails [True],
     ie_reload = QueryOk, ie_publicationHighWater = QueryOk, ie_eventHighWater = QueryOk\<rparr>"

definition fresh_handle :: store_handle where
  "fresh_handle = \<lparr>sh_writerID = 7, sh_ebbType = 0, sh_schemaHash = fill32 1, sh_identity = None,
     sh_allocator = None\<rparr>"

definition initialized_database :: database where
  "initialized_database = empty_database\<lparr>db_dataset := [dataset_row_of sample_identity]\<rparr>"

lemma sample_allocator:
  "loadAllocator QueryOk QueryOk initialized_database = Inr \<lparr>al_nextPublication = 1, al_nextEvent = 1\<rparr>"
  by (simp add: loadAllocator_def newAllocator_def publicationHighWaterSQL_def eventHighWaterSQL_def
      publication_columns_def max_u64_def initialized_database_def empty_database_def empty_tables_def Let_def)

lemma sample_create:
  "create_dataset sample_initialize_env sample_config fresh_handle empty_database =
     (initialized_database, Inr sample_identity)"
proof -
  have "wf_identity sample_identity"
    by (simp add: wf_identity_def sample_identity_def validPoint_def origin_point_def now_micro_def)
  from scan_dataset_row [OF this] have "loadDataset QueryOk initialized_database = Inr [sample_identity]"
    by (simp add: loadDataset_def loadDatasetSQL_def initialized_database_def)
  then show ?thesis
    by (simp add: create_dataset_def sample_initialize_env_def sample_config_def fresh_handle_def
        insertDataset_def run_insert_def empty_database_def initialized_database_def sample_identity_def
        now_micro_def Let_def)
qed

lemma sample_initialize:
  "Initialize sample_initialize_env sample_config fresh_handle empty_database =
     (sample_handle, initialized_database, Inr sample_identity)"
proof -
  have "validateDatasetConfig sample_config = Inr ()" "sh_identity fresh_handle = None"
    "loadDataset (ie_load sample_initialize_env) empty_database = Inr []"
    "identityMatchesConfig fresh_handle sample_identity sample_config = Inr ()"
    by (simp_all add: validateDatasetConfig_def sample_config_def blank_def is_space_def validPoint_def
        origin_point_def fresh_handle_def loadDataset_def loadDatasetSQL_def sample_initialize_env_def
        empty_database_def identityMatchesConfig_def identityUsesCurrentSchema_def sample_identity_def)
  then show ?thesis
    using sample_create sample_allocator
    by (simp add: Initialize_def sample_initialize_env_def sample_handle_def fresh_handle_def)
qed

lemma initialize_run_sample: "writer_run sample_identity sample_handle initialized_database []"
proof (rule begin_run)
  show "loadAllocator QueryOk QueryOk initialized_database = Inr \<lparr>al_nextPublication = 1, al_nextEvent = 1\<rparr>"
    by (rule sample_allocator)
qed (simp_all add: sample_handle_def sample_identity_def initialized_database_def empty_database_def
    validPoint_def origin_point_def)

text \<open>
  Initialization starts a run: a process that initializes successfully holds an identity that
  matches its configuration and the executable's schema, every row of the dataset table reads back as
  that identity, and on tables without chain rows the store is in the initial state of a run, with an
  empty chain that starts at the configured point. It holds when the insert of the row was not
  acknowledged, too.
\<close>

theorem initialize_begins_run:
  assumes "sh_identity h = None" and "Initialize env config h db = (h', db', Inr i)"
    and "db_chain_events db = []" and "db_rollbacks db = []"
  shows "identity_of_config h config i \<and> dataset_is db' i \<and> writer_run i h' db' []"
proof -
  note ok = Initialize_ok [OF assms(1,2)]
  from ok(4) obtain a where a: "h' = h\<lparr>sh_identity := Some i, sh_allocator := Some a\<rparr>"
    and l: "loadAllocator (ie_publicationHighWater env) (ie_eventHighWater env) db' = Inr a" by blast
  from l have "loadAllocator QueryOk QueryOk db' = Inr a"
    by (auto simp: loadAllocator_def split: if_splits)
  then have "writer_run i h' db' []"
    using a ok assms(3,4) by (intro begin_run) auto
  with ok show ?thesis by blast
qed

theorem initialize_begins_run_witness:
  "identity_of_config fresh_handle sample_config sample_identity \<and>
   dataset_is initialized_database sample_identity \<and>
   writer_run sample_identity sample_handle initialized_database []"
  using initialize_begins_run [OF _ sample_initialize]
  by (simp add: fresh_handle_def empty_database_def)

text \<open>The identifier spaces are exhausted only when their last number is in the tables.\<close>

lemma max_u64_top: "max_u64 xs = max_uint64 \<longleftrightarrow> max_uint64 \<in> set xs"
proof
  have "fold max xs a \<in> insert a (set xs)" for a :: u64
    by (induction xs arbitrary: a) (auto simp: max_def)
  from this [of 0] show "max_u64 xs = max_uint64 \<Longrightarrow> max_uint64 \<in> set xs"
    by (auto simp: max_u64_def)
next
  assume "max_uint64 \<in> set xs"
  from max_u64_ge [OF this] show "max_u64 xs = max_uint64" by (simp add: word_order.extremum_unique)
qed

lemma loadAllocator_defined:
  "(\<exists>a. loadAllocator q1 q2 db = Inr a) \<longleftrightarrow>
     q1 = QueryOk \<and> q2 = QueryOk \<and> max_uint64 \<notin> publication_ids db \<and> max_uint64 \<notin> event_seqs db"
proof -
  have top: "max_uint64 = max_u64 xs \<longleftrightarrow> max_uint64 \<in> set xs" for xs using max_u64_top [of xs] by metis
  have "publicationHighWaterSQL db = max_uint64 \<longleftrightarrow> max_uint64 \<in> publication_ids db"
    "eventHighWaterSQL db = max_uint64 \<longleftrightarrow> max_uint64 \<in> event_seqs db"
    by (auto simp: publicationHighWaterSQL_def eventHighWaterSQL_def publication_ids_def event_seqs_def max_u64_top top image_iff)
  then show ?thesis by (auto simp: loadAllocator_def newAllocator_def)
qed

text \<open>
  C34. The dataset is immutable: once its table holds an identity, a new process never writes it
  again. Its initialization succeeds exactly when the queries do, the identifier spaces are not
  exhausted, and network, start point and schema agree, whichever build created the dataset; it returns
  that very identity and continues the run with the chain unchanged. In every other case it fails and
  leaves the handle as it was.
\<close>

theorem dataset_identity_immutable:
  assumes "sh_identity h = None" and "dataset_is db i" and "validateDatasetConfig config = Inr ()"
    and "writer_run i h0 db chain" and "Initialize env config h db = (h', db', r)"
  shows "db' = db \<and> (case r of Inl e \<Rightarrow> h' = h
     | Inr j \<Rightarrow> j = i \<and> identity_of_config h config i \<and> writer_run i h' db chain) \<and>
    ((\<exists>j. r = Inr j) \<longleftrightarrow> identity_of_config h config i \<and> ie_load env = QueryOk \<and> ie_publicationHighWater env = QueryOk \<and>
       ie_eventHighWater env = QueryOk \<and> max_uint64 \<notin> publication_ids db \<and> max_uint64 \<notin> event_seqs db)"
proof (cases "ie_load env = QueryOk")
  case True
  let ?load = "loadAllocator (ie_publicationHighWater env) (ie_eventHighWater env) db"
  note eq = Initialize_existing [OF assms(1,2,3) True]
  have run: "writer_run i (h\<lparr>sh_identity := Some i, sh_allocator := Some a\<rparr>) db chain" if "?load = Inr a" for a
    using that by (auto intro: restart [OF assms(4)])
  have defined: "(\<exists>a. ?load = Inr a) \<longleftrightarrow> ie_publicationHighWater env = QueryOk \<and> ie_eventHighWater env = QueryOk \<and>
      max_uint64 \<notin> publication_ids db \<and> max_uint64 \<notin> event_seqs db"
    by (rule loadAllocator_defined)
  show ?thesis
  proof (cases ?load)
    case (Inl e)
    with defined eq assms(5) show ?thesis by (auto split: if_splits)
  next
    case (Inr a)
    with run [OF Inr] defined True eq assms(5) show ?thesis by (auto split: if_splits)
  qed
next
  case False
  then have "\<exists>e. loadDataset (ie_load env) db = Inl e"
    using loadDataset_ok by (cases "loadDataset (ie_load env) db") auto
  with False assms(1,3,5) show ?thesis by (auto simp: Initialize_def)
qed

text \<open>A later build continues the dataset, and another network is refused.\<close>

theorem dataset_identity_immutable_witness:
  "(\<exists>h'. Initialize sample_initialize_env (sample_config\<lparr>dc_SourceBuild := ''v2''\<rparr>) fresh_handle initialized_database =
      (h', initialized_database, Inr sample_identity)) \<and>
   (\<exists>e. Initialize sample_initialize_env (sample_config\<lparr>dc_NetworkMagic := 1\<rparr>) fresh_handle initialized_database =
      (fresh_handle, initialized_database, Inl e))"
proof -
  have w: "sh_identity fresh_handle = None" "dataset_is initialized_database sample_identity"
    "writer_run sample_identity sample_handle initialized_database []"
    using Initialize_ok(1) [OF _ sample_initialize] initialize_run_sample by (simp_all add: fresh_handle_def)
  have room: "max_uint64 \<notin> publication_ids initialized_database" "max_uint64 \<notin> event_seqs initialized_database"
    by (simp_all add: publication_ids_def publication_columns_def event_seqs_def initialized_database_def empty_database_def
        empty_tables_def Let_def)
  have v: "validateDatasetConfig (sample_config\<lparr>dc_SourceBuild := ''v2''\<rparr>) = Inr ()" "validateDatasetConfig (sample_config\<lparr>dc_NetworkMagic := 1\<rparr>) = Inr ()"
    by (simp_all add: validateDatasetConfig_def sample_config_def blank_def is_space_def validPoint_def origin_point_def)
  have ok: "identity_of_config fresh_handle (sample_config\<lparr>dc_SourceBuild := ''v2''\<rparr>) sample_identity"
    "\<not> identity_of_config fresh_handle (sample_config\<lparr>dc_NetworkMagic := 1\<rparr>) sample_identity"
    by (simp_all add: identity_of_config_def sample_config_def sample_identity_def fresh_handle_def)
  obtain h1 db1 r1 where r1: "Initialize sample_initialize_env (sample_config\<lparr>dc_SourceBuild := ''v2''\<rparr>) fresh_handle initialized_database = (h1, db1, r1)"
    by (metis prod_cases3)
  obtain h2 db2 r2 where r2: "Initialize sample_initialize_env (sample_config\<lparr>dc_NetworkMagic := 1\<rparr>) fresh_handle initialized_database = (h2, db2, r2)"
    by (metis prod_cases3)
  from dataset_identity_immutable [OF w(1,2) v(1) w(3) r1] room ok have "db1 = initialized_database" "r1 = Inr sample_identity"
    by (auto simp: sample_initialize_env_def split: sum.splits)
  moreover from dataset_identity_immutable [OF w(1,2) v(2) w(3) r2] ok have "db2 = initialized_database" "h2 = fresh_handle" "\<exists>e. r2 = Inl e"
    by (auto split: sum.splits)
  ultimately show ?thesis using r1 r2 by auto
qed

end
