(* ===== verification/Batcher.thy ===== *)
theory Batcher
  imports Pipeline_Types
begin

text \<open>
  \<^verbatim>\<open>internal/syncer/batcher.go\<close>: the loop that turns ordered events into publication batches.
  The loop is one step per turn of its \<^verbatim>\<open>select\<close>, driven by what the turn received and the
  clock; the sink is a pair of functions on a sink state. \<^verbatim>\<open>int64\<close> arithmetic is written
  with \<open>wrap_int64\<close>.
\<close>

section \<open>State\<close>

record batch_limits =
  bl_Blocks :: int
  bl_Bytes :: int
  bl_Rows :: u64
  bl_Age :: int

record batcher_state =
  bs_pending :: "decoded_block list"
  bs_pendingBytes :: int
  bs_pendingRows :: u64
  bs_firstStaged :: time
  bs_timer :: "time option"
  bs_nextSequence :: u64

type_synonym ordered_event = "(decoded_block, agreed_event) pipeline_result"

datatype batch_input =
    CtxDone
  | TimerFires
  | InputClosed bool
  | Received ordered_event

datatype 'e batch_error =
    InvalidLimits
  | BatchCancelled
  | SequenceMismatch
  | MalformedEvent
  | BlockExceedsLimits
  | PublishFailed 'e
  | RollbackFailed 'e

datatype 'e batch_turn = Continue | Return "'e batch_error option"

type_synonym ('s, 'e) publish_fun = "decoded_block list \<Rightarrow> 's \<Rightarrow> 's \<times> 'e option"
type_synonym ('s, 'e) rollback_fun = "agreed_event \<Rightarrow> 's \<Rightarrow> 's \<times> 'e option"

definition batcher_init :: batcher_state where
  "batcher_init = \<lparr>bs_pending = [], bs_pendingBytes = 0, bs_pendingRows = 0, bs_firstStaged = 0,
     bs_timer = None, bs_nextSequence = 0\<rparr>"

definition limits_positive :: "batch_limits \<Rightarrow> bool" where
  "limits_positive l \<longleftrightarrow> \<not> (bl_Blocks l < 1 \<or> bl_Bytes l < 1 \<or> bl_Rows l < 1 \<or> bl_Age l \<le> 0)"

section \<open>The closures of Run\<close>

definition stopTimer :: "batcher_state \<Rightarrow> batcher_state" where
  "stopTimer st = st\<lparr>bs_timer := None\<rparr>"

definition armTimer :: "batch_limits \<Rightarrow> time \<Rightarrow> batcher_state \<Rightarrow> batcher_state" where
  "armTimer l now st =
     (if length (bs_pending st) = 0 then stopTimer st
      else (let remaining = bl_Age l - (now - bs_firstStaged st);
                remaining = (if remaining < 0 then 0 else remaining)
        in (stopTimer st)\<lparr>bs_timer := Some (now + remaining)\<rparr>))"

definition flush :: "('s, 'e) publish_fun \<Rightarrow> batcher_state \<Rightarrow> 's \<Rightarrow> batcher_state \<times> 's \<times> 'e option" where
  "flush publish st s =
     (if length (bs_pending st) = 0 then (st, s, None)
      else (let st = stopTimer st; (s, err) = publish (bs_pending st) s in
        case err of
          Some e \<Rightarrow> (st, s, Some e)
        | None \<Rightarrow> (st\<lparr>bs_pending := [], bs_pendingBytes := 0, bs_pendingRows := 0, bs_firstStaged := 0\<rparr>,
                    s, None)))"

definition fits :: "batch_limits \<Rightarrow> batcher_state \<Rightarrow> decoded_block \<Rightarrow> bool" where
  "fits l st b \<longleftrightarrow>
     int (length (bs_pending st)) < bl_Blocks l \<and>
     dbk_RawLength b \<le> uint64_of_int64 (wrap_int64 (bl_Bytes l - bs_pendingBytes st)) \<and>
     FactRows (dbk_Block b) \<le> bl_Rows l - bs_pendingRows st"

definition add_block :: "batch_limits \<Rightarrow> time \<Rightarrow> decoded_block \<Rightarrow> batcher_state \<Rightarrow> batcher_state" where
  "add_block l now b st =
     (let st = (if length (bs_pending st) = 0 then st\<lparr>bs_firstStaged := now\<rparr> else st);
          st = st\<lparr>bs_pending := bs_pending st @ [b],
            bs_pendingBytes := wrap_int64 (bs_pendingBytes st + int64_of_uint64 (dbk_RawLength b)),
            bs_pendingRows := bs_pendingRows st + FactRows (dbk_Block b)\<rparr>
      in if length (bs_pending st) = 1 then armTimer l now st else st)"

definition atLimit :: "batch_limits \<Rightarrow> batcher_state \<Rightarrow> bool" where
  "atLimit l st \<longleftrightarrow> int (length (bs_pending st)) \<ge> bl_Blocks l \<or> bs_pendingBytes st \<ge> bl_Bytes l \<or>
     bs_pendingRows st \<ge> bl_Rows l"

definition recount :: "batch_limits \<Rightarrow> time \<Rightarrow> batcher_state \<Rightarrow> batcher_state" where
  "recount l now st =
     (let st = st\<lparr>
            bs_pendingBytes := fold (\<lambda>b n. wrap_int64 (n + int64_of_uint64 (dbk_RawLength b))) (bs_pending st) 0,
            bs_pendingRows := fold (\<lambda>b n. n + FactRows (dbk_Block b)) (bs_pending st) 0\<rparr>;
          st = (if length (bs_pending st) = 0 then st\<lparr>bs_firstStaged := 0\<rparr> else st)
      in armTimer l now st)"

definition sameChainPoint :: "point \<Rightarrow> point \<Rightarrow> bool" where
  "sameChainPoint left right =
     (if pt_Origin left \<or> pt_Origin right then pt_Origin left = pt_Origin right
      else pt_Slot left = pt_Slot right \<and> pt_Hash left = pt_Hash right)"

text \<open>The search of the rollback target from the newest pending block down.\<close>

fun target_index :: "decoded_block list \<Rightarrow> point \<Rightarrow> nat \<Rightarrow> nat option" where
  "target_index pending p 0 = None"
| "target_index pending p (Suc index) =
     (if sameChainPoint (dbk_ChainPoint (pending ! index)) p then Some index
      else target_index pending p index)"

section \<open>One turn of the loop\<close>

definition forward_turn :: "('s, 'e) publish_fun \<Rightarrow> batch_limits \<Rightarrow> time \<Rightarrow> decoded_block \<Rightarrow>
    batcher_state \<Rightarrow> 's \<Rightarrow> batcher_state \<times> 's \<times> 'e batch_turn" where
  "forward_turn publish l now b st s =
     (let (st, s, err) = (if \<not> fits l st b \<and> length (bs_pending st) > 0 then flush publish st s
                          else (st, s, None))
      in case err of
        Some e \<Rightarrow> (st, s, Return (Some (PublishFailed e)))
      | None \<Rightarrow>
          if \<not> fits l st b then (st, s, Return (Some BlockExceedsLimits))
          else (let st = add_block l now b st in
            if atLimit l st then
              (case flush publish st s of
                 (st, s, Some e) \<Rightarrow> (st, s, Return (Some (PublishFailed e)))
               | (st, s, None) \<Rightarrow> (st, s, Continue))
            else (st, s, Continue)))"

definition rollback_turn :: "('s, 'e) rollback_fun \<Rightarrow> batch_limits \<Rightarrow> time \<Rightarrow> agreed_event \<Rightarrow>
    batcher_state \<Rightarrow> 's \<Rightarrow> batcher_state \<times> 's \<times> 'e batch_turn" where
  "rollback_turn rollback l now event st s =
     (case target_index (bs_pending st) (ae_Point event) (length (bs_pending st)) of
        Some index \<Rightarrow>
          (recount l now (st\<lparr>bs_pending := take (index + 1) (bs_pending st)\<rparr>), s, Continue)
      | None \<Rightarrow>
          let st = recount l now (st\<lparr>bs_pending := []\<rparr>); (s, err) = rollback event s
          in (st, s, case err of None \<Rightarrow> Continue | Some e \<Rightarrow> Return (Some (RollbackFailed e))))"

definition batcher_turn :: "('s, 'e) publish_fun \<Rightarrow> ('s, 'e) rollback_fun \<Rightarrow> batch_limits \<Rightarrow>
    time \<times> batch_input \<Rightarrow> batcher_state \<Rightarrow> 's \<Rightarrow> batcher_state \<times> 's \<times> 'e batch_turn" where
  "batcher_turn publish rollback l inp st s =
     (case inp of
        (now, CtxDone) \<Rightarrow> (st, s, Return (Some BatchCancelled))
      | (now, TimerFires) \<Rightarrow>
          if bs_timer st = None then (st, s, Continue)
          else (case flush publish (st\<lparr>bs_timer := None\<rparr>) s of
             (st, s, Some e) \<Rightarrow> (st, s, Return (Some (PublishFailed e)))
           | (st, s, None) \<Rightarrow> (st, s, Continue))
      | (now, InputClosed cancelled) \<Rightarrow>
          if cancelled then (st, s, Return (Some BatchCancelled))
          else (case flush publish st s of
             (st, s, Some e) \<Rightarrow> (st, s, Return (Some (PublishFailed e)))
           | (st, s, None) \<Rightarrow> (st, s, Return None))
      | (now, Received event) \<Rightarrow>
          if rs_Sequence event \<noteq> bs_nextSequence st then (st, s, Return (Some SequenceMismatch))
          else (let st = st\<lparr>bs_nextSequence := bs_nextSequence st + 1\<rparr> in
            case (rs_Forward event, rs_Rollback event) of
              (Some b, None) \<Rightarrow> forward_turn publish l now b st s
            | (None, Some r) \<Rightarrow> rollback_turn rollback l now r st s
            | _ \<Rightarrow> (st, s, Return (Some MalformedEvent))))"

text \<open>
  \<^verbatim>\<open>Run\<close> over the inputs of its turns, up to the one that returns. A timer that was stopped
  delivers nothing: its turn does not happen, which the step above treats as an empty turn.
\<close>

fun batcher_loop :: "('s, 'e) publish_fun \<Rightarrow> ('s, 'e) rollback_fun \<Rightarrow> batch_limits \<Rightarrow>
    (time \<times> batch_input) list \<Rightarrow> batcher_state \<Rightarrow> 's \<Rightarrow> batcher_state \<times> 's \<times> 'e batch_turn" where
  "batcher_loop publish rollback l [] st s = (st, s, Continue)"
| "batcher_loop publish rollback l (inp # inps) st s =
     (case batcher_turn publish rollback l inp st s of
        (st, s, Continue) \<Rightarrow> batcher_loop publish rollback l inps st s
      | (st, s, Return r) \<Rightarrow> (st, s, Return r))"

definition Batcher_Run :: "('s, 'e) publish_fun \<Rightarrow> ('s, 'e) rollback_fun \<Rightarrow> batch_limits \<Rightarrow>
    (time \<times> batch_input) list \<Rightarrow> 's \<Rightarrow> batcher_state \<times> 's \<times> 'e batch_turn" where
  "Batcher_Run publish rollback l inps s =
     (if \<not> limits_positive l then (batcher_init, s, Return (Some InvalidLimits))
      else batcher_loop publish rollback l inps batcher_init s)"

section \<open>The abstract chain of wire points\<close>

text \<open>A point as relays name it: slot and hash, or the origin.\<close>

type_synonym wire = "(u64 \<times> hash32) option"

definition wire :: "point \<Rightarrow> wire" where
  "wire p = (if pt_Origin p then None else Some (pt_Slot p, pt_Hash p))"

lemma sameChainPoint_wire: "sameChainPoint p q \<longleftrightarrow> wire p = wire q"
  by (auto simp: sameChainPoint_def wire_def)

text \<open>
  What an agreed event does to a chain, newest point first: a forward block is pushed, a rollback
  keeps the chain from its target on, and the target may be the start of the dataset.
\<close>

definition rewind :: "wire \<Rightarrow> wire \<Rightarrow> wire list \<Rightarrow> wire list option" where
  "rewind start t v =
     (if t \<in> set v then Some (dropWhile (\<lambda>x. x \<noteq> t) v) else if t = start then Some [] else None)"

definition apply_event :: "wire \<Rightarrow> ordered_event \<Rightarrow> wire list \<Rightarrow> wire list option" where
  "apply_event start event v =
     (case (rs_Forward event, rs_Rollback event) of
        (Some b, None) \<Rightarrow> Some (wire (dbk_ChainPoint b) # v)
      | (None, Some r) \<Rightarrow> rewind start (wire (ae_Point r)) v
      | _ \<Rightarrow> None)"

fun apply_events :: "wire \<Rightarrow> ordered_event list \<Rightarrow> wire list \<Rightarrow> wire list option" where
  "apply_events start [] v = Some v"
| "apply_events start (e # es) v =
     (case apply_event start e v of None \<Rightarrow> None | Some v' \<Rightarrow> apply_events start es v')"

definition block_points :: "decoded_block list \<Rightarrow> wire list" where
  "block_points bs = rev (map (\<lambda>b. wire (dbk_ChainPoint b)) bs)"

fun event_of :: "batch_input \<Rightarrow> ordered_event list" where
  "event_of (Received e) = [e]"
| "event_of _ = []"

text \<open>The events a run consumed: those received before the input was closed.\<close>

fun consumed :: "(time \<times> batch_input) list \<Rightarrow> ordered_event list" where
  "consumed [] = []"
| "consumed ((now, InputClosed c) # inps) = []"
| "consumed ((now, inp) # inps) = event_of inp @ consumed inps"

lemma target_index_Some:
  "target_index pending p n = Some i \<Longrightarrow> i < n \<and> sameChainPoint (dbk_ChainPoint (pending ! i)) p \<and>
     (\<forall>j. i < j \<and> j < n \<longrightarrow> \<not> sameChainPoint (dbk_ChainPoint (pending ! j)) p)"
  by (induction n) (auto split: if_splits simp: less_Suc_eq)

lemma target_index_None:
  "target_index pending p n = None \<longleftrightarrow> (\<forall>j < n. \<not> sameChainPoint (dbk_ChainPoint (pending ! j)) p)"
  by (induction n) (auto simp: less_Suc_eq)

lemma block_points_truncate:
  assumes "target_index pending p (length pending) = Some i"
  shows "dropWhile (\<lambda>x. x \<noteq> wire p) (block_points pending) = block_points (take (i + 1) pending)"
    and "wire p \<in> set (block_points pending)"
proof -
  note t = target_index_Some [OF assms]
  let ?f = "\<lambda>b. wire (dbk_ChainPoint b)"
  have split: "pending = take i pending @ [pending ! i] @ drop (i + 1) pending"
    using t by (simp add: id_take_nth_drop [symmetric])
  have "\<forall>b \<in> set (drop (i + 1) pending). ?f b \<noteq> wire p"
    using t by (auto simp: in_set_conv_nth sameChainPoint_wire)
  then have "dropWhile (\<lambda>x. x \<noteq> wire p) (rev (map ?f (drop (i + 1) pending)) @ [?f (pending ! i)] @ rev (map ?f (take i pending))) =
      [?f (pending ! i)] @ rev (map ?f (take i pending))"
    using t by (subst dropWhile_append2) (auto simp: sameChainPoint_wire)
  then show "dropWhile (\<lambda>x. x \<noteq> wire p) (block_points pending) = block_points (take (i + 1) pending)"
    using t by (subst split) (simp add: block_points_def take_Suc_conv_app_nth)
  show "wire p \<in> set (block_points pending)"
    using t by (auto simp: block_points_def sameChainPoint_wire intro!: image_eqI [of _ _ "pending ! i"])
qed

lemma block_points_absent:
  "target_index pending p (length pending) = None \<Longrightarrow> wire p \<notin> set (block_points pending)"
  by (auto simp: target_index_None block_points_def sameChainPoint_wire in_set_conv_nth)

lemma rewind_staged:
  "t \<notin> set staged \<Longrightarrow> rewind start t (staged @ v) = rewind start t v"
  by (auto simp: rewind_def dropWhile_append)

lemma rewind_in_staged:
  "t \<in> set staged \<Longrightarrow> rewind start t (staged @ v) = Some (dropWhile (\<lambda>x. x \<noteq> t) staged @ v)"
  by (auto simp: rewind_def dropWhile_append)

section \<open>The batch invariant\<close>

definition go_limits :: "batch_limits \<Rightarrow> bool" where
  "go_limits l \<longleftrightarrow> limits_positive l \<and> bl_Blocks l \<le> max_int64 \<and> bl_Bytes l \<le> max_int64"

definition raw_bytes :: "decoded_block list \<Rightarrow> int" where
  "raw_bytes bs = sum_list (map (\<lambda>b. uint (dbk_RawLength b)) bs)"

definition fact_rows :: "decoded_block list \<Rightarrow> nat" where
  "fact_rows bs = sum_list (map (\<lambda>b. unat (FactRows (dbk_Block b))) bs)"

definition batch_inv :: "batch_limits \<Rightarrow> batcher_state \<Rightarrow> bool" where
  "batch_inv l st \<longleftrightarrow>
     bs_pendingBytes st = raw_bytes (bs_pending st) \<and> unat (bs_pendingRows st) = fact_rows (bs_pending st) \<and>
     int (length (bs_pending st)) < bl_Blocks l \<and> raw_bytes (bs_pending st) < bl_Bytes l \<and>
     fact_rows (bs_pending st) < unat (bl_Rows l) \<and>
     (bs_timer st = None \<longleftrightarrow> bs_pending st = [])"

lemma raw_bytes_nonneg: "0 \<le> raw_bytes bs"
  unfolding raw_bytes_def by (rule sum_list_le_int) simp

lemma raw_bytes_append [simp]: "raw_bytes (xs @ ys) = raw_bytes xs + raw_bytes ys"
  and fact_rows_append [simp]: "fact_rows (xs @ ys) = fact_rows xs + fact_rows ys"
  and raw_bytes_Nil [simp]: "raw_bytes [] = 0" and fact_rows_Nil [simp]: "fact_rows [] = 0"
  and raw_bytes_Cons [simp]: "raw_bytes (b # bs) = uint (dbk_RawLength b) + raw_bytes bs"
  and fact_rows_Cons [simp]: "fact_rows (b # bs) = unat (FactRows (dbk_Block b)) + fact_rows bs"
  by (simp_all add: raw_bytes_def fact_rows_def)

lemma batch_inv_init: "go_limits l \<Longrightarrow> batch_inv l batcher_init"
  by (auto simp: batch_inv_def batcher_init_def go_limits_def limits_positive_def word_less_nat_alt not_less)

lemma raw_bytes_take: "raw_bytes (take n bs) \<le> raw_bytes bs"
  using raw_bytes_append [of "take n bs" "drop n bs"] raw_bytes_nonneg [of "drop n bs"] by simp

lemma fact_rows_take: "fact_rows (take n bs) \<le> fact_rows bs"
  using fact_rows_append [of "take n bs" "drop n bs"] by simp

lemma wrap_int64_nonneg: "0 \<le> x \<Longrightarrow> x \<le> max_int64 \<Longrightarrow> wrap_int64 x = x"
  by (rule wrap_int64_id) simp_all

lemma recount_bytes:
  assumes "0 \<le> n" and "n + raw_bytes bs \<le> max_int64"
  shows "fold (\<lambda>b n. wrap_int64 (n + int64_of_uint64 (dbk_RawLength b))) bs n = n + raw_bytes bs"
  using assms
proof (induction bs arbitrary: n)
  case (Cons b bs)
  have le: "uint (dbk_RawLength b) \<le> max_int64" "n + uint (dbk_RawLength b) \<le> max_int64"
    using Cons.prems raw_bytes_nonneg [of bs] by simp_all
  then have "wrap_int64 (n + int64_of_uint64 (dbk_RawLength b)) = n + uint (dbk_RawLength b)"
    using Cons.prems(1) by (simp add: int64_of_uint64_small wrap_int64_nonneg)
  with Cons show ?case by simp
qed simp

lemma recount_rows:
  assumes "unat n + fact_rows bs < 2 ^ 64"
  shows "unat (fold (\<lambda>b n. n + FactRows (dbk_Block b)) bs n) = unat n + fact_rows bs"
  using assms
proof (induction bs arbitrary: n)
  case (Cons b bs)
  have "unat (n + FactRows (dbk_Block b)) = unat n + unat (FactRows (dbk_Block b))"
    using Cons.prems by (simp add: unat_add_lem [THEN iffD1])
  with Cons show ?case by simp
qed simp

lemma armTimer_simps [simp]:
  "bs_pending (armTimer l now st) = bs_pending st"
  "bs_pendingBytes (armTimer l now st) = bs_pendingBytes st"
  "bs_pendingRows (armTimer l now st) = bs_pendingRows st"
  "bs_timer (armTimer l now st) = None \<longleftrightarrow> bs_pending st = []"
  by (auto simp: armTimer_def stopTimer_def Let_def)

lemma recount_inv:
  assumes l: "go_limits l" and inv: "batch_inv l st"
  shows "batch_inv l (recount l now (st\<lparr>bs_pending := take n (bs_pending st)\<rparr>))"
proof -
  let ?p = "take n (bs_pending st)"
  have b: "raw_bytes ?p < bl_Bytes l" "fact_rows ?p < unat (bl_Rows l)" "int (length ?p) < bl_Blocks l"
    using inv raw_bytes_take [of n "bs_pending st"] fact_rows_take [of n "bs_pending st"]
    by (auto simp: batch_inv_def min_def)
  have "fold (\<lambda>b n. wrap_int64 (n + int64_of_uint64 (dbk_RawLength b))) ?p 0 = raw_bytes ?p"
    using recount_bytes [of 0 ?p] b(1) l by (simp add: go_limits_def)
  moreover have "unat (fold (\<lambda>b n. n + FactRows (dbk_Block b)) ?p 0) = fact_rows ?p"
    using recount_rows [of 0 ?p] b(2) unat_u64_less [of "bl_Rows l"] by simp
  ultimately show ?thesis
    using b by (simp add: batch_inv_def recount_def Let_def)
qed

lemma fits_exact:
  assumes l: "go_limits l" and inv: "batch_inv l st"
  shows "fits l st b \<longleftrightarrow> int (length (bs_pending st)) < bl_Blocks l \<and>
    raw_bytes (bs_pending st) + uint (dbk_RawLength b) \<le> bl_Bytes l \<and>
    fact_rows (bs_pending st) + unat (FactRows (dbk_Block b)) \<le> unat (bl_Rows l)"
proof -
  let ?d = "bl_Bytes l - raw_bytes (bs_pending st)"
  have d: "0 \<le> ?d" "?d \<le> max_int64"
    using inv l raw_bytes_nonneg [of "bs_pending st"] by (auto simp: batch_inv_def go_limits_def)
  have "dbk_RawLength b \<le> uint64_of_int64 (wrap_int64 ?d) \<longleftrightarrow> uint (dbk_RawLength b) \<le> ?d"
    using d by (simp add: wrap_int64_nonneg word_le_def uint_uint64_of_int64 max_int64_def)
  moreover have "bs_pendingRows st \<le> bl_Rows l"
    using inv by (auto simp: batch_inv_def word_le_nat_alt)
  then have "FactRows (dbk_Block b) \<le> bl_Rows l - bs_pendingRows st \<longleftrightarrow>
      unat (bs_pendingRows st) + unat (FactRows (dbk_Block b)) \<le> unat (bl_Rows l)"
    by (auto simp: word_le_nat_alt unat_sub)
  ultimately show ?thesis using inv by (auto simp: fits_def batch_inv_def)
qed

lemma add_block_props:
  assumes l: "go_limits l" and inv: "batch_inv l st" and fit: "fits l st b"
  shows "bs_pending (add_block l now b st) = bs_pending st @ [b]"
    and "bs_pendingBytes (add_block l now b st) = raw_bytes (bs_pending st @ [b])"
    and "unat (bs_pendingRows (add_block l now b st)) = fact_rows (bs_pending st @ [b])"
    and "bs_timer (add_block l now b st) \<noteq> None"
proof -
  note f = fit [unfolded fits_exact [OF l inv]]
  have "uint (dbk_RawLength b) \<le> max_int64"
    "raw_bytes (bs_pending st) + uint (dbk_RawLength b) \<le> max_int64"
    using f l raw_bytes_nonneg [of "bs_pending st"] by (auto simp: go_limits_def)
  then have bytes: "wrap_int64 (bs_pendingBytes st + int64_of_uint64 (dbk_RawLength b)) =
      raw_bytes (bs_pending st @ [b])"
    using inv raw_bytes_nonneg [of "bs_pending st"]
    by (simp add: batch_inv_def int64_of_uint64_small wrap_int64_nonneg)
  have "unat (bs_pendingRows st) + unat (FactRows (dbk_Block b)) < 2 ^ 64"
    using f inv unat_u64_less [of "bl_Rows l"] by (simp add: batch_inv_def)
  then have rows: "unat (bs_pendingRows st + FactRows (dbk_Block b)) = fact_rows (bs_pending st @ [b])"
    using inv by (simp add: batch_inv_def unat_add_lem [THEN iffD1])
  show "bs_pending (add_block l now b st) = bs_pending st @ [b]"
    "bs_pendingBytes (add_block l now b st) = raw_bytes (bs_pending st @ [b])"
    "unat (bs_pendingRows (add_block l now b st)) = fact_rows (bs_pending st @ [b])"
    "bs_timer (add_block l now b st) \<noteq> None"
    using inv bytes rows by (auto simp: add_block_def Let_def batch_inv_def simp del: not_None_eq)
qed

lemma not_atLimit_inv:
  assumes l: "go_limits l" and inv: "batch_inv l st" and fit: "fits l st b"
    and "\<not> atLimit l (add_block l now b st)"
  shows "batch_inv l (add_block l now b st)"
  using assms(4) add_block_props [OF l inv fit, of now]
  by (auto simp: batch_inv_def atLimit_def word_le_nat_alt not_le)

lemma flushed_inv:
  assumes "go_limits l"
  shows "batch_inv l (st\<lparr>bs_timer := None, bs_pending := [], bs_pendingBytes := 0, bs_pendingRows := 0,
    bs_firstStaged := 0\<rparr>)"
  using assms by (auto simp: batch_inv_def go_limits_def limits_positive_def word_less_nat_alt not_less)

section \<open>The contract of a sink\<close>

text \<open>
  \<open>view s v\<close>: the sink's durable chain is \<open>v\<close>. A publication that succeeds pushes the batch, a
  rollback that succeeds rewinds; \<open>good\<close> restricts the blocks a sink is given.
\<close>

locale batch_sink =
  fixes publish :: "('s, 'e) publish_fun" and rollback :: "('s, 'e) rollback_fun"
    and view :: "'s \<Rightarrow> wire list \<Rightarrow> bool" and start :: wire and good :: "decoded_block \<Rightarrow> bool"
  assumes publish_law: "view s v \<Longrightarrow> publish bs s = (s', None) \<Longrightarrow> bs \<noteq> [] \<Longrightarrow>
      int (length bs) \<le> max_int64 \<Longrightarrow> list_all good bs \<Longrightarrow> view s' (block_points bs @ v)"
    and rollback_law: "view s v \<Longrightarrow> rollback event s = (s', None) \<Longrightarrow>
      \<exists>v'. rewind start (wire (ae_Point event)) v = Some v' \<and> view s' v'"
begin

lemma flush_ok:
  assumes "flush publish st s = (st', s', None)" and "view s v" and "go_limits l"
    and "int (length (bs_pending st)) \<le> max_int64" and "list_all good (bs_pending st)"
    and "bs_pending st = [] \<Longrightarrow> batch_inv l st"
  shows "view s' (block_points (bs_pending st) @ v) \<and> bs_pending st' = [] \<and> batch_inv l st'"
proof (cases "bs_pending st = []")
  case True
  with assms show ?thesis by (auto simp: flush_def block_points_def)
next
  case False
  with assms(1) have p: "publish (bs_pending st) s = (s', None)"
    and st': "st' = (stopTimer st)\<lparr>bs_pending := [], bs_pendingBytes := 0, bs_pendingRows := 0, bs_firstStaged := 0\<rparr>"
    by (auto simp: flush_def Let_def stopTimer_def split: option.splits prod.splits)
  from publish_law [OF assms(2) p False assms(4,5)] flushed_inv [OF assms(3), of st] st' show ?thesis
    by (simp add: stopTimer_def)
qed

lemma forward_ok:
  assumes l: "go_limits l" and inv: "batch_inv l st" and view: "view s v"
    and good: "list_all good (bs_pending st)" "good b"
    and run: "forward_turn publish l now b st s = (st', s', Continue)"
  shows "\<exists>v'. view s' v' \<and> batch_inv l st' \<and> list_all good (bs_pending st') \<and>
    block_points (bs_pending st') @ v' = wire (dbk_ChainPoint b) # block_points (bs_pending st) @ v"
proof -
  obtain st1 s1 where f1: "(if \<not> fits l st b \<and> length (bs_pending st) > 0 then flush publish st s
      else (st, s, None)) = (st1, s1, None)"
    using run by (auto simp: forward_turn_def Let_def split: option.splits prod.splits if_splits)
  have small: "int (length (bs_pending st)) \<le> max_int64"
    using inv l by (auto simp: batch_inv_def go_limits_def)
  obtain v1 where v1: "view s1 v1" "batch_inv l st1" "list_all good (bs_pending st1)"
    "block_points (bs_pending st1) @ v1 = block_points (bs_pending st) @ v"
  proof (cases "\<not> fits l st b \<and> length (bs_pending st) > 0")
    case True
    with f1 have "flush publish st s = (st1, s1, None)" by simp
    from flush_ok [OF this view l small good(1) inv] show thesis
      by (intro that) (auto simp: block_points_def)
  next
    case False
    with f1 view inv good show thesis by (intro that) auto
  qed
  from run f1 have fit: "fits l st1 b"
    by (auto simp: forward_turn_def Let_def split: if_splits)
  let ?st2 = "add_block l now b st1"
  note a = add_block_props [OF l v1(2) fit, of now]
  have points: "block_points (bs_pending ?st2) @ v1 = wire (dbk_ChainPoint b) # block_points (bs_pending st) @ v"
    using v1(4) by (simp add: a(1) block_points_def)
  show ?thesis
  proof (cases "atLimit l ?st2")
    case False
    with run f1 fit have "st' = ?st2" "s' = s1" by (auto simp: forward_turn_def Let_def)
    with not_atLimit_inv [OF l v1(2) fit False] v1 good(2) points a(1) show ?thesis by auto
  next
    case True
    with run f1 fit have "flush publish ?st2 s1 = (st', s', None)"
      by (auto simp: forward_turn_def Let_def split: option.splits prod.splits)
    moreover have "int (length (bs_pending ?st2)) \<le> max_int64"
      using fit l by (simp add: a(1) fits_def go_limits_def)
    ultimately have "view s' (block_points (bs_pending ?st2) @ v1) \<and> bs_pending st' = [] \<and> batch_inv l st'"
      using v1 good(2) by (intro flush_ok [OF _ v1(1) l]) (auto simp: a(1))
    then show ?thesis using points by (auto simp: block_points_def)
  qed
qed

lemma rollback_ok:
  assumes l: "go_limits l" and inv: "batch_inv l st" and view: "view s v"
    and good: "list_all good (bs_pending st)"
    and run: "rollback_turn rollback l now event st s = (st', s', Continue)"
  shows "\<exists>v'. view s' v' \<and> batch_inv l st' \<and> list_all good (bs_pending st') \<and>
    rewind start (wire (ae_Point event)) (block_points (bs_pending st) @ v) =
      Some (block_points (bs_pending st') @ v')"
proof (cases "target_index (bs_pending st) (ae_Point event) (length (bs_pending st))")
  case (Some i)
  then have st': "st' = recount l now (st\<lparr>bs_pending := take (i + 1) (bs_pending st)\<rparr>)" and "s' = s"
    using run by (auto simp: rollback_turn_def)
  moreover have "bs_pending st' = take (i + 1) (bs_pending st)"
    using st' by (simp add: recount_def Let_def)
  moreover have "list_all good (take (i + 1) (bs_pending st))"
    using good by (auto simp: list_all_iff dest: in_set_takeD)
  ultimately show ?thesis
    using recount_inv [OF l inv, of now "i + 1"] view block_points_truncate [OF Some]
    by (auto simp: rewind_in_staged)
next
  case None
  then have st': "st' = recount l now (st\<lparr>bs_pending := []\<rparr>)" and r: "rollback event s = (s', None)"
    using run by (auto simp: rollback_turn_def Let_def split: option.splits prod.splits)
  have "bs_pending st' = []" using st' by (simp add: recount_def Let_def)
  moreover have "batch_inv l st'" using recount_inv [OF l inv, of now 0] st' by simp
  ultimately show ?thesis
    using rollback_law [OF view r] block_points_absent [OF None]
    by (auto simp: rewind_staged block_points_def)
qed

text \<open>One turn that goes on: an event acts on the whole chain, anything else leaves it.\<close>

lemma turn_ok:
  assumes l: "go_limits l" and inv: "batch_inv l st" and view: "view s v"
    and good: "list_all good (bs_pending st)"
      "\<And>e b. snd inp = Received e \<Longrightarrow> rs_Forward e = Some b \<Longrightarrow> good b"
    and run: "batcher_turn publish rollback l inp st s = (st', s', Continue)"
  shows "\<exists>v'. view s' v' \<and> batch_inv l st' \<and> list_all good (bs_pending st') \<and>
    apply_events start (event_of (snd inp)) (block_points (bs_pending st) @ v) =
      Some (block_points (bs_pending st') @ v')"
proof -
  obtain now i where inp: "inp = (now, i)" by (cases inp)
  have small: "int (length (bs_pending st)) \<le> max_int64"
    using inv l by (auto simp: batch_inv_def go_limits_def)
  show ?thesis
  proof (cases i)
    case TimerFires
    show ?thesis
    proof (cases "bs_timer st = None")
      case True
      with run TimerFires inp view inv good show ?thesis by (auto simp: batcher_turn_def)
    next
      case False
      with inv have "bs_pending st \<noteq> []" by (auto simp: batch_inv_def)
      with False run TimerFires inp have "flush publish (st\<lparr>bs_timer := None\<rparr>) s = (st', s', None)"
        by (auto simp: batcher_turn_def split: option.splits prod.splits)
      from flush_ok [OF this view l] small good(1) \<open>bs_pending st \<noteq> []\<close> TimerFires inp show ?thesis
        by (auto simp: block_points_def)
    qed
  next
    case (Received e)
    let ?st = "st\<lparr>bs_nextSequence := bs_nextSequence st + 1\<rparr>"
    have inv': "batch_inv l ?st" using inv by (simp add: batch_inv_def)
    from run inp Received consider
      b where "rs_Forward e = Some b" "rs_Rollback e = None" "forward_turn publish l now b ?st s = (st', s', Continue)"
      | r where "rs_Forward e = None" "rs_Rollback e = Some r" "rollback_turn rollback l now r ?st s = (st', s', Continue)"
      by (auto simp: batcher_turn_def Let_def split: if_splits option.splits)
    then show ?thesis
    proof cases
      case 1
      have "good b" using good(2) 1(1) Received inp by simp
      from forward_ok [OF l inv' view _ this 1(3)] good(1) 1 Received inp show ?thesis
        by (auto simp: apply_event_def)
    next
      case 2
      from rollback_ok [OF l inv' view _ 2(3)] good(1) 2 Received inp show ?thesis
        by (auto simp: apply_event_def)
    qed
  qed (use run inp in \<open>auto simp: batcher_turn_def split: if_splits option.splits prod.splits\<close>)
qed

lemma close_ok:
  assumes l: "go_limits l" and inv: "batch_inv l st" and view: "view s v"
    and good: "list_all good (bs_pending st)"
    and run: "batcher_turn publish rollback l inp st s = (st', s', Return None)"
  shows "snd inp = InputClosed False \<and> bs_pending st' = [] \<and> view s' (block_points (bs_pending st) @ v)"
proof -
  obtain now i where inp: "inp = (now, i)" by (cases inp)
  have small: "int (length (bs_pending st)) \<le> max_int64"
    using inv l by (auto simp: batch_inv_def go_limits_def)
  have i: "i = InputClosed False" and f: "flush publish st s = (st', s', None)"
    using run inp by (auto simp: batcher_turn_def forward_turn_def rollback_turn_def Let_def
        split: batch_input.splits if_splits option.splits prod.splits)
  from flush_ok [OF f view l small good inv] i inp show ?thesis by simp
qed

definition good_inputs :: "(time \<times> batch_input) list \<Rightarrow> bool" where
  "good_inputs inps \<longleftrightarrow>
     (\<forall>inp \<in> set inps. \<forall>e b. snd inp = Received e \<longrightarrow> rs_Forward e = Some b \<longrightarrow> good b)"

lemma consumed_Cons:
  "(\<And>c. snd inp \<noteq> InputClosed c) \<Longrightarrow> consumed (inp # inps) = event_of (snd inp) @ consumed inps"
  by (cases "(inp # inps)" rule: consumed.cases) auto

lemma apply_events_append:
  "apply_events start (xs @ ys) v = (case apply_events start xs v of None \<Rightarrow> None | Some v' \<Rightarrow> apply_events start ys v')"
  by (induction xs arbitrary: v) (auto split: option.splits)

lemma loop_refines:
  assumes "go_limits l" and "batch_inv l st" and "view s v" and "list_all good (bs_pending st)"
    and "good_inputs inps"
    and "batcher_loop publish rollback l inps st s = (st', s', r)" and "r = Continue \<or> r = Return None"
  shows "\<exists>v'. view s' v' \<and> apply_events start (consumed inps) (block_points (bs_pending st) @ v) =
      Some (block_points (bs_pending st') @ v') \<and> (r = Return None \<longrightarrow> bs_pending st' = []) \<and>
      (r = Continue \<longrightarrow> batch_inv l st')"
  using assms(2-)
proof (induction inps arbitrary: st s v)
  case Nil
  then show ?case by auto
next
  case (Cons inp inps)
  obtain st1 s1 t where turn: "batcher_turn publish rollback l inp st s = (st1, s1, t)"
    by (cases "batcher_turn publish rollback l inp st s") auto
  show ?case
  proof (cases t)
    case Continue
    have nc: "snd inp \<noteq> InputClosed c" for c
      using turn Continue by (cases inp) (auto simp: batcher_turn_def split: if_splits option.splits prod.splits)
    have g: "\<And>e b. snd inp = Received e \<Longrightarrow> rs_Forward e = Some b \<Longrightarrow> good b"
      using Cons.prems(4) by (auto simp: good_inputs_def)
    have "batcher_turn publish rollback l inp st s = (st1, s1, Continue)" using turn Continue by simp
    with assms(1) Cons.prems(1-3) g have "\<exists>v'. view s1 v' \<and> batch_inv l st1 \<and> list_all good (bs_pending st1) \<and>
      apply_events start (event_of (snd inp)) (block_points (bs_pending st) @ v) =
        Some (block_points (bs_pending st1) @ v')" by (rule turn_ok)
    then obtain v1 where
      v1: "view s1 v1" "batch_inv l st1" "list_all good (bs_pending st1)"
        "apply_events start (event_of (snd inp)) (block_points (bs_pending st) @ v) =
          Some (block_points (bs_pending st1) @ v1)" by blast
    have "good_inputs inps" using Cons.prems(4) by (simp add: good_inputs_def)
    moreover have "batcher_loop publish rollback l inps st1 s1 = (st', s', r)"
      using Cons.prems(5) turn Continue by simp
    ultimately show ?thesis
      using Cons.IH [OF v1(2,1,3)] Cons.prems(6) v1(4)
      by (simp add: consumed_Cons [OF nc] apply_events_append)
  next
    case (Return x)
    then have eq: "st' = st1" "s' = s1" "r = Return x" using Cons.prems(5) turn by auto
    with Cons.prems(6) have "x = None" by simp
    with turn Return eq have run: "batcher_turn publish rollback l inp st s = (st', s', Return None)" by simp
    from close_ok [OF assms(1) Cons.prems(1-3) run] have
      "snd inp = InputClosed False" "bs_pending st' = []" "view s' (block_points (bs_pending st) @ v)" by auto
    then show ?thesis using eq by (cases inp) (auto simp: block_points_def)
  qed
qed

text \<open>The whole run: what the sink holds, with what is staged, is the effect of the events consumed.\<close>

lemma run_refines:
  assumes "go_limits l" and "view s v" and "good_inputs inps"
    and "Batcher_Run publish rollback l inps s = (st', s', r)" and "r = Continue \<or> r = Return None"
  shows "\<exists>v'. view s' v' \<and> apply_events start (consumed inps) v = Some (block_points (bs_pending st') @ v') \<and>
      (r = Return None \<longrightarrow> bs_pending st' = []) \<and> (r = Continue \<longrightarrow> batch_inv l st')"
proof -
  have "batcher_loop publish rollback l inps batcher_init s = (st', s', r)"
    using assms(1,4) by (simp add: Batcher_Run_def go_limits_def)
  from loop_refines [OF assms(1) batch_inv_init [OF assms(1)] assms(2) _ assms(3) this assms(5)]
  show ?thesis by (simp add: batcher_init_def block_points_def)
qed

end

end
