(* ===== verification/Batch_Bounds.thy ===== *)
theory Batch_Bounds
  imports Batcher
begin

text \<open>
  What holds of the batcher with any sink at all: every batch it hands over respects the configured
  limits, its accounting never wraps, and a staged block always has an armed timer.
\<close>

definition within_limits :: "batch_limits \<Rightarrow> decoded_block list \<Rightarrow> bool" where
  "within_limits l bs \<longleftrightarrow> bs \<noteq> [] \<and> int (length bs) \<le> bl_Blocks l \<and> raw_bytes bs \<le> bl_Bytes l \<and>
     fact_rows bs \<le> unat (bl_Rows l)"

text \<open>A sink that answers something else as soon as a batch exceeds the limits.\<close>

definition guarded :: "batch_limits \<Rightarrow> 's \<times> 'e option \<Rightarrow> ('s, 'e) publish_fun \<Rightarrow> ('s, 'e) publish_fun" where
  "guarded l refused publish bs s = (if within_limits l bs then publish bs s else refused)"

lemma within_of_inv: "batch_inv l st \<Longrightarrow> bs_pending st \<noteq> [] \<Longrightarrow> within_limits l (bs_pending st)"
  by (auto simp: batch_inv_def within_limits_def)

lemma within_of_fits:
  assumes "go_limits l" and "batch_inv l st" and "fits l st b"
  shows "within_limits l (bs_pending (add_block l now b st))"
  using assms(3) [unfolded fits_exact [OF assms(1,2)]] add_block_props(1) [OF assms, of now]
  by (auto simp: within_limits_def)

lemma flush_guarded:
  "(bs_pending st \<noteq> [] \<Longrightarrow> within_limits l (bs_pending st)) \<Longrightarrow>
     flush (guarded l refused publish) st s = flush publish st s"
  by (auto simp: flush_def guarded_def stopTimer_def Let_def)

lemma flush_inv:
  assumes "go_limits l" and "bs_pending st = [] \<Longrightarrow> batch_inv l st" and "flush publish st s = (st', s', None)"
  shows "batch_inv l st' \<and> bs_pending st' = []"
proof (cases "bs_pending st = []")
  case True
  with assms show ?thesis by (auto simp: flush_def)
next
  case False
  with assms(3) have "st' = st\<lparr>bs_timer := None, bs_pending := [], bs_pendingBytes := 0,
      bs_pendingRows := 0, bs_firstStaged := 0\<rparr>"
    by (auto simp: flush_def Let_def stopTimer_def split: option.splits prod.splits)
  with flushed_inv [OF assms(1)] show ?thesis by simp
qed

text \<open>The state in which a forward block is added.\<close>

lemma forward_first:
  assumes "go_limits l" and "batch_inv l st"
    and "(if \<not> fits l st b \<and> length (bs_pending st) > 0 then flush publish st s else (st, s, None)) = (st1, s1, None)"
  shows "batch_inv l st1"
  using assms flush_inv [OF assms(1), of st publish s st1 s1] by (auto split: if_splits)

lemma forward_turn_bounds:
  assumes l: "go_limits l" and inv: "batch_inv l st"
  shows "forward_turn (guarded l refused publish) l now b st s = forward_turn publish l now b st s"
    and "forward_turn publish l now b st s = (st', s', Continue) \<Longrightarrow> batch_inv l st'"
proof -
  have flush1: "flush (guarded l refused publish) st s = flush publish st s"
    by (rule flush_guarded) (rule within_of_inv [OF inv])
  obtain st1 s1 err where f: "(if \<not> fits l st b \<and> length (bs_pending st) > 0 then flush publish st s
      else (st, s, None)) = (st1, s1, err)"
    by (cases "if \<not> fits l st b \<and> length (bs_pending st) > 0 then flush publish st s else (st, s, None)") auto
  have inv1: "batch_inv l st1" if "err = None"
    using forward_first [OF l inv, of b publish s st1 s1] f that by simp
  have flush2: "flush (guarded l refused publish) (add_block l now b st1) s1 =
      flush publish (add_block l now b st1) s1" if "err = None" "fits l st1 b"
    by (rule flush_guarded) (rule within_of_fits [OF l inv1 [OF that(1)] that(2)])
  show "forward_turn (guarded l refused publish) l now b st s = forward_turn publish l now b st s"
    unfolding forward_turn_def flush1 f Let_def
    by (cases err) (auto simp: flush2)
  assume run: "forward_turn publish l now b st s = (st', s', Continue)"
  with f have ok: "err = None" "fits l st1 b"
    by (auto simp: forward_turn_def Let_def split: option.splits if_splits)
  note a = add_block_props [OF l inv1 [OF ok(1)] ok(2), of now]
  show "batch_inv l st'"
  proof (cases "atLimit l (add_block l now b st1)")
    case False
    with run f ok have "st' = add_block l now b st1" by (auto simp: forward_turn_def Let_def)
    with not_atLimit_inv [OF l inv1 [OF ok(1)] ok(2) False] show ?thesis by simp
  next
    case True
    with run f ok have "flush publish (add_block l now b st1) s1 = (st', s', None)"
      by (auto simp: forward_turn_def Let_def split: option.splits prod.splits)
    from flush_inv [OF l _ this] a(1) show ?thesis by simp
  qed
qed

lemma rollback_turn_bounds:
  assumes l: "go_limits l" and inv: "batch_inv l st"
    and run: "rollback_turn rollback l now event st s = (st', s', Continue)"
  shows "batch_inv l st'"
proof (cases "target_index (bs_pending st) (ae_Point event) (length (bs_pending st))")
  case None
  with run have "st' = recount l now (st\<lparr>bs_pending := take 0 (bs_pending st)\<rparr>)"
    by (auto simp: rollback_turn_def Let_def split: option.splits prod.splits)
  with recount_inv [OF l inv, of now 0] show ?thesis by simp
next
  case (Some i)
  with run have "st' = recount l now (st\<lparr>bs_pending := take (i + 1) (bs_pending st)\<rparr>)"
    by (auto simp: rollback_turn_def)
  with recount_inv [OF l inv, of now "i + 1"] show ?thesis by simp
qed

lemma batch_inv_sequence: "batch_inv l st \<Longrightarrow> batch_inv l (st\<lparr>bs_nextSequence := n\<rparr>)"
  by (simp add: batch_inv_def)

lemma batcher_turn_bounds:
  assumes l: "go_limits l" and inv: "batch_inv l st"
  shows "batcher_turn (guarded l refused publish) rollback l inp st s = batcher_turn publish rollback l inp st s"
    and "batcher_turn publish rollback l inp st s = (st', s', Continue) \<Longrightarrow> batch_inv l st'"
proof -
  obtain now i where inp: "inp = (now, i)" by (cases inp)
  let ?st = "st\<lparr>bs_nextSequence := bs_nextSequence st + 1\<rparr>"
  have inv': "batch_inv l ?st" by (rule batch_inv_sequence [OF inv])
  have timer: "flush (guarded l refused publish) (st\<lparr>bs_timer := None\<rparr>) s = flush publish (st\<lparr>bs_timer := None\<rparr>) s"
    and close: "flush (guarded l refused publish) st s = flush publish st s"
    using within_of_inv [OF inv] by (auto intro!: flush_guarded)
  show "batcher_turn (guarded l refused publish) rollback l inp st s = batcher_turn publish rollback l inp st s"
    unfolding batcher_turn_def inp
    by (cases i) (auto simp: timer close Let_def forward_turn_bounds(1) [OF l inv'] split: option.split)
  assume run: "batcher_turn publish rollback l inp st s = (st', s', Continue)"
  show "batch_inv l st'"
  proof (cases i)
    case TimerFires
    show ?thesis
    proof (cases "bs_timer st = None")
      case True
      with run inp TimerFires inv show ?thesis by (simp add: batcher_turn_def)
    next
      case False
      with inv have ne: "bs_pending (st\<lparr>bs_timer := None\<rparr>) \<noteq> []" by (auto simp: batch_inv_def)
      from False run inp TimerFires have "flush publish (st\<lparr>bs_timer := None\<rparr>) s = (st', s', None)"
        by (auto simp: batcher_turn_def split: option.splits prod.splits)
      from flush_inv [OF l _ this] ne show ?thesis by blast
    qed
  next
    case (Received e)
    with run inp show ?thesis
      using forward_turn_bounds(2) [OF l inv'] rollback_turn_bounds [OF l inv']
      by (auto simp: batcher_turn_def Let_def split: if_splits option.splits)
  qed (use run inp in \<open>auto simp: batcher_turn_def split: if_splits option.splits prod.splits\<close>)
qed

lemma batcher_loop_bounds:
  assumes l: "go_limits l" and "batch_inv l st"
  shows "batcher_loop (guarded l refused publish) rollback l inps st s = batcher_loop publish rollback l inps st s"
    and "batcher_loop publish rollback l inps st s = (st', s', Continue) \<Longrightarrow> batch_inv l st'"
  using assms(2)
proof (induction inps arbitrary: st s)
  case (Cons inp inps)
  {
    case 1
    note t = batcher_turn_bounds [OF l 1]
    show ?case
      by (auto simp: t(1) dest!: t(2) Cons.IH(1) split: prod.splits batch_turn.splits)
  next
    case 2
    note t = batcher_turn_bounds [OF l 2(2)]
    obtain st1 s1 r where turn: "batcher_turn publish rollback l inp st s = (st1, s1, r)"
      by (cases "batcher_turn publish rollback l inp st s") auto
    with 2(1) have "r = Continue" "batcher_loop publish rollback l inps st1 s1 = (st', s', Continue)"
      by (auto split: batch_turn.splits)
    with turn show ?case by (intro Cons.IH(2) [of st1 s1] t(2) [of publish rollback inp s]) auto
  }
qed auto

section \<open>Properties\<close>

definition sample_limits :: batch_limits where
  "sample_limits = \<lparr>bl_Blocks = 2, bl_Bytes = 100, bl_Rows = 50, bl_Age = 1000\<rparr>"

definition sample_decoded :: "byte \<Rightarrow> u64 \<Rightarrow> decoded_block" where
  "sample_decoded b n = \<lparr>dbk_Block = sample_block b n, dbk_ChainPoint = sample_point b n,
     dbk_ContentHash = fill32 b, dbk_RawLength = 9,
     dbk_Relays = [sample_relay CHR ''a'', sample_relay CHR ''b'']\<rparr>"

definition sample_forward :: "u64 \<Rightarrow> byte \<Rightarrow> u64 \<Rightarrow> ordered_event" where
  "sample_forward seq b n = \<lparr>rs_Sequence = seq, rs_Forward = Some (sample_decoded b n), rs_Rollback = None\<rparr>"

lemma sample_limits_go: "go_limits sample_limits"
  by (simp add: go_limits_def limits_positive_def sample_limits_def max_int64_def)

text \<open>
  C33. Batch bounds: no batch handed to the sink is empty or exceeds the configured number of blocks,
  bytes or fact rows, whatever the sink and the clock do: a sink that would refuse such a batch is
  never noticed.
\<close>

theorem batches_within_limits:
  assumes "go_limits l"
  shows "Batcher_Run (guarded l refused publish) rollback l inps s = Batcher_Run publish rollback l inps s"
  by (simp add: Batcher_Run_def batcher_loop_bounds(1) [OF assms batch_inv_init [OF assms]])

theorem batches_within_limits_witness:
  "Batcher_Run (guarded sample_limits ([], Some ()) (\<lambda>bs s. (s @ [bs], None))) (\<lambda>e s. (s, None)) sample_limits
     [(1, Received (sample_forward 0 2 10)), (2, InputClosed False)] [] =
   Batcher_Run (\<lambda>bs s. (s @ [bs], None)) (\<lambda>e s. (s, None)) sample_limits
     [(1, Received (sample_forward 0 2 10)), (2, InputClosed False)] []"
  by (rule batches_within_limits [OF sample_limits_go])

text \<open>
  No staged block is stranded: whenever the loop waits, staged blocks have an armed timer, and a
  turn in which it fires hands all of them to the sink.
\<close>

theorem staged_blocks_have_timer:
  assumes "go_limits l" and "Batcher_Run publish rollback l inps s = (st, s', Continue)"
    and "bs_pending st \<noteq> []"
  shows "(\<exists>deadline. bs_timer st = Some deadline) \<and>
    (case publish (bs_pending st) s' of
       (s'', None) \<Rightarrow> \<exists>st'. batcher_turn publish rollback l (now, TimerFires) st s' = (st', s'', Continue) \<and>
         bs_pending st' = []
     | (s'', Some e) \<Rightarrow> \<exists>st'. batcher_turn publish rollback l (now, TimerFires) st s' =
         (st', s'', Return (Some (PublishFailed e))))"
proof -
  have "batch_inv l st"
    using assms batcher_loop_bounds(2) [OF assms(1) batch_inv_init [OF assms(1)]]
    by (simp add: Batcher_Run_def go_limits_def)
  with assms(3) obtain d where "bs_timer st = Some d" by (auto simp: batch_inv_def)
  with assms(3) show ?thesis
    by (auto simp: batcher_turn_def flush_def stopTimer_def Let_def split: prod.split option.split)
qed

theorem staged_blocks_have_timer_witness:
  "\<exists>st. Batcher_Run (\<lambda>bs s. (s @ [bs], None)) (\<lambda>e s. (s, None)) sample_limits
      [(1, Received (sample_forward 0 2 10))] [] = (st, [], Continue :: unit batch_turn) \<and>
    (\<exists>deadline. bs_timer st = Some deadline)"
proof -
  let ?r = "Batcher_Run (\<lambda>bs s. (s @ [bs], None :: unit option)) (\<lambda>e s. (s, None)) sample_limits
      [(1, Received (sample_forward 0 2 10))] []"
  let ?st = "add_block sample_limits 1 (sample_decoded 2 10) (batcher_init\<lparr>bs_nextSequence := 1\<rparr>)"
  have r: "?r = (?st, [], Continue)"
    by (simp add: Batcher_Run_def limits_positive_def sample_limits_def batcher_turn_def sample_forward_def
        batcher_init_def forward_turn_def fits_def sample_decoded_def FactRows_def sample_block_def
        uint64_of_int64_def wrap_int64_def add_block_def atLimit_def armTimer_def stopTimer_def
        int64_of_uint64_def Let_def word_le_nat_alt)
  moreover have "bs_pending ?st \<noteq> []" by (simp add: add_block_def batcher_init_def Let_def)
  ultimately show ?thesis using staged_blocks_have_timer [OF sample_limits_go r] by blast
qed

end
