(* ===== verification/Store_Sink.thy ===== *)
theory Store_Sink
  imports Dataset Batch_Bounds Metrics
begin

text \<open>
  \<^verbatim>\<open>internal/syncer/store_sink.go\<close>: the sink that publishes batches to the store. Its state is
  the store's handle and tables, the metrics and the progress flag its callback sets; the answers of
  the world to the successive calls are a function of the number of the call.
\<close>

section \<open>Operations\<close>

record world =
  wo_publish :: publish_env
  wo_rollback :: rollback_env
  wo_started :: time
  wo_ended :: time

record sink_state =
  sk_handle :: store_handle
  sk_db :: database
  sk_metrics :: "metrics option"
  sk_progressed :: bool
  sk_calls :: nat
  sk_world :: "nat \<Rightarrow> world"

record sink_config =
  sc_store :: bool
  sc_lock :: bool
  sc_MaximumDepth :: u32
  sc_RollbackReason :: string

datatype sink_error =
    SinkUnconfigured
  | SinkEmptyBatch
  | SinkStore store_error
  | SinkUncommitted
  | SinkZeroDepth
  | SinkNotRollback

definition storeRelays :: "relay_identity list \<Rightarrow> store_relay list" where
  "storeRelays values = map (\<lambda>v. \<lparr>sr_Host = ri_Host v, sr_Address = ri_Address v,
     sr_Operator = ri_Operator v, sr_N2NVersion = ri_N2NVersion v\<rparr>) values"

definition candidate_of :: "decoded_block \<Rightarrow> candidate" where
  "candidate_of b = \<lparr>ca_Block = dbk_Block b, ca_ContentHash = dbk_ContentHash b,
     ca_Relays = storeRelays (dbk_Relays b), ca_RawLength = dbk_RawLength b\<rparr>"

definition sink_publish :: "sink_config \<Rightarrow> (sink_state, sink_error) publish_fun" where
  "sink_publish cfg blocks s =
     (if \<not> sc_store cfg \<or> \<not> sc_lock cfg then (s, Some SinkUnconfigured)
      else if length blocks = 0 then (s, Some SinkEmptyBatch)
      else (let w = sk_world s (sk_calls s);
                rows = fold (\<lambda>b n. n + FactRows (dbk_Block b)) blocks 0;
                (h, db, commit, err) = Publish ((wo_publish w)\<lparr>pe_lock := True\<rparr>) (map candidate_of blocks)
                  (sk_handle s) (sk_db s);
                s = s\<lparr>sk_handle := h, sk_db := db, sk_calls := sk_calls s + 1\<rparr>
        in case err of
             Some e \<Rightarrow> (s, Some (SinkStore e))
           | None \<Rightarrow>
               if \<not> cm_Committed commit then (s, Some SinkUncommitted)
               else (s\<lparr>sk_progressed := True,
                      sk_metrics := observePublish (wo_started w) (length blocks) rows
                        (wo_ended w - wo_started w) (sk_metrics s)\<rparr>, None)))"

definition sink_rollback :: "sink_config \<Rightarrow> (sink_state, sink_error) rollback_fun" where
  "sink_rollback cfg event s =
     (if \<not> sc_store cfg \<or> \<not> sc_lock cfg then (s, Some SinkUnconfigured)
      else if sc_MaximumDepth cfg = 0 then (s, Some SinkZeroDepth)
      else if ae_Kind event \<noteq> EventRollback then (s, Some SinkNotRollback)
      else (let w = sk_world s (sk_calls s);
                reason = (if sc_RollbackReason cfg = '''' then ''unanimous relay rollback''
                          else sc_RollbackReason cfg);
                (h, db, commit, err) = Rollback ((wo_rollback w)\<lparr>rv_lock := True\<rparr>)
                  \<lparr>rq_To = ae_Point event, rq_Relays = storeRelays (ae_Relays event), rq_Reason = reason,
                   rq_MaximumDepth = sc_MaximumDepth cfg\<rparr> (sk_handle s) (sk_db s);
                s = s\<lparr>sk_handle := h, sk_db := db, sk_calls := sk_calls s + 1\<rparr>
        in case err of
             Some e \<Rightarrow> (s, Some (SinkStore e))
           | None \<Rightarrow>
               if \<not> rc_Committed commit then (s, Some SinkUncommitted)
               else if rc_Noop commit then (s, None)
               else (s\<lparr>sk_progressed := True, sk_metrics := observeRollback (sk_metrics s)\<rparr>, None)))"

section \<open>The store satisfies the contract of a sink\<close>

text \<open>The decoded block is the block its agreed event announced.\<close>

definition faithful_block :: "decoded_block \<Rightarrow> bool" where
  "faithful_block b \<longleftrightarrow> wire (dbk_ChainPoint b) = Some (bk_Slot (dbk_Block b), bk_Hash (dbk_Block b))"

definition chain_wires :: "canonical_block list \<Rightarrow> wire list" where
  "chain_wires chain = map (\<lambda>b. wire (cb_Point b)) chain"

definition sink_view :: "dataset_identity \<Rightarrow> sink_state \<Rightarrow> wire list \<Rightarrow> bool" where
  "sink_view i s v \<longleftrightarrow> sh_identity (sk_handle s) = Some i \<and>
     (\<exists>chain. handle_inv (sk_handle s) (sk_db s) chain \<and> v = chain_wires chain)"

lemma wire_pointForBlock: "wire (pointForBlock t b) = Some (bk_Slot b, bk_Hash b)"
  by (simp add: wire_def pointForBlock_def)

lemma sameWirePoint_wire: "sameWirePoint p q \<longleftrightarrow> wire p = wire q"
  by (auto simp: sameWirePoint_def wire_def)

lemma Publish_blocks:
  assumes "Publish env candidates h db = (h', db', commit, None)"
  shows "map cb_Point (cm_Blocks commit) = map (\<lambda>c. pointForBlock (sh_ebbType h) (ca_Block c)) candidates"
proof -
  from assms obtain i pubs commit0 fp fe where
    rows: "publish_rows env h i pubs commit0 db = (db', commit, None)"
    and c0: "cm_Blocks commit0 = map (make_block h fp fe) (enumerate 0 candidates)"
    by (auto simp: Publish_def Let_def split: if_splits sum.splits) (metis commit.select_convs(5))
  have "cm_Blocks commit = cm_Blocks commit0"
    using rows by (auto simp: publish_rows_def Let_def case_prod_beta split: if_splits sum.splits
        bool.splits store_error.splits)
  then show ?thesis
    by (intro nth_equalityI) (auto simp: c0 make_block_def nth_enumerate_eq)
qed

lemma find_index_dropWhile:
  assumes "find_index P xs = Some k"
  shows "dropWhile (\<lambda>x. \<not> P x) xs = drop k xs"
proof -
  from assms have k: "k < length xs" "P (xs ! k)" "\<forall>j < k. \<not> P (xs ! j)" by (auto simp: find_index_Some_iff)
  have "xs = take k xs @ drop k xs" by simp
  moreover have "\<forall>x \<in> set (take k xs). \<not> P x" using k by (auto simp: in_set_conv_nth)
  moreover have "dropWhile (\<lambda>x. \<not> P x) (drop k xs) = drop k xs"
    using k by (metis Cons_nth_drop_Suc dropWhile.simps(2))
  ultimately show ?thesis by (metis dropWhile_append2)
qed

lemma rewind_chain:
  assumes "find_index (\<lambda>b. wire (cb_Point b) = t) (take n chain) = Some k"
  shows "rewind start t (chain_wires chain) = Some (chain_wires (drop k chain))"
proof -
  from assms have k: "k < length chain" "wire (cb_Point (chain ! k)) = t" "\<forall>j < k. wire (cb_Point (chain ! j)) \<noteq> t"
    by (auto simp: find_index_Some_iff)
  then have "find_index (\<lambda>x. x = t) (chain_wires chain) = Some k"
    by (auto simp: find_index_Some_iff chain_wires_def)
  from find_index_dropWhile [OF this] have "dropWhile (\<lambda>x. x \<noteq> t) (chain_wires chain) = chain_wires (drop k chain)"
    by (simp add: chain_wires_def drop_map)
  moreover have "t \<in> set (chain_wires chain)"
    using k by (auto simp: chain_wires_def intro!: image_eqI [of _ _ "chain ! k"])
  ultimately show ?thesis by (simp add: rewind_def)
qed

text \<open>The resolution of a target is the rewinding of the chain.\<close>

lemma resolveRollback_rewinds:
  assumes inv: "chain_inv (di_Start i) db chain"
    and res: "resolveRollback (expected_state i db chain (rq_MaximumDepth request)) request = Inr (target, ds)"
  shows "rewind (wire (di_Start i)) (wire (rq_To request)) (chain_wires chain) =
    Some (chain_wires (drop (length ds) chain))"
proof -
  let ?depth = "rq_MaximumDepth request" and ?req = "rq_To request" and ?start = "di_Start i"
  let ?w = "take (unat ?depth + 1) chain"
  let ?find = "find_index (\<lambda>b. wire (cb_Point b) = wire ?req) ?w"
  from res obtain index inWindow where
    t: "resolveRollbackTarget (expected_state i db chain ?depth) ?req = Inr (target, index, inWindow)"
    by (auto simp: resolveRollback_def err_simps split: if_splits)
  have same: "(\<lambda>b. sameWirePoint ?req (cb_Point b)) = (\<lambda>b. wire (cb_Point b) = wire ?req)"
    by (auto simp: sameWirePoint_wire)
  have non_origin: "wire (cb_Point b) \<noteq> None" if "b \<in> set chain" for b
    using chain_points_valid(1) [OF inv that] by (simp add: wire_def)
  show ?thesis
  proof (cases inWindow)
    case True
    with t have f: "?find = Some index" and tg: "target = cb_Point (?w ! index)"
      by (auto simp: resolveRollbackTarget_def err_simps Let_def same split: if_splits option.splits)
    from f have idx: "index < length ?w" "wire (cb_Point (?w ! index)) = wire ?req"
      "\<forall>j < index. wire (cb_Point (?w ! j)) \<noteq> wire ?req" by (auto simp: find_index_Some_iff)
    have "length ds = index"
    proof (cases "target = chain_tip ?start chain")
      case True
      with res t have "ds = []" by (auto simp: resolveRollback_def)
      moreover have "index = 0"
      proof (rule ccontr)
        assume "index \<noteq> 0"
        then have "wire (cb_Point (?w ! 0)) \<noteq> wire ?req" using idx(3) by blast
        moreover have "cb_Point (?w ! 0) = target" using True idx(1) by (cases chain) (auto simp: chain_tip_def)
        ultimately show False using tg idx(2) by simp
      qed
      ultimately show ?thesis by simp
    next
      case False
      with res t \<open>inWindow\<close> have "ds = take index ?w"
        by (auto simp: resolveRollback_def split: if_splits)
      with idx(1) show ?thesis by simp
    qed
    with rewind_chain [OF f] show ?thesis by simp
  next
    case False
    with t have nf: "pt_Origin ?req \<or> ?find = None"
      by (auto simp: resolveRollbackTarget_def err_simps Let_def same split: if_splits option.splits)
    from False t have tg: "target = ?start" "wire ?req = wire ?start"
      by (auto simp: resolveRollbackTarget_def err_simps Let_def sameWirePoint_wire
          split: if_splits option.splits) (simp add: wire_def)
    have absent: "wire ?req \<notin> wire ` cb_Point ` set ?w"
    proof (cases "pt_Origin ?req")
      case True
      then have "wire ?req = None" by (simp add: wire_def)
      then show ?thesis using non_origin in_set_takeD by force
    next
      case False
      with nf show ?thesis by (auto simp: find_index_None_iff)
    qed
    have whole: "ds = chain \<and> ?w = chain"
    proof (cases "target = chain_tip ?start chain")
      case True
      with res t have "ds = []" by (auto simp: resolveRollback_def)
      moreover have "chain = []"
        using True tg absent by (cases chain) (auto simp: chain_tip_def)
      ultimately show ?thesis by simp
    next
      case neq: False
      with res t False have "ds = ?w" "length ?w \<le> unat ?depth"
        by (auto simp: resolveRollback_def split: if_splits)
      then show ?thesis by (simp add: min_def split: if_splits)
    qed
    then have "rewind (wire ?start) (wire ?req) (chain_wires chain) = Some []"
      using absent tg(2) by (auto simp: rewind_def chain_wires_def)
    with whole show ?thesis by (simp add: chain_wires_def)
  qed
qed

lemma Rollback_resolved:
  assumes "Rollback env request h db = (h', db', commit, None)"
  shows "\<exists>state target ds. State (rv_queries env) h db (rq_MaximumDepth request) = Inr state \<and>
    resolveRollback state request = Inr (target, ds) \<and> rc_Descendants commit = ds"
proof -
  from assms obtain state target ds where
    s: "State (rv_queries env) h db (rq_MaximumDepth request) = Inr state"
      "resolveRollback state request = Inr (target, ds)"
    by (auto simp: Rollback_def split: if_splits sum.splits)
  have "rc_Descendants commit = ds"
  proof (cases "target = st_Tip state")
    case True
    then have "ds = []" using s(2) by (auto simp: resolveRollback_def err_simps split: if_splits)
    moreover have "rc_Descendants commit = []"
      using assms s True
      by (auto simp: Rollback_def empty_rollback_commit_def Let_def split: if_splits sum.splits)
    ultimately show ?thesis by simp
  next
    case False
    with assms s obtain e where
      "rollback_rows env (make_rollback env h e target state ds request) db = (db', commit, None)"
      by (auto simp: Rollback_def split: if_splits sum.splits)
    then show ?thesis
      by (auto simp: rollback_rows_def resolve_header_def Let_def case_prod_beta rollbackResult_def
          make_rollback_def split: if_splits sum.splits bool.splits store_error.splits)
  qed
  with s show ?thesis by blast
qed

interpretation store_sink: batch_sink "sink_publish cfg" "sink_rollback cfg" "sink_view i" "wire (di_Start i)"
    faithful_block
  for cfg :: sink_config and i :: dataset_identity
proof
  fix s s' :: sink_state and v and bs :: "decoded_block list"
  assume view: "sink_view i s v" and run: "sink_publish cfg bs s = (s', None)" and "bs \<noteq> []"
    and len: "int (length bs) \<le> max_int64" and good: "list_all faithful_block bs"
  from view obtain chain where id: "sh_identity (sk_handle s) = Some i"
    and inv: "handle_inv (sk_handle s) (sk_db s) chain" and v: "v = chain_wires chain"
    by (auto simp: sink_view_def)
  let ?env = "(wo_publish (sk_world s (sk_calls s)))\<lparr>pe_lock := True\<rparr>"
  from run obtain commit where
    p: "Publish ?env (map candidate_of bs) (sk_handle s) (sk_db s) = (sk_handle s', sk_db s', commit, None)"
    by (auto simp: sink_publish_def Let_def split: if_splits option.splits prod.splits)
  have len': "length (map candidate_of bs) < 2 ^ 63" using len by (simp add: max_int64_def)
  from Publish_effect [OF inv len' p] have id': "sh_identity (sk_handle s') = Some i"
    and inv': "handle_inv (sk_handle s') (sk_db s') (rev (cm_Blocks commit) @ chain)"
    using id by (auto simp: publish_outcome_def)
  have "map (\<lambda>b. wire (cb_Point b)) (cm_Blocks commit) = map (\<lambda>b. wire (dbk_ChainPoint b)) bs"
  proof -
    have "map (\<lambda>b. wire (cb_Point b)) (cm_Blocks commit) = map wire (map cb_Point (cm_Blocks commit))" by simp
    also have "\<dots> = map (\<lambda>b. wire (dbk_ChainPoint b)) bs"
      unfolding Publish_blocks [OF p]
      using good by (auto simp: candidate_of_def wire_pointForBlock faithful_block_def list_all_iff)
    finally show ?thesis .
  qed
  then have "block_points bs @ v = chain_wires (rev (cm_Blocks commit) @ chain)"
    by (simp add: block_points_def chain_wires_def v flip: rev_map)
  with id' inv' show "sink_view i s' (block_points bs @ v)" by (auto simp: sink_view_def)
next
  fix s s' :: sink_state and v and event
  assume view: "sink_view i s v" and run: "sink_rollback cfg event s = (s', None)"
  from view obtain chain where id: "sh_identity (sk_handle s) = Some i"
    and inv: "handle_inv (sk_handle s) (sk_db s) chain" and v: "v = chain_wires chain"
    by (auto simp: sink_view_def)
  then have ci: "chain_inv (di_Start i) (sk_db s) chain" by (auto simp: handle_inv_def store_inv_def)
  let ?env = "(wo_rollback (sk_world s (sk_calls s)))\<lparr>rv_lock := True\<rparr>"
  from run obtain request commit where
    r: "Rollback ?env request (sk_handle s) (sk_db s) = (sk_handle s', sk_db s', commit, None)"
    and to: "rq_To request = ae_Point event"
    by (auto simp: sink_rollback_def Let_def split: if_splits option.splits prod.splits)
  from Rollback_effect [OF inv id r] obtain k where id': "sh_identity (sk_handle s') = Some i"
    and inv': "handle_inv (sk_handle s') (sk_db s') (drop k chain)" and ds: "rc_Descendants commit = take k chain"
    using id by (auto simp: rollback_outcome_def)
  from Rollback_resolved [OF r] obtain state target where
    s: "State (rv_queries ?env) (sk_handle s) (sk_db s) (rq_MaximumDepth request) = Inr state"
    and res: "resolveRollback state request = Inr (target, take k chain)"
    using ds by auto
  from State_exact [OF ci id s] res
  have "rewind (wire (di_Start i)) (wire (rq_To request)) (chain_wires chain) =
      Some (chain_wires (drop (length (take k chain)) chain))"
    by (intro resolveRollback_rewinds [OF ci]) auto
  then have "rewind (wire (di_Start i)) (wire (ae_Point event)) v = Some (chain_wires (drop k chain))"
    by (simp add: to v min_def split: if_splits)
  with id' inv' show "\<exists>v'. rewind (wire (di_Start i)) (wire (ae_Point event)) v = Some v' \<and> sink_view i s' v'"
    by (auto simp: sink_view_def)
qed

section \<open>Properties\<close>

definition sample_world :: world where
  "sample_world = \<lparr>wo_publish = sample_publish_env SendOk, wo_rollback = sample_rollback_env,
     wo_started = 0, wo_ended = 0\<rparr>"

definition sample_sink :: sink_state where
  "sample_sink = \<lparr>sk_handle = sample_handle, sk_db = empty_database, sk_metrics = Some zero_metrics,
     sk_progressed = False, sk_calls = 0, sk_world = (\<lambda>_. sample_world)\<rparr>"

definition sample_sink_config :: sink_config where
  "sample_sink_config = \<lparr>sc_store = True, sc_lock = True, sc_MaximumDepth = 5, sc_RollbackReason = ''''\<rparr>"

definition sample_inputs :: "(time \<times> batch_input) list" where
  "sample_inputs = [(1, Received (sample_forward 0 2 10)), (2, InputClosed False)]"

definition sample_batch_run :: "batcher_state \<times> sink_state \<times> sink_error batch_turn" where
  "sample_batch_run = Batcher_Run (sink_publish sample_sink_config) (sink_rollback sample_sink_config)
     sample_limits sample_inputs sample_sink"

lemma sample_batch_run_ok: "snd (snd sample_batch_run) = Return None"
  by (simp add: sample_batch_run_def Batcher_Run_def limits_positive_def sample_limits_def batcher_turn_def
      sample_forward_def sample_inputs_def batcher_init_def forward_turn_def fits_def sample_decoded_def
      FactRows_def uint64_of_int64_def wrap_int64_def add_block_def atLimit_def armTimer_def
      stopTimer_def int64_of_uint64_def word_le_nat_alt flush_def sink_publish_def
      sample_sink_config_def sample_sink_def sample_world_def candidate_of_def storeRelays_def
      sample_relay_def sample_defs publish_eval)

text \<open>
  C2. The pipeline's tail refines the chain of agreed events: while the batcher runs over the store,
  the staged blocks on top of the durable chain are exactly the chain that the events consumed so far
  build (forward blocks pushed, rollbacks rewinding, across batch boundaries), and after a clean end
  of input nothing is staged, so the durable chain is that chain. The blocks are assumed to carry the
  slot and hash their events announced.
\<close>

theorem durable_chain_follows_agreed_events:
  assumes "writer_run i (sk_handle s) (sk_db s) chain" and "go_limits l" and "depth \<noteq> 0"
    and "\<forall>inp \<in> set inps. \<forall>e b. snd inp = Received e \<longrightarrow> rs_Forward e = Some b \<longrightarrow> faithful_block b"
    and "Batcher_Run (sink_publish cfg) (sink_rollback cfg) l inps s = (st, s', r)"
    and "r = Continue \<or> r = Return None"
  shows "\<exists>chain'. State all_queries_ok (sk_handle s') (sk_db s') depth =
        Inr (expected_state i (sk_db s') chain' depth) \<and>
      apply_events (wire (di_Start i)) (consumed inps) (chain_wires chain) =
        Some (block_points (bs_pending st) @ chain_wires chain') \<and>
      (r = Return None \<longrightarrow> bs_pending st = [])"
proof -
  have h: "sh_identity (sk_handle s) = Some i" "handle_inv (sk_handle s) (sk_db s) chain"
    using writer_run_inv [OF assms(1)] by auto
  then have "sink_view i s (chain_wires chain)" by (auto simp: sink_view_def)
  moreover have "store_sink.good_inputs inps"
    using assms(4) by (simp add: store_sink.good_inputs_def)
  ultimately obtain v' where v': "sink_view i s' v'"
    "apply_events (wire (di_Start i)) (consumed inps) (chain_wires chain) = Some (block_points (bs_pending st) @ v')"
    "r = Return None \<longrightarrow> bs_pending st = []"
    using store_sink.run_refines [OF assms(2) _ _ assms(5,6)] by blast
  then show ?thesis using State_of_handle [OF _ _ assms(3)] by (auto simp: sink_view_def)
qed

theorem durable_chain_follows_agreed_events_witness:
  "\<exists>chain'. State all_queries_ok (sk_handle (fst (snd sample_batch_run))) (sk_db (fst (snd sample_batch_run))) 5 =
        Inr (expected_state sample_identity (sk_db (fst (snd sample_batch_run))) chain' 5) \<and>
      Some [Some (10, fill32 2)] = Some (block_points [] @ chain_wires chain')"
proof -
  have run: "Batcher_Run (sink_publish sample_sink_config) (sink_rollback sample_sink_config)
     sample_limits sample_inputs sample_sink =
     (fst sample_batch_run, fst (snd sample_batch_run), Return None)"
    using sample_batch_run_ok by (cases sample_batch_run) (auto simp: sample_batch_run_def)
  have start: "writer_run sample_identity (sk_handle sample_sink) (sk_db sample_sink) []"
    using sample_start by (simp add: sample_sink_def)
  have good: "\<forall>inp \<in> set sample_inputs. \<forall>e b. snd inp = Received e \<longrightarrow> rs_Forward e = Some b \<longrightarrow> faithful_block b"
    by (simp add: sample_inputs_def sample_forward_def faithful_block_def sample_decoded_def
        sample_point_def sample_block_def wire_def)
  have events: "apply_events (wire (di_Start sample_identity)) (consumed sample_inputs) (chain_wires []) =
      Some [Some (10, fill32 2)]"
    by (simp add: sample_inputs_def sample_forward_def apply_event_def sample_decoded_def sample_point_def
        wire_def chain_wires_def)
  show ?thesis
    using durable_chain_follows_agreed_events [OF start sample_limits_go _ good run, of 5] events by auto
qed

end
