(* ===== verification/Relay_Types.thy ===== *)
theory Relay_Types
  imports Facts
begin

text \<open>
  \<^verbatim>\<open>internal/relay/types.go\<close>: one relay-local observation and the framed digest of the
  exact bytes BlockFetch supplied. SHA-256 itself is the parameter \<open>sha256\<close>.
\<close>

definition KindForward :: event_kind where
  "KindForward = 1"

definition KindRollback :: event_kind where
  "KindRollback = 2"

record relay_event =
  re_Kind :: event_kind
  re_Point :: point
  re_Tip :: point
  re_BlockType :: u64
  re_RawLength :: u64
  re_Digest :: hash32
  re_RawCBOR :: bytes
  re_Relay :: relay_identity
  re_ObservedAt :: time

definition RawBlockDomain :: string where
  "RawBlockDomain = ''cardano-clicksync/raw-block/v1''"

text \<open>\<^verbatim>\<open>binary.BigEndian.PutUint64\<close>: eight bytes, most significant first.\<close>

definition put_uint64 :: "u64 \<Rightarrow> bytes" where
  "put_uint64 w = map (\<lambda>i. ucast (drop_bit (8 * (7 - i)) w)) [0..<8]"

definition ascii_bytes :: "string \<Rightarrow> bytes" where
  "ascii_bytes s = map of_char s"

text \<open>The bytes written to the hash: domain, block type, length, raw block.\<close>

definition raw_block_frame :: "u64 \<Rightarrow> bytes \<Rightarrow> bytes" where
  "raw_block_frame blockType raw =
     ascii_bytes RawBlockDomain @ (put_uint64 blockType @ put_uint64 (of_nat (length raw))) @ raw"

definition RawBlockDigest :: "(bytes \<Rightarrow> hash32) \<Rightarrow> u64 \<Rightarrow> bytes \<Rightarrow> hash32" where
  "RawBlockDigest sha256 blockType raw = sha256 (raw_block_frame blockType raw)"

section \<open>The frame is unambiguous\<close>

lemma length_put_uint64 [simp]: "length (put_uint64 w) = 8"
  by (simp add: put_uint64_def)

lemma bit_put_uint64:
  assumes "n < 64"
  shows "bit w n = bit (put_uint64 w ! (7 - n div 8)) (n mod 8)"
proof -
  have "7 - n div 8 < 8" by simp
  then have "put_uint64 w ! (7 - n div 8) = ucast (drop_bit (8 * (7 - (7 - n div 8))) w)"
    by (simp add: put_uint64_def)
  moreover have "7 - (7 - n div 8) = n div 8"
    using assms by simp
  ultimately show ?thesis
    using assms by (simp add: bit_unsigned_iff bit_drop_bit_eq)
qed

lemma put_uint64_inject [simp]: "put_uint64 v = put_uint64 w \<longleftrightarrow> v = w"
proof
  assume eq: "put_uint64 v = put_uint64 w"
  show "v = w"
  proof (rule bit_word_eqI)
    fix n
    assume "n < LENGTH(64)"
    then show "bit v n \<longleftrightarrow> bit w n"
      using bit_put_uint64 [of n v] bit_put_uint64 [of n w] eq by simp
  qed
qed simp

lemma raw_block_frame_inject:
  "raw_block_frame t r = raw_block_frame t' r' \<longleftrightarrow> t = t' \<and> r = r'"
  by (auto simp: raw_block_frame_def)

lemma RawBlockDigest_inject:
  assumes "inj_on sha256 {raw_block_frame t r, raw_block_frame t' r'}"
    and "RawBlockDigest sha256 t r = RawBlockDigest sha256 t' r'"
  shows "t = t' \<and> r = r'"
  using assms raw_block_frame_inject [of t r t' r'] by (auto simp: RawBlockDigest_def inj_on_def)

end
