(* ===== verification/Agreement.thy ===== *)
theory Agreement
  imports Relay_Types
begin

text \<open>
  The package \<^verbatim>\<open>internal/agreement\<close>: strict all-of-N comparison of one event per relay.
  A \<^verbatim>\<open>Source\<close> is a state with a next function; the engine pulls one event from every
  source in configuration order and compares them.
\<close>

section \<open>errors.go\<close>

definition MaxDiagnostics :: nat where
  "MaxDiagnostics = 16"

definition MaxIdentityText :: nat where
  "MaxIdentityText = 128"

datatype difference_field =
    DifferenceEventKind
  | DifferencePoint
  | DifferenceBlockType
  | DifferenceRawLength
  | DifferenceDigest
  | DifferenceRawPolicy

record diagnostic =
  dg_RelayIndex :: nat
  dg_Relay :: relay_identity
  dg_Kind :: event_kind
  dg_Point :: point
  dg_BlockType :: u64
  dg_RawLength :: u64
  dg_Digest :: hash32

record difference =
  df_Field :: difference_field
  df_Diagnostics :: "diagnostic list"
  df_TotalRelays :: nat
  df_Truncated :: bool

definition boundedText :: "string \<Rightarrow> string" where
  "boundedText value = (if length value \<le> MaxIdentityText then value else take MaxIdentityText value)"

definition boundedIdentity :: "relay_identity \<Rightarrow> relay_identity" where
  "boundedIdentity identity = identity\<lparr>ri_Host := boundedText (ri_Host identity),
     ri_Address := boundedText (ri_Address identity),
     ri_Operator := boundedText (ri_Operator identity)\<rparr>"

definition newDifference :: "difference_field \<Rightarrow> relay_event list \<Rightarrow> difference" where
  "newDifference field events =
     (let count = min (length events) MaxDiagnostics in
      \<lparr>df_Field = field,
       df_Diagnostics = map (\<lambda>index. let event = events ! index in
         \<lparr>dg_RelayIndex = index, dg_Relay = boundedIdentity (re_Relay event),
          dg_Kind = re_Kind event, dg_Point = re_Point event, dg_BlockType = re_BlockType event,
          dg_RawLength = re_RawLength event, dg_Digest = re_Digest event\<rparr>) [0..<count],
       df_TotalRelays = length events,
       df_Truncated = length events > count\<rparr>)"

text \<open>
  \<open>SourceError\<close> carries the failing relay's index and the error of the source; \<open>IndexPanic\<close> is
  Go's run-time panic on \<^verbatim>\<open>events[0]\<close> of an empty slice.
\<close>

datatype 'e agreement_error =
    Differs difference
  | SourceError nat 'e
  | IndexPanic

section \<open>agreement.go\<close>

datatype new_error = TooFewSources | NilSource nat

definition New :: "'s option list \<Rightarrow> new_error + 's list" where
  "New sources =
     (if length sources < 2 then Inl TooFewSources
      else case find_index (\<lambda>s. s = None) sources of
          Some index \<Rightarrow> Inl (NilSource index)
        | None \<Rightarrow> Inr (map the sources))"

definition relayIdentities :: "relay_event list \<Rightarrow> relay_identity list" where
  "relayIdentities events = map re_Relay events"

text \<open>The loop keeps the running maximum, starting from the zero time.\<close>

definition latestObservation :: "relay_event list \<Rightarrow> time" where
  "latestObservation events =
     fold (\<lambda>event latest. if re_ObservedAt event > latest then re_ObservedAt event else latest) events 0"

definition agreedForward :: "relay_event list \<Rightarrow> agreed_event" where
  "agreedForward events = (let first = hd events in
     \<lparr>ae_Kind = EventForward, ae_Point = re_Point first, ae_BlockType = re_BlockType first,
      ae_ContentHash = re_Digest first, ae_RawLength = re_RawLength first,
      ae_RawCBOR = re_RawCBOR first, ae_Relays = relayIdentities events,
      ae_ObservedAt = latestObservation events\<rparr>)"

definition agreedRollback :: "relay_event list \<Rightarrow> agreed_event" where
  "agreedRollback events =
     \<lparr>ae_Kind = EventRollback, ae_Point = re_Point (hd events), ae_BlockType = 0,
      ae_ContentHash = zero32, ae_RawLength = 0, ae_RawCBOR = [],
      ae_Relays = relayIdentities events, ae_ObservedAt = latestObservation events\<rparr>"

fun compare :: "relay_event list \<Rightarrow> 'e agreement_error + agreed_event" where
  "compare [] = Inl IndexPanic"
| "compare (first # rest) =
     (let events = first # rest; differs = (\<lambda>field. Inl (Differs (newDifference field events))) in
      if re_Kind first \<noteq> KindForward \<and> re_Kind first \<noteq> KindRollback then differs DifferenceEventKind
      else if list_ex (\<lambda>event. re_Kind event \<noteq> re_Kind first) rest then differs DifferenceEventKind
      else if list_ex (\<lambda>event. re_Point event \<noteq> re_Point first) rest then differs DifferencePoint
      else if re_Kind first = KindRollback then
        (if list_ex (\<lambda>event. length (re_RawCBOR event) \<noteq> 0) events then differs DifferenceRawPolicy
         else Inr (agreedRollback events))
      else if list_ex (\<lambda>event. re_BlockType event \<noteq> re_BlockType first) rest
        then differs DifferenceBlockType
      else if list_ex (\<lambda>event. re_RawLength event \<noteq> re_RawLength first) rest
        then differs DifferenceRawLength
      else if list_ex (\<lambda>event. re_Digest event \<noteq> re_Digest first) rest
        then differs DifferenceDigest
      else if of_nat (length (re_RawCBOR first)) \<noteq> re_RawLength first
        then differs DifferenceRawPolicy
      else if list_ex (\<lambda>event. length (re_RawCBOR event) \<noteq> 0) rest then differs DifferenceRawPolicy
      else Inr (agreedForward events))"

text \<open>
  \<^verbatim>\<open>Engine.Next\<close>: \<open>nxt\<close> is the source's own \<^verbatim>\<open>Next\<close>. \<open>pull\<close> is the loop
  over the sources; it stops at the first error and leaves the later sources untouched.
\<close>

fun pull :: "('s \<Rightarrow> ('e + relay_event) \<times> 's) \<Rightarrow> nat \<Rightarrow> 's list \<Rightarrow>
    ('e agreement_error + relay_event list) \<times> 's list" where
  "pull nxt index [] = (Inr [], [])"
| "pull nxt index (source # sources) =
     (case nxt source of
        (Inl err, source') \<Rightarrow> (Inl (SourceError index err), source' # sources)
      | (Inr event, source') \<Rightarrow>
          (case pull nxt (Suc index) sources of
             (Inl err, sources') \<Rightarrow> (Inl err, source' # sources')
           | (Inr events, sources') \<Rightarrow> (Inr (event # events), source' # sources')))"

definition Next :: "('s \<Rightarrow> ('e + relay_event) \<times> 's) \<Rightarrow> 's list \<Rightarrow>
    ('e agreement_error + agreed_event) \<times> 's list" where
  "Next nxt sources =
     (case pull nxt 0 sources of
        (Inl err, sources') \<Rightarrow> (Inl err, sources')
      | (Inr events, sources') \<Rightarrow> (compare events, sources'))"

section \<open>What agreement means\<close>

definition unanimous_rollback :: "relay_event list \<Rightarrow> bool" where
  "unanimous_rollback events \<longleftrightarrow> events \<noteq> [] \<and>
     (\<forall>e \<in> set events. re_Kind e = KindRollback \<and> re_Point e = re_Point (hd events) \<and> re_RawCBOR e = [])"

definition unanimous_forward :: "relay_event list \<Rightarrow> bool" where
  "unanimous_forward events \<longleftrightarrow> events \<noteq> [] \<and>
     (\<forall>e \<in> set events. re_Kind e = KindForward \<and> re_Point e = re_Point (hd events) \<and>
        re_BlockType e = re_BlockType (hd events) \<and> re_RawLength e = re_RawLength (hd events) \<and>
        re_Digest e = re_Digest (hd events)) \<and>
     of_nat (length (re_RawCBOR (hd events))) = re_RawLength (hd events) \<and>
     (\<forall>e \<in> set (tl events). re_RawCBOR e = [])"

lemmas kind_defs = KindForward_def KindRollback_def EventForward_def EventRollback_def

lemma kinds_distinct [simp]: "KindRollback \<noteq> KindForward" "KindForward \<noteq> KindRollback"
  by (simp_all add: kind_defs)

lemma compare_rollback:
  assumes "re_Kind first = KindRollback"
  shows "compare (first # rest) = Inr agreed \<longleftrightarrow>
    unanimous_rollback (first # rest) \<and> agreed = agreedRollback (first # rest)"
  using assms by (simp add: unanimous_rollback_def Let_def list_ex_iff) auto

lemma compare_forward:
  assumes "re_Kind first = KindForward"
  shows "compare (first # rest) = Inr agreed \<longleftrightarrow>
    unanimous_forward (first # rest) \<and> agreed = agreedForward (first # rest)"
  using assms by (simp add: unanimous_forward_def Let_def list_ex_iff) blast

lemma compare_Inr_iff:
  "compare events = Inr agreed \<longleftrightarrow>
     unanimous_rollback events \<and> agreed = agreedRollback events \<or>
     unanimous_forward events \<and> agreed = agreedForward events"
proof (cases events)
  case Nil
  then show ?thesis by (simp add: unanimous_rollback_def unanimous_forward_def)
next
  case (Cons first rest)
  consider "re_Kind first = KindRollback" | "re_Kind first = KindForward"
    | "re_Kind first \<noteq> KindRollback" "re_Kind first \<noteq> KindForward" by blast
  then show ?thesis
  proof cases
    case 1
    then have "\<not> unanimous_forward events"
      using Cons by (simp add: unanimous_forward_def)
    with 1 Cons show ?thesis by (simp only: compare_rollback) simp
  next
    case 2
    then have "\<not> unanimous_rollback events"
      using Cons by (simp add: unanimous_rollback_def)
    with 2 Cons show ?thesis by (simp only: compare_forward) simp
  next
    case 3
    with Cons show ?thesis
      by (simp add: unanimous_forward_def unanimous_rollback_def Let_def)
  qed
qed

lemma fold_max_upper:
  fixes t :: int
  shows "t \<le> fold (\<lambda>x m. max (f x) m) es t"
    and "e \<in> set es \<Longrightarrow> f e \<le> fold (\<lambda>x m. max (f x) m) es t"
proof (induction es arbitrary: t)
  case (Cons a es)
  {
    case 1
    show ?case using Cons.IH(1) [of "max (f a) t"] by simp
  next
    case 2
    then show ?case using Cons.IH(1) [of "max (f a) t"] Cons.IH(2) [of "max (f a) t"] by auto
  }
qed simp_all

lemma latestObservation_eq: "latestObservation events = fold (\<lambda>e m. max (re_ObservedAt e) m) events 0"
  unfolding latestObservation_def 
  by (rule fold_cong) (auto simp: fun_eq_iff max_def)

lemma latestObservation_upper: "e \<in> set events \<Longrightarrow> re_ObservedAt e \<le> latestObservation events"
  unfolding latestObservation_eq by (rule fold_max_upper(2))

lemma pull_success:
  assumes "pull nxt index sources = (Inr events, sources')"
  shows "map Inr events = map (fst \<circ> nxt) sources" and "sources' = map (snd \<circ> nxt) sources"
  using assms
  by (induction sources arbitrary: index events sources') (auto split: prod.splits sum.splits)

lemma pull_failure:
  assumes "pull nxt index sources = (Inl err, sources')"
  shows "\<exists>k e. k < length sources \<and> err = SourceError (index + k) e \<and>
    fst (nxt (sources ! k)) = Inl e \<and> (\<forall>j < k. \<exists>ev. fst (nxt (sources ! j)) = Inr ev) \<and>
    sources' = map (snd \<circ> nxt) (take (Suc k) sources) @ drop (Suc k) sources"
  using assms
proof (induction sources arbitrary: index sources')
  case (Cons source sources)
  obtain r s' where n: "nxt source = (r, s')" by fastforce
  show ?case
  proof (cases r)
    case (Inl e)
    with Cons.prems n show ?thesis by (intro exI [of _ 0] exI [of _ e]) auto
  next
    case (Inr ev)
    with Cons.prems n obtain rest' where
      p: "pull nxt (Suc index) sources = (Inl err, rest')" and s: "sources' = s' # rest'"
      by (auto split: prod.splits sum.splits)
    from Cons.IH [OF p] obtain k e where
      k: "k < length sources" "err = SourceError (Suc index + k) e"
        "fst (nxt (sources ! k)) = Inl e" "\<forall>j < k. \<exists>ev. fst (nxt (sources ! j)) = Inr ev"
        "rest' = map (snd \<circ> nxt) (take (Suc k) sources) @ drop (Suc k) sources"
      by blast
    with Inr n s show ?thesis
      by (intro exI [of _ "Suc k"] exI [of _ e]) (auto simp: All_less_Suc2)
  qed
qed simp

section \<open>Properties\<close>

text \<open>
  C15. Strict agreement: the comparison succeeds exactly when the relays are unanimous, and then it
  returns the one agreed event. A forward event needs equal kind, point, block type, length and
  digest from every relay, a retained body of the announced length from relay zero and none from
  the others; a rollback needs the same target from every relay and no body.
\<close>

theorem compare_agrees_iff:
  "compare events = Inr agreed \<longleftrightarrow>
     unanimous_rollback events \<and> agreed = agreedRollback events \<or>
     unanimous_forward events \<and> agreed = agreedForward events"
  by (rule compare_Inr_iff)

text \<open>
  The engine consumes exactly one event from every source for an agreed event, the agreed event
  carries the kind and point every relay sent, the relay identities in configuration order, and an
  observation time no earlier than any relay's.
\<close>

theorem Next_consumes_one_each:
  fixes nxt :: "'s \<Rightarrow> ('e + relay_event) \<times> 's"
  assumes "Next nxt sources = (Inr agreed, sources')"
  shows "sources' = map (snd \<circ> nxt) sources \<and>
    (\<exists>events. map (fst \<circ> nxt) sources = map Inr events \<and> ae_Relays agreed = map re_Relay events \<and>
      (\<forall>e \<in> set events. re_Kind e = ae_Kind agreed \<and> re_Point e = ae_Point agreed \<and>
         re_ObservedAt e \<le> ae_ObservedAt agreed))"
proof -
  from assms obtain events where p: "pull nxt 0 sources = (Inr events, sources')"
    and c: "compare events = (Inr agreed :: 'e agreement_error + agreed_event)"
    by (auto simp: Next_def split: prod.splits sum.splits)
  have "ae_Relays agreed = map re_Relay events"
    using c by (auto simp: compare_Inr_iff agreedForward_def agreedRollback_def relayIdentities_def Let_def)
  moreover have "re_Kind e = ae_Kind agreed \<and> re_Point e = ae_Point agreed \<and>
      re_ObservedAt e \<le> ae_ObservedAt agreed" if "e \<in> set events" for e
    using c that latestObservation_upper [OF that]
    by (auto simp: compare_Inr_iff unanimous_rollback_def unanimous_forward_def agreedForward_def
        agreedRollback_def Let_def kind_defs)
  ultimately show ?thesis
    using pull_success [OF p] by metis
qed

text \<open>Two scripted relays that both deliver the same rollback to origin.\<close>

definition sample_rollback :: "char \<Rightarrow> relay_event" where
  "sample_rollback c = \<lparr>re_Kind = KindRollback, re_Point = origin_point, re_Tip = origin_point,
     re_BlockType = 0, re_RawLength = 0, re_Digest = zero32, re_RawCBOR = [],
     re_Relay = sample_relay c, re_ObservedAt = 3\<rparr>"

definition scripted_next :: "('e + relay_event) list \<Rightarrow> ('e + relay_event) \<times> ('e + relay_event) list" where
  "scripted_next s = (hd s, tl s)"

lemma Next_consumes_one_each_witness:
  "\<exists>agreed. Next scripted_next [[Inr (sample_rollback CHR ''a'')], [Inr (sample_rollback CHR ''b'') :: nat + relay_event]] =
       (Inr agreed, [[], []]) \<and> ae_Relays agreed = [sample_relay CHR ''a'', sample_relay CHR ''b'']"
proof -
  let ?sources = "[[Inr (sample_rollback CHR ''a'')], [Inr (sample_rollback CHR ''b'') :: nat + relay_event]]"
  let ?agreed = "agreedRollback [sample_rollback CHR ''a'', sample_rollback CHR ''b'']"
  have n: "Next scripted_next ?sources = (Inr ?agreed, [[], []])"
    by (simp add: Next_def scripted_next_def sample_rollback_def Let_def)
  show ?thesis
    using Next_consumes_one_each [OF n] n
    by (auto simp: agreedRollback_def relayIdentities_def sample_rollback_def)
qed

text \<open>
  A failing relay is reported by its index: every relay before it delivered an event, its own
  error is the one reported, and the relays after it were not asked.
\<close>

theorem Next_reports_first_failing_source:
  assumes "Next nxt sources = (Inl (SourceError k err), sources')"
  shows "k < length sources \<and> fst (nxt (sources ! k)) = Inl err \<and>
    (\<forall>j < k. \<exists>event. fst (nxt (sources ! j)) = Inr event) \<and>
    sources' = map (snd \<circ> nxt) (take (Suc k) sources) @ drop (Suc k) sources"
proof -
  have no_src: "compare events \<noteq> Inl (SourceError k err)" for events
    by (cases events) (auto simp: Let_def split: if_splits)
  from assms no_src have p: "pull nxt 0 sources = (Inl (SourceError k err), sources')"
    by (auto simp: Next_def split: prod.splits sum.splits)
  show ?thesis using pull_failure [OF p] by auto
qed

lemma Next_reports_first_failing_source_witness:
  "fst (scripted_next ([[Inr (sample_rollback CHR ''a'')], [Inl 7 :: nat + relay_event]] ! 1)) = Inl 7"
proof -
  let ?sources = "[[Inr (sample_rollback CHR ''a'')], [Inl 7 :: nat + relay_event]]"
  have n: "Next scripted_next ?sources = (Inl (SourceError 1 7), [[], []])"
    by (simp add: Next_def scripted_next_def)
  show ?thesis
    using Next_reports_first_failing_source [OF n] by blast
qed

text \<open>
  Diagnostics are bounded whatever the relays send: a difference names at most sixteen relays
  and no identity text in it is longer than 128 bytes, while the total count stays exact.
\<close>

theorem difference_is_bounded:
  "length (df_Diagnostics (newDifference field events)) \<le> 16 \<and>
   df_TotalRelays (newDifference field events) = length events \<and>
   (df_Truncated (newDifference field events) \<longleftrightarrow> length events > 16) \<and>
   (\<forall>d \<in> set (df_Diagnostics (newDifference field events)).
      length (ri_Host (dg_Relay d)) \<le> 128 \<and> length (ri_Address (dg_Relay d)) \<le> 128 \<and>
      length (ri_Operator (dg_Relay d)) \<le> 128)"
  by (auto simp: newDifference_def Let_def boundedIdentity_def boundedText_def MaxDiagnostics_def
      MaxIdentityText_def)

lemma difference_is_bounded_witness:
  "length (df_Diagnostics (newDifference DifferencePoint [sample_rollback CHR ''a'', sample_rollback CHR ''b''])) \<le> 16"
  using difference_is_bounded [of DifferencePoint "[sample_rollback CHR ''a'', sample_rollback CHR ''b'']"]
  by blast

end
