(* ===== verification/Runner.thy ===== *)
theory Runner
  imports Intake Config_Laws Store_Sink Agreement
begin

text \<open>
  \<^verbatim>\<open>internal/syncer/runner.go\<close>: an attempt opens one session per relay, settles on the
  intersection all of them selected, moves the durable chain back to it when necessary and runs the
  pipeline; the outer loop retries failed attempts with a growing delay and with fewer intersection
  candidates when the relays disagreed. What sessions, contexts and timers answer are arguments.
\<close>

section \<open>Small functions\<close>

datatype intersection_error = NoSelections | UnknownIntersection nat

datatype 'e run_error =
    RecoverFailed store_error
  | NoCandidates
  | EndedWithoutResult
  | IntersectionFailed intersection_error
  | CreateSession nat 'e
  | NotIntersected nat "'e option"
  | AttemptCause 'e
  | IntersectionDiffers "point list" "point list"
  | ReconcileFailed sink_error
  | EngineFailed new_error
  | StageFailed bool 'e
  | ShutdownTimeout
  | CleanupTimeout "'e run_error option"
  | ShutdownDuringCleanup "'e run_error option"
  | ProducerFailed 'e
  | BudgetFailed budget_error
  | RunnerIncomplete string
  | ConfigurationRejected config_error

text \<open>\<^verbatim>\<open>commonIntersection\<close>; the loop carries the index, whether all points agree so far, and the oldest index.\<close>

fun common_loop :: "point list \<Rightarrow> point \<Rightarrow> nat \<Rightarrow> point list \<Rightarrow> bool \<Rightarrow> int \<Rightarrow>
    intersection_error + bool \<times> int" where
  "common_loop candidates first index [] same oldestIndex = Inr (same, oldestIndex)"
| "common_loop candidates first index (p # ps) same oldestIndex =
     (let same = (if index > 0 \<and> p \<noteq> first then False else same) in
      case find_index (\<lambda>c. c = p) candidates of
        None \<Rightarrow> Inl (UnknownIntersection index)
      | Some candidateIndex \<Rightarrow>
          common_loop candidates first (Suc index) ps same
            (if int candidateIndex > oldestIndex then int candidateIndex else oldestIndex))"

definition commonIntersection :: "point list \<Rightarrow> point list \<Rightarrow> intersection_error + point list \<times> bool" where
  "commonIntersection candidates chosen =
     (if length chosen = 0 then Inl NoSelections
      else bindE (common_loop candidates (chosen ! 0) 0 chosen True (- 1)) (\<lambda>(same, oldestIndex).
        if same then Inr ([], True) else Inr (drop (nat oldestIndex) candidates, False)))"

definition pointsFromStore :: "point list \<Rightarrow> point list" where
  "pointsFromStore values = map (\<lambda>v. v) values"

definition doubledDuration :: "int \<Rightarrow> int \<Rightarrow> int" where
  "doubledDuration value maximum =
     (if value \<ge> maximum \<or> value > max_int64 div 2 then maximum
      else let value = wrap_int64 (value * 2) in if value > maximum then maximum else value)"

section \<open>The components an attempt builds\<close>

definition mapper_of :: "sync_config \<Rightarrow> ordered_mapper" where
  "mapper_of c = \<lparr>om_Workers = cs_NormalizeWorkers c, om_Window = cs_ReorderSize c, om_MaxBytes = cs_ReorderBytes c\<rparr>"

definition limits_of :: "sync_config \<Rightarrow> batch_limits" where
  "limits_of c = \<lparr>bl_Blocks = cs_BatchBlocks c, bl_Bytes = cs_BatchBytes c, bl_Rows = cs_BatchRows c, bl_Age = cs_BatchAge c\<rparr>"

definition sink_of :: "string \<Rightarrow> sync_config \<Rightarrow> sink_config" where
  "sink_of reason c = \<lparr>sc_store = True, sc_lock = True, sc_MaximumDepth = cs_RollbackDepth c, sc_RollbackReason = reason\<rparr>"

section \<open>Outcomes\<close>

record attempt_outcome =
  ao_progress :: bool
  ao_graceful :: bool
  ao_retryable :: bool
  ao_fallback :: "point list"

definition failed_outcome :: attempt_outcome where
  "failed_outcome = \<lparr>ao_progress = False, ao_graceful = False, ao_retryable = False, ao_fallback = []\<rparr>"

definition graceful_outcome :: attempt_outcome where
  "graceful_outcome = failed_outcome\<lparr>ao_graceful := True\<rparr>"

definition retryable_outcome :: attempt_outcome where
  "retryable_outcome = failed_outcome\<lparr>ao_retryable := True\<rparr>"

type_synonym 'e attempt_result = "attempt_outcome \<times> 'e run_error option"

section \<open>The end of the pipeline\<close>

text \<open>
  The cause of the process context: a stage failure (the flag tells normalization from publication),
  the shutdown timeout, or what ended the producer.
\<close>

datatype 'e process_cause = StageCause bool 'e | TimeoutCause | ProducerCause 'e

fun cause_error :: "'e process_cause \<Rightarrow> 'e run_error" where
  "cause_error (StageCause b e) = StageFailed b e"
| "cause_error TimeoutCause = ShutdownTimeout"
| "cause_error (ProducerCause e) = ProducerFailed e"

text \<open>
  What happens once the stages run, in the order in which it happens: a stage returns; the producer
  returns (whether the parent context was done then, whether its error is retryable, its error), which
  reads the cause of the process context; and the producer's error is made the cause. The first
  cause stays, and a stage makes its error the cause only when there is none.
\<close>

datatype 'e stop_event =
    StageReturned bool "'e option"
  | ProducerReturned bool bool "'e process_cause"
  | CancelProcess

record 'e pipeline_state =
  ps_cause :: "'e process_cause option"
  ps_mapper :: "'e run_error option"
  ps_batcher :: "'e run_error option"
  ps_attemptErr :: "'e process_cause option"
  ps_retryable :: bool
  ps_stopping :: "'e process_cause option"

definition pipeline_start :: "'e pipeline_state" where
  "pipeline_start = \<lparr>ps_cause = None, ps_mapper = None, ps_batcher = None, ps_attemptErr = None, ps_retryable = False,
     ps_stopping = None\<rparr>"

definition stage_error :: "bool \<Rightarrow> 'e option \<Rightarrow> 'e pipeline_state \<Rightarrow> 'e run_error option" where
  "stage_error b result s =
     (case result of
        None \<Rightarrow> None
      | Some e \<Rightarrow> if ps_cause s = None then Some (StageFailed b e) else Some (AttemptCause e))"

definition stage_cause :: "bool \<Rightarrow> 'e option \<Rightarrow> 'e pipeline_state \<Rightarrow> 'e process_cause option" where
  "stage_cause b result s =
     (case (result, ps_cause s) of (Some e, None) \<Rightarrow> Some (StageCause b e) | _ \<Rightarrow> ps_cause s)"

fun pipeline_step :: "'e stop_event \<Rightarrow> 'e pipeline_state \<Rightarrow> 'e pipeline_state" where
  "pipeline_step (StageReturned False result) s =
     s\<lparr>ps_mapper := stage_error False result s, ps_cause := stage_cause False result s\<rparr>"
| "pipeline_step (StageReturned True result) s =
     s\<lparr>ps_batcher := stage_error True result s, ps_cause := stage_cause True result s\<rparr>"
| "pipeline_step (ProducerReturned gracefulAtStop retryable err) s =
     (if gracefulAtStop then s\<lparr>ps_retryable := retryable\<rparr>
      else case ps_cause s of
        Some cause \<Rightarrow> s\<lparr>ps_retryable := retryable, ps_attemptErr := Some cause\<rparr>
      | None \<Rightarrow> s\<lparr>ps_retryable := retryable, ps_attemptErr := Some err, ps_stopping := Some err\<rparr>)"
| "pipeline_step CancelProcess s =
     (if ps_cause s = None then s\<lparr>ps_cause := ps_stopping s\<rparr> else s)"

record 'e pipeline_env =
  pv_events :: "'e stop_event list"
  pv_shutdownExpired :: bool
  pv_parentAfter :: bool

definition pipeline_end :: "'e pipeline_env \<Rightarrow> 'e pipeline_state" where
  "pipeline_end env = fold pipeline_step (pv_events env) pipeline_start"

definition pipeline_outcome :: "bool \<Rightarrow> 'e pipeline_env \<Rightarrow> 'e attempt_result" where
  "pipeline_outcome progress env =
     (let progressed = failed_outcome\<lparr>ao_progress := progress\<rparr>; s = pipeline_end env in
      if pv_shutdownExpired env then (progressed, Some ShutdownTimeout)
      else if pv_parentAfter env then
        (case ps_cause s of
           Some cause \<Rightarrow> (progressed, Some (cause_error cause))
         | None \<Rightarrow> (case ps_mapper s of
             Some e \<Rightarrow> (progressed, Some e)
           | None \<Rightarrow> (case ps_batcher s of
               Some e \<Rightarrow> (progressed, Some e)
             | None \<Rightarrow> (progressed\<lparr>ao_graceful := True\<rparr>, None))))
      else
        (case ps_cause s of
           Some (StageCause b e) \<Rightarrow> (progressed, Some (StageFailed b e))
         | Some TimeoutCause \<Rightarrow> (progressed, Some ShutdownTimeout)
         | _ \<Rightarrow> (progressed\<lparr>ao_retryable := ps_retryable s\<rparr>, map_option cause_error (ps_attemptErr s))))"

text \<open>
  \<^verbatim>\<open>runPipeline\<close>: the stages share the sink and end with the state and the observations in \<open>stages\<close>;
  whatever they do, the queue gauge is reset.
\<close>

definition runPipeline :: "sync_config \<Rightarrow> ('src list \<Rightarrow> sink_state \<Rightarrow> sink_state \<times> 'e pipeline_env) \<Rightarrow>
    'src list \<Rightarrow> sink_state \<Rightarrow> sink_state \<times> 'e attempt_result" where
  "runPipeline cfg stages engine s =
     (let (s, r) =
        (case NewByteBudget (cs_AgreedQueueBytes cfg) of
           Inl e \<Rightarrow> (s, failed_outcome, Some (BudgetFailed e))
         | Inr budget \<Rightarrow> (let (s, env) = stages engine s in (s, pipeline_outcome (sk_progressed s) env)))
      in (s\<lparr>sk_metrics := observeAgreedQueue 0 0 (sk_metrics s)\<rparr>, r))"

section \<open>The attempt around the pipeline\<close>

text \<open>
  What waiting for a session's intersection gives: the session became ready, with a point or with the
  cause it reports, or the attempt context was done first. With each goes whether the parent context
  was done.
\<close>

datatype 'e selection =
    Selected point
  | SessionStopped "'e option"
  | AttemptDone 'e

fun gather :: "nat \<Rightarrow> ('e selection \<times> bool) list \<Rightarrow> 'e attempt_result + point list" where
  "gather index [] = Inr []"
| "gather index ((Selected p, parentDone) # rest) = bindE (gather (Suc index) rest) (\<lambda>ps. Inr (p # ps))"
| "gather index ((SessionStopped cause, parentDone) # rest) =
     (if parentDone then Inl (graceful_outcome, None) else Inl (retryable_outcome, Some (NotIntersected index cause)))"
| "gather index ((AttemptDone cause, parentDone) # rest) =
     (if parentDone then Inl (graceful_outcome, None) else Inl (retryable_outcome, Some (AttemptCause cause)))"

text \<open>The durable chain is moved to the common intersection when that is not its tip.\<close>

definition reconcile :: "sync_config \<Rightarrow> point \<Rightarrow> point \<Rightarrow> relay_identity list \<Rightarrow> time \<Rightarrow> sink_state \<Rightarrow>
    sink_state \<times> sink_error option" where
  "reconcile cfg durableTip chosen relays now s =
     (if chosen \<noteq> durableTip then
        sink_rollback (sink_of ''unanimous relay intersection rollback'' cfg)
          \<lparr>ae_Kind = EventRollback, ae_Point = chosen, ae_BlockType = 0, ae_ContentHash = zero32, ae_RawLength = 0,
           ae_RawCBOR = [], ae_Relays = relays, ae_ObservedAt = now\<rparr> s
      else (s, None))"

record ('src, 'e) attempt_env =
  av_newSession :: "'e option list"
  av_selections :: "('e selection \<times> bool) list"
  av_identities :: "relay_identity list"
  av_now :: time
  av_parentAfterReconcile :: bool
  av_sources :: "'src option list"
  av_stages :: "'src list \<Rightarrow> sink_state \<Rightarrow> sink_state \<times> 'e pipeline_env"
  av_cleaned :: bool
  av_parentAtCleanup :: bool

text \<open>The deferred cleanup: sessions that do not stop in time turn any result into a fatal one.\<close>

definition attempt_cleanup :: "('src, 'e) attempt_env \<Rightarrow> 'e attempt_result \<Rightarrow> 'e attempt_result" where
  "attempt_cleanup env r =
     (if av_cleaned env then r
      else if av_parentAtCleanup env then (failed_outcome, Some (ShutdownDuringCleanup (snd r)))
      else (failed_outcome, Some (CleanupTimeout (snd r))))"

definition attempt_body :: "sync_config \<Rightarrow> ('src, 'e) attempt_env \<Rightarrow> point \<Rightarrow> point list \<Rightarrow> sink_state \<Rightarrow>
    sink_state \<times> 'e attempt_result" where
  "attempt_body cfg env durableTip candidates s =
     (case gather 0 (av_selections env) of
        Inl r \<Rightarrow> (s, r)
      | Inr chosen \<Rightarrow>
          (case commonIntersection candidates chosen of
             Inl e \<Rightarrow> (s, failed_outcome, Some (IntersectionFailed e))
           | Inr (fallback, same) \<Rightarrow>
               if \<not> same then
                 (s\<lparr>sk_metrics := observeMismatch (sk_metrics s)\<rparr>,
                  retryable_outcome\<lparr>ao_fallback := fallback\<rparr>, Some (IntersectionDiffers chosen fallback))
               else
                 (case reconcile cfg durableTip (chosen ! 0) (av_identities env) (av_now env) s of
                    (s, Some e) \<Rightarrow>
                      (s, if av_parentAfterReconcile env then graceful_outcome else failed_outcome,
                       Some (ReconcileFailed e))
                  | (s, None) \<Rightarrow>
                      (case New (av_sources env) of
                         Inl e \<Rightarrow> (s, failed_outcome, Some (EngineFailed e))
                       | Inr engine \<Rightarrow> runPipeline cfg (av_stages env) engine s))))"

definition runAttempt :: "sync_config \<Rightarrow> ('src, 'e) attempt_env \<Rightarrow> point \<Rightarrow> point list \<Rightarrow> sink_state \<Rightarrow>
    sink_state \<times> 'e attempt_result" where
  "runAttempt cfg env durableTip candidates s0 =
     (let s = s0\<lparr>sk_progressed := False\<rparr> in
      case find_index (\<lambda>x. x \<noteq> None) (av_newSession env) of
        Some index \<Rightarrow> (s, failed_outcome, Some (CreateSession index (the (av_newSession env ! index))))
      | None \<Rightarrow>
          (case attempt_body cfg env durableTip candidates s of
             (s, r) \<Rightarrow> (s, attempt_cleanup env r)))"

section \<open>The outer loop\<close>

record run_state =
  rn_backoff :: int
  rn_forced :: "point list"
  rn_forcedSnapshot :: u64
  rn_sink :: sink_state

record ('src, 'e) iteration =
  it_ctxDone :: bool
  it_queries :: state_queries
  it_ctxDoneAfter :: bool
  it_env :: "('src, 'e) attempt_env"
  it_now :: time
  it_interrupted :: bool

definition run_start :: "sync_config \<Rightarrow> sink_state \<Rightarrow> run_state" where
  "run_start cfg s =
     \<lparr>rn_backoff = cs_ReconnectInitial cfg, rn_forced = [], rn_forcedSnapshot = 0,
      rn_sink = s\<lparr>sk_metrics := (case sk_metrics s of None \<Rightarrow> Some zero_metrics | Some m \<Rightarrow> Some m)\<rparr>\<rparr>"

text \<open>The candidates of the next attempt and the forced candidates kept for later ones.\<close>

definition choose_candidates :: "store_state \<Rightarrow> run_state \<Rightarrow> point list \<times> point list" where
  "choose_candidates state st =
     (let candidates = pointsFromStore (st_Intersections state) in
      if length (rn_forced st) > 0 then
        if st_Snapshot state = rn_forcedSnapshot st then (rn_forced st, rn_forced st) else (candidates, [])
      else (candidates, rn_forced st))"

text \<open>
  One pass of the loop: \<open>Inl\<close> returns (with an error or none), \<open>Inr\<close> continues after waiting for
  the given duration.
\<close>

definition run_turn :: "sync_config \<Rightarrow> ('src, 'e) iteration \<Rightarrow> run_state \<Rightarrow>
    ('e run_error option \<times> sink_state) + int \<times> run_state" where
  "run_turn cfg it st =
     (if it_ctxDone it then Inl (None, rn_sink st)
      else case State (it_queries it) (sk_handle (rn_sink st)) (sk_db (rn_sink st)) (cs_RollbackDepth cfg) of
        Inl e \<Rightarrow> if it_ctxDoneAfter it then Inl (None, rn_sink st) else Inl (Some (RecoverFailed e), rn_sink st)
      | Inr state \<Rightarrow>
          (let (candidates, forced) = choose_candidates state st in
           if length candidates = 0 then Inl (Some NoCandidates, rn_sink st)
           else
             let s = (rn_sink st)\<lparr>sk_metrics := observeAttempt (it_now it) (sk_metrics (rn_sink st))\<rparr>;
                 (s, outcome, err) = runAttempt cfg (it_env it) (st_Tip state) candidates s
             in if ao_graceful outcome then Inl (err, s)
                else if err = None then Inl (Some EndedWithoutResult, s)
                else if \<not> ao_retryable outcome then Inl (err, s)
                else
                  let (forced, snapshot) = (if length (ao_fallback outcome) > 0
                        then (ao_fallback outcome, st_Snapshot state) else (forced, rn_forcedSnapshot st));
                      wait = (if ao_progress outcome then cs_ReconnectInitial cfg else rn_backoff st);
                      backoff = (if ao_progress outcome then cs_ReconnectInitial cfg
                                 else doubledDuration (rn_backoff st) (cs_ReconnectMaximum cfg));
                      s = s\<lparr>sk_metrics := observeReconnect (sk_metrics s)\<rparr>
                  in if it_interrupted it then Inl (None, s)
                     else Inr (wait, \<lparr>rn_backoff = backoff, rn_forced = forced, rn_forcedSnapshot = snapshot, rn_sink = s\<rparr>)))"

text \<open>The first passes of the loop, with the delays between them.\<close>

fun run_loop :: "sync_config \<Rightarrow> ('src, 'e) iteration list \<Rightarrow> run_state \<Rightarrow>
    ('e run_error option \<times> sink_state) + int list \<times> run_state" where
  "run_loop cfg [] st = Inr ([], st)"
| "run_loop cfg (it # its) st =
     bindE (run_turn cfg it st) (\<lambda>(w, st). bindE (run_loop cfg its st) (\<lambda>(ws, st). Inr (w # ws, st)))"

section \<open>Starting\<close>

definition runner_validate :: "bool \<Rightarrow> bool \<Rightarrow> bool \<Rightarrow> sync_config \<Rightarrow> 'e run_error + unit" where
  "runner_validate store lock logger cfg =
     (if \<not> store then Inl (RunnerIncomplete ''store'')
      else if \<not> lock then Inl (RunnerIncomplete ''writer lock'')
      else if \<not> logger then Inl (RunnerIncomplete ''logger'')
      else case Validate cfg of Inl e \<Rightarrow> Inl (ConfigurationRejected e) | Inr _ \<Rightarrow> Inr ())"

text \<open>
  \<^verbatim>\<open>Run\<close>: \<open>finished\<close> is what \<^verbatim>\<open>run\<close> returned, or \<open>None\<close> when it had not returned by the end of the
  shutdown timeout that starts with the cancellation.
\<close>

definition Run :: "bool \<Rightarrow> bool \<Rightarrow> bool \<Rightarrow> bool \<Rightarrow> sync_config \<Rightarrow> 'e run_error option option \<Rightarrow>
    'e run_error option" where
  "Run ctx store lock logger cfg finished =
     (if \<not> ctx then Some (RunnerIncomplete ''context'')
      else case runner_validate store lock logger cfg of
        Inl e \<Rightarrow> Some e
      | Inr _ \<Rightarrow> (case finished of Some result \<Rightarrow> result | None \<Rightarrow> Some ShutdownTimeout))"

end
