(* ===== verification/Runner_Laws.thy ===== *)
theory Runner_Laws
  imports Runner "HOL-Library.Sublist"
begin

text \<open>
  What the runner's decisions guarantee: the intersections of the relays, the negotiation of shorter
  candidate lists, the delays between attempts, the classification of failures, and that a validated
  configuration starts every component.
\<close>

section \<open>Intersections\<close>

lemma common_loop_Inr:
  assumes "common_loop cands first index ps same old = Inr (same', old')"
  shows "old \<le> old'"
    and "\<And>p. p \<in> set ps \<Longrightarrow> \<exists>i. find_index (\<lambda>c. c = p) cands = Some i \<and> int i \<le> old'"
    and "old' = old \<or> (\<exists>p \<in> set ps. \<exists>i. find_index (\<lambda>c. c = p) cands = Some i \<and> old' = int i)"
    and "same' \<longleftrightarrow> same \<and> (\<forall>j < length ps. 0 < index + j \<longrightarrow> ps ! j = first)"
proof -
  have "old \<le> old' \<and> (\<forall>p \<in> set ps. \<exists>i. find_index (\<lambda>c. c = p) cands = Some i \<and> int i \<le> old') \<and>
      (old' = old \<or> (\<exists>p \<in> set ps. \<exists>i. find_index (\<lambda>c. c = p) cands = Some i \<and> old' = int i)) \<and>
      (same' \<longleftrightarrow> same \<and> (\<forall>j < length ps. 0 < index + j \<longrightarrow> ps ! j = first))"
    using assms
  proof (induction cands first index ps same old rule: common_loop.induct)
    case (2 cands first index p ps same old)
    let ?same = "if index > 0 \<and> p \<noteq> first then False else same"
    from 2(2) obtain i where i: "find_index (\<lambda>c. c = p) cands = Some i"
        "common_loop cands first (Suc index) ps ?same (if int i > old then int i else old) = Inr (same', old')"
      by (auto simp: Let_def split: option.splits)
    note IH = 2(1) [OF refl i]
    have "(\<forall>j < length (p # ps). 0 < index + j \<longrightarrow> (p # ps) ! j = first) \<longleftrightarrow>
        (0 < index \<longrightarrow> p = first) \<and> (\<forall>j < length ps. 0 < Suc index + j \<longrightarrow> ps ! j = first)"
      by (auto simp: All_less_Suc2)
    with IH i(1) show ?case by (auto split: if_splits)
  qed auto
  then show "old \<le> old'" and "\<And>p. p \<in> set ps \<Longrightarrow> \<exists>i. find_index (\<lambda>c. c = p) cands = Some i \<and> int i \<le> old'"
    and "old' = old \<or> (\<exists>p \<in> set ps. \<exists>i. find_index (\<lambda>c. c = p) cands = Some i \<and> old' = int i)"
    and "same' \<longleftrightarrow> same \<and> (\<forall>j < length ps. 0 < index + j \<longrightarrow> ps ! j = first)"
    by blast+
qed

lemma all_equal_first: "ps \<noteq> [] \<Longrightarrow> (\<forall>j < length ps. 0 < j \<longrightarrow> ps ! j = ps ! 0) \<longleftrightarrow> (\<forall>p \<in> set ps. p = hd ps)"
  by (auto simp: all_set_conv_all_nth hd_conv_nth)

lemma common_loop_total:
  "\<forall>p \<in> set ps. p \<in> set cands \<Longrightarrow> \<exists>r. common_loop cands first index ps same old = Inr r"
proof (induction ps arbitrary: index same old)
  case (Cons p ps)
  then obtain i where "find_index (\<lambda>c. c = p) cands = Some i"
    using find_index_None_iff [of "\<lambda>c. c = p" cands] by (cases "find_index (\<lambda>c. c = p) cands") auto
  with Cons show ?case by (auto simp: Let_def)
qed simp

lemma common_same:
  assumes "commonIntersection cands chosen = Inr (fallback, True)"
  shows "fallback = [] \<and> chosen \<noteq> [] \<and> (\<forall>p \<in> set chosen. p = hd chosen) \<and> hd chosen \<in> set cands"
proof -
  from assms obtain old where ne: "chosen \<noteq> []" and fb: "fallback = []"
      and l: "common_loop cands (chosen ! 0) 0 chosen True (- 1) = Inr (True, old)"
    by (auto simp: commonIntersection_def err_simps split: if_splits)
  note c = common_loop_Inr [OF l]
  have "\<forall>p \<in> set chosen. p = hd chosen" using c(4) all_equal_first [OF ne] by simp
  moreover have "hd chosen \<in> set cands"
  proof -
    from c(2) [OF hd_in_set [OF ne]] obtain i where "find_index (\<lambda>c. c = hd chosen) cands = Some i" by blast
    then have "i < length cands" "cands ! i = hd chosen" by (auto simp: find_index_Some_iff)
    then show ?thesis using nth_mem [of i cands] by simp
  qed
  ultimately show ?thesis using ne fb by simp
qed

lemma common_differs:
  assumes "commonIntersection cands chosen = Inr (fallback, False)"
  shows "suffix fallback cands" and "fallback \<noteq> []" and "length fallback < length cands" and "hd fallback \<in> set chosen"
    and "chosen \<noteq> []" and "set chosen \<noteq> {hd chosen}"
    and "set chosen \<subseteq> set (take (Suc (length cands - length fallback)) cands)"
proof -
  from assms obtain old where ne: "chosen \<noteq> []" and fb: "fallback = drop (nat old) cands"
      and l: "common_loop cands (chosen ! 0) 0 chosen True (- 1) = Inr (False, old)"
    by (auto simp: commonIntersection_def err_simps split: if_splits)
  note c = common_loop_Inr [OF l]
  from c(4) all_equal_first [OF ne] obtain p where p: "p \<in> set chosen" "p \<noteq> hd chosen" by auto
  from c(2) [OF p(1)] c(2) [OF hd_in_set [OF ne]] obtain i j where
    ij: "find_index (\<lambda>c. c = p) cands = Some i" "int i \<le> old" "find_index (\<lambda>c. c = hd chosen) cands = Some j" "int j \<le> old"
    by blast
  with p(2) have "i \<noteq> j" by (auto simp: find_index_Some_iff)
  with ij have pos: "0 < old" by linarith
  with c(3) obtain q k where q: "q \<in> set chosen" "find_index (\<lambda>c. c = q) cands = Some k" "old = int k" by auto
  then have k: "k < length cands" "cands ! k = q" by (auto simp: find_index_Some_iff)
  show "suffix fallback cands" by (simp add: fb suffix_drop)
  show "fallback \<noteq> []" and "length fallback < length cands" using fb q(3) k pos by auto
  show "hd fallback \<in> set chosen" using fb q k by (simp add: hd_drop_conv_nth)
  show "chosen \<noteq> []" by (rule ne)
  show "set chosen \<noteq> {hd chosen}" using p by blast
  have "length cands - length fallback = k" using fb q(3) k(1) by simp
  moreover have "c \<in> set (take (Suc k) cands)" if "c \<in> set chosen" for c
  proof -
    from c(2) [OF that] obtain m where "find_index (\<lambda>x. x = c) cands = Some m" "int m \<le> old" by blast
    then have "m < length cands" "cands ! m = c" "m < Suc k" using q(3) by (auto simp: find_index_Some_iff)
    then show ?thesis by (auto simp: in_set_conv_nth intro!: exI [of _ m])
  qed
  ultimately show "set chosen \<subseteq> set (take (Suc (length cands - length fallback)) cands)" by blast
qed

lemma common_defined: "chosen \<noteq> [] \<Longrightarrow> set chosen \<subseteq> set cands \<Longrightarrow> \<exists>r. commonIntersection cands chosen = Inr r"
  using common_loop_total [of chosen cands "chosen ! 0" 0 True "- 1"]
  by (cases "common_loop cands (chosen ! 0) 0 chosen True (- 1)") (auto simp: commonIntersection_def)

section \<open>Delays\<close>

lemma doubled:
  assumes "0 < v" and "v \<le> maximum" and "maximum \<le> max_int64"
  shows "doubledDuration v maximum = min (2 * v) maximum"
proof (cases "v \<ge> maximum \<or> v > max_int64 div 2")
  case True
  with assms show ?thesis by (auto simp: doubledDuration_def max_int64_def)
next
  case False
  then have "v * 2 \<le> max_int64" by (auto simp: max_int64_def)
  then have "wrap_int64 (v * 2) = v * 2" using assms by (intro wrap_int64_id) (auto simp: max_int64_def)
  with False show ?thesis by (auto simp: doubledDuration_def Let_def)
qed

definition delays_ok :: "sync_config \<Rightarrow> bool" where
  "delays_ok cfg \<longleftrightarrow> 0 < cs_ReconnectInitial cfg \<and> cs_ReconnectInitial cfg \<le> cs_ReconnectMaximum cfg \<and>
     cs_ReconnectMaximum cfg \<le> max_int64"

text \<open>The delay after \<open>n\<close> attempts in a row that published nothing.\<close>

definition backoff_delay :: "sync_config \<Rightarrow> nat \<Rightarrow> int" where
  "backoff_delay cfg n = min (cs_ReconnectInitial cfg * 2 ^ n) (cs_ReconnectMaximum cfg)"

lemma backoff_delay_0: "delays_ok cfg \<Longrightarrow> backoff_delay cfg 0 = cs_ReconnectInitial cfg"
  by (simp add: backoff_delay_def delays_ok_def)

lemma backoff_delay_Suc:
  assumes "delays_ok cfg"
  shows "doubledDuration (backoff_delay cfg n) (cs_ReconnectMaximum cfg) = backoff_delay cfg (Suc n)"
proof -
  let ?i = "cs_ReconnectInitial cfg" and ?m = "cs_ReconnectMaximum cfg"
  have "0 < ?i * 2 ^ n" using assms by (simp add: delays_ok_def)
  then have "doubledDuration (backoff_delay cfg n) ?m = min (2 * backoff_delay cfg n) ?m"
    using assms by (intro doubled) (auto simp: delays_ok_def backoff_delay_def)
  also have "\<dots> = backoff_delay cfg (Suc n)"
    using assms by (auto simp: backoff_delay_def delays_ok_def min_def)
  finally show ?thesis .
qed

lemma run_turn_cont:
  assumes "run_turn cfg it st = Inr (w, st')"
  obtains state candidates forced s0 s outcome err where
    "State (it_queries it) (sk_handle (rn_sink st)) (sk_db (rn_sink st)) (cs_RollbackDepth cfg) = Inr state"
    and "choose_candidates state st = (candidates, forced)" and "candidates \<noteq> []"
    and "runAttempt cfg (it_env it) (st_Tip state) candidates s0 = (s, outcome, Some err)" and "ao_retryable outcome"
    and "w = (if ao_progress outcome then cs_ReconnectInitial cfg else rn_backoff st)"
    and "rn_backoff st' = (if ao_progress outcome then cs_ReconnectInitial cfg
      else doubledDuration (rn_backoff st) (cs_ReconnectMaximum cfg))"
    and "rn_forced st' = (if ao_fallback outcome \<noteq> [] then ao_fallback outcome else forced)"
    and "ao_fallback outcome \<noteq> [] \<Longrightarrow> rn_forcedSnapshot st' = st_Snapshot state"
  using assms
  by (auto simp: run_turn_def Let_def split: if_splits sum.splits prod.splits)

lemma run_turn_delay:
  assumes "delays_ok cfg" and "rn_backoff st = backoff_delay cfg n" and "run_turn cfg it st = Inr (w, st')"
  shows "\<exists>m \<le> n. w = backoff_delay cfg m \<and> (\<exists>k \<le> Suc n. rn_backoff st' = backoff_delay cfg k)"
proof (rule run_turn_cont [OF assms(3)])
  fix state candidates forced s0 s outcome err
  assume "w = (if ao_progress outcome then cs_ReconnectInitial cfg else rn_backoff st)"
    and "rn_backoff st' = (if ao_progress outcome then cs_ReconnectInitial cfg
      else doubledDuration (rn_backoff st) (cs_ReconnectMaximum cfg))"
  then have "w = backoff_delay cfg (if ao_progress outcome then 0 else n)"
    and "rn_backoff st' = backoff_delay cfg (if ao_progress outcome then 0 else Suc n)"
    using backoff_delay_0 [OF assms(1)] backoff_delay_Suc [OF assms(1), of n] assms(2) by simp_all
  then show ?thesis by (metis bot_nat_0.extremum order_refl)
qed

lemma run_loop_delays:
  assumes "delays_ok cfg" and "rn_backoff st = backoff_delay cfg n" and "run_loop cfg its st = Inr (ws, st')"
    and "k < length ws"
  shows "\<exists>m \<le> n + k. ws ! k = backoff_delay cfg m"
  using assms(2-)
proof (induction its arbitrary: st ws n k)
  case (Cons it its)
  then obtain w st1 ws1 where t: "run_turn cfg it st = Inr (w, st1)" "run_loop cfg its st1 = Inr (ws1, st')" "ws = w # ws1"
    by (auto simp: err_simps)
  from run_turn_delay [OF assms(1) Cons.prems(1) t(1)] obtain m l where
    m: "m \<le> n" "w = backoff_delay cfg m" "l \<le> Suc n" "rn_backoff st1 = backoff_delay cfg l" by blast
  show ?case
  proof (cases k)
    case 0
    with m t(3) show ?thesis by auto
  next
    case (Suc j)
    with Cons.IH [OF m(4) t(2), of j] Cons.prems(3) t(3) obtain q where "q \<le> l + j" "ws ! k = backoff_delay cfg q" by auto
    with m(3) Suc show ?thesis by (intro exI [of _ q]) simp
  qed
qed simp

section \<open>Negotiation\<close>

lemma gather_keeps_no_fallback: "gather k sels = Inl (o', e) \<Longrightarrow> ao_fallback o' = []"
  by (induction k sels rule: gather.induct)
    (auto simp: err_simps graceful_outcome_def retryable_outcome_def failed_outcome_def split: if_splits)

lemma pipeline_outcome_fallback: "pipeline_outcome progress env = (outcome, err) \<Longrightarrow> ao_fallback outcome = []"
  by (auto simp: pipeline_outcome_def failed_outcome_def Let_def split: if_splits option.splits process_cause.splits)

text \<open>The pipeline itself never asks for other candidates.\<close>

lemma runPipeline_fallback: "runPipeline cfg stages engine s = (s', outcome, err) \<Longrightarrow> ao_fallback outcome = []"
  by (auto simp: runPipeline_def Let_def failed_outcome_def dest: pipeline_outcome_fallback split: sum.splits prod.splits)

lemma runAttempt_fallback:
  assumes "runAttempt cfg env tip candidates s = (s', outcome, err)" and "ao_fallback outcome \<noteq> []"
  shows "\<exists>chosen. commonIntersection candidates chosen = Inr (ao_fallback outcome, False)"
proof -
  from assms obtain s0 r where b: "attempt_body cfg env tip candidates s0 = (s', r)" "attempt_cleanup env r = (outcome, err)"
    by (auto simp: runAttempt_def failed_outcome_def Let_def split: option.splits prod.splits)
  with assms(2) have r: "r = (outcome, err)"
    by (auto simp: attempt_cleanup_def failed_outcome_def split: if_splits)
  from b(1) [unfolded r] obtain chosen where g: "gather 0 (av_selections env) = Inr chosen"
    using assms(2) gather_keeps_no_fallback [of 0 "av_selections env" outcome err]
    by (auto simp: attempt_body_def split: sum.splits)
  from b(1) [unfolded r] g assms(2) have "commonIntersection candidates chosen = Inr (ao_fallback outcome, False)"
    by (auto simp: attempt_body_def failed_outcome_def retryable_outcome_def graceful_outcome_def
        dest: runPipeline_fallback split: sum.splits if_splits prod.splits option.splits)
  then show ?thesis by blast
qed

text \<open>A pass of the loop that ends because the relays selected different intersections.\<close>

definition mismatch_turn :: "sync_config \<Rightarrow> ('src, 'e) iteration \<Rightarrow> u64 \<Rightarrow> point list \<Rightarrow> run_state \<Rightarrow> run_state \<Rightarrow> bool" where
  "mismatch_turn cfg it snapshot candidates st st' \<longleftrightarrow>
     (\<exists>w state forced s0 s outcome err.
        run_turn cfg it st = Inr (w, st') \<and>
        State (it_queries it) (sk_handle (rn_sink st)) (sk_db (rn_sink st)) (cs_RollbackDepth cfg) = Inr state \<and>
        st_Snapshot state = snapshot \<and> choose_candidates state st = (candidates, forced) \<and>
        s0 = (rn_sink st)\<lparr>sk_metrics := observeAttempt (it_now it) (sk_metrics (rn_sink st))\<rparr> \<and>
        runAttempt cfg (it_env it) (st_Tip state) candidates s0 = (s, outcome, Some err) \<and> ao_fallback outcome \<noteq> [])"

lemma mismatch_shrinks:
  assumes "mismatch_turn cfg it snapshot candidates st st'"
  shows "suffix (rn_forced st') candidates" and "rn_forced st' \<noteq> []" and "length (rn_forced st') < length candidates"
    and "rn_forcedSnapshot st' = snapshot"
proof -
  from assms obtain w state forced s0 s outcome err where t: "run_turn cfg it st = Inr (w, st')"
      "State (it_queries it) (sk_handle (rn_sink st)) (sk_db (rn_sink st)) (cs_RollbackDepth cfg) = Inr state"
      "st_Snapshot state = snapshot" "choose_candidates state st = (candidates, forced)"
      "s0 = (rn_sink st)\<lparr>sk_metrics := observeAttempt (it_now it) (sk_metrics (rn_sink st))\<rparr>"
      "runAttempt cfg (it_env it) (st_Tip state) candidates s0 = (s, outcome, Some err)" "ao_fallback outcome \<noteq> []"
    by (auto simp: mismatch_turn_def)
  then have f: "rn_forced st' = ao_fallback outcome" "rn_forcedSnapshot st' = snapshot"
    by (auto simp: run_turn_def Let_def split: if_splits)
  obtain chosen where "commonIntersection candidates chosen = Inr (ao_fallback outcome, False)"
    using runAttempt_fallback [OF t(6,7)] by blast
  note d = common_differs [OF this]
  from d f show "suffix (rn_forced st') candidates" "rn_forced st' \<noteq> []" "length (rn_forced st') < length candidates"
    "rn_forcedSnapshot st' = snapshot" by simp_all
qed

inductive mismatches :: "sync_config \<Rightarrow> u64 \<Rightarrow> ('src, 'e) iteration list \<Rightarrow> point list \<Rightarrow> run_state \<Rightarrow> bool"
  for cfg snapshot where
  one_mismatch: "mismatch_turn cfg it snapshot candidates st st' \<Longrightarrow> mismatches cfg snapshot [it] candidates st"
| more_mismatches: "mismatch_turn cfg it snapshot candidates st st' \<Longrightarrow> mismatches cfg snapshot its candidates' st' \<Longrightarrow>
     mismatches cfg snapshot (it # its) candidates st"

lemma mismatches_forced:
  assumes "mismatches cfg snapshot its candidates st" and "rn_forced st \<noteq> []" and "rn_forcedSnapshot st = snapshot"
  shows "candidates = rn_forced st"
  using assms by (cases rule: mismatches.cases) (auto simp: mismatch_turn_def choose_candidates_def Let_def)

lemma mismatches_bounded: "mismatches cfg snapshot its candidates st \<Longrightarrow> length its < length candidates"
proof (induction rule: mismatches.induct)
  case (one_mismatch it candidates st st')
  note m = mismatch_shrinks [OF one_mismatch]
  then have "Suc 0 \<le> length (rn_forced st')" by (cases "rn_forced st'") auto
  with m(3) show ?case by simp
next
  case (more_mismatches it candidates st st' its candidates')
  note s = mismatch_shrinks [OF more_mismatches.hyps(1)]
  have "candidates' = rn_forced st'" using mismatches_forced [OF more_mismatches.hyps(2) s(2,4)] .
  with more_mismatches s(3) show ?case by simp
qed

section \<open>Validated configurations\<close>

lemma Validate_sync:
  assumes "Validate c = Inr ()"
  shows "\<forall>x \<in> set (sync_checks c). \<not> fst x" and "\<exists>rs. ParseRelays (formatRelays (cs_Relays c)) = Inr rs"
  using assms by (auto simp: Validate_def err_simps find_None_iff split: option.splits prod.splits)

lemma Validate_reconnect:
  "Validate c = Inr () \<Longrightarrow> 0 < cs_ReconnectInitial c \<and> cs_ReconnectInitial c \<le> cs_ReconnectMaximum c"
  using Validate_sync(1) by (fastforce simp: sync_checks_def)

section \<open>Reconciliation\<close>

lemma rewind_tip:
  assumes "rewind start t v = Some v'"
  shows "suffix v' v \<and> (case v' of [] \<Rightarrow> start | w # _ \<Rightarrow> w) = t"
proof (cases "t \<in> set v")
  case True
  then have "v' = dropWhile (\<lambda>x. x \<noteq> t) v" using assms by (simp add: rewind_def)
  moreover have "dropWhile (\<lambda>x. x \<noteq> t) v \<noteq> []" using True by (simp add: dropWhile_eq_Nil_conv)
  ultimately show ?thesis using hd_dropWhile [of "\<lambda>x. x \<noteq> t" v] by (auto simp: suffix_dropWhile split: list.splits)
next
  case False
  with assms show ?thesis by (auto simp: rewind_def split: if_splits)
qed

section \<open>Ends of attempts\<close>

text \<open>The first failure among stages that returned.\<close>

fun first_failure :: "'e stop_event list \<Rightarrow> 'e process_cause option" where
  "first_failure (StageReturned b (Some e) # xs) = Some (StageCause b e)"
| "first_failure (x # xs) = first_failure xs"
| "first_failure [] = None"

fun stage_event :: "'e stop_event \<Rightarrow> bool" where
  "stage_event (StageReturned b r) = True"
| "stage_event _ = False"

text \<open>
  The events of a pipeline that came to its end: the producer returns once and then cancels the
  process; \<open>before\<close> and \<open>after\<close> are the stages that returned before and after that cancellation.
\<close>

definition timeline :: "'e stop_event list \<Rightarrow> 'e stop_event list \<Rightarrow> bool \<Rightarrow> bool \<Rightarrow> 'e process_cause \<Rightarrow>
    'e stop_event list \<Rightarrow> bool" where
  "timeline evs before graceful retryable e after \<longleftrightarrow> list_all stage_event (before @ after) \<and>
     (\<exists>us vs. before = us @ vs \<and> evs = us @ ProducerReturned graceful retryable e # vs @ CancelProcess # after)"

lemma first_failure_append:
  "list_all stage_event xs \<Longrightarrow> first_failure (xs @ ys) = (case first_failure xs of Some c \<Rightarrow> Some c | None \<Rightarrow> first_failure ys)"
  by (induction xs rule: first_failure.induct) auto

lemma first_failure_None: "list_all stage_event xs \<Longrightarrow> first_failure xs = None \<longleftrightarrow> (\<forall>b x. StageReturned b (Some x) \<notin> set xs)"
  by (induction xs rule: first_failure.induct) auto

lemma first_failure_stage: "first_failure xs = Some c \<Longrightarrow> \<exists>b x. c = StageCause b x"
  by (induction xs rule: first_failure.induct) auto

lemma fold_stages:
  assumes "list_all stage_event xs"
  shows "ps_cause (fold pipeline_step xs s) = (case ps_cause s of Some c \<Rightarrow> Some c | None \<Rightarrow> first_failure xs) \<and>
    ps_attemptErr (fold pipeline_step xs s) = ps_attemptErr s \<and> ps_retryable (fold pipeline_step xs s) = ps_retryable s \<and>
    ps_stopping (fold pipeline_step xs s) = ps_stopping s"
  using assms
proof (induction xs arbitrary: s)
  case (Cons x xs)
  then obtain b r where x: "x = StageReturned b r" by (cases x) auto
  with Cons show ?case by (cases b; cases r) (auto simp: stage_cause_def split: option.splits)
qed (simp split: option.splits)

lemma silent_step:
  assumes "ps_cause s = None \<Longrightarrow> ps_mapper s = None \<and> ps_batcher s = None" and "ps_cause (pipeline_step x s) = None"
  shows "ps_mapper (pipeline_step x s) = None \<and> ps_batcher (pipeline_step x s) = None"
  using assms
  by (cases "(x, s)" rule: pipeline_step.cases) (auto simp: stage_cause_def stage_error_def split: option.splits if_splits)

text \<open>While no cause is recorded no stage has returned an error: the checks of the stage results behind the cause cannot fail.\<close>

lemma silent_end:
  "ps_cause (pipeline_end env) = None \<Longrightarrow> ps_mapper (pipeline_end env) = None \<and> ps_batcher (pipeline_end env) = None"
proof -
  have "(ps_cause s = None \<Longrightarrow> ps_mapper s = None \<and> ps_batcher s = None) \<Longrightarrow> ps_cause (fold pipeline_step xs s) = None \<Longrightarrow>
      ps_mapper (fold pipeline_step xs s) = None \<and> ps_batcher (fold pipeline_step xs s) = None" for xs and s :: "'e pipeline_state"
  proof (induction xs arbitrary: s)
    case (Cons x xs)
    show ?case unfolding fold_simps by (rule Cons.IH) (use silent_step [of s x] Cons.prems in auto)
  qed simp
  from this [of pipeline_start] show "ps_cause (pipeline_end env) = None \<Longrightarrow> ?thesis" by (simp add: pipeline_end_def pipeline_start_def)
qed

lemma pipeline_end_timeline:
  assumes "timeline (pv_events env) before graceful retryable e after"
  shows "ps_cause (pipeline_end env) = (case first_failure before of Some c \<Rightarrow> Some c
        | None \<Rightarrow> if graceful then first_failure after else Some e)"
    and "ps_attemptErr (pipeline_end env) = None \<longleftrightarrow> graceful" and "ps_retryable (pipeline_end env) = retryable"
proof -
  from assms obtain us vs where before: "before = us @ vs" and st: "list_all stage_event us" "list_all stage_event vs" "list_all stage_event after"
    and evs: "pv_events env = us @ ProducerReturned graceful retryable e # vs @ CancelProcess # after"
    by (auto simp: timeline_def)
  let ?a = "fold pipeline_step us pipeline_start"
  let ?b = "pipeline_step (ProducerReturned graceful retryable e) ?a"
  let ?c = "fold pipeline_step vs ?b"
  let ?d = "pipeline_step CancelProcess ?c"
  have d: "pipeline_end env = fold pipeline_step after ?d" by (simp add: pipeline_end_def evs)
  have a: "ps_cause ?a = first_failure us" "ps_stopping ?a = None" "ps_attemptErr ?a = None"
    using fold_stages [OF st(1), of pipeline_start] by (simp_all add: pipeline_start_def)
  note b = fold_stages [OF st(2), of ?b]
  note c = fold_stages [OF st(3), of ?d]
  show "ps_cause (pipeline_end env) = (case first_failure before of Some c \<Rightarrow> Some c
        | None \<Rightarrow> if graceful then first_failure after else Some e)"
    unfolding d using a b c by (auto simp: before first_failure_append [OF st(1)] split: option.splits if_splits)
  show "ps_attemptErr (pipeline_end env) = None \<longleftrightarrow> graceful" and "ps_retryable (pipeline_end env) = retryable"
    unfolding d using a b c by (auto split: option.splits if_splits)
qed

text \<open>
  The observations of an attempt fit together: unless the shutdown timeout cut it short the pipeline
  came to its end, and a parent context that was done when the producer returned is still done later.
\<close>

definition orderly :: "('src, 'e) attempt_env \<Rightarrow> bool" where
  "orderly env \<longleftrightarrow> (\<forall>engine s. New (av_sources env) = Inr engine \<longrightarrow>
     (let p = snd (av_stages env engine s) in pv_shutdownExpired p \<or>
        (\<exists>before graceful retryable e after. timeline (pv_events p) before graceful retryable e after \<and>
           (graceful \<longrightarrow> pv_parentAfter p))))"

text \<open>The parent context was seen cancelled somewhere during the attempt.\<close>

definition parent_seen :: "('src, 'e) attempt_env \<Rightarrow> bool" where
  "parent_seen env \<longleftrightarrow> list_ex snd (av_selections env) \<or> av_parentAfterReconcile env \<or>
     (\<exists>engine s. New (av_sources env) = Inr engine \<and> pv_parentAfter (snd (av_stages env engine s)))"

text \<open>A result the loop can act on: graceful, or with an error that says what happened.\<close>

definition decided :: "'e attempt_result \<Rightarrow> bool" where
  "decided r \<longleftrightarrow> snd r \<noteq> Some EndedWithoutResult \<and> (snd r = None \<longrightarrow> ao_graceful (fst r))"

lemma cause_error_definite [simp]: "cause_error c \<noteq> EndedWithoutResult"
  by (cases c) simp_all

lemma gather_decided: "gather k sels = Inl r \<Longrightarrow> decided r \<and> (ao_graceful (fst r) \<longrightarrow> list_ex snd sels)"
  by (induction k sels rule: gather.induct)
    (auto simp: decided_def err_simps graceful_outcome_def retryable_outcome_def failed_outcome_def split: if_splits)

lemma pipeline_decided:
  assumes "pv_shutdownExpired env \<or> (\<exists>before graceful retryable e after.
      timeline (pv_events env) before graceful retryable e after \<and> (graceful \<longrightarrow> pv_parentAfter env))"
  shows "decided (pipeline_outcome progress env) \<and> (ao_graceful (fst (pipeline_outcome progress env)) \<longrightarrow> pv_parentAfter env)"
proof (cases "pv_shutdownExpired env")
  case True
  then show ?thesis by (simp add: decided_def pipeline_outcome_def failed_outcome_def Let_def)
next
  case False
  with assms obtain before graceful retryable e after where t: "timeline (pv_events env) before graceful retryable e after"
    and g: "graceful \<longrightarrow> pv_parentAfter env" by blast
  show ?thesis
    using False g silent_end [of env] pipeline_end_timeline(2) [OF t]
    by (cases "ps_attemptErr (pipeline_end env)")
      (auto simp: decided_def pipeline_outcome_def failed_outcome_def Let_def split: option.splits process_cause.splits)
qed

lemma runPipeline_decided:
  assumes "runPipeline cfg (av_stages env) engine s = (s', r)" and "orderly env" and "New (av_sources env) = Inr engine"
  shows "decided r \<and> (ao_graceful (fst r) \<longrightarrow> parent_seen env)"
proof -
  let ?p = "snd (av_stages env engine s)"
  have d: "decided (pipeline_outcome progress ?p) \<and> (ao_graceful (fst (pipeline_outcome progress ?p)) \<longrightarrow> pv_parentAfter ?p)" for progress
    using assms(2,3) by (intro pipeline_decided) (simp add: orderly_def Let_def)
  have seen: "pv_parentAfter ?p \<Longrightarrow> parent_seen env" using assms(3) by (auto simp: parent_seen_def)
  show ?thesis
  proof (cases "NewByteBudget (cs_AgreedQueueBytes cfg)")
    case (Inl e)
    with assms(1) show ?thesis by (auto simp: runPipeline_def Let_def failed_outcome_def decided_def)
  next
    case (Inr budget)
    then have "r = pipeline_outcome (sk_progressed (fst (av_stages env engine s))) ?p"
      using assms(1) by (simp add: runPipeline_def Let_def case_prod_beta)
    with d seen show ?thesis by simp
  qed
qed

lemma attempt_body_decided:
  assumes "attempt_body cfg env tip candidates s = (s', r)" and "orderly env"
  shows "decided r \<and> (ao_graceful (fst r) \<longrightarrow> parent_seen env)"
proof (cases "gather 0 (av_selections env)")
  case (Inl x)
  with assms(1) gather_decided [OF Inl] show ?thesis by (simp add: attempt_body_def parent_seen_def)
next
  case (Inr chosen)
  with assms show ?thesis
    by (auto simp: attempt_body_def decided_def failed_outcome_def retryable_outcome_def graceful_outcome_def parent_seen_def
        dest!: runPipeline_decided [OF _ assms(2)] split: sum.splits if_splits prod.splits option.splits)
qed

lemma runAttempt_decided:
  assumes "runAttempt cfg env tip candidates s = (s', r)" and "orderly env"
  shows "decided r \<and> (ao_graceful (fst r) \<longrightarrow> parent_seen env)"
proof (cases "find_index (\<lambda>x. x \<noteq> None) (av_newSession env)")
  case (Some index)
  with assms(1) show ?thesis by (auto simp: runAttempt_def Let_def decided_def failed_outcome_def)
next
  case None
  with assms(1) obtain u x where b: "attempt_body cfg env tip candidates (s\<lparr>sk_progressed := False\<rparr>) = (u, x)" "r = attempt_cleanup env x"
    by (auto simp: runAttempt_def Let_def split: prod.splits)
  from attempt_body_decided [OF b(1) assms(2)] show ?thesis
    by (auto simp: b(2) attempt_cleanup_def decided_def failed_outcome_def)
qed

lemma run_turn_decided:
  assumes "run_turn cfg it st = Inl (err, s)" and "orderly (it_env it)"
  shows "err \<noteq> Some EndedWithoutResult \<and>
    (err = None \<longrightarrow> it_ctxDone it \<or> it_ctxDoneAfter it \<or> it_interrupted it \<or> parent_seen (it_env it))"
proof (cases "it_ctxDone it")
  case True
  with assms(1) show ?thesis by (simp add: run_turn_def)
next
  case False
  show ?thesis
  proof (cases "State (it_queries it) (sk_handle (rn_sink st)) (sk_db (rn_sink st)) (cs_RollbackDepth cfg)")
    case (Inl e)
    with False assms(1) show ?thesis by (auto simp: run_turn_def split: if_splits)
  next
    case (Inr state)
    obtain candidates forced where c: "choose_candidates state st = (candidates, forced)" by (cases "choose_candidates state st")
    let ?s = "(rn_sink st)\<lparr>sk_metrics := observeAttempt (it_now it) (sk_metrics (rn_sink st))\<rparr>"
    obtain u outcome x where r: "runAttempt cfg (it_env it) (st_Tip state) candidates ?s = (u, outcome, x)"
      by (cases "runAttempt cfg (it_env it) (st_Tip state) candidates ?s") auto
    from runAttempt_decided [OF r assms(2)] False Inr c r assms(1) show ?thesis
      by (auto simp: run_turn_def decided_def Let_def split: if_splits)
  qed
qed

lemma run_loop_decided:
  assumes "run_loop cfg its st = Inl (err, s)" and "\<forall>it \<in> set its. orderly (it_env it)"
  shows "err \<noteq> Some EndedWithoutResult \<and>
    (err = None \<longrightarrow> (\<exists>it \<in> set its. it_ctxDone it \<or> it_ctxDoneAfter it \<or> it_interrupted it \<or> parent_seen (it_env it)))"
  using assms
proof (induction its arbitrary: st)
  case (Cons it its)
  show ?case
  proof (cases "run_turn cfg it st")
    case (Inl r)
    with Cons.prems run_turn_decided [of cfg it st err s] show ?thesis by auto
  next
    case (Inr r)
    with Cons.prems have "run_loop cfg its (snd r) = Inl (err, s)"
      by (cases r; cases "run_loop cfg its (snd r)") auto
    with Cons.IH [of "snd r"] Cons.prems(2) show ?thesis by auto
  qed
qed simp

section \<open>Shutdown\<close>

text \<open>The sessions ended in time, and the stages and the producer wound down after the cancellation.\<close>

definition quiet_stop :: "('src, 'e) attempt_env \<Rightarrow> bool" where
  "quiet_stop env \<longleftrightarrow> av_cleaned env \<and> list_all (\<lambda>x. x = None) (av_newSession env) \<and>
     (\<forall>engine s. let p = snd (av_stages env engine s) in \<not> pv_shutdownExpired p \<and> pv_parentAfter p \<and>
        (\<exists>before retryable e after. timeline (pv_events p) before True retryable e after \<and>
           first_failure (before @ after) = None))"

definition before_pipeline :: "'e run_error \<Rightarrow> bool" where
  "before_pipeline e \<longleftrightarrow> (case e of RecoverFailed _ \<Rightarrow> True | NoCandidates \<Rightarrow> True | IntersectionFailed _ \<Rightarrow> True
     | ReconcileFailed _ \<Rightarrow> True | EngineFailed _ \<Rightarrow> True | BudgetFailed _ \<Rightarrow> True | _ \<Rightarrow> False)"

lemma quiet_pipeline:
  assumes "\<not> pv_shutdownExpired p" and "pv_parentAfter p" and "timeline (pv_events p) before True retryable e after"
    and "first_failure (before @ after) = None"
  shows "pipeline_outcome progress p = (failed_outcome\<lparr>ao_progress := progress, ao_graceful := True\<rparr>, None)"
proof -
  have "list_all stage_event before" using assms(3) by (simp add: timeline_def)
  then have "ps_cause (pipeline_end p) = None"
    using pipeline_end_timeline(1) [OF assms(3)] assms(4) by (simp add: first_failure_append split: option.splits)
  with silent_end [OF this] assms(1,2) show ?thesis by (simp add: pipeline_outcome_def Let_def)
qed

lemma quiet_runPipeline:
  assumes "runPipeline cfg (av_stages env) engine s = (s', outcome, err)" and "quiet_stop env"
  shows "err = None \<or> (\<exists>e. err = Some e \<and> before_pipeline e \<and> \<not> ao_retryable outcome)"
proof -
  let ?p = "snd (av_stages env engine s)"
  from assms(2) obtain before retryable e after where "\<not> pv_shutdownExpired ?p" "pv_parentAfter ?p"
      "timeline (pv_events ?p) before True retryable e after" "first_failure (before @ after) = None"
    by (fastforce simp: quiet_stop_def Let_def)
  note q = quiet_pipeline [OF this]
  with assms(1) show ?thesis
    by (auto simp: runPipeline_def Let_def before_pipeline_def failed_outcome_def split: sum.splits prod.splits)
qed

lemma gather_Inl_err: "gather k sels = Inl (outcome, Some e) \<Longrightarrow> ao_retryable outcome \<and> \<not> ao_graceful outcome"
  by (induction k sels rule: gather.induct)
    (auto simp: err_simps graceful_outcome_def retryable_outcome_def failed_outcome_def split: if_splits)

lemma quiet_attempt:
  assumes "runAttempt cfg env tip candidates s = (s', outcome, Some e)" and "quiet_stop env"
  shows "before_pipeline e \<or> ao_retryable outcome \<and> \<not> ao_graceful outcome"
proof -
  have none: "find_index (\<lambda>x. x \<noteq> None) (av_newSession env) = None"
    using assms(2) by (auto simp: quiet_stop_def find_index_None_iff list_all_iff)
  have "attempt_body cfg env tip candidates (s\<lparr>sk_progressed := False\<rparr>) = (s', outcome, Some e)"
    using assms none by (auto simp: runAttempt_def attempt_cleanup_def quiet_stop_def Let_def split: prod.splits)
  then show ?thesis
    by (auto simp: attempt_body_def before_pipeline_def retryable_outcome_def failed_outcome_def
        dest: gather_Inl_err quiet_runPipeline [OF _ assms(2)] split: sum.splits if_splits prod.splits option.splits)
qed

lemma quiet_orderly: "quiet_stop env \<Longrightarrow> orderly env"
  unfolding quiet_stop_def orderly_def Let_def by blast

lemma quiet_turn:
  assumes "run_turn cfg it st = Inl (Some e, s)" and "quiet_stop (it_env it)"
  shows "before_pipeline e"
proof -
  from run_turn_decided [OF assms(1) quiet_orderly [OF assms(2)]] have "e \<noteq> EndedWithoutResult" by simp
  with assms show ?thesis
    by (auto simp: run_turn_def Let_def before_pipeline_def dest!: quiet_attempt [OF _ assms(2)] split: if_splits sum.splits prod.splits)
qed

section \<open>Retries\<close>

definition relay_stopped :: "('e selection \<times> bool) list \<Rightarrow> bool" where
  "relay_stopped sels \<longleftrightarrow> (\<exists>x \<in> set sels. \<not> snd x \<and> (\<forall>p. fst x \<noteq> Selected p))"

definition relays_differ :: "('e selection \<times> bool) list \<Rightarrow> point list \<Rightarrow> bool" where
  "relays_differ sels fallback \<longleftrightarrow> (\<exists>chosen. map fst sels = map Selected chosen \<and> set chosen \<noteq> {hd chosen} \<and>
     fallback \<noteq> [] \<and> hd fallback \<in> set chosen)"

definition relay_ended :: "('src, 'e) attempt_env \<Rightarrow> bool" where
  "relay_ended env \<longleftrightarrow> (\<exists>engine s before e after. let p = snd (av_stages env engine s) in
     \<not> pv_shutdownExpired p \<and> \<not> pv_parentAfter p \<and> timeline (pv_events p) before False True e after \<and>
     (\<forall>b x. StageReturned b (Some x) \<notin> set before) \<and> (\<forall>b x. e \<noteq> StageCause b x) \<and> e \<noteq> TimeoutCause)"

lemma gather_retries: "gather k sels = Inl (outcome, err) \<Longrightarrow> ao_retryable outcome \<Longrightarrow> relay_stopped sels"
  by (induction k sels rule: gather.induct)
    (auto simp: relay_stopped_def err_simps graceful_outcome_def retryable_outcome_def failed_outcome_def split: if_splits)

lemma gather_Inr: "gather k sels = Inr chosen \<Longrightarrow> map fst sels = map Selected chosen"
  by (induction k sels arbitrary: chosen rule: gather.induct) (auto simp: err_simps split: if_splits)

lemma runPipeline_retries:
  assumes "runPipeline cfg (av_stages env) engine s = (s', outcome, err)" and "ao_retryable outcome" and "orderly env"
    and "New (av_sources env) = Inr engine"
  shows "relay_ended env"
proof -
  let ?p = "snd (av_stages env engine s)" and ?progress = "sk_progressed (fst (av_stages env engine s))"
  have o: "ao_retryable (fst (pipeline_outcome ?progress ?p))"
    using assms(1,2) by (auto simp: runPipeline_def Let_def failed_outcome_def split: sum.splits prod.splits)
  then have p: "\<not> pv_shutdownExpired ?p" "\<not> pv_parentAfter ?p" "ps_retryable (pipeline_end ?p)"
      "\<forall>b x. ps_cause (pipeline_end ?p) \<noteq> Some (StageCause b x)" "ps_cause (pipeline_end ?p) \<noteq> Some TimeoutCause"
    by (auto simp: pipeline_outcome_def failed_outcome_def Let_def split: if_splits option.splits process_cause.splits)
  with assms(3,4) obtain before retryable e after where t: "timeline (pv_events ?p) before False retryable e after"
    by (auto simp: orderly_def Let_def)
  note c = pipeline_end_timeline [OF t]
  have f: "first_failure before = None"
    using c(1) p(4) first_failure_stage [of before] by (cases "first_failure before") auto
  moreover have "list_all stage_event before" using t by (simp add: timeline_def)
  ultimately have "\<forall>b x. StageReturned b (Some x) \<notin> set before" by (simp add: first_failure_None)
  with t p c f show ?thesis unfolding relay_ended_def Let_def by (intro exI conjI) auto
qed

lemma run_turn_retries:
  assumes "run_turn cfg it st = Inr (w, st')" and "orderly (it_env it)"
  shows "av_cleaned (it_env it) \<and> \<not> it_interrupted it \<and>
    (relay_stopped (av_selections (it_env it)) \<or> relays_differ (av_selections (it_env it)) (rn_forced st') \<or> relay_ended (it_env it))"
proof (rule run_turn_cont [OF assms(1)])
  fix state candidates forced s0 s outcome err
  let ?env = "it_env it"
  assume r: "runAttempt cfg ?env (st_Tip state) candidates s0 = (s, outcome, Some err)" and rt: "ao_retryable outcome"
    and f: "rn_forced st' = (if ao_fallback outcome \<noteq> [] then ao_fallback outcome else forced)"
  have i: "\<not> it_interrupted it"
    using assms(1) by (auto simp: run_turn_def Let_def split: if_splits sum.splits prod.splits)
  from r rt have c: "av_cleaned ?env" and b: "attempt_body cfg ?env (st_Tip state) candidates (s0\<lparr>sk_progressed := False\<rparr>) = (s, outcome, Some err)"
    by (auto simp: runAttempt_def attempt_cleanup_def failed_outcome_def Let_def split: option.splits prod.splits if_splits)
  have "relay_stopped (av_selections ?env) \<or> relays_differ (av_selections ?env) (rn_forced st') \<or> relay_ended ?env"
  proof (cases "gather 0 (av_selections ?env)")
    case (Inl x)
    with b rt gather_retries [of 0 "av_selections ?env" outcome] show ?thesis by (auto simp: attempt_body_def)
  next
    case (Inr chosen)
    show ?thesis
    proof (cases "\<exists>fallback. commonIntersection candidates chosen = Inr (fallback, False)")
      case True
      then obtain fallback where d: "commonIntersection candidates chosen = Inr (fallback, False)" by blast
      with b Inr have "ao_fallback outcome = fallback" by (auto simp: attempt_body_def retryable_outcome_def)
      with common_differs [OF d] gather_Inr [OF Inr] f show ?thesis by (auto simp: relays_differ_def)
    next
      case False
      with b Inr rt have "relay_ended ?env"
        by (auto simp: attempt_body_def failed_outcome_def graceful_outcome_def
            dest!: runPipeline_retries [OF _ _ assms(2)] split: sum.splits if_splits prod.splits option.splits)
      then show ?thesis by blast
    qed
  qed
  with c i show ?thesis by blast
qed

section \<open>Properties\<close>

text \<open>
  C25. The intersections the relays selected are settled on exactly when each is one of the candidates
  offered. They count as the same when they are all equal; otherwise the next candidates are the
  candidates from the oldest selection on: a proper, non-empty suffix that begins with a selected
  point, and no selection lies behind its first point.
\<close>

theorem intersection_settled:
  "case commonIntersection candidates chosen of
     Inl e \<Rightarrow> \<not> (chosen \<noteq> [] \<and> set chosen \<subseteq> set candidates)
   | Inr (fallback, same) \<Rightarrow> chosen \<noteq> [] \<and> set chosen \<subseteq> set candidates \<and>
       (if same then set chosen = {hd chosen} \<and> fallback = []
        else set chosen \<noteq> {hd chosen} \<and> suffix fallback candidates \<and> fallback \<noteq> [] \<and>
          length fallback < length candidates \<and> hd fallback \<in> set chosen \<and>
          set chosen \<subseteq> set (take (Suc (length candidates - length fallback)) candidates))"
proof (cases "commonIntersection candidates chosen")
  case (Inl e)
  then show ?thesis using common_defined [of chosen candidates] by auto
next
  case (Inr r)
  obtain fallback same where r: "r = (fallback, same)" by (cases r)
  show ?thesis
  proof (cases same)
    case True
    with Inr r common_same [of candidates chosen fallback] show ?thesis by auto
  next
    case False
    with Inr r common_differs [of candidates chosen fallback] set_take_subset [of _ candidates] show ?thesis by auto
  qed
qed

text \<open>
  C30. The delay before the next attempt is the initial delay doubled at most once for each earlier
  attempt, and never more than the maximum: doubling neither overflows nor exceeds it.
\<close>

theorem retry_delays_bounded:
  assumes "Validate cfg = Inr ()" and "cs_ReconnectMaximum cfg \<le> max_int64"
    and "run_loop cfg its (run_start cfg s) = Inr (ws, st)" and "k < length ws"
  shows "\<exists>m \<le> k. ws ! k = min (cs_ReconnectInitial cfg * 2 ^ m) (cs_ReconnectMaximum cfg)"
proof -
  have ok: "delays_ok cfg" using Validate_reconnect [OF assms(1)] assms(2) by (simp add: delays_ok_def)
  then have "rn_backoff (run_start cfg s) = backoff_delay cfg 0" by (simp add: run_start_def backoff_delay_0)
  from run_loop_delays [OF ok this assms(3,4)] show ?thesis by (simp add: backoff_delay_def)
qed

text \<open>
  C26. A relay set that keeps selecting different intersections is negotiated down in fewer rounds than
  there were candidates: while the durable snapshot does not change, every mismatch offers strictly
  fewer candidates than the one before.
\<close>

theorem negotiation_terminates:
  assumes "mismatches cfg snapshot its candidates st"
  shows "length its < length candidates"
  using assms by (rule mismatches_bounded)

text \<open>
  C28. The loop never ends without saying why: whatever the order in which the stages, the producer and the
  cancellation come, the error \<^emph>\<open>ended without a result\<close> is never returned, and the loop returns without
  an error only when the cancellation of the process was seen.
\<close>

theorem clean_return_needs_cancellation:
  assumes "run_loop cfg its st = Inl (err, s)" and "\<forall>it \<in> set its. orderly (it_env it)"
  shows "err \<noteq> Some EndedWithoutResult \<and>
    (err = None \<longrightarrow> (\<exists>it \<in> set its. it_ctxDone it \<or> it_ctxDoneAfter it \<or> it_interrupted it \<or> parent_seen (it_env it)))"
  using assms by (rule run_loop_decided)

text \<open>
  C40. A process that is told to stop and finds nothing wrong stops without an error: when the sessions
  ended in time and the producer and the stages wound down after the cancellation, no stage failing, a
  pass of the loop that came to the pipeline returns without an error. It returns an error only for
  what came before the pipeline, and goes on only when a session ended without an intersection or the
  relays selected different ones.
\<close>

theorem quiet_shutdown_is_clean:
  assumes "quiet_stop (it_env it)"
  shows "case run_turn cfg it st of
     Inl (err, s) \<Rightarrow> err = None \<or> (\<exists>e. err = Some e \<and> before_pipeline e)
   | Inr (w, st') \<Rightarrow> relay_stopped (av_selections (it_env it)) \<or> relays_differ (av_selections (it_env it)) (rn_forced st')"
proof (cases "run_turn cfg it st")
  case (Inl r)
  then show ?thesis by (cases r; cases "fst r") (auto dest: quiet_turn [OF _ assms])
next
  case (Inr r)
  have "\<not> relay_ended (it_env it)" using assms by (simp add: quiet_stop_def relay_ended_def Let_def)
  with Inr run_turn_retries [OF _ quiet_orderly [OF assms]] show ?thesis by (cases r) auto
qed

text \<open>
  C27. Only failures of the relays are retried. When the loop goes on, the sessions were stopped in time and
  one of three things happened: a session ended or the attempt was cancelled before the intersection was
  found, the relays selected different intersections, or the producer ended for a retryable reason
  that became the cause of the end before any stage had failed. A stage that fails first ends the process.
\<close>

theorem only_relay_failures_retried:
  assumes "run_turn cfg it st = Inr (w, st')" and "orderly (it_env it)"
  shows "av_cleaned (it_env it) \<and> \<not> it_interrupted it \<and>
    (relay_stopped (av_selections (it_env it)) \<or> relays_differ (av_selections (it_env it)) (rn_forced st') \<or> relay_ended (it_env it))"
  using assms by (rule run_turn_retries)

text \<open>
  C13. Before the pipeline starts the durable chain ends in the intersection all relays selected: when
  the reconciliation succeeds, recovery reads back a chain that is an older part of the durable one
  and whose tip is the selected point; when it was the tip already, nothing changed.
\<close>

theorem reconciled_to_intersection:
  assumes "writer_run i (sk_handle s) (sk_db s) chain" and "cs_RollbackDepth cfg \<noteq> 0"
    and "reconcile cfg (chain_tip (di_Start i) chain) p relays now s = (s', None)"
  shows "\<exists>chain'. State all_queries_ok (sk_handle s') (sk_db s') (cs_RollbackDepth cfg) =
        Inr (expected_state i (sk_db s') chain' (cs_RollbackDepth cfg)) \<and>
      suffix (chain_wires chain') (chain_wires chain) \<and> wire (chain_tip (di_Start i) chain') = wire p \<and>
      (p = chain_tip (di_Start i) chain \<longrightarrow> s' = s)"
proof -
  have h: "sh_identity (sk_handle s) = Some i" "handle_inv (sk_handle s) (sk_db s) chain"
    using writer_run_inv [OF assms(1)] by auto
  show ?thesis
  proof (cases "p = chain_tip (di_Start i) chain")
    case True
    with assms(3) have "s' = s" by (simp add: reconcile_def)
    with True State_of_handle [OF h(2,1) assms(2)] show ?thesis by auto
  next
    case False
    have "sink_view i s (chain_wires chain)" using h by (auto simp: sink_view_def)
    from store_sink.rollback_law [OF this] False assms(3) obtain v' where
      v': "rewind (wire (di_Start i)) (wire p) (chain_wires chain) = Some v'" "sink_view i s' v'"
      by (fastforce simp: reconcile_def)
    then obtain chain' where c: "sh_identity (sk_handle s') = Some i" "handle_inv (sk_handle s') (sk_db s') chain'"
        "v' = chain_wires chain'" by (auto simp: sink_view_def)
    have "suffix v' (chain_wires chain) \<and> (case v' of [] \<Rightarrow> wire (di_Start i) | w # _ \<Rightarrow> w) = wire p"
      by (rule rewind_tip [OF v'(1)])
    then have "suffix (chain_wires chain') (chain_wires chain)" "wire (chain_tip (di_Start i) chain') = wire p"
      using c(3) by (auto simp: chain_tip_def chain_wires_def split: list.splits)
    with False State_of_handle [OF c(2,1) assms(2)] show ?thesis by blast
  qed
qed

text \<open>
  C29. A validated configuration starts every component: the mapper's, the batcher's, the budget's and
  the rollback's own checks accept the values the runner hands them, so none of these errors can occur.
\<close>

theorem validated_configuration_starts_components:
  assumes "Validate cfg = Inr ()"
  shows "mapper_checks False False (mapper_of cfg) = (None :: ('e, 'f) mapper_error option) \<and>
    go_config (mapper_of cfg) \<and> go_limits (limits_of cfg) \<and> 2 \<le> length (cs_Relays cfg) \<and>
    (\<exists>b. NewByteBudget (cs_AgreedQueueBytes cfg) = Inr b) \<and> cs_RollbackDepth cfg \<noteq> 0"
proof -
  have c: "\<forall>x \<in> set (sync_checks cfg). \<not> fst x" using assms by (rule Validate_sync)
  then have r: "1 \<le> cs_NormalizeWorkers cfg" "cs_NormalizeWorkers cfg \<le> cs_ReorderSize cfg" "cs_ReorderSize cfg \<le> 4096"
      "2 ^ 20 \<le> cs_ReorderBytes cfg" "2 ^ 20 \<le> cs_AgreedQueueBytes cfg" "2 \<le> length (cs_Relays cfg)"
    and l: "1 \<le> cs_BatchBlocks cfg" "cs_BatchBlocks cfg \<le> 4096" "2 ^ 20 \<le> cs_BatchBytes cfg" "cs_BatchBytes cfg \<le> 4 * 2 ^ 30"
      "\<not> cs_BatchRows cfg < 1" "0 < cs_BatchAge cfg" "cs_RollbackDepth cfg \<noteq> 0"
    by (auto simp: sync_checks_def)
  have "cs_BatchRows cfg \<noteq> 0" using l(5) by (auto simp: word_less_nat_alt)
  with r l show ?thesis
    by (auto simp: mapper_checks_def mapper_of_def go_config_def go_limits_def limits_of_def limits_positive_def
        NewByteBudget_def max_int64_def)
qed

section \<open>Examples\<close>

definition sample_config :: sync_config where
  "sample_config = \<lparr>cs_Database = \<lparr>cd_Host = ''h'', cd_Port = 9000, cd_User = ''u'', cd_Password = ''p'',
       cd_Name = ''clicksync'', cd_OpenConn = 16\<rparr>,
     cs_NetworkName = ''mainnet'', cs_NetworkMagic = 764824073, cs_Relays = sample_relays, cs_Start = origin_point,
     cs_LockPath = ''l'', cs_DialTimeout = 5, cs_ProtocolTimeout = 5, cs_ShutdownTimeout = 5, cs_ReconnectInitial = 2,
     cs_ReconnectMaximum = 7, cs_BlockFetchRangeBlocks = 16, cs_BlockFetchQueueSize = 16, cs_RelayQueueSize = 16,
     cs_AgreedQueueSize = 16, cs_AgreedQueueBytes = 2 ^ 20, cs_NormalizeWorkers = 2, cs_ReorderSize = 4,
     cs_ReorderBytes = 2 ^ 20, cs_BatchBlocks = 8, cs_BatchBytes = 2 ^ 20, cs_BatchRows = 100, cs_BatchAge = 9,
     cs_RollbackDepth = 5\<rparr>"

lemma sample_config_valid: "Validate sample_config = Inr ()"
proof -
  have "ParseRelays (formatRelays sample_relays) = Inr sample_relays"
    by (rule ParseRelays_again [OF sample_relays_parsed]) (simp add: sample_relays_def is_space_def)
  then show ?thesis
    by (simp add: Validate_def Validate_database_def sample_config_def sync_checks_def TrimSpace_def is_space_def
        sample_relays_def word_le_nat_alt word_less_nat_alt)
qed

theorem validated_configuration_starts_components_witness:
  "mapper_checks False False (mapper_of sample_config) = (None :: (unit, unit) mapper_error option) \<and>
   go_config (mapper_of sample_config) \<and> go_limits (limits_of sample_config) \<and> 2 \<le> length (cs_Relays sample_config) \<and>
   (\<exists>b. NewByteBudget (cs_AgreedQueueBytes sample_config) = Inr b) \<and> cs_RollbackDepth sample_config \<noteq> 0"
  by (rule validated_configuration_starts_components [OF sample_config_valid])

text \<open>A store with two published blocks; the relays are offered both and the start.\<close>

definition published_sink :: sink_state where
  "published_sink = sample_sink\<lparr>sk_handle := fst sample_published, sk_db := fst (snd sample_published)\<rparr>"

text \<open>A relay fails, and both stages are cancelled; and a shutdown in which all end well.\<close>

definition sample_pipeline_env :: "nat pipeline_env" where
  "sample_pipeline_env = \<lparr>pv_events = [ProducerReturned False True (ProducerCause 3), CancelProcess, StageReturned False (Some 1),
     StageReturned True (Some 2)], pv_shutdownExpired = False, pv_parentAfter = False\<rparr>"

definition stopped_pipeline_env :: "nat pipeline_env" where
  "stopped_pipeline_env = \<lparr>pv_events = [ProducerReturned True True (ProducerCause 3), CancelProcess, StageReturned False None,
     StageReturned True None], pv_shutdownExpired = False, pv_parentAfter = True\<rparr>"

definition sample_attempt :: "point list \<Rightarrow> (unit, nat) attempt_env" where
  "sample_attempt chosen = \<lparr>av_newSession = map (\<lambda>_. None) chosen, av_selections = map (\<lambda>p. (Selected p, False)) chosen,
     av_identities = [], av_now = 0, av_parentAfterReconcile = False, av_sources = map (\<lambda>_. Some ()) chosen,
     av_stages = (\<lambda>engine s. (s, sample_pipeline_env)), av_cleaned = True, av_parentAtCleanup = False\<rparr>"

definition sample_iteration :: "point list \<Rightarrow> (unit, nat) iteration" where
  "sample_iteration chosen = \<lparr>it_ctxDone = False, it_queries = all_queries_ok, it_ctxDoneAfter = False,
     it_env = sample_attempt chosen, it_now = 0, it_interrupted = False\<rparr>"

lemma published_state:
  "State all_queries_ok (fst sample_published) (fst (snd sample_published)) 5 =
     Inr \<lparr>st_Dataset = sample_identity, st_Snapshot = 2, st_Tip = sample_point 3 11,
       st_Canonical = rev sample_blocks,
       st_Intersections = [sample_point 3 11, sample_point 2 10, origin_point]\<rparr>"
  by (simp add: sample_published_ok sample_rows_def sample_blocks_def all_queries_ok_def sample_defs sample_point_def
      origin_point_def rollback_eval two_le_one_u64)

definition after_mismatch :: "int \<Rightarrow> point list \<Rightarrow> u64 \<Rightarrow> run_state" where
  "after_mismatch backoff forced n = \<lparr>rn_backoff = backoff, rn_forced = forced, rn_forcedSnapshot = (if forced = [] then 0 else 2),
     rn_sink = published_sink\<lparr>sk_metrics := Some (zero_metrics\<lparr>mt_startedAt := (if n = 0 then None else Some 0),
       mt_attempts := n, mt_reconnects := n, mt_mismatches := n\<rparr>)\<rparr>\<rparr>"

lemmas turn_eval = run_turn_def sample_iteration_def sample_attempt_def after_mismatch_def published_sink_def
  sample_sink_def sample_config_def choose_candidates_def pointsFromStore_def runAttempt_def attempt_body_def
  commonIntersection_def sample_point_def origin_point_def attempt_cleanup_def retryable_outcome_def failed_outcome_def
  doubledDuration_def max_int64_def wrap_int64_def observeAttempt_def observeReconnect_def observeMismatch_def
  metrics_start_def zero_metrics_def Let_def

lemma sample_run_start: "run_start sample_config published_sink = after_mismatch 2 [] 0"
  by (simp add: run_start_def turn_eval)

lemma first_mismatch:
  "run_turn sample_config (sample_iteration [sample_point 3 11, sample_point 2 10]) (after_mismatch 2 [] 0) =
     Inr (2, after_mismatch 4 [sample_point 2 10, origin_point] 1)"
  using published_state
  by (simp add: turn_eval)

lemma second_mismatch:
  "run_turn sample_config (sample_iteration [sample_point 2 10, origin_point]) (after_mismatch 4 [sample_point 2 10, origin_point] 1) =
     Inr (4, after_mismatch 7 [origin_point] 2)"
  using published_state
  by (simp add: turn_eval)

definition sample_iterations :: "(unit, nat) iteration list" where
  "sample_iterations = [sample_iteration [sample_point 3 11, sample_point 2 10], sample_iteration [sample_point 2 10, origin_point]]"

lemma sample_loop:
  "run_loop sample_config sample_iterations (run_start sample_config published_sink) =
     Inr ([2, 4], after_mismatch 7 [origin_point] 2)"
  by (simp add: sample_run_start sample_iterations_def first_mismatch second_mismatch)

theorem retry_delays_bounded_witness: "\<exists>m \<le> 1. [2, 4] ! 1 = min (2 * 2 ^ m) (7 :: int)"
  using retry_delays_bounded [OF sample_config_valid _ sample_loop, of 1] by (simp add: sample_config_def max_int64_def)

lemma sample_mismatches:
  "mismatches sample_config 2 sample_iterations [sample_point 3 11, sample_point 2 10, origin_point] (after_mismatch 2 [] 0)"
proof -
  have "mismatch_turn sample_config (sample_iteration [sample_point 2 10, origin_point]) 2 [sample_point 2 10, origin_point]
      (after_mismatch 4 [sample_point 2 10, origin_point] 1) (after_mismatch 7 [origin_point] 2)"
    unfolding mismatch_turn_def using second_mismatch published_state by (simp add: turn_eval)
  moreover have "mismatch_turn sample_config (sample_iteration [sample_point 3 11, sample_point 2 10]) 2
      [sample_point 3 11, sample_point 2 10, origin_point]
      (after_mismatch 2 [] 0) (after_mismatch 4 [sample_point 2 10, origin_point] 1)"
    unfolding mismatch_turn_def using first_mismatch published_state by (simp add: turn_eval)
  ultimately show ?thesis unfolding sample_iterations_def by (blast intro: mismatches.intros)
qed

theorem negotiation_terminates_witness:
  "length sample_iterations < length [sample_point 3 11, sample_point 2 10, origin_point]"
  by (rule negotiation_terminates [OF sample_mismatches])

lemma sample_failed_turn:
  "run_turn sample_config (sample_iteration [sample_point 4 12, sample_point 2 10]) (after_mismatch 2 [] 0) =
     Inl (Some (IntersectionFailed (UnknownIntersection 0)),
       published_sink\<lparr>sk_metrics := observeAttempt 0 (Some zero_metrics)\<rparr>)"
  using published_state by (simp add: turn_eval)

definition stopping_iteration :: "point list \<Rightarrow> (unit, nat) iteration" where
  "stopping_iteration chosen = (sample_iteration chosen)\<lparr>it_env := (sample_attempt chosen)\<lparr>av_stages := (\<lambda>engine s. (s, stopped_pipeline_env))\<rparr>\<rparr>"

lemma sample_timelines:
  "timeline (pv_events sample_pipeline_env) [] False True (ProducerCause 3) [StageReturned False (Some 1), StageReturned True (Some 2)]"
  "timeline (pv_events stopped_pipeline_env) [] True True (ProducerCause 3) [StageReturned False None, StageReturned True None]"
  by (simp_all add: timeline_def sample_pipeline_env_def stopped_pipeline_env_def)

lemma sample_orderly: "orderly (it_env (sample_iteration chosen))" "orderly (it_env (stopping_iteration chosen))"
proof -
  have "pv_parentAfter stopped_pipeline_env" by (simp add: stopped_pipeline_env_def)
  with sample_timelines show "orderly (it_env (sample_iteration chosen))" "orderly (it_env (stopping_iteration chosen))"
    by (fastforce simp: orderly_def sample_iteration_def stopping_iteration_def sample_attempt_def Let_def)+
qed

lemmas pipeline_eval = turn_eval stopping_iteration_def reconcile_def New_def runPipeline_def NewByteBudget_def
  pipeline_outcome_def pipeline_end_def pipeline_start_def stage_error_def stage_cause_def observeAgreedQueue_def

lemma sample_stopped_turn:
  "\<exists>s. run_turn sample_config (stopping_iteration [sample_point 3 11, sample_point 3 11]) (after_mismatch 2 [] 0) = Inl (None, s)"
  using published_state by (simp add: pipeline_eval stopped_pipeline_env_def)

lemma sample_retried_turn:
  "\<exists>st. run_turn sample_config (sample_iteration [sample_point 3 11, sample_point 3 11]) (after_mismatch 2 [] 0) = Inr (2, st)"
  using published_state by (simp add: pipeline_eval sample_pipeline_env_def)

theorem clean_return_needs_cancellation_witness:
  "\<exists>s. run_loop sample_config [stopping_iteration [sample_point 3 11, sample_point 3 11]] (after_mismatch 2 [] 0) = Inl (None, s) \<and>
    parent_seen (it_env (stopping_iteration [sample_point 3 11, sample_point 3 11]))"
proof -
  let ?it = "stopping_iteration [sample_point 3 11, sample_point 3 11]"
  from sample_stopped_turn obtain s where r: "run_loop sample_config [?it] (after_mismatch 2 [] 0) = Inl (None, s)" by auto
  from clean_return_needs_cancellation [OF r] have "it_ctxDone ?it \<or> it_ctxDoneAfter ?it \<or> it_interrupted ?it \<or> parent_seen (it_env ?it)"
    using sample_orderly by simp
  with r show ?thesis by (simp add: stopping_iteration_def sample_iteration_def)
qed

lemma sample_failed_stop:
  "\<exists>s. run_turn sample_config (stopping_iteration [sample_point 4 12, sample_point 2 10]) (after_mismatch 2 [] 0) =
     Inl (Some (IntersectionFailed (UnknownIntersection 0)), s)"
  using published_state by (simp add: pipeline_eval)

lemma sample_quiet: "quiet_stop (it_env (stopping_iteration chosen))"
proof -
  have "\<not> pv_shutdownExpired stopped_pipeline_env" "pv_parentAfter stopped_pipeline_env" by (simp_all add: stopped_pipeline_env_def)
  moreover have "first_failure ([] @ [StageReturned False None, StageReturned True (None :: nat option)]) = None" by simp
  ultimately have "\<exists>before retryable e after. timeline (pv_events stopped_pipeline_env) before True retryable e after \<and>
      first_failure (before @ after) = None" using sample_timelines(2) by blast
  moreover have "list_all (\<lambda>x. x = None) (map (\<lambda>_. None) chosen)" by (simp add: list_all_iff)
  ultimately show ?thesis
    by (simp add: quiet_stop_def stopping_iteration_def sample_attempt_def stopped_pipeline_env_def Let_def)
qed

theorem quiet_shutdown_is_clean_witness:
  "(\<exists>s. run_turn sample_config (stopping_iteration [sample_point 3 11, sample_point 3 11]) (after_mismatch 2 [] 0) = Inl (None, s)) \<and>
   before_pipeline (IntersectionFailed (UnknownIntersection 0) :: nat run_error)"
proof -
  from sample_stopped_turn obtain s where
    "run_turn sample_config (stopping_iteration [sample_point 3 11, sample_point 3 11]) (after_mismatch 2 [] 0) = Inl (None, s)" by auto
  moreover from sample_failed_stop obtain s' where
    "run_turn sample_config (stopping_iteration [sample_point 4 12, sample_point 2 10]) (after_mismatch 2 [] 0) =
     Inl (Some (IntersectionFailed (UnknownIntersection 0)), s')" by blast
  ultimately show ?thesis
    using quiet_shutdown_is_clean [OF sample_quiet [of "[sample_point 4 12, sample_point 2 10]"], of sample_config "after_mismatch 2 [] 0"]
    by auto
qed

theorem only_relay_failures_retried_witness: "relay_ended (it_env (sample_iteration [sample_point 3 11, sample_point 3 11]))"
proof -
  from sample_retried_turn obtain st where
    "run_turn sample_config (sample_iteration [sample_point 3 11, sample_point 3 11]) (after_mismatch 2 [] 0) = Inr (2, st)" by blast
  from only_relay_failures_retried [OF this sample_orderly(1)] show ?thesis
    by (auto simp: sample_iteration_def sample_attempt_def relay_stopped_def relays_differ_def Cons_eq_map_conv)
qed

definition sample_reconciliation :: "sink_state \<times> sink_error option" where
  "sample_reconciliation = reconcile sample_config (sample_point 3 11) (sample_point 2 10)
     [sample_relay CHR ''a'', sample_relay CHR ''b''] 0 published_sink"

lemma sample_reconciliation_ok: "snd sample_reconciliation = None"
  by (simp add: sample_reconciliation_def reconcile_def sink_rollback_def sink_of_def storeRelays_def sample_relay_def
      sample_config_def published_sink_def sample_sink_def sample_world_def sample_published_ok sample_rows_def
      sample_rollback_env_def all_queries_ok_def sample_defs sample_point_def origin_point_def rollback_eval
      two_le_one_u64 case_prod_beta)

theorem reconciled_to_intersection_witness:
  "\<exists>chain'. State all_queries_ok (sk_handle (fst sample_reconciliation)) (sk_db (fst sample_reconciliation)) 5 =
       Inr (expected_state sample_identity (sk_db (fst sample_reconciliation)) chain' 5) \<and>
     wire (chain_tip (di_Start sample_identity) chain') = wire (sample_point 2 10)"
proof -
  have run: "writer_run sample_identity (sk_handle published_sink) (sk_db published_sink) (rev sample_blocks)"
    using sample_published_run by (simp add: published_sink_def)
  have call: "reconcile sample_config (chain_tip (di_Start sample_identity) (rev sample_blocks)) (sample_point 2 10)
      [sample_relay CHR ''a'', sample_relay CHR ''b''] 0 published_sink = (fst sample_reconciliation, None)"
    using sample_reconciliation_ok
    by (cases sample_reconciliation) (simp add: sample_reconciliation_def chain_tip_def sample_blocks_def)
  have depth: "cs_RollbackDepth sample_config = 5" by (simp add: sample_config_def)
  then have "cs_RollbackDepth sample_config \<noteq> 0" by simp
  from reconciled_to_intersection [OF run this call] show ?thesis unfolding depth by blast
qed

end
