(* ===== verification/Relay_Failures.thy ===== *)
theory Relay_Failures
  imports Relay_Types Go_Text
begin

text \<open>
  \<^verbatim>\<open>internal/relay/errors.go\<close>, and the small functions of \<^verbatim>\<open>session.go\<close> that convert
  points, check the configuration and the candidates, and select an intersection. An error of another
  package is its text and what \<^verbatim>\<open>errors.Is\<close> and \<^verbatim>\<open>errors.As\<close> answer for it.
\<close>

section \<open>Errors\<close>

datatype failure_kind =
    FailureCanceled
  | FailureTimeout
  | FailureDNS
  | FailureConnection
  | FailureIntersection
  | FailureProtocol
  | FailureBound
  | FailureConfig

record error_traits =
  et_Text :: string
  et_Canceled :: bool
  et_DeadlineExceeded :: bool
  et_osDeadlineExceeded :: bool
  et_ETIMEDOUT :: bool
  et_IntersectNotFound :: bool
  et_DNSError :: "bool option"
  et_netTimeout :: bool
  et_EOF :: bool
  et_UnexpectedEOF :: bool
  et_ClosedPipe :: bool
  et_ShuttingDown :: bool
  et_ECONNABORTED :: bool
  et_ECONNREFUSED :: bool
  et_ECONNRESET :: bool
  et_EHOSTUNREACH :: bool
  et_ENETUNREACH :: bool

text \<open>An error of this package, of another one, or either with a text put before it by \<^verbatim>\<open>%w\<close>.\<close>

datatype go_error =
    Plain error_traits
  | Annotated string go_error
  | Failure failure_kind string string go_error

fun traits :: "go_error \<Rightarrow> error_traits" where
  "traits (Plain t) = t"
| "traits (Annotated _ e) = traits e"
| "traits (Failure _ _ _ e) = traits e"

text \<open>The first error of this package in the chain, which is what \<^verbatim>\<open>errors.As\<close> finds.\<close>

fun relay_failure :: "go_error \<Rightarrow> failure_kind option" where
  "relay_failure (Plain _) = None"
| "relay_failure (Annotated _ e) = relay_failure e"
| "relay_failure (Failure kind _ _ _) = Some kind"

definition no_traits :: "string \<Rightarrow> error_traits" where
  "no_traits t = \<lparr>et_Text = t, et_Canceled = False, et_DeadlineExceeded = False, et_osDeadlineExceeded = False,
     et_ETIMEDOUT = False, et_IntersectNotFound = False, et_DNSError = None, et_netTimeout = False, et_EOF = False,
     et_UnexpectedEOF = False, et_ClosedPipe = False, et_ShuttingDown = False, et_ECONNABORTED = False,
     et_ECONNREFUSED = False, et_ECONNRESET = False, et_EHOSTUNREACH = False, et_ENETUNREACH = False\<rparr>"

definition errorsNew :: "string \<Rightarrow> go_error" where
  "errorsNew t = Plain (no_traits t)"

definition ErrIntersectNotFound :: go_error where
  "ErrIntersectNotFound = Plain ((no_traits ''intersect not found'')\<lparr>et_IntersectNotFound := True\<rparr>)"

definition ErrProtocolShuttingDown :: go_error where
  "ErrProtocolShuttingDown = Plain ((no_traits ''protocol is shutting down'')\<lparr>et_ShuttingDown := True\<rparr>)"

definition connection_traits :: "error_traits \<Rightarrow> bool" where
  "connection_traits t \<longleftrightarrow> et_EOF t \<or> et_UnexpectedEOF t \<or> et_ClosedPipe t \<or> et_ShuttingDown t \<or> et_ECONNABORTED t \<or>
     et_ECONNREFUSED t \<or> et_ECONNRESET t \<or> et_EHOSTUNREACH t \<or> et_ENETUNREACH t"

definition classifyFailure :: "go_error \<Rightarrow> failure_kind" where
  "classifyFailure err =
     (let t = traits err in
      if et_Canceled t then FailureCanceled
      else if et_DeadlineExceeded t \<or> et_osDeadlineExceeded t \<or> et_ETIMEDOUT t then FailureTimeout
      else if et_IntersectNotFound t then FailureIntersection
      else case et_DNSError t of
        Some isTimeout \<Rightarrow> if isTimeout then FailureTimeout else FailureDNS
      | None \<Rightarrow>
          if et_netTimeout t then FailureTimeout
          else if connection_traits t then FailureConnection
          else FailureProtocol)"

definition FailureOf :: "go_error \<Rightarrow> failure_kind" where
  "FailureOf err = (case relay_failure err of Some kind \<Rightarrow> kind | None \<Rightarrow> classifyFailure err)"

definition wrapFailure :: "string \<Rightarrow> string \<Rightarrow> go_error option \<Rightarrow> go_error option" where
  "wrapFailure operation relay err =
     (case err of
        None \<Rightarrow> None
      | Some e \<Rightarrow>
          (case relay_failure e of
             Some _ \<Rightarrow> Some e
           | None \<Rightarrow> Some (Failure (classifyFailure e) operation relay e)))"

definition protocolFailure :: "string \<Rightarrow> string \<Rightarrow> go_error option \<Rightarrow> go_error" where
  "protocolFailure operation relay err =
     Failure FailureProtocol operation relay
       (case err of None \<Rightarrow> errorsNew ''invalid protocol callback order'' | Some e \<Rightarrow> e)"

text \<open>Wrapping never changes how the restart loop classifies an error.\<close>

lemma FailureOf_wrapFailure: "wrapFailure operation relay (Some e) = Some e' \<Longrightarrow> FailureOf e' = FailureOf e"
  by (auto simp: wrapFailure_def FailureOf_def split: option.splits)

lemma wrapFailure_idem: "wrapFailure op relay (wrapFailure op' relay' e) = wrapFailure op' relay' e"
  by (auto simp: wrapFailure_def split: option.splits)

lemma FailureOf_protocolFailure [simp]: "FailureOf (protocolFailure op relay e) = FailureProtocol"
  by (simp add: protocolFailure_def FailureOf_def)

section \<open>Points\<close>

text \<open>A point of the protocol library: a slot and a hash of any length; the origin is slot 0 without a hash.\<close>

record proto_point =
  pp_Slot :: u64
  pp_Hash :: bytes

record proto_tip =
  pp_Point :: proto_point
  pp_BlockNumber :: u64

text \<open>What the ledger library's header answers.\<close>

record block_header =
  bh_Hash :: bytes
  bh_SlotNumber :: u64
  bh_BlockNumber :: u64
  bh_ByronEBB :: bool

definition hash_length_error :: go_error where
  "hash_length_error = errorsNew ''hash length, want 32''"

definition pointFromHeader :: "block_header \<Rightarrow> go_error + point" where
  "pointFromHeader header =
     (if length (bh_Hash header) \<noteq> 32 then Inl hash_length_error
      else Inr \<lparr>pt_Origin = False, pt_Slot = bh_SlotNumber header, pt_Hash = make32 (bh_Hash header),
        pt_BlockNumber = bh_BlockNumber header, pt_IsByronEBB = bh_ByronEBB header\<rparr>)"

definition pointFromProtocol :: "proto_point \<Rightarrow> go_error + point" where
  "pointFromProtocol p =
     (if pp_Slot p = 0 \<and> length (pp_Hash p) = 0 then Inr origin_point
      else if length (pp_Hash p) \<noteq> 32 then Inl hash_length_error
      else Inr \<lparr>pt_Origin = False, pt_Slot = pp_Slot p, pt_Hash = make32 (pp_Hash p), pt_BlockNumber = 0,
        pt_IsByronEBB = False\<rparr>)"

definition pointFromTip :: "proto_tip \<Rightarrow> go_error + point" where
  "pointFromTip tip =
     bindE (pointFromProtocol (pp_Point tip)) (\<lambda>ret. Inr (ret\<lparr>pt_BlockNumber := pp_BlockNumber tip\<rparr>))"

definition toProtocolPoint :: "point \<Rightarrow> proto_point" where
  "toProtocolPoint p =
     (if pt_Origin p then \<lparr>pp_Slot = 0, pp_Hash = []\<rparr> else \<lparr>pp_Slot = pt_Slot p, pp_Hash = bytes32 (pt_Hash p)\<rparr>)"

definition sameProtocolPoint :: "proto_point \<Rightarrow> proto_point \<Rightarrow> bool" where
  "sameProtocolPoint left right \<longleftrightarrow> pp_Slot left = pp_Slot right \<and> pp_Hash left = pp_Hash right"

lemma sameProtocolPoint_iff: "sameProtocolPoint p q \<longleftrightarrow> p = q"
  by (cases p; cases q) (simp add: sameProtocolPoint_def)

lemma bytes32_not_Nil [simp]: "bytes32 h \<noteq> []" "[] \<noteq> bytes32 h"
  using length_bytes32 [of h] by (metis list.size(3) zero_neq_numeral)+

lemma pointFromProtocol_to:
  "pointFromProtocol (toProtocolPoint p) =
     Inr (if pt_Origin p then origin_point else p\<lparr>pt_BlockNumber := 0, pt_IsByronEBB := False\<rparr>)"
  by (cases p) (auto simp: toProtocolPoint_def pointFromProtocol_def)

lemma toProtocolPoint_from: "pointFromProtocol q = Inr p \<Longrightarrow> toProtocolPoint p = q"
  by (cases q) (auto simp: toProtocolPoint_def pointFromProtocol_def origin_point_def bytes32_make32 split: if_splits)

text \<open>Two points are the same on the wire exactly when they are the same up to the two local fields.\<close>

lemma toProtocolPoint_eq_iff:
  "toProtocolPoint p = toProtocolPoint q \<longleftrightarrow>
     pt_Origin p = pt_Origin q \<and> (\<not> pt_Origin p \<longrightarrow> pt_Slot p = pt_Slot q \<and> pt_Hash p = pt_Hash q)"
  by (auto simp: toProtocolPoint_def bytes32_inject)

section \<open>Configuration, candidates and intersection\<close>

record relay_config =
  rl_RelayIndex :: int
  rl_Host :: string
  rl_Operator :: string
  rl_NetworkMagic :: u32
  rl_BlockFetchRangeBlocks :: int
  rl_BlockFetchQueueSize :: int
  rl_RelayQueueSize :: int
  rl_RawQueueBytes :: int
  rl_DialTimeout :: int
  rl_BlockTimeout :: int

text \<open>The cases of \<^verbatim>\<open>validateConfig\<close>, in order; the bound of the BlockFetch queue is the library's.\<close>

definition relay_checks :: "int \<Rightarrow> bool \<Rightarrow> relay_config \<Rightarrow> (bool \<times> string) list" where
  "relay_checks maxRecvQueueSize logger c =
     [(\<not> logger, ''logger''),
      (rl_RelayIndex c < 0, ''relay index''),
      (TrimSpace (rl_Host c) = '''', ''relay host''),
      (TrimSpace (rl_Operator c) = '''', ''relay operator''),
      (rl_NetworkMagic c = 0, ''network magic''),
      (rl_BlockFetchRangeBlocks c < 1 \<or> rl_BlockFetchRangeBlocks c > 8192, ''BlockFetch range''),
      (rl_BlockFetchQueueSize c < 1 \<or> rl_BlockFetchQueueSize c > maxRecvQueueSize, ''BlockFetch queue size''),
      (rl_RelayQueueSize c < 1 \<or> rl_RelayQueueSize c > 4096, ''relay queue size''),
      (rl_RawQueueBytes c \<le> 0, ''raw queue byte limit''),
      (rl_DialTimeout c \<le> 0, ''dial timeout''),
      (rl_BlockTimeout c \<le> 0, ''block timeout'')]"

definition validateConfig :: "int \<Rightarrow> bool \<Rightarrow> relay_config \<Rightarrow> go_error option" where
  "validateConfig maxRecvQueueSize logger c =
     (case List.find fst (relay_checks maxRecvQueueSize logger c) of
        None \<Rightarrow> None
      | Some (_, what) \<Rightarrow> Some (Failure FailureConfig ''configure'' (rl_Host c) (errorsNew what)))"

fun candidate_errors :: "point list \<Rightarrow> go_error option" where
  "candidate_errors [] = None"
| "candidate_errors (c # rest) =
     (if pt_Origin c then
        (if rest \<noteq> [] then Some (errorsNew ''origin intersection candidate must be last'') else candidate_errors rest)
      else if pt_Hash c = zero32 then Some (errorsNew ''intersection candidate has an empty hash'')
      else candidate_errors rest)"

definition session_validateCandidates :: "point list \<Rightarrow> go_error option" where
  "session_validateCandidates candidates =
     (if length candidates = 0 then
        Some (Failure FailureIntersection ''validate candidates'' ''''
          (errorsNew ''at least one intersection candidate is required''))
      else candidate_errors candidates)"

text \<open>
  \<^verbatim>\<open>selectIntersection\<close>: the client is asked for one candidate after the other; \<open>answer\<close> is the
  error of \<^verbatim>\<open>GetAvailableBlockRange\<close> for a point.
\<close>

fun selectIntersection :: "(proto_point \<Rightarrow> go_error option) \<Rightarrow> point list \<Rightarrow> go_error + point" where
  "selectIntersection answer [] =
     Inl (Failure FailureIntersection ''find intersection'' '''' (errorsNew ''none of the supplied points was accepted''))"
| "selectIntersection answer (c # rest) =
     (case answer (toProtocolPoint c) of
        None \<Rightarrow> Inr c
      | Some err \<Rightarrow> if et_IntersectNotFound (traits err) then selectIntersection answer rest else Inl err)"

lemma selectIntersection_Inr:
  assumes "selectIntersection answer cs = Inr p"
  shows "\<exists>before after. cs = before @ p # after \<and> answer (toProtocolPoint p) = None \<and>
     (\<forall>q \<in> set before. \<exists>e. answer (toProtocolPoint q) = Some e \<and> et_IntersectNotFound (traits e))"
  using assms
proof (induction cs)
  case (Cons c cs)
  show ?case
  proof (cases "answer (toProtocolPoint c)")
    case None
    with Cons.prems show ?thesis by (intro exI [of _ "[]"] exI [of _ cs]) simp
  next
    case (Some e)
    with Cons.prems have e: "et_IntersectNotFound (traits e)" "selectIntersection answer cs = Inr p"
      by (auto split: if_splits)
    with Cons.IH obtain before after where "cs = before @ p # after" "answer (toProtocolPoint p) = None"
        "\<forall>q \<in> set before. \<exists>e. answer (toProtocolPoint q) = Some e \<and> et_IntersectNotFound (traits e)" by blast
    with Some e show ?thesis by (intro exI [of _ "c # before"] exI [of _ after]) auto
  qed
qed simp

lemma candidate_errors_None:
  "candidate_errors cs = None \<longleftrightarrow>
     (\<forall>i < length cs. if pt_Origin (cs ! i) then i = length cs - 1 else pt_Hash (cs ! i) \<noteq> zero32)"
proof (induction cs)
  case (Cons c cs)
  show ?case
    unfolding candidate_errors.simps All_less_Suc2 list.size
    using Cons by (cases cs) (auto simp: All_less_Suc2)
qed simp

end
