(* ===== verification/Fetch_Metrics.thy ===== *)
theory Fetch_Metrics
  imports Relay_Types
begin

text \<open>
  \<^verbatim>\<open>internal/relay/fetch_metrics.go\<close>: the counters of a session and the totals of its completed
  ranges. Counters are 64-bit words; durations are Go's 64-bit nanoseconds. The text of the progress
  line is not modelled, when one is written is.
\<close>

section \<open>What a session expects\<close>

record expected_header =
  eh_point :: point
  eh_tip :: point
  eh_blockType :: u64

text \<open>The range being fetched; \<open>ar_done\<close> is the channel the fetch loop waits on.\<close>

record 'e active_range =
  ar_headers :: "expected_header list"
  ar_next :: nat
  ar_rawBytes :: u64
  ar_rawBudgetWait :: int
  ar_eventSendWait :: int
  ar_requestStarted :: time
  ar_firstRaw :: time
  ar_lastRaw :: time
  ar_completed :: time
  ar_headerCollect :: int
  ar_getRangeWait :: int
  ar_interRangeIdle :: int
  ar_preparedBefore :: bool
  ar_hasPriorRange :: bool
  ar_done :: "'e option option"

text \<open>\<^verbatim>\<open>Time.Sub\<close> saturates; the zero time is \<open>0\<close>.\<close>

definition time_sub :: "time \<Rightarrow> time \<Rightarrow> int" where
  "time_sub a b = max (- (2 ^ 63)) (min max_int64 (a - b))"

section \<open>Counters\<close>

datatype chain_event_kind = ChainForward | ChainRollback | ChainAwaitReply

record fetch_metrics =
  fm_startedAt :: int
  fm_chainEvents :: u64
  fm_headers :: u64
  fm_chainWaitNs :: u64
  fm_chainHigh :: int
  fm_pendingHeaders :: int
  fm_pendingHigh :: int
  fm_jobs :: u64
  fm_jobWaitNs :: u64
  fm_jobHigh :: int
  fm_eventHigh :: int
  fm_rawQueueHigh :: int

definition zero_fetch_metrics :: fetch_metrics where
  "zero_fetch_metrics = \<lparr>fm_startedAt = 0, fm_chainEvents = 0, fm_headers = 0, fm_chainWaitNs = 0, fm_chainHigh = 0,
     fm_pendingHeaders = 0, fm_pendingHigh = 0, fm_jobs = 0, fm_jobWaitNs = 0, fm_jobHigh = 0, fm_eventHigh = 0,
     fm_rawQueueHigh = 0\<rparr>"

text \<open>
  \<^verbatim>\<open>raiseHighWater\<close>: \<open>interference\<close> lists the values other goroutines store between a load and
  the following compare-and-swap; each of them makes the loop try again.
\<close>

fun raiseHighWater :: "int list \<Rightarrow> int \<Rightarrow> int \<Rightarrow> int" where
  "raiseHighWater [] candidate current = (if candidate > current then candidate else current)"
| "raiseHighWater (other # rest) candidate current =
     (if candidate > current then
        (if other = current then candidate else raiseHighWater rest candidate other)
      else current)"

definition fetch_start :: "int \<Rightarrow> fetch_metrics \<Rightarrow> fetch_metrics" where
  "fetch_start now m = (if fm_startedAt m = 0 then m\<lparr>fm_startedAt := now\<rparr> else m)"

definition observeChainEvent :: "chain_event_kind \<Rightarrow> int \<Rightarrow> nat \<Rightarrow> fetch_metrics \<Rightarrow> fetch_metrics" where
  "observeChainEvent kind wait depth m =
     (let m = (if kind = ChainForward then m\<lparr>fm_headers := fm_headers m + 1\<rparr> else m)
      in m\<lparr>fm_chainEvents := fm_chainEvents m + 1,
           fm_chainWaitNs := fm_chainWaitNs m + uint64_of_int64 (max wait 0),
           fm_chainHigh := raiseHighWater [] (int depth) (fm_chainHigh m)\<rparr>)"

definition observePending :: "nat \<Rightarrow> fetch_metrics \<Rightarrow> fetch_metrics" where
  "observePending pending m =
     m\<lparr>fm_pendingHeaders := int pending, fm_pendingHigh := raiseHighWater [] (int pending) (fm_pendingHigh m)\<rparr>"

definition observeJob :: "int \<Rightarrow> nat \<Rightarrow> fetch_metrics \<Rightarrow> fetch_metrics" where
  "observeJob wait depth m =
     m\<lparr>fm_jobs := fm_jobs m + 1, fm_jobWaitNs := fm_jobWaitNs m + uint64_of_int64 (max wait 0),
       fm_jobHigh := raiseHighWater [] (int depth) (fm_jobHigh m)\<rparr>"

definition observeEventDepth :: "nat \<Rightarrow> fetch_metrics \<Rightarrow> fetch_metrics" where
  "observeEventDepth depth m = m\<lparr>fm_eventHigh := raiseHighWater [] (int depth) (fm_eventHigh m)\<rparr>"

definition observeRawDepth :: "int \<Rightarrow> fetch_metrics \<Rightarrow> fetch_metrics" where
  "observeRawDepth bytes m = m\<lparr>fm_rawQueueHigh := raiseHighWater [] bytes (fm_rawQueueHigh m)\<rparr>"

section \<open>Totals of completed ranges\<close>

record fetch_totals =
  ft_ranges :: u64
  ft_expectedBlocks :: u64
  ft_rawBlocks :: u64
  ft_rawBytes :: u64
  ft_transitions :: u64
  ft_preparedBeforeDone :: u64
  ft_headerCollect :: int
  ft_getRangeWait :: int
  ft_bodyStream :: int
  ft_active :: int
  ft_interRangeIdle :: int
  ft_rawBudgetWait :: int
  ft_eventSendWait :: int

definition zero_fetch_totals :: fetch_totals where
  "zero_fetch_totals = \<lparr>ft_ranges = 0, ft_expectedBlocks = 0, ft_rawBlocks = 0, ft_rawBytes = 0, ft_transitions = 0,
     ft_preparedBeforeDone = 0, ft_headerCollect = 0, ft_getRangeWait = 0, ft_bodyStream = 0, ft_active = 0,
     ft_interRangeIdle = 0, ft_rawBudgetWait = 0, ft_eventSendWait = 0\<rparr>"

definition add_totals :: "'e active_range \<Rightarrow> fetch_totals \<Rightarrow> fetch_totals" where
  "add_totals r t =
     (let t = t\<lparr>ft_ranges := ft_ranges t + 1,
            ft_expectedBlocks := ft_expectedBlocks t + of_nat (length (ar_headers r)),
            ft_rawBlocks := ft_rawBlocks t + of_nat (ar_next r),
            ft_rawBytes := ft_rawBytes t + ar_rawBytes r,
            ft_headerCollect := wrap_int64 (ft_headerCollect t + ar_headerCollect r),
            ft_getRangeWait := wrap_int64 (ft_getRangeWait t + ar_getRangeWait r)\<rparr>;
          t = (if ar_firstRaw r \<noteq> 0 \<and> ar_lastRaw r \<noteq> 0
               then t\<lparr>ft_bodyStream := wrap_int64 (ft_bodyStream t + time_sub (ar_lastRaw r) (ar_firstRaw r))\<rparr> else t);
          t = t\<lparr>ft_active := wrap_int64 (ft_active t + time_sub (ar_completed r) (ar_requestStarted r)),
            ft_rawBudgetWait := wrap_int64 (ft_rawBudgetWait t + ar_rawBudgetWait r),
            ft_eventSendWait := wrap_int64 (ft_eventSendWait t + ar_eventSendWait r)\<rparr>
      in if ar_hasPriorRange r then
           t\<lparr>ft_transitions := ft_transitions t + 1,
             ft_interRangeIdle := wrap_int64 (ft_interRangeIdle t + ar_interRangeIdle r),
             ft_preparedBeforeDone := ft_preparedBeforeDone t + (if ar_preparedBefore r then 1 else 0)\<rparr>
         else t)"

definition fetchProgressInterval :: int where
  "fetchProgressInterval = 10 * 10 ^ 9"

text \<open>
  \<^verbatim>\<open>logFetchProgress\<close>: the time of the last line, and whether one is written now.
  \<open>unix\<close> is the zero time of the counter's nanoseconds.
\<close>

definition logFetchProgress :: "time \<Rightarrow> fetch_metrics \<Rightarrow> time \<Rightarrow> time \<Rightarrow> time \<times> bool" where
  "logFetchProgress unix m fetchLogAt now =
     (if fm_startedAt m = 0 then (fetchLogAt, False)
      else let started = unix + fm_startedAt m;
               logAt = (if fetchLogAt = 0 then started else fetchLogAt)
        in if time_sub now logAt < fetchProgressInterval then (logAt, False)
           else (now, time_sub now started > 0))"

definition averageDuration :: "int \<Rightarrow> u64 \<Rightarrow> int" where
  "averageDuration spent count =
     (if count = 0 then 0
      else let c = int64_of_uint64 count in wrap_int64 (sgn spent * sgn c * (\<bar>spent\<bar> div \<bar>c\<bar>)))"

section \<open>Laws\<close>

lemma raiseHighWater_ge: "candidate \<le> raiseHighWater others candidate current"
  by (induction others candidate current rule: raiseHighWater.induct) auto

lemma raiseHighWater_quiet: "raiseHighWater [] candidate current = max candidate current"
  by simp

lemma add_totals_counts:
  "ft_ranges (add_totals r t) = ft_ranges t + 1"
  "ft_rawBlocks (add_totals r t) = ft_rawBlocks t + of_nat (ar_next r)"
  "ft_expectedBlocks (add_totals r t) = ft_expectedBlocks t + of_nat (length (ar_headers r))"
  by (simp_all add: add_totals_def Let_def)

end
