(* ===== verification/Session.thy ===== *)
theory Session
  imports Relay_Failures Fetch_Metrics
begin

text \<open>
  \<^verbatim>\<open>internal/relay/session.go\<close> and \<^verbatim>\<open>New\<close> of \<^verbatim>\<open>types.go\<close>: one relay session as a
  transition system. ChainSync callbacks put headers and rollbacks into a bounded channel; the range
  builder groups headers into fetch jobs; the fetch loop requests one range at a time and emits
  rollbacks; BlockFetch callbacks turn raw blocks into events, charged to the raw byte limit; a reader
  takes events. Every blocking operation is a place where a goroutine waits, and each move lets one of
  them go on. What the network, the clock and the other goroutines do is the choice of the moves.
\<close>

section \<open>Data\<close>

record chain_event =
  cv_kind :: chain_event_kind
  cv_header :: expected_header
  cv_rollback :: relay_event
  cv_observedAt :: time

record fetch_job =
  fj_kind :: event_kind
  fj_headers :: "expected_header list"
  fj_rollback :: relay_event
  fj_headerStarted :: time
  fj_readyAt :: time

text \<open>The range builder: not started, waiting for an event, sending jobs, or returned.\<close>

datatype builder =
    BuilderNotStarted
  | BuilderIdle
  | BuilderSending "fetch_job list"
  | BuilderEnded go_error

text \<open>The fetch loop: not started, at its head, emitting a rollback, in \<^verbatim>\<open>GetBlockRange\<close>, waiting for the range, or returned.\<close>

datatype fetcher =
    FetchNotStarted
  | FetchIdle
  | FetchEmitting relay_event
  | FetchRequesting
  | FetchWaiting
  | FetchEnded go_error

text \<open>
  The BlockFetch callback: none running, trying to reserve raw bytes, waiting for the wake-up token,
  or sending the event. Callbacks of one mini-protocol run one after the other.
\<close>

datatype raw_callback =
    CallbackIdle
  | Reserving relay_event
  | Parked relay_event
  | Sending relay_event

text \<open>
  The session. \<open>ss_range\<close> is the range object the fetch loop created last and \<open>ss_active\<close> tells whether
  \<^verbatim>\<open>s.active\<close> points to it; \<open>ss_context\<close> is \<open>None\<close> before \<^verbatim>\<open>begin\<close> and afterwards the cause of
  the run context, when it is done.
\<close>

record session =
  ss_config :: relay_config
  ss_identity :: relay_identity
  ss_context :: "go_error option option"
  ss_intersection :: "point option"
  ss_cause :: "go_error option"
  ss_chainEvents :: "chain_event list"
  ss_fetchJobs :: "fetch_job list"
  ss_range :: "go_error active_range option"
  ss_active :: bool
  ss_rawQueued :: int
  ss_rawWake :: bool
  ss_events :: "relay_event list"
  ss_ready :: bool
  ss_done :: bool
  ss_fetchMetrics :: fetch_metrics
  ss_fetchTotals :: fetch_totals
  ss_fetchLogAt :: time
  ss_pending :: "expected_header list"
  ss_headerStarted :: time
  ss_caughtUp :: bool
  ss_builder :: builder
  ss_previousRangeDone :: time
  ss_fetcher :: fetcher
  ss_callback :: raw_callback

definition zero_event :: relay_event where
  "zero_event = \<lparr>re_Kind = 0, re_Point = \<lparr>pt_Origin = False, pt_Slot = 0, pt_Hash = zero32, pt_BlockNumber = 0,
       pt_IsByronEBB = False\<rparr>, re_Tip = \<lparr>pt_Origin = False, pt_Slot = 0, pt_Hash = zero32, pt_BlockNumber = 0,
       pt_IsByronEBB = False\<rparr>, re_BlockType = 0, re_RawLength = 0, re_Digest = zero32, re_RawCBOR = [],
     re_Relay = \<lparr>ri_Host = '''', ri_Address = '''', ri_Operator = '''', ri_N2NVersion = 0, ri_NetworkMagic = 0\<rparr>,
     re_ObservedAt = 0\<rparr>"

definition zero_header :: expected_header where
  "zero_header = \<lparr>eh_point = re_Point zero_event, eh_tip = re_Tip zero_event, eh_blockType = 0\<rparr>"

definition NewSession :: "int \<Rightarrow> bool \<Rightarrow> relay_config \<Rightarrow> go_error + session" where
  "NewSession maxRecvQueueSize logger c =
     (case validateConfig maxRecvQueueSize logger c of
        Some e \<Rightarrow> Inl e
      | None \<Rightarrow> Inr \<lparr>ss_config = c,
          ss_identity = \<lparr>ri_Host = rl_Host c, ri_Address = rl_Host c, ri_Operator = rl_Operator c, ri_N2NVersion = 0,
            ri_NetworkMagic = rl_NetworkMagic c\<rparr>,
          ss_context = None, ss_intersection = None, ss_cause = None, ss_chainEvents = [], ss_fetchJobs = [],
          ss_range = None, ss_active = False, ss_rawQueued = 0, ss_rawWake = False, ss_events = [], ss_ready = False,
          ss_done = False, ss_fetchMetrics = zero_fetch_metrics, ss_fetchTotals = zero_fetch_totals, ss_fetchLogAt = 0,
          ss_pending = [], ss_headerStarted = 0, ss_caughtUp = False, ss_builder = BuilderNotStarted,
          ss_previousRangeDone = 0, ss_fetcher = FetchNotStarted, ss_callback = CallbackIdle\<rparr>)"

section \<open>Context and life cycle\<close>

definition session_begin :: "int \<Rightarrow> session \<Rightarrow> go_error + session" where
  "session_begin now s =
     (if ss_context s \<noteq> None
      then Inl (protocolFailure ''run'' (rl_Host (ss_config s)) (Some (errorsNew ''session has already run'')))
      else Inr (s\<lparr>ss_context := Some None, ss_fetchMetrics := fetch_start now (ss_fetchMetrics s)\<rparr>))"

text \<open>The first cause stays.\<close>

definition cancel :: "go_error \<Rightarrow> session \<Rightarrow> session" where
  "cancel err s = s\<lparr>ss_context := (case ss_context s of Some None \<Rightarrow> Some (Some err) | c \<Rightarrow> c)\<rparr>"

definition callbackError :: "go_error \<Rightarrow> session \<Rightarrow> session" where
  "callbackError err s = cancel err s"

definition cancelled :: "session \<Rightarrow> go_error option" where
  "cancelled s = (case ss_context s of Some c \<Rightarrow> c | None \<Rightarrow> None)"

definition releaseRaw :: "relay_event \<Rightarrow> session \<Rightarrow> session" where
  "releaseRaw event s =
     (let sz = int (length (re_RawCBOR event)) in
      if sz = 0 then s
      else s\<lparr>ss_rawQueued := (if sz > ss_rawQueued s then 0 else ss_rawQueued s - sz), ss_rawWake := True\<rparr>)"

definition session_finish :: "go_error option \<Rightarrow> session \<Rightarrow> session" where
  "session_finish cause s =
     (let s = s\<lparr>ss_cause := cause, ss_ready := True\<rparr> in
      if ss_done s then s
      else (fold releaseRaw (ss_events s) s)\<lparr>ss_events := [], ss_done := True\<rparr>)"

section \<open>ChainSync callbacks\<close>

definition enqueueChainEvent :: "nat \<Rightarrow> int \<Rightarrow> chain_event \<Rightarrow> session \<Rightarrow> session option" where
  "enqueueChainEvent maxOutstanding wait event s =
     (if ss_context s = None then
        Some (callbackError (protocolFailure ''enqueue ChainSync event'' (rl_Host (ss_config s))
          (Some (errorsNew ''session context is unavailable''))) s)
      else if length (ss_chainEvents s) < maxOutstanding then
        Some (s\<lparr>ss_chainEvents := ss_chainEvents s @ [event],
          ss_fetchMetrics := observeChainEvent (cv_kind event) wait (length (ss_chainEvents s) + 1) (ss_fetchMetrics s)\<rparr>)
      else None)"

definition forward_chain_event :: "time \<Rightarrow> u64 \<Rightarrow> point \<Rightarrow> point \<Rightarrow> chain_event" where
  "forward_chain_event now blockType p tip =
     \<lparr>cv_kind = ChainForward, cv_header = \<lparr>eh_point = p, eh_tip = tip, eh_blockType = blockType\<rparr>,
      cv_rollback = zero_event, cv_observedAt = now\<rparr>"

text \<open>\<open>header\<close> is \<open>None\<close> when the value is not a block header. The result is \<open>None\<close> while the channel is full.\<close>

definition onRollForward :: "nat \<Rightarrow> time \<Rightarrow> int \<Rightarrow> u64 \<Rightarrow> block_header option \<Rightarrow> proto_tip \<Rightarrow> session \<Rightarrow> session option" where
  "onRollForward maxOutstanding now wait blockType header tip s =
     (let host = rl_Host (ss_config s) in
      case header of
        None \<Rightarrow> Some (callbackError (protocolFailure ''ChainSync roll-forward'' host (Some (errorsNew ''unexpected header type''))) s)
      | Some h \<Rightarrow>
          (case pointFromHeader h of
             Inl e \<Rightarrow> Some (callbackError (protocolFailure ''ChainSync roll-forward'' host (Some e)) s)
           | Inr p \<Rightarrow>
               (case pointFromTip tip of
                  Inl e \<Rightarrow> Some (callbackError (protocolFailure ''ChainSync tip'' host (Some e)) s)
                | Inr tipPoint \<Rightarrow> enqueueChainEvent maxOutstanding wait (forward_chain_event now blockType p tipPoint) s)))"

definition rollback_event :: "time \<Rightarrow> point \<Rightarrow> point \<Rightarrow> session \<Rightarrow> relay_event" where
  "rollback_event now target tip s = zero_event\<lparr>re_Kind := KindRollback, re_Point := target, re_Tip := tip,
     re_Relay := ss_identity s, re_ObservedAt := now\<rparr>"

definition onRollBackward :: "nat \<Rightarrow> time \<Rightarrow> int \<Rightarrow> proto_point \<Rightarrow> proto_tip \<Rightarrow> session \<Rightarrow> session option" where
  "onRollBackward maxOutstanding now wait p tip s =
     (let host = rl_Host (ss_config s) in
      case pointFromProtocol p of
        Inl e \<Rightarrow> Some (callbackError (protocolFailure ''ChainSync rollback'' host (Some e)) s)
      | Inr target \<Rightarrow>
          (case pointFromTip tip of
             Inl e \<Rightarrow> Some (callbackError (protocolFailure ''ChainSync rollback tip'' host (Some e)) s)
           | Inr tipPoint \<Rightarrow>
               enqueueChainEvent maxOutstanding wait
                 \<lparr>cv_kind = ChainRollback, cv_header = zero_header, cv_rollback = rollback_event now target tipPoint s,
                  cv_observedAt = now\<rparr> s))"

definition onAwaitReply :: "nat \<Rightarrow> int \<Rightarrow> session \<Rightarrow> session option" where
  "onAwaitReply maxOutstanding wait s =
     enqueueChainEvent maxOutstanding wait
       \<lparr>cv_kind = ChainAwaitReply, cv_header = zero_header, cv_rollback = zero_event, cv_observedAt = 0\<rparr> s"

section \<open>The range builder\<close>

text \<open>\<^verbatim>\<open>flush\<close>: the job for the pending headers, if any.\<close>

definition flush_pending :: "time \<Rightarrow> session \<Rightarrow> fetch_job list \<times> session" where
  "flush_pending now s =
     (if length (ss_pending s) = 0 then ([], s)
      else ([\<lparr>fj_kind = KindForward, fj_headers = ss_pending s, fj_rollback = zero_event,
              fj_headerStarted = ss_headerStarted s, fj_readyAt = now\<rparr>],
            s\<lparr>ss_pending := [], ss_headerStarted := 0, ss_fetchMetrics := observePending 0 (ss_fetchMetrics s)\<rparr>))"

definition stage_header :: "chain_event \<Rightarrow> session \<Rightarrow> session" where
  "stage_header event s =
     s\<lparr>ss_headerStarted := (if length (ss_pending s) = 0 then cv_observedAt event else ss_headerStarted s),
       ss_pending := ss_pending s @ [cv_header event],
       ss_fetchMetrics := observePending (length (ss_pending s) + 1) (ss_fetchMetrics s)\<rparr>"

definition build_event :: "time \<Rightarrow> chain_event \<Rightarrow> session \<Rightarrow> fetch_job list \<times> session" where
  "build_event now event s =
     (case cv_kind event of
        ChainForward \<Rightarrow>
          (let s = stage_header event s in
           if ss_caughtUp s \<or> int (length (ss_pending s)) \<ge> rl_BlockFetchRangeBlocks (ss_config s)
           then flush_pending now s else ([], s))
      | ChainAwaitReply \<Rightarrow> flush_pending now (s\<lparr>ss_caughtUp := True\<rparr>)
      | ChainRollback \<Rightarrow>
          (let (jobs, s) = flush_pending now s in
           (jobs @ [\<lparr>fj_kind = KindRollback, fj_headers = [], fj_rollback = cv_rollback event, fj_headerStarted = 0,
                     fj_readyAt = 0\<rparr>], s)))"

definition sending :: "fetch_job list \<Rightarrow> builder" where
  "sending jobs = (if jobs = [] then BuilderIdle else BuilderSending jobs)"

definition builder_take :: "time \<Rightarrow> session \<Rightarrow> session option" where
  "builder_take now s =
     (case (ss_builder s, ss_chainEvents s) of
        (BuilderIdle, event # rest) \<Rightarrow>
          (let (jobs, s) = build_event now event (s\<lparr>ss_chainEvents := rest\<rparr>) in Some (s\<lparr>ss_builder := sending jobs\<rparr>))
      | _ \<Rightarrow> None)"

definition enqueueJob :: "int \<Rightarrow> session \<Rightarrow> session option" where
  "enqueueJob wait s =
     (case ss_builder s of
        BuilderSending (job # rest) \<Rightarrow>
          if length (ss_fetchJobs s) < 1 then
            Some (s\<lparr>ss_fetchJobs := ss_fetchJobs s @ [job],
              ss_fetchMetrics := observeJob wait (length (ss_fetchJobs s) + 1) (ss_fetchMetrics s),
              ss_builder := sending rest\<rparr>)
          else None
      | _ \<Rightarrow> None)"

definition builder_stop :: "session \<Rightarrow> session option" where
  "builder_stop s =
     (case (ss_builder s, cancelled s) of
        (BuilderNotStarted, _) \<Rightarrow> None
      | (BuilderEnded _, _) \<Rightarrow> None
      | (_, Some cause) \<Rightarrow> Some (s\<lparr>ss_builder := BuilderEnded cause\<rparr>)
      | _ \<Rightarrow> None)"

section \<open>The fetch loop\<close>

text \<open>A worker that returns makes its error the cause of the run context, unless there is one.\<close>

definition fetch_fails :: "go_error \<Rightarrow> session \<Rightarrow> session" where
  "fetch_fails err s = cancel err (s\<lparr>ss_fetcher := FetchEnded err\<rparr>)"

definition range_finish :: "go_error option \<Rightarrow> go_error active_range \<Rightarrow> go_error active_range" where
  "range_finish err r = (if ar_done r = None then r\<lparr>ar_done := Some err\<rparr> else r)"

definition abortRange :: "go_error \<Rightarrow> session \<Rightarrow> session" where
  "abortRange err s = s\<lparr>ss_active := False, ss_range := map_option (range_finish (Some err)) (ss_range s)\<rparr>"

definition new_range :: "time \<Rightarrow> fetch_job \<Rightarrow> time \<Rightarrow> go_error active_range" where
  "new_range requestStarted job previousRangeDone =
     (let prior = previousRangeDone \<noteq> 0 in
      \<lparr>ar_headers = fj_headers job, ar_next = 0, ar_rawBytes = 0, ar_rawBudgetWait = 0, ar_eventSendWait = 0,
       ar_requestStarted = requestStarted, ar_firstRaw = 0, ar_lastRaw = 0, ar_completed = 0,
       ar_headerCollect = max (time_sub (fj_readyAt job) (fj_headerStarted job)) 0, ar_getRangeWait = 0,
       ar_interRangeIdle = (if prior then max (time_sub requestStarted previousRangeDone) 0 else 0),
       ar_preparedBefore = (prior \<and> \<not> fj_readyAt job > previousRangeDone), ar_hasPriorRange = prior,
       ar_done = None\<rparr>)"

text \<open>
  The head of the loop and, for a range, \<^verbatim>\<open>fetchRange\<close> up to the request. The context may be
  cancelled between the check at the head and the receive.
\<close>

definition fetch_take :: "time \<Rightarrow> session \<Rightarrow> session option" where
  "fetch_take now s =
     (let host = rl_Host (ss_config s); failed = (\<lambda>op what s. Some (fetch_fails (protocolFailure op host (Some (errorsNew what))) s)) in
      case (ss_fetcher s, ss_fetchJobs s) of
        (FetchIdle, job # rest) \<Rightarrow>
          (let s = s\<lparr>ss_fetchJobs := rest\<rparr> in
           if fj_kind job = KindRollback then
             (if length (fj_headers job) \<noteq> 0 then failed ''run BlockFetch loop'' ''rollback job contains headers'' s
              else Some (s\<lparr>ss_fetcher := FetchEmitting (fj_rollback job)\<rparr>))
           else if fj_kind job = KindForward then
             (if length (fj_headers job) = 0 then failed ''run BlockFetch loop'' ''fetch job has no headers'' s
              else if ss_active s then failed ''BlockFetch range'' ''range already active'' s
              else Some (s\<lparr>ss_range := Some (new_range now job (ss_previousRangeDone s)), ss_active := True,
                ss_fetcher := FetchRequesting\<rparr>))
           else failed ''run BlockFetch loop'' ''invalid relay job'' s)
      | _ \<Rightarrow> None)"

text \<open>The bounds \<^verbatim>\<open>GetBlockRange\<close> is called with.\<close>

definition requested_range :: "session \<Rightarrow> (proto_point \<times> proto_point) option" where
  "requested_range s =
     (case (ss_fetcher s, ss_range s) of
        (FetchRequesting, Some r) \<Rightarrow>
          Some (toProtocolPoint (eh_point (ar_headers r ! 0)),
                toProtocolPoint (eh_point (ar_headers r ! (length (ar_headers r) - 1))))
      | _ \<Rightarrow> None)"

definition range_requested :: "go_error option \<Rightarrow> int \<Rightarrow> session \<Rightarrow> session option" where
  "range_requested answer wait s =
     (case ss_fetcher s of
        FetchRequesting \<Rightarrow>
          (case wrapFailure ''request BlockFetch range'' (rl_Host (ss_config s)) answer of
             Some err \<Rightarrow> Some (fetch_fails err (abortRange err s))
           | None \<Rightarrow> Some (s\<lparr>ss_range := map_option (\<lambda>r. r\<lparr>ar_getRangeWait := wait\<rparr>) (ss_range s), ss_fetcher := FetchWaiting\<rparr>))
      | _ \<Rightarrow> None)"

definition observeCompletedRange :: "time \<Rightarrow> go_error active_range \<Rightarrow> session \<Rightarrow> session" where
  "observeCompletedRange unix r s =
     s\<lparr>ss_fetchTotals := add_totals r (ss_fetchTotals s),
       ss_fetchLogAt := fst (logFetchProgress unix (ss_fetchMetrics s) (ss_fetchLogAt s) (ar_completed r))\<rparr>"

definition range_done :: "time \<Rightarrow> session \<Rightarrow> session option" where
  "range_done unix s =
     (case (ss_fetcher s, ss_range s) of
        (FetchWaiting, Some r) \<Rightarrow>
          (case ar_done r of
             None \<Rightarrow> None
           | Some (Some err) \<Rightarrow> Some (fetch_fails err s)
           | Some None \<Rightarrow>
               Some ((observeCompletedRange unix r s)\<lparr>ss_previousRangeDone := ar_completed r, ss_fetcher := FetchIdle\<rparr>))
      | _ \<Rightarrow> None)"

definition range_disconnected :: "session \<Rightarrow> session option" where
  "range_disconnected s =
     (case ss_fetcher s of
        FetchWaiting \<Rightarrow>
          (let err = the (wrapFailure ''BlockFetch range disconnected'' (rl_Host (ss_config s)) (Some ErrProtocolShuttingDown))
           in Some (fetch_fails err (abortRange err s)))
      | _ \<Rightarrow> None)"

definition fetch_stop :: "session \<Rightarrow> session option" where
  "fetch_stop s =
     (case (ss_fetcher s, cancelled s) of
        (FetchIdle, Some cause) \<Rightarrow> Some (fetch_fails cause s)
      | (FetchWaiting, Some cause) \<Rightarrow> Some (fetch_fails cause (abortRange cause s))
      | (FetchEmitting event, Some cause) \<Rightarrow> Some (fetch_fails cause (releaseRaw event s))
      | _ \<Rightarrow> None)"

text \<open>
  \<^verbatim>\<open>emit\<close>: the checks before the send; the send itself needs room in the channel.
\<close>

definition emit_error :: "relay_event \<Rightarrow> bool \<Rightarrow> session \<Rightarrow> go_error option" where
  "emit_error event rawReserved s =
     (let host = rl_Host (ss_config s) in
      if ss_context s = None then
        Some (protocolFailure ''emit event'' host (Some (errorsNew ''session context is unavailable'')))
      else if length (re_RawCBOR event) \<noteq> 0 \<and> \<not> rawReserved then
        Some (protocolFailure ''emit event'' host (Some (errorsNew ''raw event has no byte reservation'')))
      else None)"

definition send_event :: "relay_event \<Rightarrow> session \<Rightarrow> session option" where
  "send_event event s =
     (if int (length (ss_events s)) < rl_RelayQueueSize (ss_config s) \<and> \<not> ss_done s
      then Some (s\<lparr>ss_events := ss_events s @ [event],
        ss_fetchMetrics := observeEventDepth (length (ss_events s) + 1) (ss_fetchMetrics s)\<rparr>)
      else None)"

definition fetch_emit :: "session \<Rightarrow> session option" where
  "fetch_emit s =
     (case ss_fetcher s of
        FetchEmitting event \<Rightarrow>
          (case emit_error event False s of
             Some err \<Rightarrow> Some (fetch_fails err s)
           | None \<Rightarrow> map_option (\<lambda>s. s\<lparr>ss_previousRangeDone := 0, ss_fetcher := FetchIdle\<rparr>) (send_event event s))
      | _ \<Rightarrow> None)"

section \<open>BlockFetch callbacks\<close>

definition forward_event :: "(bytes \<Rightarrow> hash32) \<Rightarrow> time \<Rightarrow> u64 \<Rightarrow> expected_header \<Rightarrow> bytes \<Rightarrow> session \<Rightarrow> relay_event" where
  "forward_event sha256 now blockType expected raw s =
     \<lparr>re_Kind = KindForward, re_Point = eh_point expected, re_Tip = eh_tip expected, re_BlockType = blockType,
      re_RawLength = of_nat (length raw), re_Digest = RawBlockDigest sha256 blockType raw,
      re_RawCBOR = (if rl_RelayIndex (ss_config s) = 0 then raw else []), re_Relay = ss_identity s, re_ObservedAt = now\<rparr>"

definition count_raw :: "time \<Rightarrow> bytes \<Rightarrow> go_error active_range \<Rightarrow> go_error active_range" where
  "count_raw now raw r =
     r\<lparr>ar_next := ar_next r + 1, ar_firstRaw := (if ar_firstRaw r = 0 then now else ar_firstRaw r), ar_lastRaw := now,
       ar_rawBytes := ar_rawBytes r + of_nat (length raw)\<rparr>"

definition callback_fails :: "go_error \<Rightarrow> session \<Rightarrow> session" where
  "callback_fails err s = callbackError err (abortRange err (s\<lparr>ss_callback := CallbackIdle\<rparr>))"

text \<open>\<^verbatim>\<open>onRawBlock\<close> up to the first wait.\<close>

definition onRawBlock :: "(bytes \<Rightarrow> hash32) \<Rightarrow> time \<Rightarrow> u64 \<Rightarrow> bytes \<Rightarrow> session \<Rightarrow> session option" where
  "onRawBlock sha256 now blockType raw s =
     (let host = rl_Host (ss_config s); failure = (\<lambda>what. protocolFailure ''BlockFetch raw block'' host (Some (errorsNew what))) in
      if ss_callback s \<noteq> CallbackIdle then None
      else if length raw = 0 then Some (callbackError (failure ''empty raw block callback'') s)
      else case (ss_active s, ss_range s) of
        (True, Some r) \<Rightarrow>
          if ar_next r \<ge> length (ar_headers r) then Some (callback_fails (failure ''extra block'') s)
          else let expected = ar_headers r ! ar_next r in
            if blockType \<noteq> eh_blockType expected then Some (callback_fails (failure ''block type'') s)
            else
              let event = forward_event sha256 now blockType expected raw s;
                  s = s\<lparr>ss_range := Some (count_raw now raw r)\<rparr>
              in if rl_RelayIndex (ss_config s) = 0 then
                   (if ss_context s = None
                    then Some (callback_fails (protocolFailure ''reserve raw event'' host (Some (errorsNew ''session context is unavailable''))) s)
                    else if int (length raw) > rl_RawQueueBytes (ss_config s)
                    then Some (callback_fails (Failure FailureBound ''reserve raw event'' host (errorsNew ''raw block exceeds the queue limit'')) s)
                    else Some (s\<lparr>ss_callback := Reserving event\<rparr>))
                 else Some (s\<lparr>ss_callback := Sending event\<rparr>)
      | _ \<Rightarrow> Some (callbackError (failure ''block arrived without an active range'') s))"

text \<open>One turn of the loop of \<^verbatim>\<open>reserveRaw\<close>, under its mutex.\<close>

definition reserveRaw :: "int \<Rightarrow> session \<Rightarrow> session option" where
  "reserveRaw wait s =
     (case ss_callback s of
        Reserving event \<Rightarrow>
          (let sz = int (length (re_RawCBOR event)) in
           if ss_rawQueued s \<le> rl_RawQueueBytes (ss_config s) - sz then
             Some (s\<lparr>ss_rawQueued := ss_rawQueued s + sz,
               ss_fetchMetrics := observeRawDepth (ss_rawQueued s + sz) (ss_fetchMetrics s),
               ss_range := map_option (\<lambda>r. r\<lparr>ar_rawBudgetWait := wrap_int64 (ar_rawBudgetWait r + wait)\<rparr>) (ss_range s),
               ss_callback := Sending event\<rparr>)
           else Some (s\<lparr>ss_callback := Parked event\<rparr>))
      | _ \<Rightarrow> None)"

definition wake_up :: "session \<Rightarrow> session option" where
  "wake_up s =
     (case ss_callback s of
        Parked event \<Rightarrow> if ss_rawWake s then Some (s\<lparr>ss_rawWake := False, ss_callback := Reserving event\<rparr>) else None
      | _ \<Rightarrow> None)"

definition callback_send :: "int \<Rightarrow> session \<Rightarrow> session option" where
  "callback_send wait s =
     (case ss_callback s of
        Sending event \<Rightarrow>
          (case emit_error event (rl_RelayIndex (ss_config s) = 0) s of
             Some err \<Rightarrow> Some (callback_fails err s)
           | None \<Rightarrow>
               map_option (\<lambda>s. s\<lparr>ss_range := map_option (\<lambda>r. r\<lparr>ar_eventSendWait := wrap_int64 (ar_eventSendWait r + wait)\<rparr>) (ss_range s),
                 ss_callback := CallbackIdle\<rparr>) (send_event event s))
      | _ \<Rightarrow> None)"

definition callback_stop :: "session \<Rightarrow> session option" where
  "callback_stop s =
     (case (ss_callback s, cancelled s) of
        (Parked event, Some cause) \<Rightarrow> Some (callback_fails cause s)
      | (Sending event, Some cause) \<Rightarrow> Some (callback_fails cause (releaseRaw event s))
      | _ \<Rightarrow> None)"

definition onBatchDone :: "time \<Rightarrow> session \<Rightarrow> session option" where
  "onBatchDone now s =
     (let host = rl_Host (ss_config s); failure = (\<lambda>what. protocolFailure ''BlockFetch batch done'' host (Some (errorsNew what))) in
      if ss_callback s \<noteq> CallbackIdle then None
      else case (ss_active s, ss_range s) of
        (True, Some r) \<Rightarrow>
          (let err = (if ar_next r \<noteq> length (ar_headers r) then Some (failure ''raw callbacks differ from headers'') else None);
               s = s\<lparr>ss_active := False, ss_range := Some (range_finish err (r\<lparr>ar_completed := now\<rparr>))\<rparr>
           in Some (case err of None \<Rightarrow> s | Some e \<Rightarrow> callbackError e s))
      | _ \<Rightarrow> Some (callbackError (failure ''batch completed without an active range'') s))"

section \<open>The reader\<close>

text \<open>\<^verbatim>\<open>Next\<close> when an event is there; when the channel is closed, the cause.\<close>

definition session_next :: "session \<Rightarrow> ((go_error + relay_event) \<times> session) option" where
  "session_next s =
     (case ss_events s of
        event # rest \<Rightarrow> Some (Inr event, releaseRaw event (s\<lparr>ss_events := rest\<rparr>))
      | [] \<Rightarrow>
          if ss_done s then
            Some (Inl (case ss_cause s of Some c \<Rightarrow> c | None \<Rightarrow> errorsNew ''relay event stream closed''), s)
          else None)"

definition Intersection :: "session \<Rightarrow> point option" where
  "Intersection s = ss_intersection s"

definition QueueDepth :: "session \<Rightarrow> nat \<times> int" where
  "QueueDepth s = (length (ss_events s), rl_RelayQueueSize (ss_config s))"

definition RawQueueDepth :: "session \<Rightarrow> int \<times> int" where
  "RawQueueDepth s = (ss_rawQueued s, rl_RawQueueBytes (ss_config s))"

definition captureNegotiatedIdentity :: "u16 \<Rightarrow> string option \<Rightarrow> session \<Rightarrow> session" where
  "captureNegotiatedIdentity version address s =
     s\<lparr>ss_identity := (ss_identity s)\<lparr>ri_N2NVersion := version,
         ri_Address := (case address of Some a \<Rightarrow> a | None \<Rightarrow> ri_Address (ss_identity s))\<rparr>\<rparr>"

section \<open>The moves\<close>

datatype session_choice =
    Begin int
  | Identify u16 "string option"
  | StartWorkers
  | SelectIntersection "proto_point \<Rightarrow> go_error option" "point list"
  | SignalReady
  | RollForward time int u64 "block_header option" proto_tip
  | RollBackward time int proto_point proto_tip
  | AwaitReply int
  | BuilderTake time
  | BuilderSend int
  | BuilderStop
  | FetchTake time
  | RangeRequested "go_error option" int
  | RangeDone time
  | RangeDisconnected
  | FetchEmit
  | FetchStop
  | RawBlock time u64 bytes
  | ReserveRaw int
  | WakeUp
  | CallbackSend int
  | CallbackStop
  | BatchDone time
  | ReadNext
  | Cancel go_error
  | Finish "go_error option"

definition start_workers :: "session \<Rightarrow> session option" where
  "start_workers s =
     (if ss_context s \<noteq> None \<and> \<not> ss_done s \<and> ss_builder s = BuilderNotStarted \<and> ss_fetcher s = FetchNotStarted
      then Some (s\<lparr>ss_builder := BuilderIdle, ss_fetcher := FetchIdle\<rparr>) else None)"

text \<open>The selection \<^verbatim>\<open>Run\<close> makes among its candidates; a failure ends it.\<close>

definition settle :: "(proto_point \<Rightarrow> go_error option) \<Rightarrow> point list \<Rightarrow> session \<Rightarrow> session" where
  "settle answer candidates s =
     (case selectIntersection answer candidates of
        Inl e \<Rightarrow> cancel (the (wrapFailure ''intersect'' (rl_Host (ss_config s)) (Some e))) s
      | Inr p \<Rightarrow> s\<lparr>ss_intersection := Some p\<rparr>)"

text \<open>\<^verbatim>\<open>Run\<close> waits for the mini-protocols and the workers before it finishes.\<close>

definition workers_ended :: "session \<Rightarrow> bool" where
  "workers_ended s \<longleftrightarrow> (case ss_builder s of BuilderNotStarted \<Rightarrow> True | BuilderEnded _ \<Rightarrow> True | _ \<Rightarrow> False) \<and>
     (case ss_fetcher s of FetchNotStarted \<Rightarrow> True | FetchEnded _ \<Rightarrow> True | _ \<Rightarrow> False) \<and> ss_callback s = CallbackIdle"

text \<open>What \<^verbatim>\<open>Run\<close> returns when one of the channels it waits on at its end is ready.\<close>

datatype run_end =
    ContextDone
  | AsyncError "go_error option"
  | ChainSyncError go_error
  | ChainSyncDone
  | BlockFetchDone

definition run_failure :: "string \<Rightarrow> go_error option \<Rightarrow> run_end \<Rightarrow> go_error option" where
  "run_failure host cause reason =
     (case reason of
        ContextDone \<Rightarrow> wrapFailure ''run'' host cause
      | AsyncError err \<Rightarrow>
          (case cause of
             Some c \<Rightarrow> wrapFailure ''run'' host (Some c)
           | None \<Rightarrow> wrapFailure ''peer protocol'' host (Some (case err of Some e \<Rightarrow> e | None \<Rightarrow> ErrProtocolShuttingDown)))
      | ChainSyncError err \<Rightarrow> wrapFailure ''ChainSync protocol'' host (Some err)
      | ChainSyncDone \<Rightarrow>
          (case cause of
             Some c \<Rightarrow> wrapFailure ''run'' host (Some c)
           | None \<Rightarrow> wrapFailure ''ChainSync disconnected'' host (Some ErrProtocolShuttingDown))
      | BlockFetchDone \<Rightarrow>
          (case cause of
             Some c \<Rightarrow> wrapFailure ''run'' host (Some c)
           | None \<Rightarrow> wrapFailure ''BlockFetch disconnected'' host (Some ErrProtocolShuttingDown)))"

definition run_checks :: "bool \<Rightarrow> point list \<Rightarrow> session \<Rightarrow> go_error option" where
  "run_checks ctx candidates s =
     (if \<not> ctx then wrapFailure ''run'' (rl_Host (ss_config s)) (Some (errorsNew ''context is required''))
      else wrapFailure ''intersect'' (rl_Host (ss_config s)) (session_validateCandidates candidates))"

fun session_move :: "(bytes \<Rightarrow> hash32) \<Rightarrow> nat \<Rightarrow> session_choice \<Rightarrow> session \<Rightarrow> session option" where
  "session_move sha256 mo (Begin now) s = (case session_begin now s of Inl _ \<Rightarrow> None | Inr s \<Rightarrow> Some s)"
| "session_move sha256 mo (Identify version address) s = Some (captureNegotiatedIdentity version address s)"
| "session_move sha256 mo StartWorkers s = start_workers s"
| "session_move sha256 mo (SelectIntersection answer candidates) s = Some (settle answer candidates s)"
| "session_move sha256 mo SignalReady s = Some (s\<lparr>ss_ready := True\<rparr>)"
| "session_move sha256 mo (RollForward now wait blockType header tip) s = onRollForward mo now wait blockType header tip s"
| "session_move sha256 mo (RollBackward now wait p tip) s = onRollBackward mo now wait p tip s"
| "session_move sha256 mo (AwaitReply wait) s = onAwaitReply mo wait s"
| "session_move sha256 mo (BuilderTake now) s = builder_take now s"
| "session_move sha256 mo (BuilderSend wait) s = enqueueJob wait s"
| "session_move sha256 mo BuilderStop s = builder_stop s"
| "session_move sha256 mo (FetchTake now) s = fetch_take now s"
| "session_move sha256 mo (RangeRequested answer wait) s = range_requested answer wait s"
| "session_move sha256 mo (RangeDone unix) s = range_done unix s"
| "session_move sha256 mo RangeDisconnected s = range_disconnected s"
| "session_move sha256 mo FetchEmit s = fetch_emit s"
| "session_move sha256 mo FetchStop s = fetch_stop s"
| "session_move sha256 mo (RawBlock now blockType raw) s = onRawBlock sha256 now blockType raw s"
| "session_move sha256 mo (ReserveRaw wait) s = reserveRaw wait s"
| "session_move sha256 mo WakeUp s = wake_up s"
| "session_move sha256 mo (CallbackSend wait) s = callback_send wait s"
| "session_move sha256 mo CallbackStop s = callback_stop s"
| "session_move sha256 mo (BatchDone now) s = onBatchDone now s"
| "session_move sha256 mo ReadNext s = map_option snd (session_next s)"
| "session_move sha256 mo (Cancel err) s = Some (cancel err s)"
| "session_move sha256 mo (Finish cause) s = (if workers_ended s \<and> cancelled s \<noteq> None then Some (session_finish cause s) else None)"

end
