(* ===== verification/Session_Laws.thy ===== *)
theory Session_Laws
  imports Session "HOL-Library.Sublist"
begin

text \<open>
  What a relay session guarantees in every interleaving: its events are the headers and rollbacks the
  relay announced, in order, each block with the digest and length of the bytes that were served for
  it; the raw bytes it holds stay within their limit; a waiting callback is never left without a
  wake-up; and ranges have the configured size.
\<close>

section \<open>Runs with their history\<close>

text \<open>
  What the relay says and serves, taken from the moves and not from what the session makes of them: the
  headers and rollbacks it sends to a running session in a well-formed message, and the raw blocks it
  sends while a range is active.
\<close>

datatype relay_message = SaidForward u64 block_header proto_tip | SaidBackward proto_point proto_tip

definition well_formed_point :: "proto_point \<Rightarrow> bool" where
  "well_formed_point p \<longleftrightarrow> length (pp_Hash p) = 32 \<or> pp_Slot p = 0 \<and> pp_Hash p = []"

fun sent :: "session_choice \<Rightarrow> session \<Rightarrow> relay_message list" where
  "sent (RollForward now wait blockType (Some header) tip) s =
     (if ss_context s \<noteq> None \<and> length (bh_Hash header) = 32 \<and> well_formed_point (pp_Point tip)
      then [SaidForward blockType header tip] else [])"
| "sent (RollBackward now wait p tip) s =
     (if ss_context s \<noteq> None \<and> well_formed_point p \<and> well_formed_point (pp_Point tip) then [SaidBackward p tip] else [])"
| "sent _ s = []"

fun served :: "session_choice \<Rightarrow> session \<Rightarrow> (u64 \<times> bytes) list" where
  "served (RawBlock now blockType raw) s = (if ss_active s \<and> raw \<noteq> [] then [(blockType, raw)] else [])"
| "served _ s = []"

fun delivered :: "session_choice \<Rightarrow> session \<Rightarrow> relay_event list" where
  "delivered ReadNext s = take 1 (ss_events s)"
| "delivered _ s = []"

text \<open>The chain events the callbacks put into the channel.\<close>

fun enqueued :: "session_choice \<Rightarrow> session \<Rightarrow> session \<Rightarrow> chain_event list" where
  "enqueued (RollForward now wait blockType header tip) s t = drop (length (ss_chainEvents s)) (ss_chainEvents t)"
| "enqueued (RollBackward now wait p tip) s t = drop (length (ss_chainEvents s)) (ss_chainEvents t)"
| "enqueued (AwaitReply wait) s t = drop (length (ss_chainEvents s)) (ss_chainEvents t)"
| "enqueued _ s t = []"

record history =
  hi_sent :: "relay_message list"
  hi_enqueued :: "chain_event list"
  hi_served :: "(u64 \<times> bytes) list"
  hi_delivered :: "relay_event list"

definition no_history :: history where
  "no_history = \<lparr>hi_sent = [], hi_enqueued = [], hi_served = [], hi_delivered = []\<rparr>"

definition extend :: "session_choice \<Rightarrow> session \<Rightarrow> session \<Rightarrow> history \<Rightarrow> history" where
  "extend mv s t h = \<lparr>hi_sent = hi_sent h @ sent mv s, hi_enqueued = hi_enqueued h @ enqueued mv s t,
     hi_served = hi_served h @ served mv s, hi_delivered = hi_delivered h @ delivered mv s\<rparr>"

lemma extend_simps [simp]:
  "hi_sent (extend mv s t h) = hi_sent h @ sent mv s"
  "hi_enqueued (extend mv s t h) = hi_enqueued h @ enqueued mv s t"
  "hi_served (extend mv s t h) = hi_served h @ served mv s"
  "hi_delivered (extend mv s t h) = hi_delivered h @ delivered mv s"
  by (simp_all add: extend_def)

inductive session_reachable :: "(bytes \<Rightarrow> hash32) \<Rightarrow> nat \<Rightarrow> relay_config \<Rightarrow> session \<Rightarrow> history \<Rightarrow> bool"
  for sha256 mo c where
  session_new: "NewSession maxRecv logger c = Inr s \<Longrightarrow>
     session_reachable sha256 mo c s no_history"
| session_go: "session_reachable sha256 mo c s h \<Longrightarrow> session_move sha256 mo mv s = Some t \<Longrightarrow>
     session_reachable sha256 mo c t (extend mv s t h)"

section \<open>The stream of a session\<close>

datatype item = HeaderItem expected_header | RollbackItem relay_event

definition chain_items :: "chain_event list \<Rightarrow> item list" where
  "chain_items evs = concat (map (\<lambda>e. case cv_kind e of ChainForward \<Rightarrow> [HeaderItem (cv_header e)]
     | ChainRollback \<Rightarrow> [RollbackItem (cv_rollback e)] | ChainAwaitReply \<Rightarrow> []) evs)"

definition job_items :: "fetch_job list \<Rightarrow> item list" where
  "job_items jobs = concat (map (\<lambda>j. if fj_kind j = KindRollback then [RollbackItem (fj_rollback j)]
     else map HeaderItem (fj_headers j)) jobs)"

fun builder_items :: "builder \<Rightarrow> item list" where
  "builder_items (BuilderSending jobs) = job_items jobs"
| "builder_items _ = []"

fun builder_ended :: "builder \<Rightarrow> bool" where
  "builder_ended (BuilderEnded _) = True"
| "builder_ended _ = False"

text \<open>What waits behind the fetch loop; a builder that returned passes nothing on.\<close>

definition queued_items :: "session \<Rightarrow> item list" where
  "queued_items s = job_items (ss_fetchJobs s) @
     (if builder_ended (ss_builder s) then []
      else builder_items (ss_builder s) @ map HeaderItem (ss_pending s) @ chain_items (ss_chainEvents s))"

text \<open>The headers of the range still to be served.\<close>

definition range_items :: "session \<Rightarrow> item list" where
  "range_items s = (case (ss_active s, ss_range s) of (True, Some r) \<Rightarrow> map HeaderItem (drop (ar_next r) (ar_headers r)) | _ \<Rightarrow> [])"

fun fetcher_items :: "fetcher \<Rightarrow> item list" where
  "fetcher_items (FetchEmitting e) = [RollbackItem e]"
| "fetcher_items _ = []"

text \<open>A session that will emit nothing after what the callback holds.\<close>

definition broken :: "session \<Rightarrow> bool" where
  "broken s \<longleftrightarrow> \<not> ss_active s \<and> ((\<exists>e. ss_fetcher s = FetchEnded e) \<or>
     (ss_fetcher s \<in> {FetchRequesting, FetchWaiting} \<and> (\<exists>r e. ss_range s = Some r \<and> ar_done r = Some (Some e))))"

text \<open>A point is the one a message speaks of.\<close>

definition says_point :: "proto_point \<Rightarrow> point \<Rightarrow> bool" where
  "says_point p q \<longleftrightarrow> (if pt_Origin q then pp_Slot p = 0 \<and> pp_Hash p = [] else pt_Slot q = pp_Slot p \<and> bytes32 (pt_Hash q) = pp_Hash p)"

definition says_tip :: "proto_tip \<Rightarrow> point \<Rightarrow> bool" where
  "says_tip tip q \<longleftrightarrow> says_point (pp_Point tip) q \<and> pt_BlockNumber q = pp_BlockNumber tip"

definition says_header :: "block_header \<Rightarrow> point \<Rightarrow> bool" where
  "says_header header q \<longleftrightarrow> \<not> pt_Origin q \<and> bytes32 (pt_Hash q) = bh_Hash header \<and> pt_Slot q = bh_SlotNumber header \<and>
     pt_BlockNumber q = bh_BlockNumber header \<and> pt_IsByronEBB q = bh_ByronEBB header"

fun tells :: "relay_message \<Rightarrow> item \<Rightarrow> bool" where
  "tells (SaidForward blockType header tip) (HeaderItem h) \<longleftrightarrow>
     eh_blockType h = blockType \<and> says_header header (eh_point h) \<and> says_tip tip (eh_tip h)"
| "tells (SaidBackward p tip) (RollbackItem e) \<longleftrightarrow> re_Kind e = KindRollback \<and> says_point p (re_Point e) \<and> says_tip tip (re_Tip e)"
| "tells _ _ = False"

text \<open>An event is the observation of an item.\<close>

definition observes :: "(bytes \<Rightarrow> hash32) \<Rightarrow> int \<Rightarrow> (u64 \<times> bytes) list \<Rightarrow> item \<Rightarrow> relay_event \<Rightarrow> bool" where
  "observes sha256 index blocks i e =
     (case i of
        RollbackItem r \<Rightarrow> e = r
      | HeaderItem h \<Rightarrow> (\<exists>raw. (eh_blockType h, raw) \<in> set blocks \<and> raw \<noteq> [] \<and> re_Kind e = KindForward \<and>
          re_Point e = eh_point h \<and> re_Tip e = eh_tip h \<and> re_BlockType e = eh_blockType h \<and>
          re_RawLength e = of_nat (length raw) \<and> re_Digest e = RawBlockDigest sha256 (eh_blockType h) raw \<and>
          re_RawCBOR e = (if index = 0 then raw else [])))"

fun callback_event :: "raw_callback \<Rightarrow> relay_event list" where
  "callback_event CallbackIdle = []"
| "callback_event (Reserving e) = [e]"
| "callback_event (Parked e) = [e]"
| "callback_event (Sending e) = [e]"

text \<open>What a block event keeps of the block, and what it should keep.\<close>

definition event_print :: "relay_event \<Rightarrow> u64 \<times> u64 \<times> hash32 \<times> bytes" where
  "event_print e = (re_BlockType e, re_RawLength e, re_Digest e, re_RawCBOR e)"

definition block_print :: "(bytes \<Rightarrow> hash32) \<Rightarrow> int \<Rightarrow> u64 \<times> bytes \<Rightarrow> u64 \<times> u64 \<times> hash32 \<times> bytes" where
  "block_print sha256 index b = (fst b, of_nat (length (snd b)), RawBlockDigest sha256 (fst b) (snd b), if index = 0 then snd b else [])"

definition block_events :: "relay_event list \<Rightarrow> relay_event list" where
  "block_events es = filter (\<lambda>e. re_Kind e = KindForward) es"

text \<open>What has left the session or is on its way out, and what is still to be done.\<close>

definition outgoing :: "session \<Rightarrow> history \<Rightarrow> relay_event list" where
  "outgoing s h = hi_delivered h @ ss_events s @ callback_event (ss_callback s)"

definition todo :: "session \<Rightarrow> item list" where
  "todo s = fetcher_items (ss_fetcher s) @ range_items s @ queued_items s"

definition structured :: "session \<Rightarrow> bool" where
  "structured s \<longleftrightarrow>
     (ss_active s \<longrightarrow> ss_fetcher s \<in> {FetchRequesting, FetchWaiting} \<and>
        (\<exists>r. ss_range s = Some r \<and> ar_done r = None \<and> ar_next r \<le> length (ar_headers r))) \<and>
     (ss_fetcher s \<in> {FetchRequesting, FetchWaiting} \<longrightarrow> ss_range s \<noteq> None) \<and>
     (\<forall>r. ss_fetcher s \<in> {FetchRequesting, FetchWaiting} \<longrightarrow> ss_range s = Some r \<longrightarrow> \<not> ss_active s \<longrightarrow> ar_done r \<noteq> None) \<and>
     (ss_callback s \<noteq> CallbackIdle \<longrightarrow> ss_active s \<or> broken s) \<and>
     (ss_fetcher s = FetchNotStarted \<longrightarrow> ss_events s = [])"

definition remains :: "session \<Rightarrow> item list \<Rightarrow> bool" where
  "remains s rest \<longleftrightarrow> broken s \<or> (if builder_ended (ss_builder s) then prefix (todo s) rest else rest = todo s)"

text \<open>The block events are the served blocks in order, from the first on; a session that is not broken has used all of them.\<close>

definition matched :: "(bytes \<Rightarrow> hash32) \<Rightarrow> int \<Rightarrow> session \<Rightarrow> history \<Rightarrow> bool" where
  "matched sha256 index s h \<longleftrightarrow>
     prefix (map event_print (block_events (outgoing s h))) (map (block_print sha256 index) (hi_served h)) \<and>
     (broken s \<or> map event_print (block_events (outgoing s h)) = map (block_print sha256 index) (hi_served h))"

definition stream_inv :: "(bytes \<Rightarrow> hash32) \<Rightarrow> relay_config \<Rightarrow> session \<Rightarrow> history \<Rightarrow> bool" where
  "stream_inv sha256 c s h \<longleftrightarrow> ss_config s = c \<and> structured s \<and> matched sha256 (rl_RelayIndex c) s h \<and>
     (\<exists>items rest. list_all2 (observes sha256 (rl_RelayIndex c) (hi_served h)) items (outgoing s h) \<and>
        chain_items (hi_enqueued h) = items @ rest \<and> remains s rest)"

lemma stream_invI:
  "ss_config s = c \<Longrightarrow> structured s \<Longrightarrow> matched sha256 (rl_RelayIndex c) s h \<Longrightarrow>
     list_all2 (observes sha256 (rl_RelayIndex c) (hi_served h)) items (outgoing s h) \<Longrightarrow>
     chain_items (hi_enqueued h) = items @ rest \<Longrightarrow> remains s rest \<Longrightarrow> stream_inv sha256 c s h"
  by (auto simp: stream_inv_def)

lemma stream_invE:
  assumes "stream_inv sha256 c s h"
  obtains items rest where "list_all2 (observes sha256 (rl_RelayIndex c) (hi_served h)) items (outgoing s h)"
    and "chain_items (hi_enqueued h) = items @ rest" and "remains s rest" and "ss_config s = c" and "structured s"
    and "matched sha256 (rl_RelayIndex c) s h"
  using assms by (auto simp: stream_inv_def)

lemma observes_mono: "observes sha256 i bs x e \<Longrightarrow> set bs \<subseteq> set bs' \<Longrightarrow> observes sha256 i bs' x e"
  by (auto simp: observes_def split: item.splits)

lemma all_observes_mono:
  assumes "list_all2 (observes sha256 i bs) xs es" and "set bs \<subseteq> set bs'"
  shows "list_all2 (observes sha256 i bs') xs es"
  by (rule list_all2_mono [OF assms(1) observes_mono [OF _ assms(2)]])

text \<open>A move that neither emits nor consumes keeps the stream; one that breaks the session may drop its last event.\<close>

lemma stream_keep:
  assumes "stream_inv sha256 c s h" and "ss_config t = ss_config s" and "structured t"
    and "outgoing t h' = outgoing s h" and "hi_enqueued h' = hi_enqueued h" and "hi_served h' = hi_served h"
    and "\<And>rest. remains s rest \<Longrightarrow> remains t rest" and "broken s \<Longrightarrow> broken t"
  shows "stream_inv sha256 c t h'"
proof (rule stream_invE [OF assms(1)])
  fix items rest
  assume "list_all2 (observes sha256 (rl_RelayIndex c) (hi_served h)) items (outgoing s h)"
    and "chain_items (hi_enqueued h) = items @ rest" and "remains s rest" and "ss_config s = c"
    and "matched sha256 (rl_RelayIndex c) s h"
  with assms show ?thesis by (intro stream_invI [of t c sha256 h' items rest]) (auto simp: matched_def)
qed

lemma stream_break:
  assumes "stream_inv sha256 c s h" and "ss_config t = ss_config s" and "structured t" and "broken t"
    and "prefix (outgoing t h') (outgoing s h)" and "hi_enqueued h' = hi_enqueued h" and "prefix (hi_served h) (hi_served h')"
  shows "stream_inv sha256 c t h'"
proof (rule stream_invE [OF assms(1)])
  fix items rest
  assume i: "list_all2 (observes sha256 (rl_RelayIndex c) (hi_served h)) items (outgoing s h)"
    "chain_items (hi_enqueued h) = items @ rest" and c: "ss_config s = c" and m: "matched sha256 (rl_RelayIndex c) s h"
  have "matched sha256 (rl_RelayIndex c) t h'"
    using m assms(4,5,7) unfolding matched_def block_events_def
    by (meson filter_mono_prefix map_mono_prefix prefix_order.trans)
  from assms(5) obtain zs where "outgoing s h = outgoing t h' @ zs" by (auto simp: prefix_def)
  with i(1) obtain us vs where u: "items = us @ vs" "list_all2 (observes sha256 (rl_RelayIndex c) (hi_served h)) us (outgoing t h')"
    by (auto simp: list_all2_append2)
  have "list_all2 (observes sha256 (rl_RelayIndex c) (hi_served h')) us (outgoing t h')"
    by (rule all_observes_mono [OF u(2) set_mono_prefix [OF assms(7)]])
  with i(2) u(1) c \<open>matched sha256 (rl_RelayIndex c) t h'\<close> assms(2,3,4,6) show ?thesis
    by (intro stream_invI [of t c sha256 h' us "vs @ rest"]) (simp_all add: remains_def)
qed

lemma stream_emit:
  assumes "stream_inv sha256 c s h" and "ss_config t = ss_config s" and "structured t" and "\<not> broken s"
    and "outgoing t h' = outgoing s h @ [e]" and "hi_enqueued h' = hi_enqueued h" and "hi_served h' = hi_served h @ bs"
    and "map (block_print sha256 (rl_RelayIndex c)) bs = map event_print (block_events [e])"
    and "todo s = x # todo t" and "ss_builder t = ss_builder s" and "observes sha256 (rl_RelayIndex c) (hi_served h') x e"
  shows "stream_inv sha256 c t h'"
proof (rule stream_invE [OF assms(1)])
  fix items rest
  assume i: "list_all2 (observes sha256 (rl_RelayIndex c) (hi_served h)) items (outgoing s h)"
    "chain_items (hi_enqueued h) = items @ rest" "remains s rest" and c: "ss_config s = c" and m: "matched sha256 (rl_RelayIndex c) s h"
  then obtain rest' where r: "rest = x # rest'" "remains t rest'"
    using assms(4,9,10) by (cases rest) (auto simp: remains_def split: if_splits)
  have "list_all2 (observes sha256 (rl_RelayIndex c) (hi_served h')) (items @ [x]) (outgoing t h')"
    using all_observes_mono [OF i(1), of "hi_served h'"] assms(5,7,11) by (simp add: list_all2_appendI)
  moreover have "matched sha256 (rl_RelayIndex c) t h'"
    using m assms(4,5,7,8) by (simp add: matched_def block_events_def)
  ultimately show ?thesis using i(2) r c assms(2,3,6)
    by (intro stream_invI [of t c sha256 h' "items @ [x]" rest']) simp_all
qed

text \<open>Newly announced events go to the end of what is to be done.\<close>

lemma stream_announce:
  assumes "stream_inv sha256 c s h" and "ss_config t = ss_config s" and "structured t" and "broken t = broken s"
    and "outgoing t h' = outgoing s h" and "hi_enqueued h' = hi_enqueued h @ evs" and "hi_served h' = hi_served h"
    and "ss_builder t = ss_builder s"
    and "todo t = todo s @ (if builder_ended (ss_builder s) then [] else chain_items evs)"
  shows "stream_inv sha256 c t h'"
proof (rule stream_invE [OF assms(1)])
  fix items rest
  assume i: "list_all2 (observes sha256 (rl_RelayIndex c) (hi_served h)) items (outgoing s h)"
    "chain_items (hi_enqueued h) = items @ rest" "remains s rest" and c: "ss_config s = c" and m: "matched sha256 (rl_RelayIndex c) s h"
  have "matched sha256 (rl_RelayIndex c) t h'" using m assms(4,5,7) by (simp add: matched_def)
  moreover have "chain_items (hi_enqueued h') = items @ (rest @ chain_items evs)"
    using i(2) assms(6) by (simp add: chain_items_def)
  moreover have "remains t (rest @ chain_items evs)"
    using i(3) assms(4,8,9) by (auto simp: remains_def prefix_def split: if_splits)
  ultimately show ?thesis using i(1) c assms(2,3,5,7)
    by (intro stream_invI [of t c sha256 h' items "rest @ chain_items evs"]) simp_all
qed

section \<open>The moves keep the stream\<close>

text \<open>The part of a session the stream depends on.\<close>

definition view :: "session \<Rightarrow> _" where
  "view s = (ss_events s, callback_event (ss_callback s), ss_callback s = CallbackIdle, ss_fetcher s, ss_active s,
     map_option (\<lambda>r. (ar_headers r, ar_next r, ar_done r)) (ss_range s), ss_fetchJobs s, ss_builder s, ss_pending s,
     ss_chainEvents s)"

lemma view_range: "view t = view s \<Longrightarrow> ss_range s = Some r \<Longrightarrow>
    \<exists>r'. ss_range t = Some r' \<and> ar_headers r' = ar_headers r \<and> ar_next r' = ar_next r \<and> ar_done r' = ar_done r"
  by (cases "ss_range t") (auto simp: view_def)

lemma view_same:
  assumes "view t = view s"
  shows "outgoing t h = outgoing s h" and "todo t = todo s" and "broken t = broken s" and "structured t = structured s"
    and "ss_builder t = ss_builder s"
proof -
  note v = assms [unfolded view_def prod.inject]
  show "outgoing t h = outgoing s h" "ss_builder t = ss_builder s" using v by (simp_all add: outgoing_def)
  show b: "broken t = broken s"
    using v view_range [OF assms] view_range [OF assms [symmetric]] unfolding broken_def by metis
  show "todo t = todo s"
    using v by (cases "ss_range s"; cases "ss_range t") (auto simp: todo_def range_items_def queued_items_def split: bool.splits)
  show "structured t = structured s"
    using v b by (cases "ss_range s"; cases "ss_range t") (auto simp: structured_def)
qed

lemma stream_view:
  assumes "stream_inv sha256 c s h" and "view t = view s" and "ss_config t = ss_config s"
    and "hi_enqueued h' = hi_enqueued h" and "hi_delivered h' = hi_delivered h" and "hi_served h' = hi_served h"
  shows "stream_inv sha256 c t h'"
proof (rule stream_keep [OF assms(1,3)])
  show "structured t" using view_same(4) [OF assms(2)] assms(1) by (simp add: stream_inv_def)
  show "outgoing t h' = outgoing s h" using view_same(1) [OF assms(2), of h] assms(5) by (simp add: outgoing_def)
  show "remains s rest \<Longrightarrow> remains t rest" for rest
    using view_same(2,3,5) [OF assms(2)] by (auto simp: remains_def split: if_splits)
  show "broken s \<Longrightarrow> broken t" using view_same(3) [OF assms(2)] by simp
qed (use assms in simp_all)

lemma view_cancel [simp]: "view (cancel e s) = view s" "ss_config (cancel e s) = ss_config s"
  "view (callbackError e s) = view s" "ss_config (callbackError e s) = ss_config s"
  by (simp_all add: view_def cancel_def callbackError_def)

lemma view_releaseRaw [simp]: "view (releaseRaw e s) = view s" "ss_config (releaseRaw e s) = ss_config s"
  by (simp_all add: view_def releaseRaw_def Let_def)

lemma fetch_fails_broken:
  assumes "\<not> ss_active s"
  shows "broken (fetch_fails e s)" and "structured (fetch_fails e s)" and "ss_config (fetch_fails e s) = ss_config s"
    and "outgoing (fetch_fails e s) h = outgoing s h"
proof -
  have v: "view (fetch_fails e s) = view (s\<lparr>ss_fetcher := FetchEnded e\<rparr>)" by (simp add: fetch_fails_def)
  show "broken (fetch_fails e s)" "structured (fetch_fails e s)" "outgoing (fetch_fails e s) h = outgoing s h"
    unfolding view_same [OF v] using assms by (auto simp: broken_def structured_def outgoing_def)
  show "ss_config (fetch_fails e s) = ss_config s" by (simp add: fetch_fails_def)
qed

lemma abortRange_simps [simp]:
  "\<not> ss_active (abortRange e s)" "ss_config (abortRange e s) = ss_config s" "outgoing (abortRange e s) h = outgoing s h"
  "ss_callback (abortRange e s) = ss_callback s" "ss_fetcher (abortRange e s) = ss_fetcher s"
  by (simp_all add: abortRange_def outgoing_def)

lemma callback_fails_broken:
  assumes "structured s" and "ss_active s \<or> broken s"
  shows "broken (callback_fails e s)" and "structured (callback_fails e s)" and "ss_config (callback_fails e s) = ss_config s"
    and "prefix (outgoing (callback_fails e s) h) (outgoing s h)"
proof -
  let ?a = "abortRange e (s\<lparr>ss_callback := CallbackIdle\<rparr>)"
  have v: "view (callback_fails e s) = view ?a" by (simp add: callback_fails_def)
  have b: "broken ?a"
  proof (cases "ss_active s")
    case True
    then obtain r where "ss_fetcher s \<in> {FetchRequesting, FetchWaiting}" "ss_range s = Some r" "ar_done r = None"
      using assms(1) unfolding structured_def by blast
    then show ?thesis by (simp add: broken_def abortRange_def range_finish_def)
  next
    case False
    then have "broken s" using assms(2) by blast
    then show ?thesis by (cases "ss_range s") (auto simp: broken_def abortRange_def range_finish_def)
  qed
  then show "broken (callback_fails e s)" by (simp add: view_same [OF v])
  show "structured (callback_fails e s)"
    unfolding view_same [OF v] using assms(1)
    by (cases "ss_range s") (auto simp: structured_def abortRange_def range_finish_def)
  show "ss_config (callback_fails e s) = ss_config s" by (simp add: callback_fails_def)
  show "prefix (outgoing (callback_fails e s) h) (outgoing s h)"
    unfolding view_same [OF v] by (simp add: outgoing_def abortRange_def)
qed

lemma stream_structured: "stream_inv sha256 c s h \<Longrightarrow> structured s"
  by (simp add: stream_inv_def)

lemma stream_fetch_fails:
  assumes "stream_inv sha256 c s h" and "view s' = view (s\<lparr>ss_fetchJobs := jobs\<rparr>)" and "ss_config s' = ss_config s" and "\<not> ss_active s"
    and "hi_enqueued h' = hi_enqueued h" and "hi_delivered h' = hi_delivered h" and "hi_served h' = hi_served h"
  shows "stream_inv sha256 c (fetch_fails e s') h'"
proof -
  have o: "outgoing s' h' = outgoing s h" using assms(2,6) by (simp add: view_def outgoing_def)
  have "\<not> ss_active s'" using assms(2,4) by (simp add: view_def)
  note f = fetch_fails_broken [OF this]
  show ?thesis by (rule stream_break [OF assms(1)]) (use f o assms in simp_all)
qed

lemma stream_callback_fails:
  assumes "stream_inv sha256 c s h" and "ss_active s \<or> broken s" and "structured s'" and "ss_active s' \<or> broken s'"
    and "ss_config s' = ss_config s" and "prefix (outgoing s' h') (outgoing s h)"
    and "hi_enqueued h' = hi_enqueued h" and "prefix (hi_served h) (hi_served h')"
  shows "stream_inv sha256 c (callback_fails e s') h'"
proof -
  note f = callback_fails_broken [OF assms(3,4)]
  show ?thesis
    by (rule stream_break [OF assms(1) _ f(2,1) prefix_order.trans [OF f(4) assms(6)]]) (use f(3) assms in simp_all)
qed

text \<open>ChainSync callbacks.\<close>

lemma enqueueChainEvent_cases:
  assumes "enqueueChainEvent mo wait event s = Some t"
  obtains "view t = view s" "ss_config t = ss_config s"
  | "view t = view (s\<lparr>ss_chainEvents := ss_chainEvents s @ [event]\<rparr>)" "ss_config t = ss_config s"
proof (cases "ss_context s = None")
  case True
  with assms show ?thesis by (intro that(1)) (auto simp: enqueueChainEvent_def)
next
  case False
  with assms show ?thesis by (intro that(2)) (auto simp: enqueueChainEvent_def view_def split: if_splits)
qed

lemma stream_enqueue:
  assumes inv: "stream_inv sha256 c s h" and "enqueueChainEvent mo wait event s = Some t"
    and "hi_enqueued h' = hi_enqueued h @ drop (length (ss_chainEvents s)) (ss_chainEvents t)"
    and "hi_served h' = hi_served h" and "hi_delivered h' = hi_delivered h"
  shows "stream_inv sha256 c t h'"
proof (rule enqueueChainEvent_cases [OF assms(2)])
  assume v: "view t = view s" "ss_config t = ss_config s"
  then have "ss_chainEvents t = ss_chainEvents s" by (simp add: view_def)
  with v assms show ?thesis by (intro stream_view [OF inv]) simp_all
next
  let ?u = "s\<lparr>ss_chainEvents := ss_chainEvents s @ [event]\<rparr>"
  assume v: "view t = view ?u" "ss_config t = ss_config s"
  then have ev: "ss_chainEvents t = ss_chainEvents s @ [event]" by (simp add: view_def)
  show ?thesis
  proof (rule stream_announce [OF inv v(2)])
    show "structured t" "broken t = broken s" "ss_builder t = ss_builder s"
      using stream_structured [OF inv] unfolding view_same [OF v(1)] by (simp_all add: structured_def broken_def)
    show "outgoing t h' = outgoing s h" unfolding view_same [OF v(1)] using assms(5) by (simp add: outgoing_def)
    show "hi_enqueued h' = hi_enqueued h @ [event]" using assms(3) ev by simp
    show "todo t = todo s @ (if builder_ended (ss_builder s) then [] else chain_items [event])"
      unfolding view_same [OF v(1)] by (simp add: todo_def queued_items_def range_items_def chain_items_def)
  qed (use assms in simp)
qed

lemma stream_callbackError:
  "stream_inv sha256 c s h \<Longrightarrow> stream_inv sha256 c (callbackError e s) h"
  by (rule stream_view [where s = s and h = h]) simp_all

text \<open>The range builder.\<close>

lemma flush_items:
  assumes "flush_pending now s = (jobs, t)"
  shows "job_items jobs = map HeaderItem (ss_pending s)" and "ss_pending t = []"
    and "t = s\<lparr>ss_pending := ss_pending t, ss_headerStarted := ss_headerStarted t, ss_fetchMetrics := ss_fetchMetrics t\<rparr>"
  using assms by (auto simp: flush_pending_def job_items_def KindForward_def KindRollback_def split: if_splits)

lemma build_items:
  assumes "build_event now event s = (jobs, t)"
  shows "job_items jobs @ map HeaderItem (ss_pending t) = map HeaderItem (ss_pending s) @ chain_items [event]"
    and "t = s\<lparr>ss_pending := ss_pending t, ss_headerStarted := ss_headerStarted t, ss_caughtUp := ss_caughtUp t,
       ss_fetchMetrics := ss_fetchMetrics t\<rparr>"
proof -
  show "job_items jobs @ map HeaderItem (ss_pending t) = map HeaderItem (ss_pending s) @ chain_items [event]"
    using assms
    by (auto simp: build_event_def flush_pending_def stage_header_def job_items_def chain_items_def KindForward_def
        KindRollback_def Let_def split: chain_event_kind.splits if_splits prod.splits)
  show "t = s\<lparr>ss_pending := ss_pending t, ss_headerStarted := ss_headerStarted t, ss_caughtUp := ss_caughtUp t,
       ss_fetchMetrics := ss_fetchMetrics t\<rparr>"
    using assms
    by (auto simp: build_event_def flush_pending_def stage_header_def Let_def split: chain_event_kind.splits if_splits prod.splits)
qed

lemma builder_items_sending [simp]: "builder_items (sending jobs) = job_items jobs" "\<not> builder_ended (sending jobs)"
  by (simp_all add: sending_def job_items_def)

lemma chain_items_Cons: "chain_items (e # es) = chain_items [e] @ chain_items es"
  by (simp add: chain_items_def)

lemma stream_builder_take:
  assumes inv: "stream_inv sha256 c s h" and "builder_take now s = Some t"
  shows "stream_inv sha256 c t h"
proof -
  from assms(2) obtain event rest jobs u where b: "ss_builder s = BuilderIdle" "ss_chainEvents s = event # rest"
      "build_event now event (s\<lparr>ss_chainEvents := rest\<rparr>) = (jobs, u)" "t = u\<lparr>ss_builder := sending jobs\<rparr>"
    by (auto simp: builder_take_def split: builder.splits list.splits prod.splits)
  note i = build_items [OF b(3)]
  have t: "t = s\<lparr>ss_chainEvents := rest, ss_pending := ss_pending u, ss_headerStarted := ss_headerStarted u,
      ss_caughtUp := ss_caughtUp u, ss_fetchMetrics := ss_fetchMetrics u, ss_builder := sending jobs\<rparr>"
    unfolding b(4) by (subst i(2)) simp
  show ?thesis
  proof (rule stream_keep [OF inv])
    show "structured t" "outgoing t h = outgoing s h" "ss_config t = ss_config s"
      using stream_structured [OF inv] by (simp_all add: t structured_def broken_def outgoing_def)
    have "todo t = todo s"
      using i(1) by (simp add: t todo_def queued_items_def range_items_def b(1,2) chain_items_Cons [of event rest])
    moreover have "broken t = broken s" by (simp add: t broken_def)
    ultimately show "remains s r \<Longrightarrow> remains t r" for r by (auto simp: remains_def b(1) t)
    show "broken s \<Longrightarrow> broken t" by (simp add: t broken_def)
  qed simp_all
qed

lemma stream_enqueueJob:
  assumes inv: "stream_inv sha256 c s h" and "enqueueJob wait s = Some t"
  shows "stream_inv sha256 c t h"
proof -
  from assms(2) obtain job rest m where b: "ss_builder s = BuilderSending (job # rest)"
      "t = s\<lparr>ss_fetchJobs := ss_fetchJobs s @ [job], ss_fetchMetrics := m, ss_builder := sending rest\<rparr>"
    by (auto simp: enqueueJob_def split: builder.splits list.splits if_splits)
  show ?thesis
  proof (rule stream_keep [OF inv])
    show "structured t" "outgoing t h = outgoing s h" "ss_config t = ss_config s"
      using stream_structured [OF inv] by (simp_all add: b(2) structured_def broken_def outgoing_def)
    have "todo t = todo s" by (simp add: b todo_def queued_items_def range_items_def job_items_def)
    moreover have "broken t = broken s" by (simp add: b broken_def)
    ultimately show "remains s r \<Longrightarrow> remains t r" for r by (auto simp: remains_def b)
    show "broken s \<Longrightarrow> broken t" by (simp add: b broken_def)
  qed simp_all
qed

lemma stream_builder_stop:
  assumes inv: "stream_inv sha256 c s h" and "builder_stop s = Some t"
  shows "stream_inv sha256 c t h"
proof -
  from assms(2) obtain e where b: "\<not> builder_ended (ss_builder s)" "t = s\<lparr>ss_builder := BuilderEnded e\<rparr>"
    by (auto simp: builder_stop_def split: builder.splits option.splits)
  show ?thesis
  proof (rule stream_keep [OF inv])
    show "structured t" "outgoing t h = outgoing s h" "ss_config t = ss_config s"
      using stream_structured [OF inv] by (simp_all add: b(2) structured_def broken_def outgoing_def)
    have "prefix (todo t) (todo s)" by (simp add: b todo_def queued_items_def range_items_def)
    moreover have "broken t = broken s" by (simp add: b broken_def)
    ultimately show "remains s r \<Longrightarrow> remains t r" for r using b(1) by (auto simp: remains_def b(2))
    show "broken s \<Longrightarrow> broken t" by (simp add: b broken_def)
  qed simp_all
qed

text \<open>The fetch loop.\<close>

lemma idle_inactive: "structured s \<Longrightarrow> ss_fetcher s \<notin> {FetchRequesting, FetchWaiting} \<Longrightarrow> \<not> ss_active s"
  by (auto simp: structured_def)

lemma stream_fetch_take:
  assumes inv: "stream_inv sha256 c s h" and "fetch_take now s = Some t"
  shows "stream_inv sha256 c t h"
proof -
  from assms(2) obtain job rest where f: "ss_fetcher s = FetchIdle" "ss_fetchJobs s = job # rest"
    by (auto simp: fetch_take_def Let_def split: fetcher.splits option.splits list.splits)
  let ?u = "s\<lparr>ss_fetchJobs := rest\<rparr>"
  have na: "\<not> ss_active s" using idle_inactive [OF stream_structured [OF inv]] f(1) by simp
  have ni: "\<not> broken s" "ss_callback s = CallbackIdle"
    using stream_structured [OF inv] na f(1) by (auto simp: broken_def structured_def)
  consider (fails) e where "t = fetch_fails e ?u"
    | (rollback) "fj_kind job = KindRollback" "t = ?u\<lparr>ss_fetcher := FetchEmitting (fj_rollback job)\<rparr>"
    | (range) "fj_kind job = KindForward" "t = ?u\<lparr>ss_range := Some (new_range now job (ss_previousRangeDone s)), ss_active := True,
                ss_fetcher := FetchRequesting\<rparr>"
    using assms(2) f by (auto simp: fetch_take_def Let_def split: option.splits if_splits)
  then show ?thesis
  proof cases
    case fails
    then show ?thesis using stream_fetch_fails [OF inv, of ?u rest h] na by simp
  next
    case rollback
    have "todo t = todo s" by (simp add: rollback todo_def queued_items_def range_items_def na f job_items_def)
    then show ?thesis using stream_structured [OF inv] na f ni
      by (intro stream_keep [OF inv]) (auto simp: rollback structured_def broken_def outgoing_def remains_def split: if_splits)
  next
    case range
    have "todo t = todo s"
      by (simp add: range todo_def queued_items_def range_items_def na f job_items_def new_range_def Let_def KindForward_def KindRollback_def)
    then show ?thesis using stream_structured [OF inv] na f ni
      by (intro stream_keep [OF inv])
        (auto simp: range structured_def broken_def outgoing_def remains_def new_range_def Let_def split: if_splits)
  qed
qed

lemma fetch_fails_abort:
  assumes inv: "stream_inv sha256 c s h"
  shows "stream_inv sha256 c (fetch_fails e (abortRange e' s)) h"
proof -
  note f = fetch_fails_broken [of "abortRange e' s" e]
  show ?thesis by (rule stream_break [OF inv]) (use f in simp_all)
qed

lemma stream_range_requested:
  assumes inv: "stream_inv sha256 c s h" and "range_requested answer wait s = Some t"
  shows "stream_inv sha256 c t h"
proof -
  consider (fails) e where "t = fetch_fails e (abortRange e s)"
    | (waits) "ss_fetcher s = FetchRequesting"
        "t = s\<lparr>ss_range := map_option (\<lambda>r. r\<lparr>ar_getRangeWait := wait\<rparr>) (ss_range s), ss_fetcher := FetchWaiting\<rparr>"
    using assms(2) by (auto simp: range_requested_def split: fetcher.splits option.splits)
  then show ?thesis
  proof cases
    case fails
    then show ?thesis using fetch_fails_abort [OF inv] by simp
  next
    case waits
    have "todo t = todo s"
      by (cases "ss_range s") (simp_all add: waits todo_def queued_items_def range_items_def split: bool.splits)
    moreover have "broken t = broken s" by (cases "ss_range s") (simp_all add: waits broken_def)
    moreover from this have "structured t"
      using stream_structured [OF inv] by (cases "ss_range s") (simp_all add: structured_def waits)
    ultimately show ?thesis
      by (intro stream_keep [OF inv]) (auto simp: waits outgoing_def remains_def split: if_splits)
  qed
qed

lemma stream_range_done:
  assumes inv: "stream_inv sha256 c s h" and "range_done unix s = Some t"
  shows "stream_inv sha256 c t h"
proof -
  from assms(2) obtain r where f: "ss_fetcher s = FetchWaiting" "ss_range s = Some r"
    by (auto simp: range_done_def split: fetcher.splits option.splits)
  consider (fails) e where "ar_done r = Some (Some e)" "t = fetch_fails e s"
    | (finished) "ar_done r = Some None" "t = (observeCompletedRange unix r s)\<lparr>ss_previousRangeDone := ar_completed r, ss_fetcher := FetchIdle\<rparr>"
    using assms(2) f by (auto simp: range_done_def split: option.splits)
  then show ?thesis
  proof cases
    case fails
    then have "\<not> ss_active s" using stream_structured [OF inv] f by (auto simp: structured_def)
    then show ?thesis using stream_fetch_fails [OF inv, of s "ss_fetchJobs s" h] fails(2) by simp
  next
    case finished
    then have na: "\<not> ss_active s" using stream_structured [OF inv] f by (auto simp: structured_def)
    then have nb: "\<not> broken s" using finished f by (simp add: broken_def)
    have "todo t = todo s"
      by (simp add: finished todo_def queued_items_def range_items_def na f observeCompletedRange_def)
    then show ?thesis using stream_structured [OF inv] na nb f
      by (intro stream_keep [OF inv])
        (auto simp: finished structured_def broken_def outgoing_def remains_def observeCompletedRange_def split: if_splits)
  qed
qed

lemma stream_fetch_emit:
  assumes inv: "stream_inv sha256 c s h" and "fetch_emit s = Some t"
    and kinds: "\<And>e. RollbackItem e \<in> set (chain_items (hi_enqueued h)) \<Longrightarrow> re_Kind e = KindRollback"
  shows "stream_inv sha256 c t h"
proof -
  from assms(2) obtain event where f: "ss_fetcher s = FetchEmitting event"
    by (auto simp: fetch_emit_def split: fetcher.splits)
  have na: "\<not> ss_active s" using idle_inactive [OF stream_structured [OF inv]] f(1) by simp
  have ni: "\<not> broken s" "ss_callback s = CallbackIdle"
    using stream_structured [OF inv] na f(1) by (auto simp: broken_def structured_def)
  consider (fails) e where "t = fetch_fails e s"
    | (sent) m where "t = s\<lparr>ss_events := ss_events s @ [event], ss_fetchMetrics := m, ss_previousRangeDone := 0, ss_fetcher := FetchIdle\<rparr>"
    using assms(2) f by (auto simp: fetch_emit_def send_event_def split: option.splits if_splits)
  then show ?thesis
  proof cases
    case fails
    then show ?thesis using stream_fetch_fails [OF inv, of s "ss_fetchJobs s" h] na by simp
  next
    case sent
    have "re_Kind event = KindRollback"
    proof (rule stream_invE [OF inv])
      fix items rest
      assume "chain_items (hi_enqueued h) = items @ rest" "remains s rest"
      moreover have "RollbackItem event \<in> set (todo s)" by (simp add: todo_def f)
      ultimately show ?thesis using ni(1) by (intro kinds) (auto simp: remains_def dest: set_mono_prefix split: if_splits)
    qed
    then have kind: "re_Kind event \<noteq> KindForward" by (simp add: KindForward_def KindRollback_def)
    show ?thesis
    proof (rule stream_emit [OF inv, where e = event and x = "RollbackItem event" and bs = "[]"])
      show "structured t" using stream_structured [OF inv] na ni f by (simp add: sent structured_def broken_def)
      show "todo s = RollbackItem event # todo t"
        by (simp add: sent todo_def queued_items_def range_items_def na f)
    qed (use ni kind in \<open>simp_all add: sent outgoing_def observes_def block_events_def\<close>)
  qed
qed

lemma stream_fetch_stop:
  assumes inv: "stream_inv sha256 c s h" and "fetch_stop s = Some t"
  shows "stream_inv sha256 c t h"
proof -
  consider (plain) e where "ss_fetcher s \<notin> {FetchRequesting, FetchWaiting}" "t = fetch_fails e s"
    | (aborted) e where "t = fetch_fails e (abortRange e s)"
    | (released) e event where "ss_fetcher s \<notin> {FetchRequesting, FetchWaiting}" "t = fetch_fails e (releaseRaw event s)"
    using assms(2) by (auto simp: fetch_stop_def split: fetcher.splits option.splits)
  then show ?thesis
  proof cases
    case plain
    then show ?thesis using stream_fetch_fails [OF inv, of s "ss_fetchJobs s" h] idle_inactive [OF stream_structured [OF inv]] by simp
  next
    case aborted
    then show ?thesis using fetch_fails_abort [OF inv] by simp
  next
    case released
    then show ?thesis
      using stream_fetch_fails [OF inv, of "releaseRaw event s" "ss_fetchJobs s" h] idle_inactive [OF stream_structured [OF inv]] by simp
  qed
qed

text \<open>BlockFetch callbacks.\<close>

lemma onRawBlock_cases:
  assumes run: "onRawBlock sha256 now blockType raw s = Some t"
  obtains (refused) e where "t = callbackError e s" "ss_callback s = CallbackIdle" "\<not> ss_active s \<or> ss_range s = None \<or> raw = []"
  | (fails) e r where "t = callback_fails e s" "ss_callback s = CallbackIdle" "ss_active s" "ss_range s = Some r"
  | (fails_later) e r where "t = callback_fails e (s\<lparr>ss_range := Some (count_raw now raw r)\<rparr>)" "ss_callback s = CallbackIdle"
      "ss_active s" "ss_range s = Some r" "ar_next r < length (ar_headers r)"
  | (taken) r event cb where "t = s\<lparr>ss_range := Some (count_raw now raw r), ss_callback := cb\<rparr>" "ss_callback s = CallbackIdle"
      "ss_active s" "ss_range s = Some r" "ar_next r < length (ar_headers r)" "raw \<noteq> []"
      "blockType = eh_blockType (ar_headers r ! ar_next r)"
      "event = forward_event sha256 now blockType (ar_headers r ! ar_next r) raw s"
      "if rl_RelayIndex (ss_config s) = 0 then cb = Reserving event \<and> int (length raw) \<le> rl_RawQueueBytes (ss_config s)
       else cb = Sending event"
proof -
  have idle: "ss_callback s = CallbackIdle" using run by (auto simp: onRawBlock_def Let_def split: if_splits)
  consider (none) e where "t = callbackError e s" "\<not> ss_active s \<or> ss_range s = None \<or> raw = []" | (active) r where "ss_active s" "ss_range s = Some r" "raw \<noteq> []"
    using run by (auto simp: onRawBlock_def Let_def split: if_splits bool.splits option.splits)
  then show thesis
  proof cases
    case none
    then show thesis using refused idle by blast
  next
    case active
    let ?u = "s\<lparr>ss_range := Some (count_raw now raw r)\<rparr>" and ?event = "forward_event sha256 now blockType (ar_headers r ! ar_next r) raw s"
    have "(\<exists>e. t = callback_fails e s) \<or> ar_next r < length (ar_headers r) \<and> ((\<exists>e. t = callback_fails e ?u) \<or>
        blockType = eh_blockType (ar_headers r ! ar_next r) \<and>
        (if rl_RelayIndex (ss_config s) = 0
         then t = ?u\<lparr>ss_callback := Reserving ?event\<rparr> \<and> int (length raw) \<le> rl_RawQueueBytes (ss_config s)
         else t = ?u\<lparr>ss_callback := Sending ?event\<rparr>))"
      using run active idle by (auto simp: onRawBlock_def Let_def split: if_splits)
    then show thesis
      using fails [OF _ idle active(1,2)] fails_later [OF _ idle active(1,2)] taken [OF _ idle active(1,2) _ active(3)]
      by (auto split: if_splits)
  qed
qed

lemma counted_structured:
  assumes "structured s" and "ss_active s" and "ss_range s = Some r" and "ss_callback s = CallbackIdle"
    and "ar_next r < length (ar_headers r)"
  shows "structured (s\<lparr>ss_range := Some (count_raw now raw r), ss_callback := cb\<rparr>)"
    and "structured (s\<lparr>ss_range := Some (count_raw now raw r)\<rparr>)"
  using assms by (auto simp: structured_def count_raw_def)

lemma stream_onRawBlock:
  assumes inv: "stream_inv sha256 c s h" and "onRawBlock sha256 now blockType raw s = Some t"
    and h': "hi_enqueued h' = hi_enqueued h" "hi_delivered h' = hi_delivered h" "hi_served h' = hi_served h @ served (RawBlock now blockType raw) s"
  shows "stream_inv sha256 c t h'"
  using assms(2)
proof (cases rule: onRawBlock_cases)
  case (refused e)
  then have "served (RawBlock now blockType raw) s = []" using stream_structured [OF inv] by (auto simp: structured_def)
  then show ?thesis using refused(1) h' by (intro stream_view [OF inv]) simp_all
next
  case (fails e r)
  then show ?thesis using stream_structured [OF inv] h' by (auto intro!: stream_callback_fails [OF inv] simp: outgoing_def)
next
  case (fails_later e r)
  let ?u = "s\<lparr>ss_range := Some (count_raw now raw r)\<rparr>"
  have "structured ?u" by (rule counted_structured(2) [OF stream_structured [OF inv] fails_later(3,4,2,5)])
  then show ?thesis using fails_later h' by (auto intro!: stream_callback_fails [OF inv] simp: outgoing_def)
next
  case (taken r event cb)
  note st = stream_structured [OF inv]
  let ?h = "ar_headers r ! ar_next r"
  from taken st have "ss_fetcher s \<in> {FetchRequesting, FetchWaiting}" by (auto simp: structured_def)
  then have fi: "fetcher_items (ss_fetcher s) = []" by auto
  have c: "ss_config s = c" using inv by (simp add: stream_inv_def)
  have cb: "callback_event cb = [event]" using taken(9) by (auto split: if_splits)
  show ?thesis
  proof (rule stream_emit [OF inv, where e = event and x = "HeaderItem ?h" and bs = "[(blockType, raw)]"])
    show "structured t" unfolding taken(1) by (rule counted_structured(1) [OF st taken(3,4,2,5)])
    show "todo s = HeaderItem ?h # todo t"
      using taken(3-5) fi Cons_nth_drop_Suc [of "ar_next r" "ar_headers r"]
      by (auto simp: taken(1) todo_def queued_items_def range_items_def count_raw_def simp flip: list.map)
    show "observes sha256 (rl_RelayIndex c) (hi_served h') (HeaderItem ?h) event"
      using taken(3,6-8) c h'(3) by (auto simp: observes_def forward_event_def)
    show "map (block_print sha256 (rl_RelayIndex c)) [(blockType, raw)] = map event_print (block_events [event])"
      using taken(8) c by (simp add: block_events_def event_print_def block_print_def forward_event_def)
  qed (use taken(2,3,6) cb h' in \<open>simp_all add: taken(1) outgoing_def broken_def\<close>)
qed

lemma view_range_update:
  assumes "\<And>r. ar_headers (f r) = ar_headers r \<and> ar_next (f r) = ar_next r \<and> ar_done (f r) = ar_done r"
  shows "view (s\<lparr>ss_range := map_option f (ss_range s)\<rparr>) = view s"
  using assms by (cases "ss_range s") (simp_all add: view_def)

lemma stream_reserveRaw:
  assumes inv: "stream_inv sha256 c s h" and "reserveRaw wait s = Some t"
  shows "stream_inv sha256 c t h"
proof -
  have "view t = view s \<and> ss_config t = ss_config s"
    using assms(2) by (cases "ss_range s") (auto simp: reserveRaw_def view_def Let_def split: raw_callback.splits if_splits)
  then show ?thesis by (intro stream_view [OF inv]) simp_all
qed

lemma stream_wake_up:
  assumes inv: "stream_inv sha256 c s h" and "wake_up s = Some t"
  shows "stream_inv sha256 c t h"
proof -
  have "view t = view s \<and> ss_config t = ss_config s"
    using assms(2) by (auto simp: wake_up_def view_def split: raw_callback.splits if_splits)
  then show ?thesis by (intro stream_view [OF inv]) simp_all
qed

lemma stream_callback_send:
  assumes inv: "stream_inv sha256 c s h" and "callback_send wait s = Some t"
  shows "stream_inv sha256 c t h"
proof -
  from assms(2) obtain event where f: "ss_callback s = Sending event"
    by (auto simp: callback_send_def split: raw_callback.splits)
  note st = stream_structured [OF inv]
  have ab: "ss_active s \<or> broken s" using st f by (auto simp: structured_def)
  have "(\<exists>e. t = callback_fails e s) \<or>
      (view t = view (s\<lparr>ss_events := ss_events s @ [event], ss_callback := CallbackIdle\<rparr>) \<and> ss_config t = ss_config s)"
    using assms(2) f
    by (cases "ss_range s") (auto simp: callback_send_def send_event_def view_def split: option.splits if_splits)
  then consider (fails) e where "t = callback_fails e s"
    | (sent) "view t = view (s\<lparr>ss_events := ss_events s @ [event], ss_callback := CallbackIdle\<rparr>)" "ss_config t = ss_config s"
    by blast
  then show ?thesis
  proof cases
    case fails
    then show ?thesis using st ab by (auto intro!: stream_callback_fails [OF inv])
  next
    case sent
    let ?u = "s\<lparr>ss_events := ss_events s @ [event], ss_callback := CallbackIdle\<rparr>"
    note v = view_same [OF sent(1)]
    have nn: "ss_fetcher s \<noteq> FetchNotStarted" using ab st by (auto simp: structured_def broken_def)
    have b: "broken ?u = broken s" "todo ?u = todo s" by (simp_all add: broken_def todo_def queued_items_def range_items_def)
    have e: "ss_events t = ss_events s @ [event]" "callback_event (ss_callback t) = []"
      using sent(1) by (simp_all add: view_def)
    have "structured ?u" using st nn b(1) by (simp add: structured_def)
    then show ?thesis
      by (intro stream_keep [OF inv sent(2)]) (auto simp: v(2-) b e f outgoing_def remains_def split: if_splits)
  qed
qed

lemma stream_callback_stop:
  assumes inv: "stream_inv sha256 c s h" and "callback_stop s = Some t"
  shows "stream_inv sha256 c t h"
proof -
  note st = stream_structured [OF inv]
  have ab: "ss_active s \<or> broken s" using assms(2) st by (auto simp: callback_stop_def structured_def split: raw_callback.splits)
  have v: "view (releaseRaw e s) = view s" for e by simp
  have a: "ss_active (releaseRaw e s) = ss_active s" for e by (simp add: releaseRaw_def Let_def)
  from assms(2) obtain e u where t: "t = callback_fails e u" "u = s \<or> (\<exists>x. u = releaseRaw x s)"
    by (auto simp: callback_stop_def split: raw_callback.splits option.splits)
  have "structured u \<and> (ss_active u \<or> broken u) \<and> ss_config u = ss_config s \<and> outgoing u h = outgoing s h"
    using t(2) st ab a view_same [OF v] by auto
  then show ?thesis unfolding t(1) using ab by (intro stream_callback_fails [OF inv]) simp_all
qed

lemma stream_onBatchDone:
  assumes inv: "stream_inv sha256 c s h" and "onBatchDone now s = Some t"
  shows "stream_inv sha256 c t h"
proof -
  note st = stream_structured [OF inv]
  from assms(2) have idle: "ss_callback s = CallbackIdle" by (auto simp: onBatchDone_def Let_def split: if_splits)
  consider (refused) e where "t = callbackError e s"
    | (active) r where "ss_active s" "ss_range s = Some r"
    using assms(2) by (auto simp: onBatchDone_def Let_def split: if_splits bool.splits option.splits)
  then show ?thesis
  proof cases
    case refused
    then show ?thesis using stream_callbackError [OF inv] by simp
  next
    case active
    from active st have r: "ss_fetcher s \<in> {FetchRequesting, FetchWaiting}" "ar_done r = None" "ar_next r \<le> length (ar_headers r)"
      by (auto simp: structured_def)
    define u where "u err = s\<lparr>ss_active := False, ss_range := Some (r\<lparr>ar_completed := now, ar_done := Some err\<rparr>)\<rparr>" for err
    have nb: "\<not> broken s" using active(1) by (simp add: broken_def)
    have o: "outgoing (u err) h = outgoing s h" for err by (simp add: u_def outgoing_def)
    have st_u: "structured (u err)" for err using st r idle by (auto simp: structured_def u_def)
    consider (bad) e where "t = callbackError e (u (Some e))" | (good) "t = u None" "ar_next r = length (ar_headers r)"
      using assms(2) active idle r(2) by (auto simp: onBatchDone_def Let_def u_def range_finish_def split: if_splits)
    then show ?thesis
    proof cases
      case bad
      have "broken (u (Some e))" using r by (simp add: u_def broken_def)
      then have "stream_inv sha256 c (u (Some e)) h"
        by (intro stream_break [OF inv]) (use st_u o in \<open>simp_all add: u_def\<close>)
      then show ?thesis unfolding bad by (rule stream_callbackError)
    next
      case good
      have "todo (u None) = todo s" using active good(2) by (simp add: u_def todo_def range_items_def queued_items_def)
      moreover have "\<not> broken (u None)" using r by (auto simp: u_def broken_def)
      ultimately show ?thesis unfolding good(1)
        using st_u o nb by (intro stream_keep [OF inv]) (auto simp: u_def remains_def split: if_splits)
    qed
  qed
qed

text \<open>The reader, the start and the end.\<close>

lemma stream_session_next:
  assumes inv: "stream_inv sha256 c s h" and "session_next s = Some (r, t)"
    and h': "hi_enqueued h' = hi_enqueued h" "hi_served h' = hi_served h" "hi_delivered h' = hi_delivered h @ take 1 (ss_events s)"
  shows "stream_inv sha256 c t h'"
proof (cases "ss_events s")
  case Nil
  then have "t = s" using assms(2) by (auto simp: session_next_def split: if_splits)
  with Nil h' show ?thesis by (intro stream_view [OF inv]) simp_all
next
  case (Cons event rest)
  let ?u = "s\<lparr>ss_events := rest\<rparr>"
  have t: "view t = view ?u" "ss_config t = ss_config s" using assms(2) Cons by (auto simp: session_next_def)
  note v = view_same [OF t(1)]
  have b: "broken ?u = broken s" "todo ?u = todo s" by (simp_all add: broken_def todo_def queued_items_def range_items_def)
  have e: "ss_events t = rest" "callback_event (ss_callback t) = callback_event (ss_callback s)"
    using t(1) by (simp_all add: view_def)
  have "structured ?u" using stream_structured [OF inv] b(1) Cons by (auto simp: structured_def)
  then show ?thesis
    by (intro stream_keep [OF inv t(2)]) (auto simp: v(2-) b e h' outgoing_def Cons remains_def split: if_splits)
qed

lemma view_fold_releaseRaw: "view (fold releaseRaw es s) = view s" "ss_config (fold releaseRaw es s) = ss_config s"
  by (induction es arbitrary: s) simp_all

lemma stream_finish:
  assumes inv: "stream_inv sha256 c s h" and "workers_ended s"
  shows "stream_inv sha256 c (session_finish cause s) h"
proof -
  note st = stream_structured [OF inv]
  have na: "\<not> ss_active s" using assms(2) st by (auto simp: workers_ended_def structured_def split: fetcher.splits)
  have idle: "ss_callback s = CallbackIdle" using assms(2) by (simp add: workers_ended_def)
  show ?thesis
  proof (cases "ss_done s")
    case True
    then show ?thesis by (intro stream_view [OF inv]) (simp_all add: session_finish_def view_def)
  next
    case False
    let ?u = "s\<lparr>ss_events := []\<rparr>"
    let ?w = "s\<lparr>ss_cause := cause, ss_ready := True\<rparr>"
    have "view (session_finish cause s) = view ((fold releaseRaw (ss_events s) ?w)\<lparr>ss_events := []\<rparr>)"
      using False by (simp add: session_finish_def Let_def view_def)
    also have "\<dots> = view ?u" using view_fold_releaseRaw(1) [of "ss_events s" ?w] by (simp add: view_def)
    finally have t: "view (session_finish cause s) = view ?u" .
    have cf: "ss_config (session_finish cause s) = ss_config s"
      by (simp add: session_finish_def Let_def view_fold_releaseRaw(2))
    note v = view_same [OF t]
    have b: "broken ?u = broken s" "todo ?u = todo s" by (simp_all add: broken_def todo_def queued_items_def range_items_def)
    have su: "structured ?u" using st b(1) by (auto simp: structured_def)
    show ?thesis
    proof (cases "ss_fetcher s = FetchNotStarted")
      case True
      then have "ss_events s = []" using st by (simp add: structured_def)
      then have "?u = s" by simp
      then show ?thesis using t cf by (intro stream_view [OF inv]) simp_all
    next
      case False
      then have "broken s" using assms(2) na by (auto simp: workers_ended_def broken_def split: fetcher.splits)
      moreover have "ss_events (session_finish cause s) = []" "callback_event (ss_callback (session_finish cause s)) = []"
        using t idle by (simp_all add: view_def)
      ultimately show ?thesis
        by (intro stream_break [OF inv cf]) (simp_all add: v(2-) b su outgoing_def)
    qed
  qed
qed

lemma stream_start_workers:
  assumes inv: "stream_inv sha256 c s h" and "start_workers s = Some t"
  shows "stream_inv sha256 c t h"
proof -
  from assms(2) have t: "ss_builder s = BuilderNotStarted" "ss_fetcher s = FetchNotStarted"
      "t = s\<lparr>ss_builder := BuilderIdle, ss_fetcher := FetchIdle\<rparr>"
    by (auto simp: start_workers_def split: if_splits)
  note st = stream_structured [OF inv]
  have na: "\<not> ss_active s" "\<not> broken s" using st t(2) by (auto simp: structured_def broken_def)
  have "todo t = todo s" by (simp add: t todo_def queued_items_def range_items_def na)
  then show ?thesis using st na
    by (intro stream_keep [OF inv]) (auto simp: t structured_def broken_def outgoing_def remains_def split: if_splits)
qed

lemma stream_chain_callback:
  assumes inv: "stream_inv sha256 c s h"
    and "(\<exists>e. t = callbackError e s) \<or> (\<exists>event. enqueueChainEvent mo wait event s = Some t)"
    and h': "hi_enqueued h' = hi_enqueued h @ drop (length (ss_chainEvents s)) (ss_chainEvents t)"
      "hi_served h' = hi_served h" "hi_delivered h' = hi_delivered h"
  shows "stream_inv sha256 c t h'"
  using assms(2)
proof
  assume "\<exists>e. t = callbackError e s"
  then have "view t = view s" "ss_config t = ss_config s" "ss_chainEvents t = ss_chainEvents s"
    by (auto simp: callbackError_def cancel_def view_def)
  with h' show ?thesis by (intro stream_view [OF inv]) simp_all
next
  assume "\<exists>event. enqueueChainEvent mo wait event s = Some t"
  with stream_enqueue [OF inv _ h'] show ?thesis by blast
qed

lemma stream_move:
  assumes inv: "stream_inv sha256 c s h" and "session_move sha256 mo mv s = Some t"
    and kinds: "\<And>e. RollbackItem e \<in> set (chain_items (hi_enqueued h)) \<Longrightarrow> re_Kind e = KindRollback"
  shows "stream_inv sha256 c t (extend mv s t h)"
proof -
  have same: "stream_inv sha256 c t (extend mv s t h)"
    if "stream_inv sha256 c t h" and "enqueued mv s t = []" and "served mv s = []" and "delivered mv s = []"
    using that by (intro stream_view [OF that(1)]) simp_all
  have quiet: "stream_inv sha256 c t h" if "view t = view s" and "ss_config t = ss_config s"
    using that by (intro stream_view [OF inv]) simp_all
  show ?thesis
  proof (cases mv)
    case (RollForward now wait blockType header tip)
    then have "(\<exists>e. t = callbackError e s) \<or> (\<exists>event. enqueueChainEvent mo wait event s = Some t)"
      using assms(2) by (auto simp: onRollForward_def Let_def split: option.splits sum.splits)
    then show ?thesis using RollForward stream_chain_callback [OF inv] by auto
  next
    case (RollBackward now wait p tip)
    then have "(\<exists>e. t = callbackError e s) \<or> (\<exists>event. enqueueChainEvent mo wait event s = Some t)"
      using assms(2) by (auto simp: onRollBackward_def Let_def split: option.splits sum.splits)
    then show ?thesis using RollBackward stream_chain_callback [OF inv] by auto
  next
    case (AwaitReply wait)
    then show ?thesis using assms(2) stream_enqueue [OF inv] by (auto simp: onAwaitReply_def)
  next
    case (RawBlock now blockType raw)
    then show ?thesis using assms(2) stream_onRawBlock [OF inv, of now blockType raw t] by auto
  next
    case ReadNext
    then show ?thesis using assms(2) stream_session_next [OF inv] by auto
  next
    case (Begin now)
    then show ?thesis using assms(2)
      by (intro same quiet) (auto simp: session_begin_def view_def split: if_splits sum.splits)
  next
    case (Identify version address)
    then show ?thesis using assms(2) by (intro same quiet) (auto simp: captureNegotiatedIdentity_def view_def)
  next
    case (SelectIntersection answer candidates)
    then show ?thesis using assms(2)
      by (intro same quiet) (auto simp: settle_def view_def cancel_def split: sum.splits)
  next
    case SignalReady
    then show ?thesis using assms(2) by (intro same quiet) (auto simp: view_def)
  next
    case (Cancel err)
    then show ?thesis using assms(2) by (intro same quiet) auto
  next
    case RangeDisconnected
    then show ?thesis using assms(2) fetch_fails_abort [OF inv]
      by (intro same) (auto simp: range_disconnected_def Let_def split: fetcher.splits)
  qed (use assms(2) same in \<open>auto intro: stream_start_workers [OF inv] stream_builder_take [OF inv] stream_enqueueJob [OF inv]
      stream_builder_stop [OF inv] stream_fetch_take [OF inv] stream_range_requested [OF inv] stream_range_done [OF inv]
      stream_fetch_emit [OF inv _ kinds] stream_fetch_stop [OF inv] stream_reserveRaw [OF inv] stream_wake_up [OF inv]
      stream_callback_send [OF inv] stream_callback_stop [OF inv] stream_onBatchDone [OF inv] stream_finish [OF inv]
      split: if_splits\<close>)
qed

lemma stream_new:
  assumes "NewSession maxRecv logger c = Inr s"
  shows "stream_inv sha256 c s no_history"
proof -
  have s: "ss_config s = c" "ss_callback s = CallbackIdle" "ss_fetcher s = FetchNotStarted" "ss_builder s = BuilderNotStarted"
      "ss_events s = []" "\<not> ss_active s" "ss_fetchJobs s = []" "ss_pending s = []" "ss_chainEvents s = []"
    using assms by (auto simp: NewSession_def split: option.splits)
  then show ?thesis
    by (intro stream_invI [where items = "[]" and rest = "[]"])
      (simp_all add: structured_def broken_def outgoing_def remains_def todo_def range_items_def queued_items_def
        job_items_def chain_items_def matched_def block_events_def no_history_def)
qed

section \<open>What the relay said\<close>

lemma pointFromHeader_says:
  "case pointFromHeader header of Inr p \<Rightarrow> length (bh_Hash header) = 32 \<and> says_header header p | Inl e \<Rightarrow> length (bh_Hash header) \<noteq> 32"
  by (auto simp: pointFromHeader_def says_header_def bytes32_make32)

lemma pointFromProtocol_says:
  "case pointFromProtocol p of Inr q \<Rightarrow> well_formed_point p \<and> says_point p q | Inl e \<Rightarrow> \<not> well_formed_point p"
  by (auto simp: pointFromProtocol_def says_point_def well_formed_point_def origin_point_def bytes32_make32)

lemma pointFromTip_says:
  "case pointFromTip tip of Inr q \<Rightarrow> well_formed_point (pp_Point tip) \<and> says_tip tip q | Inl e \<Rightarrow> \<not> well_formed_point (pp_Point tip)"
  using pointFromProtocol_says [of "pp_Point tip"]
  by (auto simp: pointFromTip_def says_tip_def says_point_def split: sum.splits)

lemma enqueueChainEvent_adds:
  "enqueueChainEvent mo wait event s = Some t \<Longrightarrow>
     drop (length (ss_chainEvents s)) (ss_chainEvents t) = (if ss_context s = None then [] else [event])"
  by (auto simp: enqueueChainEvent_def callbackError_def cancel_def split: if_splits)

lemma callbackError_adds [simp]: "ss_chainEvents (callbackError e s) = ss_chainEvents s"
  by (simp add: callbackError_def cancel_def)

text \<open>What a callback puts into the channel is what the message said, and a well-formed message is never dropped.\<close>

lemma sent_enqueued:
  assumes "session_move sha256 mo mv s = Some t"
  shows "list_all2 tells (sent mv s) (chain_items (enqueued mv s t))"
proof (cases mv)
  case (RollForward now wait blockType header tip)
  show ?thesis
  proof (cases header)
    case None
    with assms RollForward show ?thesis by (auto simp: onRollForward_def chain_items_def)
  next
    case (Some bh)
    with assms RollForward pointFromHeader_says [of bh] pointFromTip_says [of tip] show ?thesis
      by (auto simp: onRollForward_def chain_items_def forward_chain_event_def dest!: enqueueChainEvent_adds split: sum.splits if_splits)
  qed
next
  case (RollBackward now wait p tip)
  with assms pointFromProtocol_says [of p] pointFromTip_says [of tip] show ?thesis
    by (auto simp: onRollBackward_def chain_items_def rollback_event_def dest!: enqueueChainEvent_adds split: sum.splits if_splits)
next
  case (AwaitReply wait)
  with assms show ?thesis by (auto simp: onAwaitReply_def chain_items_def dest!: enqueueChainEvent_adds split: if_splits)
qed (simp_all add: chain_items_def)

lemma chain_items_append: "chain_items (xs @ ys) = chain_items xs @ chain_items ys"
  by (simp add: chain_items_def)

lemma session_sent: "session_reachable sha256 mo c s h \<Longrightarrow> list_all2 tells (hi_sent h) (chain_items (hi_enqueued h))"
proof (induction rule: session_reachable.induct)
  case (session_new maxRecv logger s)
  then show ?case by (simp add: no_history_def chain_items_def)
next
  case (session_go s h mv t)
  then show ?case by (simp add: chain_items_append list_all2_appendI sent_enqueued)
qed

lemma session_rollback_kinds:
  assumes "session_reachable sha256 mo c s h" and "RollbackItem e \<in> set (chain_items (hi_enqueued h))"
  shows "re_Kind e = KindRollback"
proof -
  from session_sent [OF assms(1)] assms(2) obtain m where "tells m (RollbackItem e)"
    by (auto simp: list_all2_conv_all_nth in_set_conv_nth)
  then show ?thesis by (cases m) auto
qed

lemma session_stream: "session_reachable sha256 mo c s h \<Longrightarrow> stream_inv sha256 c s h"
proof (induction rule: session_reachable.induct)
  case (session_new maxRecv logger s)
  then show ?case by (rule stream_new)
next
  case (session_go s h mv t)
  then show ?case using session_rollback_kinds by (blast intro: stream_move)
qed

end
