(* ===== verification/Session_Bounds.thy ===== *)
theory Session_Bounds
  imports Session_Laws
begin

text \<open>
  The resources of a relay session: its raw byte account is exact and bounded, a callback waiting for
  room is never left asleep, its queues and ranges keep their sizes, and the errors the fetch loop
  reserves for impossible jobs do not occur.
\<close>

section \<open>The raw byte account\<close>

definition raw_len :: "relay_event \<Rightarrow> int" where
  "raw_len e = int (length (re_RawCBOR e))"

fun reserved :: "raw_callback \<Rightarrow> int" where
  "reserved (Sending e) = raw_len e"
| "reserved _ = 0"

fun builder_jobs :: "builder \<Rightarrow> fetch_job list" where
  "builder_jobs (BuilderSending jobs) = jobs"
| "builder_jobs _ = []"

definition raw_free :: "session \<Rightarrow> bool" where
  "raw_free s \<longleftrightarrow> (\<forall>e \<in> set (ss_chainEvents s). re_RawCBOR (cv_rollback e) = []) \<and>
     (\<forall>j \<in> set (ss_fetchJobs s) \<union> set (builder_jobs (ss_builder s)). re_RawCBOR (fj_rollback j) = []) \<and>
     (\<forall>e. ss_fetcher s = FetchEmitting e \<longrightarrow> re_RawCBOR e = [])"

definition raw_inv :: "relay_config \<Rightarrow> session \<Rightarrow> bool" where
  "raw_inv c s \<longleftrightarrow> ss_config s = c \<and>
     ss_rawQueued s = sum_list (map raw_len (ss_events s)) + reserved (ss_callback s) \<and>
     ss_rawQueued s \<le> rl_RawQueueBytes c \<and>
     (rl_RelayIndex c \<noteq> 0 \<longrightarrow> (\<forall>e \<in> set (callback_event (ss_callback s)). re_RawCBOR e = [])) \<and>
     (\<forall>e. ss_callback s = Parked e \<longrightarrow> ss_rawQueued s \<le> rl_RawQueueBytes c - raw_len e \<longrightarrow> ss_rawWake s) \<and>
     (\<forall>e. ss_callback s \<in> {Parked e, Reserving e} \<longrightarrow> raw_len e \<le> rl_RawQueueBytes c) \<and>
     (ss_fetcher s \<noteq> FetchNotStarted \<longrightarrow> ss_context s \<noteq> None) \<and> raw_free s"

lemma raw_len_nonneg [simp]: "0 \<le> raw_len e"
  by (simp add: raw_len_def)

lemma raw_sum_nonneg [simp]: "0 \<le> sum_list (map raw_len es)"
  by (induction es) simp_all

lemma reserved_nonneg [simp]: "0 \<le> reserved cb"
  by (cases cb) simp_all

lemma builder_jobs_sending [simp]: "builder_jobs (sending jobs) = jobs"
  by (simp add: sending_def)

lemma raw_free_others [simp]:
  "raw_free (s\<lparr>ss_events := a\<rparr>) = raw_free s" "raw_free (s\<lparr>ss_callback := cb\<rparr>) = raw_free s"
  "raw_free (s\<lparr>ss_range := r\<rparr>) = raw_free s" "raw_free (s\<lparr>ss_active := b\<rparr>) = raw_free s"
  "raw_free (s\<lparr>ss_done := b\<rparr>) = raw_free s" "raw_free (s\<lparr>ss_cause := x\<rparr>) = raw_free s"
  "raw_free (s\<lparr>ss_ready := b\<rparr>) = raw_free s" "raw_free (s\<lparr>ss_intersection := p\<rparr>) = raw_free s"
  "raw_free (s\<lparr>ss_identity := i\<rparr>) = raw_free s" "raw_free (s\<lparr>ss_rawWake := b\<rparr>) = raw_free s"
  by (simp_all add: raw_free_def)

text \<open>The parts of a session the account depends on.\<close>

definition account :: "session \<Rightarrow> _" where
  "account s = (ss_config s, ss_rawQueued s, ss_rawWake s, ss_events s, ss_callback s, ss_fetcher s = FetchNotStarted,
     ss_context s = None)"

lemma raw_keep:
  assumes "raw_inv c s" and "account t = account s" and "raw_free t"
  shows "raw_inv c t"
  using assms by (simp add: raw_inv_def account_def)

lemma account_cancel [simp]: "account (cancel e s) = account s" "account (callbackError e s) = account s"
  "raw_free (cancel e s) = raw_free s" "raw_free (callbackError e s) = raw_free s"
  by (auto simp: account_def cancel_def callbackError_def raw_free_def split: option.splits)

lemma raw_free_releaseRaw [simp]: "raw_free (releaseRaw e s) = raw_free s"
  by (simp add: raw_free_def releaseRaw_def Let_def)

lemma raw_free_abortRange [simp]: "raw_free (abortRange e s) = raw_free s" "account (abortRange e s) = account s"
  by (simp_all add: raw_free_def abortRange_def account_def)

lemma fetch_fails_account:
  assumes "raw_inv c s" and "ss_fetcher s \<noteq> FetchNotStarted"
  shows "raw_inv c (fetch_fails e s)"
proof -
  have "account (s\<lparr>ss_fetcher := FetchEnded e\<rparr>) = account s" using assms(2) by (simp add: account_def)
  moreover have "raw_free (s\<lparr>ss_fetcher := FetchEnded e\<rparr>)" using assms(1) by (simp add: raw_inv_def raw_free_def)
  ultimately show ?thesis using assms(1) unfolding fetch_fails_def by (intro raw_keep [OF assms(1)]) simp_all
qed

text \<open>Giving back an event that is on the account.\<close>

lemma releaseRaw_queued:
  assumes "raw_len e \<le> ss_rawQueued s"
  shows "ss_rawQueued (releaseRaw e s) = ss_rawQueued s - raw_len e"
    and "raw_len e \<noteq> 0 \<Longrightarrow> ss_rawWake (releaseRaw e s)"
    and "ss_rawWake s \<Longrightarrow> ss_rawWake (releaseRaw e s)"
  using assms by (simp_all add: releaseRaw_def raw_len_def Let_def)

lemma releaseRaw_others [simp]:
  "ss_events (releaseRaw e s) = ss_events s" "ss_callback (releaseRaw e s) = ss_callback s"
  "ss_fetcher (releaseRaw e s) = ss_fetcher s" "ss_context (releaseRaw e s) = ss_context s"
  by (simp_all add: releaseRaw_def Let_def)

lemma callback_fails_account:
  assumes "raw_inv c s" and "reserved (ss_callback s) = 0"
  shows "raw_inv c (callback_fails e s)"
proof -
  have i: "raw_inv c (s\<lparr>ss_callback := CallbackIdle\<rparr>)"
    using assms by (auto simp: raw_inv_def raw_free_def)
  then have "raw_free (s\<lparr>ss_callback := CallbackIdle\<rparr>)" by (simp add: raw_inv_def)
  then show ?thesis unfolding callback_fails_def by (intro raw_keep [OF i]) simp_all
qed

section \<open>The moves keep the account\<close>

lemma raw_enqueue:
  assumes inv: "raw_inv c s" and "enqueueChainEvent mo wait event s = Some t" and "re_RawCBOR (cv_rollback event) = []"
  shows "raw_inv c t"
proof (cases "ss_context s = None")
  case True
  then show ?thesis using assms(2) by (intro raw_keep [OF inv]) (use inv in \<open>auto simp: enqueueChainEvent_def raw_inv_def\<close>)
next
  case False
  then have t: "\<exists>m. t = s\<lparr>ss_chainEvents := ss_chainEvents s @ [event], ss_fetchMetrics := m\<rparr>"
    using assms(2) by (auto simp: enqueueChainEvent_def split: if_splits)
  then show ?thesis using assms(3) inv
    by (intro raw_keep [OF inv]) (auto simp: account_def raw_inv_def raw_free_def)
qed

lemma raw_builder_take:
  assumes inv: "raw_inv c s" and "builder_take now s = Some t"
  shows "raw_inv c t"
proof -
  from assms(2) obtain event rest jobs u where b: "ss_builder s = BuilderIdle" "ss_chainEvents s = event # rest"
      "build_event now event (s\<lparr>ss_chainEvents := rest\<rparr>) = (jobs, u)" "t = u\<lparr>ss_builder := sending jobs\<rparr>"
    by (auto simp: builder_take_def split: builder.splits list.splits prod.splits)
  have t: "t = s\<lparr>ss_chainEvents := rest, ss_pending := ss_pending u, ss_headerStarted := ss_headerStarted u,
      ss_caughtUp := ss_caughtUp u, ss_fetchMetrics := ss_fetchMetrics u, ss_builder := sending jobs\<rparr>"
    unfolding b(4) by (subst build_items(2) [OF b(3)]) simp
  have "\<forall>j \<in> set jobs. re_RawCBOR (fj_rollback j) = []"
    using b(2,3) inv
    by (auto simp: build_event_def flush_pending_def stage_header_def zero_event_def Let_def raw_inv_def raw_free_def
        split: chain_event_kind.splits if_splits prod.splits)
  then show ?thesis using inv b(2)
    by (intro raw_keep [OF inv]) (auto simp: t account_def raw_inv_def raw_free_def)
qed

lemma raw_fetch_take:
  assumes inv: "raw_inv c s" and "fetch_take now s = Some t"
  shows "raw_inv c t"
proof -
  from assms(2) obtain job rest where f: "ss_fetcher s = FetchIdle" "ss_fetchJobs s = job # rest"
    by (auto simp: fetch_take_def Let_def split: fetcher.splits option.splits list.splits)
  let ?u = "s\<lparr>ss_fetchJobs := rest\<rparr>"
  have u: "raw_inv c ?u" using inv f by (intro raw_keep [OF inv]) (auto simp: account_def raw_inv_def raw_free_def)
  consider (fails) e where "t = fetch_fails e ?u"
    | (other) "account t = account ?u" "raw_free t"
    using assms(2) f inv
    by (auto simp: fetch_take_def Let_def account_def raw_inv_def raw_free_def split: option.splits if_splits)
  then show ?thesis
  proof cases
    case fails
    then show ?thesis using fetch_fails_account [OF u] f by simp
  next
    case other
    then show ?thesis by (intro raw_keep [OF u])
  qed
qed

lemma raw_send:
  assumes inv: "raw_inv c s" and "send_event event s = Some t"
  shows "account t = account (s\<lparr>ss_events := ss_events s @ [event]\<rparr>)" and "raw_free t"
  using assms by (auto simp: send_event_def account_def raw_inv_def raw_free_def split: if_splits)

lemma raw_fetch_emit:
  assumes inv: "raw_inv c s" and "fetch_emit s = Some t"
  shows "raw_inv c t"
proof -
  from assms(2) obtain event where f: "ss_fetcher s = FetchEmitting event"
    by (auto simp: fetch_emit_def split: fetcher.splits)
  then have z: "raw_len event = 0" using inv by (simp add: raw_inv_def raw_free_def raw_len_def)
  consider (fails) e where "t = fetch_fails e s"
    | (sent) m where "t = s\<lparr>ss_events := ss_events s @ [event], ss_fetchMetrics := m, ss_previousRangeDone := 0, ss_fetcher := FetchIdle\<rparr>"
    using assms(2) f by (auto simp: fetch_emit_def send_event_def split: option.splits if_splits)
  then show ?thesis
  proof cases
    case fails
    then show ?thesis using fetch_fails_account [OF inv] f by simp
  next
    case sent
    then show ?thesis using inv z f by (auto simp: raw_inv_def raw_free_def)
  qed
qed

lemma raw_fetch_stop:
  assumes inv: "raw_inv c s" and "fetch_stop s = Some t"
  shows "raw_inv c t"
proof -
  have a: "raw_inv c (abortRange e s)" for e using inv by (intro raw_keep [OF inv]) (simp_all add: raw_inv_def)
  have r: "raw_inv c (releaseRaw e s)" if "ss_fetcher s = FetchEmitting e" for e
    using inv that by (simp add: releaseRaw_def raw_inv_def raw_free_def)
  from assms(2) show ?thesis
    using fetch_fails_account [OF inv] fetch_fails_account [OF a] fetch_fails_account [OF r]
    by (auto simp: fetch_stop_def split: fetcher.splits option.splits)
qed

lemma raw_onRawBlock:
  assumes inv: "raw_inv c s" and "onRawBlock sha256 now blockType raw s = Some t"
  shows "raw_inv c t"
proof -
  have c: "ss_config s = c" and f: "raw_free s" using inv by (simp_all add: raw_inv_def)
  have u: "raw_inv c (s\<lparr>ss_range := r\<rparr>)" for r
    using f by (intro raw_keep [OF inv]) (simp_all add: account_def)
  from assms(2) show ?thesis
  proof (cases rule: onRawBlock_cases)
    case (refused e)
    then show ?thesis using f by (intro raw_keep [OF inv]) simp_all
  next
    case (fails e r)
    then show ?thesis using callback_fails_account [OF inv] by simp
  next
    case (fails_later e r)
    then show ?thesis using callback_fails_account [OF u] by simp
  next
    case (taken r event cb)
    have raw: "re_RawCBOR event = (if rl_RelayIndex c = 0 then raw else [])" using taken(8) c by (simp add: forward_event_def)
    show ?thesis
    proof (cases "rl_RelayIndex c = 0")
      case True
      with taken(9) c have "cb = Reserving event" "raw_len event \<le> rl_RawQueueBytes c" by (simp_all add: raw_len_def raw)
      with inv taken(2) True show ?thesis by (simp add: taken(1) raw_inv_def)
    next
      case False
      with taken(9) c have "cb = Sending event" by simp
      with inv taken(2) raw False show ?thesis by (simp add: taken(1) raw_inv_def raw_len_def)
    qed
  qed
qed

lemma raw_reserveRaw:
  assumes inv: "raw_inv c s" and "reserveRaw wait s = Some t"
  shows "raw_inv c t"
proof -
  from assms(2) obtain e where e: "ss_callback s = Reserving e" by (auto simp: reserveRaw_def split: raw_callback.splits)
  have c: "ss_config s = c" using inv by (simp add: raw_inv_def)
  show ?thesis
  proof (cases "ss_rawQueued s \<le> rl_RawQueueBytes c - raw_len e")
    case True
    then show ?thesis using assms(2) inv e c by (auto simp: reserveRaw_def raw_inv_def raw_free_def raw_len_def Let_def)
  next
    case False
    then have "t = s\<lparr>ss_callback := Parked e\<rparr>" using assms(2) e c by (auto simp: reserveRaw_def raw_len_def Let_def)
    with False inv e show ?thesis by (auto simp: raw_inv_def raw_free_def)
  qed
qed

lemma raw_callback_send:
  assumes inv: "raw_inv c s" and st: "structured s" and "callback_send wait s = Some t"
  shows "raw_inv c t"
proof -
  from assms(3) obtain e where e: "ss_callback s = Sending e" by (auto simp: callback_send_def split: raw_callback.splits)
  have "ss_fetcher s \<noteq> FetchNotStarted" using st e by (auto simp: structured_def broken_def)
  then have "ss_context s \<noteq> None" using inv by (simp add: raw_inv_def)
  then have "emit_error e (rl_RelayIndex (ss_config s) = 0) s = None"
    using inv e by (auto simp: emit_error_def raw_inv_def Let_def)
  then obtain m r where "t = s\<lparr>ss_events := ss_events s @ [e], ss_fetchMetrics := m, ss_range := r, ss_callback := CallbackIdle\<rparr>"
    using assms(3) e by (auto simp: callback_send_def send_event_def split: if_splits)
  then show ?thesis using inv e by (auto simp: raw_inv_def raw_free_def)
qed

lemma raw_callback_stop:
  assumes inv: "raw_inv c s" and "callback_stop s = Some t"
  shows "raw_inv c t"
proof -
  consider (parked) e x where "ss_callback s = Parked x" "t = callback_fails e s"
    | (sending) e x where "ss_callback s = Sending x" "t = callback_fails e (releaseRaw x s)"
    using assms(2) by (auto simp: callback_stop_def split: raw_callback.splits option.splits)
  then show ?thesis
  proof cases
    case parked
    then show ?thesis using callback_fails_account [OF inv] by simp
  next
    case sending
    let ?u = "releaseRaw x s"
    have le: "raw_len x \<le> ss_rawQueued s" using inv sending(1) by (simp add: raw_inv_def)
    have a: "ss_rawQueued s = sum_list (map raw_len (ss_events s)) + raw_len x" "ss_rawQueued s \<le> rl_RawQueueBytes c"
      using inv sending(1) by (simp_all add: raw_inv_def)
    have "ss_rawQueued ?u = sum_list (map raw_len (ss_events s))" "ss_rawQueued ?u \<le> rl_RawQueueBytes c"
      using a releaseRaw_queued(1) [OF le] raw_len_nonneg [of x] by linarith+
    then have "raw_inv c (?u\<lparr>ss_callback := CallbackIdle\<rparr>)"
      using inv by (simp add: raw_inv_def)
    then have "raw_inv c (callback_fails e (?u\<lparr>ss_callback := CallbackIdle\<rparr>))" by (rule callback_fails_account) simp
    then show ?thesis unfolding sending(2) by (simp add: callback_fails_def)
  qed
qed

lemma raw_session_next:
  assumes inv: "raw_inv c s" and "session_next s = Some (r, t)"
  shows "raw_inv c t"
proof (cases "ss_events s")
  case Nil
  then have "t = s" using assms(2) by (auto simp: session_next_def split: if_splits)
  with inv show ?thesis by simp
next
  case (Cons e rest)
  let ?u = "s\<lparr>ss_events := rest\<rparr>"
  have t: "t = releaseRaw e ?u" using assms(2) Cons by (auto simp: session_next_def)
  have le: "raw_len e \<le> ss_rawQueued ?u" using inv Cons by (simp add: raw_inv_def)
  have q: "ss_rawQueued t = ss_rawQueued s - raw_len e" unfolding t using releaseRaw_queued(1) [OF le] by simp
  have w: "raw_len e \<noteq> 0 \<Longrightarrow> ss_rawWake t" "ss_rawWake s \<Longrightarrow> ss_rawWake t"
    unfolding t using releaseRaw_queued(2,3) [OF le] by auto
  have wake: "ss_rawWake t" if "ss_callback s = Parked x" "ss_rawQueued t \<le> rl_RawQueueBytes c - raw_len x" for x
    using that inv q w by (cases "raw_len e = 0") (auto simp: raw_inv_def)
  have others: "ss_config t = ss_config s" "ss_events t = rest" "ss_callback t = ss_callback s" "ss_fetcher t = ss_fetcher s"
      "ss_context t = ss_context s" "raw_free t = raw_free s"
    unfolding t by (simp_all add: raw_free_def releaseRaw_def Let_def)
  have "ss_rawQueued t \<le> rl_RawQueueBytes c" "ss_rawQueued t = sum_list (map raw_len rest) + reserved (ss_callback s)"
    using inv q raw_len_nonneg [of e] unfolding raw_inv_def Cons list.map sum_list.Cons by linarith+
  with inv wake show ?thesis unfolding raw_inv_def others by blast
qed

text \<open>The deferred drain gives back exactly what the queue held.\<close>

lemma fold_releaseRaw:
  assumes "ss_rawQueued s = sum_list (map raw_len es) + k" and "0 \<le> k"
  shows "ss_rawQueued (fold releaseRaw es s) = k"
  using assms
proof (induction es arbitrary: s)
  case (Cons e es)
  then have "raw_len e \<le> ss_rawQueued s" by simp
  from releaseRaw_queued(1) [OF this] Cons show ?case by simp
qed simp

lemma fold_releaseRaw_others:
  "ss_callback (fold releaseRaw es s) = ss_callback s" "ss_fetcher (fold releaseRaw es s) = ss_fetcher s"
  "ss_context (fold releaseRaw es s) = ss_context s" "raw_free (fold releaseRaw es s) = raw_free s"
  by (induction es arbitrary: s) simp_all

lemma raw_finish:
  assumes inv: "raw_inv c s" and "workers_ended s"
  shows "raw_inv c (session_finish cause s)"
proof (cases "ss_done s")
  case True
  with inv show ?thesis by (simp add: session_finish_def raw_inv_def raw_free_def)
next
  case False
  have idle: "ss_callback s = CallbackIdle" using assms(2) by (simp add: workers_ended_def)
  let ?w = "s\<lparr>ss_cause := cause, ss_ready := True\<rparr>"
  have "ss_rawQueued (fold releaseRaw (ss_events s) ?w) = 0"
    using inv idle by (intro fold_releaseRaw) (simp_all add: raw_inv_def)
  moreover have "raw_free ?w" using inv by (simp add: raw_inv_def raw_free_def)
  moreover have "0 \<le> rl_RawQueueBytes c" using inv idle by (auto simp: raw_inv_def intro: order_trans [OF raw_sum_nonneg])
  ultimately show ?thesis using False inv idle
    by (simp add: session_finish_def Let_def raw_inv_def fold_releaseRaw_others view_fold_releaseRaw)
qed

lemma raw_chain_callback:
  assumes inv: "raw_inv c s"
    and "(\<exists>e. t = callbackError e s) \<or>
      (\<exists>event. enqueueChainEvent mo wait event s = Some t \<and> re_RawCBOR (cv_rollback event) = [])"
  shows "raw_inv c t"
  using assms(2)
proof
  assume "\<exists>e. t = callbackError e s"
  then show ?thesis using inv by (intro raw_keep [OF inv]) (auto simp: raw_inv_def)
next
  assume "\<exists>event. enqueueChainEvent mo wait event s = Some t \<and> re_RawCBOR (cv_rollback event) = []"
  then show ?thesis using raw_enqueue [OF inv] by blast
qed

lemma onBatchDone_shape:
  assumes "onBatchDone now s = Some t"
  shows "(\<exists>e. t = callbackError e s) \<or> (\<exists>r e. t = callbackError e (s\<lparr>ss_active := False, ss_range := r\<rparr>)) \<or>
    (\<exists>r. t = s\<lparr>ss_active := False, ss_range := r\<rparr>)"
  using assms unfolding onBatchDone_def Let_def
  by (cases "ss_active s"; cases "ss_range s"; simp split: if_splits option.splits) blast+

lemma account_range [simp]: "account (s\<lparr>ss_active := a, ss_range := r\<rparr>) = account s"
  by (simp add: account_def)

lemma raw_move:
  assumes inv: "raw_inv c s" and st: "structured s" and move: "session_move sha256 mo mv s = Some t"
  shows "raw_inv c t"
proof -
  have f: "raw_free s" using inv by (simp add: raw_inv_def)
  have quiet: "raw_inv c t" if "account t = account s" and "raw_free t" using that by (rule raw_keep [OF inv])
  show ?thesis
  proof (cases mv)
    case (RollForward now wait blockType header tip)
    then show ?thesis using move
      by (intro raw_chain_callback [OF inv, where mo = mo and wait = wait])
        (auto simp: onRollForward_def forward_chain_event_def zero_event_def Let_def split: option.splits sum.splits)
  next
    case (RollBackward now wait p tip)
    then show ?thesis using move
      by (intro raw_chain_callback [OF inv, where mo = mo and wait = wait])
        (auto simp: onRollBackward_def rollback_event_def zero_event_def Let_def split: option.splits sum.splits)
  next
    case (AwaitReply wait)
    then show ?thesis using move
      by (intro raw_chain_callback [OF inv, where mo = mo and wait = wait]) (auto simp: onAwaitReply_def zero_event_def)
  next
    case (Begin now)
    then show ?thesis using move inv f
      by (auto simp: session_begin_def raw_inv_def raw_free_def split: if_splits sum.splits)
  next
    case (Identify version address)
    then show ?thesis using move f by (intro quiet) (auto simp: captureNegotiatedIdentity_def account_def raw_free_def)
  next
    case StartWorkers
    then show ?thesis using move inv f by (auto simp: start_workers_def raw_inv_def raw_free_def split: if_splits)
  next
    case (SelectIntersection answer candidates)
    then have "account t = account s \<and> raw_free t"
      using move f by (auto simp: settle_def account_def cancel_def raw_free_def split: sum.splits option.splits)
    then show ?thesis using quiet by blast
  next
    case SignalReady
    then show ?thesis using move f by (intro quiet) (auto simp: account_def raw_free_def)
  next
    case (BuilderSend wait)
    then show ?thesis using move f
      by (intro quiet) (auto simp: enqueueJob_def account_def raw_free_def split: builder.splits list.splits if_splits)
  next
    case BuilderStop
    then show ?thesis using move f
      by (intro quiet) (auto simp: builder_stop_def account_def raw_free_def split: builder.splits option.splits)
  next
    case (RangeRequested answer wait)
    have a: "raw_inv c (abortRange e s)" for e using f by (intro raw_keep [OF inv]) simp_all
    have "(\<exists>e. t = fetch_fails e (abortRange e s)) \<and> ss_fetcher s \<noteq> FetchNotStarted \<or> account t = account s \<and> raw_free t"
      using RangeRequested move f by (auto simp: range_requested_def account_def raw_free_def split: fetcher.splits option.splits)
    then show ?thesis using fetch_fails_account [OF a] quiet by auto
  next
    case (RangeDone unix)
    have "(\<exists>e. t = fetch_fails e s) \<and> ss_fetcher s \<noteq> FetchNotStarted \<or> account t = account s \<and> raw_free t"
      using RangeDone move f
      by (auto simp: range_done_def observeCompletedRange_def account_def raw_free_def split: fetcher.splits option.splits)
    then show ?thesis using fetch_fails_account [OF inv] quiet by auto
  next
    case RangeDisconnected
    have a: "raw_inv c (abortRange e s)" for e using f by (intro raw_keep [OF inv]) simp_all
    from RangeDisconnected show ?thesis using move fetch_fails_account [OF a]
      by (auto simp: range_disconnected_def Let_def split: fetcher.splits)
  next
    case WakeUp
    then obtain e where "ss_callback s = Parked e" "t = s\<lparr>ss_rawWake := False, ss_callback := Reserving e\<rparr>"
      using move by (auto simp: wake_up_def split: raw_callback.splits if_splits)
    then show ?thesis using inv by (simp add: raw_inv_def)
  next
    case (BatchDone now)
    then have "account t = account s \<and> raw_free t" using onBatchDone_shape [of now s t] move f by auto
    then show ?thesis using quiet by blast
  next
    case (Cancel err)
    then show ?thesis using move f by (intro quiet) auto
  next
    case (BuilderTake now)
    then show ?thesis using move raw_builder_take [OF inv] by simp
  next
    case (FetchTake now)
    then show ?thesis using move raw_fetch_take [OF inv] by simp
  next
    case FetchEmit
    then show ?thesis using move raw_fetch_emit [OF inv] by simp
  next
    case FetchStop
    then show ?thesis using move raw_fetch_stop [OF inv] by simp
  next
    case (RawBlock now blockType raw)
    then show ?thesis using move raw_onRawBlock [OF inv] by simp
  next
    case (ReserveRaw wait)
    then show ?thesis using move raw_reserveRaw [OF inv] by simp
  next
    case (CallbackSend wait)
    then show ?thesis using move raw_callback_send [OF inv st] by simp
  next
    case CallbackStop
    then show ?thesis using move raw_callback_stop [OF inv] by simp
  next
    case ReadNext
    then obtain r where "session_next s = Some (r, t)" using move by auto
    then show ?thesis by (rule raw_session_next [OF inv])
  next
    case (Finish cause)
    then show ?thesis using move raw_finish [OF inv, of cause] by (simp split: if_splits)
  qed
qed

lemma raw_new:
  assumes "NewSession maxRecv logger c = Inr s"
  shows "raw_inv c s"
proof -
  have "\<forall>x \<in> set (relay_checks maxRecv logger c). \<not> fst x" and s: "ss_config s = c" "ss_callback s = CallbackIdle"
      "ss_fetcher s = FetchNotStarted" "ss_builder s = BuilderNotStarted" "ss_events s = []" "ss_fetchJobs s = []"
      "ss_chainEvents s = []" "ss_rawQueued s = 0"
    using assms by (auto simp: NewSession_def validateConfig_def find_None_iff split: option.splits prod.splits)
  then have "0 < rl_RawQueueBytes c" by (simp add: relay_checks_def)
  with s show ?thesis by (simp add: raw_inv_def raw_free_def)
qed

lemma session_raw: "session_reachable sha256 mo c s h \<Longrightarrow> raw_inv c s"
proof (induction rule: session_reachable.induct)
  case (session_go s h mv t)
  from stream_structured [OF session_stream [OF session_go.hyps(1)]] session_go show ?case by (blast intro: raw_move)
qed (rule raw_new)

section \<open>Sizes of queues and ranges\<close>

definition job_ok :: "relay_config \<Rightarrow> fetch_job \<Rightarrow> bool" where
  "job_ok c j \<longleftrightarrow> fj_kind j = KindRollback \<and> fj_headers j = [] \<or>
     fj_kind j = KindForward \<and> fj_headers j \<noteq> [] \<and> int (length (fj_headers j)) \<le> rl_BlockFetchRangeBlocks c"

definition sized :: "nat \<Rightarrow> relay_config \<Rightarrow> session \<Rightarrow> bool" where
  "sized mo c s \<longleftrightarrow> ss_config s = c \<and> int (length (ss_events s)) \<le> rl_RelayQueueSize c \<and>
     length (ss_chainEvents s) \<le> mo \<and> length (ss_fetchJobs s) \<le> 1 \<and>
     (\<forall>j \<in> set (ss_fetchJobs s) \<union> set (builder_jobs (ss_builder s)). job_ok c j) \<and>
     int (length (ss_pending s)) < rl_BlockFetchRangeBlocks c \<and> (ss_caughtUp s \<longrightarrow> ss_pending s = []) \<and>
     (\<forall>r. ss_range s = Some r \<longrightarrow> ar_headers r \<noteq> [] \<and> int (length (ar_headers r)) \<le> rl_BlockFetchRangeBlocks c)"

definition sizes :: "session \<Rightarrow> _" where
  "sizes s = (ss_config s, ss_events s, ss_chainEvents s, ss_fetchJobs s, ss_builder s, ss_pending s, ss_caughtUp s,
     map_option ar_headers (ss_range s))"

lemma sized_keep:
  assumes "sized mo c s" and "sizes t = sizes s"
  shows "sized mo c t"
proof -
  have "\<forall>r. ss_range t = Some r \<longrightarrow> (\<exists>r'. ss_range s = Some r' \<and> ar_headers r' = ar_headers r)"
    using assms(2) by (cases "ss_range s") (auto simp: sizes_def)
  with assms show ?thesis by (auto simp: sized_def sizes_def)
qed

lemma sizes_ops [simp]:
  "sizes (cancel e s) = sizes s" "sizes (callbackError e s) = sizes s" "sizes (releaseRaw x s) = sizes s"
  "sizes (abortRange e s) = sizes s" "sizes (fetch_fails e s) = sizes s" "sizes (callback_fails e s) = sizes s"
  by (cases "ss_range s"; simp add: sizes_def cancel_def callbackError_def releaseRaw_def abortRange_def fetch_fails_def
      callback_fails_def range_finish_def Let_def)+

lemma sizes_counted: "ss_range s = Some r \<Longrightarrow> sizes (s\<lparr>ss_range := Some (count_raw now raw r)\<rparr>) = sizes s"
  "ss_range s = Some r \<Longrightarrow> sizes (s\<lparr>ss_range := Some (count_raw now raw r), ss_callback := cb\<rparr>) = sizes s"
  by (simp_all add: sizes_def count_raw_def)

lemma sized_enqueue:
  assumes inv: "sized mo c s" and "enqueueChainEvent mo wait event s = Some t"
  shows "sized mo c t"
proof (cases "ss_context s = None")
  case True
  then show ?thesis using assms(2) by (intro sized_keep [OF inv]) (auto simp: enqueueChainEvent_def)
next
  case False
  then show ?thesis using assms by (auto simp: enqueueChainEvent_def sized_def split: if_splits)
qed

lemma sized_builder_take:
  assumes inv: "sized mo c s" and "builder_take now s = Some t"
  shows "sized mo c t"
proof -
  from assms(2) obtain event rest jobs u where b: "ss_builder s = BuilderIdle" "ss_chainEvents s = event # rest"
      "build_event now event (s\<lparr>ss_chainEvents := rest\<rparr>) = (jobs, u)" "t = u\<lparr>ss_builder := sending jobs\<rparr>"
    by (auto simp: builder_take_def split: builder.splits list.splits prod.splits)
  have t: "t = s\<lparr>ss_chainEvents := rest, ss_pending := ss_pending u, ss_headerStarted := ss_headerStarted u,
      ss_caughtUp := ss_caughtUp u, ss_fetchMetrics := ss_fetchMetrics u, ss_builder := sending jobs\<rparr>"
    unfolding b(4) by (subst build_items(2) [OF b(3)]) simp
  have "(\<forall>j \<in> set jobs. job_ok c j) \<and> int (length (ss_pending u)) < rl_BlockFetchRangeBlocks c \<and> (ss_caughtUp u \<longrightarrow> ss_pending u = [])"
    using b(3) inv
    by (auto simp: build_event_def flush_pending_def stage_header_def Let_def sized_def job_ok_def
        split: chain_event_kind.splits if_splits prod.splits)
  with inv b(2) show ?thesis by (auto simp: t sized_def)
qed

lemma sized_fetch_take:
  assumes inv: "sized mo c s" and "fetch_take now s = Some t"
  shows "sized mo c t"
proof -
  from assms(2) obtain job rest where f: "ss_fetcher s = FetchIdle" "ss_fetchJobs s = job # rest"
    by (auto simp: fetch_take_def Let_def split: fetcher.splits option.splits list.splits)
  let ?u = "s\<lparr>ss_fetchJobs := rest\<rparr>"
  have u: "sized mo c ?u" using inv f by (auto simp: sized_def)
  have ok: "job_ok c job" using inv f by (simp add: sized_def)
  have "sizes t = sizes ?u \<or> (\<exists>d. fj_kind job = KindForward \<and> t = ?u\<lparr>ss_range := Some (new_range now job d), ss_active := True, ss_fetcher := FetchRequesting\<rparr>)"
    using assms(2) f by (auto simp: fetch_take_def Let_def sizes_def fetch_fails_def cancel_def split: option.splits if_splits)
  then show ?thesis
  proof
    assume "sizes t = sizes ?u"
    then show ?thesis by (rule sized_keep [OF u])
  next
    assume "\<exists>d. fj_kind job = KindForward \<and> t = ?u\<lparr>ss_range := Some (new_range now job d), ss_active := True, ss_fetcher := FetchRequesting\<rparr>"
    then show ?thesis using u ok
      by (auto simp: sized_def job_ok_def new_range_def Let_def KindForward_def KindRollback_def)
  qed
qed

lemma sized_move:
  assumes inv: "sized mo c s" and move: "session_move sha256 mo mv s = Some t"
  shows "sized mo c t"
proof -
  have keep: "sized mo c t" if "sizes t = sizes s" using sized_keep [OF inv that] .
  show ?thesis
  proof (cases mv)
    case (RollForward now wait blockType header tip)
    then have "(\<exists>e. t = callbackError e s) \<or> (\<exists>event. enqueueChainEvent mo wait event s = Some t)"
      using move by (auto simp: onRollForward_def Let_def split: option.splits sum.splits)
    then show ?thesis using sized_enqueue [OF inv] keep by auto
  next
    case (RollBackward now wait p tip)
    then have "(\<exists>e. t = callbackError e s) \<or> (\<exists>event. enqueueChainEvent mo wait event s = Some t)"
      using move by (auto simp: onRollBackward_def Let_def split: option.splits sum.splits)
    then show ?thesis using sized_enqueue [OF inv] keep by auto
  next
    case (AwaitReply wait)
    then show ?thesis using move sized_enqueue [OF inv] by (auto simp: onAwaitReply_def)
  next
    case (BuilderTake now)
    then show ?thesis using move sized_builder_take [OF inv] by simp
  next
    case (BuilderSend wait)
    then show ?thesis using move inv by (auto simp: enqueueJob_def sized_def split: builder.splits list.splits if_splits)
  next
    case BuilderStop
    then show ?thesis using move inv by (auto simp: builder_stop_def sized_def split: builder.splits option.splits)
  next
    case StartWorkers
    then show ?thesis using move inv by (auto simp: start_workers_def sized_def split: if_splits)
  next
    case (FetchTake now)
    then show ?thesis using move sized_fetch_take [OF inv] by simp
  next
    case FetchEmit
    then have "(\<exists>e. t = fetch_fails e s) \<or> (\<exists>x m. int (length (ss_events s)) < rl_RelayQueueSize (ss_config s) \<and>
        t = s\<lparr>ss_events := ss_events s @ [x], ss_fetchMetrics := m, ss_previousRangeDone := 0, ss_fetcher := FetchIdle\<rparr>)"
      using move by (auto simp: fetch_emit_def send_event_def split: fetcher.splits option.splits if_splits)
    then show ?thesis using keep inv by (auto simp: sized_def)
  next
    case (CallbackSend wait)
    then have "(\<exists>e. t = callback_fails e s) \<or> (\<exists>x m. int (length (ss_events s)) < rl_RelayQueueSize (ss_config s) \<and>
        sizes t = sizes (s\<lparr>ss_events := ss_events s @ [x]\<rparr>))"
      using move by (cases "ss_range s") (auto simp: callback_send_def send_event_def sizes_def split: raw_callback.splits option.splits if_splits)
    then show ?thesis
    proof
      assume "\<exists>x m. int (length (ss_events s)) < rl_RelayQueueSize (ss_config s) \<and> sizes t = sizes (s\<lparr>ss_events := ss_events s @ [x]\<rparr>)"
      then obtain x where x: "int (length (ss_events s)) < rl_RelayQueueSize (ss_config s)" "sizes t = sizes (s\<lparr>ss_events := ss_events s @ [x]\<rparr>)"
        by blast
      then have "sized mo c (s\<lparr>ss_events := ss_events s @ [x]\<rparr>)" using inv by (auto simp: sized_def)
      then show ?thesis by (rule sized_keep [OF _ x(2)])
    qed (use keep in auto)
  next
    case (RawBlock now blockType raw)
    then have "onRawBlock sha256 now blockType raw s = Some t" using move by simp
    then have "sizes t = sizes s"
      by (cases rule: onRawBlock_cases) (simp_all add: sizes_counted)
    then show ?thesis by (rule keep)
  next
    case ReadNext
    then show ?thesis
    proof (cases "ss_events s")
      case Nil
      then show ?thesis using ReadNext move inv by (auto simp: session_next_def split: if_splits)
    next
      case (Cons e rest)
      then have t: "t = releaseRaw e (s\<lparr>ss_events := rest\<rparr>)" using ReadNext move by (auto simp: session_next_def)
      have "sized mo c (s\<lparr>ss_events := rest\<rparr>)" using inv Cons by (auto simp: sized_def)
      then show ?thesis unfolding t by (rule sized_keep) simp
    qed
  next
    case (Finish cause)
    then have t: "t = session_finish cause s" using move by (auto split: if_splits)
    have "sizes (fold releaseRaw es u) = sizes u" for es u by (induction es arbitrary: u) simp_all
    then have "sizes t = sizes s \<or> sizes t = sizes (s\<lparr>ss_events := []\<rparr>)"
      unfolding t by (auto simp: session_finish_def Let_def sizes_def)
    moreover have "sized mo c (s\<lparr>ss_events := []\<rparr>)" using inv by (auto simp: sized_def)
    ultimately show ?thesis using keep sized_keep by blast
  next
    case (Begin now)
    then have "sizes t = sizes s" using move by (cases "ss_range s") (auto simp: session_begin_def sizes_def split: if_splits sum.splits)
    then show ?thesis by (rule keep)
  next
    case (Identify version address)
    then have "sizes t = sizes s" using move by (cases "ss_range s") (auto simp: captureNegotiatedIdentity_def sizes_def)
    then show ?thesis by (rule keep)
  next
    case (SelectIntersection answer candidates)
    then have "sizes t = sizes s" using move by (cases "ss_range s") (auto simp: settle_def cancel_def sizes_def split: sum.splits)
    then show ?thesis by (rule keep)
  next
    case SignalReady
    then have "sizes t = sizes s" using move by (cases "ss_range s") (auto simp: sizes_def)
    then show ?thesis by (rule keep)
  next
    case (RangeRequested answer wait)
    then have "sizes t = sizes s" using move by (cases "ss_range s") (auto simp: range_requested_def sizes_def fetch_fails_def cancel_def abortRange_def range_finish_def split: fetcher.splits option.splits)
    then show ?thesis by (rule keep)
  next
    case (RangeDone unix)
    then have "sizes t = sizes s" using move by (cases "ss_range s") (auto simp: range_done_def observeCompletedRange_def sizes_def fetch_fails_def cancel_def split: fetcher.splits option.splits)
    then show ?thesis by (rule keep)
  next
    case RangeDisconnected
    then have "sizes t = sizes s" using move by (cases "ss_range s") (auto simp: range_disconnected_def Let_def split: fetcher.splits)
    then show ?thesis by (rule keep)
  next
    case FetchStop
    then have "sizes t = sizes s" using move by (cases "ss_range s") (auto simp: fetch_stop_def split: fetcher.splits option.splits)
    then show ?thesis by (rule keep)
  next
    case (ReserveRaw wait)
    then have "sizes t = sizes s" using move by (cases "ss_range s") (auto simp: reserveRaw_def sizes_def Let_def split: raw_callback.splits if_splits)
    then show ?thesis by (rule keep)
  next
    case WakeUp
    then have "sizes t = sizes s" using move by (cases "ss_range s") (auto simp: wake_up_def sizes_def split: raw_callback.splits if_splits)
    then show ?thesis by (rule keep)
  next
    case CallbackStop
    then have "sizes t = sizes s" using move by (cases "ss_range s") (auto simp: callback_stop_def split: raw_callback.splits option.splits)
    then show ?thesis by (rule keep)
  next
    case (BatchDone now)
    then have "sizes t = sizes s" using move by (cases "ss_range s") (auto simp: onBatchDone_def callbackError_def cancel_def sizes_def range_finish_def Let_def split: if_splits bool.splits option.splits)
    then show ?thesis by (rule keep)
  next
    case (Cancel err)
    then have "sizes t = sizes s" using move by (cases "ss_range s") (auto simp: sizes_def cancel_def)
    then show ?thesis by (rule keep)
  qed
qed

lemma sized_new:
  assumes "NewSession maxRecv logger c = Inr s"
  shows "sized mo c s"
proof -
  have "\<forall>x \<in> set (relay_checks maxRecv logger c). \<not> fst x" and s: "ss_config s = c" "ss_builder s = BuilderNotStarted"
      "ss_events s = []" "ss_fetchJobs s = []" "ss_chainEvents s = []" "ss_pending s = []" "ss_range s = None"
    using assms by (auto simp: NewSession_def validateConfig_def find_None_iff split: option.splits prod.splits)
  then have "1 \<le> rl_BlockFetchRangeBlocks c" "1 \<le> rl_RelayQueueSize c" by (simp_all add: relay_checks_def)
  with s show ?thesis by (simp add: sized_def)
qed

lemma session_sized: "session_reachable sha256 mo c s h \<Longrightarrow> sized mo c s"
  by (induction rule: session_reachable.induct) (auto intro: sized_new sized_move)

end
