(* ===== verification/Session_Properties.thy ===== *)
theory Session_Properties
  imports Session_Bounds
begin

text \<open>
  The guarantees of a relay session, over all its reachable states: the order and content of its
  events, its memory, its wake-ups and its jobs, with a session of two blocks as the example.
\<close>

section \<open>Properties\<close>

text \<open>An event reports a message: the point and the tip are those the relay named, field by field.\<close>

fun reports :: "relay_message \<Rightarrow> relay_event \<Rightarrow> bool" where
  "reports (SaidForward blockType header tip) e \<longleftrightarrow>
     re_Kind e = KindForward \<and> re_BlockType e = blockType \<and> says_header header (re_Point e) \<and> says_tip tip (re_Tip e)"
| "reports (SaidBackward p tip) e \<longleftrightarrow> re_Kind e = KindRollback \<and> says_point p (re_Point e) \<and> says_tip tip (re_Tip e)"

lemma tells_observes: "tells m i \<Longrightarrow> observes sha256 index blocks i e \<Longrightarrow> reports m e"
  by (cases "(m, i)" rule: tells.cases) (auto simp: observes_def)

lemma tells_observes_all:
  assumes "list_all2 tells ms (items @ rest)" and "list_all2 (observes sha256 index blocks) items es"
  shows "list_all2 reports (take (length items) ms) es"
proof -
  have "list_all2 tells (take (length items) ms) items" using list_all2_takeI [OF assms(1), of "length items"] by simp
  from list_all2_trans [OF _ this assms(2)] show ?thesis by (blast intro: tells_observes)
qed

lemma session_reports:
  assumes "session_reachable sha256 mo c s h"
  shows "\<exists>msgs. prefix msgs (hi_sent h) \<and> list_all2 reports msgs (hi_delivered h)"
proof (rule stream_invE [OF session_stream [OF assms]])
  fix items rest
  assume "list_all2 (observes sha256 (rl_RelayIndex c) (hi_served h)) items (outgoing s h)"
    and e: "chain_items (hi_enqueued h) = items @ rest"
  then obtain us vs where "items = us @ vs" "list_all2 (observes sha256 (rl_RelayIndex c) (hi_served h)) us (hi_delivered h)"
    unfolding outgoing_def by (auto simp: list_all2_append2)
  with session_sent [OF assms] e tells_observes_all [of "hi_sent h" us "vs @ rest"] show ?thesis
    by (intro exI [of _ "take (length us) (hi_sent h)"]) (auto simp: take_is_prefix)
qed

lemma session_blocks:
  assumes "session_reachable sha256 mo c s h"
  shows "prefix (map event_print (block_events (hi_delivered h))) (map (block_print sha256 (rl_RelayIndex c)) (hi_served h))"
proof (rule stream_invE [OF session_stream [OF assms]])
  assume "matched sha256 (rl_RelayIndex c) s h"
  then have "prefix (map event_print (block_events (hi_delivered h)) @ map event_print (block_events (ss_events s @ callback_event (ss_callback s))))
      (map (block_print sha256 (rl_RelayIndex c)) (hi_served h))"
    by (simp add: matched_def outgoing_def block_events_def)
  then show ?thesis by (rule append_prefixD)
qed

text \<open>
  C14. A relay session reports the chain its relay announced: in every interleaving, and whatever fails,
  the delivered events are the headers and rollbacks the relay sent, in order from the first on, none
  skipped, repeated, invented or altered: slot, hash, number, tip and block type are those of the
  message. The block events carry, in order from the first on, the type, length and digest of the raw
  blocks the relay served, and on relay 0 their bytes, so the \<open>n\<close>-th announced header is reported with the
  \<open>n\<close>-th served block.
\<close>

theorem session_reports_announced_chain:
  assumes "session_reachable sha256 mo c s h"
  shows "(\<exists>msgs. prefix msgs (hi_sent h) \<and> list_all2 reports msgs (hi_delivered h)) \<and>
    prefix (map event_print (block_events (hi_delivered h))) (map (block_print sha256 (rl_RelayIndex c)) (hi_served h))"
  using session_reports [OF assms] session_blocks [OF assms] by (rule conjI)

text \<open>
  C22. The memory of a session is bounded: the raw byte account is exactly what the queued events and
  the event being sent hold and never exceeds the limit; the event queue, the channel of chain events,
  the pending headers and every range keep their sizes.
\<close>

theorem session_memory_bounded:
  assumes "session_reachable sha256 mo c s h"
  shows "ss_rawQueued s = sum_list (map raw_len (ss_events s)) + reserved (ss_callback s) \<and>
    fst (RawQueueDepth s) \<le> rl_RawQueueBytes c \<and> int (fst (QueueDepth s)) \<le> rl_RelayQueueSize c \<and>
    length (ss_chainEvents s) \<le> mo \<and> int (length (ss_pending s)) < rl_BlockFetchRangeBlocks c \<and>
    (case ss_range s of None \<Rightarrow> True
     | Some r \<Rightarrow> ar_headers r \<noteq> [] \<and> int (length (ar_headers r)) \<le> rl_BlockFetchRangeBlocks c)"
  using session_raw [OF assms] session_sized [OF assms]
  by (auto simp: raw_inv_def sized_def RawQueueDepth_def QueueDepth_def split: option.splits)

text \<open>
  A raw block callback that waits for room is not left asleep: once the reader has emptied the
  queue, its wake-up token is there and the reservation succeeds.
\<close>

theorem session_reservation_wakes:
  assumes "session_reachable sha256 mo c s h" and "ss_callback s = Parked e" and "ss_events s = []"
  shows "\<exists>t u. wake_up s = Some t \<and> reserveRaw wait t = Some u \<and> ss_callback u = Sending e"
proof -
  note inv = session_raw [OF assms(1)]
  have c: "ss_config s = c" and q: "ss_rawQueued s = 0" and l: "raw_len e \<le> rl_RawQueueBytes c" and "ss_rawWake s"
    using inv assms(2,3) by (auto simp: raw_inv_def)
  then show ?thesis using assms(2)
    by (simp add: wake_up_def reserveRaw_def raw_len_def Let_def)
qed

text \<open>
  The errors the fetch loop keeps for impossible jobs do not occur: taking a job always starts
  emitting its rollback or requesting its range, whose bounds are the first and last header of the job.
\<close>

theorem fetch_jobs_well_formed:
  assumes "session_reachable sha256 mo c s h" and "fetch_take now s = Some t"
  shows "(\<exists>e. ss_fetcher t = FetchEmitting e) \<or>
    (\<exists>hs. hs \<noteq> [] \<and> requested_range t = Some (toProtocolPoint (eh_point (hd hs)), toProtocolPoint (eh_point (last hs))) \<and>
       map HeaderItem hs = range_items t)"
proof -
  from assms(2) obtain job rest where f: "ss_fetcher s = FetchIdle" "ss_fetchJobs s = job # rest"
    by (auto simp: fetch_take_def Let_def split: fetcher.splits option.splits list.splits)
  have ok: "job_ok c job" using session_sized [OF assms(1)] f by (simp add: sized_def)
  have na: "\<not> ss_active s" using idle_inactive [OF stream_structured [OF session_stream [OF assms(1)]]] f(1) by simp
  show ?thesis
  proof (cases "fj_kind job = KindRollback")
    case True
    then have "fj_headers job = []" using ok by (auto simp: job_ok_def KindForward_def KindRollback_def)
    then show ?thesis using assms(2) f True by (auto simp: fetch_take_def Let_def split: option.splits)
  next
    case False
    then have j: "fj_kind job = KindForward" "fj_headers job \<noteq> []" using ok by (auto simp: job_ok_def)
    then have "\<exists>d. t = s\<lparr>ss_fetchJobs := rest, ss_range := Some (new_range now job d), ss_active := True, ss_fetcher := FetchRequesting\<rparr>"
      using assms(2) f na by (auto simp: fetch_take_def Let_def KindForward_def KindRollback_def split: option.splits)
    with j(2) show ?thesis
      by (intro disjI2 exI [of _ "fj_headers job"])
        (auto simp: requested_range_def range_items_def new_range_def Let_def hd_conv_nth last_conv_nth)
  qed
qed

section \<open>Delivered blocks\<close>

text \<open>A delivered block event is backed by a header the relay sent and bytes it served.\<close>

lemma delivered_block_served:
  assumes "session_reachable sha256 mo c s h" and "e \<in> set (hi_delivered h)" and "re_Kind e = KindForward"
  obtains header tip raw where "SaidForward (re_BlockType e) header tip \<in> set (hi_sent h)" and "says_header header (re_Point e)"
    and "(re_BlockType e, raw) \<in> set (hi_served h)" and "re_Digest e = RawBlockDigest sha256 (re_BlockType e) raw"
    and "re_RawCBOR e = (if rl_RelayIndex c = 0 then raw else [])"
proof -
  from session_reports [OF assms(1)] obtain msgs where msgs: "prefix msgs (hi_sent h)" "list_all2 reports msgs (hi_delivered h)" by blast
  with assms(2) obtain m where m: "m \<in> set msgs" "reports m e"
    by (metis in_set_conv_nth list_all2_conv_all_nth)
  obtain header tip where f: "m = SaidForward (re_BlockType e) header tip" "says_header header (re_Point e)"
    using m(2) assms(3) by (cases m) (auto simp: KindForward_def KindRollback_def)
  have "event_print e \<in> set (map event_print (block_events (hi_delivered h)))" using assms(2,3) by (simp add: block_events_def)
  with set_mono_prefix [OF session_blocks [OF assms(1)]] have "event_print e \<in> block_print sha256 (rl_RelayIndex c) ` set (hi_served h)"
    by auto
  then obtain b where "b \<in> set (hi_served h)" "event_print e = block_print sha256 (rl_RelayIndex c) b" by blast
  with that [OF _ f(2), of tip "snd b"] m(1) f(1) set_mono_prefix [OF msgs(1)] show thesis
    by (cases b) (auto simp: event_print_def block_print_def)
qed

section \<open>Examples\<close>

text \<open>
  Two headers are announced and fetched as one range; the second block waits for room until the first
  was read.
\<close>

definition sample_relay_config :: relay_config where
  "sample_relay_config = \<lparr>rl_RelayIndex = 0, rl_Host = ''h:1'', rl_Operator = ''o'', rl_NetworkMagic = 1,
     rl_BlockFetchRangeBlocks = 2, rl_BlockFetchQueueSize = 4, rl_RelayQueueSize = 4, rl_RawQueueBytes = 3,
     rl_DialTimeout = 1, rl_BlockTimeout = 1\<rparr>"

definition sample_block_header :: "byte \<Rightarrow> block_header" where
  "sample_block_header b = \<lparr>bh_Hash = replicate 32 b, bh_SlotNumber = ucast b, bh_BlockNumber = ucast b, bh_ByronEBB = False\<rparr>"

definition sample_tip :: proto_tip where
  "sample_tip = \<lparr>pp_Point = \<lparr>pp_Slot = 0, pp_Hash = []\<rparr>, pp_BlockNumber = 0\<rparr>"

definition sample_announce :: "session_choice list" where
  "sample_announce = [Begin 1, StartWorkers, RollForward 1 0 5 (Some (sample_block_header 2)) sample_tip,
     RollForward 2 0 5 (Some (sample_block_header 3)) sample_tip, BuilderTake 3, BuilderTake 4, BuilderSend 0]"

definition sample_fetch :: "session_choice list" where
  "sample_fetch = [FetchTake 5, RangeRequested None 0, RawBlock 6 5 [1, 2], ReserveRaw 0, CallbackSend 0,
     RawBlock 7 5 [3, 4], ReserveRaw 0, ReadNext]"

fun session_run :: "(bytes \<Rightarrow> hash32) \<Rightarrow> nat \<Rightarrow> session_choice list \<Rightarrow> session \<times> history \<Rightarrow> (session \<times> history) option" where
  "session_run sha256 mo [] sh = Some sh"
| "session_run sha256 mo (mv # mvs) sh =
     (case session_move sha256 mo mv (fst sh) of None \<Rightarrow> None
      | Some t \<Rightarrow> session_run sha256 mo mvs (t, extend mv (fst sh) t (snd sh)))"

lemma session_run_reachable:
  "session_run sha256 mo mvs (s, h) = Some (t, h') \<Longrightarrow> session_reachable sha256 mo c s h \<Longrightarrow> session_reachable sha256 mo c t h'"
proof (induction mvs arbitrary: s h)
  case (Cons mv mvs)
  then obtain u where "session_move sha256 mo mv s = Some u" "session_run sha256 mo mvs (u, extend mv s u h) = Some (t, h')"
    by (auto split: option.splits)
  with Cons show ?case by (blast intro: session_go)
qed simp

definition sample_new_session :: session where
  "sample_new_session = projr (NewSession 8 True sample_relay_config)"

definition sample_sha :: "bytes \<Rightarrow> hash32" where
  "sample_sha bs = fill32 7"

definition sample_announced :: "session \<times> history" where
  "sample_announced = the (session_run sample_sha 10 sample_announce (sample_new_session, no_history))"

definition sample_fetched :: "session \<times> history" where
  "sample_fetched = the (session_run sample_sha 10 sample_fetch sample_announced)"

lemma sample_new_reachable: "session_reachable sample_sha 10 sample_relay_config sample_new_session no_history"
  by (rule session_new [where maxRecv = 8 and logger = True])
    (simp add: sample_new_session_def NewSession_def validateConfig_def relay_checks_def sample_relay_config_def TrimSpace_def is_space_def)

lemmas session_eval = sample_new_session_def NewSession_def validateConfig_def relay_checks_def sample_relay_config_def
  TrimSpace_def is_space_def sample_announce_def sample_fetch_def no_history_def session_begin_def start_workers_def
  onRollForward_def sample_block_header_def sample_tip_def pointFromHeader_def pointFromTip_def pointFromProtocol_def
  enqueueChainEvent_def forward_chain_event_def builder_take_def build_event_def stage_header_def flush_pending_def
  sending_def enqueueJob_def fetch_take_def cancelled_def new_range_def range_requested_def wrapFailure_def onRawBlock_def
  reserveRaw_def callback_send_def emit_error_def send_event_def session_next_def releaseRaw_def forward_event_def
  count_raw_def KindForward_def KindRollback_def extend_def well_formed_point_def Let_def

lemma sample_announced_runs:
  "session_run sample_sha 10 sample_announce (sample_new_session, no_history) \<noteq> None"
  by (simp add: session_eval)

lemma sample_announced_run:
  "session_run sample_sha 10 sample_announce (sample_new_session, no_history) = Some (fst sample_announced, snd sample_announced)"
  using sample_announced_runs by (auto simp: sample_announced_def)

lemma sample_announced_reachable:
  "session_reachable sample_sha 10 sample_relay_config (fst sample_announced) (snd sample_announced)"
  by (rule session_run_reachable [OF sample_announced_run sample_new_reachable])

lemma sample_fetch_takes: "fetch_take 5 (fst sample_announced) \<noteq> None"
  by (simp add: sample_announced_def session_eval)

lemma sample_fetched_runs: "session_run sample_sha 10 sample_fetch sample_announced \<noteq> None"
  by (simp add: sample_announced_def session_eval)

lemma sample_fetched_reachable:
  "session_reachable sample_sha 10 sample_relay_config (fst sample_fetched) (snd sample_fetched)"
proof (rule session_run_reachable [OF _ sample_announced_reachable])
  show "session_run sample_sha 10 sample_fetch (fst sample_announced, snd sample_announced) = Some (fst sample_fetched, snd sample_fetched)"
    using sample_fetched_runs by (auto simp: sample_fetched_def)
qed

lemma sample_fetched_parked:
  "ss_callback (fst sample_fetched) = Parked (hd (callback_event (ss_callback (fst sample_fetched))))"
  "ss_events (fst sample_fetched) = []" "length (hi_delivered (snd sample_fetched)) = 1"
  by (simp_all add: sample_fetched_def sample_announced_def session_eval)

lemma sample_fetched_history:
  "hi_sent (snd sample_fetched) = [SaidForward 5 (sample_block_header 2) sample_tip, SaidForward 5 (sample_block_header 3) sample_tip]"
  "hi_served (snd sample_fetched) = [(5, [1, 2]), (5, [3, 4])]"
  by (simp_all add: sample_fetched_def sample_announced_def session_eval)

text \<open>The first event read is the first header with the first block, although two of each were sent.\<close>

theorem session_reports_announced_chain_witness:
  "\<exists>e. hi_delivered (snd sample_fetched) = [e] \<and> reports (SaidForward 5 (sample_block_header 2) sample_tip) e"
proof -
  from sample_fetched_parked(3) obtain e where e: "hi_delivered (snd sample_fetched) = [e]"
    by (cases "hi_delivered (snd sample_fetched)") auto
  from session_reports_announced_chain [OF sample_fetched_reachable] obtain msgs where
    "prefix msgs (hi_sent (snd sample_fetched))" "list_all2 reports msgs (hi_delivered (snd sample_fetched))" by blast
  with e show ?thesis by (cases msgs) (auto simp: sample_fetched_history)
qed

theorem session_memory_bounded_witness:
  "ss_rawQueued (fst sample_fetched) = sum_list (map raw_len (ss_events (fst sample_fetched))) + reserved (ss_callback (fst sample_fetched))"
  using session_memory_bounded [OF sample_fetched_reachable] by simp

theorem session_reservation_wakes_witness:
  "\<exists>t u. wake_up (fst sample_fetched) = Some t \<and> reserveRaw 0 t = Some u \<and>
     ss_callback u = Sending (hd (callback_event (ss_callback (fst sample_fetched))))"
  by (rule session_reservation_wakes [OF sample_fetched_reachable sample_fetched_parked(1,2)])

theorem fetch_jobs_well_formed_witness:
  "(\<exists>e. ss_fetcher (the (fetch_take 5 (fst sample_announced))) = FetchEmitting e) \<or>
    (\<exists>hs. hs \<noteq> [] \<and> requested_range (the (fetch_take 5 (fst sample_announced))) =
       Some (toProtocolPoint (eh_point (hd hs)), toProtocolPoint (eh_point (last hs))) \<and>
       map HeaderItem hs = range_items (the (fetch_take 5 (fst sample_announced))))"
proof -
  from sample_fetch_takes have "fetch_take 5 (fst sample_announced) = Some (the (fetch_take 5 (fst sample_announced)))" by auto
  from fetch_jobs_well_formed [OF sample_announced_reachable this] show ?thesis .
qed


end
