(* ===== verification/Chainsync_Client.thy ===== *)
theory Chainsync_Client
  imports Relay_Failures
begin

text \<open>
  \<^verbatim>\<open>internal/relay/chainsync_client.go\<close>: the ChainSync client, which schedules its own
  requests. The goroutine that starts the client, the handler of received messages, and the watch for
  missing responses share the client; every step of one of them under a mutex is a move. The protocol
  library is an argument: its constants, encodings and header decoder as a record, what the network does
  as the choice of the moves.
\<close>

section \<open>Data\<close>

record wrapped_header =
  wh_Era :: u64
  wh_ByronType :: u64
  wh_HeaderCbor :: bytes

datatype cs_message =
    MsgIntersectFound proto_point proto_tip
  | MsgIntersectNotFound proto_tip
  | MsgAwaitReply
  | MsgRollForward wrapped_header proto_tip
  | MsgRollBackward proto_point proto_tip
  | MsgOther

text \<open>What the client uses of the protocol library.\<close>

record cs_library =
  lb_MaxPipelineLimit :: int
  lb_IntersectTimeout :: int
  lb_RequestNext :: "go_error + bytes"
  lb_FindIntersect :: "proto_point list \<Rightarrow> go_error + bytes"
  lb_ByronEra :: u64
  lb_BlockTypes :: "u64 \<Rightarrow> u64 option"
  lb_NewBlockHeader :: "u64 \<Rightarrow> bytes \<Rightarrow> go_error + block_header"

definition chainSyncRequestBatch :: int where
  "chainSyncRequestBatch = 1"

text \<open>The configuration; of the callbacks only whether they are set.\<close>

record cs_config =
  cc_Muxer :: bool
  cc_AwaitReply :: bool
  cc_RollForwardFunc :: bool
  cc_RollBackwardFunc :: bool
  cc_PipelineLimit :: int
  cc_RecvQueueSize :: int
  cc_IntersectTimeout :: int
  cc_BlockTimeout :: int

datatype cs_state = StateActive | StateMustReply

record cs_intersection =
  ci_point :: proto_point
  ci_tip :: proto_tip
  ci_err :: "go_error option"

text \<open>Where a call of \<^verbatim>\<open>findIntersection\<close>, the call of \<^verbatim>\<open>Sync\<close> and the handler are.\<close>

datatype finder = NotFinding | FindingRange | FindingSync

datatype syncing =
    SyncNotCalled
  | SyncFinding
  | SyncLoop int
  | SyncReserved int
  | SyncReturned "go_error option"

datatype handler =
    HandlerIdle
  | DeliveryBlocked
  | InAwaitReply
  | InCallback
  | Refilling int
  | HandlerEnded go_error

text \<open>
  The client. \<open>cl_intersectWait\<close> is the channel an intersection is delivered to, with its one element;
  \<open>cl_segments\<close> are the payloads handed to the muxer, \<open>cl_errors\<close> the errors reported to the session.
\<close>

record cs_client =
  cl_config :: cs_config
  cl_requestNextPayload :: bytes
  cl_intersectWait :: "cs_intersection option option"
  cl_syncStarted :: bool
  cl_outstanding :: int
  cl_refillCredits :: int
  cl_responseDeadline :: time
  cl_responseSuspended :: bool
  cl_stopped :: bool
  cl_state :: cs_state
  cl_find :: finder
  cl_sync :: syncing
  cl_handler :: handler
  cl_watching :: bool
  cl_segments :: "bytes list"
  cl_errors :: "go_error list"
  cl_done :: bool

section \<open>Construction\<close>

definition client_checks :: "cs_library \<Rightarrow> cs_config \<Rightarrow> (bool \<times> string) list" where
  "client_checks lib c =
     [(\<not> cc_Muxer c, ''muxer''), (\<not> cc_AwaitReply c, ''await-reply callback''),
      (\<not> cc_RollForwardFunc c, ''roll-forward callback''), (\<not> cc_RollBackwardFunc c, ''rollback callback''),
      (cc_BlockTimeout c \<le> 0, ''block timeout''),
      (cc_PipelineLimit c < 1 \<or> cc_PipelineLimit c > lb_MaxPipelineLimit lib, ''pipeline'')]"

definition newChainSyncClient :: "cs_library \<Rightarrow> cs_config \<Rightarrow> go_error + cs_client" where
  "newChainSyncClient lib c =
     (case List.find fst (client_checks lib c) of
        Some (_, what) \<Rightarrow> Inl (errorsNew what)
      | None \<Rightarrow>
          let c = (if cc_RecvQueueSize c < 1 then c\<lparr>cc_RecvQueueSize := cc_PipelineLimit c\<rparr> else c) in
          case lb_RequestNext lib of
            Inl e \<Rightarrow> Inl (Annotated ''encode ChainSync RequestNext: '' e)
          | Inr payload \<Rightarrow> Inr \<lparr>cl_config = c, cl_requestNextPayload = payload, cl_intersectWait = None,
              cl_syncStarted = False, cl_outstanding = 0, cl_refillCredits = 0, cl_responseDeadline = 0,
              cl_responseSuspended = False, cl_stopped = False, cl_state = StateActive, cl_find = NotFinding,
              cl_sync = SyncNotCalled, cl_handler = HandlerIdle, cl_watching = False, cl_segments = [], cl_errors = [],
              cl_done = False\<rparr>)"

text \<open>The state map: \<open>None\<close> for a message that is not allowed.\<close>

fun chainSyncStateMap :: "cs_state \<Rightarrow> cs_message \<Rightarrow> cs_state option" where
  "chainSyncStateMap StateActive (MsgIntersectFound _ _) = Some StateActive"
| "chainSyncStateMap StateActive (MsgIntersectNotFound _) = Some StateActive"
| "chainSyncStateMap StateActive (MsgRollForward _ _) = Some StateActive"
| "chainSyncStateMap StateActive (MsgRollBackward _ _) = Some StateActive"
| "chainSyncStateMap StateActive MsgAwaitReply = Some StateMustReply"
| "chainSyncStateMap StateMustReply (MsgRollForward _ _) = Some StateActive"
| "chainSyncStateMap StateMustReply (MsgRollBackward _ _) = Some StateActive"
| "chainSyncStateMap _ _ = None"

section \<open>Sending\<close>

text \<open>What the muxer does with a payload: no segment, an error, or sent.\<close>

datatype send_answer = NoSegment | SendFails go_error | Sent

definition sendPayload :: "send_answer \<Rightarrow> bytes \<Rightarrow> cs_client \<Rightarrow> go_error + cs_client" where
  "sendPayload answer payload c =
     (case answer of
        NoSegment \<Rightarrow> Inl (errorsNew ''create ChainSync mux segment'')
      | SendFails e \<Rightarrow> Inl (Annotated ''send ChainSync mux segment: '' e)
      | Sent \<Rightarrow> Inr (c\<lparr>cl_segments := cl_segments c @ [payload]\<rparr>))"

definition sendRequestNext :: "send_answer \<Rightarrow> int \<Rightarrow> cs_client \<Rightarrow> go_error + cs_client" where
  "sendRequestNext answer count c = sendPayload answer (concat (replicate (nat count) (cl_requestNextPayload c))) c"

definition sendMessage :: "send_answer \<Rightarrow> go_error + bytes \<Rightarrow> cs_client \<Rightarrow> go_error + cs_client" where
  "sendMessage answer encoded c = bindE encoded (\<lambda>payload. sendPayload answer payload c)"

section \<open>The account of requests\<close>

definition limit_error :: go_error where
  "limit_error = errorsNew ''ChainSync outstanding request limit exceeded''"

definition reserve :: "cs_library \<Rightarrow> int \<Rightarrow> cs_client \<Rightarrow> go_error + cs_client" where
  "reserve lib count c =
     (if count < 1 \<or> cl_outstanding c + count > cc_PipelineLimit (cl_config c) \<or> cl_outstanding c + count > lb_MaxPipelineLimit lib
      then Inl limit_error else Inr (c\<lparr>cl_outstanding := cl_outstanding c + count\<rparr>))"

definition completeRequest :: "cs_client \<Rightarrow> go_error + cs_client" where
  "completeRequest c =
     (if cl_outstanding c = 0 then Inl (errorsNew ''ChainSync response without an outstanding request'')
      else Inr (c\<lparr>cl_outstanding := cl_outstanding c - 1\<rparr>))"

definition refill_batch :: "cs_client \<Rightarrow> int" where
  "refill_batch c = min chainSyncRequestBatch (max 1 (cc_PipelineLimit (cl_config c) div 2))"

text \<open>\<^verbatim>\<open>completeCallback\<close> up to the send, and after it.\<close>

definition completeCallback :: "cs_library \<Rightarrow> cs_client \<Rightarrow> (go_error + int option) \<times> cs_client" where
  "completeCallback lib c =
     (let c = c\<lparr>cl_refillCredits := cl_refillCredits c + 1\<rparr>; batchSize = refill_batch c in
      if cl_refillCredits c < batchSize then (Inr None, c)
      else case reserve lib batchSize c of Inl e \<Rightarrow> (Inl e, c) | Inr c \<Rightarrow> (Inr (Some batchSize), c))"

definition refill_sent :: "send_answer \<Rightarrow> int \<Rightarrow> cs_client \<Rightarrow> go_error + cs_client" where
  "refill_sent answer batchSize c =
     bindE (sendRequestNext answer batchSize c) (\<lambda>c. Inr (c\<lparr>cl_refillCredits := 0\<rparr>))"

section \<open>The response watch\<close>

definition suspendResponseWatch :: "cs_client \<Rightarrow> cs_client" where
  "suspendResponseWatch c = (if cl_stopped c then c else c\<lparr>cl_responseSuspended := True, cl_responseDeadline := 0\<rparr>)"

definition resumeResponseWatch :: "time \<Rightarrow> cs_client \<Rightarrow> cs_client" where
  "resumeResponseWatch now c =
     (if cl_stopped c then c
      else c\<lparr>cl_responseSuspended := False, cl_responseDeadline := now + cc_BlockTimeout (cl_config c)\<rparr>)"

definition armResponseWatch :: "time \<Rightarrow> cs_client \<Rightarrow> cs_client" where
  "armResponseWatch now c =
     (if cl_stopped c \<or> cl_responseSuspended c then c
      else c\<lparr>cl_responseDeadline := now + cc_BlockTimeout (cl_config c)\<rparr>)"

definition watch_interval :: "cs_config \<Rightarrow> int" where
  "watch_interval c = min 1000000000 (max (10 * 1000000) (cc_BlockTimeout c div 10))"

definition expired :: "time \<Rightarrow> cs_client \<Rightarrow> bool" where
  "expired now c \<longleftrightarrow> \<not> cl_stopped c \<and> \<not> cl_responseSuspended c \<and> cl_responseDeadline c \<noteq> 0 \<and> \<not> now < cl_responseDeadline c"

text \<open>One tick of \<^verbatim>\<open>watchResponses\<close>.\<close>

definition watch_tick :: "time \<Rightarrow> cs_client \<Rightarrow> cs_client" where
  "watch_tick now c =
     (if expired now c
      then c\<lparr>cl_stopped := True, cl_responseDeadline := 0, cl_watching := False,
             cl_errors := cl_errors c @ [errorsNew ''ChainSync timed out waiting for a response'']\<rparr>
      else c)"

definition Stop :: "cs_client \<Rightarrow> cs_client" where
  "Stop c = c\<lparr>cl_stopped := True, cl_responseSuspended := True, cl_responseDeadline := 0, cl_done := True\<rparr>"

section \<open>Intersections\<close>

text \<open>\<^verbatim>\<open>findIntersection\<close> up to its wait; \<open>Inl\<close> is its error.\<close>

definition find_begin :: "cs_library \<Rightarrow> send_answer \<Rightarrow> proto_point list \<Rightarrow> cs_client \<Rightarrow> go_error + cs_client" where
  "find_begin lib answer points c =
     (let points = (if length points = 0 then [\<lparr>pp_Slot = 0, pp_Hash = []\<rparr>] else points) in
      bindE (sendMessage answer (lb_FindIntersect lib points) c) (\<lambda>c. Inr (c\<lparr>cl_intersectWait := Some None\<rparr>)))"

text \<open>Its deferred function clears the channel; a delivery blocked on it then goes through.\<close>

definition find_end :: "cs_client \<Rightarrow> cs_client" where
  "find_end c = c\<lparr>cl_intersectWait := None, cl_find := NotFinding\<rparr>"

definition release_delivery :: "cs_client \<Rightarrow> cs_client" where
  "release_delivery c = (if cl_handler c = DeliveryBlocked then c\<lparr>cl_handler := HandlerIdle\<rparr> else c)"

definition intersect_timeout :: "cs_library \<Rightarrow> cs_config \<Rightarrow> int" where
  "intersect_timeout lib c = (if cc_IntersectTimeout c \<le> 0 then lb_IntersectTimeout lib else cc_IntersectTimeout c)"

text \<open>The three ways the wait ends, with the result of the call.\<close>

datatype find_outcome = FoundResult | FindTimedOut | FindShutDown

definition find_wait :: "find_outcome \<Rightarrow> cs_client \<Rightarrow> ((go_error + cs_intersection) \<times> cs_client) option" where
  "find_wait outcome c =
     (case outcome of
        FoundResult \<Rightarrow>
          (case cl_intersectWait c of
             Some (Some r) \<Rightarrow>
               Some (case ci_err r of Some e \<Rightarrow> Inl e | None \<Rightarrow> Inr r, release_delivery (find_end c))
           | _ \<Rightarrow> None)
      | FindTimedOut \<Rightarrow> Some (Inl (errorsNew ''ChainSync intersection timed out''), find_end c)
      | FindShutDown \<Rightarrow> if cl_done c then Some (Inl ErrProtocolShuttingDown, find_end c) else None)"

definition zero_proto_point :: proto_point where
  "zero_proto_point = \<lparr>pp_Slot = 0, pp_Hash = []\<rparr>"

definition GetAvailableBlockRange :: "go_error + cs_intersection \<Rightarrow> go_error + proto_point \<times> proto_point" where
  "GetAvailableBlockRange found =
     bindE found (\<lambda>r.
       if pp_Slot (ci_point r) \<ge> pp_Slot (pp_Point (ci_tip r)) then Inr (zero_proto_point, zero_proto_point)
       else Inr (ci_point r, pp_Point (ci_tip r)))"

definition deliverIntersection :: "cs_intersection \<Rightarrow> cs_client \<Rightarrow> cs_client" where
  "deliverIntersection r c =
     (case cl_intersectWait c of
        None \<Rightarrow> c\<lparr>cl_handler := HandlerEnded (errorsNew ''unexpected ChainSync intersection response'')\<rparr>
      | Some None \<Rightarrow> c\<lparr>cl_intersectWait := Some (Some r)\<rparr>
      | Some (Some _) \<Rightarrow> c\<lparr>cl_handler := DeliveryBlocked\<rparr>)"

section \<open>Messages\<close>

definition blockTypeFromHeader :: "cs_library \<Rightarrow> wrapped_header \<Rightarrow> go_error + u64" where
  "blockTypeFromHeader lib header =
     (if wh_Era header = lb_ByronEra lib then Inr (wh_ByronType header)
      else case lb_BlockTypes lib (wh_Era header) of
        None \<Rightarrow> Inl (errorsNew ''unknown ChainSync header era'')
      | Some t \<Rightarrow> Inr t)"

text \<open>The arguments of the roll-forward callback.\<close>

definition decode_header :: "cs_library \<Rightarrow> wrapped_header \<Rightarrow> go_error + u64 \<times> block_header" where
  "decode_header lib header =
     bindE (blockTypeFromHeader lib header) (\<lambda>blockType.
       case lb_NewBlockHeader lib blockType (wh_HeaderCbor header) of
         Inl e \<Rightarrow> Inl (Annotated ''decode ChainSync header: '' e)
       | Inr h \<Rightarrow> Inr (blockType, h))"

definition handler_ends :: "go_error \<Rightarrow> cs_client \<Rightarrow> cs_client" where
  "handler_ends e c = c\<lparr>cl_handler := HandlerEnded e\<rparr>"

definition begin_response :: "go_error + unit \<Rightarrow> cs_client \<Rightarrow> cs_client" where
  "begin_response checked c =
     (let c = suspendResponseWatch c in
      case completeRequest c of
        Inl e \<Rightarrow> handler_ends e c
      | Inr c \<Rightarrow> (case checked of Inl e \<Rightarrow> handler_ends e c | Inr _ \<Rightarrow> c\<lparr>cl_handler := InCallback\<rparr>))"

text \<open>\<^verbatim>\<open>handleMessage\<close> up to the callback.\<close>

definition handleMessage :: "cs_library \<Rightarrow> cs_message \<Rightarrow> cs_client \<Rightarrow> cs_client" where
  "handleMessage lib message c =
     (case message of
        MsgIntersectFound p tip \<Rightarrow> deliverIntersection \<lparr>ci_point = p, ci_tip = tip, ci_err = None\<rparr> c
      | MsgIntersectNotFound tip \<Rightarrow>
          deliverIntersection \<lparr>ci_point = zero_proto_point, ci_tip = tip, ci_err = Some ErrIntersectNotFound\<rparr> c
      | MsgAwaitReply \<Rightarrow> (suspendResponseWatch c)\<lparr>cl_handler := InAwaitReply\<rparr>
      | MsgRollForward header tip \<Rightarrow> begin_response (bindE (decode_header lib header) (\<lambda>_. Inr ())) c
      | MsgRollBackward p tip \<Rightarrow> begin_response (Inr ()) c
      | MsgOther \<Rightarrow> handler_ends (errorsNew ''unexpected ChainSync message'') c)"

text \<open>The callback returned; a response then refills the pipeline.\<close>

definition callback_returns :: "cs_library \<Rightarrow> go_error option \<Rightarrow> time \<Rightarrow> cs_client \<Rightarrow> cs_client option" where
  "callback_returns lib err now c =
     (case cl_handler c of
        InAwaitReply \<Rightarrow> Some (case err of None \<Rightarrow> c\<lparr>cl_handler := HandlerIdle\<rparr> | Some e \<Rightarrow> handler_ends e c)
      | InCallback \<Rightarrow>
          Some (case err of
             Some e \<Rightarrow> handler_ends e c
           | None \<Rightarrow>
               (case completeCallback lib c of
                  (Inl e, c) \<Rightarrow> handler_ends e c
                | (Inr (Some batchSize), c) \<Rightarrow> c\<lparr>cl_handler := Refilling batchSize\<rparr>
                | (Inr None, c) \<Rightarrow> resumeResponseWatch now (c\<lparr>cl_handler := HandlerIdle\<rparr>)))
      | _ \<Rightarrow> None)"

definition refill :: "send_answer \<Rightarrow> time \<Rightarrow> cs_client \<Rightarrow> cs_client option" where
  "refill answer now c =
     (case cl_handler c of
        Refilling batchSize \<Rightarrow>
          (case refill_sent answer batchSize c of
             Inl e \<Rightarrow> Some (handler_ends e c)
           | Inr c \<Rightarrow> Some (resumeResponseWatch now (c\<lparr>cl_handler := HandlerIdle\<rparr>)))
      | _ \<Rightarrow> None)"

section \<open>Sync\<close>

definition sync_returns :: "go_error option \<Rightarrow> cs_client \<Rightarrow> cs_client" where
  "sync_returns err c = c\<lparr>cl_sync := SyncReturned err\<rparr>"

text \<open>The loop of \<^verbatim>\<open>Sync\<close>: reserve, send, and at its end arm the watch and start it.\<close>

definition sync_reserve :: "cs_library \<Rightarrow> cs_client \<Rightarrow> cs_client option" where
  "sync_reserve lib c =
     (case cl_sync c of
        SyncLoop remaining \<Rightarrow>
          if remaining > 0 then
            (case reserve lib (min remaining chainSyncRequestBatch) c of
               Inl e \<Rightarrow> Some (sync_returns (Some e) c)
             | Inr c \<Rightarrow> Some (c\<lparr>cl_sync := SyncReserved remaining\<rparr>))
          else None
      | _ \<Rightarrow> None)"

definition sync_send :: "send_answer \<Rightarrow> cs_client \<Rightarrow> cs_client option" where
  "sync_send answer c =
     (case cl_sync c of
        SyncReserved remaining \<Rightarrow>
          (let count = min remaining chainSyncRequestBatch in
           case sendRequestNext answer count c of
             Inl e \<Rightarrow> Some (sync_returns (Some e) c)
           | Inr c \<Rightarrow> Some (c\<lparr>cl_sync := SyncLoop (remaining - count)\<rparr>))
      | _ \<Rightarrow> None)"

definition sync_arm :: "time \<Rightarrow> cs_client \<Rightarrow> cs_client option" where
  "sync_arm now c =
     (case cl_sync c of
        SyncLoop remaining \<Rightarrow>
          if remaining > 0 then None else Some (sync_returns None ((armResponseWatch now c)\<lparr>cl_watching := True\<rparr>))
      | _ \<Rightarrow> None)"

text \<open>
  The begin of \<^verbatim>\<open>GetAvailableBlockRange\<close> and of \<^verbatim>\<open>Sync\<close>; calls exclude each other by
  a mutex. A second call of \<^verbatim>\<open>Sync\<close> is refused and changes nothing.
\<close>

definition range_begin :: "cs_library \<Rightarrow> send_answer \<Rightarrow> proto_point list \<Rightarrow> cs_client \<Rightarrow> cs_client option" where
  "range_begin lib answer points c =
     (if cl_find c \<noteq> NotFinding then None
      else case find_begin lib answer points c of
        Inl _ \<Rightarrow> Some c
      | Inr c \<Rightarrow> Some (c\<lparr>cl_find := FindingRange\<rparr>))"

definition sync_begin :: "cs_library \<Rightarrow> send_answer \<Rightarrow> proto_point list \<Rightarrow> cs_client \<Rightarrow> cs_client option" where
  "sync_begin lib answer points c =
     (if cl_syncStarted c then Some c
      else if cl_find c \<noteq> NotFinding then None
      else let c = c\<lparr>cl_syncStarted := True\<rparr> in
        case find_begin lib answer points c of
          Inl e \<Rightarrow> Some (sync_returns (Some e) c)
        | Inr c \<Rightarrow> Some (c\<lparr>cl_find := FindingSync, cl_sync := SyncFinding\<rparr>))"

definition find_ends :: "find_outcome \<Rightarrow> cs_client \<Rightarrow> cs_client option" where
  "find_ends outcome c =
     (case cl_find c of
        NotFinding \<Rightarrow> None
      | FindingRange \<Rightarrow> map_option snd (find_wait outcome c)
      | FindingSync \<Rightarrow>
          map_option (\<lambda>(found, c). case found of Inl e \<Rightarrow> sync_returns (Some e) c
            | Inr _ \<Rightarrow> c\<lparr>cl_sync := SyncLoop (cc_PipelineLimit (cl_config c))\<rparr>) (find_wait outcome c))"

section \<open>The moves\<close>

datatype cs_choice =
    RangeBegin send_answer "proto_point list"
  | SyncBegin send_answer "proto_point list"
  | FindEnds find_outcome
  | SyncReserve
  | SyncSend send_answer
  | SyncArm time
  | Receive cs_message
  | CallbackReturns "go_error option" time
  | Refill send_answer time
  | DeliveryStops
  | Tick time
  | StopClient
  | ProtocolEnds

text \<open>The library checks a message against the state map before it calls the handler.\<close>

definition receive :: "cs_library \<Rightarrow> cs_message \<Rightarrow> cs_client \<Rightarrow> cs_client option" where
  "receive lib message c =
     (if cl_handler c \<noteq> HandlerIdle \<or> cl_done c then None
      else case chainSyncStateMap (cl_state c) message of
        None \<Rightarrow> None
      | Some state \<Rightarrow> Some (handleMessage lib message (c\<lparr>cl_state := state\<rparr>)))"

fun client_move :: "cs_library \<Rightarrow> cs_choice \<Rightarrow> cs_client \<Rightarrow> cs_client option" where
  "client_move lib (RangeBegin answer points) c = range_begin lib answer points c"
| "client_move lib (SyncBegin answer points) c = sync_begin lib answer points c"
| "client_move lib (FindEnds outcome) c = find_ends outcome c"
| "client_move lib SyncReserve c = sync_reserve lib c"
| "client_move lib (SyncSend answer) c = sync_send answer c"
| "client_move lib (SyncArm now) c = sync_arm now c"
| "client_move lib (Receive message) c = receive lib message c"
| "client_move lib (CallbackReturns err now) c = callback_returns lib err now c"
| "client_move lib (Refill answer now) c = refill answer now c"
| "client_move lib DeliveryStops c =
     (if cl_handler c = DeliveryBlocked \<and> cl_done c then Some (handler_ends ErrProtocolShuttingDown c) else None)"
| "client_move lib (Tick now) c = (if cl_watching c then Some (watch_tick now c) else None)"
| "client_move lib StopClient c = Some (Stop c)"
| "client_move lib ProtocolEnds c = Some (c\<lparr>cl_done := True\<rparr>)"

end
