(* ===== verification/Chainsync_Laws.thy ===== *)
theory Chainsync_Laws
  imports Chainsync_Client
begin

text \<open>
  What the ChainSync client guarantees in every interleaving of its goroutines: its account of
  requests is exact, so that neither \<^verbatim>\<open>Sync\<close> nor a refill exceeds the limit and no request is
  lost; and the response watch reports a relay that is silent, never a callback that takes its time.
\<close>

section \<open>Runs with their history\<close>

text \<open>Requests sent, responses received, and when the client last finished with a response or armed the watch.\<close>

record cs_history =
  ch_sent :: int
  ch_answered :: int
  ch_armed :: time

fun requests_sent :: "cs_choice \<Rightarrow> cs_client \<Rightarrow> cs_client \<Rightarrow> int" where
  "requests_sent (SyncSend answer) c d = int (length (cl_segments d)) - int (length (cl_segments c))"
| "requests_sent (Refill answer now) c d = int (length (cl_segments d)) - int (length (cl_segments c))"
| "requests_sent _ c d = 0"

fun responses :: "cs_choice \<Rightarrow> int" where
  "responses (Receive (MsgRollForward header tip)) = 1"
| "responses (Receive (MsgRollBackward p tip)) = 1"
| "responses _ = 0"

fun clock_of :: "cs_choice \<Rightarrow> time option" where
  "clock_of (SyncArm now) = Some now"
| "clock_of (CallbackReturns err now) = Some now"
| "clock_of (Refill answer now) = Some now"
| "clock_of _ = None"

definition observe_move :: "cs_choice \<Rightarrow> cs_client \<Rightarrow> cs_client \<Rightarrow> cs_history \<Rightarrow> cs_history" where
  "observe_move mv c d h = \<lparr>ch_sent = ch_sent h + requests_sent mv c d, ch_answered = ch_answered h + responses mv,
     ch_armed = (case clock_of mv of None \<Rightarrow> ch_armed h | Some now \<Rightarrow> now)\<rparr>"

text \<open>The clock never shows the zero time.\<close>

inductive client_reachable :: "cs_library \<Rightarrow> cs_config \<Rightarrow> cs_client \<Rightarrow> cs_history \<Rightarrow> bool" for lib cfg where
  client_new: "newChainSyncClient lib cfg = Inr c \<Longrightarrow> client_reachable lib cfg c \<lparr>ch_sent = 0, ch_answered = 0, ch_armed = 0\<rparr>"
| client_go: "client_reachable lib cfg c h \<Longrightarrow> client_move lib mv c = Some d \<Longrightarrow> pred_option (\<lambda>now. now > 0) (clock_of mv) \<Longrightarrow>
     client_reachable lib cfg d (observe_move mv c d h)"

section \<open>The account of requests\<close>

fun sync_left :: "int \<Rightarrow> syncing \<Rightarrow> int" where
  "sync_left limit SyncNotCalled = limit"
| "sync_left limit SyncFinding = limit"
| "sync_left limit (SyncLoop remaining) = remaining"
| "sync_left limit (SyncReserved remaining) = remaining - 1"
| "sync_left limit (SyncReturned err) = 0"

fun sync_ok :: "syncing \<Rightarrow> bool" where
  "sync_ok (SyncLoop remaining) \<longleftrightarrow> remaining \<ge> 0"
| "sync_ok (SyncReserved remaining) \<longleftrightarrow> remaining \<ge> 1"
| "sync_ok _ \<longleftrightarrow> True"

fun answering :: "handler \<Rightarrow> int" where
  "answering InCallback = 1"
| "answering _ = 0"

text \<open>Requests that are reserved and not yet sent.\<close>

fun sync_unsent :: "syncing \<Rightarrow> int" where
  "sync_unsent (SyncReserved remaining) = 1"
| "sync_unsent _ = 0"

fun refill_unsent :: "handler \<Rightarrow> int" where
  "refill_unsent (Refilling batchSize) = 1"
| "refill_unsent _ = 0"

text \<open>Neither the handler nor \<^verbatim>\<open>Sync\<close> has returned an error.\<close>

definition intact :: "cs_client \<Rightarrow> bool" where
  "intact c \<longleftrightarrow> (\<forall>e. cl_handler c \<noteq> HandlerEnded e) \<and> (\<forall>e. cl_sync c \<noteq> SyncReturned (Some e))"

definition credit_inv :: "cs_library \<Rightarrow> cs_config \<Rightarrow> cs_client \<Rightarrow> int \<Rightarrow> bool" where
  "credit_inv lib cfg c unanswered \<longleftrightarrow>
     cc_PipelineLimit (cl_config c) = cc_PipelineLimit cfg \<and> 1 \<le> cc_PipelineLimit cfg \<and>
     cc_PipelineLimit cfg \<le> lb_MaxPipelineLimit lib \<and> 0 \<le> cl_outstanding c \<and> sync_ok (cl_sync c) \<and>
     (\<forall>b. cl_handler c = Refilling b \<longrightarrow> b = 1) \<and>
     (intact c \<longrightarrow> cl_refillCredits c = refill_unsent (cl_handler c)) \<and> 0 \<le> cl_refillCredits c \<and>
     cl_outstanding c + sync_left (cc_PipelineLimit cfg) (cl_sync c) + answering (cl_handler c) \<le> cc_PipelineLimit cfg \<and>
     (intact c \<longrightarrow> cl_outstanding c + sync_left (cc_PipelineLimit cfg) (cl_sync c) + answering (cl_handler c) = cc_PipelineLimit cfg) \<and>
     unanswered + sync_unsent (cl_sync c) + refill_unsent (cl_handler c) \<le> cl_outstanding c \<and>
     (intact c \<longrightarrow> unanswered + sync_unsent (cl_sync c) + refill_unsent (cl_handler c) = cl_outstanding c) \<and>
     (cl_syncStarted c \<longleftrightarrow> cl_sync c \<noteq> SyncNotCalled) \<and> (cl_find c = FindingSync \<longleftrightarrow> cl_sync c = SyncFinding)"

text \<open>The moves by their effect.\<close>

lemma sendPayload_Inr: "sendPayload answer payload c = Inr d \<Longrightarrow> d = c\<lparr>cl_segments := cl_segments c @ [payload]\<rparr>"
  by (auto simp: sendPayload_def split: send_answer.splits)

lemma find_begin_Inr:
  "find_begin lib answer points c = Inr d \<Longrightarrow> \<exists>p. d = c\<lparr>cl_segments := cl_segments c @ [p], cl_intersectWait := Some None\<rparr>"
  by (auto simp: find_begin_def sendMessage_def Let_def err_simps dest!: sendPayload_Inr split: if_splits)

lemma find_wait_Some:
  assumes "find_wait outcome c = Some (found, d)"
  shows "d = find_end c \<or> d = release_delivery (find_end c)"
  using assms by (auto simp: find_wait_def split: find_outcome.splits option.splits if_splits)

lemma range_begin_Some:
  assumes "range_begin lib answer points c = Some d"
  obtains "d = c"
  | p where "d = c\<lparr>cl_segments := cl_segments c @ [p], cl_intersectWait := Some None, cl_find := FindingRange\<rparr>" "cl_find c = NotFinding"
  using assms by (auto simp: range_begin_def split: if_splits sum.splits dest!: find_begin_Inr)

lemma sync_begin_Some:
  assumes "sync_begin lib answer points c = Some d"
  obtains "d = c"
  | e where "d = c\<lparr>cl_syncStarted := True, cl_sync := SyncReturned (Some e)\<rparr>" "\<not> cl_syncStarted c"
  | p where "d = c\<lparr>cl_syncStarted := True, cl_segments := cl_segments c @ [p], cl_intersectWait := Some None,
      cl_find := FindingSync, cl_sync := SyncFinding\<rparr>" "\<not> cl_syncStarted c" "cl_find c = NotFinding"
  using assms by (auto simp: sync_begin_def sync_returns_def Let_def split: if_splits sum.splits dest!: find_begin_Inr)

lemma find_ends_Some:
  assumes "find_ends outcome c = Some d"
  obtains e where "e = find_end c \<or> e = release_delivery (find_end c)" "cl_find c = FindingRange" "d = e"
  | e err where "e = find_end c \<or> e = release_delivery (find_end c)" "cl_find c = FindingSync"
      "d = e\<lparr>cl_sync := SyncReturned (Some err)\<rparr>"
  | e where "e = find_end c \<or> e = release_delivery (find_end c)" "cl_find c = FindingSync"
      "d = e\<lparr>cl_sync := SyncLoop (cc_PipelineLimit (cl_config e))\<rparr>"
proof (cases "cl_find c")
  case NotFinding
  with assms show thesis by (simp add: find_ends_def)
next
  case FindingRange
  with assms obtain found where "find_wait outcome c = Some (found, d)" by (auto simp: find_ends_def)
  from find_wait_Some [OF this] FindingRange show thesis by (rule that(1)) simp
next
  case FindingSync
  with assms obtain found e where w: "find_wait outcome c = Some (found, e)"
    and d: "d = (case found of Inl e' \<Rightarrow> sync_returns (Some e') e | Inr _ \<Rightarrow> e\<lparr>cl_sync := SyncLoop (cc_PipelineLimit (cl_config e))\<rparr>)"
    by (auto simp: find_ends_def)
  show thesis
  proof (cases found)
    case (Inl err)
    with d have "d = e\<lparr>cl_sync := SyncReturned (Some err)\<rparr>" by (simp add: sync_returns_def)
    with find_wait_Some [OF w] FindingSync show thesis by (rule that(2))
  next
    case (Inr r)
    with d have "d = e\<lparr>cl_sync := SyncLoop (cc_PipelineLimit (cl_config e))\<rparr>" by simp
    with find_wait_Some [OF w] FindingSync show thesis by (rule that(3))
  qed
qed

lemma refill_Some:
  assumes "refill answer now c = Some d"
  obtains e b where "cl_handler c = Refilling b" "d = handler_ends e c"
  | b p where "cl_handler c = Refilling b"
      "d = resumeResponseWatch now (c\<lparr>cl_segments := cl_segments c @ [p], cl_refillCredits := 0, cl_handler := HandlerIdle\<rparr>)"
  using assms
  by (auto simp: refill_def refill_sent_def sendRequestNext_def err_simps split: handler.splits sum.splits dest!: sendPayload_Inr)

lemma resume_frame [simp]:
  "cl_config (resumeResponseWatch now c) = cl_config c" "cl_outstanding (resumeResponseWatch now c) = cl_outstanding c"
  "cl_refillCredits (resumeResponseWatch now c) = cl_refillCredits c" "cl_handler (resumeResponseWatch now c) = cl_handler c"
  "cl_sync (resumeResponseWatch now c) = cl_sync c" "cl_syncStarted (resumeResponseWatch now c) = cl_syncStarted c"
  "cl_find (resumeResponseWatch now c) = cl_find c" "cl_segments (resumeResponseWatch now c) = cl_segments c"
  "cl_state (resumeResponseWatch now c) = cl_state c" "cl_watching (resumeResponseWatch now c) = cl_watching c"
  by (simp_all add: resumeResponseWatch_def)

lemma suspend_frame [simp]:
  "cl_config (suspendResponseWatch c) = cl_config c" "cl_outstanding (suspendResponseWatch c) = cl_outstanding c"
  "cl_refillCredits (suspendResponseWatch c) = cl_refillCredits c" "cl_handler (suspendResponseWatch c) = cl_handler c"
  "cl_sync (suspendResponseWatch c) = cl_sync c" "cl_syncStarted (suspendResponseWatch c) = cl_syncStarted c"
  "cl_find (suspendResponseWatch c) = cl_find c" "cl_segments (suspendResponseWatch c) = cl_segments c"
  "cl_state (suspendResponseWatch c) = cl_state c" "cl_watching (suspendResponseWatch c) = cl_watching c"
  by (simp_all add: suspendResponseWatch_def)

lemma arm_frame [simp]:
  "cl_config (armResponseWatch now c) = cl_config c" "cl_outstanding (armResponseWatch now c) = cl_outstanding c"
  "cl_refillCredits (armResponseWatch now c) = cl_refillCredits c" "cl_handler (armResponseWatch now c) = cl_handler c"
  "cl_sync (armResponseWatch now c) = cl_sync c" "cl_syncStarted (armResponseWatch now c) = cl_syncStarted c"
  "cl_find (armResponseWatch now c) = cl_find c" "cl_state (armResponseWatch now c) = cl_state c"
  by (simp_all add: armResponseWatch_def)

lemma begin_response_cases:
  obtains e where "begin_response ok c = handler_ends e (suspendResponseWatch c)"
  | e where "begin_response ok c = handler_ends e ((suspendResponseWatch c)\<lparr>cl_outstanding := cl_outstanding c - 1\<rparr>)" "cl_outstanding c \<noteq> 0"
  | "begin_response ok c = (suspendResponseWatch c)\<lparr>cl_outstanding := cl_outstanding c - 1, cl_handler := InCallback\<rparr>" "cl_outstanding c \<noteq> 0"
proof (cases "cl_outstanding c = 0")
  case True
  show thesis by (rule that(1)) (simp add: begin_response_def completeRequest_def True Let_def)
next
  case False
  show thesis
  proof (cases ok)
    case (Inl e)
    show thesis by (rule that(2) [of e]) (simp_all add: begin_response_def completeRequest_def False Inl Let_def)
  next
    case (Inr u)
    show thesis by (rule that(3)) (simp_all add: begin_response_def completeRequest_def False Inr Let_def)
  qed
qed

lemma refill_batch_1: "refill_batch c = 1"
  by (simp add: refill_batch_def chainSyncRequestBatch_def)

lemma completeCallback_eq:
  "completeCallback lib c =
     (if cl_refillCredits c < 0 then (Inr None, c\<lparr>cl_refillCredits := cl_refillCredits c + 1\<rparr>)
      else if cl_outstanding c + 1 > cc_PipelineLimit (cl_config c) \<or> cl_outstanding c + 1 > lb_MaxPipelineLimit lib
      then (Inl limit_error, c\<lparr>cl_refillCredits := cl_refillCredits c + 1\<rparr>)
      else (Inr (Some 1), c\<lparr>cl_refillCredits := cl_refillCredits c + 1, cl_outstanding := cl_outstanding c + 1\<rparr>))"
  by (auto simp: completeCallback_def refill_batch_1 reserve_def Let_def)

lemma same_state: "cl_state c = st \<Longrightarrow> c\<lparr>cl_state := st\<rparr> = c"
  by (cases c) simp

text \<open>A message that is not a response leaves the account alone.\<close>

lemma receive_Some:
  assumes "receive lib message c = Some d"
  obtains state ok where "cl_handler c = HandlerIdle" "responses (Receive message) = 1"
      "chainSyncStateMap (cl_state c) message = Some state" "d = begin_response ok (c\<lparr>cl_state := state\<rparr>)" "state = StateActive"
  | "cl_handler c = HandlerIdle" "message = MsgAwaitReply"
      "d = (suspendResponseWatch (c\<lparr>cl_state := StateMustReply\<rparr>))\<lparr>cl_handler := InAwaitReply\<rparr>"
  | r where "cl_handler c = HandlerIdle" "responses (Receive message) = 0" "cl_state c = StateActive" "d = deliverIntersection r c"
proof (cases message)
  case (MsgIntersectFound p tip)
  with assms show thesis
    by (cases "cl_state c") (auto simp: receive_def handleMessage_def same_state split: if_splits intro: that(3))
next
  case (MsgIntersectNotFound tip)
  with assms show thesis
    by (cases "cl_state c") (auto simp: receive_def handleMessage_def same_state split: if_splits intro: that(3))
next
  case MsgAwaitReply
  with assms show thesis by (cases "cl_state c") (auto simp: receive_def handleMessage_def split: if_splits intro: that(2))
next
  case (MsgRollForward header tip)
  with assms show thesis by (cases "cl_state c") (auto simp: receive_def handleMessage_def split: if_splits intro: that(1))
next
  case (MsgRollBackward p tip)
  with assms show thesis by (cases "cl_state c") (auto simp: receive_def handleMessage_def split: if_splits intro: that(1))
next
  case MsgOther
  with assms show thesis by (simp add: receive_def split: if_splits)
qed

text \<open>The account under each move.\<close>

lemma credit_same:
  assumes "credit_inv lib cfg c u" and "cl_config d = cl_config c" and "cl_outstanding d = cl_outstanding c"
    and "cl_refillCredits d = cl_refillCredits c" and "cl_handler d = cl_handler c" and "cl_sync d = cl_sync c"
    and "cl_syncStarted d = cl_syncStarted c" and "cl_find d = FindingSync \<longleftrightarrow> cl_find c = FindingSync"
  shows "credit_inv lib cfg d u"
  using assms by (simp add: credit_inv_def intact_def)

lemma sync_left_nonneg: "sync_ok sy \<Longrightarrow> 1 \<le> limit \<Longrightarrow> 0 \<le> sync_left limit sy"
  by (cases sy) simp_all

lemma account_nonneg: "0 \<le> answering hn" "0 \<le> refill_unsent hn" "0 \<le> sync_unsent sy"
  by (cases hn, simp_all, cases hn, simp_all, cases sy, simp_all)

text \<open>A refill after a callback always finds its credit.\<close>

lemma completeCallback_never_fails:
  assumes "credit_inv lib cfg c u" and "cl_handler c = InCallback"
  shows "completeCallback lib c =
    (Inr (Some 1), c\<lparr>cl_refillCredits := cl_refillCredits c + 1, cl_outstanding := cl_outstanding c + 1\<rparr>)"
proof -
  have "0 \<le> sync_left (cc_PipelineLimit cfg) (cl_sync c)"
    using assms(1) by (auto simp: credit_inv_def intro: sync_left_nonneg)
  with assms show ?thesis by (simp add: completeCallback_eq credit_inv_def)
qed

lemma callback_returns_Some:
  assumes "callback_returns lib err now c = Some d" and "credit_inv lib cfg c u"
  obtains "cl_handler c = InAwaitReply" "d = c\<lparr>cl_handler := HandlerIdle\<rparr>"
  | e where "cl_handler c = InAwaitReply" "d = handler_ends e c"
  | e where "cl_handler c = InCallback" "d = handler_ends e c"
  | "cl_handler c = InCallback"
      "d = c\<lparr>cl_refillCredits := cl_refillCredits c + 1, cl_outstanding := cl_outstanding c + 1, cl_handler := Refilling 1\<rparr>"
proof (cases "cl_handler c")
  case InAwaitReply
  with assms(1) show thesis by (cases err) (auto simp: callback_returns_def intro: that(1,2))
next
  case InCallback
  with assms(1) completeCallback_never_fails [OF assms(2) InCallback] show thesis
    by (cases err) (auto simp: callback_returns_def intro: that(3,4))
qed (use assms(1) in \<open>simp_all add: callback_returns_def\<close>)

lemma credit_released:
  assumes "e = find_end c \<or> e = release_delivery (find_end c)"
  shows "cl_config e = cl_config c \<and> cl_outstanding e = cl_outstanding c \<and> cl_refillCredits e = cl_refillCredits c \<and>
    cl_sync e = cl_sync c \<and> cl_syncStarted e = cl_syncStarted c \<and> cl_find e = NotFinding \<and>
    (cl_handler e = cl_handler c \<or> cl_handler c = DeliveryBlocked \<and> cl_handler e = HandlerIdle)"
  using assms by (cases "cl_handler c = DeliveryBlocked") (auto simp: find_end_def release_delivery_def)

lemma credit_find:
  assumes inv: "credit_inv lib cfg c u" and "find_ends outcome c = Some d"
  shows "credit_inv lib cfg d u"
  using assms(2)
proof (cases rule: find_ends_Some)
  case (1 e)
  then show ?thesis using inv credit_released [OF 1(1)] unfolding credit_inv_def intact_def by (elim conjE disjE) simp_all
next
  case (2 e err)
  then show ?thesis using inv credit_released [OF 2(1)] unfolding credit_inv_def intact_def by (elim conjE disjE) simp_all
next
  case (3 e)
  then show ?thesis using inv credit_released [OF 3(1)] unfolding credit_inv_def intact_def by (elim conjE disjE) simp_all
qed

lemma credit_sync_begin:
  assumes "credit_inv lib cfg c u" and "sync_begin lib answer points c = Some d"
  shows "credit_inv lib cfg d u"
  using assms(2) by (cases rule: sync_begin_Some) (use assms(1) in \<open>auto simp: credit_inv_def intact_def\<close>)

lemma credit_sync_reserve:
  assumes "credit_inv lib cfg c u" and "sync_reserve lib c = Some d"
  shows "credit_inv lib cfg d u"
  using assms
  by (auto simp: sync_reserve_def reserve_def sync_returns_def chainSyncRequestBatch_def credit_inv_def intact_def
      split: syncing.splits if_splits)

lemma credit_sync_send:
  assumes "credit_inv lib cfg c u" and "sync_send answer c = Some d"
  shows "credit_inv lib cfg d (u + (int (length (cl_segments d)) - int (length (cl_segments c))))"
  using assms
  by (auto simp: sync_send_def sendRequestNext_def sync_returns_def chainSyncRequestBatch_def credit_inv_def intact_def Let_def
      split: syncing.splits sum.splits dest!: sendPayload_Inr)

lemma credit_receive:
  assumes "credit_inv lib cfg c u" and "receive lib message c = Some d"
  shows "credit_inv lib cfg d (u - responses (Receive message))"
  using assms(2)
proof (cases rule: receive_Some)
  case (1 state ok)
  show ?thesis
  proof (cases rule: begin_response_cases [of ok "c\<lparr>cl_state := state\<rparr>"])
    case (1 e)
    then show ?thesis using assms(1) \<open>cl_handler c = HandlerIdle\<close> \<open>responses (Receive message) = 1\<close> \<open>d = _\<close>
      by (auto simp: credit_inv_def intact_def handler_ends_def)
  next
    case (2 e)
    then show ?thesis using assms(1) \<open>cl_handler c = HandlerIdle\<close> \<open>responses (Receive message) = 1\<close> \<open>d = _\<close>
      by (auto simp: credit_inv_def intact_def handler_ends_def)
  next
    case 3
    then show ?thesis using assms(1) \<open>cl_handler c = HandlerIdle\<close> \<open>responses (Receive message) = 1\<close> \<open>d = _\<close>
      by (auto simp: credit_inv_def intact_def)
  qed
next
  case 2
  then show ?thesis using assms(1) by (auto simp: credit_inv_def intact_def)
next
  case (3 r)
  then show ?thesis using assms(1) by (auto simp: credit_inv_def intact_def deliverIntersection_def split: option.splits)
qed

lemma credit_callback:
  assumes inv: "credit_inv lib cfg c u" and "callback_returns lib err now c = Some d"
  shows "credit_inv lib cfg d u"
  using assms(2,1)
  by (cases rule: callback_returns_Some) (use inv in \<open>simp_all add: credit_inv_def intact_def handler_ends_def algebra_simps\<close>)

lemma credit_refill:
  assumes "credit_inv lib cfg c u" and "refill answer now c = Some d"
  shows "credit_inv lib cfg d (u + (int (length (cl_segments d)) - int (length (cl_segments c))))"
  using assms(2)
proof (cases rule: refill_Some)
  case (1 e b)
  then show ?thesis using assms(1) by (auto simp: credit_inv_def intact_def handler_ends_def)
next
  case (2 b p)
  then show ?thesis using assms(1) by (auto simp: credit_inv_def intact_def)
qed

lemma credit_step:
  assumes inv: "credit_inv lib cfg c u" and "client_move lib mv c = Some d"
  shows "credit_inv lib cfg d (u + requests_sent mv c d - responses mv)"
proof (cases mv)
  case (RangeBegin answer points)
  then show ?thesis using assms(2) by (auto elim!: range_begin_Some intro!: credit_same [OF inv])
next
  case (SyncArm now)
  then show ?thesis using assms
    by (auto simp: sync_arm_def sync_returns_def credit_inv_def intact_def split: syncing.splits if_splits)
next
  case DeliveryStops
  then show ?thesis using assms by (auto simp: credit_inv_def intact_def handler_ends_def split: if_splits)
next
  case (Tick now)
  then show ?thesis using assms(2) by (auto simp: watch_tick_def split: if_splits intro!: credit_same [OF inv])
next
  case (SyncBegin answer points)
  then show ?thesis using assms credit_sync_begin by simp
next
  case (FindEnds outcome)
  then show ?thesis using assms credit_find by simp
next
  case SyncReserve
  then show ?thesis using assms credit_sync_reserve by simp
next
  case (SyncSend answer)
  then show ?thesis using credit_sync_send [OF inv] assms(2) by simp
next
  case (Receive message)
  then show ?thesis using credit_receive [OF inv] assms(2) by simp
next
  case (CallbackReturns err now)
  then show ?thesis using credit_callback [OF inv] assms(2) by simp
next
  case (Refill answer now)
  then show ?thesis using credit_refill [OF inv] assms(2) by simp
qed (use assms(2) in \<open>auto simp: Stop_def intro!: credit_same [OF inv]\<close>)

lemma client_credit: "client_reachable lib cfg c h \<Longrightarrow> credit_inv lib cfg c (ch_sent h - ch_answered h)"
proof (induction rule: client_reachable.induct)
  case (client_new c)
  then show ?case
    by (auto simp: newChainSyncClient_def client_checks_def credit_inv_def intact_def Let_def split: if_splits sum.splits)
next
  case (client_go c h mv d)
  from credit_step [OF client_go(4,2)] show ?case by (simp add: observe_move_def algebra_simps)
qed

section \<open>The response watch\<close>

fun responding :: "handler \<Rightarrow> bool" where
  "responding InCallback \<longleftrightarrow> True"
| "responding (Refilling batchSize) \<longleftrightarrow> True"
| "responding _ \<longleftrightarrow> False"

text \<open>
  The relay owes a response: nothing it sent is being handled, and it did not announce that it waits
  for the next block.
\<close>

definition response_due :: "cs_client \<Rightarrow> bool" where
  "response_due c \<longleftrightarrow> cl_handler c \<in> {HandlerIdle, DeliveryBlocked} \<and> cl_state c = StateActive"

definition watch_inv :: "cs_config \<Rightarrow> cs_client \<Rightarrow> time \<Rightarrow> bool" where
  "watch_inv cfg c armed \<longleftrightarrow>
     0 < cc_BlockTimeout cfg \<and> cc_BlockTimeout (cl_config c) = cc_BlockTimeout cfg \<and>
     (cl_handler c = InAwaitReply \<longrightarrow> cl_state c = StateMustReply) \<and> (responding (cl_handler c) \<longrightarrow> cl_state c = StateActive) \<and>
     (\<not> cl_stopped c \<longrightarrow>
        (responding (cl_handler c) \<or> cl_state c = StateMustReply \<longrightarrow> cl_responseSuspended c) \<and>
        (response_due c \<longrightarrow> \<not> cl_responseSuspended c) \<and>
        (\<not> cl_responseSuspended c \<longrightarrow> cl_responseDeadline c \<noteq> 0 \<longrightarrow> cl_responseDeadline c = armed + cc_BlockTimeout cfg) \<and>
        (cl_watching c \<longrightarrow> \<not> cl_responseSuspended c \<longrightarrow> cl_responseDeadline c \<noteq> 0))"

lemma watch_same:
  assumes "watch_inv cfg c armed" and "cl_config d = cl_config c" and "cl_handler d = cl_handler c" and "cl_state d = cl_state c"
    and "cl_stopped d = cl_stopped c" and "cl_responseSuspended d = cl_responseSuspended c"
    and "cl_responseDeadline d = cl_responseDeadline c" and "cl_watching d = cl_watching c"
  shows "watch_inv cfg d armed"
  using assms by (simp add: watch_inv_def response_due_def)

text \<open>A handler that has returned an error is no longer part of what the watch depends on.\<close>

lemma watch_handler_ends: "watch_inv cfg c armed \<Longrightarrow> watch_inv cfg (handler_ends e c) armed"
  by (simp add: watch_inv_def response_due_def handler_ends_def)

lemma watch_resume:
  assumes "watch_inv cfg c armed" and "responding (cl_handler c)" and "0 < now"
  shows "watch_inv cfg (resumeResponseWatch now (c\<lparr>cl_handler := HandlerIdle\<rparr>)) now"
  using assms by (auto simp: watch_inv_def response_due_def resumeResponseWatch_def)

lemma watch_released:
  assumes "watch_inv cfg c armed" and "e = find_end c \<or> e = release_delivery (find_end c)"
  shows "watch_inv cfg e armed"
  using assms(2)
proof
  assume "e = find_end c"
  then show ?thesis by (auto simp: find_end_def intro: watch_same [OF assms(1)])
next
  assume "e = release_delivery (find_end c)"
  then show ?thesis using assms(1)
    by (cases "cl_handler c = DeliveryBlocked") (auto simp: find_end_def release_delivery_def watch_inv_def response_due_def)
qed

lemma watch_find:
  assumes "watch_inv cfg c armed" and "find_ends outcome c = Some d"
  shows "watch_inv cfg d armed"
  using assms(2)
proof (cases rule: find_ends_Some)
  case (1 e)
  then show ?thesis using watch_released [OF assms(1)] by simp
next
  case (2 e err)
  from 2(3) show ?thesis by (auto intro: watch_same [OF watch_released [OF assms(1) 2(1)]])
next
  case (3 e)
  from 3(3) show ?thesis by (auto intro: watch_same [OF watch_released [OF assms(1) 3(1)]])
qed

lemma watch_begin_response:
  assumes "watch_inv cfg c armed" and "cl_handler c = HandlerIdle"
  shows "watch_inv cfg (begin_response ok (c\<lparr>cl_state := StateActive\<rparr>)) armed"
  using assms
  by (cases rule: begin_response_cases [of ok "c\<lparr>cl_state := StateActive\<rparr>"])
    (auto simp: watch_inv_def response_due_def handler_ends_def suspendResponseWatch_def)

lemma watch_receive:
  assumes "watch_inv cfg c armed" and "receive lib message c = Some d"
  shows "watch_inv cfg d armed"
  using assms(2)
proof (cases rule: receive_Some)
  case (1 state ok)
  then show ?thesis using watch_begin_response [OF assms(1)] by simp
next
  case 2
  then show ?thesis using assms(1) by (auto simp: watch_inv_def response_due_def suspendResponseWatch_def)
next
  case (3 r)
  then show ?thesis using assms(1)
    by (auto simp: watch_inv_def response_due_def deliverIntersection_def split: option.splits)
qed

lemma watch_callback:
  assumes "watch_inv cfg c armed" and "callback_returns lib err now c = Some d" and "credit_inv lib cfg c u"
  shows "watch_inv cfg d now"
  using assms(2,3)
  by (cases rule: callback_returns_Some)
    (use assms(1) in \<open>auto simp: watch_inv_def response_due_def handler_ends_def\<close>)

lemma watch_refill:
  assumes "watch_inv cfg c armed" and "refill answer now c = Some d" and "0 < now"
  shows "watch_inv cfg d now"
  using assms(2)
proof (cases rule: refill_Some)
  case (1 e b)
  then show ?thesis using assms(1) by (auto simp: watch_inv_def response_due_def handler_ends_def)
next
  case (2 b p)
  have "watch_inv cfg (c\<lparr>cl_segments := cl_segments c @ [p], cl_refillCredits := 0\<rparr>) armed"
    by (rule watch_same [OF assms(1)]) simp_all
  from watch_resume [OF this _ assms(3)] 2 show ?thesis by simp
qed

lemma watch_arm:
  assumes "watch_inv cfg c armed" and "sync_arm now c = Some d" and "0 < now"
  shows "watch_inv cfg d now"
proof -
  have d: "d = (armResponseWatch now c)\<lparr>cl_watching := True, cl_sync := SyncReturned None\<rparr>"
    using assms(2) by (simp add: sync_arm_def sync_returns_def split: syncing.splits if_splits)
  show ?thesis
  proof (cases "cl_stopped c \<or> cl_responseSuspended c")
    case True
    then have "d = c\<lparr>cl_watching := True, cl_sync := SyncReturned None\<rparr>" by (simp add: d armResponseWatch_def)
    with assms(1) True show ?thesis by (auto simp: watch_inv_def response_due_def)
  next
    case False
    then have "d = c\<lparr>cl_responseDeadline := now + cc_BlockTimeout (cl_config c), cl_watching := True, cl_sync := SyncReturned None\<rparr>"
      by (simp add: d armResponseWatch_def)
    with assms(1,3) False show ?thesis by (auto simp: watch_inv_def response_due_def)
  qed
qed

lemma watch_ticks: "watch_inv cfg c armed \<Longrightarrow> watch_inv cfg (watch_tick now c) armed"
  by (cases "expired now c") (simp_all add: watch_tick_def watch_inv_def response_due_def)

lemma watch_stops: "watch_inv cfg c armed \<Longrightarrow> watch_inv cfg (Stop c) armed"
  by (simp add: Stop_def watch_inv_def response_due_def)

lemma watch_step:
  assumes inv: "watch_inv cfg c (ch_armed h)" and "client_move lib mv c = Some d"
    and "pred_option (\<lambda>now. now > 0) (clock_of mv)" and "credit_inv lib cfg c u"
  shows "watch_inv cfg d (ch_armed (observe_move mv c d h))"
proof (cases mv)
  case (RangeBegin answer points)
  then show ?thesis using assms(2) by (auto simp: observe_move_def elim!: range_begin_Some intro!: watch_same [OF inv])
next
  case (SyncBegin answer points)
  then show ?thesis using assms(2) by (auto simp: observe_move_def elim!: sync_begin_Some intro!: watch_same [OF inv])
next
  case (FindEnds outcome)
  then show ?thesis using assms(2) watch_find [OF inv] by (simp add: observe_move_def)
next
  case SyncReserve
  then show ?thesis using assms(2)
    by (auto simp: observe_move_def sync_reserve_def reserve_def sync_returns_def split: syncing.splits if_splits intro!: watch_same [OF inv])
next
  case (SyncSend answer)
  then show ?thesis using assms(2)
    by (auto simp: observe_move_def sync_send_def sendRequestNext_def sync_returns_def Let_def split: syncing.splits sum.splits
        dest!: sendPayload_Inr intro!: watch_same [OF inv])
next
  case (SyncArm now)
  then show ?thesis using assms(2,3) watch_arm [OF inv] by (simp add: observe_move_def)
next
  case (Receive message)
  then show ?thesis using assms(2) watch_receive [OF inv] by (simp add: observe_move_def)
next
  case (CallbackReturns err now)
  then show ?thesis using assms(2) watch_callback [OF inv _ assms(4)] by (simp add: observe_move_def)
next
  case (Refill answer now)
  then show ?thesis using assms(2,3) watch_refill [OF inv] by (simp add: observe_move_def)
next
  case DeliveryStops
  then show ?thesis using assms(2) watch_handler_ends [OF inv] by (auto simp: observe_move_def split: if_splits)
next
  case (Tick now)
  then have "d = watch_tick now c" using assms(2) by (simp split: if_splits)
  with Tick watch_ticks [OF inv] show ?thesis by (simp add: observe_move_def)
next
  case StopClient
  then have "d = Stop c" using assms(2) by simp
  with StopClient watch_stops [OF inv] show ?thesis by (simp add: observe_move_def)
next
  case ProtocolEnds
  then show ?thesis using assms(2) by (auto simp: observe_move_def intro!: watch_same [OF inv])
qed

lemma client_watch: "client_reachable lib cfg c h \<Longrightarrow> watch_inv cfg c (ch_armed h)"
proof (induction rule: client_reachable.induct)
  case (client_new c)
  then show ?case
    by (auto simp: newChainSyncClient_def client_checks_def watch_inv_def response_due_def Let_def split: if_splits sum.splits)
next
  case (client_go c h mv d)
  from watch_step [OF client_go(4,2,3) client_credit [OF client_go(1)]] show ?case .
qed

section \<open>Properties\<close>

text \<open>
  C21. The pipeline of requests is kept exactly full: the relay never owes more responses than the
  configured limit, and once \<^verbatim>\<open>Sync\<close> has returned it owes exactly that many whenever no
  response is being handled, in every interleaving of \<^verbatim>\<open>Sync\<close> with the handler.
\<close>

theorem pipeline_exactly_full:
  assumes "client_reachable lib cfg c h"
  shows "ch_sent h - ch_answered h \<le> cc_PipelineLimit cfg \<and>
    (cl_sync c = SyncReturned None \<and> cl_handler c \<in> {HandlerIdle, DeliveryBlocked, InAwaitReply} \<longrightarrow>
       ch_sent h - ch_answered h = cc_PipelineLimit cfg)"
proof -
  have inv: "credit_inv lib cfg c (ch_sent h - ch_answered h)" by (rule client_credit [OF assms])
  then have left: "0 \<le> sync_left (cc_PipelineLimit cfg) (cl_sync c)"
    by (auto simp: credit_inv_def intro: sync_left_nonneg)
  with inv account_nonneg(1,2) [of "cl_handler c"] account_nonneg(3) [of "cl_sync c"] show ?thesis
    by (auto simp: credit_inv_def intact_def)
qed

text \<open>
  The error of an exceeded limit does not occur: after every callback the client finds the credit
  for one new request, and every round of the loop of \<^verbatim>\<open>Sync\<close> finds its own.
\<close>

theorem reservations_never_fail:
  assumes "client_reachable lib cfg c h"
  shows "(cl_handler c = InCallback \<longrightarrow> fst (completeCallback lib c) = Inr (Some 1)) \<and>
    (\<forall>remaining > 0. cl_sync c = SyncLoop remaining \<longrightarrow>
       reserve lib (min remaining chainSyncRequestBatch) c = Inr (c\<lparr>cl_outstanding := cl_outstanding c + 1\<rparr>))"
proof -
  have inv: "credit_inv lib cfg c (ch_sent h - ch_answered h)" by (rule client_credit [OF assms])
  from inv account_nonneg(1) [of "cl_handler c"] show ?thesis
    using completeCallback_never_fails [OF inv] by (auto simp: credit_inv_def reserve_def chainSyncRequestBatch_def)
qed

text \<open>
  C23. The response watch reports a silent relay and nothing else: while it runs and the handler has not
  failed, a tick reports a timeout exactly when the relay owes a response (no message is being handled
  and it has not asked to wait) and the block timeout has passed since the client finished with the
  last response or armed the watch. A callback that takes its time is never reported.
\<close>

theorem watch_reports_silence_only:
  assumes "client_reachable lib cfg c h" and "cl_watching c" and "\<not> cl_stopped c" and "\<And>e. cl_handler c \<noteq> HandlerEnded e"
  shows "cl_errors (watch_tick now c) \<noteq> cl_errors c \<longleftrightarrow> response_due c \<and> ch_armed h + cc_BlockTimeout cfg \<le> now"
proof -
  have inv: "watch_inv cfg c (ch_armed h)" by (rule client_watch [OF assms(1)])
  have "expired now c \<longleftrightarrow> response_due c \<and> ch_armed h + cc_BlockTimeout cfg \<le> now"
  proof (cases "response_due c")
    case True
    with inv assms(2,3) show ?thesis by (auto simp: watch_inv_def expired_def)
  next
    case False
    then have "responding (cl_handler c) \<or> cl_state c = StateMustReply \<or> cl_handler c = InAwaitReply"
      using assms(4) by (cases "cl_handler c"; cases "cl_state c") (auto simp: response_due_def)
    with inv assms(3) False show ?thesis by (auto simp: watch_inv_def expired_def)
  qed
  then show ?thesis by (simp add: watch_tick_def)
qed

section \<open>Example\<close>

text \<open>A client with a pipeline of one request finds its intersection, sends the request and arms the watch.\<close>

definition sample_library :: cs_library where
  "sample_library = \<lparr>lb_MaxPipelineLimit = 100, lb_IntersectTimeout = 5, lb_RequestNext = Inr [129, 0],
     lb_FindIntersect = (\<lambda>points. Inr [130, 4]), lb_ByronEra = 0, lb_BlockTypes = Some,
     lb_NewBlockHeader = (\<lambda>t raw. Inl (errorsNew ''header''))\<rparr>"

definition sample_cs_config :: cs_config where
  "sample_cs_config = \<lparr>cc_Muxer = True, cc_AwaitReply = True, cc_RollForwardFunc = True, cc_RollBackwardFunc = True,
     cc_PipelineLimit = 1, cc_RecvQueueSize = 4, cc_IntersectTimeout = 5, cc_BlockTimeout = 10\<rparr>"

definition sample_cs_tip :: proto_tip where
  "sample_cs_tip = \<lparr>pp_Point = zero_proto_point, pp_BlockNumber = 0\<rparr>"

fun client_run :: "cs_library \<Rightarrow> cs_choice list \<Rightarrow> cs_client \<times> cs_history \<Rightarrow> (cs_client \<times> cs_history) option" where
  "client_run lib [] ch = Some ch"
| "client_run lib (mv # mvs) ch =
     (case client_move lib mv (fst ch) of None \<Rightarrow> None
      | Some d \<Rightarrow> if pred_option (\<lambda>now. now > 0) (clock_of mv) then client_run lib mvs (d, observe_move mv (fst ch) d (snd ch)) else None)"

lemma client_run_reachable:
  "client_run lib mvs (c, h) = Some (d, h') \<Longrightarrow> client_reachable lib cfg c h \<Longrightarrow> client_reachable lib cfg d h'"
proof (induction mvs arbitrary: c h)
  case (Cons mv mvs)
  then obtain e where "client_move lib mv c = Some e" "pred_option (\<lambda>now. now > 0) (clock_of mv)"
    "client_run lib mvs (e, observe_move mv c e h) = Some (d, h')"
    by (auto split: option.splits if_splits)
  with Cons show ?case by (blast intro: client_go)
qed simp

definition sample_sync :: "cs_choice list" where
  "sample_sync = [SyncBegin Sent [], Receive (MsgIntersectFound zero_proto_point sample_cs_tip), FindEnds FoundResult,
     SyncReserve, SyncSend Sent, SyncArm 7]"

definition sample_client :: cs_client where
  "sample_client = projr (newChainSyncClient sample_library sample_cs_config)"

definition sample_synced :: "cs_client \<times> cs_history" where
  "sample_synced = the (client_run sample_library sample_sync (sample_client, \<lparr>ch_sent = 0, ch_answered = 0, ch_armed = 0\<rparr>))"

lemmas client_eval = sample_client_def newChainSyncClient_def client_checks_def sample_cs_config_def sample_library_def
  sample_sync_def sync_begin_def find_begin_def sendMessage_def sendPayload_def receive_def handleMessage_def deliverIntersection_def
  find_ends_def find_wait_def find_end_def release_delivery_def sync_reserve_def reserve_def chainSyncRequestBatch_def
  sync_send_def sendRequestNext_def sync_arm_def sync_returns_def armResponseWatch_def observe_move_def sample_cs_tip_def
  zero_proto_point_def Let_def

lemma sample_synced_run:
  "client_run sample_library sample_sync (sample_client, \<lparr>ch_sent = 0, ch_answered = 0, ch_armed = 0\<rparr>) =
     Some (fst sample_synced, snd sample_synced)"
  unfolding sample_synced_def by (simp add: client_eval)

lemma sample_synced_reachable: "client_reachable sample_library sample_cs_config (fst sample_synced) (snd sample_synced)"
proof (rule client_run_reachable [OF sample_synced_run])
  show "client_reachable sample_library sample_cs_config sample_client \<lparr>ch_sent = 0, ch_answered = 0, ch_armed = 0\<rparr>"
    by (rule client_new) (simp add: client_eval)
qed

lemma sample_synced_state:
  "cl_watching (fst sample_synced)" "\<not> cl_stopped (fst sample_synced)" "cl_handler (fst sample_synced) = HandlerIdle"
  "cl_sync (fst sample_synced) = SyncReturned None" "cl_state (fst sample_synced) = StateActive" "ch_armed (snd sample_synced) = 7"
  by (simp_all add: sample_synced_def client_eval)

theorem pipeline_exactly_full_witness: "ch_sent (snd sample_synced) - ch_answered (snd sample_synced) = 1"
  using pipeline_exactly_full [OF sample_synced_reachable] sample_synced_state by (simp add: sample_cs_config_def)

theorem watch_reports_silence_only_witness:
  "cl_errors (watch_tick 17 (fst sample_synced)) \<noteq> cl_errors (fst sample_synced) \<and>
   cl_errors (watch_tick 16 (fst sample_synced)) = cl_errors (fst sample_synced)"
proof -
  have h: "cl_handler (fst sample_synced) \<noteq> HandlerEnded e" for e by (simp add: sample_synced_state)
  show ?thesis
    using watch_reports_silence_only [OF sample_synced_reachable sample_synced_state(1,2) h, of 17]
      watch_reports_silence_only [OF sample_synced_reachable sample_synced_state(1,2) h, of 16] sample_synced_state
    by (simp add: response_due_def sample_cs_config_def)
qed

definition sample_sending :: "cs_client \<times> cs_history" where
  "sample_sending = the (client_run sample_library (take 3 sample_sync) (sample_client, \<lparr>ch_sent = 0, ch_answered = 0, ch_armed = 0\<rparr>))"

lemma sample_sending_reachable: "client_reachable sample_library sample_cs_config (fst sample_sending) (snd sample_sending)"
proof (rule client_run_reachable)
  show "client_run sample_library (take 3 sample_sync) (sample_client, \<lparr>ch_sent = 0, ch_answered = 0, ch_armed = 0\<rparr>) =
      Some (fst sample_sending, snd sample_sending)"
    unfolding sample_sending_def by (simp add: client_eval)
  show "client_reachable sample_library sample_cs_config sample_client \<lparr>ch_sent = 0, ch_answered = 0, ch_armed = 0\<rparr>"
    by (rule client_new) (simp add: client_eval)
qed

theorem reservations_never_fail_witness:
  "reserve sample_library 1 (fst sample_sending) =
     Inr ((fst sample_sending)\<lparr>cl_outstanding := cl_outstanding (fst sample_sending) + 1\<rparr>)"
proof -
  have "cl_sync (fst sample_sending) = SyncLoop 1" by (simp add: sample_sending_def client_eval)
  with reservations_never_fail [OF sample_sending_reachable] show ?thesis by (simp add: chainSyncRequestBatch_def)
qed

end
