(* ===== verification/Sort_Func.thy ===== *)
theory Sort_Func
  imports Prelude "HOL-Library.Multiset"
begin

text \<open>
  \<^verbatim>\<open>slices.SortFunc\<close> and the comparison functions the program passes to it. The library does not
  promise a stable sort, and the lists come from ranging over Go maps, whose order is arbitrary. The
  locale \<open>comparison\<close> states when neither matters: the comparison is a total preorder on the elements,
  and elements that compare equal are equal. Then the sorted permutation is unique.
\<close>

section \<open>Sorting by a comparison\<close>

fun insert_by :: "('a \<Rightarrow> 'a \<Rightarrow> int) \<Rightarrow> 'a \<Rightarrow> 'a list \<Rightarrow> 'a list" where
  "insert_by cmp x [] = [x]"
| "insert_by cmp x (y # ys) = (if cmp x y \<le> 0 then x # y # ys else y # insert_by cmp x ys)"

definition SortFunc :: "('a \<Rightarrow> 'a \<Rightarrow> int) \<Rightarrow> 'a list \<Rightarrow> 'a list" where
  "SortFunc cmp xs = foldr (insert_by cmp) xs []"

lemma SortFunc_simps [simp]: "SortFunc cmp [] = []" "SortFunc cmp (x # xs) = insert_by cmp x (SortFunc cmp xs)"
  by (simp_all add: SortFunc_def)

lemma mset_insert_by [simp]: "mset (insert_by cmp x xs) = add_mset x (mset xs)"
  by (induction xs) auto

lemma mset_SortFunc [simp]: "mset (SortFunc cmp xs) = mset xs"
  by (induction xs) auto

lemma set_SortFunc [simp]: "set (SortFunc cmp xs) = set xs"
  by (metis mset_SortFunc set_mset_mset)

lemma length_SortFunc [simp]: "length (SortFunc cmp xs) = length xs"
  by (metis mset_SortFunc size_mset)

lemma set_insert_by [simp]: "set (insert_by cmp x xs) = insert x (set xs)"
  by (induction xs) auto

locale comparison =
  fixes A :: "'a set" and cmp :: "'a \<Rightarrow> 'a \<Rightarrow> int"
  assumes swap: "x \<in> A \<Longrightarrow> y \<in> A \<Longrightarrow> cmp x y < 0 \<longleftrightarrow> cmp y x > 0"
    and trans: "x \<in> A \<Longrightarrow> y \<in> A \<Longrightarrow> z \<in> A \<Longrightarrow> cmp x y \<le> 0 \<Longrightarrow> cmp y z \<le> 0 \<Longrightarrow> cmp x z \<le> 0"
begin

lemma total: "x \<in> A \<Longrightarrow> y \<in> A \<Longrightarrow> cmp x y \<le> 0 \<or> cmp y x \<le> 0"
  using swap [of x y] by linarith

lemma eq_swap: "x \<in> A \<Longrightarrow> y \<in> A \<Longrightarrow> cmp x y = 0 \<longleftrightarrow> cmp y x = 0"
  using swap [of x y] swap [of y x] by linarith

lemma sorted_insert_by:
  assumes "insert x (set xs) \<subseteq> A" and "sorted_wrt (\<lambda>x y. cmp x y \<le> 0) xs"
  shows "sorted_wrt (\<lambda>x y. cmp x y \<le> 0) (insert_by cmp x xs)"
  using assms
proof (induction xs)
  case (Cons y ys)
  show ?case
  proof (cases "cmp x y \<le> 0")
    case True
    with Cons.prems show ?thesis by (auto intro: trans [of x y])
  next
    case False
    with Cons.prems have "cmp y x \<le> 0" using total [of x y] by auto
    with Cons False show ?thesis by auto
  qed
qed simp

lemma sorted_SortFunc: "set xs \<subseteq> A \<Longrightarrow> sorted_wrt (\<lambda>x y. cmp x y \<le> 0) (SortFunc cmp xs)"
  by (induction xs) (auto intro!: sorted_insert_by)

lemma sorted_unique:
  assumes "sorted_wrt (\<lambda>x y. cmp x y \<le> 0) xs" and "sorted_wrt (\<lambda>x y. cmp x y \<le> 0) ys" and "mset xs = mset ys"
    and "set xs \<subseteq> A" and "\<And>x y. x \<in> set xs \<Longrightarrow> y \<in> set xs \<Longrightarrow> cmp x y = 0 \<Longrightarrow> x = y"
  shows "xs = ys"
  using assms
proof (induction xs arbitrary: ys)
  case (Cons x xs)
  then obtain y ys' where ys: "ys = y # ys'" by (metis list.exhaust mset.simps(1) mset_zero_iff_right list.discI)
  have s: "set (x # xs) = set ys" using Cons.prems(3) by (rule mset_eq_setD)
  have "x = y"
  proof (rule ccontr)
    assume "x \<noteq> y"
    with s ys have "x \<in> set ys'" "y \<in> set xs" by auto
    then have "cmp y x \<le> 0" "cmp x y \<le> 0" using Cons.prems(1,2) ys by auto
    moreover have "x \<in> A" "y \<in> A" using Cons.prems(4) \<open>y \<in> set xs\<close> by auto
    ultimately have "cmp x y = 0" using swap [of x y] by linarith
    with \<open>x \<noteq> y\<close> \<open>y \<in> set xs\<close> Cons.prems(5) show False by auto
  qed
  moreover have "xs = ys'"
    by (rule Cons.IH) (use Cons.prems ys \<open>x = y\<close> in auto)
  ultimately show ?case using ys by simp
qed simp

text \<open>Whatever a correct sort returns for a list in any order, it is \<^const>\<open>SortFunc\<close> of the list.\<close>

lemma SortFunc_unique:
  assumes "sorted_wrt (\<lambda>x y. cmp x y \<le> 0) ys" and "mset ys = mset xs" and "set xs \<subseteq> A"
    and "\<And>x y. x \<in> set xs \<Longrightarrow> y \<in> set xs \<Longrightarrow> cmp x y = 0 \<Longrightarrow> x = y"
  shows "ys = SortFunc cmp xs"
proof -
  have "set ys = set xs" using assms(2) by (rule mset_eq_setD)
  then show ?thesis using assms by (intro sorted_unique sorted_SortFunc) auto
qed

lemma SortFunc_cong_mset:
  assumes "mset xs = mset ys" and "set xs \<subseteq> A" and "\<And>x y. x \<in> set xs \<Longrightarrow> y \<in> set xs \<Longrightarrow> cmp x y = 0 \<Longrightarrow> x = y"
  shows "SortFunc cmp xs = SortFunc cmp ys"
proof -
  have "set ys = set xs" using assms(1) by (metis mset_eq_setD)
  then show ?thesis using assms by (intro SortFunc_unique sorted_SortFunc) auto
qed

lemma strictly_sorted_SortFunc:
  assumes "set xs \<subseteq> A" and "distinct xs" and "\<And>x y. x \<in> set xs \<Longrightarrow> y \<in> set xs \<Longrightarrow> cmp x y = 0 \<Longrightarrow> x = y"
  shows "sorted_wrt (\<lambda>x y. cmp x y < 0) (SortFunc cmp xs)"
proof -
  have "distinct (SortFunc cmp xs)" using assms(2) by (metis mset_SortFunc mset_eq_imp_distinct_iff)
  with sorted_SortFunc [OF assms(1)] assms(3) show ?thesis
    by (auto simp: sorted_wrt_iff_nth_less nth_eq_iff_index_eq order_le_less) (metis less_irrefl nth_eq_iff_index_eq nth_mem set_SortFunc length_SortFunc order.strict_trans)
qed

end

section \<open>Comparisons\<close>

text \<open>\<^verbatim>\<open>bytes.Compare\<close>, and the comparison of integers by \<^verbatim>\<open><\<close>.\<close>

definition bytes_compare :: "bytes \<Rightarrow> bytes \<Rightarrow> int" where
  "bytes_compare a b = (if a < b then -1 else if a = b then 0 else 1)"

definition order_compare :: "'a :: linorder \<Rightarrow> 'a \<Rightarrow> int" where
  "order_compare a b = (if a < b then -1 else if a > b then 1 else 0)"

text \<open>The next comparison decides when the first one finds no difference.\<close>

definition then_by :: "('a \<Rightarrow> 'a \<Rightarrow> int) \<Rightarrow> ('a \<Rightarrow> 'a \<Rightarrow> int) \<Rightarrow> 'a \<Rightarrow> 'a \<Rightarrow> int" where
  "then_by c d x y = (if c x y \<noteq> 0 then c x y else d x y)"

definition on_key :: "('a \<Rightarrow> 'b) \<Rightarrow> ('b \<Rightarrow> 'b \<Rightarrow> int) \<Rightarrow> 'a \<Rightarrow> 'a \<Rightarrow> int" where
  "on_key f c x y = c (f x) (f y)"

lemma bytes_compare_0 [simp]: "bytes_compare a b = 0 \<longleftrightarrow> a = b"
  by (simp add: bytes_compare_def)

lemma order_compare_0 [simp]: "order_compare a b = 0 \<longleftrightarrow> a = b"
  by (auto simp: order_compare_def)

lemma then_by_0 [simp]: "then_by c d x y = 0 \<longleftrightarrow> c x y = 0 \<and> d x y = 0"
  by (simp add: then_by_def)

lemma on_key_apply [simp]: "on_key f c x y = c (f x) (f y)"
  by (simp add: on_key_def)

interpretation byte_order: comparison UNIV bytes_compare
  by unfold_locales (auto simp: bytes_compare_def split: if_splits)

interpretation linear_order: comparison UNIV order_compare
  by unfold_locales (auto simp: order_compare_def split: if_splits)

lemma comparison_on_key: "comparison UNIV c \<Longrightarrow> comparison A (on_key f c)"
  unfolding comparison_def on_key_def by blast

lemma comparison_then_by:
  assumes "comparison A c" and "comparison A d"
  shows "comparison A (then_by c d)"
proof
  fix x y assume "x \<in> A" "y \<in> A"
  then show "then_by c d x y < 0 \<longleftrightarrow> then_by c d y x > 0"
    using comparison.swap [OF assms(1), of x y] comparison.swap [OF assms(2), of x y] comparison.eq_swap [OF assms(1), of x y]
    by (auto simp: then_by_def)
next
  fix x y z
  assume m: "x \<in> A" "y \<in> A" "z \<in> A" and *: "then_by c d x y \<le> 0" "then_by c d y z \<le> 0"
  note c = comparison.trans [OF assms(1)] and e = comparison.eq_swap [OF assms(1)] and s = comparison.swap [OF assms(1)]
  have cxy: "c x y \<le> 0" and cyz: "c y z \<le> 0" using * by (auto simp: then_by_def split: if_splits)
  then have cxz: "c x z \<le> 0" using c [of x y z] m by simp
  show "then_by c d x z \<le> 0"
  proof (cases "c x z = 0")
    case True
    then have zx: "c z x \<le> 0" using e [of x z] m by simp
    have "c y x \<le> 0" using c [of y z x] m cyz zx by simp
    then have xy: "c x y = 0" using cxy s [of x y] m by linarith
    have "c z y \<le> 0" using c [of z x y] m zx cxy by simp
    then have yz: "c y z = 0" using cyz s [of y z] m by linarith
    have "d x y \<le> 0" "d y z \<le> 0" using * xy yz by (simp_all add: then_by_def)
    then have "d x z \<le> 0" using comparison.trans [OF assms(2), of x y z] m by simp
    with True show ?thesis by (simp add: then_by_def)
  next
    case False
    with cxz show ?thesis by (simp add: then_by_def)
  qed
qed

end
