(* ===== verification/Normalize.thy ===== *)
theory Normalize
  imports Facts Relay_Failures Sort_Func "HOL-Library.AList"
begin

text \<open>
  \<^verbatim>\<open>internal/normalize\<close>: the projection of a decoded block to the facts the store writes. The
  objects of the ledger library are records of what their methods answer; a value that may be nil is an
  option, a Go map the list of its entries in the order a range visits them. Hash functions, CBOR
  coding and the numeric constants of the library are the fields of \<open>ledger_lib\<close>.
\<close>

unbundle bit_operations_syntax

section \<open>What the ledger library answers\<close>

datatype address_type =
    AddressTypeByron
  | AddressTypeNoneKey
  | AddressTypeNoneScript
  | AddressTypeKeyKey
  | AddressTypeKeyScript
  | AddressTypeScriptKey
  | AddressTypeScriptScript
  | AddressTypeKeyNone
  | AddressTypeScriptNone
  | AddressTypeKeyPointer
  | AddressTypeScriptPointer
  | AddressTypeOther

datatype credential_type = CredentialTypeAddrKeyHash | CredentialTypeScriptHash | CredentialTypeOther

record credential =
  cr_CredType :: credential_type
  cr_Credential :: bytes

record ledger_address =
  la_Type :: address_type
  la_Bytes :: "go_error + bytes"
  la_HasPayload :: bool
  la_PaymentKeyHash :: bytes
  la_StakeCredential :: "credential option"
  la_NetworkId :: u64

text \<open>A multi-asset: policies, and for each its names with their quantities.\<close>

type_synonym multi_asset = "(bytes \<times> (bytes \<times> int option) list) list"

record ledger_input =
  li_Id :: bytes
  li_Index :: u32

datatype script_kind = NativeScript | PlutusV1Script | PlutusV2Script | PlutusV3Script | PlutusV4Script | UnknownScript

record ledger_script =
  ls_Hash :: bytes
  ls_Kind :: script_kind

text \<open>A datum is its CBOR.\<close>

record ledger_output =
  lo_Address :: ledger_address
  lo_Amount :: "int option"
  lo_Assets :: "multi_asset option"
  lo_ScriptRef :: "ledger_script option"
  lo_Datum :: "bytes option"
  lo_DatumHash :: "bytes option"

record redeemer_key =
  rk_Tag :: u8
  rk_Index :: u32

record redeemer_value =
  rv_Data :: bytes
  rv_Memory :: int
  rv_Steps :: int

text \<open>The redeemers of a witness set: their CBOR, when the object keeps it, and what its iterator yields.\<close>

record ledger_redeemers =
  lr_Cbor :: "bytes option"
  lr_Iter :: "(redeemer_key \<times> redeemer_value) list"

record witness_set =
  ws_PlutusData :: "bytes list"
  ws_Redeemers :: "ledger_redeemers option"

datatype certificate_body =
    StakeRegistrationCertificate credential
  | StakeDeregistrationCertificate credential
  | RegistrationCertificate credential
  | DeregistrationCertificate credential
  | VoteDelegationCertificate credential
  | VoteRegistrationDelegationCertificate credential
  | StakeVoteDelegationCertificate credential
  | StakeRegistrationDelegationCertificate credential
  | StakeVoteRegistrationDelegationCertificate credential
  | RegistrationDrepCertificate credential
  | DeregistrationDrepCertificate credential
  | UpdateDrepCertificate credential
  | AuthCommitteeHotCertificate credential
  | ResignCommitteeColdCertificate credential
  | StakeDelegationCertificate "credential option"
  | OtherCertificate

text \<open>A certificate and a proposal with what \<^verbatim>\<open>cbor.Encode\<close> answers for them.\<close>

record ledger_certificate =
  ce_Body :: certificate_body
  ce_Encode :: "go_error + bytes"

record ledger_proposal =
  pr_Encode :: "go_error + bytes"
  pr_ActionEncode :: "go_error + bytes"
  pr_PolicyHash :: "bytes option"

record ledger_voter =
  vo_Type :: u8
  vo_Hash :: hash28

datatype meta_key = MetaInt "int option" | MetaOther

record ledger_metadata =
  lm_Cbor :: bytes
  lm_Pairs :: "meta_key list option"

datatype tx_type =
    TxTypeByron
  | TxTypeShelley
  | TxTypeAllegra
  | TxTypeMary
  | TxTypeAlonzo
  | TxTypeBabbage
  | TxTypeConway
  | TxTypeDijkstra
  | TxTypeOther

text \<open>\<open>lt_SubTransactions\<close> is \<open>None\<close> when the concrete type is not the Dijkstra transaction.\<close>

record ledger_tx =
  lt_Type :: tx_type
  lt_SubTransactions :: "nat option"
  lt_Hash :: bytes
  lt_IsValid :: bool
  lt_Inputs :: "ledger_input option list"
  lt_Collateral :: "ledger_input option list"
  lt_ReferenceInputs :: "ledger_input option list"
  lt_Outputs :: "ledger_output option list"
  lt_CollateralReturn :: "ledger_output option"
  lt_Fee :: "int option"
  lt_TotalCollateral :: "int option"
  lt_AssetMint :: "multi_asset option"
  lt_Withdrawals :: "(ledger_address option \<times> int option) list"
  lt_Witnesses :: "witness_set option"
  lt_Certificates :: "ledger_certificate list"
  lt_VotingProcedures :: "ledger_voter option list"
  lt_ProposalProcedures :: "ledger_proposal list"
  lt_Metadata :: "ledger_metadata option"

record ledger_block =
  lb_Type :: int
  lb_Hash :: bytes
  lb_PrevHash :: bytes
  lb_Era :: string
  lb_SlotNumber :: u64
  lb_BlockNumber :: u64
  lb_Transactions :: "ledger_tx option list"

record legacy_redeemer =
  lg_Tag :: u8
  lg_Index :: u32
  lg_Data :: bytes
  lg_Memory :: int
  lg_Steps :: int

record ledger_lib =
  nl_Blake2b256 :: "bytes \<Rightarrow> bytes"
  nl_DecodeIdFromList :: "bytes \<Rightarrow> go_error + int"
  nl_DecodeLegacyRedeemers :: "bytes \<Rightarrow> go_error + legacy_redeemer list \<times> nat"
  nl_CompareRedeemerKeys :: "redeemer_key \<Rightarrow> redeemer_key \<Rightarrow> int"
  nl_NewBlockFromCbor :: "u64 \<Rightarrow> bytes \<Rightarrow> go_error + ledger_block option"
  nl_TagSpend :: u8
  nl_TagMint :: u8
  nl_TagCert :: u8
  nl_TagReward :: u8
  nl_TagVoting :: u8
  nl_TagProposing :: u8
  nl_CertificateTypeUpdateDrep :: u8
  nl_GovActionTypeInfo :: u8
  nl_VoterCommitteeHotScriptHash :: u8
  nl_VoterCommitteeHotKeyHash :: u8
  nl_VoterDRepScriptHash :: u8
  nl_VoterDRepKeyHash :: u8
  nl_VoterStakingPoolKeyHash :: u8

section \<open>Conversions\<close>

definition max_u32 :: nat where
  "max_u32 = 2 ^ 32 - 1"

definition checked32 :: "string \<Rightarrow> bytes \<Rightarrow> go_error + hash32" where
  "checked32 field bs = (if length bs \<noteq> 32 then Inl (errorsNew field) else Inr (make32 bs))"

definition checked28 :: "string \<Rightarrow> bytes \<Rightarrow> go_error + hash28" where
  "checked28 field bs = (if length bs \<noteq> 28 then Inl (errorsNew field) else Inr (make28 bs))"

definition uint64Value :: "string \<Rightarrow> int option \<Rightarrow> go_error + u64" where
  "uint64Value field v =
     (case v of
        None \<Rightarrow> Inl (errorsNew field)
      | Some n \<Rightarrow> if n < 0 \<or> n \<ge> 2 ^ 64 then Inl (errorsNew field) else Inr (word_of_int n))"

definition string_bytes :: "string \<Rightarrow> bytes" where
  "string_bytes s = map (\<lambda>c. of_nat (of_char c)) s"

section \<open>Supported transactions\<close>

definition ensureSupportedTransaction :: "ledger_tx \<Rightarrow> go_error + unit" where
  "ensureSupportedTransaction tx =
     (case lt_Type tx of
        TxTypeDijkstra \<Rightarrow>
          (case lt_SubTransactions tx of
             None \<Rightarrow> Inl (errorsNew ''Dijkstra transaction has unexpected concrete type'')
           | Some items \<Rightarrow> if items > 0 then Inl (errorsNew ''unsupported Dijkstra nested transaction semantics'') else Inr ())
      | TxTypeOther \<Rightarrow> Inl (errorsNew ''unsupported transaction type'')
      | _ \<Rightarrow> Inr ())"

section \<open>Inputs\<close>

fun appendInputs_from :: "nat \<Rightarrow> hash32 \<Rightarrow> u32 \<Rightarrow> string \<Rightarrow> bool \<Rightarrow> ledger_input option list \<Rightarrow> go_error + tx_input list" where
  "appendInputs_from ordinal txHash order role consumed [] = Inr []"
| "appendInputs_from ordinal txHash order role consumed (input # rest) =
     (case input of
        None \<Rightarrow> Inl (errorsNew ''input is nil'')
      | Some i \<Rightarrow>
          bindE (checked32 ''source transaction hash'' (li_Id i)) (\<lambda>sourceHash.
          bindE (appendInputs_from (ordinal + 1) txHash order role consumed rest) (\<lambda>rows.
            Inr (\<lparr>in_TransactionHash = txHash, in_TransactionOrder = order, in_SourceHash = sourceHash,
                  in_SourceIndex = li_Index i, in_BodyOrdinal = of_nat ordinal, in_Role = role, in_Consumed = consumed\<rparr> # rows))))"

definition appendInputs :: "hash32 \<Rightarrow> u32 \<Rightarrow> string \<Rightarrow> bool \<Rightarrow> ledger_input option list \<Rightarrow> go_error + tx_input list" where
  "appendInputs txHash order role consumed inputs =
     (if length inputs > max_u32 then Inl (errorsNew ''input count exceeds UInt32'')
      else appendInputs_from 0 txHash order role consumed inputs)"

section \<open>Datums\<close>

text \<open>\<^verbatim>\<open>bundleDatumCollector\<close>: for each hash the bodies with that hash.\<close>

type_synonym collector = "(hash32 \<times> datum_body list) list"

definition bundleDatumHash :: "ledger_lib \<Rightarrow> bytes \<Rightarrow> go_error + hash32" where
  "bundleDatumHash lib body =
     (if length body = 0 then Inl (errorsNew ''datum CBOR is missing'')
      else checked32 ''datum hash'' (nl_Blake2b256 lib body))"

fun observe_body :: "hash32 \<Rightarrow> bytes \<Rightarrow> datum_observation \<Rightarrow> datum_body list \<Rightarrow> datum_body list" where
  "observe_body hash body observation [] = [\<lparr>db_Hash = hash, db_CBOR = body, db_Observations = [observation]\<rparr>]"
| "observe_body hash body observation (existing # rest) =
     (if db_CBOR existing = body
      then existing\<lparr>db_Observations := db_Observations existing @ [observation]\<rparr> # rest
      else existing # observe_body hash body observation rest)"

definition bodies_of :: "collector \<Rightarrow> hash32 \<Rightarrow> datum_body list" where
  "bodies_of datums hash = (case map_of datums hash of None \<Rightarrow> [] | Some bodies \<Rightarrow> bodies)"

definition collector_add :: "ledger_lib \<Rightarrow> bytes \<Rightarrow> datum_observation \<Rightarrow> collector \<Rightarrow> go_error + hash32 \<times> collector" where
  "collector_add lib body observation datums =
     bindE (bundleDatumHash lib body) (\<lambda>hash.
       Inr (hash, AList.update hash (observe_body hash body (observation\<lparr>do_Hash := hash\<rparr>) (bodies_of datums hash)) datums))"

definition compareDatumObservation :: "datum_observation \<Rightarrow> datum_observation \<Rightarrow> int" where
  "compareDatumObservation a b =
     (let h = bytes_compare (bytes32 (do_Hash a)) (bytes32 (do_Hash b));
          t = bytes_compare (bytes32 (do_TransactionHash a)) (bytes32 (do_TransactionHash b)) in
      if h \<noteq> 0 then h
      else if t \<noteq> 0 then t
      else if do_SourceKind a \<noteq> do_SourceKind b then
        (if string_bytes (do_SourceKind a) < string_bytes (do_SourceKind b) then -1 else 1)
      else if do_SourceOrdinal a < do_SourceOrdinal b then -1
      else if do_SourceOrdinal a > do_SourceOrdinal b then 1
      else 0)"

section \<open>Outputs\<close>

definition paymentCredentialFromAddress :: "ledger_address option \<Rightarrow> string option \<times> hash28 option" where
  "paymentCredentialFromAddress decoded =
     (case decoded of
        None \<Rightarrow> (None, None)
      | Some a \<Rightarrow>
          let credential = (\<lambda>kind.
            if \<not> la_HasPayload a then (None, None)
            else case checked28 ''payment credential'' (la_PaymentKeyHash a) of
              Inl _ \<Rightarrow> (None, None)
            | Inr hash \<Rightarrow> (Some kind, Some hash))
          in case la_Type a of
               AddressTypeByron \<Rightarrow> (Some ''none'', None)
             | AddressTypeNoneKey \<Rightarrow> (None, None)
             | AddressTypeNoneScript \<Rightarrow> (None, None)
             | AddressTypeOther \<Rightarrow> (None, None)
             | AddressTypeScriptKey \<Rightarrow> credential ''script''
             | AddressTypeScriptScript \<Rightarrow> credential ''script''
             | AddressTypeScriptPointer \<Rightarrow> credential ''script''
             | AddressTypeScriptNone \<Rightarrow> credential ''script''
             | _ \<Rightarrow> credential ''key'')"

fun scriptLanguage :: "script_kind \<Rightarrow> go_error + string" where
  "scriptLanguage NativeScript = Inr ''native''"
| "scriptLanguage PlutusV1Script = Inr ''plutus_v1''"
| "scriptLanguage PlutusV2Script = Inr ''plutus_v2''"
| "scriptLanguage PlutusV3Script = Inr ''plutus_v3''"
| "scriptLanguage PlutusV4Script = Inr ''plutus_v4''"
| "scriptLanguage UnknownScript = Inl (errorsNew ''unknown reference script type'')"

definition compare_assets :: "hash28 \<times> bytes \<Rightarrow> hash28 \<times> bytes \<Rightarrow> int" where
  "compare_assets a b =
     (let value = bytes_compare (bytes28 (fst a)) (bytes28 (fst b)) in
      if value \<noteq> 0 then value else bytes_compare (snd a) (snd b))"

definition policy_assets :: "bytes \<times> (bytes \<times> int option) list \<Rightarrow> go_error + asset list" where
  "policy_assets entry =
     bindE (checked28 ''asset policy'' (fst entry)) (\<lambda>policyID.
       mapM (\<lambda>(name, quantity).
         bindE (uint64Value ''output asset quantity'' quantity) (\<lambda>v.
           Inr \<lparr>as_PolicyID = policyID, as_Name = name, as_Quantity = v\<rparr>)) (snd entry))"

definition assetBundle :: "multi_asset option \<Rightarrow> go_error + asset list" where
  "assetBundle assets =
     (case assets of
        None \<Rightarrow> Inr []
      | Some entries \<Rightarrow>
          bindE (mapM policy_assets entries) (\<lambda>ret.
            Inr (SortFunc (on_key (\<lambda>a. (as_PolicyID a, as_Name a)) compare_assets) (concat ret))))"

definition fitsInt64 :: "int \<Rightarrow> bool" where
  "fitsInt64 n \<longleftrightarrow> - (2 ^ 63) \<le> n \<and> n < 2 ^ 63"

definition policy_deltas :: "bytes \<times> (bytes \<times> int option) list \<Rightarrow> go_error + asset_delta list" where
  "policy_deltas entry =
     bindE (checked28 ''mint policy'' (fst entry)) (\<lambda>policyID.
       mapM (\<lambda>(name, quantity).
         case quantity of
           None \<Rightarrow> Inl (errorsNew ''mint quantity does not fit Int64'')
         | Some n \<Rightarrow>
             if \<not> fitsInt64 n then Inl (errorsNew ''mint quantity does not fit Int64'')
             else Inr \<lparr>ad_PolicyID = policyID, ad_Name = name, ad_Quantity = n\<rparr>) (snd entry))"

definition mintBundle :: "multi_asset option \<Rightarrow> go_error + asset_delta list" where
  "mintBundle mint =
     (case mint of
        None \<Rightarrow> Inr []
      | Some entries \<Rightarrow>
          bindE (mapM policy_deltas entries) (\<lambda>ret.
            Inr (SortFunc (on_key (\<lambda>a. (ad_PolicyID a, ad_Name a)) compare_assets) (concat ret))))"

definition reference_script :: "ledger_script option \<Rightarrow> hash28 option \<times> string option" where
  "reference_script script =
     (case script of
        None \<Rightarrow> (None, None)
      | Some s \<Rightarrow>
          (case checked28 ''reference script hash'' (ls_Hash s) of Inl _ \<Rightarrow> None | Inr hash \<Rightarrow> Some hash,
           case scriptLanguage (ls_Kind s) of Inl _ \<Rightarrow> None | Inr language \<Rightarrow> Some language))"

text \<open>The datum of an output: its kind, its hash, its observations and the collector.\<close>

definition output_datum ::
  "ledger_lib \<Rightarrow> hash32 \<Rightarrow> u32 \<Rightarrow> u32 \<Rightarrow> u32 \<Rightarrow> ledger_output \<Rightarrow> collector \<Rightarrow>
     go_error + (string \<times> hash32 option \<times> datum_observation list \<times> collector)" where
  "output_datum lib txHash txOrder index ordinal output datums =
     (case (lo_Datum output, lo_DatumHash output) of
        (Some datum, _) \<Rightarrow>
          bindE (bundleDatumHash lib datum) (\<lambda>hash.
            let observation = \<lparr>do_Hash = hash, do_TransactionHash = txHash, do_TransactionOrder = txOrder,
                  do_SourceKind = ''inline_output'', do_SourceOrdinal = ordinal, do_OutputIndex = Some index\<rparr> in
            bindE (collector_add lib datum observation datums) (\<lambda>(_, datums).
              Inr (''inline'', Some hash, [observation], datums)))
      | (None, Some decodedHash) \<Rightarrow>
          bindE (checked32 ''datum hash'' decodedHash) (\<lambda>hash. Inr (''hash'', Some hash, [], datums))
      | (None, None) \<Rightarrow> Inr (''none'', None, [], datums))"

definition outputBundle ::
  "ledger_lib \<Rightarrow> hash32 \<Rightarrow> u32 \<Rightarrow> u32 \<Rightarrow> u32 \<Rightarrow> string \<Rightarrow> ledger_output option \<Rightarrow> collector \<Rightarrow>
     go_error + (tx_output \<times> datum_observation list \<times> collector)" where
  "outputBundle lib txHash txOrder index ordinal kind output datums =
     (case output of
        None \<Rightarrow> Inl (errorsNew ''nil output'')
      | Some o' \<Rightarrow>
          bindE (case la_Bytes (lo_Address o') of Inl e \<Rightarrow> Inl (Annotated ''address bytes: '' e) | Inr bs \<Rightarrow> Inr bs) (\<lambda>address.
          bindE (uint64Value ''output lovelace'' (lo_Amount o')) (\<lambda>lovelace.
          bindE (assetBundle (lo_Assets o')) (\<lambda>assets.
          bindE (output_datum lib txHash txOrder index ordinal o' datums) (\<lambda>(datumKind, datumHash, observations, datums).
            Inr (\<lparr>out_TransactionHash = txHash, out_TransactionOrder = txOrder, out_Index = index, out_BodyOrdinal = ordinal,
                  out_Kind = kind, out_Address = address,
                  out_PaymentCredentialKind = fst (paymentCredentialFromAddress (Some (lo_Address o'))),
                  out_PaymentCredentialHash = snd (paymentCredentialFromAddress (Some (lo_Address o'))),
                  out_Lovelace = lovelace, out_Assets = assets, out_DatumKind = datumKind, out_DatumHash = datumHash,
                  out_ReferenceScriptHash = fst (reference_script (lo_ScriptRef o')),
                  out_ReferenceScriptLanguage = snd (reference_script (lo_ScriptRef o'))\<rparr>, observations, datums))))))"

fun outputs_from ::
  "ledger_lib \<Rightarrow> hash32 \<Rightarrow> u32 \<Rightarrow> nat \<Rightarrow> ledger_output option list \<Rightarrow> collector \<Rightarrow>
     go_error + (tx_output list \<times> datum_observation list \<times> collector)" where
  "outputs_from lib txHash order index [] datums = Inr ([], [], datums)"
| "outputs_from lib txHash order index (output # rest) datums =
     (case outputBundle lib txHash order (of_nat index) (of_nat index) ''regular'' output datums of
        Inl e \<Rightarrow> Inl (Annotated ''output: '' e)
      | Inr (facts, observations, datums) \<Rightarrow>
          bindE (outputs_from lib txHash order (index + 1) rest datums) (\<lambda>(rows, more, datums).
            Inr (facts # rows, observations @ more, datums)))"

text \<open>Regular outputs of a valid transaction, the collateral return of an invalid one.\<close>

definition transaction_outputs ::
  "ledger_lib \<Rightarrow> hash32 \<Rightarrow> u32 \<Rightarrow> ledger_tx \<Rightarrow> collector \<Rightarrow> go_error + (tx_output list \<times> datum_observation list \<times> collector)" where
  "transaction_outputs lib txHash order tx datums =
     (if lt_IsValid tx then
        (if length (lt_Outputs tx) > max_u32 then Inl (errorsNew ''output count exceeds UInt32'')
         else outputs_from lib txHash order 0 (lt_Outputs tx) datums)
      else case lt_CollateralReturn tx of
        None \<Rightarrow> Inr ([], [], datums)
      | Some output \<Rightarrow>
          if length (lt_Outputs tx) > max_u32 then Inl (errorsNew ''collateral return index exceeds UInt32'')
          else case outputBundle lib txHash order (of_nat (length (lt_Outputs tx))) 0 ''collateral_return'' (Some output) datums of
            Inl e \<Rightarrow> Inl (Annotated ''collateral return: '' e)
          | Inr (facts, observations, datums) \<Rightarrow> Inr ([facts], observations, datums))"

section \<open>Withdrawals\<close>

record withdrawal_item =
  wi_address :: bytes
  wi_value :: "int option"
  wi_network :: u64
  wi_credentialKind :: "string option"
  wi_credentialHash :: "hash28 option"

definition withdrawal_credential :: "ledger_address \<Rightarrow> string option \<times> hash28 option" where
  "withdrawal_credential a =
     (case la_StakeCredential a of
        None \<Rightarrow> (None, None)
      | Some c \<Rightarrow>
          (case checked28 ''withdrawal credential'' (cr_Credential c) of
             Inl _ \<Rightarrow> (None, None)
           | Inr h \<Rightarrow>
               (case cr_CredType c of
                  CredentialTypeAddrKeyHash \<Rightarrow> (Some ''key'', Some h)
                | CredentialTypeScriptHash \<Rightarrow> (Some ''script'', Some h)
                | CredentialTypeOther \<Rightarrow> (None, None))))"

definition withdrawal_item_of :: "ledger_address option \<times> int option \<Rightarrow> go_error + withdrawal_item" where
  "withdrawal_item_of entry =
     (case fst entry of
        None \<Rightarrow> Inl (errorsNew ''nil withdrawal reward account'')
      | Some a \<Rightarrow>
          (case la_Bytes a of
             Inl e \<Rightarrow> Inl (Annotated ''withdrawal reward account: '' e)
           | Inr raw \<Rightarrow> Inr \<lparr>wi_address = raw, wi_value = snd entry, wi_network = la_NetworkId a,
               wi_credentialKind = fst (withdrawal_credential a), wi_credentialHash = snd (withdrawal_credential a)\<rparr>))"

definition credential_rank :: "string \<Rightarrow> int" where
  "credential_rank kind = (if kind = ''script'' then 0 else 1)"

definition compare_withdrawals :: "withdrawal_item \<Rightarrow> withdrawal_item \<Rightarrow> int" where
  "compare_withdrawals a b =
     (if wi_network a < wi_network b then -1
      else if wi_network a > wi_network b then 1
      else case (wi_credentialKind a, wi_credentialHash a, wi_credentialKind b, wi_credentialHash b) of
        (Some ka, Some ha, Some kb, Some hb) \<Rightarrow>
          if credential_rank ka \<noteq> credential_rank kb then credential_rank ka - credential_rank kb
          else bytes_compare (bytes28 ha) (bytes28 hb)
      | _ \<Rightarrow> bytes_compare (wi_address a) (wi_address b))"

fun withdrawals_from :: "nat \<Rightarrow> ledger_tx \<Rightarrow> hash32 \<Rightarrow> u32 \<Rightarrow> withdrawal_item list \<Rightarrow> go_error + withdrawal list" where
  "withdrawals_from ordinal tx txHash order [] = Inr []"
| "withdrawals_from ordinal tx txHash order (item # rest) =
     bindE (uint64Value ''withdrawal lovelace'' (wi_value item)) (\<lambda>amount.
     bindE (withdrawals_from (ordinal + 1) tx txHash order rest) (\<lambda>rows.
       Inr (\<lparr>wd_TransactionHash = txHash, wd_TransactionOrder = order, wd_BodyOrdinal = of_nat ordinal,
             wd_RewardAccount = wi_address item, wd_Lovelace = amount, wd_Applied = lt_IsValid tx,
             wd_CredentialKind = wi_credentialKind item, wd_CredentialHash = wi_credentialHash item\<rparr> # rows)))"

definition withdrawalBundle :: "ledger_tx \<Rightarrow> hash32 \<Rightarrow> u32 \<Rightarrow> go_error + withdrawal list" where
  "withdrawalBundle tx txHash order =
     (if length (lt_Withdrawals tx) > max_u32 then Inl (errorsNew ''withdrawal count exceeds UInt32'')
      else bindE (mapM withdrawal_item_of (lt_Withdrawals tx)) (\<lambda>items.
        withdrawals_from 0 tx txHash order (SortFunc compare_withdrawals items)))"

section \<open>Redeemers\<close>

definition legacy_entry :: "legacy_redeemer \<Rightarrow> redeemer_key \<times> redeemer_value" where
  "legacy_entry r = (\<lparr>rk_Tag = lg_Tag r, rk_Index = lg_Index r\<rparr>, \<lparr>rv_Data = lg_Data r, rv_Memory = lg_Memory r, rv_Steps = lg_Steps r\<rparr>)"

text \<open>Assignments to a Go map, in the given order.\<close>

definition assign_all :: "('k \<times> 'v) list \<Rightarrow> ('k \<times> 'v) list" where
  "assign_all entries = fold (\<lambda>(k, v). AList.update k v) entries []"

definition canonicalRedeemerItems :: "ledger_lib \<Rightarrow> ledger_redeemers \<Rightarrow> go_error + (redeemer_key \<times> redeemer_value) list" where
  "canonicalRedeemerItems lib redeemers =
     (let raw = (case lr_Cbor redeemers of None \<Rightarrow> [] | Some bs \<Rightarrow> bs);
          sorted_items = (\<lambda>entries. SortFunc (on_key fst (nl_CompareRedeemerKeys lib)) (assign_all entries)) in
      if length raw > 0 \<and> raw ! 0 AND 0xe0 = 0x80 then
        (case nl_DecodeLegacyRedeemers lib raw of
           Inl e \<Rightarrow> Inl (Annotated ''decode legacy redeemer array: '' e)
         | Inr (encoded, consumed) \<Rightarrow>
             if consumed \<noteq> length raw then Inl (errorsNew ''legacy redeemer array has trailing CBOR'')
             else Inr (sorted_items (map legacy_entry encoded)))
      else if length raw > 0 \<and> raw ! 0 AND 0xe0 \<noteq> 0xa0 then
        Inl (errorsNew ''redeemers have unsupported top-level CBOR type'')
      else Inr (sorted_items (lr_Iter redeemers)))"

definition compare_spend_inputs :: "hash32 \<times> u32 \<Rightarrow> hash32 \<times> u32 \<Rightarrow> int" where
  "compare_spend_inputs a b =
     (let compared = bytes_compare (bytes32 (fst a)) (bytes32 (fst b)) in
      if compared \<noteq> 0 then compared
      else if snd a < snd b then -1 else if snd a > snd b then 1 else 0)"

fun drop_repeats :: "'a list \<Rightarrow> 'a list" where
  "drop_repeats [] = []"
| "drop_repeats [x] = [x]"
| "drop_repeats (x # y # rest) = (if y \<noteq> x then x # drop_repeats (y # rest) else drop_repeats (x # rest))"

definition spend_reference :: "ledger_input option \<Rightarrow> go_error + hash32 \<times> u32" where
  "spend_reference input =
     (case input of
        None \<Rightarrow> Inl (errorsNew ''regular input is nil'')
      | Some i \<Rightarrow> bindE (checked32 ''spend redeemer input transaction hash'' (li_Id i)) (\<lambda>hash. Inr (hash, li_Index i)))"

definition canonicalSpendInputs :: "ledger_input option list \<Rightarrow> go_error + (hash32 \<times> u32) list" where
  "canonicalSpendInputs inputs =
     bindE (mapM spend_reference inputs) (\<lambda>ret. Inr (drop_repeats (SortFunc compare_spend_inputs ret)))"

definition voter_ordinal :: "ledger_lib \<Rightarrow> ledger_voter \<Rightarrow> go_error + int" where
  "voter_ordinal lib voter =
     (if vo_Type voter = nl_VoterCommitteeHotScriptHash lib then Inr 0
      else if vo_Type voter = nl_VoterCommitteeHotKeyHash lib then Inr 1
      else if vo_Type voter = nl_VoterDRepScriptHash lib then Inr 2
      else if vo_Type voter = nl_VoterDRepKeyHash lib then Inr 3
      else if vo_Type voter = nl_VoterStakingPoolKeyHash lib then Inr 4
      else Inl (errorsNew ''unknown voter type''))"

definition voter_rank :: "ledger_lib \<Rightarrow> ledger_voter \<Rightarrow> int" where
  "voter_rank lib voter = (case voter_ordinal lib voter of Inl _ \<Rightarrow> 0 | Inr n \<Rightarrow> n)"

definition compare_voters :: "ledger_lib \<Rightarrow> ledger_voter \<Rightarrow> ledger_voter \<Rightarrow> int" where
  "compare_voters lib a b =
     (if voter_rank lib a \<noteq> voter_rank lib b then voter_rank lib a - voter_rank lib b
      else bytes_compare (bytes28 (vo_Hash a)) (bytes28 (vo_Hash b)))"

definition sortedVoters :: "ledger_lib \<Rightarrow> ledger_voter option list \<Rightarrow> go_error + ledger_voter list" where
  "sortedVoters lib votes =
     bindE (mapM (\<lambda>v. case v of None \<Rightarrow> Inl (errorsNew ''nil voter'') | Some w \<Rightarrow> Inr w) votes) (\<lambda>voters.
     bindE (mapM (voter_ordinal lib) voters) (\<lambda>_. Inr (SortFunc (compare_voters lib) voters)))"

definition canonicalLedgerConstructor :: "ledger_lib \<Rightarrow> go_error + bytes \<Rightarrow> u8 \<Rightarrow> go_error + int" where
  "canonicalLedgerConstructor lib encoded maximum =
     (case encoded of
        Inl e \<Rightarrow> Inl (Annotated ''encode canonical ledger CBOR: '' e)
      | Inr canonical \<Rightarrow>
          if length canonical = 0 then Inl (errorsNew ''canonical ledger CBOR is missing'')
          else case nl_DecodeIdFromList lib canonical of
            Inl e \<Rightarrow> Inl (Annotated ''decode canonical constructor: '' e)
          | Inr n \<Rightarrow> if n < 0 \<or> n > uint maximum then Inl (errorsNew ''canonical constructor out of range'') else Inr n)"

definition compactLedgerTargetIdentity :: "ledger_lib \<Rightarrow> u8 \<Rightarrow> int \<Rightarrow> u8 \<Rightarrow> go_error + bytes \<Rightarrow> go_error + bytes" where
  "compactLedgerTargetIdentity lib purpose constructor maxConstructor encoded =
     (case encoded of
        Inl e \<Rightarrow> Inl (Annotated ''encode canonical ledger CBOR: '' e)
      | Inr canonical \<Rightarrow>
          if length canonical = 0 then Inl (errorsNew ''canonical ledger CBOR is missing'')
          else if constructor > uint maxConstructor then Inl (errorsNew ''canonical constructor out of range'')
          else Inr (purpose # word_of_int constructor # nl_Blake2b256 lib canonical))"

fun certificate_credential :: "certificate_body \<Rightarrow> credential option" where
  "certificate_credential (StakeRegistrationCertificate c) = Some c"
| "certificate_credential (StakeDeregistrationCertificate c) = Some c"
| "certificate_credential (RegistrationCertificate c) = Some c"
| "certificate_credential (DeregistrationCertificate c) = Some c"
| "certificate_credential (VoteDelegationCertificate c) = Some c"
| "certificate_credential (VoteRegistrationDelegationCertificate c) = Some c"
| "certificate_credential (StakeVoteDelegationCertificate c) = Some c"
| "certificate_credential (StakeRegistrationDelegationCertificate c) = Some c"
| "certificate_credential (StakeVoteRegistrationDelegationCertificate c) = Some c"
| "certificate_credential (RegistrationDrepCertificate c) = Some c"
| "certificate_credential (DeregistrationDrepCertificate c) = Some c"
| "certificate_credential (UpdateDrepCertificate c) = Some c"
| "certificate_credential (AuthCommitteeHotCertificate c) = Some c"
| "certificate_credential (ResignCommitteeColdCertificate c) = Some c"
| "certificate_credential (StakeDelegationCertificate c) = c"
| "certificate_credential OtherCertificate = None"

definition certificateScriptHash :: "certificate_body \<Rightarrow> hash28 option" where
  "certificateScriptHash certificate =
     (case certificate_credential certificate of
        None \<Rightarrow> None
      | Some c \<Rightarrow>
          if cr_CredType c \<noteq> CredentialTypeScriptHash then None
          else case checked28 ''certificate script hash'' (cr_Credential c) of Inl _ \<Rightarrow> None | Inr hash \<Rightarrow> Some hash)"

section \<open>Resolution of redeemer targets\<close>

definition annotate :: "string \<Rightarrow> go_error + 'a \<Rightarrow> go_error + 'a" where
  "annotate prefix r = map_sum (Annotated prefix) id r"

lemma annotate_Inr [err_simps]: "annotate prefix r = Inr x \<longleftrightarrow> r = Inr x"
  by (cases r) (simp_all add: annotate_def)

definition unresolved :: "string \<Rightarrow> go_error + 'a" where
  "unresolved what = Inl (errorsNew what)"

definition resolve_spend :: "redeemer_key \<Rightarrow> redeemer \<Rightarrow> ledger_input option list \<Rightarrow> go_error + redeemer" where
  "resolve_spend key row regularInputs =
     bindE (canonicalSpendInputs regularInputs) (\<lambda>inputs.
       if unat (rk_Index key) \<ge> length inputs then unresolved ''spend redeemer index is unresolved''
       else Inr (row\<lparr>rd_Purpose := ''spend'', rd_TargetTxHash := Some (fst (inputs ! unat (rk_Index key))),
         rd_TargetOutputIndex := Some (snd (inputs ! unat (rk_Index key)))\<rparr>))"

definition resolve_mint :: "ledger_tx \<Rightarrow> redeemer_key \<Rightarrow> redeemer \<Rightarrow> go_error + redeemer" where
  "resolve_mint tx key row =
     (case lt_AssetMint tx of
        None \<Rightarrow> unresolved ''mint redeemer index has no mint policies''
      | Some entries \<Rightarrow>
          (let policies = SortFunc bytes_compare (map fst entries) in
           if unat (rk_Index key) \<ge> length policies then unresolved ''mint redeemer index is unresolved''
           else bindE (checked28 ''mint redeemer target'' (policies ! unat (rk_Index key))) (\<lambda>policy.
             Inr (row\<lparr>rd_Purpose := ''mint'', rd_TargetPolicyID := Some policy, rd_ResolvedScriptHash := Some policy\<rparr>))))"

definition resolve_certificate :: "ledger_lib \<Rightarrow> ledger_tx \<Rightarrow> redeemer_key \<Rightarrow> redeemer \<Rightarrow> go_error + redeemer" where
  "resolve_certificate lib tx key row =
     (if unat (rk_Index key) \<ge> length (lt_Certificates tx) then unresolved ''certificate redeemer index is unresolved''
      else let certificate = lt_Certificates tx ! unat (rk_Index key) in
        bindE (annotate ''certificate constructor: ''
          (canonicalLedgerConstructor lib (ce_Encode certificate) (nl_CertificateTypeUpdateDrep lib))) (\<lambda>constructor.
        bindE (annotate ''certificate redeemer target identity: ''
          (compactLedgerTargetIdentity lib (nl_TagCert lib) constructor (nl_CertificateTypeUpdateDrep lib) (ce_Encode certificate))) (\<lambda>identity.
          Inr (row\<lparr>rd_Purpose := ''certificate'', rd_TargetBodyOrdinal := Some (rk_Index key), rd_TargetIdentity := Some identity,
            rd_ResolvedScriptHash := (case certificateScriptHash (ce_Body certificate) of
                Some hash \<Rightarrow> Some hash | None \<Rightarrow> rd_ResolvedScriptHash row)\<rparr>))))"

definition resolve_reward :: "redeemer_key \<Rightarrow> redeemer \<Rightarrow> withdrawal list \<Rightarrow> go_error + redeemer" where
  "resolve_reward key row withdrawals =
     (if unat (rk_Index key) \<ge> length withdrawals then unresolved ''reward redeemer index is unresolved''
      else let target = withdrawals ! unat (rk_Index key) in
        Inr (row\<lparr>rd_Purpose := ''reward'', rd_TargetRewardAccount := Some (wd_RewardAccount target),
          rd_ResolvedScriptHash := (if wd_CredentialKind target = Some ''script'' \<and> wd_CredentialHash target \<noteq> None
            then wd_CredentialHash target else rd_ResolvedScriptHash row)\<rparr>))"

definition resolve_vote :: "ledger_lib \<Rightarrow> ledger_tx \<Rightarrow> redeemer_key \<Rightarrow> redeemer \<Rightarrow> go_error + redeemer" where
  "resolve_vote lib tx key row =
     bindE (sortedVoters lib (lt_VotingProcedures tx)) (\<lambda>voters.
       if unat (rk_Index key) \<ge> length voters then unresolved ''vote redeemer index is unresolved''
       else let voter = voters ! unat (rk_Index key) in
         Inr (row\<lparr>rd_Purpose := ''vote'', rd_TargetBodyOrdinal := Some (rk_Index key),
           rd_TargetIdentity := Some (vo_Type voter # bytes28 (vo_Hash voter)),
           rd_ResolvedScriptHash := (if vo_Type voter \<in> {nl_VoterCommitteeHotScriptHash lib, nl_VoterDRepScriptHash lib}
             then Some (vo_Hash voter) else rd_ResolvedScriptHash row)\<rparr>))"

definition proposal_policy :: "ledger_proposal \<Rightarrow> go_error + hash28 option" where
  "proposal_policy proposal =
     (case pr_PolicyHash proposal of
        None \<Rightarrow> Inr None
      | Some raw \<Rightarrow>
          if length raw = 0 then Inr None
          else bindE (checked28 ''proposal policy script hash'' raw) (\<lambda>hash. Inr (Some hash)))"

definition resolve_proposal :: "ledger_lib \<Rightarrow> ledger_tx \<Rightarrow> redeemer_key \<Rightarrow> redeemer \<Rightarrow> go_error + redeemer" where
  "resolve_proposal lib tx key row =
     (if unat (rk_Index key) \<ge> length (lt_ProposalProcedures tx) then unresolved ''proposal redeemer index is unresolved''
      else let proposal = lt_ProposalProcedures tx ! unat (rk_Index key) in
        bindE (annotate ''proposal governance action constructor: ''
          (canonicalLedgerConstructor lib (pr_ActionEncode proposal) (nl_GovActionTypeInfo lib))) (\<lambda>constructor.
        bindE (annotate ''proposal redeemer target identity: ''
          (compactLedgerTargetIdentity lib (nl_TagProposing lib) constructor (nl_GovActionTypeInfo lib) (pr_Encode proposal))) (\<lambda>identity.
        bindE (proposal_policy proposal) (\<lambda>policy.
          Inr (row\<lparr>rd_Purpose := ''proposal'', rd_TargetBodyOrdinal := Some (rk_Index key), rd_TargetIdentity := Some identity,
            rd_ResolvedScriptHash := (case policy of Some hash \<Rightarrow> Some hash | None \<Rightarrow> rd_ResolvedScriptHash row)\<rparr>)))))"

definition resolveRedeemer ::
  "ledger_lib \<Rightarrow> ledger_tx \<Rightarrow> redeemer_key \<Rightarrow> redeemer \<Rightarrow> ledger_input option list \<Rightarrow> withdrawal list \<Rightarrow> go_error + redeemer" where
  "resolveRedeemer lib tx key row regularInputs withdrawals =
     (if rk_Tag key = nl_TagSpend lib then resolve_spend key row regularInputs
      else if rk_Tag key = nl_TagMint lib then resolve_mint tx key row
      else if rk_Tag key = nl_TagCert lib then resolve_certificate lib tx key row
      else if rk_Tag key = nl_TagReward lib then resolve_reward key row withdrawals
      else if rk_Tag key = nl_TagVoting lib then resolve_vote lib tx key row
      else if rk_Tag key = nl_TagProposing lib then resolve_proposal lib tx key row
      else Inl (errorsNew ''unsupported redeemer purpose tag''))"

definition redeemer_facts ::
  "ledger_lib \<Rightarrow> ledger_tx \<Rightarrow> hash32 \<Rightarrow> u32 \<Rightarrow> withdrawal list \<Rightarrow> redeemer_key \<times> redeemer_value \<Rightarrow> go_error + redeemer" where
  "redeemer_facts lib tx txHash order withdrawals item =
     (let key = fst item; v = snd item; body = rv_Data v in
      if length body = 0 then Inl (errorsNew ''redeemer data CBOR is missing'')
      else if rv_Memory v < 0 \<or> rv_Steps v < 0 then Inl (errorsNew ''negative redeemer execution units'')
      else bindE (checked32 ''redeemer data hash'' (nl_Blake2b256 lib body)) (\<lambda>dataHash.
        resolveRedeemer lib tx key
          \<lparr>rd_TransactionHash = txHash, rd_TransactionOrder = order, rd_RawPurposeTag = rk_Tag key, rd_Purpose = '''',
           rd_Index = rk_Index key, rd_DataCBOR = body, rd_DataHash = dataHash,
           rd_ExUnitsMemory = uint64_of_int64 (rv_Memory v), rd_ExUnitsSteps = uint64_of_int64 (rv_Steps v),
           rd_Applied = lt_IsValid tx, rd_TargetTxHash = None, rd_TargetOutputIndex = None, rd_TargetPolicyID = None,
           rd_TargetRewardAccount = None, rd_TargetBodyOrdinal = None, rd_TargetIdentity = None, rd_ResolvedScriptHash = None\<rparr>
          (lt_Inputs tx) withdrawals))"

definition redeemerBundle :: "ledger_lib \<Rightarrow> ledger_tx \<Rightarrow> hash32 \<Rightarrow> u32 \<Rightarrow> withdrawal list \<Rightarrow> go_error + redeemer list" where
  "redeemerBundle lib tx txHash order withdrawals =
     (case lt_Witnesses tx of
        None \<Rightarrow> Inr []
      | Some witnesses \<Rightarrow>
          (case ws_Redeemers witnesses of
             None \<Rightarrow> Inr []
           | Some redeemers \<Rightarrow>
               bindE (canonicalRedeemerItems lib redeemers) (\<lambda>items.
                 if length items > max_u32 then Inl (errorsNew ''redeemer count exceeds UInt32'')
                 else mapM (redeemer_facts lib tx txHash order withdrawals) items)))"

section \<open>Metadata\<close>

fun metadata_label :: "meta_key \<Rightarrow> go_error + u64" where
  "metadata_label (MetaInt number) = uint64Value ''metadata label does not fit UInt64'' number"
| "metadata_label MetaOther = Inl (errorsNew ''metadata label is not an integer'')"

definition metadataBundle :: "ledger_lib \<Rightarrow> ledger_tx \<Rightarrow> hash32 \<Rightarrow> u32 \<Rightarrow> go_error + metadata option" where
  "metadataBundle lib tx txHash order =
     (case lt_Metadata tx of
        None \<Rightarrow> Inr None
      | Some m \<Rightarrow>
          if length (lm_Cbor m) = 0 then Inl (errorsNew ''metadata map CBOR is missing'')
          else case lm_Pairs m of
            None \<Rightarrow> Inl (errorsNew ''top-level transaction metadata is not a map'')
          | Some pairs \<Rightarrow>
              bindE (mapM metadata_label pairs) (\<lambda>labels.
                Inr (Some \<lparr>md_TransactionHash = txHash, md_TransactionOrder = order, md_Labels = sort labels,
                  md_CBOR = lm_Cbor m, md_ContentHash = make32 (nl_Blake2b256 lib (lm_Cbor m))\<rparr>)))"

section \<open>Transactions and blocks\<close>

definition transaction_fees :: "ledger_tx \<Rightarrow> go_error + (u64 option \<times> u64 option)" where
  "transaction_fees tx =
     (if lt_Type tx = TxTypeByron then Inr (None, None)
      else bindE (uint64Value ''declared fee'' (lt_Fee tx)) (\<lambda>declared.
        if lt_IsValid tx then Inr (Some declared, Some declared)
        else case lt_TotalCollateral tx of
          None \<Rightarrow> Inr (Some declared, None)
        | Some n \<Rightarrow>
            if n > 0 then bindE (uint64Value ''total collateral'' (Some n)) (\<lambda>effective. Inr (Some declared, Some effective))
            else Inr (Some declared, None)))"

fun witness_datums_from ::
  "ledger_lib \<Rightarrow> hash32 \<Rightarrow> u32 \<Rightarrow> nat \<Rightarrow> bytes list \<Rightarrow> collector \<Rightarrow> go_error + (datum_observation list \<times> collector)" where
  "witness_datums_from lib txHash order ordinal [] datums = Inr ([], datums)"
| "witness_datums_from lib txHash order ordinal (datum # rest) datums =
     (let observation = \<lparr>do_Hash = zero32, do_TransactionHash = txHash, do_TransactionOrder = order,
            do_SourceKind = ''witness'', do_SourceOrdinal = of_nat ordinal, do_OutputIndex = None\<rparr> in
      case collector_add lib datum observation datums of
        Inl e \<Rightarrow> Inl (Annotated ''witness datum: '' e)
      | Inr (hash, datums) \<Rightarrow>
          bindE (witness_datums_from lib txHash order (ordinal + 1) rest datums) (\<lambda>(more, datums).
            Inr (observation\<lparr>do_Hash := hash\<rparr> # more, datums)))"

definition witness_datums :: "ledger_tx \<Rightarrow> bytes list" where
  "witness_datums tx = (case lt_Witnesses tx of None \<Rightarrow> [] | Some w \<Rightarrow> ws_PlutusData w)"

definition transactionBundle :: "ledger_lib \<Rightarrow> ledger_tx \<Rightarrow> u32 \<Rightarrow> string \<Rightarrow> collector \<Rightarrow> go_error + transaction \<times> collector" where
  "transactionBundle lib tx order era datums =
     bindE (checked32 ''transaction hash'' (lt_Hash tx)) (\<lambda>txHash.
     if length (witness_datums tx) > max_u32 then Inl (errorsNew ''witness datum count exceeds UInt32'')
     else
     (let valid = lt_IsValid tx in
     bindE (transaction_fees tx) (\<lambda>(declared, effective).
     bindE (appendInputs txHash order ''regular'' valid (lt_Inputs tx)) (\<lambda>regular.
     bindE (appendInputs txHash order ''collateral'' (\<not> valid) (lt_Collateral tx)) (\<lambda>collateral.
     bindE (appendInputs txHash order ''reference'' False (lt_ReferenceInputs tx)) (\<lambda>reference.
     bindE (transaction_outputs lib txHash order tx datums) (\<lambda>(outputs, observations, datums).
     bindE (mintBundle (lt_AssetMint tx)) (\<lambda>mint.
     bindE (withdrawalBundle tx txHash order) (\<lambda>withdrawals.
     bindE (redeemerBundle lib tx txHash order withdrawals) (\<lambda>redeemers.
     bindE (metadataBundle lib tx txHash order) (\<lambda>metadata.
     bindE (witness_datums_from lib txHash order 0 (witness_datums tx) datums) (\<lambda>(witnessed, datums).
       Inr (\<lparr>tx_Hash = txHash, tx_Order = order, tx_ParentHash = None, tx_SubtransactionIndex = None, tx_Era = era,
             tx_Phase2Valid = valid, tx_FlowKind = (if valid then ''regular'' else ''collateral''),
             tx_DeclaredFee = declared, tx_EffectiveFee = effective, tx_MintApplied = valid, tx_Mint = mint,
             tx_Inputs = regular @ collateral @ reference, tx_Outputs = outputs, tx_Withdrawals = withdrawals,
             tx_Redeemers = redeemers, tx_Metadata = metadata,
             tx_DatumObservations = SortFunc compareDatumObservation (observations @ witnessed)\<rparr>, datums)))))))))))))"

fun transactions_from :: "ledger_lib \<Rightarrow> nat \<Rightarrow> string \<Rightarrow> ledger_tx option list \<Rightarrow> collector \<Rightarrow> go_error + transaction list \<times> collector" where
  "transactions_from lib order era [] datums = Inr ([], datums)"
| "transactions_from lib order era (tx # rest) datums =
     (case tx of
        None \<Rightarrow> Inl (errorsNew ''transaction is nil'')
      | Some t \<Rightarrow>
          if order > max_u32 then Inl (errorsNew ''transaction order exceeds UInt32'')
          else case bindE (ensureSupportedTransaction t) (\<lambda>_. transactionBundle lib t (of_nat order) era datums) of
            Inl e \<Rightarrow> Inl (Annotated ''transaction: '' e)
          | Inr (facts, datums) \<Rightarrow>
              bindE (transactions_from lib (order + 1) era rest datums) (\<lambda>(rows, datums). Inr (facts # rows, datums)))"

definition parent_hash :: "bytes \<Rightarrow> go_error + hash32 option" where
  "parent_hash raw =
     (if length raw > 0 then bindE (checked32 ''parent hash'' raw) (\<lambda>v. Inr (Some v)) else Inr None)"

text \<open>The bodies of the collector, by hash, each with its observations in order.\<close>

definition collected_datums :: "collector \<Rightarrow> datum_body list" where
  "collected_datums datums =
     concat (map (\<lambda>hash. map (\<lambda>body. body\<lparr>db_Observations := SortFunc compareDatumObservation (db_Observations body)\<rparr>)
       (bodies_of datums hash)) (SortFunc (on_key bytes32 bytes_compare) (map fst datums)))"

definition Bundle :: "ledger_lib \<Rightarrow> ledger_block option \<Rightarrow> go_error + block" where
  "Bundle lib decoded =
     (case decoded of
        None \<Rightarrow> Inl (errorsNew ''nil block'')
      | Some blk \<Rightarrow>
          if lb_Type blk < - (2 ^ 15) \<or> lb_Type blk > 2 ^ 15 - 1 then Inl (errorsNew ''block type exceeds Int16'')
          else
            bindE (checked32 ''block hash'' (lb_Hash blk)) (\<lambda>blockHash.
            bindE (parent_hash (lb_PrevHash blk)) (\<lambda>parentHash.
            if length (lb_Transactions blk) > max_u32 then Inl (errorsNew ''transaction count exceeds UInt32'')
            else bindE (transactions_from lib 0 (lb_Era blk) (lb_Transactions blk) []) (\<lambda>(transactions, datums).
              Inr \<lparr>bk_Hash = blockHash, bk_ParentHash = parentHash, bk_Slot = lb_SlotNumber blk, bk_Number = lb_BlockNumber blk,
                bk_Era = lb_Era blk, bk_Type = lb_Type blk, bk_Synthetic = False, bk_Transactions = transactions,
                bk_Datums = collected_datums datums, bk_ObservedAt = 0\<rparr>))))"

definition Decode :: "ledger_lib \<Rightarrow> u64 \<Rightarrow> bytes \<Rightarrow> go_error + block" where
  "Decode lib blockType raw =
     (if length raw = 0 then Inl (errorsNew ''empty raw block CBOR'')
      else case nl_NewBlockFromCbor lib blockType raw of
        Inl e \<Rightarrow> Inl (Annotated ''decode block type: '' e)
      | Inr decoded \<Rightarrow> Bundle lib decoded)"

end
