(* ===== verification/Normalize_Sample.thy ===== *)
theory Normalize_Sample
  imports Normalize
begin

text \<open>
  A concrete ledger library and a concrete block for the properties of the projection: one transaction
  whose output carries two assets and an inline datum, with two withdrawals, a witness datum with the
  same bytes and a redeemer that points at the first withdrawal, and the same block with the maps of the
  transaction visited in the opposite order.
\<close>

section \<open>The block\<close>

definition sample_account :: "credential_type \<Rightarrow> byte \<Rightarrow> ledger_address" where
  "sample_account kind b = \<lparr>la_Type = AddressTypeNoneKey, la_Bytes = Inr [b], la_HasPayload = False, la_PaymentKeyHash = [],
     la_StakeCredential = Some \<lparr>cr_CredType = kind, cr_Credential = replicate 28 b\<rparr>, la_NetworkId = 1\<rparr>"

definition sample_wallet :: ledger_address where
  "sample_wallet = \<lparr>la_Type = AddressTypeKeyKey, la_Bytes = Inr [97, 1], la_HasPayload = True, la_PaymentKeyHash = replicate 28 5,
     la_StakeCredential = None, la_NetworkId = 1\<rparr>"

definition sample_withdrawals :: "(ledger_address option \<times> int option) list" where
  "sample_withdrawals = [(Some (sample_account CredentialTypeAddrKeyHash 1), Some 70),
     (Some (sample_account CredentialTypeScriptHash 2), Some 80)]"

definition sample_assets :: multi_asset where
  "sample_assets = [(replicate 28 9, [([2], Some 20), ([1], Some 10)])]"

definition sample_output :: "multi_asset \<Rightarrow> ledger_output" where
  "sample_output assets = \<lparr>lo_Address = sample_wallet, lo_Amount = Some 1000000, lo_Assets = Some assets, lo_ScriptRef = None,
     lo_Datum = Some [7, 7], lo_DatumHash = None\<rparr>"

definition sample_redeemers :: ledger_redeemers where
  "sample_redeemers = \<lparr>lr_Cbor = None, lr_Iter = [(\<lparr>rk_Tag = 3, rk_Index = 0\<rparr>, \<lparr>rv_Data = [1], rv_Memory = 100, rv_Steps = 200\<rparr>)]\<rparr>"

definition sample_tx :: "multi_asset \<Rightarrow> (ledger_address option \<times> int option) list \<Rightarrow> ledger_tx" where
  "sample_tx assets withdrawals = \<lparr>lt_Type = TxTypeConway, lt_SubTransactions = None, lt_Hash = replicate 32 11, lt_IsValid = True,
     lt_Inputs = [Some \<lparr>li_Id = replicate 32 10, li_Index = 3\<rparr>], lt_Collateral = [], lt_ReferenceInputs = [],
     lt_Outputs = [Some (sample_output assets)], lt_CollateralReturn = None, lt_Fee = Some 170000, lt_TotalCollateral = None,
     lt_AssetMint = None, lt_Withdrawals = withdrawals,
     lt_Witnesses = Some \<lparr>ws_PlutusData = [[7, 7]], ws_Redeemers = Some sample_redeemers\<rparr>,
     lt_Certificates = [], lt_VotingProcedures = [], lt_ProposalProcedures = [], lt_Metadata = None\<rparr>"

definition sample_ledger_block :: "ledger_tx \<Rightarrow> ledger_block" where
  "sample_ledger_block tx = \<lparr>lb_Type = 7, lb_Hash = replicate 32 12, lb_PrevHash = replicate 32 13, lb_Era = ''Conway'',
     lb_SlotNumber = 500, lb_BlockNumber = 40, lb_Transactions = [Some tx]\<rparr>"

definition visited_block :: ledger_block where
  "visited_block = sample_ledger_block (sample_tx sample_assets sample_withdrawals)"

text \<open>The maps visited the other way round.\<close>

definition revisited_block :: ledger_block where
  "revisited_block = sample_ledger_block (sample_tx (map (map_prod id rev) sample_assets) (rev sample_withdrawals))"

text \<open>A library that decodes every block to this one.\<close>

definition sample_lib :: ledger_lib where
  "sample_lib = \<lparr>nl_Blake2b256 = (\<lambda>bs. replicate 32 (of_nat (length bs))), nl_DecodeIdFromList = (\<lambda>_. Inr 0),
     nl_DecodeLegacyRedeemers = (\<lambda>_. Inr ([], 0)),
     nl_CompareRedeemerKeys = then_by (on_key rk_Tag order_compare) (on_key rk_Index order_compare),
     nl_NewBlockFromCbor = (\<lambda>_ _. Inr (Some visited_block)),
     nl_TagSpend = 0, nl_TagMint = 1, nl_TagCert = 2, nl_TagReward = 3, nl_TagVoting = 4, nl_TagProposing = 5,
     nl_CertificateTypeUpdateDrep = 18, nl_GovActionTypeInfo = 6, nl_VoterCommitteeHotScriptHash = 1,
     nl_VoterCommitteeHotKeyHash = 0, nl_VoterDRepScriptHash = 3, nl_VoterDRepKeyHash = 2, nl_VoterStakingPoolKeyHash = 4\<rparr>"

section \<open>Its facts\<close>

definition sample_observation :: "string \<Rightarrow> u32 option \<Rightarrow> datum_observation" where
  "sample_observation kind index = \<lparr>do_Hash = fill32 2, do_TransactionHash = fill32 11, do_TransactionOrder = 0,
     do_SourceKind = kind, do_SourceOrdinal = 0, do_OutputIndex = index\<rparr>"

definition sample_observations :: "datum_observation list" where
  "sample_observations = [sample_observation ''inline_output'' (Some 0), sample_observation ''witness'' None]"

definition sample_withdrawal :: "u32 \<Rightarrow> byte \<Rightarrow> u64 \<Rightarrow> string \<Rightarrow> withdrawal" where
  "sample_withdrawal ordinal b amount kind = \<lparr>wd_TransactionHash = fill32 11, wd_TransactionOrder = 0, wd_BodyOrdinal = ordinal,
     wd_RewardAccount = [b], wd_Lovelace = amount, wd_Applied = True, wd_CredentialKind = Some kind, wd_CredentialHash = Some (fill28 b)\<rparr>"

definition sample_facts :: transaction where
  "sample_facts = \<lparr>tx_Hash = fill32 11, tx_Order = 0, tx_ParentHash = None, tx_SubtransactionIndex = None, tx_Era = ''Conway'',
     tx_Phase2Valid = True, tx_FlowKind = ''regular'', tx_DeclaredFee = Some 170000, tx_EffectiveFee = Some 170000,
     tx_MintApplied = True, tx_Mint = [],
     tx_Inputs = [\<lparr>in_TransactionHash = fill32 11, in_TransactionOrder = 0, in_SourceHash = fill32 10, in_SourceIndex = 3,
       in_BodyOrdinal = 0, in_Role = ''regular'', in_Consumed = True\<rparr>],
     tx_Outputs = [\<lparr>out_TransactionHash = fill32 11, out_TransactionOrder = 0, out_Index = 0, out_BodyOrdinal = 0,
       out_Kind = ''regular'', out_Address = [97, 1], out_PaymentCredentialKind = Some ''key'',
       out_PaymentCredentialHash = Some (fill28 5), out_Lovelace = 1000000,
       out_Assets = [\<lparr>as_PolicyID = fill28 9, as_Name = [1], as_Quantity = 10\<rparr>, \<lparr>as_PolicyID = fill28 9, as_Name = [2], as_Quantity = 20\<rparr>],
       out_DatumKind = ''inline'', out_DatumHash = Some (fill32 2), out_ReferenceScriptHash = None, out_ReferenceScriptLanguage = None\<rparr>],
     tx_Withdrawals = [sample_withdrawal 0 2 80 ''script'', sample_withdrawal 1 1 70 ''key''],
     tx_Redeemers = [\<lparr>rd_TransactionHash = fill32 11, rd_TransactionOrder = 0, rd_RawPurposeTag = 3, rd_Purpose = ''reward'',
       rd_Index = 0, rd_DataCBOR = [1], rd_DataHash = fill32 1, rd_ExUnitsMemory = 100, rd_ExUnitsSteps = 200, rd_Applied = True,
       rd_TargetTxHash = None, rd_TargetOutputIndex = None, rd_TargetPolicyID = None, rd_TargetRewardAccount = Some [2],
       rd_TargetBodyOrdinal = None, rd_TargetIdentity = None, rd_ResolvedScriptHash = Some (fill28 2)\<rparr>],
     tx_Metadata = None, tx_DatumObservations = sample_observations\<rparr>"

definition sample_bundle :: block where
  "sample_bundle = \<lparr>bk_Hash = fill32 12, bk_ParentHash = Some (fill32 13), bk_Slot = 500, bk_Number = 40, bk_Era = ''Conway'',
     bk_Type = 7, bk_Synthetic = False, bk_Transactions = [sample_facts],
     bk_Datums = [\<lparr>db_Hash = fill32 2, db_CBOR = [7, 7], db_Observations = sample_observations\<rparr>], bk_ObservedAt = 0\<rparr>"

section \<open>Evaluation\<close>

lemma make28_replicate: "make28 (replicate 28 b) = fill28 b"
  by (simp add: make28_def fill28_def)

lemma checked_replicate:
  "checked32 field (replicate 32 b) = Inr (fill32 b)" "checked28 field (replicate 28 b) = Inr (fill28 b)"
  by (simp_all add: checked32_def checked28_def make32_replicate make28_replicate)

lemmas sample_simps = checked_replicate uint64Value_def max_u32_def Let_def

lemma sample_tx_inputs:
  "appendInputs (fill32 11) 0 ''regular'' True (lt_Inputs (sample_tx a ws)) = Inr (tx_Inputs sample_facts)"
  by (simp add: appendInputs_def sample_tx_def sample_facts_def sample_simps)

lemma sample_outputs:
  "transaction_outputs sample_lib (fill32 11) 0 (sample_tx sample_assets ws) [] =
     Inr (tx_Outputs sample_facts, [sample_observation ''inline_output'' (Some 0)],
       [(fill32 2, [\<lparr>db_Hash = fill32 2, db_CBOR = [7, 7], db_Observations = [sample_observation ''inline_output'' (Some 0)]\<rparr>])])"
  by (simp add: transaction_outputs_def sample_tx_def sample_output_def outputBundle_def sample_wallet_def assetBundle_def sample_assets_def
      policy_assets_def compare_assets_def bytes_compare_def on_key_def output_datum_def bundleDatumHash_def sample_lib_def collector_add_def
      bodies_of_def paymentCredentialFromAddress_def reference_script_def sample_observation_def sample_facts_def sample_simps)

lemma sample_rewards: "withdrawalBundle (sample_tx a sample_withdrawals) (fill32 11) 0 = Inr (tx_Withdrawals sample_facts)"
  by (simp add: withdrawalBundle_def sample_tx_def sample_withdrawals_def sample_account_def withdrawal_item_of_def withdrawal_credential_def
      compare_withdrawals_def credential_rank_def sample_withdrawal_def sample_facts_def sample_simps)

lemma sample_pointers:
  "redeemerBundle sample_lib (sample_tx a ws) (fill32 11) 0 (tx_Withdrawals sample_facts) = Inr (tx_Redeemers sample_facts)"
  by (simp add: redeemerBundle_def sample_tx_def sample_redeemers_def canonicalRedeemerItems_def assign_all_def redeemer_facts_def
      resolveRedeemer_def resolve_reward_def sample_lib_def sample_withdrawal_def uint64_of_int64_def sample_facts_def sample_simps)

lemma sample_witnesses:
  "witness_datums_from sample_lib (fill32 11) 0 0 (witness_datums (sample_tx a ws))
     [(fill32 2, [\<lparr>db_Hash = fill32 2, db_CBOR = [7, 7], db_Observations = [sample_observation ''inline_output'' (Some 0)]\<rparr>])] =
   Inr ([sample_observation ''witness'' None], [(fill32 2, [\<lparr>db_Hash = fill32 2, db_CBOR = [7, 7], db_Observations = sample_observations\<rparr>])])"
  by (simp add: witness_datums_def sample_tx_def collector_add_def bundleDatumHash_def sample_lib_def bodies_of_def sample_observation_def
      sample_observations_def sample_simps)

lemma sample_sorted: "SortFunc compareDatumObservation sample_observations = sample_observations"
  by (simp add: sample_observations_def sample_observation_def compareDatumObservation_def bytes_compare_def string_bytes_def)

lemma sample_before: "compareDatumObservation (sample_observation ''inline_output'' (Some 0)) (sample_observation ''witness'' None) \<le> 0"
  by (simp add: sample_observation_def compareDatumObservation_def bytes_compare_def string_bytes_def)

lemma sample_transaction:
  "transactionBundle sample_lib (sample_tx sample_assets sample_withdrawals) 0 ''Conway'' [] =
     Inr (sample_facts, [(fill32 2, [\<lparr>db_Hash = fill32 2, db_CBOR = [7, 7], db_Observations = sample_observations\<rparr>])])"
proof -
  let ?tx = "sample_tx sample_assets sample_withdrawals"
  have f: "lt_Hash ?tx = replicate 32 11" "lt_IsValid ?tx" "lt_Collateral ?tx = []" "lt_ReferenceInputs ?tx = []" "lt_AssetMint ?tx = None"
    "length (witness_datums ?tx) = 1" "transaction_fees ?tx = Inr (Some 170000, Some 170000)" "metadataBundle lib ?tx h 0 = Inr None" for lib h
    by (simp_all add: sample_tx_def witness_datums_def transaction_fees_def uint64Value_def metadataBundle_def)
  have o: "[sample_observation ''inline_output'' (Some 0), sample_observation ''witness'' None] = sample_observations"
    by (simp add: sample_observations_def)
  have "appendInputs (fill32 11) 0 ''collateral'' False [] = Inr []" "appendInputs (fill32 11) 0 ''reference'' False [] = Inr []"
    "mintBundle None = Inr []"
    by (simp_all add: appendInputs_def mintBundle_def)
  then show ?thesis
    by (simp add: transactionBundle_def f checked_replicate sample_tx_inputs sample_outputs sample_rewards sample_pointers sample_witnesses o sample_before
        max_u32_def) (simp add: sample_facts_def)
qed

lemma visited_block_facts: "Bundle sample_lib (Some visited_block) = Inr sample_bundle"
proof -
  have "ensureSupportedTransaction (sample_tx a ws) = Inr ()" for a ws by (simp add: ensureSupportedTransaction_def sample_tx_def)
  then show ?thesis
    by (simp add: Bundle_def visited_block_def sample_ledger_block_def parent_hash_def checked_replicate max_u32_def sample_transaction
        collected_datums_def bodies_of_def sample_sorted sample_bundle_def)
qed

lemma sample_decode: "raw \<noteq> [] \<Longrightarrow> Decode sample_lib blockType raw = Inr sample_bundle"
  using visited_block_facts by (simp add: Decode_def sample_lib_def)

lemma sample_ledger_decode: "nl_NewBlockFromCbor sample_lib blockType raw = Inr (Some visited_block)"
  by (simp add: sample_lib_def)

end
