(* ===== verification/Normalize_Facts.thy ===== *)
theory Normalize_Facts
  imports Normalize_Sample Inserts
begin

text \<open>
  What the facts of a block say about it: which inputs are consumed and which outputs exist follows the
  phase-2 validity of the transaction, amounts and hashes are those of the ledger without truncation,
  ordinals count from zero, and every enumerated column has a value of the schema.
\<close>

section \<open>Checked conversions\<close>

lemma checked32_Inr [err_simps]: "checked32 field bs = Inr h \<longleftrightarrow> bs = bytes32 h"
  by (auto simp: checked32_def bytes32_make32)

lemma checked28_Inr [err_simps]: "checked28 field bs = Inr h \<longleftrightarrow> bs = bytes28 h"
  by (auto simp: checked28_def bytes28_make28)

text \<open>A 64-bit value is the ledger's integer.\<close>

lemma uint64Value_Inr [err_simps]: "uint64Value field v = Inr w \<longleftrightarrow> v = Some (uint w)"
proof (cases v)
  case (Some n)
  have "n = uint w" if "0 \<le> n" "n < 2 ^ 64" "word_of_int n = w"
    using that by (auto simp: unsigned_of_int take_bit_int_eq_self)
  moreover have "0 \<le> uint w \<and> uint w < 2 ^ 64" using uint_lt2p [of w] by simp
  ultimately show ?thesis using Some by (auto simp: uint64Value_def not_less)
qed (simp add: uint64Value_def)

lemma unat_of_nat_u32: "n \<le> max_u32 \<Longrightarrow> unat (of_nat n :: u32) = n"
  by (simp add: max_u32_def unat_of_nat)

lemma map_unat_ordinals:
  fixes f :: "'a \<Rightarrow> u32"
  assumes "map f xs = map of_nat [0 ..< n]" and "n \<le> max_u32"
  shows "map (unat \<circ> f) xs = [0 ..< n]"
proof -
  have "map (unat \<circ> f) xs = map unat (map f xs)" by simp
  also have "\<dots> = map unat (map (of_nat :: nat \<Rightarrow> u32) [0 ..< n])" by (simp only: assms(1))
  also have "\<dots> = [0 ..< n]" unfolding map_map using assms(2) by (intro map_idI) (simp add: unat_of_nat_u32)
  finally show ?thesis .
qed

lemma if_Inl_Inr [err_simps]: "(if b then Inl e else m) = Inr y \<longleftrightarrow> \<not> b \<and> m = Inr y"
  by simp

lemma if_unresolved_Inr [err_simps]: "(if b then unresolved what else m) = Inr y \<longleftrightarrow> \<not> b \<and> m = Inr y"
  by (simp add: unresolved_def)

lemma unresolved_Inr [err_simps]: "unresolved what \<noteq> Inr y"
  by (simp add: unresolved_def)

section \<open>Inputs\<close>

definition input_reference :: "tx_input \<Rightarrow> ledger_input option" where
  "input_reference i = Some \<lparr>li_Id = bytes32 (in_SourceHash i), li_Index = in_SourceIndex i\<rparr>"

lemma appendInputs_from_Inr:
  assumes "appendInputs_from n txHash order role consumed ins = Inr rows"
  shows "map input_reference rows = ins \<and> map in_BodyOrdinal rows = map of_nat [n ..< n + length ins] \<and>
    (\<forall>r \<in> set rows. in_Role r = role \<and> in_Consumed r = consumed \<and> in_TransactionHash r = txHash \<and> in_TransactionOrder r = order)"
  using assms
proof (induction ins arbitrary: n rows)
  case (Cons i ins)
  then obtain j h more where j: "i = Some j" "li_Id j = bytes32 h" "appendInputs_from (n + 1) txHash order role consumed ins = Inr more"
    and rows: "rows = \<lparr>in_TransactionHash = txHash, in_TransactionOrder = order, in_SourceHash = h,
      in_SourceIndex = li_Index j, in_BodyOrdinal = of_nat n, in_Role = role, in_Consumed = consumed\<rparr> # more"
    by (auto simp: err_simps split: option.splits)
  from Cons.IH [OF j(3)] j(1,2) show ?case
    by (cases j) (auto simp: rows input_reference_def upt_conv_Cons simp del: upt_Suc)
qed simp

lemma appendInputs_Inr:
  assumes "appendInputs txHash order role consumed ins = Inr rows"
  shows "map input_reference rows = ins \<and> length ins \<le> max_u32 \<and> map (unat \<circ> in_BodyOrdinal) rows = [0 ..< length ins] \<and>
    (\<forall>r \<in> set rows. in_Role r = role \<and> in_Consumed r = consumed \<and> in_TransactionHash r = txHash \<and> in_TransactionOrder r = order)"
proof -
  from assms have le: "length ins \<le> max_u32" and "appendInputs_from 0 txHash order role consumed ins = Inr rows"
    by (auto simp: appendInputs_def split: if_splits)
  from appendInputs_from_Inr [OF this(2)] show ?thesis using le by (simp add: map_unat_ordinals)
qed

lemma filter_consumed:
  assumes "appendInputs txHash order role consumed ins = Inr rows"
  shows "map input_reference (filter in_Consumed rows) = (if consumed then ins else [])"
proof -
  have "filter in_Consumed rows = (if consumed then rows else [])"
    using appendInputs_Inr [OF assms] by (auto simp: filter_empty_conv)
  then show ?thesis using appendInputs_Inr [OF assms] by simp
qed

section \<open>Assets\<close>

definition ma_entries :: "multi_asset option \<Rightarrow> (bytes \<times> bytes \<times> int option) list" where
  "ma_entries m = (case m of None \<Rightarrow> [] | Some entries \<Rightarrow> concat (map (\<lambda>(p, as). map (\<lambda>(n, q). (p, n, q)) as) entries))"

definition asset_entry :: "asset \<Rightarrow> bytes \<times> bytes \<times> int option" where
  "asset_entry a = (bytes28 (as_PolicyID a), as_Name a, Some (uint (as_Quantity a)))"

definition delta_entry :: "asset_delta \<Rightarrow> bytes \<times> bytes \<times> int option" where
  "delta_entry a = (bytes28 (ad_PolicyID a), ad_Name a, Some (ad_Quantity a))"

lemma mapM_map: "mapM f xs = Inr ys \<Longrightarrow> (\<And>x y. f x = Inr y \<Longrightarrow> g y = h x) \<Longrightarrow> map g ys = map h xs"
  by (induction xs arbitrary: ys) (auto simp: err_simps)

lemma policy_assets_Inr: "policy_assets (p, as) = Inr r \<Longrightarrow> map asset_entry r = map (\<lambda>(n, q). (p, n, q)) as"
  by (auto simp: policy_assets_def err_simps asset_entry_def elim!: mapM_map)

lemma policy_deltas_Inr: "policy_deltas (p, as) = Inr r \<Longrightarrow> map delta_entry r = map (\<lambda>(n, q). (p, n, q)) as"
  by (auto simp: policy_deltas_def err_simps delta_entry_def elim!: mapM_map split: option.splits)

text \<open>The rows hold exactly the entries of the multi-asset, in whatever order it lists them.\<close>

lemma assetBundle_entries:
  assumes "assetBundle m = Inr r"
  shows "image_mset asset_entry (mset r) = mset (ma_entries m)"
proof (cases m)
  case (Some entries)
  with assms obtain rs where rs: "mapM policy_assets entries = Inr rs" and r: "mset r = mset (concat rs)"
    by (auto simp: assetBundle_def err_simps)
  have "map (map asset_entry) rs = map (\<lambda>(p, as). map (\<lambda>(n, q). (p, n, q)) as) entries"
    using mapM_map [OF rs] policy_assets_Inr by (metis (no_types, lifting) case_prod_beta prod.collapse)
  then have "map asset_entry (concat rs) = ma_entries m" by (simp add: map_concat Some ma_entries_def)
  then show ?thesis using r by (metis mset_map)
qed (use assms in \<open>simp add: assetBundle_def ma_entries_def\<close>)

lemma mintBundle_entries:
  assumes "mintBundle m = Inr r"
  shows "image_mset delta_entry (mset r) = mset (ma_entries m)"
proof (cases m)
  case (Some entries)
  with assms obtain rs where rs: "mapM policy_deltas entries = Inr rs" and r: "mset r = mset (concat rs)"
    by (auto simp: mintBundle_def err_simps)
  have "map (map delta_entry) rs = map (\<lambda>(p, as). map (\<lambda>(n, q). (p, n, q)) as) entries"
    using mapM_map [OF rs] policy_deltas_Inr by (metis (no_types, lifting) case_prod_beta prod.collapse)
  then have "map delta_entry (concat rs) = ma_entries m" by (simp add: map_concat Some ma_entries_def)
  then show ?thesis using r by (metis mset_map)
qed (use assms in \<open>simp add: mintBundle_def ma_entries_def\<close>)

section \<open>Outputs\<close>

text \<open>The row of an output carries its address, amount and datum hash.\<close>

definition output_matches :: "string \<Rightarrow> ledger_output option \<Rightarrow> tx_output \<Rightarrow> bool" where
  "output_matches kind output row \<longleftrightarrow>
     (case output of
        None \<Rightarrow> False
      | Some o' \<Rightarrow> out_Kind row = kind \<and> lo_Amount o' = Some (uint (out_Lovelace row)) \<and> la_Bytes (lo_Address o') = Inr (out_Address row) \<and>
          image_mset asset_entry (mset (out_Assets row)) = mset (ma_entries (lo_Assets o')) \<and> (out_DatumKind row = ''inline'' \<longleftrightarrow> lo_Datum o' \<noteq> None) \<and>
          (lo_Datum o' = None \<longrightarrow> map_option bytes32 (out_DatumHash row) = lo_DatumHash o'))"

lemma output_datum_Inr:
  assumes "output_datum lib txHash order index ordinal o' datums = Inr (kind, hash, observations, datums')"
  shows "(kind = ''inline'' \<longleftrightarrow> lo_Datum o' \<noteq> None) \<and> (lo_Datum o' = None \<longrightarrow> map_option bytes32 hash = lo_DatumHash o') \<and>
    kind \<in> {''none'', ''hash'', ''inline''} \<and> (\<forall>x \<in> set observations. do_SourceKind x = ''inline_output'')"
  using assms by (auto simp: output_datum_def err_simps Let_def split: option.splits)

lemma outputBundle_Inr:
  assumes "outputBundle lib txHash order index ordinal kind output datums = Inr (row, observations, datums')"
  shows "output_matches kind output row \<and> out_Index row = index \<and> out_BodyOrdinal row = ordinal \<and>
    out_DatumKind row \<in> {''none'', ''hash'', ''inline''} \<and> (\<forall>x \<in> set observations. do_SourceKind x = ''inline_output'')"
  using assms
  by (auto simp: outputBundle_def output_matches_def err_simps split: option.splits sum.splits dest!: output_datum_Inr assetBundle_entries)

lemma outputs_from_Inr:
  assumes "outputs_from lib txHash order n outs datums = Inr (rows, observations, datums')"
  shows "list_all2 (output_matches ''regular'') outs rows \<and> map out_Index rows = map of_nat [n ..< n + length outs] \<and>
    (\<forall>r \<in> set rows. out_DatumKind r \<in> {''none'', ''hash'', ''inline''}) \<and> (\<forall>x \<in> set observations. do_SourceKind x = ''inline_output'')"
  using assms
proof (induction outs arbitrary: n rows observations datums)
  case (Cons out outs)
  then obtain row obs d rows' obs' where o: "outputBundle lib txHash order (of_nat n) (of_nat n) ''regular'' out datums = Inr (row, obs, d)"
    and r: "outputs_from lib txHash order (n + 1) outs d = Inr (rows', obs', datums')"
    and e: "rows = row # rows'" "observations = obs @ obs'"
    by (auto simp: err_simps split: sum.splits)
  from Cons.IH [OF r] outputBundle_Inr [OF o] show ?case
    by (auto simp: e upt_conv_Cons simp del: upt_Suc)
qed simp

lemma transaction_outputs_Inr:
  assumes "transaction_outputs lib txHash order tx datums = Inr (rows, observations, datums')"
  shows "list_all2 (output_matches (if lt_IsValid tx then ''regular'' else ''collateral_return''))
      (if lt_IsValid tx then lt_Outputs tx else map Some (case lt_CollateralReturn tx of None \<Rightarrow> [] | Some x \<Rightarrow> [x])) rows \<and>
    map (unat \<circ> out_Index) rows = (if lt_IsValid tx then [0 ..< length (lt_Outputs tx)]
      else case lt_CollateralReturn tx of None \<Rightarrow> [] | Some x \<Rightarrow> [length (lt_Outputs tx)]) \<and>
    (\<forall>r \<in> set rows. out_DatumKind r \<in> {''none'', ''hash'', ''inline''}) \<and> (\<forall>x \<in> set observations. do_SourceKind x = ''inline_output'')"
proof (cases "lt_IsValid tx")
  case True
  with assms have le: "length (lt_Outputs tx) \<le> max_u32"
    and r: "outputs_from lib txHash order 0 (lt_Outputs tx) datums = Inr (rows, observations, datums')"
    by (auto simp: transaction_outputs_def split: if_splits)
  then show ?thesis using True outputs_from_Inr [OF r] by (simp add: map_unat_ordinals)
next
  case False
  show ?thesis
  proof (cases "lt_CollateralReturn tx")
    case None
    with False assms show ?thesis by (simp add: transaction_outputs_def)
  next
    case (Some out)
    with False assms obtain row where r: "outputBundle lib txHash order (of_nat (length (lt_Outputs tx))) 0 ''collateral_return'' (Some out) datums =
        Inr (row, observations, datums')" "rows = [row]" and le: "length (lt_Outputs tx) \<le> max_u32"
      by (auto simp: transaction_outputs_def split: if_splits sum.splits)
    from outputBundle_Inr [OF r(1)] r(2) le Some False show ?thesis by (simp add: unat_of_nat_u32)
  qed
qed

section \<open>Transactions\<close>

text \<open>What \<^verbatim>\<open>transactionBundle\<close> computed, step by step.\<close>

lemma transactionBundle_Inr:
  assumes "transactionBundle lib tx order era datums = Inr (facts, datums')"
  obtains txHash declared effective regular collateral reference outputs observations d mint withdrawals redeemers metadata witnessed
  where "lt_Hash tx = bytes32 txHash" and "transaction_fees tx = Inr (declared, effective)"
    and "appendInputs txHash order ''regular'' (lt_IsValid tx) (lt_Inputs tx) = Inr regular"
    and "appendInputs txHash order ''collateral'' (\<not> lt_IsValid tx) (lt_Collateral tx) = Inr collateral"
    and "appendInputs txHash order ''reference'' False (lt_ReferenceInputs tx) = Inr reference"
    and "transaction_outputs lib txHash order tx datums = Inr (outputs, observations, d)"
    and "mintBundle (lt_AssetMint tx) = Inr mint" and "withdrawalBundle tx txHash order = Inr withdrawals"
    and "redeemerBundle lib tx txHash order withdrawals = Inr redeemers" and "metadataBundle lib tx txHash order = Inr metadata"
    and "witness_datums_from lib txHash order 0 (witness_datums tx) d = Inr (witnessed, datums')"
    and "facts = \<lparr>tx_Hash = txHash, tx_Order = order, tx_ParentHash = None, tx_SubtransactionIndex = None, tx_Era = era,
             tx_Phase2Valid = lt_IsValid tx, tx_FlowKind = (if lt_IsValid tx then ''regular'' else ''collateral''),
             tx_DeclaredFee = declared, tx_EffectiveFee = effective, tx_MintApplied = lt_IsValid tx, tx_Mint = mint,
             tx_Inputs = regular @ collateral @ reference, tx_Outputs = outputs, tx_Withdrawals = withdrawals,
             tx_Redeemers = redeemers, tx_Metadata = metadata,
             tx_DatumObservations = SortFunc compareDatumObservation (observations @ witnessed)\<rparr>"
    and "length (witness_datums tx) \<le> max_u32"
  using assms unfolding transactionBundle_def
  by (auto simp only: Let_def err_simps prod.case split_paired_Ex not_less sum.inject prod.inject)

section \<open>Withdrawals and redeemers\<close>

definition withdrawal_entry :: "ledger_address option \<times> int option \<Rightarrow> bytes \<times> int option" where
  "withdrawal_entry e = (projr (la_Bytes (the (fst e))), snd e)"

definition withdrawal_kinds :: "string option set" where
  "withdrawal_kinds = {None, Some ''key'', Some ''script''}"

lemma withdrawal_item_of_Inr:
  "withdrawal_item_of e = Inr item \<Longrightarrow> (wi_address item, wi_value item) = withdrawal_entry e \<and> wi_credentialKind item \<in> withdrawal_kinds"
  by (auto simp: withdrawal_item_of_def withdrawal_entry_def withdrawal_credential_def withdrawal_kinds_def
      split: option.splits sum.splits credential_type.splits)

lemma withdrawals_from_Inr:
  assumes "withdrawals_from n tx txHash order items = Inr rows"
  shows "map (\<lambda>w. (wd_RewardAccount w, Some (uint (wd_Lovelace w)))) rows = map (\<lambda>i. (wi_address i, wi_value i)) items \<and>
    map wd_CredentialKind rows = map wi_credentialKind items \<and> (\<forall>w \<in> set rows. wd_Applied w = lt_IsValid tx) \<and>
    map wd_BodyOrdinal rows = map of_nat [n ..< n + length items]"
  using assms
proof (induction items arbitrary: n rows)
  case (Cons item items)
  then obtain amount more where r: "wi_value item = Some (uint amount)" "withdrawals_from (n + 1) tx txHash order items = Inr more"
    and rows: "rows = \<lparr>wd_TransactionHash = txHash, wd_TransactionOrder = order, wd_BodyOrdinal = of_nat n,
             wd_RewardAccount = wi_address item, wd_Lovelace = amount, wd_Applied = lt_IsValid tx,
             wd_CredentialKind = wi_credentialKind item, wd_CredentialHash = wi_credentialHash item\<rparr> # more"
    by (auto simp: err_simps)
  from Cons.IH [OF r(2)] r(1) show ?case by (auto simp: rows upt_conv_Cons simp del: upt_Suc)
qed simp

lemma withdrawalBundle_Inr:
  assumes "withdrawalBundle tx txHash order = Inr rows"
  shows "image_mset (\<lambda>w. (wd_RewardAccount w, Some (uint (wd_Lovelace w)))) (mset rows) = image_mset withdrawal_entry (mset (lt_Withdrawals tx)) \<and>
    (\<forall>w \<in> set rows. wd_Applied w = lt_IsValid tx \<and> wd_CredentialKind w \<in> withdrawal_kinds)"
proof -
  from assms obtain items where items: "mapM withdrawal_item_of (lt_Withdrawals tx) = Inr items"
    and rows: "withdrawals_from 0 tx txHash order (SortFunc compare_withdrawals items) = Inr rows"
    by (auto simp: withdrawalBundle_def err_simps)
  note w = withdrawals_from_Inr [OF rows]
  have "map (\<lambda>i. (wi_address i, wi_value i)) items = map withdrawal_entry (lt_Withdrawals tx)"
    by (rule mapM_map [OF items]) (simp add: withdrawal_item_of_Inr)
  moreover have "mset (map (\<lambda>w. (wd_RewardAccount w, Some (uint (wd_Lovelace w)))) rows) = mset (map (\<lambda>i. (wi_address i, wi_value i)) items)"
    using w by (simp only: mset_map mset_SortFunc)
  moreover have kinds: "wd_CredentialKind v \<in> withdrawal_kinds" if "v \<in> set rows" for v
  proof -
    have "wd_CredentialKind v \<in> set (map wd_CredentialKind rows)" using that by simp
    then have "wd_CredentialKind v \<in> wi_credentialKind ` set items" using w by (simp only: set_map set_SortFunc)
    then obtain i where i: "i \<in> set items" "wd_CredentialKind v = wi_credentialKind i" by blast
    from mapM_set [OF items i(1)] i(2) show ?thesis by (auto dest: withdrawal_item_of_Inr)
  qed
  ultimately have "mset (map (\<lambda>w. (wd_RewardAccount w, Some (uint (wd_Lovelace w)))) rows) = mset (map withdrawal_entry (lt_Withdrawals tx))"
    by (simp only:)
  then have "image_mset (\<lambda>w. (wd_RewardAccount w, Some (uint (wd_Lovelace w)))) (mset rows) = image_mset withdrawal_entry (mset (lt_Withdrawals tx))"
    by (metis mset_map)
  moreover have "\<forall>v \<in> set rows. wd_Applied v = lt_IsValid tx" using w by blast
  ultimately show ?thesis using kinds by blast
qed

definition redeemer_purposes :: "string set" where
  "redeemer_purposes = {''spend'', ''mint'', ''reward'', ''certificate'', ''vote'', ''proposal''}"

lemma resolveRedeemer_purpose:
  "resolveRedeemer lib tx key row ins withdrawals = Inr r \<Longrightarrow> rd_Purpose r \<in> redeemer_purposes \<and> rd_Applied r = rd_Applied row"
proof -
  assume *: "resolveRedeemer lib tx key row ins withdrawals = Inr r"
  consider "resolve_spend key row ins = Inr r" | "resolve_mint tx key row = Inr r" | "resolve_certificate lib tx key row = Inr r"
    | "resolve_reward key row withdrawals = Inr r" | "resolve_vote lib tx key row = Inr r" | "resolve_proposal lib tx key row = Inr r"
    using * by (auto simp only: resolveRedeemer_def split: if_split_asm)
  then show ?thesis
  proof cases
    case 1
    then show ?thesis by (auto simp: resolve_spend_def err_simps redeemer_purposes_def)
  next
    case 2
    then show ?thesis by (auto simp: resolve_mint_def err_simps redeemer_purposes_def Let_def split: option.splits)
  next
    case 3
    then show ?thesis by (auto simp: resolve_certificate_def err_simps redeemer_purposes_def Let_def)
  next
    case 4
    then show ?thesis by (auto simp: resolve_reward_def err_simps redeemer_purposes_def Let_def)
  next
    case 5
    then show ?thesis by (auto simp: resolve_vote_def err_simps redeemer_purposes_def Let_def)
  next
    case 6
    then show ?thesis by (auto simp: resolve_proposal_def err_simps redeemer_purposes_def Let_def)
  qed
qed

lemma redeemerBundle_purposes:
  assumes "redeemerBundle lib tx txHash order withdrawals = Inr rows"
  shows "\<forall>r \<in> set rows. rd_Purpose r \<in> redeemer_purposes \<and> rd_Applied r = lt_IsValid tx"
proof
  fix r
  assume "r \<in> set rows"
  with assms obtain item where "redeemer_facts lib tx txHash order withdrawals item = Inr r"
    by (auto simp: redeemerBundle_def err_simps split: option.splits dest: mapM_set)
  then show "rd_Purpose r \<in> redeemer_purposes \<and> rd_Applied r = lt_IsValid tx"
    by (auto simp: redeemer_facts_def Let_def err_simps dest!: resolveRedeemer_purpose)
qed

section \<open>Blocks\<close>

lemma transactions_from_Inr:
  assumes "transactions_from lib n era txs datums = Inr (rows, datums')"
  shows "list_all2 (\<lambda>tx facts. \<exists>t d d'. tx = Some t \<and> transactionBundle lib t (tx_Order facts) era d = Inr (facts, d')) txs rows \<and>
    map tx_Order rows = map of_nat [n ..< n + length txs]"
  using assms
proof (induction txs arbitrary: n rows datums)
  case (Cons tx txs)
  then obtain t facts d rows' where t: "tx = Some t" "transactionBundle lib t (of_nat n) era datums = Inr (facts, d)"
    and r: "transactions_from lib (n + 1) era txs d = Inr (rows', datums')" and rows: "rows = facts # rows'"
    by (auto simp: err_simps split: option.splits sum.splits)
  have "tx_Order facts = of_nat n" using t(2) by (rule transactionBundle_Inr) simp
  with Cons.IH [OF r] t show ?case by (auto simp: rows upt_conv_Cons simp del: upt_Suc)
qed simp

lemma Bundle_Inr:
  assumes "Bundle lib (Some blk) = Inr b"
  obtains datums where "transactions_from lib 0 (lb_Era blk) (lb_Transactions blk) [] = Inr (bk_Transactions b, datums)"
    and "bk_Datums b = collected_datums datums" and "length (lb_Transactions blk) \<le> max_u32"
    and "lb_Hash blk = bytes32 (bk_Hash b)" and "bk_Slot b = lb_SlotNumber blk" and "bk_Number b = lb_BlockNumber blk"
    and "bk_Type b = lb_Type blk" and "bk_Era b = lb_Era blk"
  using assms by (auto simp: Bundle_def err_simps)

lemma Bundle_transactions:
  assumes "Bundle lib (Some blk) = Inr b"
  shows "list_all2 (\<lambda>tx facts. \<exists>t d d'. tx = Some t \<and> transactionBundle lib t (tx_Order facts) (lb_Era blk) d = Inr (facts, d'))
      (lb_Transactions blk) (bk_Transactions b) \<and>
    map (unat \<circ> tx_Order) (bk_Transactions b) = [0 ..< length (lb_Transactions blk)]"
  using assms
proof (rule Bundle_Inr)
  fix datums
  assume r: "transactions_from lib 0 (lb_Era blk) (lb_Transactions blk) [] = Inr (bk_Transactions b, datums)"
    and le: "length (lb_Transactions blk) \<le> max_u32"
  then show ?thesis using transactions_from_Inr [OF r] by (simp add: map_unat_ordinals)
qed

text \<open>The facts of a transaction are those of the ledger transaction.\<close>

definition projects :: "ledger_tx \<Rightarrow> transaction \<Rightarrow> bool" where
  "projects t facts \<longleftrightarrow>
     lt_Hash t = bytes32 (tx_Hash facts) \<and> tx_Phase2Valid facts = lt_IsValid t \<and> tx_MintApplied facts = lt_IsValid t \<and>
     map input_reference (tx_Inputs facts) = lt_Inputs t @ lt_Collateral t @ lt_ReferenceInputs t \<and>
     map input_reference (filter in_Consumed (tx_Inputs facts)) = (if lt_IsValid t then lt_Inputs t else lt_Collateral t) \<and>
     list_all2 (output_matches (if lt_IsValid t then ''regular'' else ''collateral_return''))
       (if lt_IsValid t then lt_Outputs t else map Some (case lt_CollateralReturn t of None \<Rightarrow> [] | Some x \<Rightarrow> [x])) (tx_Outputs facts) \<and>
     map (unat \<circ> out_Index) (tx_Outputs facts) = (if lt_IsValid t then [0 ..< length (lt_Outputs t)]
       else case lt_CollateralReturn t of None \<Rightarrow> [] | Some x \<Rightarrow> [length (lt_Outputs t)]) \<and>
     image_mset delta_entry (mset (tx_Mint facts)) = mset (ma_entries (lt_AssetMint t)) \<and>
     image_mset (\<lambda>w. (wd_RewardAccount w, Some (uint (wd_Lovelace w)))) (mset (tx_Withdrawals facts)) =
       image_mset withdrawal_entry (mset (lt_Withdrawals t)) \<and>
     (lt_Type t \<noteq> TxTypeByron \<longrightarrow> map_option uint (tx_DeclaredFee facts) = lt_Fee t) \<and>
     (lt_Type t \<noteq> TxTypeByron \<longrightarrow> lt_IsValid t \<longrightarrow> tx_EffectiveFee facts = tx_DeclaredFee facts)"

lemma transaction_fees_Inr:
  assumes "transaction_fees t = Inr (declared, effective)" and "lt_Type t \<noteq> TxTypeByron"
  shows "map_option uint declared = lt_Fee t \<and> (lt_IsValid t \<longrightarrow> effective = declared)"
  using assms by (auto simp: transaction_fees_def err_simps split: if_splits option.splits)

lemma transactionBundle_projects:
  assumes "transactionBundle lib t order era datums = Inr (facts, datums')"
  shows "projects t facts"
  using assms
proof (rule transactionBundle_Inr)
  fix txHash declared effective regular collateral reference outputs observations d mint withdrawals redeemers metadata witnessed
  assume h: "lt_Hash t = bytes32 txHash" and fee: "transaction_fees t = Inr (declared, effective)"
    and r: "appendInputs txHash order ''regular'' (lt_IsValid t) (lt_Inputs t) = Inr regular"
    and c: "appendInputs txHash order ''collateral'' (\<not> lt_IsValid t) (lt_Collateral t) = Inr collateral"
    and f: "appendInputs txHash order ''reference'' False (lt_ReferenceInputs t) = Inr reference"
    and o: "transaction_outputs lib txHash order t datums = Inr (outputs, observations, d)"
    and m: "mintBundle (lt_AssetMint t) = Inr mint" and w: "withdrawalBundle t txHash order = Inr withdrawals"
    and facts: "facts = \<lparr>tx_Hash = txHash, tx_Order = order, tx_ParentHash = None, tx_SubtransactionIndex = None, tx_Era = era,
             tx_Phase2Valid = lt_IsValid t, tx_FlowKind = (if lt_IsValid t then ''regular'' else ''collateral''),
             tx_DeclaredFee = declared, tx_EffectiveFee = effective, tx_MintApplied = lt_IsValid t, tx_Mint = mint,
             tx_Inputs = regular @ collateral @ reference, tx_Outputs = outputs, tx_Withdrawals = withdrawals,
             tx_Redeemers = redeemers, tx_Metadata = metadata,
             tx_DatumObservations = SortFunc compareDatumObservation (observations @ witnessed)\<rparr>"
  show ?thesis
    unfolding projects_def
    using h transaction_fees_Inr [OF fee] appendInputs_Inr [OF r] appendInputs_Inr [OF c] appendInputs_Inr [OF f]
      filter_consumed [OF r] filter_consumed [OF c] filter_consumed [OF f] transaction_outputs_Inr [OF o]
      mintBundle_entries [OF m] withdrawalBundle_Inr [OF w]
    by (simp add: facts)
qed

definition projects_block :: "ledger_block \<Rightarrow> block \<Rightarrow> bool" where
  "projects_block blk b \<longleftrightarrow>
     list_all2 (\<lambda>tx facts. \<exists>t. tx = Some t \<and> projects t facts) (lb_Transactions blk) (bk_Transactions b) \<and>
     map (unat \<circ> tx_Order) (bk_Transactions b) = [0 ..< length (lb_Transactions blk)] \<and>
     lb_Hash blk = bytes32 (bk_Hash b) \<and> bk_Slot b = lb_SlotNumber blk \<and> bk_Number b = lb_BlockNumber blk \<and> bk_Type b = lb_Type blk"

lemma Bundle_projects:
  assumes "Bundle lib (Some blk) = Inr b"
  shows "projects_block blk b"
proof -
  have "list_all2 (\<lambda>tx facts. \<exists>t. tx = Some t \<and> projects t facts) (lb_Transactions blk) (bk_Transactions b)"
    using Bundle_transactions [OF assms] transactionBundle_projects by (auto elim!: list_all2_mono)
  then show ?thesis using Bundle_transactions [OF assms] assms by (auto simp: projects_block_def elim!: Bundle_Inr)
qed

lemma Decode_Inr:
  assumes "Decode lib blockType raw = Inr b"
  obtains blk where "raw \<noteq> []" "nl_NewBlockFromCbor lib blockType raw = Inr (Some blk)" "Bundle lib (Some blk) = Inr b"
  using assms by (auto simp: Decode_def Bundle_def split: if_splits sum.splits option.splits)

text \<open>
  C4. The facts of a block decoded from its bytes are the block: one row per transaction in order, with the
  inputs and outputs that take effect under its phase-2 validity (regular ones, or the collateral with its
  return at the index after the outputs), and every address, amount, fee, asset, minted quantity and
  withdrawal exactly as in the ledger transaction, without truncation.
\<close>

theorem facts_project_block:
  assumes "Decode lib blockType raw = Inr b"
  shows "\<exists>blk. nl_NewBlockFromCbor lib blockType raw = Inr (Some blk) \<and> projects_block blk b"
  using assms by (rule Decode_Inr) (auto dest: Bundle_projects)

theorem facts_project_block_witness:
  "projects_block visited_block sample_bundle \<and> map in_Consumed (tx_Inputs sample_facts) = [True]"
  using facts_project_block [OF sample_decode, of "[1]" 5] by (simp add: sample_lib_def sample_facts_def)

section \<open>The enumerations of the schema\<close>

text \<open>The values of the \<^verbatim>\<open>Enum8\<close> columns of \<^verbatim>\<open>001_initial.sql\<close>.\<close>

definition schema_values :: "transaction \<Rightarrow> bool" where
  "schema_values t \<longleftrightarrow> tx_FlowKind t \<in> {''regular'', ''collateral'', ''genesis''} \<and>
     (\<forall>i \<in> set (tx_Inputs t). in_Role i \<in> {''regular'', ''collateral'', ''reference''}) \<and>
     (\<forall>o' \<in> set (tx_Outputs t). out_Kind o' \<in> {''regular'', ''collateral_return'', ''genesis''} \<and>
        out_PaymentCredentialKind o' \<in> {None, Some ''none'', Some ''key'', Some ''script''} \<and>
        out_DatumKind o' \<in> {''none'', ''hash'', ''inline''}) \<and>
     (\<forall>x \<in> set (tx_DatumObservations t). do_SourceKind x \<in> {''inline_output'', ''witness''}) \<and>
     (\<forall>w \<in> set (tx_Withdrawals t). wd_CredentialKind w \<in> {None, Some ''key'', Some ''script''}) \<and>
     (\<forall>r \<in> set (tx_Redeemers t). rd_Purpose r \<in> {''spend'', ''mint'', ''reward'', ''certificate'', ''vote'', ''proposal''})"

lemma payment_kinds: "fst (paymentCredentialFromAddress a) \<in> {None, Some ''none'', Some ''key'', Some ''script''}"
  by (auto simp: paymentCredentialFromAddress_def Let_def split: option.splits address_type.splits sum.splits)

lemma outputBundle_kinds:
  assumes "outputBundle lib txHash order index ordinal kind output datums = Inr (row, observations, datums')"
  shows "out_PaymentCredentialKind row \<in> {None, Some ''none'', Some ''key'', Some ''script''}"
proof -
  have "\<exists>a. out_PaymentCredentialKind row = fst (paymentCredentialFromAddress a)"
    using assms by (auto simp: outputBundle_def err_simps split: option.splits sum.splits)
  then show ?thesis using payment_kinds by metis
qed

lemma outputs_from_kinds:
  "outputs_from lib txHash order n outs datums = Inr (rows, observations, datums') \<Longrightarrow> row \<in> set rows \<Longrightarrow>
     out_PaymentCredentialKind row \<in> {None, Some ''none'', Some ''key'', Some ''script''}"
proof (induction outs arbitrary: n rows observations datums)
  case (Cons out outs)
  then obtain first obs d rows' obs' where o: "outputBundle lib txHash order (of_nat n) (of_nat n) ''regular'' out datums = Inr (first, obs, d)"
    and r: "outputs_from lib txHash order (n + 1) outs d = Inr (rows', obs', datums')" and e: "rows = first # rows'"
    by (auto simp: err_simps split: sum.splits)
  from Cons.prems(2) show ?case using Cons.IH [OF r] outputBundle_kinds [OF o] by (auto simp: e)
qed simp

lemma transaction_outputs_kinds:
  assumes "transaction_outputs lib txHash order tx datums = Inr (rows, observations, datums')" and "row \<in> set rows"
  shows "out_PaymentCredentialKind row \<in> {None, Some ''none'', Some ''key'', Some ''script''}"
proof (cases "lt_IsValid tx")
  case True
  with assms show ?thesis by (auto simp: transaction_outputs_def err_simps dest: outputs_from_kinds)
next
  case False
  with assms obtain out where "outputBundle lib txHash order (of_nat (length (lt_Outputs tx))) 0 ''collateral_return'' (Some out) datums =
      Inr (row, observations, datums')"
    by (auto simp: transaction_outputs_def split: option.splits if_splits sum.splits)
  then show ?thesis by (rule outputBundle_kinds)
qed

lemma witness_datums_Cons:
  assumes "witness_datums_from lib txHash order n (body # bodies) datums = Inr (obs, datums')"
  obtains hash d more where
    "collector_add lib body \<lparr>do_Hash = zero32, do_TransactionHash = txHash, do_TransactionOrder = order, do_SourceKind = ''witness'',
       do_SourceOrdinal = of_nat n, do_OutputIndex = None\<rparr> datums = Inr (hash, d)"
    and "witness_datums_from lib txHash order (n + 1) bodies d = Inr (more, datums')"
    and "obs = \<lparr>do_Hash = hash, do_TransactionHash = txHash, do_TransactionOrder = order, do_SourceKind = ''witness'',
       do_SourceOrdinal = of_nat n, do_OutputIndex = None\<rparr> # more"
  using assms by (auto simp: err_simps Let_def split: sum.splits)

lemma witness_datums_kinds:
  "witness_datums_from lib txHash order n bodies datums = Inr (obs, datums') \<Longrightarrow> \<forall>x \<in> set obs. do_SourceKind x = ''witness''"
proof (induction bodies arbitrary: n datums obs)
  case (Cons body bodies)
  from Cons.prems show ?case by (rule witness_datums_Cons) (auto dest: Cons.IH)
qed simp

lemma list_all2_right: "list_all2 P xs ys \<Longrightarrow> y \<in> set ys \<Longrightarrow> \<exists>x \<in> set xs. P x y"
  by (induction rule: list_all2_induct) auto

lemma transactionBundle_schema:
  assumes "transactionBundle lib t order era datums = Inr (facts, datums')"
  shows "schema_values facts"
  using assms
proof (rule transactionBundle_Inr)
  fix txHash declared effective regular collateral reference outputs observations d mint withdrawals redeemers metadata witnessed
  assume r: "appendInputs txHash order ''regular'' (lt_IsValid t) (lt_Inputs t) = Inr regular"
    and c: "appendInputs txHash order ''collateral'' (\<not> lt_IsValid t) (lt_Collateral t) = Inr collateral"
    and f: "appendInputs txHash order ''reference'' False (lt_ReferenceInputs t) = Inr reference"
    and o: "transaction_outputs lib txHash order t datums = Inr (outputs, observations, d)"
    and w: "withdrawalBundle t txHash order = Inr withdrawals" and rd: "redeemerBundle lib t txHash order withdrawals = Inr redeemers"
    and wd: "witness_datums_from lib txHash order 0 (witness_datums t) d = Inr (witnessed, datums')"
    and facts: "facts = \<lparr>tx_Hash = txHash, tx_Order = order, tx_ParentHash = None, tx_SubtransactionIndex = None, tx_Era = era,
             tx_Phase2Valid = lt_IsValid t, tx_FlowKind = (if lt_IsValid t then ''regular'' else ''collateral''),
             tx_DeclaredFee = declared, tx_EffectiveFee = effective, tx_MintApplied = lt_IsValid t, tx_Mint = mint,
             tx_Inputs = regular @ collateral @ reference, tx_Outputs = outputs, tx_Withdrawals = withdrawals,
             tx_Redeemers = redeemers, tx_Metadata = metadata,
             tx_DatumObservations = SortFunc compareDatumObservation (observations @ witnessed)\<rparr>"
  note O = transaction_outputs_Inr [OF o]
  have outs: "\<forall>o' \<in> set outputs. out_Kind o' \<in> {''regular'', ''collateral_return''} \<and> out_DatumKind o' \<in> {''none'', ''hash'', ''inline''}"
  proof
    fix o'
    assume "o' \<in> set outputs"
    from list_all2_right [OF O [THEN conjunct1] this] O this
    show "out_Kind o' \<in> {''regular'', ''collateral_return''} \<and> out_DatumKind o' \<in> {''none'', ''hash'', ''inline''}"
      by (auto simp: output_matches_def split: option.splits if_splits)
  qed
  show ?thesis
    unfolding schema_values_def
  proof (intro conjI ballI)
    fix i
    assume "i \<in> set (tx_Inputs facts)"
    then show "in_Role i \<in> {''regular'', ''collateral'', ''reference''}"
      using appendInputs_Inr [OF r] appendInputs_Inr [OF c] appendInputs_Inr [OF f] by (auto simp: facts)
  next
    fix x
    assume "x \<in> set (tx_DatumObservations facts)"
    then show "do_SourceKind x \<in> {''inline_output'', ''witness''}" using O witness_datums_kinds [OF wd] by (auto simp: facts)
  next
    fix v
    assume "v \<in> set (tx_Withdrawals facts)"
    then show "wd_CredentialKind v \<in> {None, Some ''key'', Some ''script''}"
      using withdrawalBundle_Inr [OF w] by (auto simp: facts withdrawal_kinds_def)
  next
    fix v
    assume "v \<in> set (tx_Redeemers facts)"
    then show "rd_Purpose v \<in> {''spend'', ''mint'', ''reward'', ''certificate'', ''vote'', ''proposal''}"
      using redeemerBundle_purposes [OF rd] by (auto simp: facts redeemer_purposes_def)
  qed (use outs transaction_outputs_kinds [OF o] in \<open>auto simp: facts\<close>)
qed

lemma count_roles_Inr:
  "\<forall>i \<in> set ins. in_Role i \<in> {''regular'', ''collateral'', ''reference''} \<Longrightarrow> \<exists>counts. count_roles ins acc = Inr counts"
  by (induction ins acc rule: count_roles.induct) auto

lemma mapM_total: "(\<And>x. x \<in> set xs \<Longrightarrow> \<exists>y. f x = Inr y) \<Longrightarrow> \<exists>ys. mapM f xs = Inr ys"
proof (induction xs)
  case (Cons x xs)
  then obtain y ys where "f x = Inr y" "mapM f xs = Inr ys" by (meson list.set_intros)
  then show ?case by simp
qed simp

text \<open>
  C7. Every enumerated column of the facts of a decoded block has a value of the schema's enumeration,
  so the store's own encoding of transactions never refuses a batch of decoded blocks.
\<close>

theorem facts_fit_schema:
  assumes "\<forall>p \<in> set pubs. \<exists>blk. Bundle lib (Some blk) = Inr ((pb_Block p)\<lparr>bk_ObservedAt := 0\<rparr>)"
  shows "(\<forall>p \<in> set pubs. \<forall>t \<in> set (bk_Transactions (pb_Block p)). schema_values t) \<and> (\<exists>rows. insertTransactions pubs = Inr rows)"
proof -
  have s: "schema_values t" if "p \<in> set pubs" "t \<in> set (bk_Transactions (pb_Block p))" for p t
  proof -
    from assms that(1) obtain blk where "Bundle lib (Some blk) = Inr ((pb_Block p)\<lparr>bk_ObservedAt := 0\<rparr>)" by blast
    from list_all2_right [OF Bundle_transactions [OF this, THEN conjunct1], of t] that(2)
    show ?thesis by (auto dest: transactionBundle_schema)
  qed
  have "\<exists>row. transaction_row p t = Inr row" if "p \<in> set pubs" "t \<in> set (bk_Transactions (pb_Block p))" for p t
  proof -
    have "\<exists>counts. count_roles (tx_Inputs t) (0, 0, 0) = Inr counts"
      by (rule count_roles_Inr) (use s [OF that] in \<open>simp add: schema_values_def\<close>)
    then show ?thesis by (auto simp: transaction_row_def)
  qed
  then have "\<exists>rows. mapM (\<lambda>(item, t). transaction_row item t)
      (concat (map (\<lambda>item. map (Pair item) (bk_Transactions (pb_Block item))) pubs)) = Inr rows"
    by (intro mapM_total) auto
  then have "\<exists>rows. insertTransactions pubs = Inr rows" by (auto simp: insertTransactions_def)
  with s show ?thesis by blast
qed

definition sample_publication :: publication where
  "sample_publication = \<lparr>pb_PublicationID = 1, pb_EventSeq = 1, pb_Block = sample_bundle\<lparr>bk_ObservedAt := 9\<rparr>,
     pb_Counts = \<lparr>fc_transactions = 1, fc_inputs = 1, fc_outputs = 1, fc_datumObservations = 2, fc_withdrawals = 2,
       fc_redeemers = 1, fc_metadata = 0\<rparr>,
     pb_ContentHash = zero32, pb_Relays = [], pb_WriterID = 1, pb_InsertedAt = 9\<rparr>"

theorem facts_fit_schema_witness:
  "schema_values sample_facts \<and> (\<exists>rows. insertTransactions [sample_publication] = Inr rows)"
proof -
  have "Bundle sample_lib (Some visited_block) = Inr ((pb_Block sample_publication)\<lparr>bk_ObservedAt := 0\<rparr>)"
    using visited_block_facts by (simp add: sample_publication_def sample_bundle_def)
  then have "\<forall>p \<in> set [sample_publication]. \<exists>blk. Bundle sample_lib (Some blk) = Inr ((pb_Block p)\<lparr>bk_ObservedAt := 0\<rparr>)" by auto
  from facts_fit_schema [OF this] show ?thesis by (simp add: sample_publication_def sample_bundle_def)
qed

end
