(* ===== verification/Normalize_Datums.thy ===== *)
theory Normalize_Datums
  imports Normalize_Facts
begin

text \<open>
  The datums of a block: the collector keeps every observation exactly once, under the body that was
  seen and the hash of that body.
\<close>

section \<open>The collector\<close>

definition observations :: "datum_body list \<Rightarrow> datum_observation multiset" where
  "observations bodies = (\<Sum>b \<leftarrow> bodies. mset (db_Observations b))"

definition collected :: "collector \<Rightarrow> datum_observation multiset" where
  "collected datums = (\<Sum>(h, bodies) \<leftarrow> datums. observations bodies)"

definition body_ok :: "ledger_lib \<Rightarrow> hash32 \<Rightarrow> datum_body \<Rightarrow> bool" where
  "body_ok lib h b \<longleftrightarrow> db_Hash b = h \<and> nl_Blake2b256 lib (db_CBOR b) = bytes32 h \<and> db_Observations b \<noteq> [] \<and>
     (\<forall>x \<in> set (db_Observations b). do_Hash x = h)"

definition collector_ok :: "ledger_lib \<Rightarrow> collector \<Rightarrow> bool" where
  "collector_ok lib datums \<longleftrightarrow> distinct (map fst datums) \<and>
     (\<forall>(h, bodies) \<in> set datums. distinct (map db_CBOR bodies) \<and> (\<forall>b \<in> set bodies. body_ok lib h b))"

lemma observations_simps [simp]:
  "observations [] = {#}" "observations (b # bs) = mset (db_Observations b) + observations bs"
  by (simp_all add: observations_def)

lemma collected_simps [simp]: "collected [] = {#}" "collected ((h, bs) # d) = observations bs + collected d"
  by (simp_all add: collected_def)

lemma observations_observe_body: "observations (observe_body h body x bs) = add_mset x (observations bs)"
  by (induction bs) auto

lemma collected_update:
  "collected (AList.update h bs d) + observations (bodies_of d h) = collected d + observations bs"
proof (induction d)
  case (Cons kv d)
  then show ?case by (cases kv) (auto simp: bodies_of_def add_ac)
qed (simp add: bodies_of_def)

lemma set_observe_body: "db_CBOR ` set (observe_body h body x bs) = insert body (db_CBOR ` set bs)"
  by (induction bs) auto

lemma distinct_observe_body: "distinct (map db_CBOR bs) \<Longrightarrow> distinct (map db_CBOR (observe_body h body x bs))"
proof (induction bs)
  case (Cons b bs)
  then show ?case
    using set_observe_body [of h body x bs] by auto
qed simp

lemma observe_body_ok:
  assumes "\<forall>b \<in> set bs. body_ok lib h b" and "nl_Blake2b256 lib body = bytes32 h" and "do_Hash x = h"
  shows "\<forall>b \<in> set (observe_body h body x bs). body_ok lib h b"
  using assms(1)
proof (induction bs)
  case Nil
  show ?case using assms(2,3) by (simp add: body_ok_def)
next
  case (Cons b bs)
  have "body_ok lib h (b\<lparr>db_Observations := db_Observations b @ [x]\<rparr>)"
    using Cons.prems assms(3) by (simp add: body_ok_def ball_Un)
  with Cons show ?case by simp
qed

lemma bodies_of_ok:
  assumes "collector_ok lib d"
  shows "distinct (map db_CBOR (bodies_of d h)) \<and> (\<forall>b \<in> set (bodies_of d h). body_ok lib h b)"
proof (cases "map_of d h")
  case (Some bodies)
  then have "(h, bodies) \<in> set d" by (rule map_of_SomeD)
  from bspec [OF conjunct2 [OF assms [unfolded collector_ok_def]] this] Some show ?thesis by (simp add: bodies_of_def)
qed (simp add: bodies_of_def)

lemma bundleDatumHash_Inr: "bundleDatumHash lib body = Inr h \<Longrightarrow> nl_Blake2b256 lib body = bytes32 h"
  by (auto simp: bundleDatumHash_def err_simps)

lemma set_update_distinct:
  "distinct (map fst d) \<Longrightarrow> (k, v) \<in> set (AList.update h bs d) \<Longrightarrow> k = h \<and> v = bs \<or> (k, v) \<in> set d"
  by (induction d) (auto split: if_splits)

lemma collector_add_Inr:
  assumes "collector_add lib body x datums = Inr (h, datums')" and "collector_ok lib datums"
  shows "collector_ok lib datums' \<and> collected datums' = add_mset (x\<lparr>do_Hash := h\<rparr>) (collected datums) \<and> nl_Blake2b256 lib body = bytes32 h"
proof -
  let ?bs = "observe_body h body (x\<lparr>do_Hash := h\<rparr>) (bodies_of datums h)"
  from assms(1) have h: "nl_Blake2b256 lib body = bytes32 h" and d: "datums' = AList.update h ?bs datums"
    by (auto simp: collector_add_def err_simps dest: bundleDatumHash_Inr)
  have bs: "distinct (map db_CBOR ?bs)" "\<forall>b \<in> set ?bs. body_ok lib h b"
    using distinct_observe_body bodies_of_ok [OF assms(2), of h] observe_body_ok [OF _ h, of "bodies_of datums h" "x\<lparr>do_Hash := h\<rparr>"] by simp_all
  have dist: "distinct (map fst datums)" using assms(2) by (simp add: collector_ok_def)
  have "collector_ok lib datums'"
    unfolding collector_ok_def
  proof (intro conjI ballI)
    show "distinct (map fst datums')" using dist by (simp add: d distinct_update)
    fix kv
    assume "kv \<in> set datums'"
    then show "case kv of (h, bodies) \<Rightarrow> distinct (map db_CBOR bodies) \<and> (\<forall>b \<in> set bodies. body_ok lib h b)"
      using set_update_distinct [OF dist, of "fst kv" "snd kv" h ?bs] bs assms(2) by (auto simp: d collector_ok_def)
  qed
  moreover have "collected datums' + observations (bodies_of datums h) =
      add_mset (x\<lparr>do_Hash := h\<rparr>) (collected datums) + observations (bodies_of datums h)"
    using collected_update [of h ?bs datums] by (simp add: d observations_observe_body)
  ultimately show ?thesis using h by simp
qed

section \<open>Transactions add what they observe\<close>

definition adds :: "ledger_lib \<Rightarrow> collector \<Rightarrow> datum_observation list \<Rightarrow> collector \<Rightarrow> bool" where
  "adds lib d obs d' \<longleftrightarrow> (collector_ok lib d \<longrightarrow> collector_ok lib d' \<and> collected d' = collected d + mset obs)"

lemma adds_refl: "adds lib d [] d"
  by (simp add: adds_def)

lemma adds_append: "adds lib d obs d' \<Longrightarrow> adds lib d' obs' d'' \<Longrightarrow> adds lib d (obs @ obs') d''"
  by (auto simp: adds_def)

lemma adds_one: "collector_add lib body x d = Inr (h, d') \<Longrightarrow> adds lib d [x\<lparr>do_Hash := h\<rparr>] d'"
  using collector_add_Inr [of lib body x d h d'] by (auto simp: adds_def)

lemma collector_add_hash: "collector_add lib body x d = Inr (h, d') \<Longrightarrow> bundleDatumHash lib body = Inr h"
  by (auto simp: collector_add_def err_simps)

lemma output_datum_adds:
  assumes "output_datum lib txHash order index ordinal o' d = Inr (kind, hash, obs, d')"
  shows "adds lib d obs d'"
proof (cases "lo_Datum o'")
  case (Some datum)
  with assms obtain h g where h: "bundleDatumHash lib datum = Inr h"
    and obs: "obs = [\<lparr>do_Hash = h, do_TransactionHash = txHash, do_TransactionOrder = order, do_SourceKind = ''inline_output'',
      do_SourceOrdinal = ordinal, do_OutputIndex = Some index\<rparr>]"
    and a: "collector_add lib datum (hd obs) d = Inr (g, d')"
    by (auto simp: output_datum_def err_simps Let_def)
  have "g = h" using collector_add_hash [OF a] h by simp
  with adds_one [OF a] show ?thesis by (simp add: obs)
next
  case None
  with assms show ?thesis by (auto simp: output_datum_def err_simps adds_refl split: option.splits)
qed

lemma outputBundle_adds:
  assumes "outputBundle lib txHash order index ordinal kind output d = Inr (row, obs, d')"
  shows "adds lib d obs d'"
  using assms by (auto simp: outputBundle_def err_simps split: option.splits sum.splits dest: output_datum_adds)

lemma outputs_from_adds: "outputs_from lib txHash order n outs d = Inr (rows, obs, d') \<Longrightarrow> adds lib d obs d'"
proof (induction outs arbitrary: n rows obs d)
  case (Cons out outs)
  then obtain row ob e rows' obs' where "outputBundle lib txHash order (of_nat n) (of_nat n) ''regular'' out d = Inr (row, ob, e)"
    and "outputs_from lib txHash order (n + 1) outs e = Inr (rows', obs', d')" and "obs = ob @ obs'"
    by (auto simp: err_simps split: sum.splits)
  then show ?case using adds_append [OF outputBundle_adds Cons.IH] by simp
qed (simp add: adds_refl)

lemma transaction_outputs_adds:
  assumes "transaction_outputs lib txHash order tx d = Inr (rows, obs, d')"
  shows "adds lib d obs d'"
  using assms
  by (auto simp: transaction_outputs_def split: if_splits option.splits sum.splits dest: outputs_from_adds outputBundle_adds intro: adds_refl)

lemma witness_datums_adds: "witness_datums_from lib txHash order n bodies d = Inr (obs, d') \<Longrightarrow> adds lib d obs d'"
proof (induction bodies arbitrary: n d obs)
  case (Cons body bodies)
  from Cons.prems show ?case
  proof (rule witness_datums_Cons)
    fix hash e more
    assume a: "collector_add lib body \<lparr>do_Hash = zero32, do_TransactionHash = txHash, do_TransactionOrder = order, do_SourceKind = ''witness'',
       do_SourceOrdinal = of_nat n, do_OutputIndex = None\<rparr> d = Inr (hash, e)"
      and m: "witness_datums_from lib txHash order (n + 1) bodies e = Inr (more, d')"
      and o: "obs = \<lparr>do_Hash = hash, do_TransactionHash = txHash, do_TransactionOrder = order, do_SourceKind = ''witness'',
       do_SourceOrdinal = of_nat n, do_OutputIndex = None\<rparr> # more"
    from adds_append [OF adds_one [OF a] Cons.IH [OF m]] show ?thesis by (simp add: o)
  qed
qed (simp add: adds_refl)

lemma transactionBundle_adds:
  assumes "transactionBundle lib t order era d = Inr (facts, d')"
  shows "adds lib d (tx_DatumObservations facts) d'"
  using assms
proof (rule transactionBundle_Inr)
  fix txHash declared effective regular collateral reference outputs observations e mint withdrawals redeemers metadata witnessed
  assume "transaction_outputs lib txHash order t d = Inr (outputs, observations, e)"
    and "witness_datums_from lib txHash order 0 (witness_datums t) e = Inr (witnessed, d')"
    and facts: "facts = \<lparr>tx_Hash = txHash, tx_Order = order, tx_ParentHash = None, tx_SubtransactionIndex = None, tx_Era = era,
             tx_Phase2Valid = lt_IsValid t, tx_FlowKind = (if lt_IsValid t then ''regular'' else ''collateral''),
             tx_DeclaredFee = declared, tx_EffectiveFee = effective, tx_MintApplied = lt_IsValid t, tx_Mint = mint,
             tx_Inputs = regular @ collateral @ reference, tx_Outputs = outputs, tx_Withdrawals = withdrawals,
             tx_Redeemers = redeemers, tx_Metadata = metadata,
             tx_DatumObservations = SortFunc compareDatumObservation (observations @ witnessed)\<rparr>"
  then have "adds lib d (observations @ witnessed) d'"
    by (blast intro: adds_append transaction_outputs_adds witness_datums_adds)
  then show ?thesis by (simp add: adds_def facts)
qed

lemma transactions_from_adds:
  "transactions_from lib n era txs d = Inr (rows, d') \<Longrightarrow> adds lib d (concat (map tx_DatumObservations rows)) d'"
proof (induction txs arbitrary: n rows d)
  case (Cons tx txs)
  then obtain t facts e rows' where "transactionBundle lib t (of_nat n) era d = Inr (facts, e)"
    and "transactions_from lib (n + 1) era txs e = Inr (rows', d')" and "rows = facts # rows'"
    by (auto simp: err_simps split: option.splits sum.splits)
  with Cons.IH show ?case by (auto intro: adds_append transactionBundle_adds)
qed (simp add: adds_refl)

section \<open>The bodies of the block\<close>

lemma observations_sorted:
  "observations (map (\<lambda>body. body\<lparr>db_Observations := SortFunc compareDatumObservation (db_Observations body)\<rparr>) bs) = observations bs"
  by (induction bs) auto

lemma observations_concat: "observations (concat bss) = (\<Sum>bs \<leftarrow> bss. observations bs)"
  by (induction bss) (simp_all add: observations_def)

lemma collected_by_key:
  assumes "distinct (map fst d)"
  shows "(\<Sum>h \<leftarrow> map fst d. observations (bodies_of d h)) = collected d"
proof -
  have "bodies_of d (fst kv) = snd kv" if "kv \<in> set d" for kv
    using map_of_is_SomeI [OF assms, of "fst kv" "snd kv"] that by (simp add: bodies_of_def)
  then have "map (\<lambda>kv. observations (bodies_of d (fst kv))) d = map (\<lambda>kv. observations (snd kv)) d" by simp
  then have "(\<Sum>kv \<leftarrow> d. observations (bodies_of d (fst kv))) = (\<Sum>kv \<leftarrow> d. observations (snd kv))" by (rule arg_cong)
  then show ?thesis unfolding collected_def case_prod_beta map_map comp_def .
qed

lemma observations_collected_datums:
  assumes "collector_ok lib d"
  shows "observations (collected_datums d) = collected d"
proof -
  let ?keys = "SortFunc (on_key bytes32 bytes_compare) (map fst d)"
  have "observations (collected_datums d) = (\<Sum>h \<leftarrow> ?keys. observations (bodies_of d h))"
    by (simp add: collected_datums_def observations_concat comp_def observations_sorted)
  also have "\<dots> = sum_mset (mset (map (\<lambda>h. observations (bodies_of d h)) ?keys))" by (simp only: sum_mset_sum_list)
  also have "\<dots> = sum_mset (mset (map (\<lambda>h. observations (bodies_of d h)) (map fst d)))" by (simp only: mset_map mset_SortFunc)
  also have "\<dots> = (\<Sum>h \<leftarrow> map fst d. observations (bodies_of d h))" by (simp only: sum_mset_sum_list)
  also have "\<dots> = collected d" by (rule collected_by_key) (use assms in \<open>simp add: collector_ok_def\<close>)
  finally show ?thesis .
qed

lemma collected_datums_ok:
  assumes "collector_ok lib d" and "b \<in> set (collected_datums d)"
  shows "body_ok lib (db_Hash b) b"
proof -
  from assms(2) obtain h body where "body \<in> set (bodies_of d h)"
    and b: "b = body\<lparr>db_Observations := SortFunc compareDatumObservation (db_Observations body)\<rparr>"
    by (auto simp: collected_datums_def)
  then have "body_ok lib h body" using bodies_of_ok [OF assms(1)] by blast
  moreover from this have "db_Hash b = h" by (simp add: b body_ok_def)
  moreover have "SortFunc compareDatumObservation xs = [] \<longleftrightarrow> xs = []" for xs by (metis length_0_conv length_SortFunc)
  ultimately show ?thesis by (simp add: b body_ok_def)
qed

lemma distinct_collected_datums:
  assumes "collector_ok lib d"
  shows "distinct (map (\<lambda>b. (db_Hash b, db_CBOR b)) (collected_datums d))"
proof -
  let ?keys = "SortFunc (on_key bytes32 bytes_compare) (map fst d)"
  have dist: "distinct ?keys" using assms by (metis collector_ok_def mset_SortFunc mset_eq_imp_distinct_iff)
  have "map (\<lambda>b. (db_Hash b, db_CBOR b)) (collected_datums d) = concat (map (\<lambda>h. map (\<lambda>b. (h, db_CBOR b)) (bodies_of d h)) ?keys)"
    using bodies_of_ok [OF assms]
    by (auto simp: collected_datums_def map_concat comp_def body_ok_def intro!: arg_cong [where f = concat] map_cong)
  moreover have "distinct (concat (map (\<lambda>h. map (\<lambda>b. (h, db_CBOR b)) (bodies_of d h)) keys))" if "distinct keys" for keys
    using that
  proof (induction keys)
    case (Cons h keys)
    have "inj_on (\<lambda>b. (h, db_CBOR b)) (set (bodies_of d h))" "distinct (bodies_of d h)"
      using bodies_of_ok [OF assms, of h] by (auto simp: distinct_map inj_on_def)
    with Cons show ?case by (auto simp: distinct_map)
  qed simp
  ultimately show ?thesis using dist by simp
qed

text \<open>
  C8. Datums are conserved: the observations stored with the datum bodies of a block are exactly the
  observations of its transactions, each once; a body is stored under the hash of its own bytes, all its
  observations name that hash, and no body is stored twice.
\<close>

theorem datum_observations_conserved:
  assumes "Bundle lib (Some blk) = Inr b"
  shows "mset (concat (map db_Observations (bk_Datums b))) = mset (concat (map tx_DatumObservations (bk_Transactions b))) \<and>
    (\<forall>d \<in> set (bk_Datums b). nl_Blake2b256 lib (db_CBOR d) = bytes32 (db_Hash d) \<and> db_Observations d \<noteq> [] \<and>
       (\<forall>x \<in> set (db_Observations d). do_Hash x = db_Hash d)) \<and>
    distinct (map (\<lambda>d. (db_Hash d, db_CBOR d)) (bk_Datums b))"
  using assms
proof (rule Bundle_Inr)
  fix datums
  assume t: "transactions_from lib 0 (lb_Era blk) (lb_Transactions blk) [] = Inr (bk_Transactions b, datums)"
    and d: "bk_Datums b = collected_datums datums"
  have ok: "collector_ok lib datums" "collected datums = mset (concat (map tx_DatumObservations (bk_Transactions b)))"
    using transactions_from_adds [OF t] by (simp_all add: adds_def collector_ok_def)
  have "mset (concat (map db_Observations (bk_Datums b))) = observations (bk_Datums b)"
    by (simp add: observations_def mset_concat comp_def)
  then have "mset (concat (map db_Observations (bk_Datums b))) = mset (concat (map tx_DatumObservations (bk_Transactions b)))"
    by (simp only: d observations_collected_datums [OF ok(1)] ok(2))
  with distinct_collected_datums [OF ok(1)] collected_datums_ok [OF ok(1)] show ?thesis
    unfolding d body_ok_def by blast
qed

theorem datum_observations_conserved_witness:
  "mset (concat (map db_Observations (bk_Datums sample_bundle))) = mset sample_observations \<and>
   distinct (map (\<lambda>d. (db_Hash d, db_CBOR d)) (bk_Datums sample_bundle))"
  using datum_observations_conserved [OF visited_block_facts] by (simp add: sample_bundle_def sample_facts_def)

end
