(* ===== verification/Normalize_Order.thy ===== *)
theory Normalize_Order
  imports Normalize_Facts
begin

text \<open>
  The facts of a block do not depend on the order in which Go ranges over maps: every list that comes
  from a map is sorted by a comparison under which different entries differ.
\<close>

section \<open>The comparisons\<close>

lemma compare_assets_eq:
  "compare_assets = then_by (on_key (bytes28 \<circ> fst) bytes_compare) (on_key snd bytes_compare)"
  by (intro ext) (simp add: compare_assets_def then_by_def Let_def)

lemma compare_spend_inputs_eq:
  "compare_spend_inputs = then_by (on_key (bytes32 \<circ> fst) bytes_compare) (on_key snd order_compare)"
  by (intro ext) (simp add: compare_spend_inputs_def then_by_def order_compare_def Let_def)

definition diff_compare :: "int \<Rightarrow> int \<Rightarrow> int" where
  "diff_compare a b = a - b"

interpretation int_diff: comparison UNIV diff_compare
  by unfold_locales (auto simp: diff_compare_def)

lemma compare_voters_eq:
  "compare_voters lib = then_by (on_key (voter_rank lib) diff_compare) (on_key (bytes28 \<circ> vo_Hash) bytes_compare)"
  by (intro ext) (simp add: compare_voters_def then_by_def diff_compare_def)

lemmas comparison_rules = comparison_then_by comparison_on_key byte_order.comparison_axioms linear_order.comparison_axioms
  int_diff.comparison_axioms

interpretation asset_order: comparison UNIV compare_assets
  unfolding compare_assets_eq by (intro comparison_rules)

interpretation spend_order: comparison UNIV compare_spend_inputs
  unfolding compare_spend_inputs_eq by (intro comparison_rules)

interpretation voter_order: comparison UNIV "compare_voters lib" for lib
  unfolding compare_voters_eq by (intro comparison_rules)

lemma compare_assets_0: "compare_assets a b = 0 \<longleftrightarrow> a = b"
  by (cases a; cases b) (auto simp: compare_assets_eq)

lemma compare_spend_inputs_0: "compare_spend_inputs a b = 0 \<longleftrightarrow> a = b"
  by (cases a; cases b) (auto simp: compare_spend_inputs_eq)

text \<open>Withdrawals are compared by network and credential only when all have a credential.\<close>

definition with_credential :: "withdrawal_item set" where
  "with_credential = {i. wi_credentialKind i \<noteq> None \<and> wi_credentialHash i \<noteq> None}"

definition compare_credentials :: "withdrawal_item \<Rightarrow> withdrawal_item \<Rightarrow> int" where
  "compare_credentials = then_by (on_key wi_network order_compare)
     (then_by (on_key (credential_rank \<circ> the \<circ> wi_credentialKind) diff_compare) (on_key (bytes28 \<circ> the \<circ> wi_credentialHash) bytes_compare))"

lemma compare_withdrawals_eq:
  "a \<in> with_credential \<Longrightarrow> b \<in> with_credential \<Longrightarrow> compare_withdrawals a b = compare_credentials a b"
  by (auto simp: compare_withdrawals_def compare_credentials_def then_by_def order_compare_def diff_compare_def with_credential_def)

lemma comparison_cong:
  assumes "comparison A c" and eq: "\<And>x y. x \<in> A \<Longrightarrow> y \<in> A \<Longrightarrow> d x y = c x y"
  shows "comparison A d"
proof
  fix x y
  assume "x \<in> A" "y \<in> A"
  then show "d x y < 0 \<longleftrightarrow> d y x > 0" using comparison.swap [OF assms(1), of x y] by (simp add: eq)
next
  fix x y z
  assume m: "x \<in> A" "y \<in> A" "z \<in> A" and "d x y \<le> 0" "d y z \<le> 0"
  then have "c x z \<le> 0" using comparison.trans [OF assms(1) m] by (simp add: eq)
  with m show "d x z \<le> 0" by (simp add: eq)
qed

interpretation withdrawal_order: comparison with_credential compare_withdrawals
proof (rule comparison_cong)
  show "comparison with_credential compare_credentials"
    unfolding compare_credentials_def by (intro comparison_rules)
qed (rule compare_withdrawals_eq)

section \<open>Multi-assets\<close>

text \<open>The same map, in another order; in a map every key occurs once.\<close>

definition same_assets :: "multi_asset \<Rightarrow> multi_asset \<Rightarrow> bool" where
  "same_assets m m' \<longleftrightarrow> image_mset (map_prod id mset) (mset m) = image_mset (map_prod id mset) (mset m')"

definition keyed :: "multi_asset \<Rightarrow> bool" where
  "keyed m \<longleftrightarrow> distinct (map fst m) \<and> (\<forall>e \<in> set m. distinct (map fst (snd e)))"

lemma same_assets_policies: "same_assets m m' \<Longrightarrow> mset (map fst m) = mset (map fst m')"
proof -
  assume "same_assets m m'"
  then have "image_mset fst (image_mset (map_prod id mset) (mset m)) = image_mset fst (image_mset (map_prod id mset) (mset m'))"
    by (simp only: same_assets_def)
  then show ?thesis by (simp add: multiset.map_comp comp_def)
qed

lemma mapM_iff:
  assumes "\<And>x r. f x = Inr r \<longleftrightarrow> ok x \<and> r = g x"
  shows "mapM f xs = Inr ys \<longleftrightarrow> (\<forall>x \<in> set xs. ok x) \<and> ys = map g xs"
  by (induction xs arbitrary: ys) (auto simp: err_simps assms)

locale asset_projection =
  fixes f :: "bytes \<times> (bytes \<times> int option) list \<Rightarrow> go_error + 'r list" and good :: "int option \<Rightarrow> bool"
    and row :: "bytes \<Rightarrow> bytes \<times> int option \<Rightarrow> 'r" and key :: "'r \<Rightarrow> hash28 \<times> bytes"
  assumes rows: "f e = Inr r \<longleftrightarrow> (length (fst e) = 28 \<and> (\<forall>x \<in> set (snd e). good (snd x))) \<and> r = map (row (fst e)) (snd e)"
    and key_row: "key (row p x) = (make28 p, fst x)"
begin

definition entry_ok :: "bytes \<times> (bytes \<times> int option) multiset \<Rightarrow> bool" where
  "entry_ok e \<longleftrightarrow> length (fst e) = 28 \<and> (\<forall>x \<in># snd e. good (snd x))"

lemma mapM_rows: "mapM f m = Inr rs \<longleftrightarrow> (\<forall>e \<in> set m. entry_ok (map_prod id mset e)) \<and> rs = map (\<lambda>e. map (row (fst e)) (snd e)) m"
  by (subst mapM_iff [OF rows]) (auto simp: entry_ok_def)

lemma mset_rows:
  "mset (concat (map (\<lambda>e. map (row (fst e)) (snd e)) m)) =
     (\<Sum>e \<in># image_mset (map_prod id mset) (mset m). image_mset (row (fst e)) (snd e))"
  by (induction m) auto

lemma ties:
  assumes "keyed m" and "\<forall>e \<in> set m. entry_ok (map_prod id mset e)"
    and "x \<in> set (concat (map (\<lambda>e. map (row (fst e)) (snd e)) m))" and "y \<in> set (concat (map (\<lambda>e. map (row (fst e)) (snd e)) m))"
    and "key x = key y"
  shows "x = y"
proof -
  from assms(3) obtain e u where e: "e \<in> set m" "u \<in> set (snd e)" "x = row (fst e) u" by auto
  from assms(4) obtain d v where d: "d \<in> set m" "v \<in> set (snd d)" "y = row (fst d) v" by auto
  have "length (fst e) = 28" "length (fst d) = 28" using assms(2) e(1) d(1) by (auto simp: entry_ok_def)
  moreover have "make28 (fst e) = make28 (fst d)" "fst u = fst v" using assms(5) e(3) d(3) by (simp_all add: key_row)
  ultimately have "fst e = fst d" by (metis bytes28_make28)
  then have "e = d" using assms(1) e(1) d(1) by (metis keyed_def eq_key_imp_eq_value prod.collapse)
  moreover from this have "u = v" using assms(1) e(1,2) d(2) \<open>fst u = fst v\<close> by (metis keyed_def eq_key_imp_eq_value prod.collapse)
  ultimately show ?thesis using e d by simp
qed

lemma order_irrelevant:
  assumes "keyed m" and "same_assets m m'"
    and "bindE (mapM f m) (\<lambda>rs. Inr (SortFunc (on_key key compare_assets) (concat rs))) = Inr r"
  shows "bindE (mapM f m') (\<lambda>rs. Inr (SortFunc (on_key key compare_assets) (concat rs))) = Inr r"
proof -
  let ?rows = "\<lambda>m. concat (map (\<lambda>e. map (row (fst e)) (snd e)) m)"
  from assms(3) have ok: "\<forall>e \<in> set m. entry_ok (map_prod id mset e)"
    and r: "r = SortFunc (on_key key compare_assets) (?rows m)"
    by (auto simp: err_simps mapM_rows)
  have "\<forall>e \<in># image_mset (map_prod id mset) (mset m). entry_ok e" using ok by auto
  then have "\<forall>e \<in># image_mset (map_prod id mset) (mset m'). entry_ok e" using assms(2) by (simp only: same_assets_def)
  then have ok': "\<forall>e \<in> set m'. entry_ok (map_prod id mset e)" by auto
  have "mset (?rows m) = mset (?rows m')" using assms(2) by (simp only: mset_rows same_assets_def)
  moreover have "comparison UNIV (on_key key compare_assets)" by (intro comparison_on_key asset_order.comparison_axioms)
  moreover have "x = y" if "x \<in> set (?rows m)" "y \<in> set (?rows m)" "on_key key compare_assets x y = 0" for x y
    using that by (intro ties [OF assms(1) ok]) (simp_all add: compare_assets_0)
  ultimately have "SortFunc (on_key key compare_assets) (?rows m) = SortFunc (on_key key compare_assets) (?rows m')"
    using comparison.SortFunc_cong_mset [of UNIV "on_key key compare_assets" "?rows m" "?rows m'"] by blast
  with r ok' show ?thesis by (simp add: mapM_rows [THEN iffD2])
qed

end

interpretation output_assets: asset_projection policy_assets "\<lambda>q. \<exists>w :: u64. q = Some (uint w)"
  "\<lambda>p x. \<lparr>as_PolicyID = make28 p, as_Name = fst x, as_Quantity = word_of_int (the (snd x))\<rparr>" "\<lambda>a. (as_PolicyID a, as_Name a)"
proof
  fix e r
  have "bindE (uint64Value ''output asset quantity'' q) (\<lambda>v. Inr \<lparr>as_PolicyID = h, as_Name = n, as_Quantity = v\<rparr>) = Inr y \<longleftrightarrow>
      (\<exists>w :: u64. q = Some (uint w)) \<and> y = \<lparr>as_PolicyID = h, as_Name = n, as_Quantity = word_of_int (the q)\<rparr>" for h n q y
    by (auto simp: err_simps)
  then have "mapM (\<lambda>(n, q). bindE (uint64Value ''output asset quantity'' q) (\<lambda>v. Inr \<lparr>as_PolicyID = h, as_Name = n, as_Quantity = v\<rparr>)) xs = Inr r \<longleftrightarrow>
      (\<forall>x \<in> set xs. \<exists>w :: u64. snd x = Some (uint w)) \<and> r = map (\<lambda>x. \<lparr>as_PolicyID = h, as_Name = fst x, as_Quantity = word_of_int (the (snd x))\<rparr>) xs" for h xs
    by (intro mapM_iff) (auto split: prod.splits)
  then show "policy_assets e = Inr r \<longleftrightarrow> (length (fst e) = 28 \<and> (\<forall>x \<in> set (snd e). \<exists>w :: u64. snd x = Some (uint w))) \<and>
      r = map (\<lambda>x. \<lparr>as_PolicyID = make28 (fst e), as_Name = fst x, as_Quantity = word_of_int (the (snd x))\<rparr>) (snd e)"
    by (auto simp: policy_assets_def checked28_def)
qed simp

interpretation minted_assets: asset_projection policy_deltas "\<lambda>q. \<exists>n. q = Some n \<and> fitsInt64 n"
  "\<lambda>p x. \<lparr>ad_PolicyID = make28 p, ad_Name = fst x, ad_Quantity = the (snd x)\<rparr>" "\<lambda>a. (ad_PolicyID a, ad_Name a)"
proof
  fix e r
  have "mapM (\<lambda>(name, quantity). case quantity of
           None \<Rightarrow> Inl (errorsNew ''mint quantity does not fit Int64'')
         | Some n \<Rightarrow>
             if \<not> fitsInt64 n then Inl (errorsNew ''mint quantity does not fit Int64'')
             else Inr \<lparr>ad_PolicyID = h, ad_Name = name, ad_Quantity = n\<rparr>) xs = Inr r \<longleftrightarrow>
      (\<forall>x \<in> set xs. \<exists>n. snd x = Some n \<and> fitsInt64 n) \<and> r = map (\<lambda>x. \<lparr>ad_PolicyID = h, ad_Name = fst x, ad_Quantity = the (snd x)\<rparr>) xs" for h xs
    by (intro mapM_iff) (auto split: prod.splits option.splits)
  then show "policy_deltas e = Inr r \<longleftrightarrow> (length (fst e) = 28 \<and> (\<forall>x \<in> set (snd e). \<exists>n. snd x = Some n \<and> fitsInt64 n)) \<and>
      r = map (\<lambda>x. \<lparr>ad_PolicyID = make28 (fst e), ad_Name = fst x, ad_Quantity = the (snd x)\<rparr>) (snd e)"
    by (auto simp: policy_deltas_def checked28_def)
qed simp

lemma assetBundle_order:
  assumes "rel_option same_assets m m'" and "pred_option keyed m" and "assetBundle m = Inr r"
  shows "assetBundle m' = Inr r"
  using assms output_assets.order_irrelevant by (cases m; cases m') (auto simp: assetBundle_def)

lemma mintBundle_order:
  assumes "rel_option same_assets m m'" and "pred_option keyed m" and "mintBundle m = Inr r"
  shows "mintBundle m' = Inr r"
  using assms minted_assets.order_irrelevant by (cases m; cases m') (auto simp: mintBundle_def)

section \<open>Withdrawals\<close>

text \<open>A withdrawal entry is identified by the network and the credential of its reward account.\<close>

definition withdrawal_key :: "ledger_address option \<times> int option \<Rightarrow> u64 \<times> string option \<times> hash28 option" where
  "withdrawal_key e = (la_NetworkId (the (fst e)), withdrawal_credential (the (fst e)))"

definition credentialed :: "(ledger_address option \<times> int option) list \<Rightarrow> bool" where
  "credentialed ws \<longleftrightarrow> distinct (map withdrawal_key ws) \<and> (\<forall>e \<in> set ws. fst (snd (withdrawal_key e)) \<noteq> None)"

lemma withdrawal_credential_Some:
  assumes "fst (withdrawal_credential a) \<noteq> None"
  shows "snd (withdrawal_credential a) \<noteq> None \<and> fst (withdrawal_credential a) \<in> {Some ''key'', Some ''script''}"
  using assms by (auto simp: withdrawal_credential_def split: option.splits sum.splits credential_type.splits)

lemma withdrawal_item_key:
  assumes "withdrawal_item_of e = Inr i"
  shows "withdrawal_key e = (wi_network i, wi_credentialKind i, wi_credentialHash i)"
  using assms by (auto simp: withdrawal_item_of_def withdrawal_key_def split: option.splits sum.splits)

lemma withdrawal_tie:
  assumes "i \<in> with_credential" and "j \<in> with_credential" and "compare_withdrawals i j = 0"
    and "wi_credentialKind i \<in> {Some ''key'', Some ''script''}" and "wi_credentialKind j \<in> {Some ''key'', Some ''script''}"
  shows "(wi_network i, wi_credentialKind i, wi_credentialHash i) = (wi_network j, wi_credentialKind j, wi_credentialHash j)"
proof -
  have "compare_credentials i j = 0" using assms(1-3) compare_withdrawals_eq by simp
  then have n: "wi_network i = wi_network j" "credential_rank (the (wi_credentialKind i)) = credential_rank (the (wi_credentialKind j))"
    "the (wi_credentialHash i) = the (wi_credentialHash j)"
    by (simp_all add: compare_credentials_def diff_compare_def)
  moreover have "wi_credentialHash i = wi_credentialHash j" using n(3) assms(1,2) by (auto simp: with_credential_def)
  moreover have "wi_credentialKind i = wi_credentialKind j" using n(2) assms(4,5) by (auto simp: credential_rank_def)
  ultimately show ?thesis by simp
qed

lemma mapM_mset:
  assumes "mapM f xs = Inr ys" and "mset xs = mset xs'"
  shows "\<exists>ys'. mapM f xs' = Inr ys' \<and> mset ys' = mset ys"
proof -
  have ok: "\<forall>x \<in> set xs. isl (f x) = False" using assms(1) by (induction xs arbitrary: ys) (auto simp: err_simps)
  have ys: "ys = map (projr \<circ> f) xs" using assms(1) by (induction xs arbitrary: ys) (auto simp: err_simps)
  have "\<forall>x \<in> set xs'. f x = Inr (projr (f x))"
    using ok mset_eq_setD [OF assms(2)] by (metis sum.collapse(2))
  then have "mapM f xs' = Inr (map (projr \<circ> f) xs')" using mapM_Inr_map [of xs' f "projr \<circ> f"] by simp
  moreover have "mset (map (projr \<circ> f) xs') = mset ys" using assms(2) by (simp add: ys)
  ultimately show ?thesis by blast
qed

lemma withdrawal_items_order:
  assumes "credentialed ws" and "mset ws = mset ws'" and "mapM withdrawal_item_of ws = Inr items"
  obtains items' where "mapM withdrawal_item_of ws' = Inr items'"
    and "SortFunc compare_withdrawals items' = SortFunc compare_withdrawals items"
proof -
  from mapM_mset [OF assms(3,2)] obtain items' where items': "mapM withdrawal_item_of ws' = Inr items'" "mset items' = mset items" by blast
  have origin: "\<exists>e \<in> set ws. withdrawal_item_of e = Inr i" if "i \<in> set items" for i by (rule mapM_set [OF assms(3) that])
  have kinds: "i \<in> with_credential \<and> wi_credentialKind i \<in> {Some ''key'', Some ''script''}" if i: "i \<in> set items" for i
  proof -
    from origin [OF i] obtain e where e: "e \<in> set ws" "withdrawal_item_of e = Inr i" by blast
    have "fst (withdrawal_credential (the (fst e))) \<noteq> None" using assms(1) e(1) by (auto simp: credentialed_def withdrawal_key_def)
    from withdrawal_credential_Some [OF this] withdrawal_item_key [OF e(2)] this show ?thesis
      by (auto simp: withdrawal_key_def with_credential_def)
  qed
  have "SortFunc compare_withdrawals items = SortFunc compare_withdrawals items'"
  proof (rule withdrawal_order.SortFunc_cong_mset)
    show "mset items = mset items'" using items'(2) by simp
    show "set items \<subseteq> with_credential" using kinds by blast
    fix i j
    assume m: "i \<in> set items" "j \<in> set items" and "compare_withdrawals i j = 0"
    then have k: "(wi_network i, wi_credentialKind i, wi_credentialHash i) = (wi_network j, wi_credentialKind j, wi_credentialHash j)"
      using kinds by (intro withdrawal_tie) blast+
    from origin [OF m(1)] obtain e where e: "e \<in> set ws" "withdrawal_item_of e = Inr i" by blast
    from origin [OF m(2)] obtain d where d: "d \<in> set ws" "withdrawal_item_of d = Inr j" by blast
    have "withdrawal_key e = withdrawal_key d" using k withdrawal_item_key [OF e(2)] withdrawal_item_key [OF d(2)] by simp
    then have "e = d" using assms(1) e(1) d(1) by (auto simp: credentialed_def distinct_map dest: inj_onD)
    with e d show "i = j" by simp
  qed
  with items' that show thesis by metis
qed

section \<open>Redeemers\<close>

lemma assign_all_distinct: "distinct (map fst (assign_all es))"
proof -
  have "distinct (map fst acc) \<Longrightarrow> distinct (map fst (fold (\<lambda>(k, v). AList.update k v) es acc))" for acc
    by (induction es arbitrary: acc) (auto simp: distinct_update)
  then show ?thesis by (simp add: assign_all_def)
qed

lemma assign_all_keyed:
  assumes "distinct (map fst es)"
  shows "assign_all es = es"
proof -
  have "fold (\<lambda>(k, v). AList.update k v) es acc = acc @ es" if "distinct (map fst (acc @ es))" for acc
    using that
  proof (induction es arbitrary: acc)
    case (Cons e es)
    then have "fst e \<notin> fst ` set acc" by auto
    then have "AList.update (fst e) (snd e) acc = acc @ [e]" by (induction acc) auto
    with Cons show ?case by (cases e) simp
  qed simp
  then show ?thesis using assms by (simp add: assign_all_def)
qed

text \<open>The library's comparison of redeemer keys is a total order.\<close>

definition ordered_lib :: "ledger_lib \<Rightarrow> bool" where
  "ordered_lib lib \<longleftrightarrow> comparison UNIV (nl_CompareRedeemerKeys lib) \<and> (\<forall>a b. nl_CompareRedeemerKeys lib a b = 0 \<longrightarrow> a = b)"

definition same_redeemers :: "ledger_redeemers \<Rightarrow> ledger_redeemers \<Rightarrow> bool" where
  "same_redeemers r r' \<longleftrightarrow> lr_Cbor r = lr_Cbor r' \<and> mset (lr_Iter r) = mset (lr_Iter r')"

lemma sorted_redeemers_order:
  fixes es :: "(redeemer_key \<times> redeemer_value) list"
  assumes "ordered_lib lib" and "mset es = mset es'" and "distinct (map fst es)"
  shows "SortFunc (on_key fst (nl_CompareRedeemerKeys lib)) (assign_all es) = SortFunc (on_key fst (nl_CompareRedeemerKeys lib)) (assign_all es')"
proof -
  have d': "distinct (map fst es')" using assms(2,3) by (metis mset_eq_imp_distinct_iff mset_map)
  have "comparison UNIV (on_key fst (nl_CompareRedeemerKeys lib) :: redeemer_key \<times> redeemer_value \<Rightarrow> _)"
    using assms(1) by (intro comparison_on_key) (simp add: ordered_lib_def)
  moreover have "x = y" if "x \<in> set es" "y \<in> set es" "on_key fst (nl_CompareRedeemerKeys lib) x y = 0" for x y
  proof -
    have "fst x = fst y" using assms(1) that(3) by (simp add: ordered_lib_def)
    then show ?thesis using assms(3) that(1,2) by (auto simp: distinct_map dest: inj_onD)
  qed
  ultimately have "SortFunc (on_key fst (nl_CompareRedeemerKeys lib)) es = SortFunc (on_key fst (nl_CompareRedeemerKeys lib)) es'"
    using comparison.SortFunc_cong_mset [of UNIV "on_key fst (nl_CompareRedeemerKeys lib)" es es'] assms(2) by blast
  then show ?thesis by (simp add: assign_all_keyed assms(3) d')
qed

lemma canonicalRedeemerItems_order:
  assumes "ordered_lib lib" and "same_redeemers r r'" and "distinct (map fst (lr_Iter r))"
  shows "canonicalRedeemerItems lib r' = canonicalRedeemerItems lib r"
proof -
  have "lr_Cbor r' = lr_Cbor r" using assms(2) by (simp add: same_redeemers_def)
  moreover have "SortFunc (on_key fst (nl_CompareRedeemerKeys lib)) (assign_all (lr_Iter r')) =
      SortFunc (on_key fst (nl_CompareRedeemerKeys lib)) (assign_all (lr_Iter r))"
    using sorted_redeemers_order [OF assms(1) _ assms(3)] assms(2) by (simp add: same_redeemers_def)
  ultimately show ?thesis by (simp add: canonicalRedeemerItems_def Let_def)
qed

lemma voter_tie:
  assumes "voter_ordinal lib v = Inr m" and "voter_ordinal lib w = Inr n" and "compare_voters lib v w = 0"
  shows "v = w"
proof -
  have "voter_rank lib v = voter_rank lib w" and h: "vo_Hash v = vo_Hash w"
    using assms(3) by (simp_all add: compare_voters_eq diff_compare_def)
  then have "m = n" using assms(1,2) by (simp add: voter_rank_def)
  then have "vo_Type v = vo_Type w" using assms(1,2) by (auto simp: voter_ordinal_def split: if_splits)
  with h show ?thesis by (cases v; cases w) simp
qed

lemma sortedVoters_order:
  assumes "mset votes = mset votes'" and "sortedVoters lib votes = Inr voters"
  shows "sortedVoters lib votes' = Inr voters"
proof -
  let ?some = "\<lambda>v. case v of None \<Rightarrow> Inl (errorsNew ''nil voter'') | Some w \<Rightarrow> Inr w"
  from assms(2) obtain vs ns where vs: "mapM ?some votes = Inr vs" and ns: "mapM (voter_ordinal lib) vs = Inr ns"
    and r: "voters = SortFunc (compare_voters lib) vs"
    by (auto simp: sortedVoters_def err_simps)
  from mapM_mset [OF vs assms(1)] obtain vs' where vs': "mapM ?some votes' = Inr vs'" "mset vs' = mset vs" by blast
  from mapM_mset [OF ns, of vs'] vs'(2) obtain ns' where ns': "mapM (voter_ordinal lib) vs' = Inr ns'" by auto
  have ordinals: "\<exists>n. voter_ordinal lib v = Inr n" if "v \<in> set vs" for v
    using ns that by (induction vs arbitrary: ns) (auto simp: err_simps)
  have "SortFunc (compare_voters lib) vs = SortFunc (compare_voters lib) vs'"
  proof (rule voter_order.SortFunc_cong_mset)
    fix v w
    assume "v \<in> set vs" "w \<in> set vs" "compare_voters lib v w = 0"
    then show "v = w" using ordinals voter_tie by blast
  qed (use vs' in simp_all)
  with vs' ns' r show ?thesis by (simp add: sortedVoters_def)
qed

section \<open>Transactions\<close>

definition same_output :: "ledger_output \<Rightarrow> ledger_output \<Rightarrow> bool" where
  "same_output o' p \<longleftrightarrow> rel_option same_assets (lo_Assets o') (lo_Assets p) \<and> o' = p\<lparr>lo_Assets := lo_Assets o'\<rparr>"

definition same_witnesses :: "witness_set \<Rightarrow> witness_set \<Rightarrow> bool" where
  "same_witnesses w v \<longleftrightarrow> ws_PlutusData w = ws_PlutusData v \<and> rel_option same_redeemers (ws_Redeemers w) (ws_Redeemers v)"

text \<open>The same transaction, its maps visited in another order.\<close>

definition same_tx :: "ledger_tx \<Rightarrow> ledger_tx \<Rightarrow> bool" where
  "same_tx t u \<longleftrightarrow>
     t = u\<lparr>lt_Outputs := lt_Outputs t, lt_CollateralReturn := lt_CollateralReturn t, lt_AssetMint := lt_AssetMint t,
       lt_Withdrawals := lt_Withdrawals t, lt_Witnesses := lt_Witnesses t, lt_VotingProcedures := lt_VotingProcedures t\<rparr> \<and>
     list_all2 (rel_option same_output) (lt_Outputs t) (lt_Outputs u) \<and>
     rel_option same_output (lt_CollateralReturn t) (lt_CollateralReturn u) \<and>
     rel_option same_assets (lt_AssetMint t) (lt_AssetMint u) \<and> mset (lt_Withdrawals t) = mset (lt_Withdrawals u) \<and>
     rel_option same_witnesses (lt_Witnesses t) (lt_Witnesses u) \<and> mset (lt_VotingProcedures t) = mset (lt_VotingProcedures u)"

text \<open>The maps of a transaction have one entry per key; reward accounts have a credential.\<close>

definition keyed_output :: "ledger_output \<Rightarrow> bool" where
  "keyed_output o' \<longleftrightarrow> pred_option keyed (lo_Assets o')"

definition keyed_tx :: "ledger_tx \<Rightarrow> bool" where
  "keyed_tx t \<longleftrightarrow> list_all (pred_option keyed_output) (lt_Outputs t) \<and> pred_option keyed_output (lt_CollateralReturn t) \<and>
     pred_option keyed (lt_AssetMint t) \<and> credentialed (lt_Withdrawals t) \<and>
     pred_option (\<lambda>w. pred_option (\<lambda>r. distinct (map fst (lr_Iter r))) (ws_Redeemers w)) (lt_Witnesses t)"

lemma same_tx_fields:
  assumes "same_tx t u"
  shows "lt_Type u = lt_Type t" "lt_SubTransactions u = lt_SubTransactions t" "lt_Hash u = lt_Hash t" "lt_IsValid u = lt_IsValid t"
    "lt_Inputs u = lt_Inputs t" "lt_Collateral u = lt_Collateral t" "lt_ReferenceInputs u = lt_ReferenceInputs t" "lt_Fee u = lt_Fee t"
    "lt_TotalCollateral u = lt_TotalCollateral t" "lt_Certificates u = lt_Certificates t"
    "lt_ProposalProcedures u = lt_ProposalProcedures t" "lt_Metadata u = lt_Metadata t"
  using assms by (cases t; cases u; simp add: same_tx_def)+

lemma outputBundle_order:
  assumes "rel_option same_output o' p" and "pred_option keyed_output o'"
    and "outputBundle lib txHash order index ordinal kind o' d = Inr r"
  shows "outputBundle lib txHash order index ordinal kind p d = Inr r"
proof -
  from assms(3) obtain x where x: "o' = Some x" by (auto simp: outputBundle_def split: option.splits)
  with assms(1) obtain y where y: "p = Some y" "same_output x y" by (auto simp: option_rel_Some1)
  then have f: "lo_Address y = lo_Address x" "lo_Amount y = lo_Amount x" "lo_ScriptRef y = lo_ScriptRef x" "lo_Datum y = lo_Datum x"
    "lo_DatumHash y = lo_DatumHash x"
    by (cases x; cases y; simp add: same_output_def)+
  have a: "assetBundle (lo_Assets x) = Inr as \<Longrightarrow> assetBundle (lo_Assets y) = Inr as" for as
    using assetBundle_order y(2) assms(2) x by (auto simp: same_output_def keyed_output_def)
  have "output_datum lib txHash order index ordinal y d = output_datum lib txHash order index ordinal x d"
    by (simp add: output_datum_def f)
  with assms(3) show ?thesis by (auto simp: outputBundle_def x y f err_simps a split: sum.splits)
qed

lemma outputs_from_order:
  "list_all2 (rel_option same_output) os ps \<Longrightarrow> list_all (pred_option keyed_output) os \<Longrightarrow>
     outputs_from lib txHash order n os d = Inr r \<Longrightarrow> outputs_from lib txHash order n ps d = Inr r"
proof (induction os ps arbitrary: n d r rule: list_all2_induct)
  case (Cons o' os p ps)
  then obtain row ob e rest where o: "outputBundle lib txHash order (of_nat n) (of_nat n) ''regular'' o' d = Inr (row, ob, e)"
    and m: "outputs_from lib txHash order (n + 1) os e = Inr rest" and r: "r = (row # fst rest, ob @ fst (snd rest), snd (snd rest))"
    by (auto simp: err_simps split: sum.splits)
  have "outputBundle lib txHash order (of_nat n) (of_nat n) ''regular'' p d = Inr (row, ob, e)"
    by (rule outputBundle_order [OF _ _ o]) (use Cons in simp_all)
  moreover have "outputs_from lib txHash order (n + 1) ps e = Inr rest" using Cons m by simp
  ultimately show ?case by (simp add: r split: prod.splits)
qed simp

lemma transaction_outputs_order:
  assumes "same_tx t u" and "keyed_tx t" and "transaction_outputs lib txHash order t d = Inr r"
  shows "transaction_outputs lib txHash order u d = Inr r"
proof -
  have s: "list_all2 (rel_option same_output) (lt_Outputs t) (lt_Outputs u)" "rel_option same_output (lt_CollateralReturn t) (lt_CollateralReturn u)"
    using assms(1) by (simp_all add: same_tx_def)
  have k: "list_all (pred_option keyed_output) (lt_Outputs t)" "pred_option keyed_output (lt_CollateralReturn t)"
    using assms(2) by (simp_all add: keyed_tx_def)
  have len: "length (lt_Outputs u) = length (lt_Outputs t)" using s(1) by (simp add: list_all2_lengthD)
  show ?thesis
  proof (cases "lt_IsValid t")
    case True
    with assms(3) show ?thesis
      using outputs_from_order [OF s(1) k(1)] by (auto simp: transaction_outputs_def same_tx_fields [OF assms(1)] len split: if_splits)
  next
    case False
    show ?thesis
    proof (cases "lt_CollateralReturn t")
      case None
      with s(2) assms(3) False show ?thesis by (simp add: transaction_outputs_def same_tx_fields [OF assms(1)])
    next
      case (Some x)
      then obtain y where y: "lt_CollateralReturn u = Some y" "rel_option same_output (Some x) (Some y)" using s(2) by (auto simp: option_rel_Some1)
      from assms(3) False Some obtain q where q: "outputBundle lib txHash order (of_nat (length (lt_Outputs t))) 0 ''collateral_return'' (Some x) d = Inr q"
        by (auto simp: transaction_outputs_def split: if_splits sum.splits)
      have "outputBundle lib txHash order (of_nat (length (lt_Outputs t))) 0 ''collateral_return'' (Some y) d = Inr q"
        by (rule outputBundle_order [OF y(2) _ q]) (use k(2) Some in simp)
      with q assms(3) False Some y(1) show ?thesis
        by (simp add: transaction_outputs_def same_tx_fields [OF assms(1)] len split: if_splits)
    qed
  qed
qed

lemma withdrawalBundle_order:
  assumes "same_tx t u" and "keyed_tx t" and "withdrawalBundle t txHash order = Inr rows"
  shows "withdrawalBundle u txHash order = Inr rows"
proof -
  have m: "mset (lt_Withdrawals t) = mset (lt_Withdrawals u)" and c: "credentialed (lt_Withdrawals t)"
    using assms(1,2) by (simp_all add: same_tx_def keyed_tx_def)
  have len: "length (lt_Withdrawals u) = length (lt_Withdrawals t)" using m by (metis size_mset)
  have from_eq: "withdrawals_from n u txHash order items = withdrawals_from n t txHash order items" for n items
    by (induction items arbitrary: n) (simp_all add: same_tx_fields [OF assms(1)])
  from assms(3) obtain items where i: "mapM withdrawal_item_of (lt_Withdrawals t) = Inr items"
    and r: "withdrawals_from 0 t txHash order (SortFunc compare_withdrawals items) = Inr rows" and le: "length (lt_Withdrawals t) \<le> max_u32"
    by (auto simp: withdrawalBundle_def err_simps)
  from withdrawal_items_order [OF c m i] obtain items' where "mapM withdrawal_item_of (lt_Withdrawals u) = Inr items'"
    "SortFunc compare_withdrawals items' = SortFunc compare_withdrawals items" by blast
  with r le show ?thesis by (simp add: withdrawalBundle_def len from_eq)
qed

lemma resolve_mint_order:
  assumes "same_tx t u"
  shows "resolve_mint u key row = resolve_mint t key row"
proof (cases "lt_AssetMint t")
  case None
  with assms show ?thesis by (simp add: resolve_mint_def same_tx_def)
next
  case (Some m)
  then obtain m' where m': "lt_AssetMint u = Some m'" "same_assets m m'" using assms by (auto simp: same_tx_def option_rel_Some1)
  have "SortFunc bytes_compare (map fst m) = SortFunc bytes_compare (map fst m')"
    by (rule byte_order.SortFunc_cong_mset) (use same_assets_policies [OF m'(2)] in simp_all)
  with Some m' show ?thesis by (simp add: resolve_mint_def)
qed

lemma resolveRedeemer_order:
  assumes "same_tx t u" and "resolveRedeemer lib t key row (lt_Inputs t) ws = Inr r"
  shows "resolveRedeemer lib u key row (lt_Inputs u) ws = Inr r"
proof -
  note f = same_tx_fields [OF assms(1)]
  have "mset (lt_VotingProcedures t) = mset (lt_VotingProcedures u)" using assms(1) by (simp add: same_tx_def)
  then have v: "resolve_vote lib t key row = Inr r \<Longrightarrow> resolve_vote lib u key row = Inr r"
    by (auto simp: resolve_vote_def err_simps dest!: sortedVoters_order)
  have "resolve_certificate lib u key row = resolve_certificate lib t key row" "resolve_proposal lib u key row = resolve_proposal lib t key row"
    by (simp_all add: resolve_certificate_def resolve_proposal_def f)
  note same = this resolve_mint_order [OF assms(1)] f(5)
  show ?thesis
  proof (cases "rk_Tag key = nl_TagVoting lib \<and> rk_Tag key \<notin> {nl_TagSpend lib, nl_TagMint lib, nl_TagCert lib, nl_TagReward lib}")
    case True
    then have e: "rk_Tag key = nl_TagVoting lib" and
      ne: "rk_Tag key \<noteq> nl_TagSpend lib" "rk_Tag key \<noteq> nl_TagMint lib" "rk_Tag key \<noteq> nl_TagCert lib" "rk_Tag key \<noteq> nl_TagReward lib"
      by blast+
    have "resolveRedeemer lib s key row is ws = resolve_vote lib s key row" for s "is"
      unfolding resolveRedeemer_def if_not_P [OF ne(1)] if_not_P [OF ne(2)] if_not_P [OF ne(3)] if_not_P [OF ne(4)] if_P [OF e] ..
    with assms(2) v show ?thesis by simp
  next
    case False
    then have "resolveRedeemer lib u key row (lt_Inputs u) ws = resolveRedeemer lib t key row (lt_Inputs t) ws"
      by (auto simp add: resolveRedeemer_def same)
    with assms(2) show ?thesis by simp
  qed
qed

lemma redeemer_facts_order:
  assumes "same_tx t u" and "redeemer_facts lib t txHash order ws item = Inr r"
  shows "redeemer_facts lib u txHash order ws item = Inr r"
  using assms(2) resolveRedeemer_order [OF assms(1)] by (auto simp: redeemer_facts_def Let_def err_simps same_tx_fields [OF assms(1)])

lemma mapM_mono: "mapM f xs = Inr ys \<Longrightarrow> (\<And>x y. f x = Inr y \<Longrightarrow> g x = Inr y) \<Longrightarrow> mapM g xs = Inr ys"
  by (induction xs arbitrary: ys) (auto simp: err_simps)

lemma redeemerBundle_order:
  assumes "ordered_lib lib" and "same_tx t u" and "keyed_tx t" and "redeemerBundle lib t txHash order ws = Inr rows"
  shows "redeemerBundle lib u txHash order ws = Inr rows"
proof (cases "lt_Witnesses t")
  case None
  then have "lt_Witnesses u = None" using assms(2) by (simp add: same_tx_def)
  with None assms(4) show ?thesis by (simp add: redeemerBundle_def)
next
  case (Some w)
  then obtain v where v: "lt_Witnesses u = Some v" "rel_option same_redeemers (ws_Redeemers w) (ws_Redeemers v)"
    using assms(2) by (auto simp: same_tx_def option_rel_Some1 same_witnesses_def)
  show ?thesis
  proof (cases "ws_Redeemers w")
    case None
    with v Some assms(4) show ?thesis by (simp add: redeemerBundle_def)
  next
    case (Some r)
    then obtain r' where r': "ws_Redeemers v = Some r'" "same_redeemers r r'" using v(2) by (auto simp: option_rel_Some1)
    have "distinct (map fst (lr_Iter r))" using assms(3) \<open>lt_Witnesses t = Some w\<close> Some by (simp add: keyed_tx_def)
    from canonicalRedeemerItems_order [OF assms(1) r'(2) this] assms(4) \<open>lt_Witnesses t = Some w\<close> Some v(1) r'(1)
    show ?thesis by (auto simp: redeemerBundle_def err_simps elim!: mapM_mono intro: redeemer_facts_order [OF assms(2)])
  qed
qed

lemma transactionBundle_order:
  assumes "ordered_lib lib" and "same_tx t u" and "keyed_tx t" and "transactionBundle lib t order era d = Inr (facts, d')"
  shows "transactionBundle lib u order era d = Inr (facts, d')"
  using assms(4)
proof (rule transactionBundle_Inr)
  fix txHash declared effective regular collateral reference outputs observations e mint withdrawals redeemers metadata witnessed
  assume steps: "lt_Hash t = bytes32 txHash" "transaction_fees t = Inr (declared, effective)"
    "appendInputs txHash order ''regular'' (lt_IsValid t) (lt_Inputs t) = Inr regular"
    "appendInputs txHash order ''collateral'' (\<not> lt_IsValid t) (lt_Collateral t) = Inr collateral"
    "appendInputs txHash order ''reference'' False (lt_ReferenceInputs t) = Inr reference"
    "transaction_outputs lib txHash order t d = Inr (outputs, observations, e)"
    "mintBundle (lt_AssetMint t) = Inr mint" "withdrawalBundle t txHash order = Inr withdrawals"
    "redeemerBundle lib t txHash order withdrawals = Inr redeemers" "metadataBundle lib t txHash order = Inr metadata"
    "witness_datums_from lib txHash order 0 (witness_datums t) e = Inr (witnessed, d')"
    "facts = \<lparr>tx_Hash = txHash, tx_Order = order, tx_ParentHash = None, tx_SubtransactionIndex = None, tx_Era = era,
             tx_Phase2Valid = lt_IsValid t, tx_FlowKind = (if lt_IsValid t then ''regular'' else ''collateral''),
             tx_DeclaredFee = declared, tx_EffectiveFee = effective, tx_MintApplied = lt_IsValid t, tx_Mint = mint,
             tx_Inputs = regular @ collateral @ reference, tx_Outputs = outputs, tx_Withdrawals = withdrawals,
             tx_Redeemers = redeemers, tx_Metadata = metadata,
             tx_DatumObservations = SortFunc compareDatumObservation (observations @ witnessed)\<rparr>"
    "length (witness_datums t) \<le> max_u32"
  note f = same_tx_fields [OF assms(2)]
  have "rel_option same_witnesses (lt_Witnesses t) (lt_Witnesses u)" using assms(2) by (simp add: same_tx_def)
  then have w: "witness_datums u = witness_datums t"
    by (cases "lt_Witnesses t"; cases "lt_Witnesses u") (simp_all add: witness_datums_def same_witnesses_def)
  have "mintBundle (lt_AssetMint u) = Inr mint"
    by (rule mintBundle_order [OF _ _ steps(7)]) (use assms(2,3) in \<open>simp_all add: same_tx_def keyed_tx_def\<close>)
  moreover have "transaction_fees u = Inr (declared, effective)" "metadataBundle lib u txHash order = Inr metadata"
    using steps(2,10) unfolding transaction_fees_def metadataBundle_def f .
  ultimately show ?thesis
    using steps transaction_outputs_order [OF assms(2,3) steps(6)] withdrawalBundle_order [OF assms(2,3) steps(8)]
      redeemerBundle_order [OF assms(1-3) steps(9)]
    by (simp add: transactionBundle_def f w checked32_Inr [THEN iffD2])
qed

section \<open>Blocks\<close>

definition same_block :: "ledger_block \<Rightarrow> ledger_block \<Rightarrow> bool" where
  "same_block b c \<longleftrightarrow> list_all2 (rel_option same_tx) (lb_Transactions b) (lb_Transactions c) \<and> b = c\<lparr>lb_Transactions := lb_Transactions b\<rparr>"

lemma transactions_from_order:
  assumes "ordered_lib lib"
  shows "list_all2 (rel_option same_tx) ts us \<Longrightarrow> list_all (pred_option keyed_tx) ts \<Longrightarrow>
     transactions_from lib n era ts d = Inr r \<Longrightarrow> transactions_from lib n era us d = Inr r"
proof (induction ts us arbitrary: n d r rule: list_all2_induct)
  case (Cons t ts u us)
  then obtain x facts e rest where t: "t = Some x" "n \<le> max_u32" "ensureSupportedTransaction x = Inr ()"
    and b: "transactionBundle lib x (of_nat n) era d = Inr (facts, e)"
    and m: "transactions_from lib (n + 1) era ts e = Inr rest" and r: "r = (facts # fst rest, snd rest)"
    by (auto simp: err_simps split: option.splits sum.splits if_splits)
  from Cons(1) t obtain y where y: "u = Some y" "same_tx x y" by (auto simp: option_rel_Some1)
  have "transactionBundle lib y (of_nat n) era d = Inr (facts, e)"
    by (rule transactionBundle_order [OF assms y(2) _ b]) (use Cons t in simp)
  moreover have "ensureSupportedTransaction y = Inr ()"
    using t(3) unfolding ensureSupportedTransaction_def same_tx_fields [OF y(2)] .
  moreover have "transactions_from lib (n + 1) era us e = Inr rest" using Cons m by simp
  ultimately show ?case using t(2) by (simp add: y r split: prod.splits)
qed simp

text \<open>
  C5. The facts of a block do not depend on the order in which Go visits the maps of its transactions
  (multi-assets, withdrawals, votes, redeemers), although redeemers point into them by index: two
  presentations of the same block with its map entries permuted give the same facts.
\<close>

theorem facts_ignore_map_order:
  assumes "ordered_lib lib" and "same_block blk blk'" and "list_all (pred_option keyed_tx) (lb_Transactions blk)"
    and "Bundle lib (Some blk) = Inr b"
  shows "Bundle lib (Some blk') = Inr b"
proof -
  have f: "lb_Type blk' = lb_Type blk" "lb_Hash blk' = lb_Hash blk" "lb_PrevHash blk' = lb_PrevHash blk" "lb_Era blk' = lb_Era blk"
    "lb_SlotNumber blk' = lb_SlotNumber blk" "lb_BlockNumber blk' = lb_BlockNumber blk"
    using assms(2) by (cases blk; cases blk'; simp add: same_block_def)+
  have s: "list_all2 (rel_option same_tx) (lb_Transactions blk) (lb_Transactions blk')" using assms(2) by (simp add: same_block_def)
  have len: "length (lb_Transactions blk') = length (lb_Transactions blk)" using s by (simp add: list_all2_lengthD)
  from assms(4) show ?thesis
    using transactions_from_order [OF assms(1) s assms(3)]
    by (auto simp: Bundle_def f len err_simps)
qed

theorem facts_ignore_map_order_witness:
  "Bundle sample_lib (Some revisited_block) = Inr sample_bundle"
proof (rule facts_ignore_map_order [of _ visited_block])
  have "comparison UNIV (nl_CompareRedeemerKeys sample_lib)"
    unfolding sample_lib_def by (simp, intro comparison_rules)
  then show "ordered_lib sample_lib"
    by (auto simp: ordered_lib_def sample_lib_def then_by_def order_compare_def split: if_splits)
  show "same_block visited_block revisited_block"
    by (simp add: same_block_def visited_block_def revisited_block_def sample_ledger_block_def same_tx_def sample_tx_def same_output_def
        sample_output_def same_assets_def sample_assets_def sample_withdrawals_def same_witnesses_def same_redeemers_def add_mset_commute)
  show "list_all (pred_option keyed_tx) (lb_Transactions visited_block)"
    by (simp add: visited_block_def sample_ledger_block_def keyed_tx_def sample_tx_def keyed_output_def sample_output_def keyed_def sample_assets_def
        credentialed_def withdrawal_key_def sample_withdrawals_def sample_account_def withdrawal_credential_def checked_replicate sample_redeemers_def)
qed (rule visited_block_facts)

end
