(* ===== verification/Normalize_Redeemers.thy ===== *)
theory Normalize_Redeemers
  imports Normalize_Order
begin

text \<open>
  What redeemers point at. The ledger counts the targets of a purpose in its own order; the reference
  definitions here are read off the ledger transaction alone: the sorted set of spent outputs, the sorted
  policies, the reward accounts by network and credential, the voters by role and hash, and the
  certificates and proposals as the body lists them.
\<close>

section \<open>Reference orders\<close>

definition spent_outputs :: "ledger_tx \<Rightarrow> (hash32 \<times> u32) set" where
  "spent_outputs t = {(h, li_Index i) | h i. Some i \<in> set (lt_Inputs t) \<and> li_Id i = bytes32 h}"

definition minted_policies :: "ledger_tx \<Rightarrow> bytes list" where
  "minted_policies t = (case lt_AssetMint t of None \<Rightarrow> [] | Some m \<Rightarrow> sort (map fst m))"

text \<open>Reward accounts: by network, scripts before keys, then by the bytes of the credential.\<close>

definition staked :: "ledger_address \<Rightarrow> u64 \<times> bool \<times> bytes" where
  "staked a = (let c = the (la_StakeCredential a) in (la_NetworkId a, cr_CredType c \<noteq> CredentialTypeScriptHash, cr_Credential c))"

definition rewarded :: "ledger_tx \<Rightarrow> ledger_address list" where
  "rewarded t = sort_key staked (map (the \<circ> fst) (lt_Withdrawals t))"

text \<open>Voters: the committee before the delegated representatives before the pools, scripts before keys, then by hash.\<close>

definition voter_roles :: "ledger_lib \<Rightarrow> u8 list" where
  "voter_roles lib = [nl_VoterCommitteeHotScriptHash lib, nl_VoterCommitteeHotKeyHash lib, nl_VoterDRepScriptHash lib,
     nl_VoterDRepKeyHash lib, nl_VoterStakingPoolKeyHash lib]"

definition ballot_key :: "ledger_lib \<Rightarrow> ledger_voter \<Rightarrow> nat \<times> bytes" where
  "ballot_key lib v = (length (takeWhile (\<lambda>role. role \<noteq> vo_Type v) (voter_roles lib)), bytes28 (vo_Hash v))"

definition ballots :: "ledger_lib \<Rightarrow> ledger_tx \<Rightarrow> ledger_voter list" where
  "ballots lib t = sort_key (ballot_key lib) (map the (lt_VotingProcedures t))"

text \<open>The redeemers of the witness set: those of the historical array, or of the map.\<close>

definition array_encoded :: "ledger_redeemers \<Rightarrow> bool" where
  "array_encoded rs \<longleftrightarrow> (\<exists>b bs. lr_Cbor rs = Some (b # bs) \<and> b AND 0xe0 = 0x80)"

definition given_redeemers :: "ledger_lib \<Rightarrow> ledger_tx \<Rightarrow> (redeemer_key \<times> redeemer_value) set" where
  "given_redeemers lib t =
     (case Option.bind (lt_Witnesses t) ws_Redeemers of
        None \<Rightarrow> {}
      | Some rs \<Rightarrow>
          if array_encoded rs then
            {(\<lparr>rk_Tag = lg_Tag r, rk_Index = lg_Index r\<rparr>, \<lparr>rv_Data = lg_Data r, rv_Memory = lg_Memory r, rv_Steps = lg_Steps r\<rparr>) |
              r encoded n. nl_DecodeLegacyRedeemers lib (the (lr_Cbor rs)) = Inr (encoded, n) \<and> r \<in> set encoded}
          else set (lr_Iter rs))"

lemma drop_repeats_adj: "drop_repeats xs = remdups_adj xs"
  by (induction xs rule: remdups_adj.induct) auto

lemma compare_spend_le: "compare_spend_inputs a b \<le> 0 \<longleftrightarrow> a \<le> b"
  by (cases a; cases b) (auto simp: compare_spend_inputs_def bytes_compare_def Let_def less_hash32_def less_eq_hash32_def bytes32_inject)

lemma bytes_compare_le: "bytes_compare a b \<le> 0 \<longleftrightarrow> a \<le> b"
  by (auto simp: bytes_compare_def)

lemma sorted_SortFunc_spend: "sorted (SortFunc compare_spend_inputs xs)"
  using spend_order.sorted_SortFunc [of xs] by (simp add: compare_spend_le)

lemma SortFunc_bytes: "SortFunc bytes_compare xs = sort xs"
  using byte_order.sorted_SortFunc [of xs] by (intro properties_for_sort [symmetric]) (simp_all add: bytes_compare_le)

lemma distinct_remdups_adj: "sorted (xs :: 'a :: linorder list) \<Longrightarrow> distinct (remdups_adj xs)"
  by (induction xs rule: remdups_adj.induct) (auto simp: order.antisym)

lemma spend_references_set:
  "mapM spend_reference inputs = Inr refs \<Longrightarrow> set refs = {(h, li_Index i) | h i. Some i \<in> set inputs \<and> li_Id i = bytes32 h}"
  by (induction inputs arbitrary: refs) (auto simp: spend_reference_def err_simps bytes32_inject split: option.splits)

lemma canonicalSpendInputs_reference:
  assumes "canonicalSpendInputs (lt_Inputs t) = Inr refs"
  shows "refs = sorted_list_of_set (spent_outputs t)"
proof -
  from assms obtain raw where raw: "mapM spend_reference (lt_Inputs t) = Inr raw" "refs = remdups_adj (SortFunc compare_spend_inputs raw)"
    by (auto simp: canonicalSpendInputs_def err_simps drop_repeats_adj)
  have "set refs = spent_outputs t" using spend_references_set [OF raw(1)] raw(2) by (simp add: spent_outputs_def)
  moreover have "sorted refs" "distinct refs"
    using sorted_SortFunc_spend [of raw] distinct_remdups_adj raw(2) by (auto simp: sorted_remdups_adj)
  ultimately show ?thesis by (metis sorted_list_of_set.idem_if_sorted_distinct)
qed

section \<open>Reward accounts and voters\<close>

lemma mapM_items: "mapM f xs = Inr ys \<Longrightarrow> ys = map (projr \<circ> f) xs \<and> (\<forall>x \<in> set xs. f x = Inr (projr (f x)))"
  by (induction xs arbitrary: ys) (auto simp: err_simps)

lemma insert_by_map: "insert_by cmp (f x) (map f ys) = map f (insert_by (on_key f cmp) x ys)"
  by (induction ys) auto

lemma SortFunc_map: "SortFunc cmp (map f xs) = map f (SortFunc (on_key f cmp) xs)"
  by (induction xs) (simp_all only: SortFunc_simps list.map insert_by_map)

text \<open>The account of a reward row: its bytes, and its script when it is a script account.\<close>

definition script_account :: "ledger_address \<Rightarrow> hash28 option" where
  "script_account a = (case la_StakeCredential a of
      Some c \<Rightarrow> if cr_CredType c = CredentialTypeScriptHash then Some (make28 (cr_Credential c)) else None
    | None \<Rightarrow> None)"

definition rewards :: "ledger_address \<Rightarrow> withdrawal \<Rightarrow> bool" where
  "rewards a w \<longleftrightarrow> la_Bytes a = Inr (wd_RewardAccount w) \<and>
     (if wd_CredentialKind w = Some ''script'' then wd_CredentialHash w else None) = script_account a"

lemma withdrawals_from_rows:
  "withdrawals_from n tx txHash order items = Inr rows \<Longrightarrow>
     list_all2 (\<lambda>i w. wd_RewardAccount w = wi_address i \<and> wd_CredentialKind w = wi_credentialKind i \<and> wd_CredentialHash w = wi_credentialHash i) items rows"
  by (induction items arbitrary: n rows) (auto simp: err_simps)

lemma withdrawal_credential_cases:
  assumes "fst (withdrawal_credential a) \<noteq> None"
  obtains c h where "la_StakeCredential a = Some c" and "cr_Credential c = bytes28 h" and "snd (withdrawal_credential a) = Some h"
    and "fst (withdrawal_credential a) = Some (if cr_CredType c = CredentialTypeScriptHash then ''script'' else ''key'')"
    and "cr_CredType c \<noteq> CredentialTypeOther"
proof -
  from assms obtain c where c: "la_StakeCredential a = Some c" by (cases "la_StakeCredential a") (auto simp: withdrawal_credential_def)
  with assms obtain h where h: "checked28 ''withdrawal credential'' (cr_Credential c) = Inr h"
    by (cases "checked28 ''withdrawal credential'' (cr_Credential c)") (auto simp: withdrawal_credential_def)
  then have "cr_Credential c = bytes28 h" by (simp add: err_simps)
  from that [OF c this] show thesis using assms c h
    by (cases "cr_CredType c") (simp_all add: withdrawal_credential_def)
qed

lemma withdrawal_item_rewards:
  assumes "withdrawal_item_of e = Inr i" and "fst (snd (withdrawal_key e)) \<noteq> None"
    and "wd_RewardAccount w = wi_address i \<and> wd_CredentialKind w = wi_credentialKind i \<and> wd_CredentialHash w = wi_credentialHash i"
  shows "rewards (the (fst e)) w"
proof (rule withdrawal_credential_cases [of "the (fst e)"])
  show "fst (withdrawal_credential (the (fst e))) \<noteq> None" using assms(2) by (simp add: withdrawal_key_def)
qed (use assms in \<open>auto simp: rewards_def script_account_def withdrawal_item_of_def split: option.splits sum.splits\<close>)

lemma staked_key:
  assumes "fst (snd (withdrawal_key e)) \<noteq> None" and "withdrawal_item_of e = Inr i"
  shows "staked (the (fst e)) = (wi_network i, wi_credentialKind i \<noteq> Some ''script'', bytes28 (the (wi_credentialHash i))) \<and>
    i \<in> with_credential \<and> wi_credentialKind i \<in> {Some ''key'', Some ''script''}"
proof (rule withdrawal_credential_cases [of "the (fst e)"])
  show "fst (withdrawal_credential (the (fst e))) \<noteq> None" using assms(1) by (simp add: withdrawal_key_def)
qed (use assms(2) in \<open>auto simp: staked_def with_credential_def withdrawal_item_of_def Let_def split: option.splits sum.splits if_splits\<close>)

lemma compare_staked:
  assumes "i \<in> with_credential" and "j \<in> with_credential" and "wi_credentialKind i \<in> {Some ''key'', Some ''script''}"
    and "wi_credentialKind j \<in> {Some ''key'', Some ''script''}" and "compare_withdrawals i j \<le> 0"
  shows "(wi_network i, wi_credentialKind i \<noteq> Some ''script'', bytes28 (the (wi_credentialHash i))) \<le>
    (wi_network j, wi_credentialKind j \<noteq> Some ''script'', bytes28 (the (wi_credentialHash j)))"
  using assms by (auto simp: compare_withdrawals_def with_credential_def credential_rank_def bytes_compare_le split: if_splits)

lemma withdrawals_in_reference_order:
  assumes "credentialed (lt_Withdrawals t)" and "withdrawalBundle t txHash order = Inr ws"
  shows "list_all2 rewards (rewarded t) ws"
proof -
  let ?item = "projr \<circ> withdrawal_item_of" and ?entries = "lt_Withdrawals t"
  let ?sorted = "SortFunc (on_key ?item compare_withdrawals) ?entries"
  from assms(2) obtain items where items: "mapM withdrawal_item_of ?entries = Inr items"
    and rows: "withdrawals_from 0 t txHash order (SortFunc compare_withdrawals items) = Inr ws"
    by (auto simp: withdrawalBundle_def err_simps)
  have "items = map ?item ?entries" using mapM_items [OF items] by blast
  then have sorted_items: "SortFunc compare_withdrawals items = map ?item ?sorted" by (simp only: SortFunc_map)
  have item: "withdrawal_item_of e = Inr (?item e)" "fst (snd (withdrawal_key e)) \<noteq> None" if "e \<in> set ?entries" for e
    using assms(1) that mapM_items [OF items] by (auto simp: credentialed_def)
  note key = staked_key [OF item(2,1)]
  have "sorted (map (staked \<circ> (the \<circ> fst)) ?sorted)"
  proof -
    have "sorted_wrt (\<lambda>i j. compare_withdrawals i j \<le> 0) (map ?item ?sorted)"
      unfolding sorted_items [symmetric] using key by (intro withdrawal_order.sorted_SortFunc) (auto simp: \<open>items = _\<close>)
    then have "sorted_wrt (\<lambda>e d. compare_withdrawals (?item e) (?item d) \<le> 0) ?sorted" by (simp add: sorted_wrt_map)
    then have "sorted_wrt (\<lambda>e d. staked (the (fst e)) \<le> staked (the (fst d))) ?sorted"
      by (rule sorted_wrt_mono_rel [rotated]) (use key compare_staked in auto)
    then show ?thesis by (simp add: sorted_map comp_def)
  qed
  moreover have "inj_on staked (set (map (the \<circ> fst) ?entries))"
  proof (rule inj_onI)
    fix a b
    assume "a \<in> set (map (the \<circ> fst) ?entries)" "b \<in> set (map (the \<circ> fst) ?entries)" and eq: "staked a = staked b"
    then obtain e d where e: "e \<in> set ?entries" "a = the (fst e)" and d: "d \<in> set ?entries" "b = the (fst d)" by auto
    have "withdrawal_key e = withdrawal_key d"
      using eq key [OF e(1)] key [OF d(1)] withdrawal_item_key [OF item(1) [OF e(1)]] withdrawal_item_key [OF item(1) [OF d(1)]]
      by (auto simp: e d with_credential_def bytes28_inject)
    then have "e = d" using assms(1) e(1) d(1) by (auto simp: credentialed_def distinct_map dest: inj_onD)
    with e d show "a = b" by simp
  qed
  ultimately have "rewarded t = map (the \<circ> fst) ?sorted"
    unfolding rewarded_def by (intro sort_key_inj_key_eq) (simp_all add: comp_assoc)
  moreover have "list_all2 (\<lambda>e w. rewards (the (fst e)) w) ?sorted ws"
  proof -
    have "list_all2 (\<lambda>e w. wd_RewardAccount w = wi_address (?item e) \<and> wd_CredentialKind w = wi_credentialKind (?item e) \<and>
        wd_CredentialHash w = wi_credentialHash (?item e)) ?sorted ws"
      using withdrawals_from_rows [OF rows] unfolding sorted_items by (simp only: list_all2_map1)
    then show ?thesis
    proof (rule list.rel_mono_strong)
      fix e and w :: withdrawal
      assume "e \<in> set ?sorted" and w: "wd_RewardAccount w = wi_address (?item e) \<and> wd_CredentialKind w = wi_credentialKind (?item e) \<and>
        wd_CredentialHash w = wi_credentialHash (?item e)"
      then have "e \<in> set ?entries" by simp
      from withdrawal_item_rewards [OF item [OF this] w] show "rewards (the (fst e)) w" .
    qed
  qed
  ultimately show ?thesis by (simp add: list_all2_map1 comp_def)
qed


text \<open>A voter's role is the position of its type, and the code's comparison orders by it.\<close>

lemma voter_position:
  "voter_ordinal lib v = Inr n \<Longrightarrow> n = int (fst (ballot_key lib v))"
  by (auto simp: voter_ordinal_def ballot_key_def voter_roles_def split: if_splits)

lemma voters_in_reference_order:
  assumes "sortedVoters lib (lt_VotingProcedures t) = Inr voters"
  shows "voters = ballots lib t"
proof -
  from assms obtain vs ns where vs: "mapM (\<lambda>v. case v of None \<Rightarrow> Inl (errorsNew ''nil voter'') | Some w \<Rightarrow> Inr w) (lt_VotingProcedures t) = Inr vs"
    and ns: "mapM (voter_ordinal lib) vs = Inr ns" and r: "voters = SortFunc (compare_voters lib) vs"
    by (auto simp: sortedVoters_def err_simps)
  have the: "vs = map the (lt_VotingProcedures t)"
    using vs by (intro mapM_map [where g = id, simplified]) (auto split: option.splits)
  have known: "voter_ordinal lib v = Inr (int (fst (ballot_key lib v)))" if "v \<in> set vs" for v
    using mapM_items [OF ns] that voter_position by metis
  have cmp: "compare_voters lib v w \<le> 0 \<longleftrightarrow> ballot_key lib v \<le> ballot_key lib w" if "v \<in> set vs" "w \<in> set vs" for v w
    using known [OF that(1)] known [OF that(2)]
    by (cases "ballot_key lib v"; cases "ballot_key lib w")
      (auto simp: compare_voters_def voter_rank_def bytes_compare_le ballot_key_def)
  have "sorted_wrt (\<lambda>v w. compare_voters lib v w \<le> 0) voters" using voter_order.sorted_SortFunc [of vs] by (simp add: r)
  then have "sorted_wrt (\<lambda>v w. ballot_key lib v \<le> ballot_key lib w) voters"
    by (rule sorted_wrt_mono_rel [rotated]) (simp add: cmp r)
  then have "sorted (map (ballot_key lib) voters)" by (simp add: sorted_map)
  moreover have "inj_on (ballot_key lib) (set vs)"
  proof (rule inj_onI)
    fix v w
    assume m: "v \<in> set vs" "w \<in> set vs" "ballot_key lib v = ballot_key lib w"
    then have "compare_voters lib v w = 0"
      using known [OF m(1)] known [OF m(2)] by (auto simp: compare_voters_def voter_rank_def ballot_key_def bytes_compare_def)
    then show "v = w" using known [OF m(1)] known [OF m(2)] by (rule voter_tie [rotated 2])
  qed
  ultimately show ?thesis unfolding ballots_def the [symmetric] by (intro sort_key_inj_key_eq [symmetric]) (simp_all add: r)
qed

section \<open>Targets\<close>

text \<open>
  The target columns of a redeemer: output, policy, reward account, position and identity of a body
  element, and the script that the redeemer is for.
\<close>

definition target where
  "target r = (rd_TargetTxHash r, rd_TargetOutputIndex r, rd_TargetPolicyID r, rd_TargetRewardAccount r,
     rd_TargetBodyOrdinal r, rd_TargetIdentity r, rd_ResolvedScriptHash r)"

definition spends_at :: "ledger_tx \<Rightarrow> nat \<Rightarrow> redeemer \<Rightarrow> bool" where
  "spends_at t n r \<longleftrightarrow> n < card (spent_outputs t) \<and>
     (let out = sorted_list_of_set (spent_outputs t) ! n in target r = (Some (fst out), Some (snd out), None, None, None, None, None))"

definition mints_at :: "ledger_tx \<Rightarrow> nat \<Rightarrow> redeemer \<Rightarrow> bool" where
  "mints_at t n r \<longleftrightarrow> n < length (minted_policies t) \<and>
     (\<exists>policy. minted_policies t ! n = bytes28 policy \<and> target r = (None, None, Some policy, None, None, None, Some policy))"

definition rewards_at :: "ledger_tx \<Rightarrow> nat \<Rightarrow> redeemer \<Rightarrow> bool" where
  "rewards_at t n r \<longleftrightarrow> n < length (rewarded t) \<and>
     (\<exists>raw. la_Bytes (rewarded t ! n) = Inr raw \<and> target r = (None, None, None, Some raw, None, None, script_account (rewarded t ! n)))"

text \<open>The identity of a certificate or proposal: the purpose, the constructor and the hash of its encoding.\<close>

definition identifies :: "ledger_lib \<Rightarrow> u8 \<Rightarrow> go_error + bytes \<Rightarrow> go_error + bytes \<Rightarrow> bytes \<Rightarrow> bool" where
  "identifies lib tag constructed encoded identity \<longleftrightarrow>
     (\<exists>c n body. constructed = Inr c \<and> nl_DecodeIdFromList lib c = Inr n \<and> 0 \<le> n \<and> n \<le> 255 \<and> encoded = Inr body \<and>
        identity = tag # word_of_int n # nl_Blake2b256 lib body)"

definition certifies_at :: "ledger_lib \<Rightarrow> ledger_tx \<Rightarrow> nat \<Rightarrow> redeemer \<Rightarrow> bool" where
  "certifies_at lib t n r \<longleftrightarrow> n < length (lt_Certificates t) \<and>
     (let c = lt_Certificates t ! n in \<exists>identity script.
        target r = (None, None, None, None, Some (of_nat n), Some identity, script) \<and>
        identifies lib (nl_TagCert lib) (ce_Encode c) (ce_Encode c) identity \<and>
        (\<forall>h. script = Some h \<longleftrightarrow> (\<exists>cr. certificate_credential (ce_Body c) = Some cr \<and>
           cr_CredType cr = CredentialTypeScriptHash \<and> cr_Credential cr = bytes28 h)))"

definition votes_at :: "ledger_lib \<Rightarrow> ledger_tx \<Rightarrow> nat \<Rightarrow> redeemer \<Rightarrow> bool" where
  "votes_at lib t n r \<longleftrightarrow> n < length (ballots lib t) \<and>
     (let v = ballots lib t ! n in target r = (None, None, None, None, Some (of_nat n), Some (vo_Type v # bytes28 (vo_Hash v)),
        if vo_Type v \<in> {nl_VoterCommitteeHotScriptHash lib, nl_VoterDRepScriptHash lib} then Some (vo_Hash v) else None))"

definition proposes_at :: "ledger_lib \<Rightarrow> ledger_tx \<Rightarrow> nat \<Rightarrow> redeemer \<Rightarrow> bool" where
  "proposes_at lib t n r \<longleftrightarrow> n < length (lt_ProposalProcedures t) \<and>
     (let p = lt_ProposalProcedures t ! n in \<exists>identity script.
        target r = (None, None, None, None, Some (of_nat n), Some identity, script) \<and>
        identifies lib (nl_TagProposing lib) (pr_ActionEncode p) (pr_Encode p) identity \<and>
        (case script of None \<Rightarrow> pr_PolicyHash p \<in> {None, Some []} | Some h \<Rightarrow> pr_PolicyHash p = Some (bytes28 h)))"

text \<open>A purpose: its tag in the ledger, its name in the facts, and its targets.\<close>

definition purposes :: "ledger_lib \<Rightarrow> ledger_tx \<Rightarrow> (u8 \<times> string \<times> (nat \<Rightarrow> redeemer \<Rightarrow> bool)) list" where
  "purposes lib t =
     [(nl_TagSpend lib, ''spend'', spends_at t), (nl_TagMint lib, ''mint'', mints_at t),
      (nl_TagCert lib, ''certificate'', certifies_at lib t), (nl_TagReward lib, ''reward'', rewards_at t),
      (nl_TagVoting lib, ''vote'', votes_at lib t), (nl_TagProposing lib, ''proposal'', proposes_at lib t)]"

definition points_at :: "ledger_lib \<Rightarrow> ledger_tx \<Rightarrow> redeemer \<Rightarrow> bool" where
  "points_at lib t r \<longleftrightarrow> (\<exists>purpose meets. map_of (purposes lib t) (rd_RawPurposeTag r) = Some (purpose, meets) \<and>
     rd_Purpose r = purpose \<and> meets (unat (rd_Index r)) r)"


section \<open>Every resolution meets its target\<close>

lemma finite_spent: "finite (spent_outputs t)"
proof -
  have "spent_outputs t \<subseteq> (\<lambda>i. (make32 (li_Id (the i)), li_Index (the i))) ` set (lt_Inputs t)"
    by (force simp: spent_outputs_def)
  then show ?thesis by (rule finite_subset) simp
qed

definition untargeted :: "redeemer \<Rightarrow> bool" where
  "untargeted row \<longleftrightarrow> target row = (None, None, None, None, None, None, None)"

text \<open>What the resolution leaves as it was.\<close>

definition unchanged :: "redeemer \<Rightarrow> redeemer \<Rightarrow> bool" where
  "unchanged row r \<longleftrightarrow> rd_RawPurposeTag r = rd_RawPurposeTag row \<and> rd_Index r = rd_Index row \<and> rd_DataCBOR r = rd_DataCBOR row \<and>
    rd_ExUnitsMemory r = rd_ExUnitsMemory row \<and> rd_ExUnitsSteps r = rd_ExUnitsSteps row \<and> rd_Applied r = rd_Applied row"

lemma untargeted_fields:
  "untargeted row \<longleftrightarrow> rd_TargetTxHash row = None \<and> rd_TargetOutputIndex row = None \<and> rd_TargetPolicyID row = None \<and>
     rd_TargetRewardAccount row = None \<and> rd_TargetBodyOrdinal row = None \<and> rd_TargetIdentity row = None \<and> rd_ResolvedScriptHash row = None"
  by (simp add: untargeted_def target_def)

lemma resolve_spend_target:
  "resolve_spend key row (lt_Inputs t) = Inr r \<Longrightarrow> untargeted row \<Longrightarrow> rd_Purpose r = ''spend'' \<and> spends_at t (unat (rk_Index key)) r \<and> unchanged row r"
  using finite_spent by (auto simp: resolve_spend_def unresolved_def err_simps unchanged_def spends_at_def target_def untargeted_fields Let_def split: if_splits
      dest!: canonicalSpendInputs_reference)

lemma resolve_mint_target:
  "resolve_mint t key row = Inr r \<Longrightarrow> untargeted row \<Longrightarrow> rd_Purpose r = ''mint'' \<and> mints_at t (unat (rk_Index key)) r \<and> unchanged row r"
  by (auto simp: resolve_mint_def unresolved_def err_simps unchanged_def mints_at_def target_def untargeted_fields minted_policies_def SortFunc_bytes Let_def
      split: if_splits option.splits)

lemma resolve_reward_target:
  assumes "resolve_reward key row ws = Inr r" and "untargeted row" and "list_all2 rewards (rewarded t) ws"
  shows "rd_Purpose r = ''reward'' \<and> rewards_at t (unat (rk_Index key)) r \<and> unchanged row r"
proof -
  have n: "unat (rk_Index key) < length ws" using assms(1) by (auto simp: resolve_reward_def unresolved_def split: if_splits)
  then have "rewards (rewarded t ! unat (rk_Index key)) (ws ! unat (rk_Index key))" by (rule list_all2_nthD2 [OF assms(3)])
  moreover have "length (rewarded t) = length ws" using assms(3) by (rule list_all2_lengthD)
  ultimately show ?thesis using assms(1,2) n
    by (auto simp: resolve_reward_def rewards_def unchanged_def rewards_at_def target_def untargeted_fields Let_def split: if_splits)
qed

lemma constructor_identity:
  assumes "canonicalLedgerConstructor lib constructed maximum = Inr n"
    and "compactLedgerTargetIdentity lib tag n maximum encoded = Inr identity"
  shows "identifies lib tag constructed encoded identity"
proof -
  have "uint maximum \<le> 255" using uint_lt2p [of maximum] by simp
  then show ?thesis using assms
    by (auto simp: identifies_def canonicalLedgerConstructor_def compactLedgerTargetIdentity_def split: sum.splits if_splits)
qed

lemma certificate_script:
  "certificateScriptHash body = Some h \<longleftrightarrow>
     (\<exists>cr. certificate_credential body = Some cr \<and> cr_CredType cr = CredentialTypeScriptHash \<and> cr_Credential cr = bytes28 h)"
proof -
  have "checked28 field (bytes28 g) = Inr g" for field g by (simp add: checked28_def)
  note hash = this
  show ?thesis by (auto simp: certificateScriptHash_def err_simps hash split: option.splits if_splits sum.splits)
qed

lemma resolve_certificate_target:
  assumes "resolve_certificate lib t key row = Inr r" and "untargeted row"
  shows "rd_Purpose r = ''certificate'' \<and> certifies_at lib t (unat (rk_Index key)) r \<and> unchanged row r"
proof -
  let ?c = "lt_Certificates t ! unat (rk_Index key)"
  from assms(1) obtain n identity where n: "unat (rk_Index key) < length (lt_Certificates t)"
    and c: "canonicalLedgerConstructor lib (ce_Encode ?c) (nl_CertificateTypeUpdateDrep lib) = Inr n"
    and i: "compactLedgerTargetIdentity lib (nl_TagCert lib) n (nl_CertificateTypeUpdateDrep lib) (ce_Encode ?c) = Inr identity"
    and r: "r = row\<lparr>rd_Purpose := ''certificate'', rd_TargetBodyOrdinal := Some (rk_Index key), rd_TargetIdentity := Some identity,
      rd_ResolvedScriptHash := (case certificateScriptHash (ce_Body ?c) of Some hash \<Rightarrow> Some hash | None \<Rightarrow> rd_ResolvedScriptHash row)\<rparr>"
    unfolding resolve_certificate_def unresolved_def Let_def
    by (auto simp only: bindE_eq_Inr annotate_Inr sum.inject sum.distinct not_le split: if_split_asm)
  have "rd_ResolvedScriptHash r = certificateScriptHash (ce_Body ?c)" using assms(2) by (simp add: r untargeted_fields split: option.splits)
  then show ?thesis using n constructor_identity [OF c i] assms(2)
    by (simp add: certifies_at_def unchanged_def target_def untargeted_fields Let_def certificate_script [symmetric] r)
qed

lemma resolve_vote_target:
  assumes "resolve_vote lib t key row = Inr r" and "untargeted row"
  shows "rd_Purpose r = ''vote'' \<and> votes_at lib t (unat (rk_Index key)) r \<and> unchanged row r"
proof -
  from assms(1) obtain voters where v: "sortedVoters lib (lt_VotingProcedures t) = Inr voters" and n: "unat (rk_Index key) < length voters"
    by (auto simp: resolve_vote_def unresolved_def err_simps split: if_splits)
  then have r: "r = row\<lparr>rd_Purpose := ''vote'', rd_TargetBodyOrdinal := Some (rk_Index key),
      rd_TargetIdentity := Some (vo_Type (voters ! unat (rk_Index key)) # bytes28 (vo_Hash (voters ! unat (rk_Index key)))),
      rd_ResolvedScriptHash := (if vo_Type (voters ! unat (rk_Index key)) \<in> {nl_VoterCommitteeHotScriptHash lib, nl_VoterDRepScriptHash lib}
        then Some (vo_Hash (voters ! unat (rk_Index key))) else rd_ResolvedScriptHash row)\<rparr>"
    using assms(1) by (simp add: resolve_vote_def Let_def)
  have "voters = ballots lib t" using v by (rule voters_in_reference_order)
  with n assms(2) show ?thesis by (simp add: r votes_at_def unchanged_def target_def untargeted_fields Let_def)
qed

lemma proposal_policy_Inr:
  "proposal_policy p = Inr script \<Longrightarrow> case script of None \<Rightarrow> pr_PolicyHash p \<in> {None, Some []} | Some h \<Rightarrow> pr_PolicyHash p = Some (bytes28 h)"
  by (auto simp: proposal_policy_def err_simps split: option.splits if_splits)

lemma resolve_proposal_target:
  assumes "resolve_proposal lib t key row = Inr r" and "untargeted row"
  shows "rd_Purpose r = ''proposal'' \<and> proposes_at lib t (unat (rk_Index key)) r \<and> unchanged row r"
proof -
  let ?p = "lt_ProposalProcedures t ! unat (rk_Index key)"
  from assms(1) obtain n identity policy where n: "unat (rk_Index key) < length (lt_ProposalProcedures t)"
    and c: "canonicalLedgerConstructor lib (pr_ActionEncode ?p) (nl_GovActionTypeInfo lib) = Inr n"
    and i: "compactLedgerTargetIdentity lib (nl_TagProposing lib) n (nl_GovActionTypeInfo lib) (pr_Encode ?p) = Inr identity"
    and p: "proposal_policy ?p = Inr policy"
    and r: "r = row\<lparr>rd_Purpose := ''proposal'', rd_TargetBodyOrdinal := Some (rk_Index key), rd_TargetIdentity := Some identity,
      rd_ResolvedScriptHash := (case policy of Some hash \<Rightarrow> Some hash | None \<Rightarrow> rd_ResolvedScriptHash row)\<rparr>"
    unfolding resolve_proposal_def unresolved_def Let_def
    by (auto simp only: bindE_eq_Inr annotate_Inr sum.inject sum.distinct not_le split: if_split_asm)
  have "rd_ResolvedScriptHash r = policy" using assms(2) by (simp add: r untargeted_fields split: option.splits)
  then show ?thesis using n constructor_identity [OF c i] proposal_policy_Inr [OF p] assms(2)
    by (simp add: proposes_at_def unchanged_def target_def untargeted_fields Let_def r)
qed

text \<open>The dispatch on the tag.\<close>

lemma resolveRedeemer_points:
  assumes "resolveRedeemer lib t key row (lt_Inputs t) ws = Inr r" and "untargeted row" and "list_all2 rewards (rewarded t) ws"
  shows "\<exists>purpose meets. map_of (purposes lib t) (rk_Tag key) = Some (purpose, meets) \<and> rd_Purpose r = purpose \<and>
     meets (unat (rk_Index key)) r \<and> unchanged row r"
  using assms(1) resolve_spend_target [OF _ assms(2)] resolve_mint_target [OF _ assms(2)] resolve_certificate_target [OF _ assms(2)]
    resolve_reward_target [OF _ assms(2,3)] resolve_vote_target [OF _ assms(2)] resolve_proposal_target [OF _ assms(2)]
  unfolding resolveRedeemer_def purposes_def by (simp only: map_of.simps fst_conv snd_conv fun_upd_apply split: if_split_asm) auto

section \<open>The redeemers of a transaction\<close>

definition key_of :: "redeemer \<Rightarrow> redeemer_key" where
  "key_of r = \<lparr>rk_Tag = rd_RawPurposeTag r, rk_Index = rd_Index r\<rparr>"

text \<open>A redeemer records the data and the execution units of its entry, and whether the transaction was valid.\<close>

definition records :: "bool \<Rightarrow> redeemer_key \<times> redeemer_value \<Rightarrow> redeemer \<Rightarrow> bool" where
  "records valid item r \<longleftrightarrow> key_of r = fst item \<and> rd_DataCBOR r = rv_Data (snd item) \<and> 0 \<le> rv_Memory (snd item) \<and> 0 \<le> rv_Steps (snd item) \<and>
     rd_ExUnitsMemory r = word_of_int (rv_Memory (snd item)) \<and> rd_ExUnitsSteps r = word_of_int (rv_Steps (snd item)) \<and> rd_Applied r = valid"

lemma redeemer_facts_points:
  assumes "redeemer_facts lib t txHash order ws item = Inr r" and "list_all2 rewards (rewarded t) ws"
  shows "points_at lib t r \<and> records (lt_IsValid t) item r"
proof -
  let ?v = "snd item"
  have nonneg: "0 \<le> rv_Memory ?v" "0 \<le> rv_Steps ?v"
    using assms(1) by (auto simp: redeemer_facts_def Let_def split: if_splits)
  from assms(1) obtain dataHash where res: "resolveRedeemer lib t (fst item)
      \<lparr>rd_TransactionHash = txHash, rd_TransactionOrder = order, rd_RawPurposeTag = rk_Tag (fst item), rd_Purpose = '''',
       rd_Index = rk_Index (fst item), rd_DataCBOR = rv_Data ?v, rd_DataHash = dataHash,
       rd_ExUnitsMemory = uint64_of_int64 (rv_Memory ?v), rd_ExUnitsSteps = uint64_of_int64 (rv_Steps ?v),
       rd_Applied = lt_IsValid t, rd_TargetTxHash = None, rd_TargetOutputIndex = None, rd_TargetPolicyID = None,
       rd_TargetRewardAccount = None, rd_TargetBodyOrdinal = None, rd_TargetIdentity = None, rd_ResolvedScriptHash = None\<rparr>
      (lt_Inputs t) ws = Inr r"
    unfolding redeemer_facts_def Let_def by (auto simp only: bindE_eq_Inr sum.distinct not_less split: if_split_asm)
  from resolveRedeemer_points [OF res _ assms(2)] have "points_at lib t r" "records (lt_IsValid t) item r"
    using nonneg by (auto simp: untargeted_fields unchanged_def points_at_def records_def key_of_def uint64_of_int64_def)
  then show ?thesis ..
qed

lemma assign_all_entries: "set (assign_all es) \<subseteq> set es \<and> fst ` set (assign_all es) = fst ` set es"
proof -
  have "set (fold (\<lambda>(k, v). AList.update k v) es acc) \<subseteq> set acc \<union> set es \<and>
      fst ` set (fold (\<lambda>(k, v). AList.update k v) es acc) = fst ` set acc \<union> fst ` set es" for acc
  proof (induction es arbitrary: acc)
    case (Cons e es)
    have "set (AList.update (fst e) (snd e) acc) \<subseteq> insert e (set acc)" by (induction acc) auto
    moreover have "fst ` set (AList.update (fst e) (snd e) acc) = insert (fst e) (fst ` set acc)" by (simp add: dom_update)
    ultimately show ?case using Cons [of "AList.update (fst e) (snd e) acc"] by (cases e) auto
  qed simp
  from this [of "[]"] show ?thesis by (simp add: assign_all_def)
qed

lemma canonicalRedeemerItems_given:
  assumes "canonicalRedeemerItems lib rs = Inr items" and "Option.bind (lt_Witnesses t) ws_Redeemers = Some rs"
  shows "distinct (map fst items) \<and> set items \<subseteq> given_redeemers lib t \<and> fst ` set items = fst ` given_redeemers lib t"
proof -
  from assms(1) obtain es where items: "items = SortFunc (on_key fst (nl_CompareRedeemerKeys lib)) (assign_all es)" and "set es = given_redeemers lib t"
  proof (cases "array_encoded rs")
    case True
    with assms that show thesis
      by (fastforce simp: canonicalRedeemerItems_def array_encoded_def given_redeemers_def legacy_entry_def Let_def split: sum.splits prod.splits if_splits)
  next
    case False
    with assms that show thesis
      by (cases "lr_Cbor rs"; cases "the (lr_Cbor rs)")
        (auto simp: canonicalRedeemerItems_def array_encoded_def given_redeemers_def Let_def split: if_splits)
  qed
  moreover have "distinct (map fst items)"
    using assign_all_distinct [of es] by (metis items mset_SortFunc mset_map mset_eq_imp_distinct_iff)
  ultimately show ?thesis using assign_all_entries [of es] by (simp add: items)
qed

lemma redeemerBundle_given:
  assumes "redeemerBundle lib t txHash order ws = Inr rows" and "list_all2 rewards (rewarded t) ws"
  shows "distinct (map key_of rows) \<and> key_of ` set rows = fst ` given_redeemers lib t \<and>
    (\<forall>r \<in> set rows. points_at lib t r \<and> (\<exists>item \<in> given_redeemers lib t. records (lt_IsValid t) item r))"
proof (cases "Option.bind (lt_Witnesses t) ws_Redeemers")
  case None
  then have "rows = []" using assms(1) by (auto simp: redeemerBundle_def split: option.splits)
  with None show ?thesis by (simp add: given_redeemers_def)
next
  case (Some rs)
  with assms(1) obtain items where items: "canonicalRedeemerItems lib rs = Inr items"
    and rows: "mapM (redeemer_facts lib t txHash order ws) items = Inr rows"
    by (auto simp: redeemerBundle_def err_simps split: option.splits if_splits bind_splits)
  note given = canonicalRedeemerItems_given [OF items Some]
  have "map key_of rows = map fst items"
    by (rule mapM_map [OF rows]) (auto simp: records_def dest: redeemer_facts_points [OF _ assms(2)])
  moreover have "points_at lib t r \<and> (\<exists>item \<in> given_redeemers lib t. records (lt_IsValid t) item r)" if "r \<in> set rows" for r
    using mapM_set [OF rows that] given redeemer_facts_points [OF _ assms(2)] by blast
  ultimately show ?thesis using given by (metis list.set_map)
qed

text \<open>
  C6. Redeemers mean what the ledger means. The redeemers of the facts are those of the witness set, one per
  key, each with the data and the execution units given there; the tag of a redeemer decides its purpose, and
  its index the target, counted in the order of the ledger: the output in the sorted set of spent outputs, the
  policy in the sorted policies, the reward account by network and credential with scripts first, the voter
  by role and hash, the certificate and the proposal in the body. The recorded script is exactly that of the
  target (the policy, the script credential of the account or certificate, the script voter, the policy of
  the proposal), and absent where the target has none.
\<close>

theorem redeemers_point_at_targets:
  assumes "transactionBundle lib t order era datums = Inr (facts, datums')" and "credentialed (lt_Withdrawals t)"
  shows "distinct (map key_of (tx_Redeemers facts)) \<and> key_of ` set (tx_Redeemers facts) = fst ` given_redeemers lib t \<and>
    (\<forall>r \<in> set (tx_Redeemers facts). points_at lib t r \<and> (\<exists>item \<in> given_redeemers lib t. records (lt_IsValid t) item r))"
proof -
  from assms(1) obtain txHash where "withdrawalBundle t txHash order = Inr (tx_Withdrawals facts)"
    and "redeemerBundle lib t txHash order (tx_Withdrawals facts) = Inr (tx_Redeemers facts)"
    by (rule transactionBundle_Inr) simp
  then show ?thesis by (intro redeemerBundle_given withdrawals_in_reference_order [OF assms(2)])
qed

lemma sample_credentialed: "credentialed (lt_Withdrawals (sample_tx a sample_withdrawals))"
  by (simp add: credentialed_def withdrawal_key_def sample_tx_def sample_withdrawals_def sample_account_def withdrawal_credential_def checked_replicate)

text \<open>The script account comes first although the transaction lists it second.\<close>

theorem redeemers_point_at_targets_witness:
  "map rd_Purpose (tx_Redeemers sample_facts) = [''reward''] \<and>
   rewards_at (sample_tx sample_assets sample_withdrawals) 0 (hd (tx_Redeemers sample_facts)) \<and>
   rd_ResolvedScriptHash (hd (tx_Redeemers sample_facts)) = Some (fill28 2)"
proof -
  have "points_at sample_lib (sample_tx sample_assets sample_withdrawals) (hd (tx_Redeemers sample_facts))"
    using redeemers_point_at_targets [OF sample_transaction sample_credentialed] by (simp add: sample_facts_def)
  then show ?thesis by (simp add: points_at_def purposes_def sample_lib_def) (simp add: sample_facts_def)
qed

end
