(* ===== verification/Adopted_Facts.thy ===== *)
theory Adopted_Facts
  imports Store_Machine
begin

text \<open>
  The order of the inserts of \<^verbatim>\<open>Publish\<close>: the nine fact tables first, all of them acknowledged, and only
  then the adoptions. A block of which an adoption can be read, acknowledged or not, has all its facts
  in the tables.
\<close>

section \<open>Counting\<close>

definition facts_of :: "(transaction \<Rightarrow> 'a list) \<Rightarrow> block \<Rightarrow> 'a list" where
  "facts_of k b = concat (map k (bk_Transactions b))"

definition metadata_of :: "transaction \<Rightarrow> metadata list" where
  "metadata_of t = (case tx_Metadata t of None \<Rightarrow> [] | Some m \<Rightarrow> [m])"

lemma fold_counts:
  fixes c :: fact_counts
  defines "F \<equiv> \<lambda>t c. c\<lparr>fc_inputs := fc_inputs c + of_nat (length (tx_Inputs t)),
         fc_outputs := fc_outputs c + of_nat (length (tx_Outputs t)),
         fc_datumObservations := fc_datumObservations c + of_nat (length (tx_DatumObservations t)),
         fc_withdrawals := fc_withdrawals c + of_nat (length (tx_Withdrawals t)),
         fc_redeemers := fc_redeemers c + of_nat (length (tx_Redeemers t)),
         fc_metadata := (if tx_Metadata t \<noteq> None then fc_metadata c + 1 else fc_metadata c)\<rparr>"
  shows "fc_inputs (fold F ts c) = fc_inputs c + of_nat (length (concat (map tx_Inputs ts))) \<and>
    fc_outputs (fold F ts c) = fc_outputs c + of_nat (length (concat (map tx_Outputs ts))) \<and>
    fc_datumObservations (fold F ts c) = fc_datumObservations c + of_nat (length (concat (map tx_DatumObservations ts))) \<and>
    fc_withdrawals (fold F ts c) = fc_withdrawals c + of_nat (length (concat (map tx_Withdrawals ts))) \<and>
    fc_redeemers (fold F ts c) = fc_redeemers c + of_nat (length (concat (map tx_Redeemers ts))) \<and>
    fc_metadata (fold F ts c) = fc_metadata c + of_nat (length (concat (map metadata_of ts)))"
proof (induction ts arbitrary: c)
  case (Cons t ts)
  have "of_nat (length (metadata_of t)) = (if tx_Metadata t \<noteq> None then 1 else 0 :: u64)"
    by (simp add: metadata_of_def split: option.splits)
  with Cons [of "F t c"] show ?case by (simp add: F_def algebra_simps)
qed simp

lemma countFacts_counts:
  "fc_inputs (countFacts b) = of_nat (length (facts_of tx_Inputs b))"
  "fc_outputs (countFacts b) = of_nat (length (facts_of tx_Outputs b))"
  "fc_datumObservations (countFacts b) = of_nat (length (facts_of tx_DatumObservations b))"
  "fc_withdrawals (countFacts b) = of_nat (length (facts_of tx_Withdrawals b))"
  "fc_redeemers (countFacts b) = of_nat (length (facts_of tx_Redeemers b))"
  "fc_metadata (countFacts b) = of_nat (length (facts_of metadata_of b))"
  unfolding countFacts_def facts_of_def
  by (simp_all only: fold_counts) (simp_all only: fact_counts.select_convs add_0)

text \<open>The batch of an insert, and that an insert without an error made all of it durable.\<close>

definition batch_rows :: "'row batch \<Rightarrow> 'row list" where
  "batch_rows b = (case b of Inr (Some rows) \<Rightarrow> rows | _ \<Rightarrow> [])"

lemma run_insert_ok: "snd (run_insert oc b) = None \<Longrightarrow> fst (run_insert oc b) = batch_rows b \<and> (\<exists>x. b = Inr x)"
  by (auto simp: run_insert_def batch_rows_def split: sum.splits option.splits if_splits)

lemma joined_None: "joined errs = None \<longleftrightarrow> (\<forall>e \<in> set errs. e = None)"
proof -
  let ?failures = "filter (\<lambda>e. e \<noteq> None) errs"
  have "joined errs = None \<longleftrightarrow> ?failures = []"
  proof (cases ?failures)
    case (Cons e rest)
    then have "e \<in> set ?failures" by simp
    then show ?thesis using Cons by (simp add: joined_def)
  qed (simp add: joined_def)
  then show ?thesis by (auto simp: filter_empty_conv)
qed

lemma total_count_sum:
  assumes "\<And>p. p \<in> set pubs \<Longrightarrow> f (pb_Counts p) = of_nat (n p)"
  shows "total_count f pubs = of_nat (sum_list (map n pubs))"
proof -
  have "(\<And>p. p \<in> set pubs \<Longrightarrow> f (pb_Counts p) = of_nat (n p)) \<Longrightarrow>
      fold (\<lambda>p total. total + f (pb_Counts p)) pubs a = a + of_nat (sum_list (map n pubs))" for a :: u64
    by (induction pubs arbitrary: a) (simp_all add: algebra_simps)
  from this [OF assms, of 0] show ?thesis by (simp add: total_count_def)
qed

lemma guarded_batch:
  assumes "\<And>p. p \<in> set pubs \<Longrightarrow> f (pb_Counts p) = of_nat (length (facts_of k (pb_Block p)))"
    and "sum_list (map (\<lambda>p. length (facts_of k (pb_Block p))) pubs) < 2 ^ 64"
    and "item \<in> set pubs" and "x \<in> set (facts_of k (pb_Block item))"
  shows "row item x \<in> set (batch_rows (if total_count f pubs = 0 then Inr None
    else Inr (Some (tx_facts (\<lambda>item t. map (row item) (k t)) pubs))))"
proof -
  let ?n = "sum_list (map (\<lambda>p. length (facts_of k (pb_Block p))) pubs)"
  have "0 < length (facts_of k (pb_Block item))" using assms(4) by (cases "facts_of k (pb_Block item)") auto
  also have "length (facts_of k (pb_Block item)) \<le> ?n" using assms(3) by (intro member_le_sum_list) auto
  finally have "?n \<noteq> 0" by blast
  moreover have "unat (of_nat ?n :: u64) = ?n" using assms(2) by (simp only: unat_of_nat) simp
  ultimately have "unat (of_nat ?n :: u64) \<noteq> 0" by metis
  moreover have "total_count f pubs = of_nat ?n" using assms(1) by (rule total_count_sum)
  ultimately have "total_count f pubs \<noteq> 0" by (metis unat_0)
  moreover have "row item x \<in> set (tx_facts (\<lambda>item t. map (row item) (k t)) pubs)"
    using assms(3,4) by (auto simp: tx_facts_def facts_of_def)
  ultimately show ?thesis by (simp add: batch_rows_def)
qed

section \<open>Stored facts\<close>

text \<open>The key columns of every fact of a block, in the table of its kind and under one publication number.\<close>

definition stored_transaction :: "fact_tables \<Rightarrow> u64 \<Rightarrow> transaction \<Rightarrow> bool" where
  "stored_transaction f pid t \<longleftrightarrow>
     (\<exists>r \<in> set (tb_transactions f). t_publication_id r = pid \<and> t_tx_hash r = bytes32 (tx_Hash t) \<and> t_tx_order r = tx_Order t \<and>
        t_phase2_valid r = tx_Phase2Valid t) \<and>
     (\<forall>x \<in> set (tx_Inputs t). \<exists>r \<in> set (tb_inputs f). i_publication_id r = pid \<and> i_tx_hash r = bytes32 (in_TransactionHash x) \<and>
        i_source_tx_hash r = bytes32 (in_SourceHash x) \<and> i_source_output_index r = in_SourceIndex x \<and> i_role r = in_Role x \<and>
        i_is_consumed r = in_Consumed x) \<and>
     (\<forall>x \<in> set (tx_Outputs t). \<exists>r \<in> set (tb_outputs f). o_publication_id r = pid \<and> o_tx_hash r = bytes32 (out_TransactionHash x) \<and>
        o_output_index r = out_Index x \<and> o_address r = out_Address x \<and> o_lovelace r = out_Lovelace x) \<and>
     (\<forall>x \<in> set (tx_DatumObservations t). \<exists>r \<in> set (tb_datum_observations f). x_publication_id r = pid \<and>
        x_datum_hash r = bytes32 (do_Hash x) \<and> x_tx_hash r = bytes32 (do_TransactionHash x) \<and> x_source_kind r = do_SourceKind x \<and>
        x_source_ordinal r = do_SourceOrdinal x) \<and>
     (\<forall>x \<in> set (tx_Withdrawals t). \<exists>r \<in> set (tb_withdrawals f). w_publication_id r = pid \<and>
        w_tx_hash r = bytes32 (wd_TransactionHash x) \<and> w_reward_account r = wd_RewardAccount x \<and> w_lovelace r = wd_Lovelace x) \<and>
     (\<forall>x \<in> set (tx_Redeemers t). \<exists>r \<in> set (tb_redeemers f). r_publication_id r = pid \<and>
        r_tx_hash r = bytes32 (rd_TransactionHash x) \<and> r_raw_purpose_tag r = rd_RawPurposeTag x \<and> r_redeemer_index r = rd_Index x \<and>
        r_data_cbor r = rd_DataCBOR x) \<and>
     (\<forall>x \<in> set (metadata_of t). \<exists>r \<in> set (tb_metadata f). m_publication_id r = pid \<and>
        m_tx_hash r = bytes32 (md_TransactionHash x) \<and> m_labels r = md_Labels x \<and> m_metadata_cbor r = md_CBOR x)"

definition stored :: "fact_tables \<Rightarrow> u64 \<Rightarrow> candidate \<Rightarrow> bool" where
  "stored f pid c \<longleftrightarrow>
     (\<exists>r \<in> set (tb_blocks f). b_publication_id r = pid \<and> b_block_hash r = bytes32 (bk_Hash (ca_Block c)) \<and>
        b_slot r = bk_Slot (ca_Block c) \<and> b_block_number r = bk_Number (ca_Block c) \<and> b_content_hash r = bytes32 (ca_ContentHash c)) \<and>
     (\<forall>t \<in> set (bk_Transactions (ca_Block c)). stored_transaction f pid t) \<and>
     (\<forall>x \<in> set (bk_Datums (ca_Block c)). \<exists>r \<in> set (tb_datum_bodies f). d_publication_id r = pid \<and>
        d_datum_hash r = bytes32 (db_Hash x) \<and> d_datum_cbor r = db_CBOR x)"

text \<open>The facts of a batch can be counted in 64 bits.\<close>

definition countable_facts :: "candidate list \<Rightarrow> bool" where
  "countable_facts candidates \<longleftrightarrow>
     sum_list (map (\<lambda>c. length (facts_of tx_Inputs (ca_Block c)) + length (facts_of tx_Outputs (ca_Block c)) +
       length (facts_of tx_DatumObservations (ca_Block c)) + length (facts_of tx_Withdrawals (ca_Block c)) +
       length (facts_of tx_Redeemers (ca_Block c)) + length (facts_of metadata_of (ca_Block c))) candidates) < 2 ^ 64"

lemma countable_each:
  assumes "countable_facts candidates" and "map pb_Block pubs = map ca_Block candidates"
  shows "sum_list (map (\<lambda>p. length (facts_of tx_Inputs (pb_Block p))) pubs) < 2 ^ 64"
    and "sum_list (map (\<lambda>p. length (facts_of tx_Outputs (pb_Block p))) pubs) < 2 ^ 64"
    and "sum_list (map (\<lambda>p. length (facts_of tx_DatumObservations (pb_Block p))) pubs) < 2 ^ 64"
    and "sum_list (map (\<lambda>p. length (facts_of tx_Withdrawals (pb_Block p))) pubs) < 2 ^ 64"
    and "sum_list (map (\<lambda>p. length (facts_of tx_Redeemers (pb_Block p))) pubs) < 2 ^ 64"
    and "sum_list (map (\<lambda>p. length (facts_of metadata_of (pb_Block p))) pubs) < 2 ^ 64"
proof -
  have eq: "map (\<lambda>p. g (pb_Block p)) pubs = map (\<lambda>c. g (ca_Block c)) candidates" for g :: "block \<Rightarrow> nat"
    using arg_cong [OF assms(2), of "map g"] by (simp add: comp_def)
  have le: "sum_list (map (\<lambda>p. g (pb_Block p)) pubs) < 2 ^ 64"
    if "\<And>b. g b \<le> length (facts_of tx_Inputs b) + length (facts_of tx_Outputs b) + length (facts_of tx_DatumObservations b) +
      length (facts_of tx_Withdrawals b) + length (facts_of tx_Redeemers b) + length (facts_of metadata_of b)" for g
    unfolding eq using assms(1) unfolding countable_facts_def
    by (rule le_less_trans [OF sum_list_mono [OF that], rotated])
  show "sum_list (map (\<lambda>p. length (facts_of tx_Inputs (pb_Block p))) pubs) < 2 ^ 64"
    "sum_list (map (\<lambda>p. length (facts_of tx_Outputs (pb_Block p))) pubs) < 2 ^ 64"
    "sum_list (map (\<lambda>p. length (facts_of tx_DatumObservations (pb_Block p))) pubs) < 2 ^ 64"
    "sum_list (map (\<lambda>p. length (facts_of tx_Withdrawals (pb_Block p))) pubs) < 2 ^ 64"
    "sum_list (map (\<lambda>p. length (facts_of tx_Redeemers (pb_Block p))) pubs) < 2 ^ 64"
    "sum_list (map (\<lambda>p. length (facts_of metadata_of (pb_Block p))) pubs) < 2 ^ 64"
    by (rule le, simp)+
qed

lemma facts_insertedI:
  assumes "insertFactsConcurrently oc i pubs f = (f', None)"
  shows "set (batch_rows (insertBlocks (di_NetworkMagic i) pubs)) \<subseteq> set (tb_blocks f')"
    and "set (batch_rows (insertTransactions pubs)) \<subseteq> set (tb_transactions f')"
    and "\<exists>rows. insertTransactions pubs = Inr rows"
    and "set (batch_rows (insertInputs pubs)) \<subseteq> set (tb_inputs f')"
    and "set (batch_rows (insertOutputs pubs)) \<subseteq> set (tb_outputs f')"
    and "set (batch_rows (insertDatumBodies pubs)) \<subseteq> set (tb_datum_bodies f')"
    and "set (batch_rows (insertDatumObservations pubs)) \<subseteq> set (tb_datum_observations f')"
    and "set (batch_rows (insertWithdrawals pubs)) \<subseteq> set (tb_withdrawals f')"
    and "set (batch_rows (insertRedeemers pubs)) \<subseteq> set (tb_redeemers f')"
    and "set (batch_rows (insertMetadata pubs)) \<subseteq> set (tb_metadata f')"
proof -
  have ok: "snd (run_insert (fo_blocks oc) (insertBlocks (di_NetworkMagic i) pubs)) = None"
    "snd (run_insert (fo_transactions oc) (insertTransactions pubs)) = None"
    "snd (run_insert (fo_inputs oc) (insertInputs pubs)) = None"
    "snd (run_insert (fo_outputs oc) (insertOutputs pubs)) = None"
    "snd (run_insert (fo_datum_bodies oc) (insertDatumBodies pubs)) = None"
    "snd (run_insert (fo_datum_observations oc) (insertDatumObservations pubs)) = None"
    "snd (run_insert (fo_withdrawals oc) (insertWithdrawals pubs)) = None"
    "snd (run_insert (fo_redeemers oc) (insertRedeemers pubs)) = None"
    "snd (run_insert (fo_metadata oc) (insertMetadata pubs)) = None"
    using assms by (simp_all add: insertFactsConcurrently_def case_prod_beta Let_def joined_None)
  note rows = ok [THEN run_insert_ok, THEN conjunct1]
  have f': "f' = fst (insertFactsConcurrently oc i pubs f)" using assms by simp
  show "set (batch_rows (insertBlocks (di_NetworkMagic i) pubs)) \<subseteq> set (tb_blocks f')"
    "set (batch_rows (insertTransactions pubs)) \<subseteq> set (tb_transactions f')"
    "set (batch_rows (insertInputs pubs)) \<subseteq> set (tb_inputs f')"
    "set (batch_rows (insertOutputs pubs)) \<subseteq> set (tb_outputs f')"
    "set (batch_rows (insertDatumBodies pubs)) \<subseteq> set (tb_datum_bodies f')"
    "set (batch_rows (insertDatumObservations pubs)) \<subseteq> set (tb_datum_observations f')"
    "set (batch_rows (insertWithdrawals pubs)) \<subseteq> set (tb_withdrawals f')"
    "set (batch_rows (insertRedeemers pubs)) \<subseteq> set (tb_redeemers f')"
    "set (batch_rows (insertMetadata pubs)) \<subseteq> set (tb_metadata f')"
    unfolding f' by (simp_all add: insertFactsConcurrently_def case_prod_beta Let_def rows)
  show "\<exists>rows. insertTransactions pubs = Inr rows" using run_insert_ok [OF ok(2)] by blast
qed

lemma mapM_member:
  assumes "mapM f xs = Inr ys" and "x \<in> set xs" shows "\<exists>y \<in> set ys. f x = Inr y"
proof -
  from assms obtain n where "n < length xs" "x = xs ! n" by (auto simp: in_set_conv_nth)
  with assms(1) show ?thesis by (auto simp: mapM_eq_Inr_iff list_all2_conv_all_nth intro!: bexI [of _ "ys ! n"])
qed

lemma transaction_batch:
  assumes "insertTransactions pubs = Inr rows" and "item \<in> set pubs" and "t \<in> set (bk_Transactions (pb_Block item))"
  shows "\<exists>r \<in> set (batch_rows (insertTransactions pubs)). transaction_row item t = Inr r"
proof -
  let ?pairs = "concat (map (\<lambda>item. map (Pair item) (bk_Transactions (pb_Block item))) pubs)"
  have "hasTransactions pubs" unfolding hasTransactions_def list_ex_iff
    using assms(2,3) by (intro bexI [of _ item]) (auto simp: in_set_conv_nth)
  with assms(1) obtain rs where rs: "mapM (\<lambda>(item, t). transaction_row item t) ?pairs = Inr rs"
    and batch: "insertTransactions pubs = Inr (Some rs)" by (auto simp: insertTransactions_def err_simps)
  have "(item, t) \<in> set ?pairs" using assms(2,3) by auto
  with rs have "\<exists>r \<in> set rs. (\<lambda>(item, t). transaction_row item t) (item, t) = Inr r" by (rule mapM_member)
  then show ?thesis by (simp add: batch batch_rows_def)
qed

lemma body_batch:
  assumes "item \<in> set pubs" and "x \<in> set (bk_Datums (pb_Block item))"
  shows "datum_body_row item x \<in> set (batch_rows (insertDatumBodies pubs))"
proof -
  have "0 < length (bk_Datums (pb_Block item))" using assms(2) by (auto simp: in_set_conv_nth)
  also have "length (bk_Datums (pb_Block item)) \<le> sum_list (map (\<lambda>item. length (bk_Datums (pb_Block item))) pubs)"
    using assms(1) by (intro member_le_sum_list) auto
  finally have "sum_list (map (\<lambda>item. length (bk_Datums (pb_Block item))) pubs) \<noteq> 0" by blast
  then have "batch_rows (insertDatumBodies pubs) =
      concat (map (\<lambda>item. map (datum_body_row item) (bk_Datums (pb_Block item))) pubs)"
    unfolding insertDatumBodies_def batch_rows_def by (simp only: if_False sum.case option.case)
  then show ?thesis using assms by auto
qed

lemma insertMetadata_batch:
  "insertMetadata pubs = (if total_count fc_metadata pubs = 0 then Inr None
     else Inr (Some (tx_facts (\<lambda>item t. map (metadata_row_of item) (metadata_of t)) pubs)))"
proof -
  have "(\<lambda>item t. case tx_Metadata t of None \<Rightarrow> [] | Some m \<Rightarrow> [metadata_row_of item m]) =
      (\<lambda>item t. map (metadata_row_of item) (metadata_of t))"
    by (intro ext) (simp add: metadata_of_def split: option.splits)
  then show ?thesis by (simp add: insertMetadata_def totalMetadata_def)
qed

lemma fact_rows_inserted:
  assumes ok: "insertFactsConcurrently oc i pubs f = (f', None)" and item: "item \<in> set pubs"
    and counts: "\<forall>p \<in> set pubs. pb_Counts p = countFacts (pb_Block p)"
    and countable: "countable_facts candidates" "map pb_Block pubs = map ca_Block candidates"
  shows "\<And>x. x \<in> set (facts_of tx_Inputs (pb_Block item)) \<Longrightarrow> input_row item x \<in> set (tb_inputs f')"
    and "\<And>x. x \<in> set (facts_of tx_Outputs (pb_Block item)) \<Longrightarrow> output_row item x \<in> set (tb_outputs f')"
    and "\<And>x. x \<in> set (facts_of tx_DatumObservations (pb_Block item)) \<Longrightarrow>
      datum_observation_row item x \<in> set (tb_datum_observations f')"
    and "\<And>x. x \<in> set (facts_of tx_Withdrawals (pb_Block item)) \<Longrightarrow> withdrawal_row item x \<in> set (tb_withdrawals f')"
    and "\<And>x. x \<in> set (facts_of tx_Redeemers (pb_Block item)) \<Longrightarrow> redeemer_row item x \<in> set (tb_redeemers f')"
    and "\<And>x. x \<in> set (facts_of metadata_of (pb_Block item)) \<Longrightarrow> metadata_row_of item x \<in> set (tb_metadata f')"
    and "\<And>t. t \<in> set (bk_Transactions (pb_Block item)) \<Longrightarrow> \<exists>r \<in> set (tb_transactions f'). transaction_row item t = Inr r"
    and "\<And>x. x \<in> set (bk_Datums (pb_Block item)) \<Longrightarrow> datum_body_row item x \<in> set (tb_datum_bodies f')"
    and "block_row (di_NetworkMagic i) item \<in> set (tb_blocks f')"
proof -
  note tables = facts_insertedI [OF ok]
  note small = countable_each [OF countable]
  have counted: "pb_Counts p = countFacts (pb_Block p)" if "p \<in> set pubs" for p using counts that by blast
  show "input_row item x \<in> set (tb_inputs f')" if "x \<in> set (facts_of tx_Inputs (pb_Block item))" for x
    using guarded_batch [of pubs fc_inputs tx_Inputs item x input_row, OF _ small(1) item that] tables(4)
    by (auto simp: counted countFacts_counts insertInputs_def totalInputs_def)
  show "output_row item x \<in> set (tb_outputs f')" if "x \<in> set (facts_of tx_Outputs (pb_Block item))" for x
    using guarded_batch [of pubs fc_outputs tx_Outputs item x output_row, OF _ small(2) item that] tables(5)
    by (auto simp: counted countFacts_counts insertOutputs_def totalOutputs_def)
  show "datum_observation_row item x \<in> set (tb_datum_observations f')"
    if "x \<in> set (facts_of tx_DatumObservations (pb_Block item))" for x
    using guarded_batch [of pubs fc_datumObservations tx_DatumObservations item x datum_observation_row, OF _ small(3) item that]
      tables(7) by (auto simp: counted countFacts_counts insertDatumObservations_def totalDatumObservations_def)
  show "withdrawal_row item x \<in> set (tb_withdrawals f')" if "x \<in> set (facts_of tx_Withdrawals (pb_Block item))" for x
    using guarded_batch [of pubs fc_withdrawals tx_Withdrawals item x withdrawal_row, OF _ small(4) item that] tables(8)
    by (auto simp: counted countFacts_counts insertWithdrawals_def totalWithdrawals_def)
  show "redeemer_row item x \<in> set (tb_redeemers f')" if "x \<in> set (facts_of tx_Redeemers (pb_Block item))" for x
    using guarded_batch [of pubs fc_redeemers tx_Redeemers item x redeemer_row, OF _ small(5) item that] tables(9)
    by (auto simp: counted countFacts_counts insertRedeemers_def totalRedeemers_def)
  show "metadata_row_of item x \<in> set (tb_metadata f')" if "x \<in> set (facts_of metadata_of (pb_Block item))" for x
    using guarded_batch [of pubs fc_metadata metadata_of item x metadata_row_of, OF _ small(6) item that] tables(10)
    by (auto simp: counted countFacts_counts insertMetadata_batch)
  show "\<exists>r \<in> set (tb_transactions f'). transaction_row item t = Inr r"
    if "t \<in> set (bk_Transactions (pb_Block item))" for t
    using transaction_batch [OF _ item that] tables(2,3) by blast
  show "datum_body_row item x \<in> set (tb_datum_bodies f')" if "x \<in> set (bk_Datums (pb_Block item))" for x
    using body_batch [OF item that] tables(6) by blast
  show "block_row (di_NetworkMagic i) item \<in> set (tb_blocks f')"
    using tables(1) item by (auto simp: insertBlocks_def batch_rows_def)
qed

lemma facts_of_member: "t \<in> set (bk_Transactions b) \<Longrightarrow> x \<in> set (k t) \<Longrightarrow> x \<in> set (facts_of k b)"
  by (auto simp: facts_of_def)

lemmas fact_rows = block_row_def input_row_def output_row_def datum_body_row_def datum_observation_row_def
  withdrawal_row_def redeemer_row_def metadata_row_of_def

lemma facts_inserted_stored:
  assumes "insertFactsConcurrently oc i pubs f = (f', None)" and "item \<in> set pubs"
    and "\<forall>p \<in> set pubs. pb_Counts p = countFacts (pb_Block p)"
    and "countable_facts candidates" and "map pb_Block pubs = map ca_Block candidates"
    and c: "pb_Block item = ca_Block c" "pb_ContentHash item = ca_ContentHash c"
  shows "stored f' (pb_PublicationID item) c"
proof -
  note rows = fact_rows_inserted [OF assms(1-5)]
  have "stored_transaction f' (pb_PublicationID item) t" if t: "t \<in> set (bk_Transactions (pb_Block item))" for t
  proof -
    note row = facts_of_member [OF t]
    have transaction: "\<exists>r \<in> set (tb_transactions f'). t_publication_id r = pb_PublicationID item \<and>
        t_tx_hash r = bytes32 (tx_Hash t) \<and> t_tx_order r = tx_Order t \<and> t_phase2_valid r = tx_Phase2Valid t"
      using rows(7) [OF t] by (auto simp: transaction_row_def err_simps intro: rev_bexI)
    show ?thesis unfolding stored_transaction_def
      by (intro conjI ballI transaction; rule rev_bexI [OF rows(1) [OF row]] rev_bexI [OF rows(2) [OF row]]
          rev_bexI [OF rows(3) [OF row]] rev_bexI [OF rows(4) [OF row]] rev_bexI [OF rows(5) [OF row]]
          rev_bexI [OF rows(6) [OF row]], assumption) (simp_all add: fact_rows)
  qed
  moreover have "\<exists>r \<in> set (tb_blocks f'). b_publication_id r = pb_PublicationID item \<and> b_block_hash r = bytes32 (bk_Hash (ca_Block c)) \<and>
      b_slot r = bk_Slot (ca_Block c) \<and> b_block_number r = bk_Number (ca_Block c) \<and> b_content_hash r = bytes32 (ca_ContentHash c)"
    by (rule rev_bexI [OF rows(9)]) (simp add: fact_rows Let_def c)
  moreover have "\<exists>r \<in> set (tb_datum_bodies f'). d_publication_id r = pb_PublicationID item \<and> d_datum_hash r = bytes32 (db_Hash x) \<and>
      d_datum_cbor r = db_CBOR x" if "x \<in> set (bk_Datums (pb_Block item))" for x
    by (rule rev_bexI [OF rows(8) [OF that]]) (simp add: fact_rows)
  ultimately show ?thesis unfolding stored_def c by blast
qed

section \<open>Publication\<close>

lemma publish_rows_appends:
  assumes "publish_rows env h i pubs commit0 db = (db', commit, err)"
  shows "db_chain_events db' = db_chain_events db \<or>
    (\<exists>rows. db_chain_events db' = db_chain_events db @ rows \<and> set rows \<subseteq> adoption_row (sh_ebbType h) ` set pubs \<and>
       insertFactsConcurrently (pe_facts env) i pubs (db_facts db) = (db_facts db', None))"
proof -
  obtain facts factErr where f: "insertFactsConcurrently (pe_facts env) i pubs (db_facts db) = (facts, factErr)" by fastforce
  define db1 where "db1 = db\<lparr>db_facts := facts\<rparr>"
  obtain rows insertErr where r: "run_insert (pe_adoptions env) (Inr (Some (map (adoption_row (sh_ebbType h)) pubs))) = (rows, insertErr)"
    by fastforce
  have rows: "set rows \<subseteq> adoption_row (sh_ebbType h) ` set pubs"
    using r durable_rows_subset [of "pe_adoptions env"] by (fastforce simp: run_insert_def)
  from assms have "db' = db1 \<or> factErr = None \<and> db' = db1\<lparr>db_chain_events := db_chain_events db1 @ rows\<rparr>"
    unfolding publish_rows_def f insertAdoptions_def r db1_def
    by (auto simp: Let_def split: if_splits sum.splits bool.splits store_error.splits)
  then show ?thesis using rows by (auto simp: db1_def f)
qed

text \<open>The row of an adoption carries the point of a candidate's block.\<close>

definition adoption_of :: "candidate \<Rightarrow> chain_event \<Rightarrow> bool" where
  "adoption_of c r \<longleftrightarrow> ce_event_kind r = Adoption \<and> ce_active r \<and> ce_block_hash r = bytes32 (bk_Hash (ca_Block c)) \<and>
     ce_slot r = bk_Slot (ca_Block c) \<and> ce_block_number r = bk_Number (ca_Block c)"

lemma numbered_publication:
  assumes "p \<in> set (map (make_publication h t fp fe) (enumerate 0 candidates))"
  obtains n where "n < length candidates" and "p = make_publication h t fp fe (n, candidates ! n)"
  using assms by (auto simp: in_set_conv_nth nth_enumerate_eq)

lemma numbered_adoption:
  "ce_publication_id (adoption_row e (make_publication h t fp fe (n, c))) = pb_PublicationID (make_publication h t fp fe (n, c))"
  "adoption_of c (adoption_row e (make_publication h t fp fe (n, c)))"
  by (simp_all add: adoption_row_def adoption_of_def pointForBlock_def make_publication_def Let_def)

text \<open>
  C39. Facts before adoption: the chain events \<^verbatim>\<open>Publish\<close> adds, whatever it returns and however its
  inserts end, are active adoptions of blocks of the batch under the publication numbers it reports, and
  every fact of such a block is already stored under that number: the block with its content hash, every
  transaction, input, output, datum observation, withdrawal, redeemer and metadata of it, and every datum.
\<close>

theorem adoption_follows_facts:
  assumes "Publish env candidates h db = (h', db', commit, err)" and "countable_facts candidates"
  shows "\<exists>rows. db_chain_events db' = db_chain_events db @ rows \<and>
    (\<forall>r \<in> set rows. \<exists>n < length candidates. ce_publication_id r = cb_PublicationID (cm_Blocks commit ! n) \<and>
       adoption_of (candidates ! n) r \<and> stored (db_facts db') (ce_publication_id r) (candidates ! n))"
proof (cases "db_chain_events db' = db_chain_events db")
  case False
  with assms(1) obtain i fp fe commit0 where
    rows: "publish_rows env h i (map (make_publication h (now_micro (pe_clock env)) fp fe) (enumerate 0 candidates)) commit0 db =
      (db', commit, err)" and blocks: "cm_Blocks commit0 = map (make_block h fp fe) (enumerate 0 candidates)"
    by (auto simp: Publish_def Let_def split: if_splits sum.splits)
  let ?pubs = "map (make_publication h (now_micro (pe_clock env)) fp fe) (enumerate 0 candidates)"
  from publish_rows_appends [OF rows] False obtain new where new: "db_chain_events db' = db_chain_events db @ new"
    "set new \<subseteq> adoption_row (sh_ebbType h) ` set ?pubs"
    and facts: "insertFactsConcurrently (pe_facts env) i ?pubs (db_facts db) = (db_facts db', None)" by blast
  have counts: "\<forall>p \<in> set ?pubs. pb_Counts p = countFacts (pb_Block p)" by (auto simp: make_publication_def)
  have same: "map pb_Block ?pubs = map ca_Block candidates"
    by (rule nth_equalityI) (simp_all add: nth_enumerate_eq make_publication_def)
  have "\<exists>n < length candidates. ce_publication_id r = cb_PublicationID (cm_Blocks commit ! n) \<and>
      adoption_of (candidates ! n) r \<and> stored (db_facts db') (ce_publication_id r) (candidates ! n)" if "r \<in> set new" for r
  proof -
    from that new(2) obtain item where item: "item \<in> set ?pubs" "r = adoption_row (sh_ebbType h) item" by blast
    from item(1) obtain n where n: "n < length candidates"
      "item = make_publication h (now_micro (pe_clock env)) fp fe (n, candidates ! n)" by (rule numbered_publication)
    have "pb_PublicationID item = cb_PublicationID (cm_Blocks commit ! n)"
      unfolding publish_rows_blocks [OF rows] blocks
      using n by (simp add: nth_enumerate_eq make_publication_def make_block_def)
    moreover have "stored (db_facts db') (pb_PublicationID item) (candidates ! n)"
      by (rule facts_inserted_stored [OF facts item(1) counts assms(2) same]) (simp_all add: n(2) make_publication_def)
    moreover have "ce_publication_id r = pb_PublicationID item" "adoption_of (candidates ! n) r"
      unfolding item(2) n(2) by (rule numbered_adoption)+
    ultimately show ?thesis using n(1) by metis
  qed
  then show ?thesis using new(1) by blast
qed simp

text \<open>
  A block with a transaction, published by a call whose adoption insert lost its answer and whose
  readback failed: the call reports \<^verbatim>\<open>ErrCommitIndeterminate\<close>, the adoption is durable, and so are the
  facts.
\<close>

definition paid_transaction :: transaction where
  "paid_transaction = \<lparr>tx_Hash = fill32 11, tx_Order = 0, tx_ParentHash = None, tx_SubtransactionIndex = None,
     tx_Era = ''Conway'', tx_Phase2Valid = True, tx_FlowKind = ''regular'', tx_DeclaredFee = Some 170000,
     tx_EffectiveFee = Some 170000, tx_MintApplied = True, tx_Mint = [],
     tx_Inputs = [\<lparr>in_TransactionHash = fill32 11, in_TransactionOrder = 0, in_SourceHash = fill32 10, in_SourceIndex = 3,
       in_BodyOrdinal = 0, in_Role = ''regular'', in_Consumed = True\<rparr>],
     tx_Outputs = [], tx_Withdrawals = [], tx_Redeemers = [], tx_Metadata = None, tx_DatumObservations = []\<rparr>"

definition paid_candidate :: candidate where
  "paid_candidate = (sample_candidate 2 10)\<lparr>ca_Block := (sample_block 2 10)\<lparr>bk_Transactions := [paid_transaction]\<rparr>\<rparr>"

definition uncertain_env :: publish_env where
  "uncertain_env = (sample_publish_env (SendFails [True]))\<lparr>pe_readback := QueryFails\<rparr>"

definition paid_published :: "store_handle \<times> database \<times> commit \<times> store_error option" where
  "paid_published = Publish uncertain_env [paid_candidate] sample_handle empty_database"

lemma paid_published_ok:
  "map ce_publication_id (db_chain_events (fst (snd paid_published))) = [1]"
  "snd (snd (snd paid_published)) = Some ErrCommitIndeterminate"
  by (simp_all add: paid_published_def uncertain_env_def paid_candidate_def paid_transaction_def sample_point_def
      sample_defs publish_eval transaction_row_def max_uint32_def)

lemma paid_countable: "countable_facts [paid_candidate]"
  by (simp add: countable_facts_def facts_of_def metadata_of_def paid_candidate_def paid_transaction_def)

theorem adoption_follows_facts_witness:
  "snd (snd (snd paid_published)) = Some ErrCommitIndeterminate \<and>
   (\<exists>r \<in> set (tb_inputs (db_facts (fst (snd paid_published)))). i_publication_id r = 1 \<and> i_source_output_index r = 3)"
proof -
  have call: "Publish uncertain_env [paid_candidate] sample_handle empty_database =
      (fst paid_published, fst (snd paid_published), fst (snd (snd paid_published)), snd (snd (snd paid_published)))"
    by (simp add: paid_published_def)
  from paid_published_ok(1) obtain row where "db_chain_events (fst (snd paid_published)) = [row]" "ce_publication_id row = 1" by auto
  moreover have "db_chain_events empty_database = []" by (simp add: empty_database_def)
  ultimately have "stored (db_facts (fst (snd paid_published))) 1 paid_candidate"
    using adoption_follows_facts [OF call paid_countable] by auto
  then show ?thesis
    by (auto simp: paid_published_ok(2) stored_def stored_transaction_def paid_candidate_def paid_transaction_def)
qed

end
