(* ===== verification/Migrations.thy ===== *)
theory Migrations
  imports Go_Text Relay_Failures
begin

text \<open>
  \<^verbatim>\<open>migrations/embed.go\<close>: the splitter of the schema migration into statements, over ASCII text,
  and its equivalence with a grammar of SQL text made of characters, quoted texts, comments and
  semicolons.
\<close>

section \<open>The splitter\<close>

abbreviation newline :: char where
  "newline \<equiv> CHR 0x0A"

abbreviation backslash :: char where
  "backslash \<equiv> CHR 0x5C"

definition is_quote :: "char \<Rightarrow> bool" where
  "is_quote c \<longleftrightarrow> c \<in> {CHR 0x27, CHR 0x22, CHR 0x60}"

text \<open>The rune \<^verbatim>\<open>quote\<close> is zero outside quotes: here \<open>None\<close>.\<close>

record splitter =
  sp_statements :: "string list"
  sp_current :: string
  sp_quote :: "char option"
  sp_lineComment :: bool
  sp_blockComment :: bool

definition new_splitter :: splitter where
  "new_splitter = \<lparr>sp_statements = [], sp_current = [], sp_quote = None, sp_lineComment = False, sp_blockComment = False\<rparr>"

definition WriteRune :: "char \<Rightarrow> splitter \<Rightarrow> splitter" where
  "WriteRune c st = st\<lparr>sp_current := sp_current st @ [c]\<rparr>"

definition add_statement :: "string \<Rightarrow> string list \<Rightarrow> string list" where
  "add_statement current statements =
     (let statement = TrimSpace current in if statement \<noteq> '''' then statements @ [statement] else statements)"

definition end_statement :: "splitter \<Rightarrow> splitter" where
  "end_statement st = st\<lparr>sp_statements := add_statement (sp_current st) (sp_statements st), sp_current := ''''\<rparr>"

definition next_is :: "char \<Rightarrow> string \<Rightarrow> bool" where
  "next_is c cs \<longleftrightarrow> cs \<noteq> [] \<and> hd cs = c"

function split_loop :: "string \<Rightarrow> splitter \<Rightarrow> splitter" where
  "split_loop [] st = st"
| "split_loop (c # cs) st =
     (if sp_lineComment st then
        (if c = newline then split_loop cs (WriteRune c (st\<lparr>sp_lineComment := False\<rparr>)) else split_loop cs st)
      else if sp_blockComment st then
        (if c = CHR ''*'' \<and> next_is CHR ''/'' cs then split_loop (tl cs) (st\<lparr>sp_blockComment := False\<rparr>)
         else if c = newline then split_loop cs (WriteRune c st)
         else split_loop cs st)
      else case sp_quote st of
        Some quote \<Rightarrow>
          if c = backslash \<and> cs \<noteq> [] then split_loop (tl cs) (WriteRune (hd cs) (WriteRune c st))
          else if c = quote then
            (if next_is quote cs then split_loop (tl cs) (WriteRune (hd cs) (WriteRune c st))
             else split_loop cs ((WriteRune c st)\<lparr>sp_quote := None\<rparr>))
          else split_loop cs (WriteRune c st)
      | None \<Rightarrow>
          if c = CHR ''-'' \<and> next_is CHR ''-'' cs then split_loop (tl cs) (st\<lparr>sp_lineComment := True\<rparr>)
          else if c = CHR ''/'' \<and> next_is CHR ''*'' cs then split_loop (tl cs) (st\<lparr>sp_blockComment := True\<rparr>)
          else if is_quote c then split_loop cs (WriteRune c (st\<lparr>sp_quote := Some c\<rparr>))
          else if c = CHR '';'' then split_loop cs (end_statement st)
          else split_loop cs (WriteRune c st))"
  by pat_completeness auto
termination by (relation "measure (length \<circ> fst)") auto

definition SplitSQL :: "string \<Rightarrow> go_error + string list" where
  "SplitSQL source =
     (let st = split_loop source new_splitter in
      if sp_quote st \<noteq> None then Inl (errorsNew ''unterminated SQL quote'')
      else if sp_blockComment st then Inl (errorsNew ''unterminated SQL block comment'')
      else Inr (add_statement (sp_current st) (sp_statements st)))"

section \<open>The grammar\<close>

datatype piece = Literal char | Escaped char | Doubled

datatype sql_item = Ordinary char | Quoted char "piece list" | LineComment string | BlockComment string | Semicolon

fun piece_text :: "char \<Rightarrow> piece \<Rightarrow> string" where
  "piece_text q (Literal c) = [c]"
| "piece_text q (Escaped c) = [backslash, c]"
| "piece_text q Doubled = [q, q]"

fun piece_ok :: "char \<Rightarrow> piece \<Rightarrow> bool" where
  "piece_ok q (Literal c) \<longleftrightarrow> c \<noteq> q \<and> c \<noteq> backslash"
| "piece_ok q (Escaped c) \<longleftrightarrow> True"
| "piece_ok q Doubled \<longleftrightarrow> True"

definition pieces_text :: "char \<Rightarrow> piece list \<Rightarrow> string" where
  "pieces_text q ps = concat (map (piece_text q) ps)"

fun item_text :: "sql_item \<Rightarrow> string" where
  "item_text (Ordinary c) = [c]"
| "item_text (Quoted q ps) = q # pieces_text q ps @ [q]"
| "item_text (LineComment s) = ''--'' @ s"
| "item_text (BlockComment s) = ''/*'' @ s @ ''*/''"
| "item_text Semicolon = '';''"

definition sql_text :: "sql_item list \<Rightarrow> string" where
  "sql_text items = concat (map item_text items)"

text \<open>What of an item belongs to a statement: comments leave their line breaks only.\<close>

fun item_kept :: "sql_item \<Rightarrow> string" where
  "item_kept (BlockComment s) = filter (\<lambda>c. c = newline) s"
| "item_kept (LineComment s) = ''''"
| "item_kept item = item_text item"

definition opens_comment :: "char \<Rightarrow> string \<Rightarrow> bool" where
  "opens_comment c cs \<longleftrightarrow> c = CHR ''-'' \<and> next_is CHR ''-'' cs \<or> c = CHR ''/'' \<and> next_is CHR ''*'' cs"

fun closes_comment :: "string \<Rightarrow> bool" where
  "closes_comment [] \<longleftrightarrow> False"
| "closes_comment (c # cs) \<longleftrightarrow> c = CHR ''*'' \<and> next_is CHR ''/'' cs \<or> closes_comment cs"

text \<open>Items that read back as themselves, given the text that follows.\<close>

fun sql_ok :: "sql_item list \<Rightarrow> bool" where
  "sql_ok [] \<longleftrightarrow> True"
| "sql_ok (Ordinary c # items) \<longleftrightarrow> \<not> is_quote c \<and> c \<noteq> CHR '';'' \<and> \<not> opens_comment c (sql_text items) \<and> sql_ok items"
| "sql_ok (Quoted q ps # items) \<longleftrightarrow> is_quote q \<and> list_all (piece_ok q) ps \<and> \<not> next_is q (sql_text items) \<and> sql_ok items"
| "sql_ok (LineComment s # items) \<longleftrightarrow> newline \<notin> set s \<and> (sql_text items = [] \<or> next_is newline (sql_text items)) \<and> sql_ok items"
| "sql_ok (BlockComment s # items) \<longleftrightarrow> \<not> closes_comment s \<and> sql_ok items"
| "sql_ok (Semicolon # items) \<longleftrightarrow> sql_ok items"

text \<open>The items between semicolons, and the statements they say.\<close>

fun chunks :: "sql_item list \<Rightarrow> string list" where
  "chunks [] = ['''']"
| "chunks (Semicolon # items) = '''' # chunks items"
| "chunks (item # items) = (item_kept item @ hd (chunks items)) # tl (chunks items)"

definition sql_statements :: "sql_item list \<Rightarrow> string list" where
  "sql_statements items = filter (\<lambda>s. s \<noteq> '''') (map TrimSpace (chunks items))"

section \<open>Reading one item\<close>

definition neutral :: "splitter \<Rightarrow> bool" where
  "neutral st \<longleftrightarrow> sp_quote st = None \<and> \<not> sp_lineComment st \<and> \<not> sp_blockComment st"

definition Write :: "string \<Rightarrow> splitter \<Rightarrow> splitter" where
  "Write s st = st\<lparr>sp_current := sp_current st @ s\<rparr>"

lemma Write_simps [simp]:
  "Write [] st = st" "Write t (Write s st) = Write (s @ t) st" "WriteRune c st = Write [c] st"
  "sp_quote (Write s st) = sp_quote st" "sp_lineComment (Write s st) = sp_lineComment st"
  "sp_blockComment (Write s st) = sp_blockComment st" "sp_statements (Write s st) = sp_statements st"
  "sp_current (Write s st) = sp_current st @ s" "neutral (Write s st) = neutral st"
  by (simp_all add: Write_def WriteRune_def neutral_def)

lemma Write_update [simp]:
  "(Write s st)\<lparr>sp_quote := q\<rparr> = Write s (st\<lparr>sp_quote := q\<rparr>)" "(Write s st)\<lparr>sp_lineComment := l\<rparr> = Write s (st\<lparr>sp_lineComment := l\<rparr>)"
  "(Write s st)\<lparr>sp_blockComment := b\<rparr> = Write s (st\<lparr>sp_blockComment := b\<rparr>)"
  by (simp_all add: Write_def)

lemma next_is_Cons [simp]: "next_is c (d # cs) \<longleftrightarrow> d = c" "\<not> next_is c []"
  by (auto simp: next_is_def)

lemma read_plain:
  assumes "neutral st" and "\<not> is_quote c" "c \<noteq> CHR '';''" "\<not> opens_comment c cs"
  shows "split_loop (c # cs) st = split_loop cs (Write [c] st)"
  using assms by (auto simp: neutral_def opens_comment_def)

lemma read_pieces:
  assumes "list_all (piece_ok q) ps" and "\<not> next_is q cs" and "is_quote q"
    and "sp_quote st = Some q" "\<not> sp_lineComment st" "\<not> sp_blockComment st"
  shows "split_loop (pieces_text q ps @ q # cs) st = split_loop cs (Write (pieces_text q ps @ [q]) (st\<lparr>sp_quote := None\<rparr>))"
  using assms
proof (induction ps arbitrary: st)
  case Nil
  moreover from this have "q \<noteq> backslash" by (auto simp: is_quote_def)
  ultimately show ?case by (simp add: pieces_text_def)
next
  case (Cons p ps)
  moreover have "q \<noteq> backslash" using Cons.prems by (auto simp: is_quote_def)
  ultimately show ?case by (cases p) (simp_all add: pieces_text_def next_is_def)
qed

lemma read_quoted:
  assumes "neutral st" and "is_quote q" and "list_all (piece_ok q) ps" and "\<not> next_is q cs"
  shows "split_loop (q # pieces_text q ps @ q # cs) st = split_loop cs (Write (q # pieces_text q ps @ [q]) st)"
proof -
  have "split_loop (q # pieces_text q ps @ q # cs) st = split_loop (pieces_text q ps @ q # cs) (Write [q] (st\<lparr>sp_quote := Some q\<rparr>))"
    using assms(1,2) by (auto simp: neutral_def is_quote_def)
  also have "\<dots> = split_loop cs (Write (pieces_text q ps @ [q]) (Write [q] (st\<lparr>sp_quote := Some q\<rparr>)\<lparr>sp_quote := None\<rparr>))"
    by (rule read_pieces [OF assms(3,4,2)]) (use assms(1) in \<open>simp_all add: neutral_def\<close>)
  also have "Write (pieces_text q ps @ [q]) (Write [q] (st\<lparr>sp_quote := Some q\<rparr>)\<lparr>sp_quote := None\<rparr>) = Write (q # pieces_text q ps @ [q]) st"
    using assms(1) by (cases st) (simp add: neutral_def Write_def)
  finally show ?thesis .
qed

lemma skip_line:
  assumes "newline \<notin> set s" and "sp_lineComment st"
  shows "split_loop (s @ cs) st = split_loop cs st"
  using assms by (induction s) auto

lemma line_ends:
  assumes "sp_quote st = None" "sp_lineComment st" "\<not> sp_blockComment st" and "next_is newline cs"
  shows "split_loop cs st = split_loop cs (st\<lparr>sp_lineComment := False\<rparr>)"
  using assms by (cases cs) (auto simp: is_quote_def)

lemma skip_block:
  assumes "\<not> closes_comment s" and "sp_blockComment st" "\<not> sp_lineComment st"
  shows "split_loop (s @ CHR ''*'' # CHR ''/'' # cs) st = split_loop cs (Write (filter (\<lambda>c. c = newline) s) (st\<lparr>sp_blockComment := False\<rparr>))"
  using assms
proof (induction s arbitrary: st)
  case (Cons c s)
  moreover from this have "\<not> (c = CHR ''*'' \<and> next_is CHR ''/'' (s @ CHR ''*'' # CHR ''/'' # cs))" by (cases s) auto
  ultimately show ?case by auto
qed simp

lemma read_block:
  assumes "neutral st" and "\<not> closes_comment s"
  shows "split_loop (''/*'' @ s @ ''*/'' @ cs) st = split_loop cs (Write (filter (\<lambda>c. c = newline) s) st)"
proof -
  have "split_loop (''/*'' @ s @ ''*/'' @ cs) st = split_loop (s @ ''*/'' @ cs) (st\<lparr>sp_blockComment := True\<rparr>)"
    using assms(1) by (simp add: neutral_def)
  also have "\<dots> = split_loop cs (Write (filter (\<lambda>c. c = newline) s) (st\<lparr>sp_blockComment := True\<rparr>\<lparr>sp_blockComment := False\<rparr>))"
    using skip_block [OF assms(2), of "st\<lparr>sp_blockComment := True\<rparr>" cs] assms(1) by (simp add: neutral_def)
  also have "st\<lparr>sp_blockComment := True\<rparr>\<lparr>sp_blockComment := False\<rparr> = st" using assms(1) by (cases st) (simp add: neutral_def)
  finally show ?thesis .
qed

section \<open>Reading a text of the grammar\<close>

text \<open>What the splitter returns for its last state, and the statements of the chunks when the first continues \<open>current\<close>.\<close>

definition finish :: "splitter \<Rightarrow> string list" where
  "finish st = add_statement (sp_current st) (sp_statements st)"

definition closed :: "splitter \<Rightarrow> bool" where
  "closed st \<longleftrightarrow> sp_quote st = None \<and> \<not> sp_blockComment st"

definition continued :: "splitter \<Rightarrow> string list \<Rightarrow> string list" where
  "continued st cs = sp_statements st @ filter (\<lambda>s. s \<noteq> '''') (map TrimSpace ((sp_current st @ hd cs) # tl cs))"

lemma chunks_not_Nil [simp]: "chunks items \<noteq> []"
  by (cases items rule: chunks.cases) simp_all

lemma continued_Write: "cs \<noteq> [] \<Longrightarrow> continued (Write s st) cs = continued st ((s @ hd cs) # tl cs)"
  by (simp add: continued_def)

lemma continued_Nil: "continued st [''''] = finish st"
  by (auto simp: continued_def finish_def add_statement_def Let_def)

lemma continued_end: "cs \<noteq> [] \<Longrightarrow> continued (end_statement st) cs = continued st ('''' # cs)"
  by (cases cs) (auto simp: continued_def end_statement_def add_statement_def Let_def)

lemma sql_text_simps [simp]: "sql_text [] = []" "sql_text (i # items) = item_text i @ sql_text items"
  by (simp_all add: sql_text_def)

lemma read_line:
  assumes "neutral st" and "newline \<notin> set s" and "cs = [] \<or> next_is newline cs"
  shows "finish (split_loop (''--'' @ s @ cs) st) = finish (split_loop cs st) \<and> closed (split_loop (''--'' @ s @ cs) st) = closed (split_loop cs st)"
proof -
  let ?in = "st\<lparr>sp_lineComment := True\<rparr>"
  have "split_loop (''--'' @ s @ cs) st = split_loop cs ?in"
    using assms(1) skip_line [OF assms(2), of ?in cs] by (simp add: neutral_def)
  moreover have "?in\<lparr>sp_lineComment := False\<rparr> = st" using assms(1) by (cases st) (simp add: neutral_def)
  ultimately show ?thesis
    using assms(1,3) line_ends [of ?in cs] by (auto simp: neutral_def finish_def closed_def)
qed

lemma read_items:
  assumes "sql_ok items" and "neutral st"
  shows "finish (split_loop (sql_text items) st) = continued st (chunks items) \<and> closed (split_loop (sql_text items) st)"
  using assms
proof (induction items arbitrary: st rule: sql_ok.induct)
  case 1
  then show ?case by (simp add: continued_Nil closed_def neutral_def)
next
  case (2 c items)
  then show ?case using read_plain [of st c "sql_text items"] by (simp add: continued_Write)
next
  case (3 q ps items)
  then show ?case using read_quoted [of st q ps "sql_text items"] by (simp add: continued_Write)
next
  case (4 s items)
  then show ?case using read_line [of st s "sql_text items"] by (simp add: continued_def)
next
  case (5 s items)
  then show ?case using read_block [of st s "sql_text items"] by (simp add: continued_Write)
next
  case (6 items)
  have "split_loop (sql_text (Semicolon # items)) st = split_loop (sql_text items) (end_statement st)"
    using 6 by (simp add: neutral_def is_quote_def)
  moreover have "neutral (end_statement st)" using 6 by (simp add: neutral_def end_statement_def)
  ultimately show ?case using 6 by (simp add: continued_end)
qed

lemma SplitSQL_finish: "SplitSQL s = Inr r \<longleftrightarrow> closed (split_loop s new_splitter) \<and> finish (split_loop s new_splitter) = r"
  by (auto simp: SplitSQL_def closed_def finish_def Let_def)

lemma SplitSQL_sql_text: "sql_ok items \<Longrightarrow> SplitSQL (sql_text items) = Inr (sql_statements items)"
proof -
  assume "sql_ok items"
  moreover have "continued new_splitter (chunks items) = sql_statements items"
    by (cases "chunks items") (auto simp: continued_def new_splitter_def sql_statements_def)
  ultimately show ?thesis
    using read_items [of items new_splitter] by (simp add: SplitSQL_finish) (simp add: new_splitter_def neutral_def)
qed

section \<open>Every accepted text is of the grammar\<close>

text \<open>What the rest of the text must be, in each mode of the loop, for it to end outside quotes and block comments.\<close>

definition plain_rest :: "string \<Rightarrow> bool" where
  "plain_rest s \<longleftrightarrow> (\<exists>items. s = sql_text items \<and> sql_ok items)"

definition line_rest :: "string \<Rightarrow> bool" where
  "line_rest s \<longleftrightarrow> (\<exists>t items. s = t @ sql_text items \<and> newline \<notin> set t \<and> (sql_text items = [] \<or> next_is newline (sql_text items)) \<and> sql_ok items)"

definition block_rest :: "string \<Rightarrow> bool" where
  "block_rest s \<longleftrightarrow> (\<exists>t items. s = t @ CHR ''*'' # CHR ''/'' # sql_text items \<and> \<not> closes_comment t \<and> sql_ok items)"

definition quoted_rest :: "char \<Rightarrow> string \<Rightarrow> bool" where
  "quoted_rest q s \<longleftrightarrow> (\<exists>ps items. s = pieces_text q ps @ q # sql_text items \<and> list_all (piece_ok q) ps \<and> \<not> next_is q (sql_text items) \<and> sql_ok items)"

lemma next_is_tl: "next_is c cs \<Longrightarrow> cs = c # tl cs"
  by (cases cs) auto

lemma plain_rests:
  "plain_rest []"
  "\<not> is_quote c \<Longrightarrow> c \<noteq> CHR '';'' \<Longrightarrow> \<not> opens_comment c s \<Longrightarrow> plain_rest s \<Longrightarrow> plain_rest (c # s)"
  "plain_rest s \<Longrightarrow> plain_rest (CHR '';'' # s)"
  by (auto simp: plain_rest_def intro: exI [of _ "[]"] exI [of _ "Ordinary c # _"] exI [of _ "Semicolon # _"])

lemma plain_rest_quoted: "is_quote q \<Longrightarrow> quoted_rest q s \<Longrightarrow> plain_rest (q # s)"
  by (auto simp: plain_rest_def quoted_rest_def intro: exI [of _ "Quoted q _ # _"])

lemma plain_rest_comments:
  "line_rest s \<Longrightarrow> plain_rest (CHR ''-'' # CHR ''-'' # s)"
  "block_rest s \<Longrightarrow> plain_rest (CHR ''/'' # CHR ''*'' # s)"
proof -
  assume "line_rest s"
  then obtain t items where "s = t @ sql_text items" "newline \<notin> set t" "sql_text items = [] \<or> next_is newline (sql_text items)" "sql_ok items"
    by (auto simp: line_rest_def)
  then show "plain_rest (CHR ''-'' # CHR ''-'' # s)"
    unfolding plain_rest_def by (intro exI [of _ "LineComment t # items"]) simp
next
  show "block_rest s \<Longrightarrow> plain_rest (CHR ''/'' # CHR ''*'' # s)"
    by (auto simp: plain_rest_def block_rest_def intro: exI [of _ "BlockComment _ # _"])
qed

lemma line_rests:
  "line_rest []" "plain_rest s \<Longrightarrow> line_rest (newline # s)" "c \<noteq> newline \<Longrightarrow> line_rest s \<Longrightarrow> line_rest (c # s)"
proof -
  show "line_rest []" by (auto simp: line_rest_def intro: exI [of _ "[]"])
  show "plain_rest s \<Longrightarrow> line_rest (newline # s)"
    unfolding plain_rest_def line_rest_def
    by (elim exE, rule exI [of _ "[]"], rule exI [of _ "Ordinary newline # _"]) (auto simp: is_quote_def opens_comment_def)
  show "c \<noteq> newline \<Longrightarrow> line_rest s \<Longrightarrow> line_rest (c # s)"
    unfolding line_rest_def by (metis append_Cons set_ConsD)
qed

lemma block_rests:
  "plain_rest s \<Longrightarrow> block_rest (CHR ''*'' # CHR ''/'' # s)"
  "\<not> (c = CHR ''*'' \<and> next_is CHR ''/'' s) \<Longrightarrow> block_rest s \<Longrightarrow> block_rest (c # s)"
proof -
  show "plain_rest s \<Longrightarrow> block_rest (CHR ''*'' # CHR ''/'' # s)"
    unfolding plain_rest_def block_rest_def by (elim exE, rule exI [of _ "[]"]) auto
  assume c: "\<not> (c = CHR ''*'' \<and> next_is CHR ''/'' s)" and "block_rest s"
  then obtain t items where t: "s = t @ CHR ''*'' # CHR ''/'' # sql_text items" "\<not> closes_comment t" "sql_ok items"
    by (auto simp: block_rest_def)
  then have "\<not> closes_comment (c # t)" using c by (cases t) auto
  with t show "block_rest (c # s)" unfolding block_rest_def by (intro exI [of _ "c # t"] exI [of _ items]) simp
qed

lemma quoted_rest_piece:
  assumes "quoted_rest q s" and "piece_ok q p"
  shows "quoted_rest q (piece_text q p @ s)"
proof -
  from assms(1) obtain ps items where "s = pieces_text q ps @ q # sql_text items" "list_all (piece_ok q) ps" "\<not> next_is q (sql_text items)" "sql_ok items"
    by (auto simp: quoted_rest_def)
  with assms(2) show ?thesis unfolding quoted_rest_def by (intro exI [of _ "p # ps"] exI [of _ items]) (simp add: pieces_text_def)
qed

lemma quoted_rests:
  "\<not> quoted_rest q []"
  "quoted_rest q s \<Longrightarrow> quoted_rest q (backslash # c # s)"
  "quoted_rest q s \<Longrightarrow> quoted_rest q (q # q # s)"
  "c \<noteq> q \<Longrightarrow> c \<noteq> backslash \<Longrightarrow> quoted_rest q s \<Longrightarrow> quoted_rest q (c # s)"
  using quoted_rest_piece [of q s "Escaped c"] quoted_rest_piece [of q s Doubled] quoted_rest_piece [of q s "Literal c"]
  by (auto simp: quoted_rest_def [of q "[]"])

lemma quoted_rest_closes: "\<not> next_is q s \<Longrightarrow> plain_rest s \<Longrightarrow> quoted_rest q (q # s)"
  unfolding plain_rest_def quoted_rest_def by (elim exE, rule exI [of _ "[]"]) (auto simp: pieces_text_def)

definition completes :: "splitter \<Rightarrow> string \<Rightarrow> bool" where
  "completes st s \<longleftrightarrow>
     (if sp_lineComment st then line_rest s else if sp_blockComment st then block_rest s
      else case sp_quote st of Some q \<Rightarrow> quoted_rest q s | None \<Rightarrow> plain_rest s)"

definition moded :: "splitter \<Rightarrow> bool" where
  "moded st \<longleftrightarrow> (sp_lineComment st \<longrightarrow> \<not> sp_blockComment st \<and> sp_quote st = None) \<and>
     (sp_blockComment st \<longrightarrow> sp_quote st = None) \<and> pred_option is_quote (sp_quote st)"

lemma completes_modes:
  "sp_lineComment st \<Longrightarrow> completes st s = line_rest s"
  "\<not> sp_lineComment st \<Longrightarrow> sp_blockComment st \<Longrightarrow> completes st s = block_rest s"
  "\<not> sp_lineComment st \<Longrightarrow> \<not> sp_blockComment st \<Longrightarrow> sp_quote st = Some q \<Longrightarrow> completes st s = quoted_rest q s"
  "\<not> sp_lineComment st \<Longrightarrow> \<not> sp_blockComment st \<Longrightarrow> sp_quote st = None \<Longrightarrow> completes st s = plain_rest s"
  by (simp_all add: completes_def)

lemma loop_completes:
  assumes "moded st" and "closed (split_loop s st)"
  shows "completes st s"
  using assms
proof (induction s st rule: split_loop.induct)
  case (1 st)
  then show ?case by (simp add: closed_def completes_def line_rests plain_rests)
next
  case (2 c cs st)
  note IH = "2.IH" and m = "2.prems"(1)[unfolded moded_def] and c = "2.prems"(2)
  consider (comment) "sp_lineComment st \<or> sp_blockComment st"
    | (plain) "\<not> sp_lineComment st" "\<not> sp_blockComment st" "sp_quote st = None"
    | (quoted) q where "\<not> sp_lineComment st" "\<not> sp_blockComment st" "sp_quote st = Some q" by fastforce
  then show ?case
  proof cases
    case comment
    have "block_rest (CHR ''*'' # cs)" if "next_is CHR ''/'' cs" "plain_rest (tl cs)"
      using block_rests(1) that next_is_tl by metis
    with comment IH(1-5) m c show ?thesis
      by (cases "sp_lineComment st") (auto simp: completes_def moded_def intro: line_rests block_rests(2) split: if_splits)
  next
    case plain
    consider "c = CHR ''-'' \<and> next_is CHR ''-'' cs" | "c = CHR ''/'' \<and> next_is CHR ''*'' cs" | "\<not> opens_comment c cs" unfolding opens_comment_def by blast
    then show ?thesis
    proof cases
      case 1
      with IH(6) [OF plain] plain m c have "line_rest (tl cs)" by (simp add: completes_modes moded_def)
      with plain_rest_comments(1) 1 next_is_tl show ?thesis using plain by (simp add: completes_modes) (metis)
    next
      case 2
      with IH(7) [OF plain] plain m c have "block_rest (tl cs)" by (simp add: completes_modes moded_def)
      with plain_rest_comments(2) 2 next_is_tl show ?thesis using plain by (simp add: completes_modes) (metis)
    next
      case 3
      with IH(8-10) [OF plain] plain m c show ?thesis
        by (cases "is_quote c"; cases "c = CHR '';''")
          (auto simp: completes_modes moded_def opens_comment_def end_statement_def intro: plain_rests plain_rest_quoted)
    qed
  next
    case (quoted q)
    then have q: "q \<noteq> backslash" using m by (auto simp: is_quote_def)
    consider "c = backslash \<and> cs \<noteq> []" | "c = q" "next_is q cs" | "c = q" "\<not> next_is q cs"
      | "\<not> (c = backslash \<and> cs \<noteq> [])" "c \<noteq> q" by blast
    then have "quoted_rest q (c # cs)"
    proof cases
      case 1
      with IH(11) [OF quoted] quoted m c have "quoted_rest q (tl cs)" by (simp add: completes_modes moded_def)
      with quoted_rests(2) 1 show ?thesis by (metis list.collapse)
    next
      case 2
      with IH(12) [OF quoted] quoted m c q have "quoted_rest q (tl cs)" by (simp add: completes_modes moded_def)
      with quoted_rests(3) 2 next_is_tl show ?thesis by metis
    next
      case 3
      with IH(13) [OF quoted] quoted m c q have "plain_rest cs" by (simp add: completes_modes moded_def)
      with quoted_rest_closes 3 show ?thesis by blast
    next
      case 4
      with IH(14) [OF quoted] quoted m c have "quoted_rest q cs" by (auto simp: completes_modes moded_def)
      with quoted_rests(1,4) 4 show ?thesis by blast
    qed
    with quoted show ?thesis by (simp add: completes_modes)
  qed
qed

text \<open>
  C36. The splitter is the grammar: it accepts exactly the texts made of plain characters, closed quotes,
  comments and semicolons, and returns the statements between the semicolons outside quotes and comments,
  trimmed and without the empty ones. Every other text is refused, none is split elsewhere.
\<close>

theorem splits_by_grammar:
  "SplitSQL source = Inr statements \<longleftrightarrow> (\<exists>items. source = sql_text items \<and> sql_ok items \<and> statements = sql_statements items)"
proof
  assume "SplitSQL source = Inr statements"
  then have "completes new_splitter source"
    by (intro loop_completes) (simp_all add: SplitSQL_finish moded_def, simp add: new_splitter_def)
  then obtain items where "source = sql_text items" "sql_ok items"
    by (auto simp: completes_def new_splitter_def plain_rest_def)
  with \<open>SplitSQL source = Inr statements\<close> show "\<exists>items. source = sql_text items \<and> sql_ok items \<and> statements = sql_statements items"
    using SplitSQL_sql_text by fastforce
qed (auto simp: SplitSQL_sql_text)

end
