(* ===== verification/Connection.thy ===== *)
theory Connection
  imports Migrations Config_Laws Recovery
begin

text \<open>
  \<^verbatim>\<open>internal/store/connection.go\<close> and \<^verbatim>\<open>migrate.go\<close>: how the store opens its connection, and the
  migration of the schema, statement by statement. The driver is a parameter.
\<close>

section \<open>The connection\<close>

definition defaultOpenConnections :: int where
  "defaultOpenConnections = 16"

datatype driver_protocol = Native | HTTP

datatype compression_method = CompressionNone | CompressionLZ4

record clickhouse_options =
  co_Addr :: "string list"
  co_Database :: string
  co_Username :: string
  co_Password :: string
  co_Protocol :: driver_protocol
  co_Settings :: "(string \<times> int) list"
  co_Compression :: compression_method
  co_DialTimeout :: int
  co_MaxOpenConns :: int
  co_MaxIdleConns :: int
  co_ConnMaxLifetime :: int

definition clickHouseOptions :: "database_config \<Rightarrow> int \<Rightarrow> clickhouse_options" where
  "clickHouseOptions cfg openConnections =
     \<lparr>co_Addr = [JoinHostPort (cd_Host cfg) (FormatUint (unat (cd_Port cfg)))],
      co_Database = ''default'', co_Username = cd_User cfg, co_Password = cd_Password cfg, co_Protocol = Native,
      co_Settings = [(''async_insert'', 0), (''wait_for_async_insert'', 1)], co_Compression = CompressionLZ4,
      co_DialTimeout = 10 * 10 ^ 9, co_MaxOpenConns = openConnections, co_MaxIdleConns = openConnections,
      co_ConnMaxLifetime = 3600 * 10 ^ 9\<rparr>"

text \<open>The writer identifier is a fresh UUID; the type of epoch boundary blocks and the schema hash are constants of the build.\<close>

definition newDB :: "uuid \<Rightarrow> int \<Rightarrow> hash32 \<Rightarrow> store_handle" where
  "newDB writerID ebbType schemaHash =
     \<lparr>sh_writerID = writerID, sh_ebbType = ebbType, sh_schemaHash = schemaHash, sh_identity = None, sh_allocator = None\<rparr>"

definition Open :: "(clickhouse_options \<Rightarrow> go_error option) \<Rightarrow> store_handle \<Rightarrow> database_config \<Rightarrow> go_error + store_handle" where
  "Open driver db cfg =
     (let openConnections = (if cd_OpenConn cfg = 0 then defaultOpenConnections else cd_OpenConn cfg);
          options = clickHouseOptions cfg openConnections
      in case driver options of Some e \<Rightarrow> Inl (Annotated ''open ClickHouse: '' e) | None \<Rightarrow> Inr db)"

definition errorsNewNilDB :: go_error where
  "errorsNewNilDB = errorsNew ''nil ClickHouse store''"

definition Ping :: "go_error option \<Rightarrow> store_handle option \<Rightarrow> go_error option" where
  "Ping answer db = (case db of None \<Rightarrow> Some errorsNewNilDB | Some _ \<Rightarrow> map_option (Annotated ''ping ClickHouse: '') answer)"

definition CloseDB :: "go_error option \<Rightarrow> store_handle option \<Rightarrow> go_error option" where
  "CloseDB answer db = (case db of None \<Rightarrow> None | Some _ \<Rightarrow> answer)"

section \<open>The migration\<close>

text \<open>\<open>exec\<close> is what the server does with a statement: its new contents and an error.\<close>

fun exec_statements :: "('d \<Rightarrow> string \<Rightarrow> 'd \<times> go_error option) \<Rightarrow> string list \<Rightarrow> 'd \<Rightarrow> 'd \<times> go_error option" where
  "exec_statements exec [] d = (d, None)"
| "exec_statements exec (statement # statements) d =
     (case exec d statement of
        (d, Some e) \<Rightarrow> (d, Some (Annotated ''migration statement: '' e))
      | (d, None) \<Rightarrow> exec_statements exec statements d)"

definition Migrate :: "('d \<Rightarrow> string \<Rightarrow> 'd \<times> go_error option) \<Rightarrow> string \<Rightarrow> store_handle option \<Rightarrow> 'd \<Rightarrow> 'd \<times> go_error option" where
  "Migrate exec initial db d =
     (case db of
        None \<Rightarrow> (d, Some errorsNewNilDB)
      | Some _ \<Rightarrow>
          (case SplitSQL initial of
             Inl e \<Rightarrow> (d, Some (Annotated ''split embedded migration: '' e))
           | Inr statements \<Rightarrow> exec_statements exec statements d))"

section \<open>Resuming a migration\<close>

text \<open>
  What the server may answer when \<open>effect\<close> says what a statement does: it applies the statement, or it reports
  an error, and then the statement may have been applied or not.
\<close>

definition answers_for :: "('d \<Rightarrow> string \<Rightarrow> 'd) \<Rightarrow> ('d \<Rightarrow> string \<Rightarrow> 'd \<times> go_error option) \<Rightarrow> bool" where
  "answers_for effect exec \<longleftrightarrow> (\<forall>d s. exec d s = (effect d s, None) \<or> (\<exists>e. exec d s = (d, Some e) \<or> exec d s = (effect d s, Some e)))"

text \<open>
  Statements that may be repeated: an applied statement stays applied, and applying it again does nothing.
  It is said of every text; the effect of a text that is no statement of the migration may be taken to be
  none.
\<close>

definition repeatable :: "('d \<Rightarrow> string \<Rightarrow> 'd) \<Rightarrow> bool" where
  "repeatable effect \<longleftrightarrow> (\<forall>d s. effect (effect d s) s = effect d s) \<and> (\<forall>d s t. effect d t = d \<longrightarrow> effect (effect d s) t = effect d s)"

lemma foldl_applied:
  assumes "repeatable effect" and "effect d t = d"
  shows "effect (foldl effect d ss) t = foldl effect d ss"
  using assms(2) by (induction ss arbitrary: d) (use assms(1) in \<open>auto simp: repeatable_def\<close>)

lemma foldl_all_applied:
  assumes "repeatable effect" and "t \<in> set ss"
  shows "effect (foldl effect d ss) t = foldl effect d ss"
  using assms(2)
proof (induction ss arbitrary: d)
  case (Cons s ss)
  have "effect (effect d s) s = effect d s" using assms(1) by (simp add: repeatable_def)
  with Cons foldl_applied [OF assms(1), of "effect d s" s ss] show ?case by auto
qed simp

lemma foldl_nothing: "\<forall>t \<in> set ss. effect d t = d \<Longrightarrow> foldl effect d ss = d"
  by (induction ss) auto

lemma foldl_resume:
  assumes "repeatable effect"
  shows "foldl effect (foldl effect d (take k ss)) (take j ss) = foldl effect d (take (max j k) ss)"
proof -
  let ?d = "foldl effect d (take k ss)"
  have "take j ss = take (min j k) ss @ drop k (take j ss)"
    by (metis append_take_drop_id min.commute take_take)
  moreover have "foldl effect ?d (take (min j k) ss) = ?d"
    using foldl_all_applied [OF assms] by (intro foldl_nothing) (metis in_set_takeD min.commute take_take)
  moreover have "take k ss @ drop k (take j ss) = take (max j k) ss"
  proof (cases "j \<le> k")
    case False
    then have "take k (take j ss) = take k ss" by (simp add: min_def)
    then show ?thesis using False by (metis append_take_drop_id max.absorb1 nat_le_linear)
  qed (simp add: max_def drop_take)
  ultimately show ?thesis by (metis foldl_append)
qed

lemma exec_statements_prefix:
  assumes "answers_for effect exec" and "exec_statements exec ss d = (d', r)"
  shows "\<exists>j. d' = foldl effect d (take j ss) \<and> (r = None \<longrightarrow> d' = foldl effect d ss)"
  using assms(2)
proof (induction ss arbitrary: d)
  case (Cons s ss)
  consider "exec d s = (effect d s, None)" | e where "exec d s = (d, Some e)" | e where "exec d s = (effect d s, Some e)"
    using assms(1) unfolding answers_for_def by blast
  then show ?case
  proof cases
    case 1
    with Cons obtain j where "d' = foldl effect (effect d s) (take j ss)" "r = None \<longrightarrow> d' = foldl effect (effect d s) ss" by fastforce
    then show ?thesis by (intro exI [of _ "Suc j"]) simp
  next
    case 2
    with Cons.prems show ?thesis by (intro exI [of _ 0]) auto
  next
    case 3
    with Cons.prems show ?thesis by (intro exI [of _ 1]) auto
  qed
qed simp

lemma attempts_prefix:
  assumes "repeatable effect" and "\<forall>exec \<in> set attempts. answers_for effect exec" and "SplitSQL initial = Inr ss"
  shows "\<exists>k. foldl (\<lambda>d exec. fst (Migrate exec initial (Some h) d)) (foldl effect d (take k0 ss)) attempts = foldl effect d (take k ss)"
  using assms(2)
proof (induction attempts arbitrary: k0)
  case (Cons exec attempts)
  let ?d = "foldl effect d (take k0 ss)"
  obtain d' r where e: "exec_statements exec ss ?d = (d', r)" by (cases "exec_statements exec ss ?d")
  with exec_statements_prefix [of effect exec ss ?d d' r] Cons.prems obtain j where "d' = foldl effect ?d (take j ss)" by auto
  then have "fst (Migrate exec initial (Some h) ?d) = foldl effect d (take (max j k0) ss)"
    using e assms(3) foldl_resume [OF assms(1)] by (simp add: Migrate_def)
  then show ?case using Cons by simp
qed auto

text \<open>
  C37. A migration can be resumed: after any number of attempts that were cut off anywhere, with statements
  applied although their answer was an error, an attempt that succeeds leaves exactly what one undisturbed
  run of all statements leaves, provided the statements may be repeated.
\<close>

theorem migration_resumes:
  assumes "repeatable effect" and "\<forall>exec \<in> set attempts. answers_for effect exec" and "answers_for effect last_exec"
    and "Migrate last_exec initial (Some h) (foldl (\<lambda>d exec. fst (Migrate exec initial (Some h) d)) d attempts) = (d', None)"
  shows "\<exists>statements. SplitSQL initial = Inr statements \<and> d' = foldl effect d statements"
proof -
  obtain ss where ss: "SplitSQL initial = Inr ss" using assms(4) by (auto simp: Migrate_def split: sum.splits)
  from attempts_prefix [OF assms(1,2) ss, of h d 0] obtain k
    where k: "foldl (\<lambda>d exec. fst (Migrate exec initial (Some h) d)) d attempts = foldl effect d (take k ss)" by auto
  have "exec_statements last_exec ss (foldl effect d (take k ss)) = (d', None)" using assms(4) ss k by (simp add: Migrate_def)
  from exec_statements_prefix [OF assms(3) this] have "d' = foldl effect (foldl effect d (take k ss)) (take (length ss) ss)" by simp
  also have "\<dots> = foldl effect d ss" using foldl_resume [OF assms(1), of d k ss "length ss"] by simp
  finally show ?thesis using ss by blast
qed

text \<open>A server that remembers the statements it was given; the first attempt is cut off after applying the second one.\<close>

definition remember :: "string list \<Rightarrow> string \<Rightarrow> string list" where
  "remember d s = (if s \<in> set d then d else d @ [s])"

definition cut_off :: "string list \<Rightarrow> string \<Rightarrow> string list \<times> go_error option" where
  "cut_off d s = (remember d s, if s = ''B'' then Some (errorsNew ''timeout'') else None)"

definition undisturbed :: "string list \<Rightarrow> string \<Rightarrow> string list \<times> go_error option" where
  "undisturbed d s = (remember d s, None)"

definition sample_migration :: string where
  "sample_migration = ''A; B; -- ;'' @ newline # ''C''"

lemma sample_split: "SplitSQL sample_migration = Inr [''A'', ''B'', ''C'']"
  by (simp add: sample_migration_def SplitSQL_def new_splitter_def Let_def is_quote_def end_statement_def add_statement_def
      TrimSpace_def is_space_def)

theorem migration_resumes_witness:
  "\<exists>d'. Migrate undisturbed sample_migration (Some (newDB 1 0 zero32)) (fst (Migrate cut_off sample_migration (Some (newDB 1 0 zero32)) [])) =
       (d', None) \<and> d' = [''A'', ''B'', ''C'']"
proof -
  let ?h = "newDB 1 0 zero32"
  have r: "repeatable remember" by (auto simp: repeatable_def remember_def)
  have a: "\<forall>exec \<in> set [cut_off]. answers_for remember exec" "answers_for remember undisturbed"
    by (auto simp: answers_for_def cut_off_def undisturbed_def)
  obtain d' where d: "Migrate undisturbed sample_migration (Some ?h) (fst (Migrate cut_off sample_migration (Some ?h) [])) = (d', None)"
    by (simp add: Migrate_def sample_split undisturbed_def)
  from migration_resumes [OF r a, of sample_migration ?h "[]" d'] d sample_split
  have "d' = foldl remember [] [''A'', ''B'', ''C'']" by auto
  with d show ?thesis by (simp add: remember_def)
qed

end
