(* ===== verification/Writer_Lock.thy ===== *)
theory Writer_Lock
  imports Relay_Failures
begin

text \<open>
  \<^verbatim>\<open>internal/writerlock/lock.go\<close>: the fence against a second writer. The operating system is a table
  of paths, a table of open file descriptions and the exclusive \<^verbatim>\<open>flock\<close> of each file; every call may
  also fail. Several processes acquire, check and release locks, files are removed and replaced behind
  their back, and processes die: all of it in any order.
\<close>

section \<open>Files and their locks\<close>

record filesystem =
  fs_paths :: "string \<Rightarrow> nat option"
  fs_open :: "nat \<Rightarrow> nat option"
  fs_flock :: "nat \<Rightarrow> nat option"
  fs_text :: "nat \<Rightarrow> string"
  fs_inodes :: nat
  fs_files :: nat

datatype errno = EWOULDBLOCK | OtherErrno go_error

text \<open>\<^verbatim>\<open>open(O_CREATE | O_RDWR)\<close>: a new file description of the file at the path, which is created when absent.\<close>

definition OpenFile :: "string \<Rightarrow> filesystem \<Rightarrow> filesystem \<times> nat" where
  "OpenFile path fs =
     (let i = (case fs_paths fs path of Some i \<Rightarrow> i | None \<Rightarrow> fs_inodes fs);
          fs = (if fs_paths fs path = None
            then fs\<lparr>fs_paths := (fs_paths fs)(path := Some i), fs_text := (fs_text fs)(i := ''''), fs_inodes := fs_inodes fs + 1\<rparr> else fs)
      in (fs\<lparr>fs_open := (fs_open fs)(fs_files fs := Some i), fs_files := fs_files fs + 1\<rparr>, fs_files fs))"

text \<open>\<^verbatim>\<open>flock(LOCK_EX | LOCK_NB)\<close> and \<^verbatim>\<open>flock(LOCK_UN)\<close>; \<open>fault\<close> is an error of another cause.\<close>

definition flock_exclusive :: "go_error option \<Rightarrow> nat \<Rightarrow> filesystem \<Rightarrow> filesystem \<times> errno option" where
  "flock_exclusive fault f fs =
     (case fault of
        Some e \<Rightarrow> (fs, Some (OtherErrno e))
      | None \<Rightarrow>
          (case fs_open fs f of
             None \<Rightarrow> (fs, Some (OtherErrno (errorsNew ''bad file descriptor'')))
           | Some i \<Rightarrow>
               if fs_flock fs i = None \<or> fs_flock fs i = Some f then (fs\<lparr>fs_flock := (fs_flock fs)(i := Some f)\<rparr>, None)
               else (fs, Some EWOULDBLOCK)))"

definition unlock :: "nat \<Rightarrow> filesystem \<Rightarrow> filesystem" where
  "unlock f fs = fs\<lparr>fs_flock := (\<lambda>i. if fs_flock fs i = Some f then None else fs_flock fs i)\<rparr>"

text \<open>Closing the only descriptor of a file description gives up its lock.\<close>

definition close_file :: "nat \<Rightarrow> filesystem \<Rightarrow> filesystem" where
  "close_file f fs = (unlock f fs)\<lparr>fs_open := (fs_open fs)(f := None)\<rparr>"

definition set_text :: "nat \<Rightarrow> (string \<Rightarrow> string) \<Rightarrow> filesystem \<Rightarrow> filesystem" where
  "set_text f change fs =
     (case fs_open fs f of None \<Rightarrow> fs | Some i \<Rightarrow> fs\<lparr>fs_text := (fs_text fs)(i := change (fs_text fs i))\<rparr>)"

definition holds :: "filesystem \<Rightarrow> nat \<Rightarrow> bool" where
  "holds fs f \<longleftrightarrow> (case fs_open fs f of None \<Rightarrow> False | Some i \<Rightarrow> fs_flock fs i = Some f)"

section \<open>The lock\<close>

record lock =
  lk_file :: "nat option"
  lk_path :: string

datatype lock_error =
    LockPathEmpty
  | ResolvePathFailed go_error
  | CreateDirectoryFailed go_error
  | OpenLockFailed go_error
  | ErrAlreadyHeld
  | AcquireLockFailed errno
  | TruncateFailed go_error
  | WriteFailed go_error
  | SyncFailed go_error
  | LockNotHeld
  | StatHeldFailed go_error
  | StatPathFailed go_error
  | PathReplaced
  | VerifyFailed errno

text \<open>
  What the calls of \<open>Acquire\<close> answer: the absolute path, and the errors that occur. A failing write may have
  written a part of the text.
\<close>

record acquire_calls =
  aq_resolve :: "go_error + string"
  aq_mkdir :: "go_error option"
  aq_open :: "go_error option"
  aq_flock :: "go_error option"
  aq_truncate :: "go_error option"
  aq_write :: "(string \<times> go_error) option"
  aq_sync :: "go_error option"

definition give_up :: "nat \<Rightarrow> filesystem \<Rightarrow> filesystem" where
  "give_up f fs = close_file f (unlock f fs)"

text \<open>What follows once the lock is granted: the file names the process.\<close>

definition sign_lock :: "acquire_calls \<Rightarrow> nat \<Rightarrow> string \<Rightarrow> nat \<Rightarrow> filesystem \<Rightarrow> filesystem \<times> (lock_error + lock)" where
  "sign_lock calls pid absolute f fs =
     (case aq_truncate calls of
        Some e \<Rightarrow> (give_up f fs, Inl (TruncateFailed e))
      | None \<Rightarrow>
     (let fs = set_text f (\<lambda>_. '''') fs in
      case aq_write calls of
        Some (written, e) \<Rightarrow> (give_up f (set_text f (\<lambda>_. written) fs), Inl (WriteFailed e))
      | None \<Rightarrow>
     (let fs = set_text f (\<lambda>t. t @ ''pid='' @ FormatUint pid @ [CHR 0x0A]) fs in
      case aq_sync calls of
        Some e \<Rightarrow> (give_up f fs, Inl (SyncFailed e))
      | None \<Rightarrow> (fs, Inr \<lparr>lk_file = Some f, lk_path = absolute\<rparr>))))"

definition Acquire :: "acquire_calls \<Rightarrow> nat \<Rightarrow> string \<Rightarrow> filesystem \<Rightarrow> filesystem \<times> (lock_error + lock)" where
  "Acquire calls pid path fs =
     (if path = '''' then (fs, Inl LockPathEmpty)
      else case aq_resolve calls of
        Inl e \<Rightarrow> (fs, Inl (ResolvePathFailed e))
      | Inr absolute \<Rightarrow>
     (case aq_mkdir calls of
        Some e \<Rightarrow> (fs, Inl (CreateDirectoryFailed e))
      | None \<Rightarrow>
     (case aq_open calls of
        Some e \<Rightarrow> (fs, Inl (OpenLockFailed e))
      | None \<Rightarrow>
     (let (fs, f) = OpenFile absolute fs; (fs, err) = flock_exclusive (aq_flock calls) f fs in
      case err of
        Some EWOULDBLOCK \<Rightarrow> (close_file f fs, Inl ErrAlreadyHeld)
      | Some e \<Rightarrow> (close_file f fs, Inl (AcquireLockFailed e))
      | None \<Rightarrow> sign_lock calls pid absolute f fs))))"

record check_calls =
  ck_statHeld :: "go_error option"
  ck_statPath :: "go_error option"
  ck_flock :: "go_error option"

definition AssertHeld :: "check_calls \<Rightarrow> lock option \<Rightarrow> filesystem \<Rightarrow> filesystem \<times> lock_error option" where
  "AssertHeld calls l fs =
     (case Option.bind l lk_file of
        None \<Rightarrow> (fs, Some LockNotHeld)
      | Some f \<Rightarrow>
     (case (ck_statHeld calls, fs_open fs f) of
        (Some e, _) \<Rightarrow> (fs, Some (StatHeldFailed e))
      | (None, None) \<Rightarrow> (fs, Some (StatHeldFailed (errorsNew ''file already closed'')))
      | (None, Some held) \<Rightarrow>
     (case (ck_statPath calls, fs_paths fs (lk_path (the l))) of
        (Some e, _) \<Rightarrow> (fs, Some (StatPathFailed e))
      | (None, None) \<Rightarrow> (fs, Some (StatPathFailed (errorsNew ''no such file or directory'')))
      | (None, Some current) \<Rightarrow>
          if held \<noteq> current then (fs, Some PathReplaced)
          else (let (fs, err) = flock_exclusive (ck_flock calls) f fs in (fs, map_option VerifyFailed err)))))"

definition Path :: "lock option \<Rightarrow> string" where
  "Path l = (case l of None \<Rightarrow> '''' | Some l \<Rightarrow> lk_path l)"

text \<open>\<^verbatim>\<open>Release\<close>: the errors of the unlock and the close; a file whose close fails is closed all the same.\<close>

definition ReleaseLock :: "go_error option \<Rightarrow> go_error option \<Rightarrow> lock \<Rightarrow> filesystem \<Rightarrow> lock \<times> filesystem \<times> go_error list" where
  "ReleaseLock unlockErr closeErr l fs =
     (case lk_file l of
        None \<Rightarrow> (l, fs, [])
      | Some f \<Rightarrow>
          (l\<lparr>lk_file := None\<rparr>, close_file f (if unlockErr = None then unlock f fs else fs),
           List.map_filter id [unlockErr, closeErr]))"

end
