(* ===== verification/Lock_Laws.thy ===== *)
theory Lock_Laws
  imports Writer_Lock
begin

text \<open>
  Mutual exclusion of writers: in every interleaving of processes that acquire, check and release the
  lock, of programs that remove or replace the lock file, and of deaths, two locks on one path are never
  both confirmed, and a confirmed lock refuses every newcomer. A failed acquisition leaves no trace.
\<close>

section \<open>All processes together\<close>

record lock_world =
  lw_fs :: filesystem
  lw_locks :: "lock list"

definition lock_start :: lock_world where
  "lock_start = \<lparr>lw_fs = \<lparr>fs_paths = (\<lambda>_. None), fs_open = (\<lambda>_. None), fs_flock = (\<lambda>_. None), fs_text = (\<lambda>_. ''''), fs_inodes = 0, fs_files = 0\<rparr>,
     lw_locks = []\<rparr>"

definition foreign :: "lock_world \<Rightarrow> nat \<Rightarrow> bool" where
  "foreign w f \<longleftrightarrow> Some f \<notin> lk_file ` set (lw_locks w)"

text \<open>
  A death closes the file of the process. Other programs may open the file, lock it and close it, and may
  point the path to nothing or to any file.
\<close>

inductive lock_step :: "lock_world \<Rightarrow> lock_world \<Rightarrow> bool" where
  acquired: "Acquire calls pid path (lw_fs w) = (fs, Inr l) \<Longrightarrow> lock_step w \<lparr>lw_fs = fs, lw_locks = lw_locks w @ [l]\<rparr>"
| refused: "Acquire calls pid path (lw_fs w) = (fs, Inl e) \<Longrightarrow> lock_step w (w\<lparr>lw_fs := fs\<rparr>)"
| checked: "n < length (lw_locks w) \<Longrightarrow> AssertHeld calls (Some (lw_locks w ! n)) (lw_fs w) = (fs, r) \<Longrightarrow> lock_step w (w\<lparr>lw_fs := fs\<rparr>)"
| released: "n < length (lw_locks w) \<Longrightarrow> ReleaseLock unlockErr closeErr (lw_locks w ! n) (lw_fs w) = (l, fs, errs) \<Longrightarrow>
    lock_step w \<lparr>lw_fs = fs, lw_locks = (lw_locks w)[n := l]\<rparr>"
| died: "n < length (lw_locks w) \<Longrightarrow> lk_file (lw_locks w ! n) = Some f \<Longrightarrow>
    lock_step w \<lparr>lw_fs = close_file f (lw_fs w), lw_locks = (lw_locks w)[n := (lw_locks w ! n)\<lparr>lk_file := None\<rparr>]\<rparr>"
| opened: "lock_step w (w\<lparr>lw_fs := fst (OpenFile path (lw_fs w))\<rparr>)"
| locked: "foreign w f \<Longrightarrow> lock_step w (w\<lparr>lw_fs := fst (flock_exclusive None f (lw_fs w))\<rparr>)"
| closed: "foreign w f \<Longrightarrow> lock_step w (w\<lparr>lw_fs := close_file f (lw_fs w)\<rparr>)"
| relinked: "lock_step w (w\<lparr>lw_fs := (lw_fs w)\<lparr>fs_paths := (fs_paths (lw_fs w))(path := target)\<rparr>\<rparr>)"

inductive lock_reachable :: "lock_world \<Rightarrow> bool" where
  "lock_reachable lock_start"
| "lock_reachable w \<Longrightarrow> lock_step w w' \<Longrightarrow> lock_reachable w'"

section \<open>The invariant\<close>

text \<open>Locks belong to open files, file descriptions are fresh.\<close>

definition fs_ok :: "filesystem \<Rightarrow> bool" where
  "fs_ok fs \<longleftrightarrow> (\<forall>i f. fs_flock fs i = Some f \<longrightarrow> fs_open fs f = Some i) \<and> (\<forall>f. fs_open fs f \<noteq> None \<longrightarrow> f < fs_files fs)"

lemma holds_iff: "holds fs f \<longleftrightarrow> (\<exists>i. fs_open fs f = Some i \<and> fs_flock fs i = Some f)"
  by (simp add: holds_def split: option.splits)

definition lock_inv :: "lock_world \<Rightarrow> bool" where
  "lock_inv w \<longleftrightarrow> fs_ok (lw_fs w) \<and> (\<forall>n f. n < length (lw_locks w) \<longrightarrow> lk_file (lw_locks w ! n) = Some f \<longrightarrow> holds (lw_fs w) f) \<and>
     (\<forall>m n f. m < length (lw_locks w) \<longrightarrow> n < length (lw_locks w) \<longrightarrow> lk_file (lw_locks w ! m) = Some f \<longrightarrow> lk_file (lw_locks w ! n) = Some f \<longrightarrow> m = n)"

text \<open>A change of the files that keeps every lock held but those of a set of file descriptions.\<close>

definition keeps :: "nat set \<Rightarrow> filesystem \<Rightarrow> filesystem \<Rightarrow> bool" where
  "keeps F fs fs' \<longleftrightarrow> fs_ok fs' \<and> (\<forall>f. f \<notin> F \<longrightarrow> holds fs f \<longrightarrow> holds fs' f)"

lemma keeps_trans: "keeps F fs fs' \<Longrightarrow> keeps G fs' fs'' \<Longrightarrow> keeps (F \<union> G) fs fs''"
  by (auto simp: keeps_def)

lemma keeps_refl: "fs_ok fs \<Longrightarrow> keeps F fs fs"
  by (simp add: keeps_def)

lemma holds_old: "fs_ok fs \<Longrightarrow> holds fs f \<Longrightarrow> f < fs_files fs"
  by (auto simp: fs_ok_def holds_iff)

lemma keeps_open: "fs_ok fs \<Longrightarrow> keeps {} fs (fst (OpenFile path fs))"
  by (force simp: keeps_def fs_ok_def holds_iff OpenFile_def Let_def split: option.splits)

lemma keeps_flock: "fs_ok fs \<Longrightarrow> keeps {} fs (fst (flock_exclusive fault f fs))"
  by (auto simp: keeps_def fs_ok_def holds_iff flock_exclusive_def split: option.splits)

lemma keeps_close: "fs_ok fs \<Longrightarrow> keeps {f} fs (close_file f fs)"
  by (fastforce simp: keeps_def fs_ok_def holds_iff close_file_def unlock_def)

lemma keeps_unlock: "fs_ok fs \<Longrightarrow> keeps {f} fs (unlock f fs)"
  by (fastforce simp: keeps_def fs_ok_def holds_iff unlock_def)

lemma keeps_text: "fs_ok fs \<Longrightarrow> keeps {} fs (set_text f change fs)"
  by (auto simp: keeps_def fs_ok_def holds_iff set_text_def split: option.splits)

lemma keeps_ok: "keeps F fs fs' \<Longrightarrow> fs_ok fs'"
  by (simp add: keeps_def)

section \<open>Acquisition\<close>

lemma fresh_file: "fs_ok fs \<Longrightarrow> fs_open fs (fs_files fs) = None \<and> fs_flock fs i \<noteq> Some (fs_files fs)"
  by (force simp: fs_ok_def)

text \<open>The file system once the lock file is open.\<close>

lemma OpenFile_cases:
  assumes "OpenFile path fs = (fs1, f)" and "fs_ok fs"
  obtains i where "f = fs_files fs" "fs_paths fs1 path = Some i" "fs_open fs1 = (fs_open fs)(f := Some i)" "fs_flock fs1 = fs_flock fs"
    "fs_ok fs1" "fs_files fs1 = fs_files fs + 1" "fs_paths fs path = None \<or> fs_paths fs path = Some i"
proof -
  have "fs_ok fs1" using keeps_open [OF assms(2), of path] assms(1) by (simp add: keeps_def)
  with assms that show thesis by (auto simp: OpenFile_def Let_def split: option.splits if_splits)
qed

lemma close_undoes:
  assumes "fs_ok fs" and "f = fs_files fs" and "fs_open fs1 = (fs_open fs)(f := Some i)" and "fs_flock fs1 = fs_flock fs \<or> fs_flock fs1 = (fs_flock fs)(i := Some f)"
    and "fs_flock fs1 = fs_flock fs \<or> fs_flock fs i = None"
  shows "fs_open (close_file f fs1) = fs_open fs \<and> fs_flock (close_file f fs1) = fs_flock fs"
proof
  have fresh: "fs_open fs f = None" "fs_flock fs j \<noteq> Some f" for j using fresh_file [OF assms(1)] assms(2) by simp_all
  then show "fs_open (close_file f fs1) = fs_open fs" using assms(3) by (simp add: close_file_def unlock_def fun_upd_idem)
  have "fs_flock (close_file f fs1) j = fs_flock fs j" for j
    using assms(4,5) fresh(2) [of j] by (cases "j = i") (auto simp: close_file_def unlock_def)
  then show "fs_flock (close_file f fs1) = fs_flock fs" by (rule ext)
qed

lemma set_text_simps [simp]:
  "fs_open (set_text f change fs) = fs_open fs" "fs_flock (set_text f change fs) = fs_flock fs" "fs_paths (set_text f change fs) = fs_paths fs"
  "fs_files (set_text f change fs) = fs_files fs"
  by (simp_all add: set_text_def split: option.splits)

lemma close_files [simp]: "fs_files (close_file f fs) = fs_files fs" "fs_files (give_up f fs) = fs_files fs"
  by (simp_all add: close_file_def unlock_def give_up_def)

lemma give_up_close: "fs_open (give_up f fs) = fs_open (close_file f fs)" "fs_flock (give_up f fs) = fs_flock (close_file f fs)"
  by (auto simp: give_up_def close_file_def unlock_def)

lemma sign_lock_cases:
  assumes "sign_lock calls pid absolute f fs = (fs', r)"
  shows "fs_files fs' = fs_files fs \<and> (\<exists>l. r = Inr l \<and> l = \<lparr>lk_file = Some f, lk_path = absolute\<rparr> \<and> fs_open fs' = fs_open fs \<and> fs_flock fs' = fs_flock fs \<and> fs_paths fs' = fs_paths fs) \<or>
     fs_files fs' = fs_files fs \<and> (\<exists>e. r = Inl e \<and> fs_open fs' = fs_open (close_file f fs) \<and> fs_flock fs' = fs_flock (close_file f fs))"
  using assms by (auto simp: sign_lock_def Let_def give_up_close close_file_def unlock_def split: option.splits)

lemma Acquire_cases:
  assumes "Acquire calls pid path fs = (fs', r)" and "fs_ok fs"
  shows "(\<exists>e. r = Inl e) \<and> fs_open fs' = fs_open fs \<and> fs_flock fs' = fs_flock fs \<and> fs_files fs \<le> fs_files fs' \<or>
    fs_files fs < fs_files fs' \<and> (\<exists>l i. r = Inr l \<and> lk_file l = Some (fs_files fs) \<and> fs_open fs' = (fs_open fs)(fs_files fs := Some i) \<and>
       fs_flock fs i = None \<and> fs_flock fs' = (fs_flock fs)(i := Some (fs_files fs)) \<and> fs_paths fs' (lk_path l) = Some i)"
proof (cases "path = '''' \<or> (\<exists>e. aq_resolve calls = Inl e) \<or> aq_mkdir calls \<noteq> None \<or> aq_open calls \<noteq> None")
  case True
  with assms show ?thesis by (auto simp: Acquire_def split: sum.splits option.splits if_splits)
next
  case False
  then obtain absolute where calls: "path \<noteq> ''''" "aq_resolve calls = Inr absolute" "aq_mkdir calls = None" "aq_open calls = None"
    by (cases "aq_resolve calls") auto
  obtain fs1 f where o: "OpenFile absolute fs = (fs1, f)" by (cases "OpenFile absolute fs")
  obtain fs2 err where l: "flock_exclusive (aq_flock calls) f fs1 = (fs2, err)" by (cases "flock_exclusive (aq_flock calls) f fs1")
  from o assms(2) obtain i where i: "f = fs_files fs" "fs_paths fs1 absolute = Some i" "fs_open fs1 = (fs_open fs)(f := Some i)" "fs_flock fs1 = fs_flock fs"
    "fs_files fs1 = fs_files fs + 1"
    by (rule OpenFile_cases)
  have free: "fs_flock fs i \<noteq> Some f" using fresh_file [OF assms(2)] i(1) by simp
  show ?thesis
  proof (cases err)
    case None
    then have g: "fs_flock fs i = None" "fs2 = fs1\<lparr>fs_flock := (fs_flock fs)(i := Some f)\<rparr>" "fs_files fs2 = fs_files fs + 1"
      using l i free by (auto simp: flock_exclusive_def split: option.splits if_splits)
    have s: "sign_lock calls pid absolute f fs2 = (fs', r)" using assms(1) calls o l None by (simp add: Acquire_def)
    have "fs_open (close_file f fs2) = fs_open fs \<and> fs_flock (close_file f fs2) = fs_flock fs"
      by (rule close_undoes [OF assms(2) i(1), of _ i]) (use g i in simp_all)
    with sign_lock_cases [OF s] g i show ?thesis by auto
  next
    case (Some e)
    then have "fs2 = fs1" using l by (auto simp: flock_exclusive_def split: option.splits if_splits)
    then have "fs' = close_file f fs1 \<and> (\<exists>e. r = Inl e)" using assms(1) calls o l Some by (auto simp: Acquire_def split: errno.splits)
    with close_undoes [OF assms(2) i(1,3)] i(4,5) show ?thesis by auto
  qed
qed

lemma keeps_acquire:
  assumes "Acquire calls pid path fs = (fs', r)" and "fs_ok fs"
  shows "keeps {} fs fs'"
proof (cases r)
  case (Inl e)
  then have "fs_open fs' = fs_open fs" "fs_flock fs' = fs_flock fs" "fs_files fs \<le> fs_files fs'" using Acquire_cases [OF assms] by auto
  then show ?thesis using assms(2) by (fastforce simp: keeps_def fs_ok_def holds_iff)
next
  case (Inr l)
  then obtain i where i: "fs_files fs < fs_files fs'" "fs_open fs' = (fs_open fs)(fs_files fs := Some i)" "fs_flock fs i = None"
    "fs_flock fs' = (fs_flock fs)(i := Some (fs_files fs))"
    using Acquire_cases [OF assms] by auto
  have old: "f < fs_files fs" if "fs_open fs f = Some k" for f k using assms(2) that by (force simp: fs_ok_def)
  have "fs_ok fs'"
    unfolding fs_ok_def
  proof (intro conjI allI impI)
    fix k f
    assume "fs_flock fs' k = Some f"
    then show "fs_open fs' f = Some k" using assms(2) old i by (cases "k = i") (auto simp: fs_ok_def)
  next
    fix f
    assume "fs_open fs' f \<noteq> None"
    then show "f < fs_files fs'" using old i by (cases "f = fs_files fs") (auto intro: less_trans)
  qed
  moreover have "holds fs' f" if "holds fs f" for f
  proof -
    from that obtain k where k: "fs_open fs f = Some k" "fs_flock fs k = Some f" by (auto simp: holds_iff)
    then have "k \<noteq> i" "f \<noteq> fs_files fs" using i(3) old by auto
    with k i show ?thesis by (simp add: holds_iff)
  qed
  ultimately show ?thesis by (simp add: keeps_def)
qed

section \<open>Preservation\<close>

lemma lock_inv_keeps:
  assumes "lock_inv w" and "keeps {f. foreign w f} (lw_fs w) fs"
  shows "lock_inv (w\<lparr>lw_fs := fs\<rparr>)"
proof -
  have "\<not> foreign w f" if "n < length (lw_locks w)" "lk_file (lw_locks w ! n) = Some f" for n f
    using that by (force simp: foreign_def in_set_conv_nth)
  with assms show ?thesis by (auto simp: lock_inv_def keeps_def)
qed

lemma keeps_weaken: "keeps F fs fs' \<Longrightarrow> F \<subseteq> G \<Longrightarrow> keeps G fs fs'"
  by (auto simp: keeps_def)

lemma AssertHeld_fs:
  assumes "AssertHeld calls l fs = (fs', r)"
  shows "fs' = fs \<or> (\<exists>f. fs' = fst (flock_exclusive (ck_flock calls) f fs))"
  using assms by (auto simp: AssertHeld_def case_prod_beta split: option.splits if_splits)

lemma lock_inv_close:
  assumes "lock_inv w" and "n < length (lw_locks w)" and "lk_file (lw_locks w ! n) = Some f" and "keeps {f} (lw_fs w) fs"
    and "lk_file l = None"
  shows "lock_inv \<lparr>lw_fs = fs, lw_locks = (lw_locks w)[n := l]\<rparr>"
proof -
  have "holds fs g" if "m < length (lw_locks w)" "m \<noteq> n" "lk_file (lw_locks w ! m) = Some g" for m g
    using assms that unfolding lock_inv_def keeps_def by (metis singletonD)
  with assms show ?thesis by (auto simp: lock_inv_def keeps_def nth_list_update split: if_splits)
qed

lemma lock_inv_acquired:
  assumes "lock_inv w" and "Acquire calls pid path (lw_fs w) = (fs, Inr l)"
  shows "lock_inv \<lparr>lw_fs = fs, lw_locks = lw_locks w @ [l]\<rparr>"
proof -
  have ok: "fs_ok (lw_fs w)" using assms(1) by (simp add: lock_inv_def)
  have k: "keeps {} (lw_fs w) fs" by (rule keeps_acquire [OF assms(2) ok])
  have l: "lk_file l = Some (fs_files (lw_fs w))" "holds fs (fs_files (lw_fs w))"
    using Acquire_cases [OF assms(2) ok] by (auto simp: holds_iff)
  have "f \<noteq> fs_files (lw_fs w)" if "n < length (lw_locks w)" "lk_file (lw_locks w ! n) = Some f" for n f
    using assms(1) that holds_old [OF ok] unfolding lock_inv_def by blast
  with assms(1) k l show ?thesis by (auto simp: lock_inv_def keeps_def nth_append less_Suc_eq split: if_splits)
qed

lemma lock_inv_step: "lock_step w w' \<Longrightarrow> lock_inv w \<Longrightarrow> lock_inv w'"
proof (induction rule: lock_step.induct)
  case (acquired calls pid path w fs l)
  then show ?case by (blast intro: lock_inv_acquired)
next
  case (refused calls pid path w fs e)
  then show ?case by (intro lock_inv_keeps) (auto intro: keeps_weaken [OF keeps_acquire] simp: lock_inv_def)
next
  case (checked n w calls fs r)
  have "fs_ok (lw_fs w)" using checked by (simp add: lock_inv_def)
  then have "keeps {} (lw_fs w) fs" using AssertHeld_fs [OF checked(2)] by (auto intro: keeps_flock keeps_refl)
  then show ?case using checked by (intro lock_inv_keeps) (auto intro: keeps_weaken)
next
  case (released n w unlockErr closeErr l fs errs)
  show ?case
  proof (cases "lk_file (lw_locks w ! n)")
    case None
    then have "l = lw_locks w ! n" "fs = lw_fs w" using released(2) by (simp_all add: ReleaseLock_def)
    then have "\<lparr>lw_fs = fs, lw_locks = (lw_locks w)[n := l]\<rparr> = w" by simp
    then show ?thesis using released by simp
  next
    case (Some f)
    have ok: "fs_ok (lw_fs w)" using released by (simp add: lock_inv_def)
    have "keeps {f} (lw_fs w) fs"
      using released(2) Some keeps_close [OF ok, of f] keeps_trans [OF keeps_unlock [OF ok, of f] keeps_close [OF keeps_ok [OF keeps_unlock [OF ok, of f]], of f]]
      by (auto simp: ReleaseLock_def split: if_splits)
    then show ?thesis using released Some by (intro lock_inv_close) (auto simp: ReleaseLock_def)
  qed
next
  case (died n w f)
  then show ?case by (intro lock_inv_close [of w n f]) (auto intro: keeps_close simp: lock_inv_def)
next
  case (opened w path)
  then show ?case by (intro lock_inv_keeps) (auto intro: keeps_weaken [OF keeps_open] simp: lock_inv_def)
next
  case (locked w f)
  then show ?case by (intro lock_inv_keeps) (auto intro: keeps_weaken [OF keeps_flock] simp: lock_inv_def)
next
  case (closed w f)
  then show ?case by (intro lock_inv_keeps) (auto intro: keeps_weaken [OF keeps_close] simp: lock_inv_def)
next
  case (relinked w path target)
  then show ?case by (auto simp: lock_inv_def fs_ok_def holds_iff)
qed

lemma lock_reachable_inv: "lock_reachable w \<Longrightarrow> lock_inv w"
  by (induction rule: lock_reachable.induct) (auto simp: lock_inv_step, simp add: lock_inv_def lock_start_def fs_ok_def)

section \<open>Mutual exclusion\<close>

text \<open>Calls that fail for no other reason than another lock.\<close>

definition working_calls :: "string \<Rightarrow> acquire_calls" where
  "working_calls absolute = \<lparr>aq_resolve = Inr absolute, aq_mkdir = None, aq_open = None, aq_flock = None, aq_truncate = None, aq_write = None, aq_sync = None\<rparr>"

lemma AssertHeld_confirms:
  assumes "AssertHeld calls (Some l) fs = (fs', None)"
  shows "\<exists>f i. lk_file l = Some f \<and> fs_open fs f = Some i \<and> fs_paths fs (lk_path l) = Some i"
  using assms by (auto simp: AssertHeld_def split: option.splits if_splits)

text \<open>
  C9. One writer: in every interleaving of processes that acquire, check, release and die, while other
  programs open, lock, remove and replace the file, at most one lock on a path is confirmed by
  \<^verbatim>\<open>AssertHeld\<close> at a time; and while one is confirmed every attempt to acquire the same path is refused
  as already held.
\<close>

theorem writer_locks_exclude:
  assumes "lock_reachable w" and "m < length (lw_locks w)" and "n < length (lw_locks w)" and "lk_path (lw_locks w ! m) = lk_path (lw_locks w ! n)"
    and "AssertHeld callsM (Some (lw_locks w ! m)) (lw_fs w) = (fsM, None)" and "AssertHeld callsN (Some (lw_locks w ! n)) (lw_fs w) = (fsN, None)"
    and "path \<noteq> ''''"
  shows "m = n \<and> snd (Acquire (working_calls (lk_path (lw_locks w ! m))) pid path (lw_fs w)) = Inl ErrAlreadyHeld"
proof
  let ?fs = "lw_fs w" and ?l = "lw_locks w ! m"
  note inv = lock_reachable_inv [OF assms(1), unfolded lock_inv_def]
  obtain f i where m: "lk_file ?l = Some f" "fs_open ?fs f = Some i" "fs_paths ?fs (lk_path ?l) = Some i"
    using AssertHeld_confirms [OF assms(5)] by blast
  obtain g j where n: "lk_file (lw_locks w ! n) = Some g" "fs_open ?fs g = Some j" "fs_paths ?fs (lk_path (lw_locks w ! n)) = Some j"
    using AssertHeld_confirms [OF assms(6)] by blast
  have "holds ?fs f" "holds ?fs g" using inv assms(2,3) m(1) n(1) by blast+
  then have held: "fs_flock ?fs i = Some f" "fs_flock ?fs i = Some g" using m(2,3) n(2,3) assms(4) by (auto simp: holds_iff)
  then show "m = n" using inv assms(2,3) m(1) n(1) by (metis option.inject)
  obtain fs1 h where o: "OpenFile (lk_path ?l) ?fs = (fs1, h)" by (cases "OpenFile (lk_path ?l) ?fs")
  from o conjunct1 [OF inv] have "h = fs_files ?fs" "fs_open fs1 h = Some i" "fs_flock fs1 = fs_flock ?fs"
    by (rule OpenFile_cases; use m(3) in auto)+
  moreover have "f \<noteq> fs_files ?fs" using holds_old [OF conjunct1 [OF inv] \<open>holds ?fs f\<close>] by simp
  ultimately have "flock_exclusive None h fs1 = (fs1, Some EWOULDBLOCK)" using held(1) by (simp add: flock_exclusive_def)
  then show "snd (Acquire (working_calls (lk_path ?l)) pid path ?fs) = Inl ErrAlreadyHeld"
    using assms(7) o by (simp add: Acquire_def working_calls_def)
qed

text \<open>A process acquires the lock; the file is removed, so the next one is granted a lock on a new file: only its lock is confirmed.\<close>

definition calm_checks :: check_calls where
  "calm_checks = \<lparr>ck_statHeld = None, ck_statPath = None, ck_flock = None\<rparr>"

definition sample_acquire :: "lock_world \<Rightarrow> lock_world" where
  "sample_acquire w = (case Acquire (working_calls ''/run/lock'') 7 ''lock'' (lw_fs w) of
     (fs, Inr l) \<Rightarrow> \<lparr>lw_fs = fs, lw_locks = lw_locks w @ [l]\<rparr> | (fs, Inl e) \<Rightarrow> w\<lparr>lw_fs := fs\<rparr>)"

definition sample_unlink :: "lock_world \<Rightarrow> lock_world" where
  "sample_unlink w = w\<lparr>lw_fs := (lw_fs w)\<lparr>fs_paths := (fs_paths (lw_fs w))(''/run/lock'' := None)\<rparr>\<rparr>"

definition sample_lock_world :: lock_world where
  "sample_lock_world = sample_acquire (sample_unlink (sample_acquire lock_start))"

lemma sample_acquire_reachable: "lock_reachable w \<Longrightarrow> lock_reachable (sample_acquire w)"
  by (auto simp: sample_acquire_def split: prod.splits sum.splits intro: lock_reachable.intros(2) lock_step.intros)

lemma sample_unlink_reachable: "lock_reachable w \<Longrightarrow> lock_reachable (sample_unlink w)"
  unfolding sample_unlink_def by (rule lock_reachable.intros(2) [OF _ relinked])

lemmas lock_eval = sample_lock_world_def sample_acquire_def sample_unlink_def lock_start_def Acquire_def working_calls_def OpenFile_def
  flock_exclusive_def sign_lock_def set_text_def AssertHeld_def calm_checks_def Let_def

theorem writer_locks_exclude_witness:
  "length (lw_locks sample_lock_world) = 2 \<and>
   snd (AssertHeld calm_checks (Some (lw_locks sample_lock_world ! 0)) (lw_fs sample_lock_world)) = Some PathReplaced \<and>
   snd (AssertHeld calm_checks (Some (lw_locks sample_lock_world ! 1)) (lw_fs sample_lock_world)) = None \<and>
   snd (Acquire (working_calls ''/run/lock'') 9 ''lock'' (lw_fs sample_lock_world)) = Inl ErrAlreadyHeld"
proof -
  have r: "lock_reachable sample_lock_world"
    unfolding sample_lock_world_def by (intro sample_acquire_reachable sample_unlink_reachable lock_reachable.intros(1))
  have l: "length (lw_locks sample_lock_world) = 2" "lk_path (lw_locks sample_lock_world ! 1) = ''/run/lock''"
    "snd (AssertHeld calm_checks (Some (lw_locks sample_lock_world ! 0)) (lw_fs sample_lock_world)) = Some PathReplaced"
    "snd (AssertHeld calm_checks (Some (lw_locks sample_lock_world ! 1)) (lw_fs sample_lock_world)) = None"
    by (simp_all add: lock_eval)
  obtain fs where a: "AssertHeld calm_checks (Some (lw_locks sample_lock_world ! 1)) (lw_fs sample_lock_world) = (fs, None)"
    using l(4) by (metis prod.collapse)
  show ?thesis using writer_locks_exclude [OF r _ _ refl a a, of "''lock''" 9] l by simp
qed

end
