(* ===== verification/Command.thy ===== *)
theory Command
  imports Connection Lock_Laws Runner Dataset
begin

text \<open>
  \<^verbatim>\<open>cmd/clicksync/main.go\<close>: the three commands over the components they use. What the environment, the
  driver, the operating system and the running synchronization answer are arguments; the resources a process
  owns, its connection and its writer lock, are its state. The log records for every use of the database
  whether the process held the writer lock at that moment.
\<close>

section \<open>Output\<close>

record point_output =
  po_Origin :: bool
  po_Slot :: u64
  po_Hash :: string
  po_BlockNumber :: u64
  po_IsByronEBB :: bool

record status_output =
  so_Initialized :: bool
  so_DatasetID :: string
  so_SchemaHash :: string
  so_NetworkName :: string
  so_NetworkMagic :: u32
  so_Start :: point_output
  so_Snapshot :: u64
  so_Tip :: point_output
  so_CanonicalDepth :: nat
  so_Intersections :: "point_output list"
  so_CreatedAt :: time
  so_SourceBuild :: string

definition EncodeToString :: "bytes \<Rightarrow> string" where
  "EncodeToString bs = concat (map hex_byte bs)"

definition zero_output :: point_output where
  "zero_output = \<lparr>po_Origin = False, po_Slot = 0, po_Hash = '''', po_BlockNumber = 0, po_IsByronEBB = False\<rparr>"

definition pointForOutput :: "point \<Rightarrow> point_output" where
  "pointForOutput point =
     (let ret = zero_output\<lparr>po_Origin := pt_Origin point\<rparr> in
      if pt_Origin point then ret
      else ret\<lparr>po_Slot := pt_Slot point, po_Hash := EncodeToString (bytes32 (pt_Hash point)),
        po_BlockNumber := pt_BlockNumber point, po_IsByronEBB := pt_IsByronEBB point\<rparr>)"

text \<open>\<open>uuidText\<close> is the text of a UUID.\<close>

definition statusFromState :: "(uuid \<Rightarrow> string) \<Rightarrow> store_state \<Rightarrow> status_output" where
  "statusFromState uuidText state =
     \<lparr>so_Initialized = True, so_DatasetID = uuidText (di_DatasetID (st_Dataset state)),
      so_SchemaHash = EncodeToString (bytes32 (di_SchemaHash (st_Dataset state))),
      so_NetworkName = di_NetworkName (st_Dataset state), so_NetworkMagic = di_NetworkMagic (st_Dataset state),
      so_Start = pointForOutput (di_Start (st_Dataset state)), so_Snapshot = st_Snapshot state,
      so_Tip = pointForOutput (st_Tip state), so_CanonicalDepth = length (st_Canonical state),
      so_Intersections = map pointForOutput (st_Intersections state), so_CreatedAt = di_CreatedAt (st_Dataset state),
      so_SourceBuild = di_SourceBuild (st_Dataset state)\<rparr>"

definition uninitialized_status :: status_output where
  "uninitialized_status = \<lparr>so_Initialized = False, so_DatasetID = '''', so_SchemaHash = '''', so_NetworkName = '''', so_NetworkMagic = 0,
     so_Start = zero_output, so_Snapshot = 0, so_Tip = zero_output, so_CanonicalDepth = 0, so_Intersections = [],
     so_CreatedAt = 0, so_SourceBuild = ''''\<rparr>"

definition storePoint :: "point \<Rightarrow> point" where
  "storePoint point = \<lparr>pt_Origin = pt_Origin point, pt_Slot = pt_Slot point, pt_Hash = pt_Hash point,
     pt_BlockNumber = pt_BlockNumber point, pt_IsByronEBB = pt_IsByronEBB point\<rparr>"

definition effectiveBuildID :: "string \<Rightarrow> string" where
  "effectiveBuildID buildID = (if buildID = '''' then ''development'' else buildID)"

section \<open>Errors\<close>

datatype 'e command_error =
    UsageError
  | UnknownCommand string
  | OutputRequired
  | LoggerRequired
  | ConfigFailed config_error
  | ConnectionFailed go_error
  | MigrateFailed go_error
  | LockFailed lock_error
  | ReleaseFailed "go_error list"
  | InitializeFailed store_error
  | RunFailed "'e run_error"
  | InspectFailed store_error
  | EncodeFailed go_error
  | Joined "'e command_error list"

definition errorsJoin :: "'e command_error option list \<Rightarrow> 'e command_error option" where
  "errorsJoin es = (let given = List.map_filter id es in if given = [] then None else Some (Joined given))"

text \<open>\<^verbatim>\<open>errors.Is(err, syncer.ErrShutdownTimeout)\<close>\<close>

fun is_shutdown_timeout :: "'e run_error \<Rightarrow> bool" where
  "is_shutdown_timeout ShutdownTimeout = True"
| "is_shutdown_timeout (ShutdownDuringCleanup _) = True"
| "is_shutdown_timeout (CleanupTimeout (Some e)) = is_shutdown_timeout e"
| "is_shutdown_timeout _ = False"

section \<open>A process\<close>

datatype command_action =
    ActOpen database_config
  | ActPing
  | ActMigrate
  | ActInitialize dataset_config
  | ActRun sync_config
  | ActInspect u32
  | ActClose

record command_process =
  pc_fs :: filesystem
  pc_lock :: "lock option"
  pc_connected :: bool
  pc_db :: database
  pc_output :: "status_output list"
  pc_log :: "(command_action \<times> bool) list"

definition lock_held :: "command_process \<Rightarrow> bool" where
  "lock_held p = (case Option.bind (pc_lock p) lk_file of None \<Rightarrow> False | Some f \<Rightarrow> holds (pc_fs p) f)"

definition did :: "command_action \<Rightarrow> command_process \<Rightarrow> command_process" where
  "did action p = p\<lparr>pc_log := pc_log p @ [(action, lock_held p)]\<rparr>"

record 'e command_calls =
  cc_environment :: environment
  cc_ParseDuration :: "string \<Rightarrow> int option"
  cc_gomaxprocs :: int
  cc_buildID :: string
  cc_acquire :: acquire_calls
  cc_pid :: nat
  cc_unlock :: "go_error option"
  cc_closeLock :: "go_error option"
  cc_driver :: "clickhouse_options \<Rightarrow> go_error option"
  cc_newDB :: store_handle
  cc_ping :: "go_error option"
  cc_close :: "go_error option"
  cc_exec :: "database \<Rightarrow> string \<Rightarrow> database \<times> go_error option"
  cc_initial :: string
  cc_initialize :: initialize_env
  cc_run :: "sync_config \<Rightarrow> store_handle \<Rightarrow> database \<Rightarrow> database \<times> 'e run_error option option"
  cc_inspectLoad :: query_outcome
  cc_inspectState :: state_queries
  cc_uuidText :: "uuid \<Rightarrow> string"
  cc_encode :: "go_error option"

section \<open>The commands\<close>

definition close_db :: "'e command_calls \<Rightarrow> store_handle \<Rightarrow> command_process \<Rightarrow> command_process \<times> 'e command_error option" where
  "close_db calls h p = (did ActClose p\<lparr>pc_connected := False\<rparr>, map_option ConnectionFailed (CloseDB (cc_close calls) (Some h)))"

definition openAndPing :: "'e command_calls \<Rightarrow> database_config \<Rightarrow> command_process \<Rightarrow> command_process \<times> ('e command_error + store_handle)" where
  "openAndPing calls cfg p =
     (case Open (cc_driver calls) (cc_newDB calls) cfg of
        Inl e \<Rightarrow> (p, Inl (ConnectionFailed e))
      | Inr h \<Rightarrow>
          (let p = did ActPing (did (ActOpen cfg) (p\<lparr>pc_connected := True\<rparr>)) in
           case Ping (cc_ping calls) (Some h) of
             Some e \<Rightarrow> (fst (close_db calls h p), Inl (ConnectionFailed e))
           | None \<Rightarrow> (p, Inr h)))"

definition release_lock :: "'e command_calls \<Rightarrow> command_process \<Rightarrow> command_process \<times> 'e command_error option" where
  "release_lock calls p =
     (case pc_lock p of
        None \<Rightarrow> (p, None)
      | Some l \<Rightarrow>
          (let (l, fs, errs) = ReleaseLock (cc_unlock calls) (cc_closeLock calls) l (pc_fs p)
           in (p\<lparr>pc_lock := Some l, pc_fs := fs\<rparr>, if errs = [] then None else Some (ReleaseFailed errs))))"

definition closeOwned :: "'e command_calls \<Rightarrow> store_handle \<Rightarrow> command_process \<Rightarrow> command_process \<times> 'e command_error option" where
  "closeOwned calls h p =
     (let (p, closed) = close_db calls h p; (p, released) = release_lock calls p in (p, errorsJoin [closed, released]))"

definition command_migrate :: "'e command_calls \<Rightarrow> command_process \<Rightarrow> command_process \<times> 'e command_error option" where
  "command_migrate calls p =
     (case DatabaseFromEnv (cc_environment calls) of
        Inl e \<Rightarrow> (p, Some (ConfigFailed e))
      | Inr cfg \<Rightarrow>
     (case openAndPing calls cfg p of
        (p, Inl e) \<Rightarrow> (p, Some e)
      | (p, Inr h) \<Rightarrow>
          (let (db, err) = Migrate (cc_exec calls) (cc_initial calls) (Some h) (pc_db p);
               p = (did ActMigrate p)\<lparr>pc_db := db\<rparr>
           in (fst (close_db calls h p), map_option MigrateFailed err))))"

definition command_status :: "'e command_calls \<Rightarrow> command_process \<Rightarrow> command_process \<times> 'e command_error option" where
  "command_status calls p =
     (case DatabaseFromEnv (cc_environment calls) of
        Inl e \<Rightarrow> (p, Some (ConfigFailed e))
      | Inr cfg \<Rightarrow>
     (case RollbackDepthFromEnv (cc_environment calls) of
        Inl e \<Rightarrow> (p, Some (ConfigFailed e))
      | Inr depth \<Rightarrow>
     (case openAndPing calls cfg p of
        (p, Inl e) \<Rightarrow> (p, Some e)
      | (p, Inr h) \<Rightarrow>
          (let p = did (ActInspect depth) p in
           case Inspect (cc_inspectLoad calls) (cc_inspectState calls) h (pc_db p) depth of
             Inl e \<Rightarrow> (fst (close_db calls h p), Some (InspectFailed e))
           | Inr found \<Rightarrow>
               (let status = (case found of None \<Rightarrow> uninitialized_status | Some state \<Rightarrow> statusFromState (cc_uuidText calls) state);
                    p = (case cc_encode calls of None \<Rightarrow> p\<lparr>pc_output := pc_output p @ [status]\<rparr> | Some _ \<Rightarrow> p)
                in (fst (close_db calls h p), map_option EncodeFailed (cc_encode calls)))))))"

text \<open>The part of the sync command that owns lock and connection.\<close>

definition sync_owned :: "'e command_calls \<Rightarrow> sync_config \<Rightarrow> store_handle \<Rightarrow> command_process \<Rightarrow> command_process \<times> 'e command_error option" where
  "sync_owned calls cfg h p =
     (let config = \<lparr>dc_NetworkMagic = cs_NetworkMagic cfg, dc_NetworkName = cs_NetworkName cfg, dc_Start = storePoint (cs_Start cfg),
            dc_SourceBuild = effectiveBuildID (cc_buildID calls)\<rparr>;
          (h, db, identity) = Initialize (cc_initialize calls) config h (pc_db p);
          p = (did (ActInitialize config) p)\<lparr>pc_db := db\<rparr>
      in case identity of
           Inl e \<Rightarrow> (let (p, owned) = closeOwned calls h p in (p, errorsJoin [Some (InitializeFailed e), owned]))
         | Inr _ \<Rightarrow>
             (let (db, finished) = cc_run calls cfg h (pc_db p);
                  p = (did (ActRun cfg) p)\<lparr>pc_db := db\<rparr>;
                  err = Run True True True True cfg finished
              in if (case err of None \<Rightarrow> False | Some e \<Rightarrow> is_shutdown_timeout e) then (p, map_option RunFailed err)
                 else (let (p, owned) = closeOwned calls h p in (p, errorsJoin [map_option RunFailed err, owned]))))"

definition command_sync :: "'e command_calls \<Rightarrow> command_process \<Rightarrow> command_process \<times> 'e command_error option" where
  "command_sync calls p =
     (case SyncFromEnv (cc_ParseDuration calls) (cc_gomaxprocs calls) (cc_environment calls) of
        Inl e \<Rightarrow> (p, Some (ConfigFailed e))
      | Inr cfg \<Rightarrow>
     (case Acquire (cc_acquire calls) (cc_pid calls) (cs_LockPath cfg) (pc_fs p) of
        (fs, Inl e) \<Rightarrow> (p\<lparr>pc_fs := fs\<rparr>, Some (LockFailed e))
      | (fs, Inr l) \<Rightarrow>
     (case openAndPing calls (cs_Database cfg) (p\<lparr>pc_fs := fs, pc_lock := Some l\<rparr>) of
        (p, Inl e) \<Rightarrow> (let (p, released) = release_lock calls p in (p, errorsJoin [Some e, released]))
      | (p, Inr h) \<Rightarrow> sync_owned calls cfg h p)))"

definition runCommand :: "'e command_calls \<Rightarrow> string \<Rightarrow> bool \<Rightarrow> bool \<Rightarrow> command_process \<Rightarrow> command_process \<times> 'e command_error option" where
  "runCommand calls command output logger p =
     (if \<not> output then (p, Some OutputRequired)
      else if \<not> logger then (p, Some LoggerRequired)
      else if command = ''migrate'' then command_migrate calls p
      else if command = ''sync'' then command_sync calls p
      else if command = ''status'' then command_status calls p
      else (p, Some (UnknownCommand command)))"

definition run_main :: "'e command_calls \<Rightarrow> string list \<Rightarrow> bool \<Rightarrow> bool \<Rightarrow> command_process \<Rightarrow> command_process \<times> 'e command_error option" where
  "run_main calls args output logger p =
     (case args of
        [command] \<Rightarrow>
          if command \<notin> {''migrate'', ''sync'', ''status''} then (p, Some (UnknownCommand command))
          else runCommand calls command output logger p
      | _ \<Rightarrow> (p, Some UsageError))"

text \<open>\<^verbatim>\<open>main\<close>: the exit status.\<close>

definition main_exit :: "'e command_calls \<Rightarrow> string list \<Rightarrow> command_process \<Rightarrow> command_process \<times> nat" where
  "main_exit calls args p = (let (p, err) = run_main calls args True True p in (p, if err = None then 0 else 1))"

section \<open>Ownership of lock and connection\<close>

lemma did_simps [simp]:
  "pc_fs (did a p) = pc_fs p" "pc_lock (did a p) = pc_lock p" "pc_connected (did a p) = pc_connected p" "pc_db (did a p) = pc_db p"
  "pc_log (did a p) = pc_log p @ [(a, lock_held p)]" "lock_held (did a p) = lock_held p"
  by (simp_all add: did_def lock_held_def split: option.splits)

lemma lock_held_updates [simp]:
  "lock_held (p\<lparr>pc_db := db\<rparr>) = lock_held p" "lock_held (p\<lparr>pc_connected := b\<rparr>) = lock_held p" "lock_held (p\<lparr>pc_output := s\<rparr>) = lock_held p"
  by (simp_all add: lock_held_def split: option.splits)

lemma close_db_simps [simp]:
  "pc_fs (fst (close_db calls h p)) = pc_fs p" "pc_lock (fst (close_db calls h p)) = pc_lock p" "\<not> pc_connected (fst (close_db calls h p))"
  "pc_log (fst (close_db calls h p)) = pc_log p @ [(ActClose, lock_held p)]"
  by (simp_all add: close_db_def)

lemma openAndPing_cases:
  assumes "openAndPing calls cfg p = (p', r)" and "\<not> pc_connected p"
  shows "pc_fs p' = pc_fs p \<and> pc_lock p' = pc_lock p \<and> (pc_connected p' \<longleftrightarrow> (\<exists>h. r = Inr h)) \<and>
    (\<exists>acts. pc_log p' = pc_log p @ map (\<lambda>a. (a, lock_held p)) acts)"
  using assms
  by (auto simp: openAndPing_def Let_def split: sum.splits option.splits intro: exI [of _ "[]"] exI [of _ "[ActOpen cfg, ActPing]"]
      exI [of _ "[ActOpen cfg, ActPing, ActClose]"])

text \<open>A released lock leaves the table of open files and locks as it was before the lock was acquired.\<close>

definition unowned :: "filesystem \<Rightarrow> filesystem \<Rightarrow> bool" where
  "unowned fs fs' \<longleftrightarrow> fs_open fs' = fs_open fs \<and> fs_flock fs' = fs_flock fs"

lemma release_undoes:
  assumes "fs_ok fs" and "Acquire calls pid path fs = (fs', Inr l)" and "ReleaseLock u c l fs' = (l', fs'', errs)"
  shows "unowned fs fs''"
proof -
  from Acquire_cases [OF assms(2,1)] obtain i where i: "lk_file l = Some (fs_files fs)" "fs_open fs' = (fs_open fs)(fs_files fs := Some i)"
    "fs_flock fs i = None" "fs_flock fs' = (fs_flock fs)(i := Some (fs_files fs))" by auto
  have "unowned fs (close_file (fs_files fs) fs')"
    using close_undoes [OF assms(1) refl i(2)] i(3,4) by (simp add: unowned_def)
  then show ?thesis
    using assms(3) i(1) give_up_close [of "fs_files fs" fs'] by (auto simp: ReleaseLock_def unowned_def give_up_def split: if_splits)
qed

lemma release_lock_log [simp]: "pc_log (fst (release_lock calls p)) = pc_log p" "pc_connected (fst (release_lock calls p)) = pc_connected p"
  by (auto simp: release_lock_def split: option.splits prod.splits)

lemma release_lock_unowned:
  assumes "fs_ok fs" and "Acquire ac pid path fs = (fs', Inr l)" and "pc_fs p = fs'" "pc_lock p = Some l"
  shows "unowned fs (pc_fs (fst (release_lock calls p)))"
  using release_undoes [OF assms(1,2)] assms(3,4) by (auto simp: release_lock_def split: prod.splits)

lemma closeOwned_cases:
  assumes "fs_ok fs" and "Acquire ac pid path fs = (fs', Inr l)" and "pc_fs p = fs'" "pc_lock p = Some l"
    and "closeOwned calls h p = (p', r)"
  shows "unowned fs (pc_fs p') \<and> \<not> pc_connected p' \<and> pc_log p' = pc_log p @ [(ActClose, lock_held p)]"
proof -
  let ?q = "fst (close_db calls h p)"
  have "p' = fst (release_lock calls ?q)" using assms(5) by (simp add: closeOwned_def case_prod_beta Let_def)
  then show ?thesis using release_lock_unowned [OF assms(1,2), of ?q calls] assms(3,4) by simp
qed

text \<open>The state in which the sync command has just acquired the lock.\<close>

definition fenced :: "'e command_error option \<Rightarrow> filesystem \<Rightarrow> command_process \<Rightarrow> bool" where
  "fenced err fs p \<longleftrightarrow> list_all snd (pc_log p) \<and>
     (if \<exists>e. err = Some (RunFailed e) \<and> is_shutdown_timeout e then pc_connected p \<and> lock_held p else \<not> pc_connected p \<and> unowned fs (pc_fs p))"

lemma errorsJoin_not_run: "errorsJoin es \<noteq> Some (RunFailed e)"
  by (simp add: errorsJoin_def Let_def)

lemma sync_owned_fenced:
  assumes "fs_ok fs" and "Acquire ac pid path fs = (fs', Inr l)" and "pc_fs p = fs'" "pc_lock p = Some l" "pc_connected p"
    and "list_all snd (pc_log p)" and "lock_held p" and "sync_owned calls cfg h p = (p', err)"
  shows "fenced err fs p'"
proof -
  have c: "fenced (errorsJoin es) fs p'" if "closeOwned calls h1 q = (p', r)" "pc_fs q = fs'" "pc_lock q = Some l" "list_all snd (pc_log q)" "lock_held q"
    for h1 q r es
    using closeOwned_cases [OF assms(1,2) that(2,3,1)] that(4,5) by (simp add: fenced_def errorsJoin_not_run)
  let ?config = "\<lparr>dc_NetworkMagic = cs_NetworkMagic cfg, dc_NetworkName = cs_NetworkName cfg, dc_Start = storePoint (cs_Start cfg),
    dc_SourceBuild = effectiveBuildID (cc_buildID calls)\<rparr>"
  obtain h1 db identity where init: "Initialize (cc_initialize calls) ?config h (pc_db p) = (h1, db, identity)"
    by (cases "Initialize (cc_initialize calls) ?config h (pc_db p)") auto
  let ?p = "(did (ActInitialize ?config) p)\<lparr>pc_db := db\<rparr>"
  show ?thesis
  proof (cases identity)
    case (Inl e)
    obtain q r where o: "closeOwned calls h1 ?p = (q, r)" by (cases "closeOwned calls h1 ?p")
    then have "p' = q" "err = errorsJoin [Some (InitializeFailed e), r]" using assms(8) init Inl by (simp_all add: sync_owned_def)
    then show ?thesis using c [OF o [folded \<open>p' = q\<close>]] assms(3-7) by simp
  next
    case (Inr i)
    obtain db2 finished where r: "cc_run calls cfg h1 db = (db2, finished)" by (cases "cc_run calls cfg h1 db")
    let ?q = "(did (ActRun cfg) ?p)\<lparr>pc_db := db2\<rparr>" and ?err = "Run True True True True cfg finished"
    obtain q r where o: "closeOwned calls h1 ?q = (q, r)" by (cases "closeOwned calls h1 ?q")
    show ?thesis
    proof (cases "case ?err of None \<Rightarrow> False | Some e \<Rightarrow> is_shutdown_timeout e")
      case True
      then have "p' = ?q" "err = map_option RunFailed ?err" using assms(8) init Inr r by (simp_all add: sync_owned_def)
      then show ?thesis using True assms(3-7) by (auto simp: fenced_def split: option.splits)
    next
      case False
      then have "p' = q" "err = errorsJoin [map_option RunFailed ?err, r]" using assms(8) init Inr r o by (simp_all add: sync_owned_def)
      then show ?thesis using c [OF o [folded \<open>p' = q\<close>]] assms(3-7) by simp
    qed
  qed
qed

lemma acquired_held:
  assumes "fs_ok fs" and "Acquire ac pid path fs = (fs', Inr l)"
  shows "\<exists>f. lk_file l = Some f \<and> holds fs' f"
  using Acquire_cases [OF assms(2,1)] by (auto simp: holds_iff)

lemma list_all_map_held: "list_all snd (map (\<lambda>a. (a, True)) xs)"
  by (induction xs) auto

lemma command_sync_fenced:
  assumes "fs_ok (pc_fs p)" and "\<not> pc_connected p" "pc_log p = []" and "command_sync calls p = (p', err)"
  shows "fenced err (pc_fs p) p'"
proof (cases "SyncFromEnv (cc_ParseDuration calls) (cc_gomaxprocs calls) (cc_environment calls)")
  case (Inl e)
  with assms show ?thesis by (auto simp: command_sync_def fenced_def unowned_def)
next
  case (Inr cfg)
  obtain fs r where a: "Acquire (cc_acquire calls) (cc_pid calls) (cs_LockPath cfg) (pc_fs p) = (fs, r)" by force
  show ?thesis
  proof (cases r)
    case (Inl e)
    then have "unowned (pc_fs p) fs" using Acquire_cases [OF a assms(1)] by (auto simp: unowned_def)
    then show ?thesis using assms Inr a Inl by (auto simp: command_sync_def fenced_def)
  next
    case l: (Inr l)
    let ?p = "p\<lparr>pc_fs := fs, pc_lock := Some l\<rparr>"
    have a': "Acquire (cc_acquire calls) (cc_pid calls) (cs_LockPath cfg) (pc_fs p) = (fs, Inr l)" using a l by simp
    have held: "lock_held ?p" using acquired_held [OF assms(1) a'] by (auto simp: lock_held_def)
    obtain q o' where o: "openAndPing calls (cs_Database cfg) ?p = (q, o')" by force
    have q: "pc_fs q = fs" "pc_lock q = Some l" "pc_connected q \<longleftrightarrow> (\<exists>h. o' = Inr h)" "list_all snd (pc_log q)"
      using openAndPing_cases [OF o] assms(2,3) held list_all_map_held by auto
    have "lock_held q" using held q(1,2) by (simp add: lock_held_def split: option.splits)
    show ?thesis
    proof (cases o')
      case (Inl e)
      then have "p' = fst (release_lock calls q)" "\<exists>es. err = errorsJoin es"
        using assms(4) Inr a' o by (auto simp: command_sync_def case_prod_beta Let_def)
      then show ?thesis
        using release_lock_unowned [OF assms(1) a' q(1,2)] q(3,4) Inl by (auto simp: fenced_def errorsJoin_not_run)
    next
      case h: (Inr h)
      then have "sync_owned calls cfg h q = (p', err)" using assms(4) Inr a' o by (simp add: command_sync_def)
      then show ?thesis using sync_owned_fenced [OF assms(1) a' q(1,2)] q(3,4) h \<open>lock_held q\<close> by blast
    qed
  qed
qed

lemma other_commands:
  assumes "\<not> pc_connected p" and "command_migrate calls p = (p', err) \<or> command_status calls p = (p', err)"
  shows "\<not> pc_connected p' \<and> pc_fs p' = pc_fs p \<and> err \<noteq> Some (RunFailed e)"
proof -
  have o: "pc_fs q = pc_fs p \<and> (pc_connected q \<longleftrightarrow> (\<exists>h. r = Inr h)) \<and> r \<noteq> Inl (RunFailed e)" if "openAndPing calls cfg p = (q, r)" for cfg q r
    using openAndPing_cases [OF that assms(1)] that by (auto simp: openAndPing_def Let_def split: sum.splits option.splits)
  show ?thesis
    using assms
    by (auto simp: command_migrate_def command_status_def Let_def dest!: o split: sum.splits prod.splits option.splits)
qed

text \<open>
  C10. The fence around the database: the sync command uses the database only while it holds the writer lock,
  from opening the connection to closing it. However a command ends, its connection is closed and the open
  files and locks of the system are as before, with one exception: when the shutdown timed out both are kept,
  so that no other writer can start beside an operation that may still be running.
\<close>

theorem commands_own_resources:
  assumes "run_main calls args output logger p = (p', err)" and "fs_ok (pc_fs p)" and "\<not> pc_connected p" and "pc_log p = []"
  shows "(args = [''sync''] \<longrightarrow> list_all snd (pc_log p')) \<and>
    (if \<exists>e. err = Some (RunFailed e) \<and> is_shutdown_timeout e then pc_connected p' \<and> lock_held p'
     else \<not> pc_connected p' \<and> fs_open (pc_fs p') = fs_open (pc_fs p) \<and> fs_flock (pc_fs p') = fs_flock (pc_fs p))"
proof -
  consider (none) "p' = p" "\<forall>e. err \<noteq> Some (RunFailed e)" | (other) "args \<noteq> [''sync'']" "command_migrate calls p = (p', err) \<or> command_status calls p = (p', err)"
    | (sync) "command_sync calls p = (p', err)"
    using assms(1) by (auto simp: run_main_def runCommand_def split: list.splits if_splits)
  then show ?thesis
  proof cases
    case none
    then show ?thesis using assms(3,4) by simp
  next
    case other
    then show ?thesis using other_commands [OF assms(3) other(2)] by auto
  next
    case sync
    from command_sync_fenced [OF assms(2-4) this] show ?thesis by (auto simp: fenced_def unowned_def split: if_splits)
  qed
qed

text \<open>A sync command whose initialization cannot read the dataset.\<close>

lemma default_sync: "\<exists>cfg. SyncFromEnv pd 4 password_only = Inr cfg \<and> cs_LockPath cfg \<noteq> ''''"
proof -
  obtain start where start: "ParsePoint defaultStart = Inr start" using default_start_parsed by blast
  have env: "password_only name = None" if "name \<noteq> ''CLICKHOUSE_PASSWORD''" for name
    using that by (simp add: password_only_def)
  have small: "(2160 :: u32) \<le> 100000" "(2000000 :: u64) \<le> 10000000" by (simp_all add: word_le_nat_alt)
  show ?thesis
    using small by (auto simp: SyncFromEnv_def default_database default_relays_parsed start env env_defs Let_def MainnetMagic_def
        Validate_def Validate_database_def sync_checks_def default_relays_again TrimSpace_def is_space_def not_le
        split: if_splits)
qed

definition sample_calls :: "unit command_calls" where
  "sample_calls = \<lparr>cc_environment = password_only, cc_ParseDuration = (\<lambda>_. None), cc_gomaxprocs = 4, cc_buildID = '''',
     cc_acquire = working_calls ''/run/lock'', cc_pid = 7, cc_unlock = None, cc_closeLock = None, cc_driver = (\<lambda>_. None),
     cc_newDB = newDB 1 0 zero32, cc_ping = None, cc_close = None, cc_exec = (\<lambda>d s. (d, None)), cc_initial = '''',
     cc_initialize = \<lparr>ie_load = QueryFails, ie_uuid = 1, ie_clock = 0, ie_insert = SendOk, ie_reload = QueryOk,
       ie_publicationHighWater = QueryOk, ie_eventHighWater = QueryOk\<rparr>,
     cc_run = (\<lambda>cfg h d. (d, None)), cc_inspectLoad = QueryOk, cc_inspectState = all_queries_ok, cc_uuidText = (\<lambda>_. ''''), cc_encode = None\<rparr>"

definition sample_process :: command_process where
  "sample_process = \<lparr>pc_fs = lw_fs lock_start, pc_lock = None, pc_connected = False, pc_db = empty_database, pc_output = [], pc_log = []\<rparr>"

lemma sample_initialize_fails: "\<exists>e. Initialize (cc_initialize sample_calls) config (newDB 1 0 zero32) db = (newDB 1 0 zero32, db, Inl e)"
  by (auto simp: Initialize_def sample_calls_def newDB_def loadDataset_def split: sum.splits)

lemma sample_sync_logs: "length (pc_log (fst (run_main sample_calls [''sync''] True True sample_process))) = 4"
proof -
  obtain cfg where cfg: "SyncFromEnv (cc_ParseDuration sample_calls) (cc_gomaxprocs sample_calls) (cc_environment sample_calls) = Inr cfg" "cs_LockPath cfg \<noteq> ''''"
    using default_sync by (auto simp: sample_calls_def)
  obtain fs l where a: "Acquire (cc_acquire sample_calls) (cc_pid sample_calls) (cs_LockPath cfg) (pc_fs sample_process) = (fs, Inr l)"
    using cfg(2) by (simp add: lock_eval sample_calls_def sample_process_def)
  have o: "openAndPing sample_calls d p = (did ActPing (did (ActOpen d) (p\<lparr>pc_connected := True\<rparr>)), Inr (newDB 1 0 zero32))" for d p
    by (simp add: openAndPing_def sample_calls_def Open_def Ping_def)
  have "length (pc_log (fst (sync_owned sample_calls cfg (newDB 1 0 zero32) p))) = length (pc_log p) + 2" for p
  proof -
    let ?config = "\<lparr>dc_NetworkMagic = cs_NetworkMagic cfg, dc_NetworkName = cs_NetworkName cfg, dc_Start = storePoint (cs_Start cfg),
      dc_SourceBuild = effectiveBuildID (cc_buildID sample_calls)\<rparr>"
    obtain e where "Initialize (cc_initialize sample_calls) ?config (newDB 1 0 zero32) (pc_db p) = (newDB 1 0 zero32, pc_db p, Inl e)"
      using sample_initialize_fails by blast
    then show ?thesis by (simp add: sync_owned_def closeOwned_def case_prod_beta Let_def)
  qed
  then show ?thesis using cfg a by (simp add: run_main_def runCommand_def command_sync_def o) (simp add: sample_process_def)
qed

theorem commands_own_resources_witness:
  "\<exists>p' err. run_main sample_calls [''sync''] True True sample_process = (p', err) \<and> length (pc_log p') = 4 \<and>
     list_all snd (pc_log p') \<and> (pc_connected p' \<or> fs_flock (pc_fs p') = (\<lambda>_. None))"
proof -
  obtain p' err where r: "run_main sample_calls [''sync''] True True sample_process = (p', err)" by force
  have s: "fs_ok (pc_fs sample_process)" "\<not> pc_connected sample_process" "pc_log sample_process = []"
    by (simp_all add: sample_process_def lock_start_def fs_ok_def)
  have "list_all snd (pc_log p') \<and> (pc_connected p' \<or> fs_flock (pc_fs p') = (\<lambda>_. None))"
    using commands_own_resources [OF r s] by (auto simp: sample_process_def lock_start_def split: if_splits)
  with r sample_sync_logs show ?thesis by auto
qed

end
