(* ===== verification/Spec2Isabelle.thy ===== *)
theory Spec2Isabelle
  imports Runner_Laws Session_Properties Chainsync_Laws Normalize_Datums Normalize_Redeemers Adopted_Facts Command
begin

text \<open>
  \<^bold>\<open>clicksync\<close> copies a Cardano chain from several relays into ClickHouse. A block is stored only
  when every configured relay serves it, the stored chain follows the rollbacks all relays agree on,
  and after a crash the writer continues from exactly what it had made durable.

  \<^bold>\<open>Parts and their interaction.\<close> The command line takes the writer lock, opens the store and starts the
  runner (\<^verbatim>\<open>cmd/clicksync\<close>, \<^verbatim>\<open>internal/writerlock\<close>, \<^verbatim>\<open>internal/config\<close>). The runner reads the durable
  chain, lets the relay sessions intersect with it, reconciles the store with the common intersection and
  runs the pipeline until it fails or is cancelled (\<^verbatim>\<open>syncer/runner.go\<close>). One relay session per relay
  produces a stream of forward and rollback events (\<^verbatim>\<open>internal/relay\<close>). The agreement engine takes one
  event from each session and passes on the event all of them agree on (\<^verbatim>\<open>internal/agreement\<close>). A bounded
  buffer, charged in bytes, separates agreement from decoding (\<^verbatim>\<open>pipeline/byte_budget.go\<close>). The ordered
  mapper decodes blocks in parallel and hands them on in order (\<^verbatim>\<open>ordered.go\<close>); decoding projects a
  ledger block to facts (\<^verbatim>\<open>internal/normalize\<close>). The batcher groups decoded blocks, resolves rollbacks
  that concern blocks still in memory, and hands batches and rollbacks to a sink (\<^verbatim>\<open>batcher.go\<close>,
  \<^verbatim>\<open>store_sink.go\<close>). The store writes facts first and then the rows that make them canonical, and
  reconstructs its state from those rows alone (\<^verbatim>\<open>internal/store\<close>).

  \<^bold>\<open>Theories and sources.\<close>
  \<^item> \<open>Prelude\<close>: integer widths (\<open>u64\<close>, \<open>u32\<close>, \<dots> are words of that width; lengths of Go
    slices are natural numbers converted where the code converts them), fixed-size hashes, the bind of
    error results, list and word lemmas, the collections \<open>err_simps\<close> and
    \<open>word_bounds\<close>. \<open>Go_Text\<close>: what the program uses of \<^verbatim>\<open>strings\<close>, \<^verbatim>\<open>strconv\<close>, \<^verbatim>\<open>hex\<close> and \<^verbatim>\<open>net\<close>,
    over ASCII text. \<open>Sort_Func\<close>: \<^verbatim>\<open>slices.SortFunc\<close>; the locale \<open>comparison\<close> says when its result is
    unique although the library's sort is not stable.
  \<^item> \<open>Facts\<close>: \<^verbatim>\<open>internal/model\<close>. \<open>Relay_Types\<close>: \<^verbatim>\<open>relay/types.go\<close>, the event a
    session emits and the framed digest of a raw block; SHA-256 is a parameter.
  \<^item> \<open>Config\<close>, \<open>Config_Laws\<close>: \<^verbatim>\<open>internal/config\<close>, the environment, the parsers and the validation.
  \<^item> \<open>Relay_Failures\<close>, \<open>Fetch_Metrics\<close>, \<open>Session\<close>, \<open>Session_Laws\<close>, \<open>Session_Bounds\<close>,
    \<open>Session_Properties\<close>: \<^verbatim>\<open>relay/errors.go\<close>, \<^verbatim>\<open>fetch_metrics.go\<close> and \<^verbatim>\<open>session.go\<close>. Callbacks,
    range builder, fetch loop, reader and the account of raw bytes are moves of one transition system; its
    history keeps the messages the relay sent, the bytes it served and the events the reader was given.
    \<open>Chainsync_Client\<close>, \<open>Chainsync_Laws\<close>: \<^verbatim>\<open>chainsync_client.go\<close>, the pipelined requests, the handler
    of messages and the watch for late responses.
  \<^item> \<open>Agreement\<close>: \<^verbatim>\<open>agreement.go\<close> and \<^verbatim>\<open>errors.go\<close>. \<open>compare\<close> is the whole
    comparison of one event per relay, \<open>Next\<close> pulls one event from each source, a source being the
    list of its answers.
  \<^item> \<open>Byte_Budget\<close>: \<^verbatim>\<open>pipeline/byte_budget.go\<close>. \<open>acquire_turn\<close> is one pass of the loop of
    \<^verbatim>\<open>Acquire\<close>; goroutines that hold, wait and release form an inductive step relation over all
    interleavings. \<open>Ordered_Mapper\<close>, \<open>Mapper_Order\<close>, \<open>Mapper_Invariant\<close>, \<open>Mapper_Progress\<close>:
    \<^verbatim>\<open>ordered.go\<close>, the main loop and its workers as one transition system. \<open>Intake\<close>: the producer of
    \<^verbatim>\<open>runner.go\<close> with budget, channel and mapper.
  \<^item> \<open>Normalize\<close>: \<^verbatim>\<open>normalize/bundle.go\<close>, \<^verbatim>\<open>decode.go\<close>, \<^verbatim>\<open>supported.go\<close>. The objects of the ledger
    library are records of what their methods answer, a Go map is the list of its entries in the order a
    range visits them. \<open>Normalize_Facts\<close>, \<open>Normalize_Datums\<close>, \<open>Normalize_Order\<close>, \<open>Normalize_Redeemers\<close> hold its laws,
    \<open>Normalize_Sample\<close> a concrete block.
  \<^item> \<open>Allocator\<close>, \<open>Store_Types\<close>, \<open>Inserts\<close>: \<^verbatim>\<open>store/allocator.go\<close>,
    \<^verbatim>\<open>types.go\<close>, \<^verbatim>\<open>encoding.go\<close>, \<^verbatim>\<open>inserts.go\<close>, the rows of the nine fact tables
    a publication writes.
  \<^item> \<open>Database\<close>: the tables of \<^verbatim>\<open>migrations/001_initial.sql\<close> as lists of rows and one
    function per query of the store. A server call has an outcome: a query fails or answers; an insert
    is acknowledged, or fails after an arbitrary part of its rows became durable
    (\<open>SendFails\<close> with one flag per row). Every operation takes the outcomes of the calls it makes as an
    argument, so the theorems quantify over all of them.
  \<^item> \<open>Recovery\<close>: \<^verbatim>\<open>recovery.go\<close>. \<open>Publication\<close>: \<^verbatim>\<open>publication.go\<close>. \<open>Rollback\<close>:
    \<^verbatim>\<open>rollback.go\<close>. \<open>Dataset\<close>: \<^verbatim>\<open>dataset.go\<close> and \<^verbatim>\<open>Inspect\<close>. \<open>Migrations\<close>: the statement splitter of
    \<^verbatim>\<open>migrations/embed.go\<close> and a grammar of the texts it accepts. \<open>Connection\<close>: \<^verbatim>\<open>connection.go\<close> and
    \<^verbatim>\<open>migrate.go\<close>.
  \<^item> \<open>Chain\<close>, \<open>Chain_Recovery\<close>, \<open>Chain_Steps\<close>, \<open>Chain_Rollback\<close>: the abstract content of the
    store, a chain of blocks, newest first, and the relation \<open>store_inv\<close> of the tables to it; every row
    the writer adds moves the chain in one of three ways, and recovery computes the chain.
  \<^item> \<open>Store_Machine\<close>: publications, rollbacks and restarts in any order. The locale
    \<open>chain_writer\<close> is the contract of an operation that moves the chain; \<^verbatim>\<open>Publish\<close> and
    \<^verbatim>\<open>Rollback\<close> are its two instances. \<open>Adopted_Facts\<close>: what the tables hold of an adopted block.
  \<^item> \<open>Pipeline_Types\<close>, \<open>Metrics\<close>, \<open>Batcher\<close>, \<open>Batch_Bounds\<close>, \<open>Store_Sink\<close>:
    \<^verbatim>\<open>syncer/decode.go\<close>, \<^verbatim>\<open>metrics.go\<close>, \<^verbatim>\<open>batcher.go\<close>,
    \<^verbatim>\<open>store_sink.go\<close>. The batcher is a function of the list of turns its \<^verbatim>\<open>select\<close> takes;
    the locale \<open>batch_sink\<close> is what it relies on from its sink, and the store sink is the instance.
  \<^item> \<open>Runner\<close>, \<open>Runner_Laws\<close>: \<^verbatim>\<open>runner.go\<close>, the common intersection, the reconciliation, the outcome of
    an attempt, retries and their delays. One iteration of the loop takes what sessions answered as an
    argument, and for the end of a pipeline the order in which its stages and its producer returned and
    the process was cancelled.
  \<^item> \<open>Writer_Lock\<close>, \<open>Lock_Laws\<close>: \<^verbatim>\<open>writerlock/lock.go\<close> over paths, open files and \<^verbatim>\<open>flock\<close>. \<open>Command\<close>:
    \<^verbatim>\<open>cmd/clicksync/main.go\<close>.

  \<^bold>\<open>What is shown.\<close> The chain the store recovers is the chain its reported results promise, across
  failed and unacknowledged calls and restarts; publications and rollbacks move it exactly as reported,
  a publication by blocks of its candidates in their order; an adoption is durable only after all the facts of its block;
  recovery's intersection candidates are usable by the relay sessions; the dataset identity is written
  once, and a run starts exactly when it matches; a migration that was cut off can be resumed, and its text is split as its grammar says. The
  batcher over the store keeps the durable chain followed by the staged blocks equal to the chain of the
  agreed events. Batches respect the configured limits. The byte budget charges exactly what is held and
  loses no wake-up; the mapper keeps the order, its bounds and never deadlocks. A session delivers what its
  relay sent and served, in order and within its memory. The comparison agrees exactly on unanimity, and a
  decoded block is the decoding of bytes all relays served. The facts of a block are those of the ledger
  block, fit the schema, lose no datum, do not depend on the order of Go maps, and its redeemers name the
  target and script of their purpose and index. Attempts start from the common intersection, negotiation
  ends, only failures of relays are retried, and a run ends without an error only after a cancellation,
  and does so after a quiet one. One writer at a time is
  confirmed, and the database is used only behind the lock.

  \<^bold>\<open>Bounds.\<close> No loop runs on fuel: loops over data are structurally recursive or have a measure (the
  statement splitter), and loops that wait are step relations or functions of the list of their turns, so
  that a theorem about them holds after any number of turns.

  \<^bold>\<open>Hypotheses.\<close> A Go slice has fewer than \<open>2 ^ 63\<close> elements. Where blocks are traced to bytes,
  SHA-256 has no collision among the blocks compared. Where the batcher publishes to the store, a block has
  the point it was announced with (\<open>faithful_block\<close>): the program compares the relays with each other, and
  the bytes a relay serves with its header only by type. Texts are ASCII; \<^verbatim>\<open>time.ParseDuration\<close>, the number of
  processors, the clock and the ledger library are arguments. The mini-protocols of a connection call back
  one message at a time. The entries of a ledger map have different keys, and for the order of withdrawals
  every reward account has a credential: the comparison the program sorts them with is not transitive
  otherwise. Repeating a statement of the migration does nothing. The facts of a batch are fewer than
  \<open>2 ^ 64\<close>. A restarted writer is the only writer,
  which the writer lock ensures at the moment it is checked.

  \<^bold>\<open>Not modelled.\<close> Numbers in the texts of errors, logs and the periodic report of progress with its
  floating-point rates, the encoding of the status as JSON, process signals, the set-up and tear-down of a
  connection by the network library, the network protocol, the ledger decoder and the ClickHouse driver:
  all of it is I/O or third-party code.
\<close>

section \<open>From the store to the relays\<close>

text \<open>The candidates recovery is shown to offer are those the check of a session accepts.\<close>

lemma relay_accepts_validated: "relay_accepts cs \<longleftrightarrow> session_validateCandidates cs = None"
  by (auto simp: relay_accepts_def session_validateCandidates_def candidate_errors_None)

section \<open>From the relays to the store\<close>

text \<open>
  One run of a relay session: its configuration, its present state and its history. An event comes from
  a run when the run delivered it to its reader.
\<close>

type_synonym relay_run = "relay_config \<times> session \<times> history"

definition run_delivers :: "(bytes \<Rightarrow> hash32) \<Rightarrow> nat \<Rightarrow> relay_run \<Rightarrow> relay_event \<Rightarrow> bool" where
  "run_delivers sha256 mo run e \<longleftrightarrow> (case run of (c, s, h) \<Rightarrow> session_reachable sha256 mo c s h \<and> e \<in> set (hi_delivered h))"

definition run_served :: "relay_run \<Rightarrow> (u64 \<times> bytes) set" where
  "run_served run = (case run of (c, s, h) \<Rightarrow> set (hi_served h))"

definition run_headers :: "relay_run \<Rightarrow> (u64 \<times> block_header) set" where
  "run_headers run = (case run of (c, s, h) \<Rightarrow> {(blockType, header). \<exists>tip. SaidForward blockType header tip \<in> set (hi_sent h)})"

definition collision_free :: "(bytes \<Rightarrow> hash32) \<Rightarrow> relay_run list \<Rightarrow> bool" where
  "collision_free sha256 runs \<longleftrightarrow> inj_on sha256 ((\<lambda>(t, raw). raw_block_frame t raw) ` (\<Union>run \<in> set runs. run_served run))"

lemma delivered_block:
  assumes "run_delivers sha256 mo run e" and "re_Kind e = KindForward"
  obtains header raw where "(re_BlockType e, header) \<in> run_headers run" and "says_header header (re_Point e)" and "(re_BlockType e, raw) \<in> run_served run"
    and "re_Digest e = RawBlockDigest sha256 (re_BlockType e) raw"
    and "re_RawCBOR e = (if rl_RelayIndex (fst run) = 0 then raw else [])"
proof -
  obtain c s h where run: "run = (c, s, h)" by (cases run)
  with assms(1) have "session_reachable sha256 mo c s h" "e \<in> set (hi_delivered h)" by (simp_all add: run_delivers_def)
  then show thesis
  proof (rule delivered_block_served [OF _ _ assms(2)])
    fix header tip raw
    assume "SaidForward (re_BlockType e) header tip \<in> set (hi_sent h)" "says_header header (re_Point e)"
      "(re_BlockType e, raw) \<in> set (hi_served h)" "re_Digest e = RawBlockDigest sha256 (re_BlockType e) raw"
      "re_RawCBOR e = (if rl_RelayIndex c = 0 then raw else [])"
    then show thesis by (intro that [of header raw]) (auto simp: run run_headers_def run_served_def)
  qed
qed

text \<open>
  C3. Unanimity down to the bytes: take one event from a run of each relay's session, the first with
  relay index 0. When the comparison agrees on them and the block is decoded, every relay sent a
  header with the slot, hash and number of the block's point and served exactly the bytes that were decoded, under the same
  block type, and is named as evidence in the order of the relays; the facts to be stored project the
  ledger block of these bytes. SHA-256 is assumed to have no collision among the blocks these sessions
  were served.
\<close>

theorem decoded_block_served_by_every_relay:
  assumes "compare events = (Inr agreed :: unit agreement_error + agreed_event)"
    and "list_all2 (run_delivers sha256 mo) runs events" and "rl_RelayIndex (fst (hd runs)) = 0"
    and "collision_free sha256 runs"
    and "DecodeAgreedBlock (Decode lib) stopped agreed = Inr b"
  shows "dbk_Relays b = map re_Relay events \<and> runs \<noteq> [] \<and>
    (\<forall>run \<in> set runs. \<exists>facts blockType raw header blk. (blockType, raw) \<in> run_served run \<and> Decode lib blockType raw = Inr facts \<and>
       dbk_Block b = facts\<lparr>bk_ObservedAt := ae_ObservedAt agreed\<rparr> \<and> (blockType, header) \<in> run_headers run \<and>
       says_header header (dbk_ChainPoint b) \<and>
       dbk_ContentHash b = RawBlockDigest sha256 blockType raw \<and>
       nl_NewBlockFromCbor lib blockType raw = Inr (Some blk) \<and> projects_block blk facts)"
proof -
  from assms(5) obtain facts where kind: "ae_Kind agreed = EventForward"
    and facts: "Decode lib (ae_BlockType agreed) (ae_RawCBOR agreed) = Inr facts"
    and b: "b = \<lparr>dbk_Block = facts\<lparr>bk_ObservedAt := ae_ObservedAt agreed\<rparr>, dbk_ChainPoint = ae_Point agreed,
      dbk_ContentHash = ae_ContentHash agreed, dbk_RawLength = ae_RawLength agreed, dbk_Relays = ae_Relays agreed\<rparr>"
    by (auto simp: DecodeAgreedBlock_def clonePoint_def cloneRelays_def split: if_splits sum.splits)
  have agreed: "agreed = agreedForward events" and u: "unanimous_forward events"
    using assms(1) kind by (auto simp: compare_Inr_iff agreedRollback_def kind_defs)
  let ?first = "hd events"
  have ne: "events \<noteq> []" and kinds: "\<And>e. e \<in> set events \<Longrightarrow> re_Kind e = KindForward"
    using u unfolding unanimous_forward_def by blast+
  have runs: "runs \<noteq> []" using assms(2) ne by auto
  have "run_delivers sha256 mo (hd runs) ?first" using assms(2) ne runs by (cases runs; cases events) auto
  then obtain raw where raw: "(re_BlockType ?first, raw) \<in> run_served (hd runs)"
    "re_Digest ?first = RawBlockDigest sha256 (re_BlockType ?first) raw" "re_RawCBOR ?first = raw"
    by (rule delivered_block [OF _ kinds [OF hd_in_set [OF ne]]]) (simp add: assms(3))
  have fields: "dbk_Relays b = map re_Relay events" "dbk_ChainPoint b = re_Point ?first"
    "dbk_ContentHash b = re_Digest ?first" "dbk_Block b = facts\<lparr>bk_ObservedAt := ae_ObservedAt agreed\<rparr>"
    "Decode lib (re_BlockType ?first) raw = Inr facts"
    using facts raw(3) by (simp_all add: b agreed agreedForward_def relayIdentities_def Let_def)
  obtain blk where blk: "nl_NewBlockFromCbor lib (re_BlockType ?first) raw = Inr (Some blk)" "projects_block blk facts"
    by (rule Decode_Inr [OF fields(5)]) (auto dest: Bundle_projects)
  show ?thesis
  proof (intro conjI ballI)
    fix run
    assume run: "run \<in> set runs"
    then obtain e where e: "e \<in> set events" "run_delivers sha256 mo run e"
      using assms(2) by (metis in_set_conv_nth list_all2_lengthD list_all2_nthD)
    obtain header raw' where r: "(re_BlockType e, header) \<in> run_headers run" "says_header header (re_Point e)" "(re_BlockType e, raw') \<in> run_served run"
      "re_Digest e = RawBlockDigest sha256 (re_BlockType e) raw'"
      by (rule delivered_block [OF e(2) kinds [OF e(1)]])
    have same: "re_BlockType e = re_BlockType ?first" "re_Digest e = re_Digest ?first" "re_Point e = re_Point ?first"
      using u e(1) unfolding unanimous_forward_def by blast+
    have "inj_on sha256 {raw_block_frame (re_BlockType ?first) raw', raw_block_frame (re_BlockType ?first) raw}"
      by (rule inj_on_subset [OF assms(4) [unfolded collision_free_def]])
        (use raw(1) r(3) same(1) run hd_in_set [OF runs] in force)
    then have "raw' = raw" using RawBlockDigest_inject raw(2) r(4) same(1,2) by metis
    then show "\<exists>facts blockType raw header blk. (blockType, raw) \<in> run_served run \<and> Decode lib blockType raw = Inr facts \<and>
       dbk_Block b = facts\<lparr>bk_ObservedAt := ae_ObservedAt agreed\<rparr> \<and> (blockType, header) \<in> run_headers run \<and>
       says_header header (dbk_ChainPoint b) \<and>
       dbk_ContentHash b = RawBlockDigest sha256 blockType raw \<and>
       nl_NewBlockFromCbor lib blockType raw = Inr (Some blk) \<and> projects_block blk facts"
      using r fields(2-5) same raw(2) blk
      by (intro exI [of _ facts] exI [of _ "re_BlockType ?first"] exI [of _ raw] exI [of _ header] exI [of _ blk]) simp
  qed (use fields(1) runs in simp_all)
qed

text \<open>Two relays announce the same two headers; each serves the first block and its event is read.\<close>

definition sample_config_at :: "int \<Rightarrow> relay_config" where
  "sample_config_at i = sample_relay_config\<lparr>rl_RelayIndex := i\<rparr>"

definition sample_serving :: "int \<Rightarrow> session_choice list" where
  "sample_serving i = sample_announce @ [FetchTake 5, RangeRequested None 0, RawBlock 6 5 [1, 2]] @
     (if i = 0 then [ReserveRaw 0] else []) @ [CallbackSend 0, ReadNext]"

definition sample_start :: "int \<Rightarrow> session" where
  "sample_start i = projr (NewSession 8 True (sample_config_at i))"

definition sample_reached :: "int \<Rightarrow> session \<times> history" where
  "sample_reached i = the (session_run sample_sha 10 (sample_serving i) (sample_start i, no_history))"

definition sample_run :: "int \<Rightarrow> relay_run" where
  "sample_run i = (sample_config_at i, sample_reached i)"

definition sample_delivered :: "int \<Rightarrow> relay_event" where
  "sample_delivered i = hd (hi_delivered (snd (sample_reached i)))"

lemmas serving_eval = session_eval sample_serving_def sample_start_def sample_config_at_def

lemma sample_started:
  "session_reachable sample_sha 10 (sample_config_at 0) (sample_start 0) no_history"
  "session_reachable sample_sha 10 (sample_config_at 1) (sample_start 1) no_history"
  by (rule session_new [where maxRecv = 8 and logger = True], simp add: serving_eval)+

lemma sample_serves:
  "session_run sample_sha 10 (sample_serving 0) (sample_start 0, no_history) \<noteq> None"
  "session_run sample_sha 10 (sample_serving 1) (sample_start 1, no_history) \<noteq> None"
  by (simp_all add: serving_eval)

lemma sample_history:
  "hi_delivered (snd (sample_reached 0)) = [sample_delivered 0]" "hi_served (snd (sample_reached 0)) = [(5, [1, 2])]"
  "hi_delivered (snd (sample_reached 1)) = [sample_delivered 1]" "hi_served (snd (sample_reached 1)) = [(5, [1, 2])]"
  by (simp_all add: sample_delivered_def sample_reached_def serving_eval)

lemma sample_run_delivers:
  assumes "session_run sample_sha 10 (sample_serving i) (sample_start i, no_history) \<noteq> None"
    and "session_reachable sample_sha 10 (sample_config_at i) (sample_start i) no_history"
    and "hi_delivered (snd (sample_reached i)) = [sample_delivered i]"
  shows "run_delivers sample_sha 10 (sample_run i) (sample_delivered i)"
proof -
  have "session_run sample_sha 10 (sample_serving i) (sample_start i, no_history) = Some (fst (sample_reached i), snd (sample_reached i))"
    using assms(1) by (auto simp: sample_reached_def)
  from session_run_reachable [OF this assms(2)] assms(3) show ?thesis
    by (simp add: run_delivers_def sample_run_def case_prod_beta)
qed

lemma sample_events:
  "re_Kind (sample_delivered 0) = KindForward" "re_Kind (sample_delivered 1) = KindForward"
  "re_RawCBOR (sample_delivered 0) = [1, 2]" "re_RawCBOR (sample_delivered 1) = []"
  "re_RawLength (sample_delivered 0) = 2" "re_ObservedAt (sample_delivered 0) = 6"
  "re_RawLength (sample_delivered 1) = 2" "re_Point (sample_delivered 1) = re_Point (sample_delivered 0)"
  "re_BlockType (sample_delivered 1) = re_BlockType (sample_delivered 0)" "re_Digest (sample_delivered 1) = re_Digest (sample_delivered 0)"
  by (simp_all add: sample_delivered_def sample_reached_def serving_eval)

theorem decoded_block_served_by_every_relay_witness:
  "\<exists>agreed (b :: decoded_block). compare [sample_delivered 0, sample_delivered 1] = (Inr agreed :: unit agreement_error + agreed_event) \<and>
     dbk_Relays b = [re_Relay (sample_delivered 0), re_Relay (sample_delivered 1)] \<and>
     dbk_ContentHash b = RawBlockDigest sample_sha 5 [1, 2] \<and> projects_block visited_block sample_bundle"
proof -
  let ?events = "[sample_delivered 0, sample_delivered 1]" and ?runs = "[sample_run 0, sample_run 1]"
  let ?agreed = "agreedForward ?events"
  have "unanimous_forward ?events" by (simp add: unanimous_forward_def sample_events)
  then have c: "compare ?events = (Inr ?agreed :: unit agreement_error + agreed_event)" by (simp only: compare_Inr_iff simp_thms)
  have r: "list_all2 (run_delivers sample_sha 10) ?runs ?events" 
    using sample_run_delivers [OF sample_serves(1) sample_started(1) sample_history(1)]
      sample_run_delivers [OF sample_serves(2) sample_started(2) sample_history(3)] by simp
  have z: "rl_RelayIndex (fst (hd ?runs)) = 0" by (simp add: sample_run_def sample_config_at_def)
  have served: "run_served (sample_run 0) = {(5, [1, 2])}" "run_served (sample_run 1) = {(5, [1, 2])}"
    using sample_history by (simp_all add: run_served_def sample_run_def case_prod_beta)
  have f: "collision_free sample_sha ?runs" by (simp add: collision_free_def served)
  obtain b where b: "DecodeAgreedBlock (Decode sample_lib) False ?agreed = Inr b"
    by (simp add: DecodeAgreedBlock_def agreedForward_def sample_events Let_def kind_defs sample_decode)
  from decoded_block_served_by_every_relay [OF c r z f b] served
  have "dbk_Relays b = map re_Relay ?events \<and> dbk_ContentHash b = RawBlockDigest sample_sha 5 [1, 2] \<and> projects_block visited_block sample_bundle"
    by (auto simp: sample_decode sample_ledger_decode)
  with c show ?thesis by auto
qed

end
